(* ===== verification/Prelude.thy ===== *)
theory Prelude
  imports Main "HOL-Library.Word"
begin

text \<open>
  Shared vocabulary of the development: the machine integers of the C code as words, byte
  buffers as lists of bytes, little- and big-endian field access (the \<open>grub_le_to_cpu*\<close> and
  \<open>grub_be_to_cpu*\<close> macros applied to a field of a packed structure), and the generic lemmas on
  words, lists and slices the component theories use.
\<close>

unbundle bit_operations_syntax

named_theorems consts_simps \<open>constants of the C headers, unfolded during evaluation\<close>

type_synonym u8 = "8 word"
type_synonym u16 = "16 word"
type_synonym u32 = "32 word"
type_synonym u64 = "64 word"
type_synonym bytes = "u8 list"

subsection \<open>Checked arithmetic\<close>

text \<open>
  \<open>grub_add\<close> and \<open>grub_sub\<close> of \<open>safemath.h\<close> on 64-bit operands; \<open>None\<close> is the overflow they
  report, after which no caller looks at the stored result.
\<close>

definition grub_add :: "u64 \<Rightarrow> u64 \<Rightarrow> u64 option" where
  "grub_add a b = (if unat a + unat b < 2 ^ 64 then Some (a + b) else None)"

definition grub_sub :: "u64 \<Rightarrow> u64 \<Rightarrow> u64 option" where
  "grub_sub a b = (if b \<le> a then Some (a - b) else None)"

subsection \<open>Slices of buffers\<close>

definition bslice :: "nat \<Rightarrow> nat \<Rightarrow> 'a list \<Rightarrow> 'a list" where
  "bslice off n xs = take n (drop off xs)"

definition byte_at :: "bytes \<Rightarrow> nat \<Rightarrow> u8" where
  "byte_at bs i = (if i < length bs then bs ! i else 0)"

text \<open>
  A field of a packed structure that was read into a buffer. The buffers the code decodes are
  filled completely before a field is looked at, so the value of \<open>byte_at\<close> past the end is never
  used by the model; it is fixed to zero to keep evaluation total.
\<close>

fun le_word :: "bytes \<Rightarrow> nat \<Rightarrow> nat \<Rightarrow> nat" where
  "le_word bs off 0 = 0"
| "le_word bs off (Suc n) = unat (byte_at bs off) + 256 * le_word bs (Suc off) n"

fun be_word :: "bytes \<Rightarrow> nat \<Rightarrow> nat \<Rightarrow> nat \<Rightarrow> nat" where
  "be_word bs off 0 acc = acc"
| "be_word bs off (Suc n) acc = be_word bs (Suc off) n (256 * acc + unat (byte_at bs off))"

definition le16 :: "bytes \<Rightarrow> nat \<Rightarrow> u16" where
  "le16 bs off = of_nat (le_word bs off 2)"

definition le32 :: "bytes \<Rightarrow> nat \<Rightarrow> u32" where
  "le32 bs off = of_nat (le_word bs off 4)"

definition le64 :: "bytes \<Rightarrow> nat \<Rightarrow> u64" where
  "le64 bs off = of_nat (le_word bs off 8)"

definition be16 :: "bytes \<Rightarrow> nat \<Rightarrow> u16" where
  "be16 bs off = of_nat (be_word bs off 2 0)"

definition be32 :: "bytes \<Rightarrow> nat \<Rightarrow> u32" where
  "be32 bs off = of_nat (be_word bs off 4 0)"

definition be64 :: "bytes \<Rightarrow> nat \<Rightarrow> u64" where
  "be64 bs off = of_nat (be_word bs off 8 0)"

lemmas field_defs = le16_def le32_def le64_def be16_def be32_def be64_def

subsection \<open>Lemmas on slices and bytes\<close>

lemma length_bslice [simp]: "length (bslice off n xs) = min n (length xs - off)"
  by (simp add: bslice_def)

lemma bslice_0_all [simp]: "length xs \<le> n \<Longrightarrow> bslice 0 n xs = xs"
  by (simp add: bslice_def)

lemma bslice_map_upt:
  assumes "off + n \<le> m"
  shows "bslice off n (map f [k..<k + m]) = map f [k + off..<k + off + n]"
  using assms by (simp add: bslice_def drop_map take_map)

lemma map_upt_append:
  "map f [a..<a + n] @ map f [a + n..<a + n + m] = map f [a..<a + n + (m::nat)]"
  by (metis le_add1 map_append upt_add_eq_append)

lemma byte_at_nth [simp]: "i < length bs \<Longrightarrow> byte_at bs i = bs ! i"
  by (simp add: byte_at_def)

lemma le_word_bound: "le_word bs off n < 256 ^ n"
proof (induction n arbitrary: off)
  case 0
  then show ?case by simp
next
  case (Suc n)
  have "unat (byte_at bs off) < 256"
    using unsigned_less [of "byte_at bs off"] by simp
  moreover have "le_word bs (Suc off) n + 1 \<le> 256 ^ n"
    using Suc.IH [of "Suc off"] by simp
  ultimately have "unat (byte_at bs off) + 256 * le_word bs (Suc off) n < 256 * 256 ^ n"
    by linarith
  then show ?case by simp
qed

subsection \<open>Lemmas on words\<close>

lemma unat_push_bit:
  "unat (push_bit n (w :: 'a::len word)) = (unat w * 2 ^ n) mod 2 ^ LENGTH('a)"
  by (simp only: unsigned_push_bit_eq take_bit_eq_mod) (simp add: push_bit_eq_mult)

lemma unat_push_bit_exact:
  fixes w :: "'a::len word"
  assumes "unat w * 2 ^ n < 2 ^ LENGTH('a)"
  shows "unat (push_bit n w) = unat w * 2 ^ n"
  using assms by (simp add: unat_push_bit)

lemma unat_drop_bit: "unat (drop_bit n (w :: 'a::len word)) = unat w div 2 ^ n"
  by (simp only: unat_drop_bit_eq) (simp add: drop_bit_eq_div)

lemma unat_and_mask: "unat (w AND mask n :: 'a::len word) = unat w mod 2 ^ n"
  by (metis take_bit_eq_mask take_bit_eq_mod unsigned_take_bit_eq)

lemma unat_ucast_mod:
  "unat (ucast (w :: 'a::len word) :: 'b::len word) = unat w mod 2 ^ LENGTH('b)"
  by (simp add: unsigned_ucast_eq take_bit_eq_mod)

lemma unat_plus_exact:
  fixes a b :: "'a::len word"
  assumes "unat a + unat b < 2 ^ LENGTH('a)"
  shows "unat (a + b) = unat a + unat b"
  using assms by (simp add: unat_word_ariths)

lemma unat_minus_exact:
  fixes a b :: "'a::len word"
  assumes "b \<le> a"
  shows "unat (a - b) = unat a - unat b"
  using assms by (simp add: unat_sub)

lemma word_align_down:
  fixes w :: "'a::len word"
  shows "unat (w AND NOT (mask n)) = unat w - unat w mod 2 ^ n"
proof -
  have "w AND NOT (mask n) = w - (w AND mask n)"
    by (subst disjunctive_diff) (auto simp: bit_simps intro!: bit_word_eqI)
  moreover have "w AND mask n \<le> w"
    by (simp add: word_and_le2)
  ultimately show ?thesis
    by (simp add: unat_minus_exact unat_and_mask)
qed

text \<open>The room test of the range checks: at least \<open>n\<close> units between \<open>s\<close> and \<open>t\<close>.\<close>

lemma word_room:
  fixes s t n :: "'a::len word"
  shows "(t \<le> s \<or> t - s < n) \<longleftrightarrow> \<not> (unat s < unat t \<and> unat s + unat n \<le> unat t)"
proof (cases "t \<le> s")
  case True
  then show ?thesis by (auto simp: word_le_nat_alt)
next
  case False
  then have "unat (t - s) = unat t - unat s" and "unat s < unat t"
    by (simp_all add: unat_minus_exact word_le_nat_alt)
  then show ?thesis
    by (auto simp: word_less_nat_alt word_le_nat_alt)
qed

lemma grub_add_Some: "grub_add a b = Some c \<longleftrightarrow> unat c = unat a + unat b"
proof
  assume "grub_add a b = Some c"
  then show "unat c = unat a + unat b"
    by (auto simp: grub_add_def unat_plus_exact split: if_splits)
next
  assume c: "unat c = unat a + unat b"
  then have "unat a + unat b < 2 ^ 64" using unsigned_less [of c, where 'a = nat] by simp
  with c show "grub_add a b = Some c"
    by (simp add: grub_add_def word_unat_eq_iff unat_plus_exact)
qed

lemma grub_add_None: "grub_add a b = None \<longleftrightarrow> 2 ^ 64 \<le> unat a + unat b"
  by (auto simp: grub_add_def)

lemma grub_sub_Some: "grub_sub a b = Some c \<longleftrightarrow> unat b \<le> unat a \<and> unat c = unat a - unat b"
  by (auto simp: grub_sub_def word_le_nat_alt word_unat_eq_iff unat_minus_exact)

lemma sint_small: "unat (w :: u64) < 2 ^ 63 \<Longrightarrow> sint w = int (unat w)"
proof -
  assume "unat w < 2 ^ 63"
  then have "int (unat w) < int (2 ^ 63)" by linarith
  then have "uint w < 2 ^ 63" by simp
  moreover have "- (2 ^ 63) \<le> uint w" by (rule order_trans [OF _ uint_ge_0]) simp
  ultimately have "sint w = uint w"
    unfolding sint_uint by (intro signed_take_bit_int_eq_self) simp_all
  then show ?thesis by simp
qed

lemma bslice_byte_at:
  "off + n \<le> length d \<Longrightarrow> bslice off n d = map (byte_at d) [off..<off + n]"
  by (auto simp: bslice_def byte_at_def intro!: nth_equalityI)

end
