(* ===== verification/Errors.thy ===== *)
theory Errors
  imports Prelude
begin

text \<open>
  The error state of the core (\<open>grub/include/grub/err.h\<close>, \<open>grub/grub-core/kern/err.c\<close>): the
  error codes, the active error \<open>grub_errno\<close> with its message, and the bounded stack of saved
  errors worked by \<open>grub_error_push\<close>, \<open>grub_error_pop\<close> and drained by \<open>grub_print_error\<close>.
  A message is modelled by its text; \<open>grub_error\<close> takes the text that the formatting of its
  variable arguments has produced.
\<close>

datatype (plugins only: code size) grub_err_t =
    GRUB_ERR_NONE
  | GRUB_ERR_TEST_FAILURE
  | GRUB_ERR_BAD_MODULE
  | GRUB_ERR_OUT_OF_MEMORY
  | GRUB_ERR_BAD_FILE_TYPE
  | GRUB_ERR_FILE_NOT_FOUND
  | GRUB_ERR_FILE_READ_ERROR
  | GRUB_ERR_BAD_FILENAME
  | GRUB_ERR_UNKNOWN_FS
  | GRUB_ERR_BAD_FS
  | GRUB_ERR_BAD_NUMBER
  | GRUB_ERR_OUT_OF_RANGE
  | GRUB_ERR_UNKNOWN_DEVICE
  | GRUB_ERR_BAD_DEVICE
  | GRUB_ERR_READ_ERROR
  | GRUB_ERR_WRITE_ERROR
  | GRUB_ERR_UNKNOWN_COMMAND
  | GRUB_ERR_INVALID_COMMAND
  | GRUB_ERR_BAD_ARGUMENT
  | GRUB_ERR_BAD_PART_TABLE
  | GRUB_ERR_UNKNOWN_OS
  | GRUB_ERR_BAD_OS
  | GRUB_ERR_NO_KERNEL
  | GRUB_ERR_BAD_FONT
  | GRUB_ERR_NOT_IMPLEMENTED_YET
  | GRUB_ERR_SYMLINK_LOOP
  | GRUB_ERR_BAD_COMPRESSED_DATA
  | GRUB_ERR_MENU
  | GRUB_ERR_TIMEOUT
  | GRUB_ERR_IO
  | GRUB_ERR_ACCESS_DENIED
  | GRUB_ERR_EXTRACTOR
  | GRUB_ERR_NET_BAD_ADDRESS
  | GRUB_ERR_NET_ROUTE_LOOP
  | GRUB_ERR_NET_NO_ROUTE
  | GRUB_ERR_NET_NO_ANSWER
  | GRUB_ERR_NET_NO_CARD
  | GRUB_ERR_WAIT
  | GRUB_ERR_BUG
  | GRUB_ERR_NET_PORT_CLOSED
  | GRUB_ERR_NET_INVALID_RESPONSE
  | GRUB_ERR_NET_UNKNOWN_ERROR
  | GRUB_ERR_NET_PACKET_TOO_BIG
  | GRUB_ERR_NET_NO_DOMAIN
  | GRUB_ERR_EOF
  | GRUB_ERR_BAD_SIGNATURE
  | GRUB_ERR_BAD_FIRMWARE
  | GRUB_ERR_STILL_REFERENCED
  | GRUB_ERR_RECURSION_DEPTH
  | GRUB_ERR_EXISTS

abbreviation GRUB_ERROR_STACK_SIZE :: nat where
  "GRUB_ERROR_STACK_SIZE \<equiv> 10"

text \<open>
  The global variables of \<open>err.c\<close>. \<open>error_stack\<close> holds the items below
  \<open>grub_error_stack_pos\<close>, the most recent first; \<open>err_output\<close> collects what
  \<open>grub_err_printf\<close> writes, in order.
\<close>

record err_state =
  grub_errno :: grub_err_t
  grub_errmsg :: string
  error_stack :: "(grub_err_t \<times> string) list"
  grub_error_stack_assert :: bool
  grub_err_printed_errors :: nat
  err_output :: "string list"

definition err_init :: err_state where
  "err_init = \<lparr> grub_errno = GRUB_ERR_NONE, grub_errmsg = [], error_stack = [],
     grub_error_stack_assert = False, grub_err_printed_errors = 0, err_output = [] \<rparr>"

definition grub_error :: "grub_err_t \<Rightarrow> string \<Rightarrow> err_state \<Rightarrow> err_state" where
  "grub_error n msg s = s\<lparr> grub_errno := n, grub_errmsg := msg \<rparr>"

definition grub_error_push :: "err_state \<Rightarrow> err_state" where
  "grub_error_push s =
     (let s1 = (if length (error_stack s) < GRUB_ERROR_STACK_SIZE
                then s\<lparr> error_stack := (grub_errno s, grub_errmsg s) # error_stack s \<rparr>
                else s\<lparr> grub_error_stack_assert := True \<rparr>)
      in s1\<lparr> grub_errno := GRUB_ERR_NONE \<rparr>)"

definition grub_error_pop :: "err_state \<Rightarrow> bool \<times> err_state" where
  "grub_error_pop s =
     (case error_stack s of
        (e, m) # rest \<Rightarrow>
          (True, s\<lparr> error_stack := rest, grub_errno := e, grub_errmsg := m \<rparr>)
      | [] \<Rightarrow> (False, s\<lparr> grub_errno := GRUB_ERR_NONE \<rparr>))"

lemma grub_error_pop_shrinks:
  "fst (grub_error_pop s) \<Longrightarrow> length (error_stack (snd (grub_error_pop s))) < length (error_stack s)"
  by (auto simp: grub_error_pop_def split: list.splits)

text \<open>The body of the loop of \<open>grub_print_error\<close> and the loop itself, a \<open>do ... while\<close>.\<close>

definition print_active :: "err_state \<Rightarrow> err_state" where
  "print_active s =
     (if grub_errno s \<noteq> GRUB_ERR_NONE
      then s\<lparr> err_output := err_output s @ [grub_errmsg s],
              grub_err_printed_errors := Suc (grub_err_printed_errors s) \<rparr>
      else s)"

lemma print_active_simps [simp]:
  "error_stack (print_active s) = error_stack s"
  "grub_error_stack_assert (print_active s) = grub_error_stack_assert s"
  "err_output (print_active s) =
     err_output s @ (if grub_errno s \<noteq> GRUB_ERR_NONE then [grub_errmsg s] else [])"
  by (simp_all add: print_active_def)

function print_loop :: "err_state \<Rightarrow> err_state" where
  "print_loop s =
     (let s1 = print_active s; r = grub_error_pop s1
      in if fst r then print_loop (snd r) else snd r)"
  by pat_completeness auto
termination
  by (relation "measure (\<lambda>s. length (error_stack s))")
     (auto dest: grub_error_pop_shrinks)

declare print_loop.simps [simp del]

definition assert_message :: string where
  "assert_message = ''assert: error stack overflow detected!''"

definition grub_print_error :: "err_state \<Rightarrow> err_state" where
  "grub_print_error s =
     (let s1 = print_loop s
      in if grub_error_stack_assert s1
         then s1\<lparr> err_output := err_output s1 @ [assert_message],
                  grub_error_stack_assert := False \<rparr>
         else s1)"

text \<open>The well-formedness of the error state: the stack never outgrows its array.\<close>

definition err_wf :: "err_state \<Rightarrow> bool" where
  "err_wf s \<longleftrightarrow> length (error_stack s) \<le> GRUB_ERROR_STACK_SIZE"

subsection \<open>Lemmas\<close>

lemma grub_error_simps [simp]:
  "grub_errno (grub_error n m s) = n"
  "grub_errmsg (grub_error n m s) = m"
  "error_stack (grub_error n m s) = error_stack s"
  by (simp_all add: grub_error_def)

lemma grub_error_push_errno [simp]: "grub_errno (grub_error_push s) = GRUB_ERR_NONE"
  by (simp add: grub_error_push_def Let_def)

lemma grub_error_push_pop:
  assumes "length (error_stack s) < GRUB_ERROR_STACK_SIZE"
  shows "grub_error_pop (grub_error_push s) = (True, s)"
  using assms by (simp add: grub_error_push_def grub_error_pop_def Let_def)

lemma err_wf_ops:
  assumes "err_wf s"
  shows "err_wf (grub_error n m s)" and "err_wf (grub_error_push s)"
    and "err_wf (snd (grub_error_pop s))"
  using assms
  by (auto simp: err_wf_def grub_error_push_def grub_error_pop_def Let_def split: list.splits)

lemma print_loop_effect:
  "error_stack (print_loop s) = [] \<and>
   grub_errno (print_loop s) = GRUB_ERR_NONE \<and>
   grub_error_stack_assert (print_loop s) = grub_error_stack_assert s \<and>
   err_output (print_loop s) = err_output s @
     map snd (filter (\<lambda>p. fst p \<noteq> GRUB_ERR_NONE) ((grub_errno s, grub_errmsg s) # error_stack s))"
proof (induction s rule: print_loop.induct)
  case (1 s)
  show ?case
  proof (cases "error_stack s")
    case Nil
    then show ?thesis
      by (subst (1 2 3 4) print_loop.simps)
         (auto simp: Let_def grub_error_pop_def print_active_def)
  next
    case (Cons p rest)
    obtain e m where p: "p = (e, m)" by (cases p)
    let ?r = "grub_error_pop (print_active s)"
    have r: "?r = (True, (print_active s)\<lparr> error_stack := rest, grub_errno := e, grub_errmsg := m \<rparr>)"
      using Cons p by (simp add: grub_error_pop_def)
    have unf: "print_loop s = print_loop (snd ?r)"
      by (subst print_loop.simps) (simp add: Let_def r)
    have "fst ?r" by (simp add: r)
    from "1.IH" [OF refl refl this] show ?thesis
      unfolding unf r by (simp add: Cons p)
  qed
qed

end
