(* ===== verification/Proc_Stats.thy ===== *)
theory Proc_Stats
  imports Errors
begin

text \<open>
  The diagnostic accounting of \<open>grub/rover/proc.c\<close>: per-disk counters found by name in a bounded
  table (\<open>proc_find_diskstat\<close>, \<open>grub_procfs_record_disk_read\<close>, \<open>grub_procfs_record_cache\<close>) and
  the ring buffer of the last recorded errors (\<open>grub_procfs_record_error\<close>).
\<close>

abbreviation ROVER_PROC_STATS_MAX :: nat where "ROVER_PROC_STATS_MAX \<equiv> 256"
abbreviation ROVER_PROC_ERRORS_MAX :: nat where "ROVER_PROC_ERRORS_MAX \<equiv> 32"
abbreviation ROVER_PROC_NAME_MAX :: nat where "ROVER_PROC_NAME_MAX \<equiv> 128"
abbreviation GRUB_MAX_ERRMSG :: nat where "GRUB_MAX_ERRMSG \<equiv> 256"

text \<open>\<open>GRUB_DISK_DEVICE_PROCFS_ID\<close>, the fourteenth constant of \<open>enum grub_disk_dev_id\<close>.\<close>

abbreviation GRUB_DISK_DEVICE_PROCFS_ID :: u64 where "GRUB_DISK_DEVICE_PROCFS_ID \<equiv> 13"

record rover_proc_diskstat =
  stat_name :: string
  stat_reads :: u64
  stat_bytes :: u64
  stat_cache_hits :: u64
  stat_cache_misses :: u64
  stat_errors :: u64

record rover_proc_error =
  pe_sequence :: u64
  pe_error :: grub_err_t
  pe_message :: string

text \<open>
  \<open>diskstats\<close> holds the first \<open>diskstats_count\<close> slots of the array; \<open>proc_errors\<close> is the whole
  ring, with \<open>None\<close> for a slot that was never written.
\<close>

record proc_state =
  diskstats :: "rover_proc_diskstat list"
  proc_errors :: "rover_proc_error option list"
  errors_next :: nat
  errors_count :: nat
  error_sequence :: u64
  proc_enabled :: bool
  proc_observing :: bool

definition proc_init :: proc_state where
  "proc_init = \<lparr> diskstats = [], proc_errors = replicate ROVER_PROC_ERRORS_MAX None,
     errors_next = 0, errors_count = 0, error_sequence = 0,
     proc_enabled = True, proc_observing = False \<rparr>"

text \<open>\<open>grub_snprintf (buf, size, "%s", s)\<close> keeps at most \<open>size - 1\<close> characters.\<close>

definition snprintf_s :: "nat \<Rightarrow> string \<Rightarrow> string" where
  "snprintf_s n s = take (n - 1) s"

fun find_stat_index :: "string \<Rightarrow> rover_proc_diskstat list \<Rightarrow> nat \<Rightarrow> nat option" where
  "find_stat_index name [] i = None"
| "find_stat_index name (s # ss) i =
     (if stat_name s = name then Some i else find_stat_index name ss (Suc i))"

definition proc_find_diskstat :: "string \<Rightarrow> proc_state \<Rightarrow> nat option \<times> proc_state" where
  "proc_find_diskstat name s =
     (case find_stat_index name (diskstats s) 0 of
        Some i \<Rightarrow> (Some i, s)
      | None \<Rightarrow>
          if length (diskstats s) = ROVER_PROC_STATS_MAX then (None, s)
          else (Some (length (diskstats s)),
                s\<lparr> diskstats := diskstats s @
                     [\<lparr> stat_name = snprintf_s ROVER_PROC_NAME_MAX name, stat_reads = 0,
                        stat_bytes = 0, stat_cache_hits = 0, stat_cache_misses = 0,
                        stat_errors = 0 \<rparr>] \<rparr>))"

definition update_stat :: "nat \<Rightarrow> (rover_proc_diskstat \<Rightarrow> rover_proc_diskstat) \<Rightarrow> proc_state \<Rightarrow> proc_state" where
  "update_stat i f s = s\<lparr> diskstats := (diskstats s)[i := f (diskstats s ! i)] \<rparr>"

definition read_error_counted :: "grub_err_t \<Rightarrow> bool" where
  "read_error_counted e \<longleftrightarrow>
     e = GRUB_ERR_READ_ERROR \<or> e = GRUB_ERR_FILE_READ_ERROR \<or> e = GRUB_ERR_IO"

definition grub_procfs_record_disk_read ::
  "u64 \<Rightarrow> string \<Rightarrow> u64 \<Rightarrow> grub_err_t \<Rightarrow> proc_state \<Rightarrow> proc_state" where
  "grub_procfs_record_disk_read dev_id name nbytes err s =
     (if \<not> proc_enabled s \<or> proc_observing s \<or> dev_id = GRUB_DISK_DEVICE_PROCFS_ID then s
      else case proc_find_diskstat name s of
        (None, s1) \<Rightarrow> s1
      | (Some i, s1) \<Rightarrow>
          update_stat i (\<lambda>st. st\<lparr>
              stat_reads := stat_reads st + 1,
              stat_bytes := (if err = GRUB_ERR_NONE then stat_bytes st + nbytes else stat_bytes st),
              stat_errors := (if read_error_counted err then stat_errors st + 1 else stat_errors st)
            \<rparr>) s1)"

definition grub_procfs_record_cache :: "u64 \<Rightarrow> string \<Rightarrow> bool \<Rightarrow> proc_state \<Rightarrow> proc_state" where
  "grub_procfs_record_cache dev_id name hit s =
     (if \<not> proc_enabled s \<or> proc_observing s \<or> dev_id = GRUB_DISK_DEVICE_PROCFS_ID then s
      else case proc_find_diskstat name s of
        (None, s1) \<Rightarrow> s1
      | (Some i, s1) \<Rightarrow>
          update_stat i (\<lambda>st. if hit then st\<lparr> stat_cache_hits := stat_cache_hits st + 1 \<rparr>
                               else st\<lparr> stat_cache_misses := stat_cache_misses st + 1 \<rparr>) s1)"

definition grub_procfs_record_error :: "grub_err_t \<Rightarrow> string \<Rightarrow> proc_state \<Rightarrow> proc_state" where
  "grub_procfs_record_error err msg s =
     (if \<not> proc_enabled s \<or> proc_observing s \<or> err = GRUB_ERR_NONE then s
      else s\<lparr> error_sequence := error_sequence s + 1,
              proc_errors := (proc_errors s)[errors_next s :=
                Some \<lparr> pe_sequence = error_sequence s + 1, pe_error = err,
                       pe_message = snprintf_s GRUB_MAX_ERRMSG msg \<rparr>],
              errors_next := (errors_next s + 1) mod ROVER_PROC_ERRORS_MAX,
              errors_count := (if errors_count s < ROVER_PROC_ERRORS_MAX
                               then errors_count s + 1 else errors_count s) \<rparr>)"

text \<open>
  Well-formedness: the tables stay inside their arrays, every stored name fits its buffer, and
  the ring holds an entry in exactly the slots written so far.
\<close>

definition proc_wf :: "proc_state \<Rightarrow> bool" where
  "proc_wf s \<longleftrightarrow>
     length (diskstats s) \<le> ROVER_PROC_STATS_MAX \<and>
     (\<forall>st \<in> set (diskstats s). length (stat_name st) < ROVER_PROC_NAME_MAX) \<and>
     length (proc_errors s) = ROVER_PROC_ERRORS_MAX \<and>
     errors_next s < ROVER_PROC_ERRORS_MAX \<and> errors_count s \<le> ROVER_PROC_ERRORS_MAX \<and>
     (errors_count s < ROVER_PROC_ERRORS_MAX \<longrightarrow> errors_next s = errors_count s) \<and>
     (\<forall>i < ROVER_PROC_ERRORS_MAX. (proc_errors s ! i \<noteq> None) = (i < errors_count s))"

subsection \<open>Lemmas\<close>

lemma find_stat_index_Some:
  "find_stat_index name ss i = Some j \<Longrightarrow>
     i \<le> j \<and> j - i < length ss \<and> stat_name (ss ! (j - i)) = name"
proof (induction ss arbitrary: i)
  case (Cons s ss)
  show ?case
  proof (cases "stat_name s = name")
    case False
    then have "find_stat_index name ss (Suc i) = Some j" using Cons.prems by simp
    from Cons.IH [OF this] have "Suc i \<le> j" "j - Suc i < length ss"
        "stat_name (ss ! (j - Suc i)) = name" by simp_all
    moreover from this have "j - i = Suc (j - Suc i)" by simp
    ultimately show ?thesis by simp
  qed (use Cons.prems in auto)
qed simp

lemma find_stat_index_None:
  "find_stat_index name ss i = None \<longleftrightarrow> (\<forall>s \<in> set ss. stat_name s \<noteq> name)"
  by (induction ss arbitrary: i) auto

lemma snprintf_s_length: "0 < n \<Longrightarrow> length (snprintf_s n s) < n"
  by (simp add: snprintf_s_def)

lemma proc_find_diskstat_wf:
  assumes "proc_wf s" and "proc_find_diskstat name s = (r, s1)"
  shows "proc_wf s1" and "r = Some i \<Longrightarrow> i < length (diskstats s1)"
  using assms
  by (auto simp: proc_find_diskstat_def proc_wf_def snprintf_s_def
      split: option.splits if_splits dest: find_stat_index_Some)

lemma update_stat_wf:
  assumes "proc_wf s" and "i < length (diskstats s)"
    and "\<And>st. stat_name (f st) = stat_name st"
  shows "proc_wf (update_stat i f s)"
proof -
  have "\<forall>st \<in> set ((diskstats s)[i := f (diskstats s ! i)]). length (stat_name st) < ROVER_PROC_NAME_MAX"
  proof
    fix st assume "st \<in> set ((diskstats s)[i := f (diskstats s ! i)])"
    then have "st = f (diskstats s ! i) \<or> st \<in> set (diskstats s)"
      using set_update_subset_insert by fastforce
    with assms show "length (stat_name st) < ROVER_PROC_NAME_MAX"
      by (auto simp: proc_wf_def)
  qed
  with assms(1) show ?thesis by (simp add: proc_wf_def update_stat_def)
qed

lemma record_disk_read_wf:
  assumes "proc_wf s"
  shows "proc_wf (grub_procfs_record_disk_read d name n e s)"
  using assms
  by (auto simp: grub_procfs_record_disk_read_def split: prod.splits option.splits
      intro!: update_stat_wf dest: proc_find_diskstat_wf)

lemma record_cache_wf:
  assumes "proc_wf s"
  shows "proc_wf (grub_procfs_record_cache d name hit s)"
  using assms
  by (auto simp: grub_procfs_record_cache_def split: prod.splits option.splits
      intro!: update_stat_wf dest: proc_find_diskstat_wf)

lemma record_error_wf:
  assumes "proc_wf s"
  shows "proc_wf (grub_procfs_record_error e m s)"
proof (cases "\<not> proc_enabled s \<or> proc_observing s \<or> e = GRUB_ERR_NONE")
  case True
  with assms show ?thesis by (simp add: grub_procfs_record_error_def)
next
  case False
  have slot: "errors_next s < 32" "length (proc_errors s) = 32"
    using assms by (simp_all add: proc_wf_def)
  show ?thesis
  proof (cases "errors_count s < 32")
    case True
    then have "errors_next s = errors_count s" using assms by (simp add: proc_wf_def)
    with True False slot assms show ?thesis
      by (auto simp: grub_procfs_record_error_def proc_wf_def nth_list_update less_Suc_eq mod_Suc)
  next
    case full: False
    with assms have "errors_count s = 32" by (simp add: proc_wf_def)
    with False slot assms show ?thesis
      by (auto simp: grub_procfs_record_error_def proc_wf_def nth_list_update)
  qed
qed

lemma proc_init_wf: "proc_wf proc_init"
  by (simp add: proc_wf_def proc_init_def)

end
