(* ===== verification/Disk.thy ===== *)
theory Disk
  imports Proc_Stats
begin

text \<open>
  Disks, the sector cache and \<open>grub_disk_read\<close> (\<open>grub/include/grub/disk.h\<close>,
  \<open>grub/include/grub/partition.h\<close>, \<open>grub/grub-core/kern/disk.c\<close> and \<open>disk_common.c\<close>, with the
  allocator of \<open>grub/rover/mm.c\<close>). Sector numbers, byte offsets and sizes are 64-bit words, as on
  the LP64 builds of the program. The driver of a disk, a function pointer in the C code, is the
  parameter \<open>dread\<close>; the optional read hook is the parameter \<open>hook\<close>.
\<close>

subsection \<open>Partitions and disks\<close>

abbreviation GRUB_DISK_SECTOR_BITS :: nat where "GRUB_DISK_SECTOR_BITS \<equiv> 9"
abbreviation GRUB_DISK_CACHE_BITS :: nat where "GRUB_DISK_CACHE_BITS \<equiv> 6"
abbreviation GRUB_DISK_CACHE_NUM :: nat where "GRUB_DISK_CACHE_NUM \<equiv> 1021"
abbreviation CACHE_BLOCK_BITS :: nat where "CACHE_BLOCK_BITS \<equiv> 15"
abbreviation GRUB_CACHE_EVICTED_MAX :: nat where "GRUB_CACHE_EVICTED_MAX \<equiv> 3"
abbreviation MAX_READ_RECURSION_DEPTH :: nat where "MAX_READ_RECURSION_DEPTH \<equiv> 16"
abbreviation GRUB_DISK_SIZE_UNKNOWN :: u64 where "GRUB_DISK_SIZE_UNKNOWN \<equiv> 0xffffffffffffffff"
abbreviation GRUB_DISK_MAX_SECTORS :: u64 where "GRUB_DISK_MAX_SECTORS \<equiv> 0x8000000000000"

text \<open>
  \<open>struct grub_partition\<close>. The chain of parents is kept as a list (innermost first) where the C
  structure has a \<open>parent\<close> pointer; the partition map a partition came from is identified by its
  name.
\<close>

record grub_partition =
  part_number :: int
  part_start :: u64
  part_len :: u64
  part_offset :: u64
  part_index :: int
  part_partmap :: string
  part_msdostype :: u8

record grub_disk =
  disk_name :: string
  disk_dev_id :: u64
  disk_total_sectors :: u64
  disk_log_sector_size :: nat
  disk_max_agglomerate :: nat
  disk_id :: u64
  disk_partition :: "grub_partition list"

definition grub_disk_from_native_sector :: "grub_disk \<Rightarrow> u64 \<Rightarrow> u64" where
  "grub_disk_from_native_sector disk sector =
     push_bit (disk_log_sector_size disk - GRUB_DISK_SECTOR_BITS) sector"

definition grub_disk_to_native_sector :: "grub_disk \<Rightarrow> u64 \<Rightarrow> u64" where
  "grub_disk_to_native_sector disk sector =
     drop_bit (disk_log_sector_size disk - GRUB_DISK_SECTOR_BITS) sector"

definition grub_convert_sector :: "u64 \<Rightarrow> nat \<Rightarrow> nat \<Rightarrow> u64" where
  "grub_convert_sector sector from to =
     (if from = to then sector
      else if from < to then
        drop_bit (to - from)
          ((sector + push_bit (to - from) 1 - 1) AND NOT (push_bit (to - from) 1 - 1))
      else push_bit (from - to) sector)"

fun grub_partition_get_start :: "grub_partition list \<Rightarrow> u64" where
  "grub_partition_get_start [] = 0"
| "grub_partition_get_start (p # ps) = part_start p + grub_partition_get_start ps"

definition grub_disk_native_sectors :: "grub_disk \<Rightarrow> u64" where
  "grub_disk_native_sectors disk =
     (case disk_partition disk of
        p # _ \<Rightarrow> part_len p
      | [] \<Rightarrow> if disk_total_sectors disk \<noteq> GRUB_DISK_SIZE_UNKNOWN
               then push_bit (disk_log_sector_size disk - GRUB_DISK_SECTOR_BITS)
                      (disk_total_sectors disk)
               else GRUB_DISK_SIZE_UNKNOWN)"

subsection \<open>Range checking: grub_disk_adjust_range\<close>

definition sectors_spanned :: "u64 \<Rightarrow> u64 \<Rightarrow> u64" where
  "sectors_spanned offset sz = drop_bit GRUB_DISK_SECTOR_BITS (offset + sz + 512 - 1)"

fun adjust_partitions :: "grub_partition list \<Rightarrow> u64 \<Rightarrow> u64 \<Rightarrow> u64 \<Rightarrow> u64 option" where
  "adjust_partitions [] sector offset sz = Some sector"
| "adjust_partitions (p # ps) sector offset sz =
     (if sector \<ge> part_len p \<or> part_len p - sector < sectors_spanned offset sz then None
      else adjust_partitions ps (sector + part_start p) offset sz)"

definition clamped_total :: "grub_disk \<Rightarrow> u64" where
  "clamped_total disk =
     (let t = push_bit (disk_log_sector_size disk - GRUB_DISK_SECTOR_BITS) (disk_total_sectors disk)
      in if t > GRUB_DISK_MAX_SECTORS then GRUB_DISK_MAX_SECTORS else t)"

text \<open>
  \<open>None\<close> is the error \<open>GRUB_ERR_OUT_OF_RANGE\<close>; \<open>Some (sector, offset)\<close> are the adjusted
  values left in the caller's variables.
\<close>

definition grub_disk_adjust_range :: "grub_disk \<Rightarrow> u64 \<Rightarrow> u64 \<Rightarrow> u64 \<Rightarrow> (u64 \<times> u64) option" where
  "grub_disk_adjust_range disk sector offset sz =
     (let sector1 = sector + drop_bit GRUB_DISK_SECTOR_BITS offset;
          offset1 = offset AND (512 - 1)
      in case adjust_partitions (disk_partition disk) sector1 offset1 sz of
           None \<Rightarrow> None
         | Some sector2 \<Rightarrow>
             let total = clamped_total disk
             in if total \<le> sector2 \<or> sectors_spanned offset1 sz > total - sector2
                then None else Some (sector2, offset1))"

subsection \<open>The disk cache\<close>

record cache_entry =
  ce_dev_id :: u64
  ce_disk_id :: u64
  ce_sector :: u64
  ce_data :: "bytes option"
  ce_lock :: bool

text \<open>
  A slot of \<open>grub_disk_cache_table\<close> with the chain of recently evicted entries hanging off its
  \<open>next\<close> pointer.
\<close>

type_synonym bucket = "cache_entry \<times> cache_entry list"

record 'h dstate =
  d_err :: err_state
  d_cache :: "nat \<Rightarrow> bucket"
  read_recursion_depth :: nat
  d_malloc :: "nat \<Rightarrow> bool"
  d_malloc_calls :: nat
  d_proc :: proc_state
  grub_last_time :: u64
  d_time :: "nat \<Rightarrow> u64"
  d_time_calls :: nat
  d_ext :: 'h

text \<open>
  The clock: \<open>d_time n\<close> is the \<open>n\<close>-th reading of \<open>grub_get_time_ms\<close> in the run; \<open>grub_last_time\<close> is when
  a disk was last opened or closed.
  The allocator: \<open>d_malloc n\<close> says whether the \<open>n\<close>-th request of the run is served; a refused
  request sets \<open>GRUB_ERR_OUT_OF_MEMORY\<close>, as \<open>grub_malloc\<close> and \<open>grub_calloc\<close> do.
\<close>

definition d_errno :: "'h dstate \<Rightarrow> grub_err_t" where
  "d_errno st = grub_errno (d_err st)"

definition set_errno :: "grub_err_t \<Rightarrow> 'h dstate \<Rightarrow> 'h dstate" where
  "set_errno e st = st\<lparr> d_err := (d_err st)\<lparr> grub_errno := e \<rparr> \<rparr>"

definition raise_error :: "grub_err_t \<Rightarrow> string \<Rightarrow> 'h dstate \<Rightarrow> 'h dstate" where
  "raise_error e msg st = st\<lparr> d_err := grub_error e msg (d_err st) \<rparr>"

definition push_pop_error :: "'h dstate \<Rightarrow> 'h dstate" where
  "push_pop_error st = st\<lparr> d_err := snd (grub_error_pop (grub_error_push (d_err st))) \<rparr>"

definition grub_malloc :: "'h dstate \<Rightarrow> bool \<times> 'h dstate" where
  "grub_malloc st =
     (let ok = d_malloc st (d_malloc_calls st);
          st1 = st\<lparr> d_malloc_calls := Suc (d_malloc_calls st) \<rparr>
      in (ok, if ok then st1 else raise_error GRUB_ERR_OUT_OF_MEMORY ''out of memory'' st1))"

definition grub_disk_cache_get_index :: "u64 \<Rightarrow> u64 \<Rightarrow> u64 \<Rightarrow> nat" where
  "grub_disk_cache_get_index dev_id did sector =
     unat ((dev_id * 524287 + did * 2606459
            + ucast (ucast (drop_bit GRUB_DISK_CACHE_BITS sector) :: u32)) mod 1021)"

definition entry_matches :: "u64 \<Rightarrow> u64 \<Rightarrow> u64 \<Rightarrow> cache_entry \<Rightarrow> bool" where
  "entry_matches dev_id did sector e \<longleftrightarrow>
     ce_dev_id e = dev_id \<and> ce_disk_id e = did \<and> ce_sector e = sector"

text \<open>The first entry of a chain with a given key, and the update of that first entry only.\<close>

fun find_entry :: "u64 \<Rightarrow> u64 \<Rightarrow> u64 \<Rightarrow> cache_entry list \<Rightarrow> cache_entry option" where
  "find_entry dv di sec [] = None"
| "find_entry dv di sec (e # es) =
     (if entry_matches dv di sec e then Some e else find_entry dv di sec es)"

fun update_entry :: "u64 \<Rightarrow> u64 \<Rightarrow> u64 \<Rightarrow> (cache_entry \<Rightarrow> cache_entry) \<Rightarrow> cache_entry list \<Rightarrow> cache_entry list" where
  "update_entry dv di sec f [] = []"
| "update_entry dv di sec f (e # es) =
     (if entry_matches dv di sec e then f e # es else e # update_entry dv di sec f es)"

definition update_bucket :: "u64 \<Rightarrow> u64 \<Rightarrow> u64 \<Rightarrow> (cache_entry \<Rightarrow> cache_entry) \<Rightarrow> bucket \<Rightarrow> bucket" where
  "update_bucket dv di sec f b =
     (if entry_matches dv di sec (fst b) then (f (fst b), snd b)
      else (fst b, update_entry dv di sec f (snd b)))"

text \<open>A fetch locks the entry it found when the entry has data.\<close>

definition lock_entry :: "cache_entry \<Rightarrow> cache_entry" where
  "lock_entry e = (if ce_data e \<noteq> None then e\<lparr> ce_lock := True \<rparr> else e)"

definition record_cache :: "grub_disk \<Rightarrow> bool \<Rightarrow> 'h dstate \<Rightarrow> 'h dstate" where
  "record_cache disk hit st =
     st\<lparr> d_proc := grub_procfs_record_cache (disk_dev_id disk) (disk_name disk) hit (d_proc st) \<rparr>"

definition grub_disk_cache_fetch :: "grub_disk \<Rightarrow> u64 \<Rightarrow> 'h dstate \<Rightarrow> bytes option \<times> 'h dstate" where
  "grub_disk_cache_fetch disk sector st =
     (let dv = disk_dev_id disk; di = disk_id disk;
          i = grub_disk_cache_get_index dv di sector;
          b = d_cache st i
      in case find_entry dv di sector (fst b # snd b) of
           Some e \<Rightarrow>
             (let st1 = st\<lparr> d_cache := (d_cache st)(i := update_bucket dv di sector lock_entry b) \<rparr>
              in (ce_data e, record_cache disk (ce_data e \<noteq> None) st1))
         | None \<Rightarrow> (None, record_cache disk False st))"

definition grub_disk_cache_unlock :: "u64 \<Rightarrow> u64 \<Rightarrow> u64 \<Rightarrow> 'h dstate \<Rightarrow> 'h dstate" where
  "grub_disk_cache_unlock dv di sector st =
     (let i = grub_disk_cache_get_index dv di sector
      in st\<lparr> d_cache := (d_cache st)
               (i := update_bucket dv di sector (\<lambda>e. e\<lparr> ce_lock := False \<rparr>) (d_cache st i)) \<rparr>)"

text \<open>
  \<open>grub_disk_cache_store\<close>, first case: the key survives in the overflow chain and is refilled in
  place.
\<close>

definition store_refill :: "u64 \<Rightarrow> u64 \<Rightarrow> u64 \<Rightarrow> bytes \<Rightarrow> nat \<Rightarrow> 'h dstate \<Rightarrow> grub_err_t \<times> 'h dstate" where
  "store_refill dv di sector data i st =
     (let put = (\<lambda>d s. s\<lparr> d_cache := (d_cache s)(i :=
                   (fst (d_cache s i),
                    update_entry dv di sector (\<lambda>e. e\<lparr> ce_data := d, ce_lock := False \<rparr>)
                      (snd (d_cache s i)))) \<rparr>)
      in case grub_malloc st of
           (False, st1) \<Rightarrow> (d_errno st1, put None st1)
         | (True, st1) \<Rightarrow> (GRUB_ERR_NONE, put (Some data) st1))"

text \<open>
  The evicted entry keeps its key but not its data. The loop that walks to the cut-off point
  leaves \<open>old\<close> and the first \<open>GRUB_CACHE_EVICTED_MAX\<close> entries of the previous chain.
\<close>

fun cut_position :: "nat \<Rightarrow> cache_entry list \<Rightarrow> nat \<times> cache_entry list" where
  "cut_position i [] = (i, [])"
| "cut_position i (c # cs) =
     (if i < GRUB_CACHE_EVICTED_MAX then cut_position (Suc i) cs else (i, c # cs))"

definition evict_chain :: "cache_entry \<Rightarrow> cache_entry list \<Rightarrow> cache_entry list" where
  "evict_chain old chain =
     (let r = cut_position 1 chain; i = fst r; rest = snd r
      in if i = GRUB_CACHE_EVICTED_MAX \<and> rest \<noteq> []
         then old # take (length chain - length rest + 1) chain
         else old # chain)"

definition store_slot :: "u64 \<Rightarrow> u64 \<Rightarrow> u64 \<Rightarrow> bytes \<Rightarrow> nat \<Rightarrow> 'h dstate \<Rightarrow> grub_err_t \<times> 'h dstate" where
  "store_slot dv di sector data i st =
     (let slot = fst (d_cache st i); chain = snd (d_cache st i);
          (old, st1) =
            (if ce_data slot \<noteq> None
             then (case grub_malloc st of (ok, s) \<Rightarrow>
                     (if ok then Some (slot\<lparr> ce_data := None, ce_lock := False \<rparr>) else None,
                      set_errno GRUB_ERR_NONE s))
             else (None, st))
      in case grub_malloc st1 of
           (False, st2) \<Rightarrow>
             (d_errno st2,
              st2\<lparr> d_cache := (d_cache st2)(i := (slot\<lparr> ce_data := None, ce_lock := False \<rparr>, chain)) \<rparr>)
         | (True, st2) \<Rightarrow>
             (let new = \<lparr> ce_dev_id = dv, ce_disk_id = di, ce_sector = sector,
                          ce_data = Some data, ce_lock = False \<rparr>;
                  chain1 = (case old of None \<Rightarrow> chain | Some c \<Rightarrow> evict_chain c chain)
              in (GRUB_ERR_NONE, st2\<lparr> d_cache := (d_cache st2)(i := (new, chain1)) \<rparr>)))"

definition grub_disk_cache_store :: "u64 \<Rightarrow> u64 \<Rightarrow> u64 \<Rightarrow> bytes \<Rightarrow> 'h dstate \<Rightarrow> grub_err_t \<times> 'h dstate" where
  "grub_disk_cache_store dv di sector data st =
     (let i = grub_disk_cache_get_index dv di sector
      in case find_entry dv di sector (snd (d_cache st i)) of
           Some _ \<Rightarrow> store_refill dv di sector data i st
         | None \<Rightarrow> store_slot dv di sector data i st)"

definition invalidate_bucket :: "bucket \<Rightarrow> bucket" where
  "invalidate_bucket b =
     ((if ce_data (fst b) \<noteq> None \<and> \<not> ce_lock (fst b) then (fst b)\<lparr> ce_data := None \<rparr> else fst b),
      filter ce_lock (snd b))"

definition grub_disk_cache_invalidate_all :: "'h dstate \<Rightarrow> 'h dstate" where
  "grub_disk_cache_invalidate_all st =
     st\<lparr> d_cache := (\<lambda>i. if i < GRUB_DISK_CACHE_NUM then invalidate_bucket (d_cache st i)
                          else d_cache st i) \<rparr>"

definition empty_bucket :: bucket where
  "empty_bucket = (\<lparr> ce_dev_id = 0, ce_disk_id = 0, ce_sector = 0, ce_data = None, ce_lock = False \<rparr>, [])"

definition dstate_init :: "(nat \<Rightarrow> bool) \<Rightarrow> 'h \<Rightarrow> 'h dstate" where
  "dstate_init malloc h = \<lparr> d_err = err_init, d_cache = (\<lambda>_. empty_bucket),
     read_recursion_depth = 0, d_malloc = malloc, d_malloc_calls = 0, d_proc = proc_init,
     grub_last_time = 0, d_time = (\<lambda>_. 0), d_time_calls = 0, d_ext = h \<rparr>"

subsection \<open>The range check in natural numbers\<close>

text \<open>
  The specification of the range check: \<open>n\<close> sectors from sector \<open>s\<close> on lie inside every
  partition of the chain, where \<open>s\<close> is shifted by the start of each partition on the way out.
\<close>

fun inside_chain :: "grub_partition list \<Rightarrow> nat \<Rightarrow> nat \<Rightarrow> bool" where
  "inside_chain [] s n = True"
| "inside_chain (p # ps) s n =
     (s < unat (part_len p) \<and> s + n \<le> unat (part_len p) \<and>
      inside_chain ps ((s + unat (part_start p)) mod 2 ^ 64) n)"

definition span :: "u64 \<Rightarrow> u64 \<Rightarrow> nat" where
  "span offset sz = (unat offset + unat sz + 511) div 512"

lemma unat_and_511: "unat (w AND 511 :: u64) = unat w mod 512"
  using unat_and_mask [of w 9] by (simp add: mask_eq_exp_minus_1)

lemma unat_and_63: "unat (w AND 63 :: u64) = unat w mod 64"
  using unat_and_mask [of w 6] by (simp add: mask_eq_exp_minus_1)

lemma unat_align_63: "unat (w AND NOT 63 :: u64) = unat w - unat w mod 64"
  using word_align_down [of w 6] by (simp add: mask_eq_exp_minus_1)

lemma unat_sectors_spanned:
  assumes "unat offset + unat sz + 511 < 2 ^ 64"
  shows "unat (sectors_spanned offset sz) = span offset sz"
proof -
  have e: "offset + sz + 512 - 1 = offset + sz + (511 :: u64)" by simp
  have "unat (offset + sz + 511) = unat offset + unat sz + 511"
    using assms by (simp add: unat_plus_exact)
  then show ?thesis
    unfolding sectors_spanned_def span_def e unat_drop_bit by simp
qed

lemma adjust_partitions_iff:
  assumes "unat offset + unat sz + 511 < 2 ^ 64"
  shows "adjust_partitions ps sector offset sz = Some s \<longleftrightarrow>
     inside_chain ps (unat sector) (span offset sz) \<and> s = grub_partition_get_start ps + sector"
proof (induction ps arbitrary: sector)
  case Nil
  then show ?case by auto
next
  case (Cons p ps)
  have test: "(part_len p \<le> sector \<or> part_len p - sector < sectors_spanned offset sz) \<longleftrightarrow>
      \<not> (unat sector < unat (part_len p) \<and> unat sector + span offset sz \<le> unat (part_len p))"
    unfolding word_room unat_sectors_spanned [OF assms] by simp
  have sum: "unat (sector + part_start p) = (unat sector + unat (part_start p)) mod 2 ^ 64"
    by (simp add: unat_word_ariths)
  show ?case
    using Cons.IH [of "sector + part_start p"] by (auto simp: test sum algebra_simps)
qed

lemma clamped_total_le: "unat (clamped_total disk) \<le> 2 ^ 51"
  by (auto simp: clamped_total_def Let_def word_le_nat_alt word_less_nat_alt)

lemma adjust_range_iff:
  assumes "unat sz + 1022 < 2 ^ 64"
  shows "grub_disk_adjust_range disk sector offset sz = Some (s, off) \<longleftrightarrow>
     inside_chain (disk_partition disk) (unat (sector + drop_bit 9 offset)) (span off sz) \<and>
     s = grub_partition_get_start (disk_partition disk) + (sector + drop_bit 9 offset) \<and>
     off = offset AND 511 \<and>
     unat s < unat (clamped_total disk) \<and> unat s + span off sz \<le> unat (clamped_total disk)"
proof -
  have small: "unat (offset AND 511) + unat sz + 511 < 2 ^ 64"
    using assms by (simp add: unat_and_511)
  have test: "\<And>t. (t \<le> s \<or> sectors_spanned (offset AND 511) sz > t - s) \<longleftrightarrow>
      \<not> (unat s < unat t \<and> unat s + span (offset AND 511) sz \<le> unat t)"
    unfolding word_room unat_sectors_spanned [OF small] by simp
  have "adjust_partitions (disk_partition disk) (sector + drop_bit 9 offset) (offset AND 511) sz = Some s
      \<longleftrightarrow> inside_chain (disk_partition disk) (unat (sector + drop_bit 9 offset)) (span (offset AND 511) sz)
        \<and> s = grub_partition_get_start (disk_partition disk) + (sector + drop_bit 9 offset)"
    using adjust_partitions_iff [OF small] .
  moreover have "grub_disk_adjust_range disk sector offset sz = Some (s, off) \<longleftrightarrow>
      adjust_partitions (disk_partition disk) (sector + drop_bit 9 offset) (offset AND 511) sz = Some s \<and>
      off = offset AND 511 \<and>
      \<not> (clamped_total disk \<le> s \<or> sectors_spanned (offset AND 511) sz > clamped_total disk - s)"
    unfolding grub_disk_adjust_range_def Let_def by (auto split: option.splits)
  ultimately show ?thesis by (auto simp only: test)
qed

end
