(* ===== verification/Disk_Read.thy ===== *)
theory Disk_Read
  imports Disk
begin

text \<open>
  Reading from a disk through the cache: \<open>grub_disk_read_small_real\<close>, \<open>grub_disk_read_small\<close> and
  \<open>grub_disk_read\<close> of \<open>grub/grub-core/kern/disk.c\<close>. A read returns the error code and the bytes
  stored into the caller's buffer, with the new state. \<open>None\<close> as the result of \<open>grub_disk_read\<close>
  means that the agglomeration loop does not end (it makes no progress when the driver has set
  \<open>max_agglomerate\<close> to zero).
\<close>

type_synonym 'h dread = "grub_disk \<Rightarrow> u64 \<Rightarrow> u64 \<Rightarrow> 'h dstate \<Rightarrow> (grub_err_t \<times> bytes) \<times> 'h dstate"
type_synonym 'h read_hook = "u64 \<Rightarrow> u32 \<Rightarrow> u32 \<Rightarrow> bytes \<Rightarrow> 'h dstate \<Rightarrow> grub_err_t \<times> 'h dstate"

text \<open>The path of last resort: read only the sectors that hold the requested bytes.\<close>

definition necessary_aligned :: "grub_disk \<Rightarrow> u64 \<Rightarrow> u64 \<Rightarrow> u64" where
  "necessary_aligned disk sector offset =
     (sector + drop_bit GRUB_DISK_SECTOR_BITS offset)
       AND NOT (push_bit (disk_log_sector_size disk - GRUB_DISK_SECTOR_BITS) 1 - 1)"

definition necessary_offset :: "grub_disk \<Rightarrow> u64 \<Rightarrow> u64 \<Rightarrow> u64" where
  "necessary_offset disk sector offset =
     (offset AND (push_bit GRUB_DISK_SECTOR_BITS 1 - 1))
       + push_bit GRUB_DISK_SECTOR_BITS
           (sector + drop_bit GRUB_DISK_SECTOR_BITS offset - necessary_aligned disk sector offset)"

definition necessary_num :: "grub_disk \<Rightarrow> u64 \<Rightarrow> u64 \<Rightarrow> u64 \<Rightarrow> u32" where
  "necessary_num disk sector offset sz =
     ucast (drop_bit (disk_log_sector_size disk)
       (sz + necessary_offset disk sector offset + push_bit (disk_log_sector_size disk) 1 - 1))"

definition read_necessary :: "'h dread \<Rightarrow> grub_disk \<Rightarrow> u64 \<Rightarrow> u64 \<Rightarrow> u64 \<Rightarrow> 'h dstate
    \<Rightarrow> (grub_err_t \<times> bytes) \<times> 'h dstate" where
  "read_necessary dread disk sector offset sz st =
     (case grub_malloc st of
        (False, st1) \<Rightarrow> ((d_errno st1, []), st1)
      | (True, st1) \<Rightarrow>
          (case dread disk (grub_disk_to_native_sector disk (necessary_aligned disk sector offset))
                  (ucast (necessary_num disk sector offset sz)) st1 of
             ((e, tmp), st2) \<Rightarrow>
               if e \<noteq> GRUB_ERR_NONE
               then (let st3 = push_pop_error st2 in ((d_errno st3, []), st3))
               else ((GRUB_ERR_NONE,
                      bslice (unat (necessary_offset disk sector offset)) (unat sz) tmp), st2)))"

definition whole_block_in_range :: "grub_disk \<Rightarrow> u64 \<Rightarrow> bool" where
  "whole_block_in_range disk sector \<longleftrightarrow>
     disk_total_sectors disk = GRUB_DISK_SIZE_UNKNOWN \<or>
     sector + 64 < push_bit (disk_log_sector_size disk - GRUB_DISK_SECTOR_BITS)
                     (disk_total_sectors disk)"

definition grub_disk_read_small_real :: "'h dread \<Rightarrow> grub_disk \<Rightarrow> u64 \<Rightarrow> u64 \<Rightarrow> u64 \<Rightarrow> 'h dstate
    \<Rightarrow> (grub_err_t \<times> bytes) \<times> 'h dstate" where
  "grub_disk_read_small_real dread disk sector offset sz st =
     (case grub_disk_cache_fetch disk sector st of
        (Some data, st1) \<Rightarrow>
          ((GRUB_ERR_NONE, bslice (unat offset) (unat sz) data),
           grub_disk_cache_unlock (disk_dev_id disk) (disk_id disk) sector st1)
      | (None, st1) \<Rightarrow>
          (case grub_malloc st1 of
             (False, st2) \<Rightarrow> ((d_errno st2, []), st2)
           | (True, st2) \<Rightarrow>
               if whole_block_in_range disk sector then
                 (case dread disk (grub_disk_to_native_sector disk sector)
                         (push_bit (CACHE_BLOCK_BITS - disk_log_sector_size disk) 1) st2 of
                    ((e, tmp), st3) \<Rightarrow>
                      if e = GRUB_ERR_NONE
                      then ((GRUB_ERR_NONE, bslice (unat offset) (unat sz) tmp),
                            snd (grub_disk_cache_store (disk_dev_id disk) (disk_id disk) sector tmp st3))
                      else read_necessary dread disk sector offset sz (set_errno GRUB_ERR_NONE st3))
               else read_necessary dread disk sector offset sz (set_errno GRUB_ERR_NONE st2)))"

definition grub_disk_read_small :: "'h dread \<Rightarrow> 'h read_hook option \<Rightarrow> grub_disk \<Rightarrow> u64 \<Rightarrow> u64 \<Rightarrow> u64
    \<Rightarrow> 'h dstate \<Rightarrow> (grub_err_t \<times> bytes) \<times> 'h dstate" where
  "grub_disk_read_small dread hook disk sector offset sz st =
     (case grub_disk_read_small_real dread disk sector offset sz st of
        ((e, buf), st1) \<Rightarrow>
          if e \<noteq> GRUB_ERR_NONE then ((e, buf), st1)
          else case hook of
            None \<Rightarrow> ((GRUB_ERR_NONE, buf), st1)
          | Some h \<Rightarrow>
              (case h (sector + drop_bit GRUB_DISK_SECTOR_BITS offset)
                      (ucast (offset AND (512 - 1))) (ucast sz) buf st1 of
                 (e2, st2) \<Rightarrow> ((e2, buf), st2)))"

text \<open>The scan for the first cached block, bounded by the request and by \<open>max_agglomerate\<close>.\<close>

fun agglomerate_scan :: "grub_disk \<Rightarrow> u64 \<Rightarrow> nat \<Rightarrow> nat \<Rightarrow> 'h dstate \<Rightarrow> (bytes option \<times> nat) \<times> 'h dstate" where
  "agglomerate_scan disk sector 0 agg st = ((None, agg), st)"
| "agglomerate_scan disk sector (Suc n) agg st =
     (case grub_disk_cache_fetch disk (sector + push_bit GRUB_DISK_CACHE_BITS (of_nat agg)) st of
        (Some data, st1) \<Rightarrow> ((Some data, agg), st1)
      | (None, st1) \<Rightarrow> agglomerate_scan disk sector n (Suc agg) st1)"

fun store_blocks :: "grub_disk \<Rightarrow> u64 \<Rightarrow> bytes \<Rightarrow> nat \<Rightarrow> nat \<Rightarrow> 'h dstate \<Rightarrow> 'h dstate" where
  "store_blocks disk sector buf i 0 st = st"
| "store_blocks disk sector buf i (Suc n) st =
     store_blocks disk sector buf (Suc i) n
       (snd (grub_disk_cache_store (disk_dev_id disk) (disk_id disk)
          (sector + push_bit GRUB_DISK_CACHE_BITS (of_nat i))
          (bslice (i * 2 ^ CACHE_BLOCK_BITS) (2 ^ CACHE_BLOCK_BITS) buf) st))"

definition call_hook :: "'h read_hook option \<Rightarrow> u64 \<Rightarrow> u64 \<Rightarrow> bytes \<Rightarrow> 'h dstate \<Rightarrow> 'h dstate" where
  "call_hook hook sector len buf st =
     (case hook of None \<Rightarrow> st | Some h \<Rightarrow> snd (h sector 0 (ucast len) buf st))"

definition read_agglomerate :: "'h dread \<Rightarrow> 'h read_hook option \<Rightarrow> grub_disk \<Rightarrow> u64 \<Rightarrow> nat \<Rightarrow> 'h dstate
    \<Rightarrow> (grub_err_t \<times> bytes) \<times> 'h dstate" where
  "read_agglomerate dread hook disk sector agg st =
     (case dread disk (grub_disk_to_native_sector disk sector)
             (push_bit (CACHE_BLOCK_BITS - disk_log_sector_size disk) (of_nat agg)) st of
        ((e, buf), st1) \<Rightarrow>
          if e \<noteq> GRUB_ERR_NONE then ((e, []), st1)
          else ((GRUB_ERR_NONE, buf),
                call_hook hook sector (push_bit CACHE_BLOCK_BITS (of_nat agg)) buf
                  (store_blocks disk sector buf 0 agg st1)))"

text \<open>
  One turn of the \<open>while\<close> loop: the scan, the release of the cached block it found, the driver
  read of the uncached blocks before it, and the bookkeeping. The result is an error, or the new
  sector, the new remaining size and the bytes delivered in this turn.
\<close>

definition release_found :: "grub_disk \<Rightarrow> u64 \<Rightarrow> bytes option \<Rightarrow> 'h dstate \<Rightarrow> 'h dstate" where
  "release_found disk sector data st =
     (case data of
        None \<Rightarrow> st
      | Some _ \<Rightarrow> grub_disk_cache_unlock (disk_dev_id disk) (disk_id disk) sector st)"

definition read_gap :: "'h dread \<Rightarrow> 'h read_hook option \<Rightarrow> grub_disk \<Rightarrow> u64 \<Rightarrow> nat \<Rightarrow> 'h dstate
    \<Rightarrow> (grub_err_t \<times> bytes) \<times> 'h dstate" where
  "read_gap dread hook disk sector agg st =
     (if agg = 0 then ((GRUB_ERR_NONE, []), st)
      else read_agglomerate dread hook disk sector agg st)"

definition turn_result :: "'h read_hook option \<Rightarrow> u64 \<Rightarrow> u64 \<Rightarrow> bytes option \<Rightarrow> grub_err_t \<Rightarrow> bytes \<Rightarrow> 'h dstate
    \<Rightarrow> (grub_err_t + u64 \<times> u64 \<times> bytes) \<times> 'h dstate" where
  "turn_result hook sector sz data e buf st =
     (if e \<noteq> GRUB_ERR_NONE then (Inl e, st)
      else case data of
        None \<Rightarrow> (Inr (sector, sz, buf), st)
      | Some d \<Rightarrow> (Inr (sector + 64, sz - 32768, buf @ d), call_hook hook sector 32768 d st))"

definition read_turn :: "'h dread \<Rightarrow> 'h read_hook option \<Rightarrow> grub_disk \<Rightarrow> u64 \<Rightarrow> u64 \<Rightarrow> 'h dstate
    \<Rightarrow> (grub_err_t + u64 \<times> u64 \<times> bytes) \<times> 'h dstate" where
  "read_turn dread hook disk sector sz st =
     (case agglomerate_scan disk sector
             (min (unat (drop_bit CACHE_BLOCK_BITS sz)) (disk_max_agglomerate disk)) 0 st of
        ((data, agg), st1) \<Rightarrow>
          (case read_gap dread hook disk sector agg
                  (release_found disk (sector + push_bit GRUB_DISK_CACHE_BITS (of_nat agg)) data st1) of
             ((e, buf), st3) \<Rightarrow>
               turn_result hook (sector + push_bit GRUB_DISK_CACHE_BITS (of_nat agg))
                 (sz - push_bit CACHE_BLOCK_BITS (of_nat agg)) data e buf st3))"

fun read_loop :: "nat \<Rightarrow> 'h dread \<Rightarrow> 'h read_hook option \<Rightarrow> grub_disk \<Rightarrow> u64 \<Rightarrow> u64 \<Rightarrow> bytes \<Rightarrow> 'h dstate
    \<Rightarrow> ((grub_err_t + u64 \<times> u64) \<times> bytes \<times> 'h dstate) option" where
  "read_loop 0 dread hook disk sector sz acc st =
     (if sz \<ge> 32768 then None else Some (Inr (sector, sz), acc, st))"
| "read_loop (Suc fuel) dread hook disk sector sz acc st =
     (if sz \<ge> 32768 then
        (case read_turn dread hook disk sector sz st of
           (Inl e, st1) \<Rightarrow> Some (Inl e, acc, st1)
         | (Inr (sector1, sz1, buf), st1) \<Rightarrow>
             read_loop fuel dread hook disk sector1 sz1 (acc @ buf) st1)
      else Some (Inr (sector, sz), acc, st))"

text \<open>The part before the first cache boundary.\<close>

definition read_head :: "'h dread \<Rightarrow> 'h read_hook option \<Rightarrow> grub_disk \<Rightarrow> u64 \<Rightarrow> u64 \<Rightarrow> u64 \<Rightarrow> 'h dstate
    \<Rightarrow> (grub_err_t + u64 \<times> u64 \<times> bytes) \<times> 'h dstate" where
  "read_head dread hook disk sector offset sz st =
     (if offset \<noteq> 0 \<or> sector AND 63 \<noteq> 0 then
        (let start_sector = sector AND NOT 63;
             pos = push_bit GRUB_DISK_SECTOR_BITS (sector - start_sector);
             len0 = 32768 - pos - offset;
             len = (if len0 > sz then sz else len0)
         in case grub_disk_read_small dread hook disk start_sector (offset + pos) len st of
              ((e, buf), st1) \<Rightarrow>
                if e \<noteq> GRUB_ERR_NONE then (Inl e, st1)
                else (Inr (sector + drop_bit GRUB_DISK_SECTOR_BITS (offset + len), sz - len, buf), st1))
      else (Inr (sector, sz, []), st))"

definition read_finish :: "grub_disk \<Rightarrow> u64 \<Rightarrow> grub_err_t \<Rightarrow> bytes \<Rightarrow> 'h dstate \<Rightarrow> (grub_err_t \<times> bytes) \<times> 'h dstate" where
  "read_finish disk requested e buf st =
     (let st1 = st\<lparr> read_recursion_depth := read_recursion_depth st - 1 \<rparr>
      in ((e, buf), st1\<lparr> d_proc := grub_procfs_record_disk_read (disk_dev_id disk) (disk_name disk)
            requested (if e \<noteq> GRUB_ERR_NONE then e else d_errno st1) (d_proc st1) \<rparr>))"

definition read_tail :: "'h dread \<Rightarrow> 'h read_hook option \<Rightarrow> grub_disk \<Rightarrow> u64 \<Rightarrow> u64 \<Rightarrow> u64 \<Rightarrow> bytes \<Rightarrow> 'h dstate
    \<Rightarrow> (grub_err_t \<times> bytes) \<times> 'h dstate" where
  "read_tail dread hook disk requested sector sz acc st =
     (if sz \<noteq> 0 then
        (case grub_disk_read_small dread hook disk sector 0 sz st of
           ((e, buf), st1) \<Rightarrow>
             if e \<noteq> GRUB_ERR_NONE then read_finish disk requested e acc st1
             else read_finish disk requested (d_errno st1) (acc @ buf) st1)
      else read_finish disk requested (d_errno st) acc st)"

definition grub_disk_read :: "'h dread \<Rightarrow> 'h read_hook option \<Rightarrow> grub_disk \<Rightarrow> u64 \<Rightarrow> u64 \<Rightarrow> u64 \<Rightarrow> 'h dstate
    \<Rightarrow> ((grub_err_t \<times> bytes) \<times> 'h dstate) option" where
  "grub_disk_read dread hook disk sector offset sz st =
     (case grub_disk_adjust_range disk sector offset sz of
        None \<Rightarrow>
          (let st1 = push_pop_error (raise_error GRUB_ERR_OUT_OF_RANGE
                       ''attempt to read or write outside of disk'' st);
               st2 = st1\<lparr> d_proc := grub_procfs_record_disk_read (disk_dev_id disk) (disk_name disk)
                            sz (d_errno st1) (d_proc st1) \<rparr>
           in Some ((d_errno st2, []), st2))
      | Some (sector1, offset1) \<Rightarrow>
          (let st1 = st\<lparr> read_recursion_depth := Suc (read_recursion_depth st) \<rparr>
           in if read_recursion_depth st1 \<ge> MAX_READ_RECURSION_DEPTH
              then Some (read_finish disk sz GRUB_ERR_NONE []
                     (raise_error GRUB_ERR_RECURSION_DEPTH
                        ''grub_disk_read(): Maximum recursion depth exceeded'' st1))
              else case read_head dread hook disk sector1 offset1 sz st1 of
                (Inl e, st2) \<Rightarrow> Some (read_finish disk sz e [] st2)
              | (Inr (sector2, sz2, buf), st2) \<Rightarrow>
                  (case read_loop (unat sz2 div 32768) dread hook disk sector2 sz2 buf st2 of
                     None \<Rightarrow> None
                   | Some (Inl e, acc, st3) \<Rightarrow> Some (read_finish disk sz e acc st3)
                   | Some (Inr (sector3, sz3), acc, st3) \<Rightarrow>
                       Some (read_tail dread hook disk sz sector3 sz3 acc st3))))"

end
