(* ===== verification/Disk_Cache.thy ===== *)
theory Disk_Cache
  imports Disk
begin

text \<open>
  Correctness of the disk cache: the invariant \<open>cache_inv\<close> (every cached block holds the bytes of
  its disk, no entry stays locked, chains are bounded, the statistics and error tables are
  well-formed) and its preservation by every cache operation, the data law of a lookup, and the
  lookup-after-store law.
\<close>

type_synonym content = "u64 \<Rightarrow> u64 \<Rightarrow> nat \<Rightarrow> u8"

definition content_bytes :: "content \<Rightarrow> u64 \<Rightarrow> u64 \<Rightarrow> nat \<Rightarrow> nat \<Rightarrow> bytes" where
  "content_bytes c dv di off n = map (c dv di) [off..<off + n]"

definition block_bytes :: "content \<Rightarrow> u64 \<Rightarrow> u64 \<Rightarrow> u64 \<Rightarrow> bytes" where
  "block_bytes c dv di sector = content_bytes c dv di (unat sector * 512) 32768"

definition entry_ok :: "content \<Rightarrow> cache_entry \<Rightarrow> bool" where
  "entry_ok c e \<longleftrightarrow>
     (\<forall>d. ce_data e = Some d \<longrightarrow> d = block_bytes c (ce_dev_id e) (ce_disk_id e) (ce_sector e))"

definition bucket_inv :: "content \<Rightarrow> bucket \<Rightarrow> bool" where
  "bucket_inv c b \<longleftrightarrow>
     (\<forall>e \<in> set (fst b # snd b). entry_ok c e \<and> \<not> ce_lock e) \<and>
     length (snd b) \<le> Suc GRUB_CACHE_EVICTED_MAX"

definition cache_inv :: "content \<Rightarrow> ('h \<Rightarrow> bool) \<Rightarrow> 'h dstate \<Rightarrow> bool" where
  "cache_inv c good st \<longleftrightarrow>
     (\<forall>i. bucket_inv c (d_cache st i)) \<and> proc_wf (d_proc st) \<and> err_wf (d_err st) \<and> good (d_ext st)"

subsection \<open>Simplification of state components\<close>

lemma length_content_bytes [simp]: "length (content_bytes c dv di off n) = n"
  by (simp add: content_bytes_def)

lemma content_bytes_append:
  "content_bytes c dv di off n @ content_bytes c dv di (off + n) m = content_bytes c dv di off (n + m)"
  unfolding content_bytes_def by (metis add.assoc map_upt_append)

lemma bslice_content_bytes:
  "o2 + n \<le> m \<Longrightarrow> bslice o2 n (content_bytes c dv di off m) = content_bytes c dv di (off + o2) n"
  unfolding content_bytes_def by (simp add: bslice_map_upt)

lemma content_bytes_0 [simp]: "content_bytes c dv di off 0 = []"
  by (simp add: content_bytes_def)

lemma err_wf_errno [simp]: "err_wf (s\<lparr> grub_errno := e \<rparr>) = err_wf s"
  by (simp add: err_wf_def)

lemma set_errno_simps [simp]:
  "d_cache (set_errno e st) = d_cache st" "d_proc (set_errno e st) = d_proc st"
  "read_recursion_depth (set_errno e st) = read_recursion_depth st"
  "d_malloc (set_errno e st) = d_malloc st" "d_ext (set_errno e st) = d_ext st"
  "d_errno (set_errno e st) = e" "d_malloc_calls (set_errno e st) = d_malloc_calls st"
  "err_wf (d_err (set_errno e st)) = err_wf (d_err st)"
  "error_stack (d_err (set_errno e st)) = error_stack (d_err st)"
  by (simp_all add: set_errno_def d_errno_def)

lemma raise_error_simps [simp]:
  "d_cache (raise_error e m st) = d_cache st" "d_proc (raise_error e m st) = d_proc st"
  "read_recursion_depth (raise_error e m st) = read_recursion_depth st"
  "d_malloc (raise_error e m st) = d_malloc st" "d_ext (raise_error e m st) = d_ext st"
  "d_errno (raise_error e m st) = e" "d_malloc_calls (raise_error e m st) = d_malloc_calls st"
  "err_wf (d_err (raise_error e m st)) = err_wf (d_err st)"
  "error_stack (d_err (raise_error e m st)) = error_stack (d_err st)"
  by (simp_all add: raise_error_def d_errno_def err_wf_def)

lemma push_pop_error_simps [simp]:
  "d_cache (push_pop_error st) = d_cache st" "d_proc (push_pop_error st) = d_proc st"
  "read_recursion_depth (push_pop_error st) = read_recursion_depth st"
  "d_malloc (push_pop_error st) = d_malloc st" "d_ext (push_pop_error st) = d_ext st"
  "d_malloc_calls (push_pop_error st) = d_malloc_calls st"
  by (simp_all add: push_pop_error_def)

lemma push_pop_error_wf: "err_wf (d_err st) \<Longrightarrow> err_wf (d_err (push_pop_error st))"
  unfolding push_pop_error_def by (simp add: err_wf_ops)

lemma push_pop_error_id:
  "length (error_stack (d_err st)) < GRUB_ERROR_STACK_SIZE \<Longrightarrow> push_pop_error st = st"
  by (simp add: push_pop_error_def grub_error_push_pop)

lemma grub_malloc_simps [simp]:
  "d_cache (snd (grub_malloc st)) = d_cache st" "d_proc (snd (grub_malloc st)) = d_proc st"
  "read_recursion_depth (snd (grub_malloc st)) = read_recursion_depth st"
  "d_malloc (snd (grub_malloc st)) = d_malloc st" "d_ext (snd (grub_malloc st)) = d_ext st"
  "err_wf (d_err (snd (grub_malloc st))) = err_wf (d_err st)"
  "error_stack (d_err (snd (grub_malloc st))) = error_stack (d_err st)"
  by (simp_all add: grub_malloc_def Let_def)

lemma grub_malloc_errno:
  "d_errno (snd (grub_malloc st)) = (if fst (grub_malloc st) then d_errno st else GRUB_ERR_OUT_OF_MEMORY)"
  by (simp add: grub_malloc_def Let_def) (simp add: d_errno_def)

lemma grub_malloc_step:
  assumes "grub_malloc st = (ok, st1)"
  shows "d_cache st1 = d_cache st" "d_proc st1 = d_proc st"
    "read_recursion_depth st1 = read_recursion_depth st" "d_malloc st1 = d_malloc st"
    "d_ext st1 = d_ext st" "err_wf (d_err st1) = err_wf (d_err st)"
    "error_stack (d_err st1) = error_stack (d_err st)"
    "d_errno st1 = (if ok then d_errno st else GRUB_ERR_OUT_OF_MEMORY)"
  using grub_malloc_simps [of st] grub_malloc_errno [of st] assms by simp_all

lemma record_cache_simps [simp]:
  "d_cache (record_cache disk h st) = d_cache st"
  "read_recursion_depth (record_cache disk h st) = read_recursion_depth st"
  "d_malloc (record_cache disk h st) = d_malloc st" "d_ext (record_cache disk h st) = d_ext st"
  "d_err (record_cache disk h st) = d_err st" "d_malloc_calls (record_cache disk h st) = d_malloc_calls st"
  by (simp_all add: record_cache_def)

lemma disk_record_cache_wf: "proc_wf (d_proc st) \<Longrightarrow> proc_wf (d_proc (record_cache disk h st))"
  by (simp add: record_cache_def record_cache_wf)

lemmas state_defs = set_errno_def raise_error_def push_pop_error_def grub_malloc_def

text \<open>What every operation of this layer leaves alone: the recursion depth and the hook's data.\<close>

definition same_frame :: "'h dstate \<Rightarrow> 'h dstate \<Rightarrow> bool" where
  "same_frame st st' \<longleftrightarrow> read_recursion_depth st' = read_recursion_depth st \<and>
     d_ext st' = d_ext st \<and> d_malloc st' = d_malloc st \<and>
     error_stack (d_err st') = error_stack (d_err st)"

lemma same_frame_refl [simp]: "same_frame st st"
  by (simp add: same_frame_def)

lemma same_frame_trans: "same_frame a b \<Longrightarrow> same_frame b c \<Longrightarrow> same_frame a c"
  by (simp add: same_frame_def)

subsection \<open>Entries and chains\<close>

lemma find_entry_in: "find_entry dv di s es = Some e \<Longrightarrow> e \<in> set es \<and> entry_matches dv di s e"
  by (induction es) (auto split: if_splits)

lemma find_entry_None: "find_entry dv di s es = None \<longleftrightarrow> (\<forall>e \<in> set es. \<not> entry_matches dv di s e)"
  by (induction es) auto

lemma update_entry_set:
  "e \<in> set (update_entry dv di s f es) \<Longrightarrow>
     e \<in> set es \<or> (\<exists>e0 \<in> set es. entry_matches dv di s e0 \<and> e = f e0)"
  by (induction es) (auto split: if_splits)

lemma length_update_entry [simp]: "length (update_entry dv di s f es) = length es"
  by (induction es) auto

lemma update_entry_id: "(\<And>e. e \<in> set es \<Longrightarrow> f e = e) \<Longrightarrow> update_entry dv di s f es = es"
  by (induction es) auto

lemma update_entry_comp:
  assumes "\<And>e. entry_matches dv di s e \<Longrightarrow> entry_matches dv di s (f e)"
  shows "update_entry dv di s g (update_entry dv di s f es) = update_entry dv di s (g \<circ> f) es"
  using assms by (induction es) auto

lemma update_bucket_comp:
  assumes "\<And>e. entry_matches dv di s e \<Longrightarrow> entry_matches dv di s (f e)"
  shows "update_bucket dv di s g (update_bucket dv di s f b) = update_bucket dv di s (g \<circ> f) b"
  using assms by (simp add: update_bucket_def update_entry_comp)

lemma update_bucket_id:
  "(\<And>e. e \<in> set (fst b # snd b) \<Longrightarrow> f e = e) \<Longrightarrow> update_bucket dv di s f b = b"
  by (simp add: update_bucket_def update_entry_id)

lemma cut_position_eq:
  "i \<le> 3 \<Longrightarrow> cut_position i cs = (min 3 (i + length cs), drop (3 - i) cs)"
proof (induction i cs rule: cut_position.induct)
  case (2 i c cs)
  then show ?case
    by (cases "i < 3") (auto simp: min_def Suc_diff_Suc drop_Cons' split: if_splits)
qed simp

lemma evict_chain_eq: "evict_chain old chain = old # take GRUB_CACHE_EVICTED_MAX chain"
proof (cases "length chain \<le> 2")
  case True
  then show ?thesis by (auto simp: evict_chain_def cut_position_eq Let_def)
next
  case False
  then show ?thesis by (auto simp: evict_chain_def cut_position_eq Let_def min_def)
qed

subsection \<open>The operations keep the invariant\<close>

lemma fetch_unlock:
  assumes inv: "cache_inv c good st" and hit: "grub_disk_cache_fetch disk sector st = (Some d, st1)"
  shows "d = block_bytes c (disk_dev_id disk) (disk_id disk) sector"
    and "d_cache (grub_disk_cache_unlock (disk_dev_id disk) (disk_id disk) sector st1) = d_cache st"
    and "d_err st1 = d_err st" and "proc_wf (d_proc st1)" and "same_frame st st1"
proof -
  let ?dv = "disk_dev_id disk" and ?di = "disk_id disk"
  let ?i = "grub_disk_cache_get_index ?dv ?di sector"
  let ?b = "d_cache st ?i"
  obtain e where e: "find_entry ?dv ?di sector (fst ?b # snd ?b) = Some e" "ce_data e = Some d"
    and st1: "st1 = record_cache disk True (st\<lparr> d_cache := (d_cache st)
                      (?i := update_bucket ?dv ?di sector lock_entry ?b) \<rparr>)"
    using hit by (auto simp: grub_disk_cache_fetch_def Let_def simp del: find_entry.simps
        split: option.splits)
  have b: "bucket_inv c ?b" and wf: "proc_wf (d_proc st)"
    using inv by (simp_all add: cache_inv_def)
  from find_entry_in [OF e(1)] b e(2)
  show "d = block_bytes c ?dv ?di sector"
    by (auto simp: bucket_inv_def entry_ok_def entry_matches_def)
  have "update_bucket ?dv ?di sector (\<lambda>e. e\<lparr> ce_lock := False \<rparr>)
          (update_bucket ?dv ?di sector lock_entry ?b) = ?b"
    using b by (subst update_bucket_comp)
      (auto simp: entry_matches_def bucket_inv_def lock_entry_def intro!: update_bucket_id)
  then show "d_cache (grub_disk_cache_unlock ?dv ?di sector st1) = d_cache st"
    by (simp add: st1 grub_disk_cache_unlock_def Let_def)
  show "d_err st1 = d_err st" "proc_wf (d_proc st1)" "same_frame st st1"
    using wf by (simp_all add: st1 disk_record_cache_wf same_frame_def)
qed

lemma fetch_miss:
  assumes inv: "cache_inv c good st" and miss: "grub_disk_cache_fetch disk sector st = (None, st1)"
  shows "d_cache st1 = d_cache st" and "d_err st1 = d_err st" and "cache_inv c good st1"
    and "same_frame st st1"
proof -
  let ?dv = "disk_dev_id disk" and ?di = "disk_id disk"
  let ?i = "grub_disk_cache_get_index ?dv ?di sector"
  have id: "update_bucket ?dv ?di sector lock_entry b = b"
    if "find_entry ?dv ?di sector (fst b # snd b) = Some e" "ce_data e = None" for b e
  proof -
    have "update_entry dv di s lock_entry es = es"
      if "find_entry dv di s es = Some e" "ce_data e = None" for dv di s es
      using that by (induction es) (auto simp: lock_entry_def split: if_splits)
    with that show ?thesis by (auto simp: update_bucket_def lock_entry_def split: if_splits)
  qed
  show c: "d_cache st1 = d_cache st"
    using miss id [of "d_cache st ?i"]
    by (auto simp: grub_disk_cache_fetch_def Let_def simp del: find_entry.simps split: option.splits)
  show er: "d_err st1 = d_err st" and fr: "same_frame st st1"
    using miss by (auto simp: grub_disk_cache_fetch_def Let_def same_frame_def split: option.splits)
  have "proc_wf (d_proc st1)"
    using miss inv by (auto simp: grub_disk_cache_fetch_def Let_def cache_inv_def
        intro!: disk_record_cache_wf split: option.splits)
  with inv c er fr show "cache_inv c good st1" by (simp add: cache_inv_def same_frame_def)
qed

lemma unlock_simps [simp]:
  "d_err (grub_disk_cache_unlock dv di s st) = d_err st"
  "d_proc (grub_disk_cache_unlock dv di s st) = d_proc st"
  "d_malloc (grub_disk_cache_unlock dv di s st) = d_malloc st"
  "d_malloc_calls (grub_disk_cache_unlock dv di s st) = d_malloc_calls st"
  "d_ext (grub_disk_cache_unlock dv di s st) = d_ext st"
  "read_recursion_depth (grub_disk_cache_unlock dv di s st) = read_recursion_depth st"
  by (simp_all add: grub_disk_cache_unlock_def Let_def)

lemma fetch_unlock_inv:
  assumes "cache_inv c good st" and "grub_disk_cache_fetch disk sector st = (Some d, st1)"
  shows "cache_inv c good (grub_disk_cache_unlock (disk_dev_id disk) (disk_id disk) sector st1)"
    and "same_frame st (grub_disk_cache_unlock (disk_dev_id disk) (disk_id disk) sector st1)"
  using fetch_unlock [OF assms] assms(1) by (simp_all add: cache_inv_def same_frame_def)

lemma store_refill_inv:
  assumes inv: "cache_inv c good st" and d: "data = block_bytes c dv di sector"
  shows "cache_inv c good (snd (store_refill dv di sector data i st))"
    and "same_frame st (snd (store_refill dv di sector data i st))"
proof -
  have b: "bucket_inv c (d_cache st i)" using inv by (simp add: cache_inv_def)
  have upd: "bucket_inv c (fst (d_cache st i),
      update_entry dv di sector (\<lambda>e. e\<lparr> ce_data := x, ce_lock := False \<rparr>) (snd (d_cache st i)))"
    if "x = None \<or> x = Some data" for x
    using b d that
    by (auto simp: bucket_inv_def entry_ok_def entry_matches_def dest!: update_entry_set)
  obtain ok st1 where m: "grub_malloc st = (ok, st1)" by fastforce
  note step = grub_malloc_step [OF m]
  show "cache_inv c good (snd (store_refill dv di sector data i st))"
    using inv upd step by (cases ok) (simp_all add: store_refill_def m Let_def cache_inv_def)
  show "same_frame st (snd (store_refill dv di sector data i st))"
    using step by (cases ok) (simp_all add: store_refill_def m Let_def same_frame_def)
qed

lemma store_slot_inv:
  assumes inv: "cache_inv c good st" and d: "data = block_bytes c dv di sector"
  shows "cache_inv c good (snd (store_slot dv di sector data i st))"
    and "same_frame st (snd (store_slot dv di sector data i st))"
proof -
  let ?slot = "fst (d_cache st i)" and ?chain = "snd (d_cache st i)"
  have b: "bucket_inv c (d_cache st i)" using inv by (simp add: cache_inv_def)
  define r where "r = (if ce_data ?slot \<noteq> None
             then (case grub_malloc st of (ok, s) \<Rightarrow>
                     (if ok then Some (?slot\<lparr> ce_data := None, ce_lock := False \<rparr>) else None,
                      set_errno GRUB_ERR_NONE s))
             else (None, st))"
  obtain old st1 where r: "r = (old, st1)" by fastforce
  obtain ok0 s0 where m0: "grub_malloc st = (ok0, s0)" by fastforce
  obtain ok st2 where m: "grub_malloc st1 = (ok, st2)" by fastforce
  note steps = grub_malloc_step [OF m0] grub_malloc_step [OF m]
  have st1: "d_cache st1 = d_cache st" "d_proc st1 = d_proc st"
      "err_wf (d_err st1) = err_wf (d_err st)" "same_frame st st1"
    and old: "old = None \<or> old = Some (?slot\<lparr> ce_data := None, ce_lock := False \<rparr>)"
    using r steps(1-8) by (auto simp: r_def m0 same_frame_def split: if_splits)
  have eq: "store_slot dv di sector data i st =
      (if ok then (GRUB_ERR_NONE, st2\<lparr> d_cache := (d_cache st2)(i :=
          (\<lparr> ce_dev_id = dv, ce_disk_id = di, ce_sector = sector, ce_data = Some data, ce_lock = False \<rparr>,
           case old of None \<Rightarrow> ?chain | Some x \<Rightarrow> evict_chain x ?chain)) \<rparr>)
       else (d_errno st2, st2\<lparr> d_cache := (d_cache st2)(i :=
          (?slot\<lparr> ce_data := None, ce_lock := False \<rparr>, ?chain)) \<rparr>))"
    unfolding store_slot_def Let_def r_def [symmetric] r by (simp add: m split: bool.split)
  have new: "bucket_inv c (\<lparr> ce_dev_id = dv, ce_disk_id = di, ce_sector = sector,
      ce_data = Some data, ce_lock = False \<rparr>, case old of None \<Rightarrow> ?chain | Some x \<Rightarrow> evict_chain x ?chain)"
    using b d old by (auto simp: bucket_inv_def entry_ok_def evict_chain_eq dest!: in_set_takeD)
  have cleared: "bucket_inv c (?slot\<lparr> ce_data := None, ce_lock := False \<rparr>, ?chain)"
    using b by (auto simp: bucket_inv_def entry_ok_def)
  show "cache_inv c good (snd (store_slot dv di sector data i st))"
    using inv new cleared st1 steps(9-) by (simp add: eq cache_inv_def same_frame_def)
  show "same_frame st (snd (store_slot dv di sector data i st))"
    using st1(4) steps(9-) by (simp add: eq same_frame_def)
qed

lemma cache_store_inv:
  assumes "cache_inv c good st" and "data = block_bytes c dv di sector"
  shows "cache_inv c good (snd (grub_disk_cache_store dv di sector data st))"
    and "same_frame st (snd (grub_disk_cache_store dv di sector data st))"
  using store_refill_inv [OF assms] store_slot_inv [OF assms]
  by (simp_all add: grub_disk_cache_store_def Let_def split: option.splits)

lemma invalidate_all_inv: "cache_inv c good st \<Longrightarrow> cache_inv c good (grub_disk_cache_invalidate_all st)"
proof -
  have "bucket_inv c (invalidate_bucket b)" if "bucket_inv c b" for b
    using that by (auto simp: bucket_inv_def invalidate_bucket_def entry_ok_def
        intro: order_trans [OF length_filter_le])
  then show "cache_inv c good st \<Longrightarrow> cache_inv c good (grub_disk_cache_invalidate_all st)"
    by (simp add: cache_inv_def grub_disk_cache_invalidate_all_def)
qed

lemma cache_inv_init: "good h \<Longrightarrow> cache_inv c good (dstate_init malloc h)"
  by (simp add: cache_inv_def dstate_init_def bucket_inv_def empty_bucket_def entry_ok_def
      proc_init_wf err_wf_def err_init_def)

end
