(* ===== verification/Disk_Read_Correct.thy ===== *)
theory Disk_Read_Correct
  imports Disk_Read Disk_Cache
begin

text \<open>
  Correctness of \<open>grub_disk_read\<close>. The contract of a driver is the locale \<open>disk_device\<close>: a
  successful driver read returns the bytes of the disk, and no driver read breaks the cache
  invariant. Under it a successful \<open>grub_disk_read\<close> returns exactly the requested bytes, whatever
  is cached, whichever path served it, and however the cached blocks and the driver reads are
  interleaved; the loop ends; the cache invariant survives every outcome.
\<close>

definition in_device :: "grub_disk \<Rightarrow> nat \<Rightarrow> bool" where
  "in_device disk n \<longleftrightarrow> disk_total_sectors disk = GRUB_DISK_SIZE_UNKNOWN \<or>
     n \<le> unat (disk_total_sectors disk) * 2 ^ disk_log_sector_size disk"

definition geometry_ok :: "grub_disk \<Rightarrow> bool" where
  "geometry_ok disk \<longleftrightarrow> GRUB_DISK_SECTOR_BITS \<le> disk_log_sector_size disk \<and>
     disk_log_sector_size disk \<le> CACHE_BLOCK_BITS \<and> 0 < disk_max_agglomerate disk"

definition loose_frame :: "'h dstate \<Rightarrow> 'h dstate \<Rightarrow> bool" where
  "loose_frame st st' \<longleftrightarrow> read_recursion_depth st' = read_recursion_depth st \<and>
     d_malloc st' = d_malloc st \<and> error_stack (d_err st') = error_stack (d_err st)"

lemma loose_frame_refl [simp]: "loose_frame st st"
  by (simp add: loose_frame_def)

lemma loose_frame_trans: "loose_frame a b \<Longrightarrow> loose_frame b c \<Longrightarrow> loose_frame a c"
  by (simp add: loose_frame_def)

lemma same_imp_loose: "same_frame a b \<Longrightarrow> loose_frame a b"
  by (simp add: same_frame_def loose_frame_def)

text \<open>
  A quiet state: no error is pending and every allocation is going to be served. The flag
  \<open>live\<close> says whether anything is claimed of quiet states at all, so that one set of lemmas
  covers drivers that may fail and drivers that cannot.
\<close>

definition quiet :: "bool \<Rightarrow> 'h dstate \<Rightarrow> bool" where
  "quiet live st \<longleftrightarrow> live \<and> d_errno st = GRUB_ERR_NONE \<and> (\<forall>n. d_malloc st n)"

lemma quiet_errno: "quiet live st \<Longrightarrow> d_errno st = GRUB_ERR_NONE"
  by (simp add: quiet_def)

lemma quiet_malloc: "quiet live st \<Longrightarrow> grub_malloc st = (ok, st1) \<Longrightarrow> ok \<and> quiet live st1"
  by (auto simp: quiet_def grub_malloc_def Let_def d_errno_def)

lemma quiet_frame: "quiet live st \<Longrightarrow> d_malloc st' = d_malloc st \<Longrightarrow> d_errno st' = d_errno st \<Longrightarrow> quiet live st'"
  by (simp add: quiet_def)

lemma quiet_fetch: "quiet live st \<Longrightarrow> grub_disk_cache_fetch disk sector st = (x, st1) \<Longrightarrow> quiet live st1"
  by (auto simp: grub_disk_cache_fetch_def Let_def quiet_def d_errno_def split: option.splits)

lemma quiet_unlock: "quiet live st \<Longrightarrow> quiet live (grub_disk_cache_unlock dv di sector st)"
  by (simp add: quiet_def d_errno_def)

lemma quiet_set_errno: "quiet live st \<Longrightarrow> quiet live (set_errno GRUB_ERR_NONE st)"
  by (simp add: quiet_def)

lemma quiet_cache [simp]: "quiet live (st\<lparr> d_cache := c \<rparr>) = quiet live st"
  by (simp add: quiet_def d_errno_def)

lemma quiet_store_slot:
  assumes q: "quiet live st"
  shows "quiet live (snd (store_slot dv di sector data i st))"
proof -
  obtain ok0 s0 where m0: "grub_malloc st = (ok0, s0)" by fastforce
  obtain ok1 s1 where m1: "grub_malloc (set_errno GRUB_ERR_NONE s0) = (ok1, s1)" by fastforce
  have q0: "ok0" "quiet live s0" using quiet_malloc [OF q m0] by simp_all
  have q1: "ok1" "quiet live s1" using quiet_malloc [OF quiet_set_errno [OF q0(2)] m1] by simp_all
  show ?thesis
    using m0 m1 q0 q1 by (simp add: store_slot_def Let_def)
qed

lemma quiet_store: "quiet live st \<Longrightarrow> quiet live (snd (grub_disk_cache_store dv di sector data st))"
proof -
  assume q: "quiet live st"
  obtain ok s1 where m: "grub_malloc st = (ok, s1)" by fastforce
  show ?thesis
    using quiet_malloc [OF q m] quiet_store_slot [OF q]
    by (simp add: grub_disk_cache_store_def store_refill_def Let_def m split: option.split)
qed

lemma quiet_store_blocks: "quiet live st \<Longrightarrow> quiet live (store_blocks disk sector buf i n st)"
  by (induction n arbitrary: i st) (simp_all add: quiet_store)

lemma quiet_scan:
  "quiet live st \<Longrightarrow> agglomerate_scan disk sector n agg st = (x, st1) \<Longrightarrow> quiet live st1"
  by (induction n arbitrary: agg st) (auto split: prod.splits option.splits dest: quiet_fetch)

lemma quiet_release: "quiet live st \<Longrightarrow> quiet live (release_found disk sector data st)"
  by (simp add: release_found_def quiet_unlock split: option.splits)

subsection \<open>Arithmetic of sectors\<close>

lemma push_bit_1_mask: "push_bit k (1 :: u64) - 1 = mask k"
  by (simp add: mask_eq_exp_minus_1 push_bit_eq_mult)

lemma unat_push_bit_1: "k < 64 \<Longrightarrow> unat (push_bit k (1 :: u64)) = 2 ^ k"
  using power_strict_increasing [of k 64 "2 :: nat"] by (simp only: unat_push_bit) simp

lemma pow_lss: "9 \<le> l \<Longrightarrow> (2 :: nat) ^ l = 2 ^ (l - 9) * 512"
proof -
  assume "9 \<le> l"
  then have "(2 :: nat) ^ l = 2 ^ ((l - 9) + 9)" by simp
  then show ?thesis by (simp only: power_add) simp
qed

lemma pow_block: "9 \<le> l \<Longrightarrow> l \<le> 15 \<Longrightarrow> (2 :: nat) ^ (15 - l) * 2 ^ l = 32768"
  "9 \<le> l \<Longrightarrow> l \<le> 15 \<Longrightarrow> (2 :: nat) ^ (15 - l) * 2 ^ (l - 9) = 64"
  by (simp_all only: power_add [symmetric]) simp_all

lemma clamped_total_in_device:
  assumes "geometry_ok disk" and "n \<le> unat (clamped_total disk) * 512"
  shows "in_device disk n"
proof (cases "disk_total_sectors disk = GRUB_DISK_SIZE_UNKNOWN")
  case False
  let ?k = "disk_log_sector_size disk - 9" and ?t = "unat (disk_total_sectors disk)"
  have "unat (clamped_total disk) \<le> unat (push_bit ?k (disk_total_sectors disk))"
    by (auto simp: clamped_total_def Let_def word_le_nat_alt word_less_nat_alt)
  also have "\<dots> \<le> ?t * 2 ^ ?k" by (simp only: unat_push_bit) simp
  finally have "unat (clamped_total disk) * 512 \<le> ?t * 2 ^ ?k * 512" by simp
  also have "\<dots> = ?t * 2 ^ disk_log_sector_size disk"
    using assms(1) by (simp add: geometry_ok_def pow_lss)
  finally show ?thesis using assms(2) by (simp add: in_device_def)
qed (simp add: in_device_def)

text \<open>
  The arithmetic of \<open>read_necessary\<close>: the first native sector, the offset in it, and the number
  of native sectors cover exactly the bytes from \<open>s * 512 + o\<close> on.
\<close>

lemma necessary_cover:
  fixes s off z k :: nat
  defines "n \<equiv> s + off div 512"
  defines "o2 \<equiv> off mod 512 + (n mod 2 ^ k) * 512"
  shows "n div 2 ^ k * (2 ^ k * 512) + o2 = s * 512 + off"
    and "o2 + z \<le> (z + o2 + (2 ^ k * 512) - 1) div (2 ^ k * 512) * (2 ^ k * 512)"
    and "s * 512 + off + z \<le> t * (2 ^ k * 512) \<Longrightarrow>
         n div 2 ^ k + (z + o2 + (2 ^ k * 512) - 1) div (2 ^ k * 512) \<le> t"
proof -
  let ?m = "2 ^ k * (512 :: nat)"
  have m: "0 < ?m" by simp
  have "n div 2 ^ k * 2 ^ k + n mod 2 ^ k = n" by (rule div_mult_mod_eq)
  then have "n div 2 ^ k * 2 ^ k * 512 + n mod 2 ^ k * 512 = n * 512"
    by (metis add_mult_distrib)
  moreover have "n * 512 + off mod 512 = s * 512 + off"
    unfolding n_def by (simp add: add_mult_distrib)
  ultimately show start: "n div 2 ^ k * ?m + o2 = s * 512 + off"
    unfolding o2_def by (simp add: mult.assoc)
  have ceil: "x \<le> (x + ?m - 1) div ?m * ?m" for x
  proof -
    have "x + ?m - 1 = (x + ?m - 1) div ?m * ?m + (x + ?m - 1) mod ?m"
      by (rule div_mult_mod_eq [symmetric])
    moreover have "(x + ?m - 1) mod ?m < ?m" using m by (rule mod_less_divisor)
    ultimately show ?thesis using m by linarith
  qed
  then show "o2 + z \<le> (z + o2 + ?m - 1) div ?m * ?m"
    using ceil [of "z + o2"] by (simp add: add.commute)
  assume room: "s * 512 + off + z \<le> t * ?m"
  have le: "z + o2 \<le> (t - n div 2 ^ k) * ?m" and q: "n div 2 ^ k \<le> t"
  proof -
    have "n div 2 ^ k * ?m \<le> t * ?m" using start room by linarith
    then show "n div 2 ^ k \<le> t" using m by (metis mult_le_cancel2 not_less_zero)
    show "z + o2 \<le> (t - n div 2 ^ k) * ?m"
      unfolding diff_mult_distrib using start room by linarith
  qed
  have "(t - n div 2 ^ k + 1) * ?m = (t - n div 2 ^ k) * ?m + ?m"
    by (simp add: add_mult_distrib)
  then have "z + o2 + ?m - 1 < (t - n div 2 ^ k + 1) * ?m"
    using le m by linarith
  then have "(z + o2 + ?m - 1) div ?m < t - n div 2 ^ k + 1"
    by (simp add: less_mult_imp_div_less)
  then show "n div 2 ^ k + (z + o2 + ?m - 1) div ?m \<le> t" using q by linarith
qed

lemma necessary_words:
  fixes disk sector offset sz
  defines "k \<equiv> disk_log_sector_size disk - 9"
  defines "N \<equiv> unat sector + unat offset div 512"
  defines "O2 \<equiv> unat offset mod 512 + N mod 2 ^ k * 512"
  defines "n \<equiv> (unat sz + O2 + 2 ^ k * 512 - 1) div (2 ^ k * 512)"
  assumes geo: "geometry_ok disk" and s: "unat sector < 2 ^ 52" and o: "unat offset + unat sz \<le> 32768"
  shows "unat (grub_disk_to_native_sector disk (necessary_aligned disk sector offset)) = N div 2 ^ k"
    and "unat (necessary_offset disk sector offset) = O2"
    and "unat (ucast (necessary_num disk sector offset sz) :: u64) = n"
proof -
  have lss: "disk_log_sector_size disk = k + 9" and k6: "k \<le> 6"
    using geo by (auto simp: k_def geometry_ok_def)
  have pk: "(2 :: nat) ^ k \<le> 64" using power_increasing [OF k6, of "2 :: nat"] by simp
  have u1: "unat (sector + drop_bit 9 offset) = N"
    using s o by (simp add: N_def unat_plus_exact unat_drop_bit)
  have u2: "unat (necessary_aligned disk sector offset) = N - N mod 2 ^ k"
    by (simp only: necessary_aligned_def push_bit_1_mask word_align_down u1 k_def)
  show "unat (grub_disk_to_native_sector disk (necessary_aligned disk sector offset)) = N div 2 ^ k"
    by (simp only: grub_disk_to_native_sector_def k_def [symmetric] unat_drop_bit u2)
       (simp add: minus_mod_eq_mult_div)
  have al: "necessary_aligned disk sector offset \<le> sector + drop_bit 9 offset"
    by (simp add: word_le_nat_alt u1 u2)
  have dif: "unat (sector + drop_bit 9 offset - necessary_aligned disk sector offset) = N mod 2 ^ k"
    by (simp add: unat_minus_exact [OF al] u1 u2)
  have modk: "N mod 2 ^ k < 64"
    using pk by (meson less_le_trans mod_less_divisor zero_less_numeral zero_less_power)
  have a: "unat (offset AND (push_bit 9 1 - 1)) = unat offset mod 512"
    by (simp only: push_bit_1_mask unat_and_mask) simp
  have b: "unat (push_bit 9 (sector + drop_bit 9 offset - necessary_aligned disk sector offset))
      = N mod 2 ^ k * 512"
    using modk by (subst unat_push_bit_exact) (simp_all add: dif)
  show off: "unat (necessary_offset disk sector offset) = O2"
    unfolding necessary_offset_def O2_def
    using modk by (subst unat_plus_exact) (simp_all only: a b, simp_all)
  have bnd: "unat sz + O2 + 2 ^ k * 512 < 2 ^ 32" using modk o pk by (simp add: O2_def)
  have pk9: "unat (push_bit (k + 9) (1 :: u64)) = 2 ^ k * 512"
    using k6 by (subst unat_push_bit_1) (simp_all add: power_add)
  have "unat (sz + necessary_offset disk sector offset) = unat sz + O2"
    using bnd by (simp add: unat_plus_exact off)
  then have sum: "unat (sz + necessary_offset disk sector offset + push_bit (k + 9) 1)
      = unat sz + O2 + 2 ^ k * 512"
    using bnd by (subst unat_plus_exact) (simp_all only: pk9, simp)
  moreover have "(1 :: u64) \<le> sz + necessary_offset disk sector offset + push_bit (k + 9) 1"
    unfolding word_le_nat_alt sum by (simp add: Suc_le_eq)
  ultimately have "unat (drop_bit (k + 9)
      (sz + necessary_offset disk sector offset + push_bit (k + 9) 1 - 1)) = n"
    by (simp only: unat_drop_bit unat_minus_exact) (simp add: power_add n_def)
  moreover have "n < 2 ^ 32"
  proof -
    have "n \<le> unat sz + O2 + 2 ^ k * 512 - 1" unfolding n_def by (rule div_le_dividend)
    then show ?thesis using bnd by linarith
  qed
  ultimately show "unat (ucast (necessary_num disk sector offset sz) :: u64) = n"
    by (simp only: necessary_num_def lss unat_ucast_mod) simp
qed

lemma whole_block_native:
  assumes geo: "geometry_ok disk" and s: "unat sector < 2 ^ 52" "unat sector mod 64 = 0"
  shows "unat (grub_disk_to_native_sector disk sector) * 2 ^ disk_log_sector_size disk = unat sector * 512"
    and "unat (push_bit (15 - disk_log_sector_size disk) (1 :: u64)) * 2 ^ disk_log_sector_size disk = 32768"
    and "whole_block_in_range disk sector \<Longrightarrow> in_device disk
      ((unat (grub_disk_to_native_sector disk sector) +
        unat (push_bit (15 - disk_log_sector_size disk) (1 :: u64))) * 2 ^ disk_log_sector_size disk)"
proof -
  let ?l = "disk_log_sector_size disk"
  have l: "9 \<le> ?l" "?l \<le> 15" using geo by (simp_all add: geometry_ok_def)
  have "(2 :: nat) ^ (?l - 9) dvd 64"
    using pow_block(2) [OF l] by (metis dvd_triv_right)
  then have dv: "2 ^ (?l - 9) dvd unat sector" using s(2) by (meson dvd_trans mod_eq_0_iff_dvd)
  show start: "unat (grub_disk_to_native_sector disk sector) * 2 ^ ?l = unat sector * 512"
    using dv by (simp add: grub_disk_to_native_sector_def unat_drop_bit pow_lss [OF l(1)])
  show cnt: "unat (push_bit (15 - ?l) (1 :: u64)) * 2 ^ ?l = 32768"
    using pow_block(1) [OF l] l by (subst unat_push_bit_1) simp_all
  show "in_device disk ((unat (grub_disk_to_native_sector disk sector) +
        unat (push_bit (15 - ?l) (1 :: u64))) * 2 ^ ?l)" if w: "whole_block_in_range disk sector"
  proof (cases "disk_total_sectors disk = GRUB_DISK_SIZE_UNKNOWN")
    case False
    let ?t = "unat (disk_total_sectors disk)"
    have "unat sector + 64 < unat (push_bit (?l - 9) (disk_total_sectors disk))"
      using w False s(1) by (simp add: whole_block_in_range_def word_less_nat_alt unat_plus_exact)
    also have "\<dots> \<le> ?t * 2 ^ (?l - 9)" by (simp only: unat_push_bit) simp
    finally have "(unat sector + 64) * 512 \<le> ?t * 2 ^ (?l - 9) * 512" by simp
    then have "unat sector * 512 + 32768 \<le> ?t * 2 ^ ?l" by (simp add: pow_lss [OF l(1)])
    then show ?thesis unfolding in_device_def add_mult_distrib start cnt by simp
  qed (simp add: in_device_def)
qed

lemma unat_of_nat_blocks:
  assumes "j * 2 ^ b < 2 ^ 64"
  shows "unat (push_bit b (of_nat j :: u64)) = j * 2 ^ b"
proof -
  have "j < 2 ^ 64" using assms by (metis less_le_trans le_eq_less_or_eq mult_1_right mult_le_mono2
        not_less one_le_power one_le_numeral order.strict_trans1)
  then have "unat (of_nat j :: u64) = j" by (simp add: unat_of_nat take_bit_eq_mod)
  then show ?thesis using assms by (subst unat_push_bit_exact) simp_all
qed

lemma sector_plus_blocks:
  fixes sector :: u64
  assumes "unat sector + 64 * j < 2 ^ 64"
  shows "unat (sector + push_bit 6 (of_nat j)) = unat sector + 64 * j"
proof -
  have "unat (push_bit 6 (of_nat j :: u64)) = j * 64"
    using unat_of_nat_blocks [of j 6] assms by simp
  then show ?thesis using assms by (simp add: unat_plus_exact mult.commute)
qed

text \<open>
  \<open>j\<close> whole cache blocks have been delivered: the position moved from \<open>(sector, sz)\<close> to
  \<open>(sector', sz')\<close> and the bytes between are in \<open>buf\<close>.
\<close>

definition delivered :: "content \<Rightarrow> grub_disk \<Rightarrow> u64 \<Rightarrow> u64 \<Rightarrow> nat \<Rightarrow> u64 \<Rightarrow> u64 \<Rightarrow> bytes \<Rightarrow> bool" where
  "delivered c disk sector sz j sector' sz' buf \<longleftrightarrow>
     unat sector' = unat sector + 64 * j \<and> unat sz = unat sz' + j * 32768 \<and>
     buf = content_bytes c (disk_dev_id disk) (disk_id disk) (unat sector * 512) (j * 32768)"

lemma delivered_none: "delivered c disk sector sz 0 sector sz []"
  by (simp add: delivered_def)

lemma delivered_trans:
  assumes "delivered c disk s z i s1 z1 b1" and "delivered c disk s1 z1 j s2 z2 b2"
  shows "delivered c disk s z (i + j) s2 z2 (b1 @ b2)"
proof -
  have "unat s1 * 512 = unat s * 512 + i * 32768" using assms(1) by (simp add: delivered_def)
  then show ?thesis
    using assms by (simp add: delivered_def content_bytes_append add_mult_distrib)
qed

subsection \<open>Scanning and filling the cache\<close>

lemma agglomerate_scan_ok:
  assumes "cache_inv c good st" and "agglomerate_scan disk sector n agg st = ((data, agg'), st')"
  shows "agg \<le> agg' \<and>
    (case data of
       None \<Rightarrow> agg' = agg + n \<and> cache_inv c good st' \<and> same_frame st st'
     | Some d \<Rightarrow> agg' < agg + n \<and>
         d = block_bytes c (disk_dev_id disk) (disk_id disk) (sector + push_bit 6 (of_nat agg')) \<and>
         cache_inv c good (grub_disk_cache_unlock (disk_dev_id disk) (disk_id disk)
           (sector + push_bit 6 (of_nat agg')) st') \<and>
         same_frame st (grub_disk_cache_unlock (disk_dev_id disk) (disk_id disk)
           (sector + push_bit 6 (of_nat agg')) st'))"
  using assms
proof (induction n arbitrary: agg st)
  case 0
  then show ?case by auto
next
  case (Suc n)
  obtain hit st1 where f: "grub_disk_cache_fetch disk (sector + push_bit 6 (of_nat agg)) st = (hit, st1)"
    by fastforce
  show ?case
  proof (cases hit)
    case (Some d)
    note f' = f [unfolded Some]
    show ?thesis
      using Suc.prems fetch_unlock(1) [OF Suc.prems(1) f'] fetch_unlock_inv [OF Suc.prems(1) f']
      by (auto simp: f')
  next
    case None
    note miss = fetch_miss [OF Suc.prems(1) f [unfolded None]]
    have "agglomerate_scan disk sector n (Suc agg) st1 = ((data, agg'), st')"
      using Suc.prems(2) by (simp add: f None)
    from Suc.IH [OF miss(3) this] show ?thesis
      using same_frame_trans [OF miss(4)] by (auto split: option.splits)
  qed
qed

lemma store_blocks_ok:
  assumes "cache_inv c good st" and "i + n \<le> m" and "unat sector + 64 * m < 2 ^ 53"
    and buf: "buf = content_bytes c (disk_dev_id disk) (disk_id disk) (unat sector * 512) (m * 32768)"
  shows "cache_inv c good (store_blocks disk sector buf i n st) \<and>
    same_frame st (store_blocks disk sector buf i n st)"
  using assms(1-3)
proof (induction n arbitrary: i st)
  case 0
  then show ?case by simp
next
  case (Suc n)
  let ?sec = "sector + push_bit 6 (of_nat i) :: u64"
  have "unat ?sec = unat sector + 64 * i"
    using Suc.prems by (intro sector_plus_blocks) simp
  then have "bslice (i * 2 ^ 15) (2 ^ 15) buf = block_bytes c (disk_dev_id disk) (disk_id disk) ?sec"
    using Suc.prems(2) unfolding buf block_bytes_def
    by (subst bslice_content_bytes) (simp_all add: algebra_simps)
  note store = cache_store_inv [OF Suc.prems(1) this]
  from Suc.IH [OF store(1)] Suc.prems(2,3) same_frame_trans [OF store(2)] show ?case by auto
qed

subsection \<open>The contract of a driver\<close>

locale disk_device =
  fixes dread :: "'h dread"
    and content :: content
    and good :: "'h \<Rightarrow> bool"
    and served :: "grub_disk \<Rightarrow> bool"
    and live :: bool
  assumes dread_data:
      "served disk \<Longrightarrow> cache_inv content good st \<Longrightarrow>
       in_device disk ((unat s + unat n) * 2 ^ disk_log_sector_size disk) \<Longrightarrow>
       dread disk s n st = ((GRUB_ERR_NONE, buf), st') \<Longrightarrow>
       buf = content_bytes content (disk_dev_id disk) (disk_id disk)
               (unat s * 2 ^ disk_log_sector_size disk) (unat n * 2 ^ disk_log_sector_size disk)"
    and dread_inv:
      "served disk \<Longrightarrow> cache_inv content good st \<Longrightarrow>
       in_device disk ((unat s + unat n) * 2 ^ disk_log_sector_size disk) \<Longrightarrow>
       cache_inv content good (snd (dread disk s n st)) \<and> loose_frame st (snd (dread disk s n st))"
    and dread_error:
      "served disk \<Longrightarrow> dread disk s n st = ((e, buf), st') \<Longrightarrow> e \<noteq> GRUB_ERR_NONE \<Longrightarrow> d_errno st' = e"
    and dread_live:
      "served disk \<Longrightarrow> cache_inv content good st \<Longrightarrow>
       in_device disk ((unat s + unat n) * 2 ^ disk_log_sector_size disk) \<Longrightarrow> 0 < unat n \<Longrightarrow> quiet live st \<Longrightarrow>
       fst (fst (dread disk s n st)) = GRUB_ERR_NONE \<and> quiet live (snd (dread disk s n st))"
    and served_geometry: "served disk \<Longrightarrow> geometry_ok disk"
begin

lemma read_necessary_ok:
  assumes disk: "served disk" and inv: "cache_inv content good st"
    and stack: "length (error_stack (d_err st)) < GRUB_ERROR_STACK_SIZE"
    and s: "unat sector < 2 ^ 52" and o: "unat offset + unat sz \<le> 32768"
    and room: "in_device disk (unat sector * 512 + unat offset + unat sz)"
    and run: "read_necessary dread disk sector offset sz st = ((e, buf), st')"
  shows "cache_inv content good st' \<and> loose_frame st st' \<and>
     (e = GRUB_ERR_NONE \<longrightarrow> buf = content_bytes content (disk_dev_id disk) (disk_id disk)
        (unat sector * 512 + unat offset) (unat sz)) \<and>
     (quiet live st \<and> 0 < unat sz \<longrightarrow> e = GRUB_ERR_NONE \<and> quiet live st')"
proof -
  let ?k = "disk_log_sector_size disk - 9"
  let ?s = "grub_disk_to_native_sector disk (necessary_aligned disk sector offset)"
  let ?n = "ucast (necessary_num disk sector offset sz) :: u64"
  note geo = served_geometry [OF disk]
  note w = necessary_words [OF geo s o]
  note cover = necessary_cover(1) [of "unat sector" "unat offset" ?k]
    necessary_cover(2,3) [where s = "unat sector" and off = "unat offset" and k = ?k and z = "unat sz"]
  have lp: "(2 :: nat) ^ disk_log_sector_size disk = 2 ^ ?k * 512"
    using geo by (simp add: geometry_ok_def pow_lss)
  obtain ok st1 where m: "grub_malloc st = (ok, st1)" by fastforce
  note step = grub_malloc_step [OF m]
  have inv1: "cache_inv content good st1" and fr1: "loose_frame st st1"
    using inv step by (simp_all add: cache_inv_def loose_frame_def)
  obtain e2 tmp st2 where d: "dread disk ?s ?n st1 = ((e2, tmp), st2)" by (metis surj_pair)
  have dev: "in_device disk ((unat ?s + unat ?n) * 2 ^ disk_log_sector_size disk)"
    using room cover(3) [where t = "unat (disk_total_sectors disk)"]
    by (auto simp: in_device_def w lp)
  have inv2: "cache_inv content good st2" and fr2: "loose_frame st1 st2"
    using dread_inv [OF disk inv1 dev] d by simp_all
  have tmp: "tmp = content_bytes content (disk_dev_id disk) (disk_id disk)
      (unat ?s * (2 ^ ?k * 512)) (unat ?n * (2 ^ ?k * 512))" if "e2 = GRUB_ERR_NONE"
    using dread_data [OF disk inv1 dev] d that by (simp add: lp)
  have data: "bslice (unat (necessary_offset disk sector offset)) (unat sz) tmp =
      content_bytes content (disk_dev_id disk) (disk_id disk)
        (unat sector * 512 + unat offset) (unat sz)" if "e2 = GRUB_ERR_NONE"
    unfolding tmp [OF that] w using cover(1,2) by (subst bslice_content_bytes) simp_all
  have stack2: "push_pop_error st2 = st2"
    using stack fr1 fr2 by (simp add: push_pop_error_id loose_frame_def)
  have err2: "d_errno st2 \<noteq> GRUB_ERR_NONE" if "e2 \<noteq> GRUB_ERR_NONE"
    using dread_error [OF disk d that] that by simp
  have lv: "ok \<and> e2 = GRUB_ERR_NONE \<and> quiet live st2" if "quiet live st" "0 < unat sz"
  proof -
    have "0 < unat ?n" using cover(2) that(2) unfolding w by (cases "unat ?n") (simp_all add: w)
    then show ?thesis using dread_live [OF disk inv1 dev] quiet_malloc [OF that(1) m] d by simp
  qed
  show ?thesis
    using run inv1 fr1 inv2 loose_frame_trans [OF fr1 fr2] data stack2 err2 step(8) lv
    by (cases ok) (auto simp: read_necessary_def m d split: if_splits)
qed

lemma read_small_real_ok:
  assumes disk: "served disk" and inv: "cache_inv content good st"
    and stack: "length (error_stack (d_err st)) < GRUB_ERROR_STACK_SIZE"
    and s: "unat sector < 2 ^ 52" "unat sector mod 64 = 0" and o: "unat offset + unat sz \<le> 32768"
    and room: "in_device disk (unat sector * 512 + unat offset + unat sz)"
    and run: "grub_disk_read_small_real dread disk sector offset sz st = ((e, buf), st')"
  shows "cache_inv content good st' \<and> loose_frame st st' \<and>
     (e = GRUB_ERR_NONE \<longrightarrow> buf = content_bytes content (disk_dev_id disk) (disk_id disk)
        (unat sector * 512 + unat offset) (unat sz)) \<and>
     (quiet live st \<and> 0 < unat sz \<longrightarrow> e = GRUB_ERR_NONE \<and> quiet live st')"
proof -
  let ?dv = "disk_dev_id disk" and ?di = "disk_id disk"
  have block: "bslice (unat offset) (unat sz) (block_bytes content ?dv ?di sector) =
      content_bytes content ?dv ?di (unat sector * 512 + unat offset) (unat sz)"
    unfolding block_bytes_def using o by (subst bslice_content_bytes) simp_all
  obtain hit st1 where f: "grub_disk_cache_fetch disk sector st = (hit, st1)" by fastforce
  show ?thesis
  proof (cases hit)
    case (Some d)
    note f' = f [unfolded Some]
    show ?thesis
      using run fetch_unlock(1) [OF inv f'] fetch_unlock_inv(1) [OF inv f']
        same_imp_loose [OF fetch_unlock_inv(2) [OF inv f']] block quiet_unlock [OF quiet_fetch [OF _ f']]
      by (auto simp: grub_disk_read_small_real_def f')
  next
    case None
    note miss = fetch_miss [OF inv f [unfolded None]]
    obtain ok st2 where m: "grub_malloc st1 = (ok, st2)" by fastforce
    note step = grub_malloc_step [OF m]
    have inv2: "cache_inv content good st2" and fr2: "loose_frame st st2"
      using miss(3) same_imp_loose [OF miss(4)] step by (simp_all add: cache_inv_def loose_frame_def)
    have q2: "ok \<and> quiet live st2" if "quiet live st"
      using quiet_malloc [OF quiet_fetch [OF that f] m] .
    have nec: "cache_inv content good st4 \<and> loose_frame st st4 \<and> (e4 = GRUB_ERR_NONE \<longrightarrow>
        buf4 = content_bytes content ?dv ?di (unat sector * 512 + unat offset) (unat sz)) \<and>
        (quiet live st3 \<and> 0 < unat sz \<longrightarrow> e4 = GRUB_ERR_NONE \<and> quiet live st4)"
      if "cache_inv content good st3" "loose_frame st st3"
        "read_necessary dread disk sector offset sz (set_errno GRUB_ERR_NONE st3) = ((e4, buf4), st4)"
      for st3 e4 buf4 st4
      using read_necessary_ok [OF disk _ _ s(1) o room that(3)] that stack quiet_set_errno [of live st3]
      by (auto simp: cache_inv_def loose_frame_def)
    show ?thesis
    proof (cases "ok \<and> whole_block_in_range disk sector")
      case False
      then show ?thesis
        using run inv2 fr2 step(8) nec [OF inv2 fr2] q2
        by (cases ok) (auto simp: grub_disk_read_small_real_def f None m)
    next
      case True
      let ?ns = "grub_disk_to_native_sector disk sector"
      let ?nn = "push_bit (15 - disk_log_sector_size disk) (1 :: u64)"
      note nat = whole_block_native [OF served_geometry [OF disk] s]
      have dev: "in_device disk ((unat ?ns + unat ?nn) * 2 ^ disk_log_sector_size disk)"
        using nat(3) True by simp
      obtain e3 tmp st3 where d: "dread disk ?ns ?nn st2 = ((e3, tmp), st3)" by (metis surj_pair)
      have inv3: "cache_inv content good st3" and fr3: "loose_frame st st3"
        using dread_inv [OF disk inv2 dev] d loose_frame_trans [OF fr2] by simp_all
      have tmp: "tmp = block_bytes content ?dv ?di sector" if "e3 = GRUB_ERR_NONE"
        using dread_data [OF disk inv2 dev] d that nat by (simp add: block_bytes_def)
      note store = cache_store_inv [OF inv3 tmp]
      have "0 < unat ?nn" using nat(2) by (cases "unat ?nn") simp_all
      then have q3: "e3 = GRUB_ERR_NONE \<and> quiet live st3" if "quiet live st"
        using dread_live [OF disk inv2 dev] q2 [OF that] d by simp
      show ?thesis
        using run nec [OF inv3 fr3] store loose_frame_trans [OF fr3 same_imp_loose] tmp block True q3 quiet_store
        by (auto simp: grub_disk_read_small_real_def f None m d simp del: push_bit_of_1
            split: if_splits)
    qed
  qed
qed

end

subsection \<open>Reads with a hook\<close>

locale hooked_device = disk_device dread content good served live
  for dread :: "'h dread" and content :: content and good :: "'h \<Rightarrow> bool"
    and served :: "grub_disk \<Rightarrow> bool" and live :: bool +
  fixes hook :: "'h read_hook option"
  assumes hook_inv: "hook = Some h \<Longrightarrow> cache_inv content good st \<Longrightarrow>
      cache_inv content good (snd (h s off l b st)) \<and> loose_frame st (snd (h s off l b st))"
    and hook_live: "hook = Some h \<Longrightarrow> quiet live st \<Longrightarrow>
      fst (h s off l b st) = GRUB_ERR_NONE \<and> quiet live (snd (h s off l b st))"
begin

lemma call_hook_ok:
  assumes "cache_inv content good st" and "loose_frame st0 st"
  shows "cache_inv content good (call_hook hook s l b st) \<and> loose_frame st0 (call_hook hook s l b st)"
proof (cases hook)
  case (Some h)
  with hook_inv [OF Some assms(1)] loose_frame_trans [OF assms(2)] show ?thesis
    by (simp add: call_hook_def)
qed (use assms in \<open>simp add: call_hook_def\<close>)

lemma call_hook_quiet: "quiet live st \<Longrightarrow> quiet live (call_hook hook s l b st)"
  using hook_live by (simp add: call_hook_def split: option.split)

lemma read_small_ok:
  assumes "served disk" and "cache_inv content good st"
    and "length (error_stack (d_err st)) < GRUB_ERROR_STACK_SIZE"
    and "unat sector < 2 ^ 52" "unat sector mod 64 = 0" and "unat offset + unat sz \<le> 32768"
    and "in_device disk (unat sector * 512 + unat offset + unat sz)"
    and run: "grub_disk_read_small dread hook disk sector offset sz st = ((e, buf), st')"
  shows "cache_inv content good st' \<and> loose_frame st st' \<and>
     (e = GRUB_ERR_NONE \<longrightarrow> buf = content_bytes content (disk_dev_id disk) (disk_id disk)
        (unat sector * 512 + unat offset) (unat sz)) \<and>
     (quiet live st \<and> 0 < unat sz \<longrightarrow> e = GRUB_ERR_NONE \<and> quiet live st')"
proof -
  obtain e1 buf1 st1 where r: "grub_disk_read_small_real dread disk sector offset sz st = ((e1, buf1), st1)"
    by (metis surj_pair)
  note real = read_small_real_ok [OF assms(1-7) r]
  show ?thesis
  proof (cases "e1 = GRUB_ERR_NONE \<and> hook \<noteq> None")
    case False
    then show ?thesis
      using run real by (cases hook) (auto simp: grub_disk_read_small_def r split: if_splits)
  next
    case True
    then obtain h where h: "hook = Some h" by auto
    let ?call = "h (sector + drop_bit 9 offset) (ucast (offset AND 511)) (ucast sz) buf1 st1"
    have "cache_inv content good (snd ?call) \<and> loose_frame st1 (snd ?call)"
      using hook_inv [OF h] real by blast
    moreover have "fst ?call = GRUB_ERR_NONE \<and> quiet live (snd ?call)" if "quiet live st" "0 < unat sz"
      using hook_live [OF h] real that by blast
    ultimately show ?thesis
      using run real True loose_frame_trans
      by (auto simp: grub_disk_read_small_def r h split: prod.splits)
  qed
qed

lemma read_agglomerate_ok:
  assumes disk: "served disk" and inv: "cache_inv content good st"
    and s: "unat sector mod 64 = 0" "unat sector + 64 * agg < 2 ^ 52"
    and room: "in_device disk (unat sector * 512 + agg * 32768)"
    and run: "read_agglomerate dread hook disk sector agg st = ((e, buf), st')"
  shows "cache_inv content good st' \<and> loose_frame st st' \<and>
     (e = GRUB_ERR_NONE \<longrightarrow> buf = content_bytes content (disk_dev_id disk) (disk_id disk)
        (unat sector * 512) (agg * 32768)) \<and>
     (quiet live st \<and> 0 < agg \<longrightarrow> e = GRUB_ERR_NONE \<and> quiet live st')"
proof -
  let ?l = "disk_log_sector_size disk"
  let ?ns = "grub_disk_to_native_sector disk sector"
  let ?nn = "push_bit (15 - ?l) (of_nat agg) :: u64"
  note geo = served_geometry [OF disk]
  have l: "9 \<le> ?l" "?l \<le> 15" using geo by (simp_all add: geometry_ok_def)
  have start: "unat ?ns * 2 ^ ?l = unat sector * 512"
    using whole_block_native(1) [OF geo _ s(1)] s(2) by simp
  have "(2 :: nat) ^ (15 - ?l) \<le> 64" using power_increasing [of "15 - ?l" 6 "2 :: nat"] l by simp
  then have "agg * 2 ^ (15 - ?l) \<le> agg * 64" by (rule mult_le_mono2)
  moreover have "agg * 64 < 2 ^ 64" using s(2) by simp
  ultimately have "agg * 2 ^ (15 - ?l) < 2 ^ 64" by (rule le_less_trans)
  then have "unat ?nn = agg * 2 ^ (15 - ?l)" by (rule unat_of_nat_blocks)
  then have cnt: "unat ?nn * 2 ^ ?l = agg * 32768" using pow_block(1) [OF l] by simp
  have dev: "in_device disk ((unat ?ns + unat ?nn) * 2 ^ ?l)"
    using room unfolding add_mult_distrib start cnt .
  obtain e1 buf1 st1 where d: "dread disk ?ns ?nn st = ((e1, buf1), st1)" by (metis surj_pair)
  have inv1: "cache_inv content good st1" and fr1: "loose_frame st st1"
    using dread_inv [OF disk inv dev] d by simp_all
  have q1: "e1 = GRUB_ERR_NONE \<and> quiet live st1" if "quiet live st" "0 < agg"
  proof -
    have "0 < unat ?nn" using cnt that(2) by (cases "unat ?nn") simp_all
    then show ?thesis using dread_live [OF disk inv dev _ that(1)] d by simp
  qed
  show ?thesis
  proof (cases "e1 = GRUB_ERR_NONE")
    case False
    then show ?thesis using run inv1 fr1 q1 by (auto simp: read_agglomerate_def d)
  next
    case True
    then have buf: "buf1 = content_bytes content (disk_dev_id disk) (disk_id disk)
        (unat sector * 512) (agg * 32768)"
      using dread_data [OF disk inv dev] d by (simp add: start cnt)
    have "unat sector + 64 * agg < 2 ^ 53" using s(2) by simp
    from store_blocks_ok [OF inv1 _ this buf, of 0 agg]
    have "cache_inv content good (store_blocks disk sector buf1 0 agg st1)"
      and "loose_frame st (store_blocks disk sector buf1 0 agg st1)"
      using loose_frame_trans [OF fr1 same_imp_loose] by auto
    then show ?thesis
      using run True buf call_hook_ok q1
      by (auto simp: read_agglomerate_def d intro!: call_hook_quiet quiet_store_blocks)
  qed
qed

lemma read_turn_ok:
  assumes disk: "served disk" and inv: "cache_inv content good st"
    and s: "unat sector mod 64 = 0" "unat sector * 512 + unat sz < 2 ^ 61" and sz: "32768 \<le> unat sz"
    and room: "in_device disk (unat sector * 512 + unat sz)"
    and run: "read_turn dread hook disk sector sz st = (r, st')"
  shows "cache_inv content good st' \<and> loose_frame st st' \<and>
     (case r of
        Inl e \<Rightarrow> e \<noteq> GRUB_ERR_NONE
      | Inr (sector1, sz1, buf) \<Rightarrow> \<exists>j > 0. delivered content disk sector sz j sector1 sz1 buf) \<and>
     (quiet live st \<longrightarrow> isl r = False \<and> quiet live st')"
proof -
  let ?dv = "disk_dev_id disk" and ?di = "disk_id disk"
  define lim where "lim = min (unat (drop_bit 15 sz)) (disk_max_agglomerate disk)"
  have lim: "0 < lim" "lim * 32768 \<le> unat sz"
    using sz served_geometry [OF disk]
    by (auto simp: lim_def geometry_ok_def unat_drop_bit div_greater_zero_iff min_def)
  obtain data agg st1 where sc: "agglomerate_scan disk sector lim 0 st = ((data, agg), st1)"
    by (metis surj_pair)
  note scan = agglomerate_scan_ok [OF inv sc]
  let ?sec1 = "sector + push_bit 6 (of_nat agg) :: u64"
  define st2 where "st2 = release_found disk ?sec1 data st1"
  have inv2: "cache_inv content good st2" and fr2: "loose_frame st st2"
    and agg: "agg \<le> lim" "data = None \<Longrightarrow> agg = lim" "data \<noteq> None \<Longrightarrow> agg < lim"
    using scan by (auto simp: st2_def release_found_def intro: same_imp_loose split: option.splits)
  have aggz: "agg * 32768 \<le> unat sz" using agg(1) lim(2) by (meson le_trans mult_le_mono1)
  have u1: "unat ?sec1 = unat sector + 64 * agg"
    using s(2) aggz by (intro sector_plus_blocks) simp
  have sub: "unat (push_bit 15 (of_nat agg) :: u64) = agg * 32768"
    using unat_of_nat_blocks [of agg 15] aggz s(2) by simp
  have u2: "unat (sz - push_bit 15 (of_nat agg)) = unat sz - agg * 32768"
    by (subst unat_minus_exact) (simp_all add: word_le_nat_alt sub aggz del: push_bit_of_1)
  obtain e buf st3 where res: "read_gap dread hook disk sector agg st2 = ((e, buf), st3)"
    by (metis surj_pair)
  have q2: "quiet live st2" if "quiet live st"
    unfolding st2_def by (rule quiet_release [OF quiet_scan [OF that sc]])
  have ra: "cache_inv content good st3 \<and> loose_frame st2 st3 \<and> (e = GRUB_ERR_NONE \<longrightarrow>
      buf = content_bytes content ?dv ?di (unat sector * 512) (agg * 32768)) \<and>
      (quiet live st \<longrightarrow> e = GRUB_ERR_NONE \<and> quiet live st3)"
  proof (cases "agg = 0")
    case False
    have "in_device disk (unat sector * 512 + agg * 32768)"
      using room aggz by (auto simp: in_device_def)
    moreover have "unat sector + 64 * agg < 2 ^ 52" using s(2) aggz by simp
    ultimately show ?thesis
      using read_agglomerate_ok [OF disk inv2 s(1), of agg e buf st3] res False q2 by (simp add: read_gap_def)
  qed (use res inv2 q2 in \<open>simp add: read_gap_def\<close>)
  have eq: "read_turn dread hook disk sector sz st =
      turn_result hook ?sec1 (sz - push_bit 15 (of_nat agg)) data e buf st3"
    unfolding read_turn_def lim_def [symmetric] sc by (simp add: st2_def [symmetric] res)
  show ?thesis
  proof (cases "e = GRUB_ERR_NONE")
    case False
    then show ?thesis using run ra loose_frame_trans [OF fr2] by (auto simp: eq turn_result_def)
  next
    case True
    show ?thesis
    proof (cases data)
      case None
      then show ?thesis
        using run True ra loose_frame_trans [OF fr2] u1 u2 agg(2) lim aggz
        by (auto simp: eq turn_result_def delivered_def intro!: exI [of _ agg])
    next
      case (Some d)
      have d: "d = content_bytes content ?dv ?di (unat sector * 512 + agg * 32768) 32768"
        using scan Some by (simp add: block_bytes_def u1 algebra_simps)
      have le: "Suc agg * 32768 \<le> unat sz" using agg(3) Some lim(2)
        by (metis Suc_leI le_trans mult_le_mono1 option.distinct(1))
      have "unat (?sec1 + 64) = unat sector + 64 * Suc agg"
        using u1 s(2) le by (subst unat_plus_exact) simp_all
      moreover have "unat (sz - push_bit 15 (of_nat agg) - 32768) = unat sz - Suc agg * 32768"
        using u2 le by (subst unat_minus_exact) (simp_all add: word_le_nat_alt)
      moreover have "buf @ d = content_bytes content ?dv ?di (unat sector * 512) (Suc agg * 32768)"
        using ra True by (simp add: d content_bytes_append add.commute)
      ultimately show ?thesis
        using run True Some ra call_hook_ok [of st3 st] call_hook_quiet [of st3] loose_frame_trans [OF fr2] le
        by (auto simp: eq turn_result_def delivered_def intro!: exI [of _ "Suc agg"])
    qed
  qed
qed

text \<open>
  The loop: with one unit of fuel per cache block it always returns, and what it has appended to
  the buffer is the content up to the new sector.
\<close>

lemma read_loop_ok:
  assumes disk: "served disk" and "cache_inv content good st"
    and "unat sector mod 64 = 0" "unat sector * 512 + unat sz < 2 ^ 61"
    and "in_device disk (unat sector * 512 + unat sz)" and "unat sz div 32768 \<le> fuel"
  shows "\<exists>r acc' st'. read_loop fuel dread hook disk sector sz acc st = Some (r, acc', st') \<and>
     cache_inv content good st' \<and> loose_frame st st' \<and>
     (case r of
        Inl e \<Rightarrow> e \<noteq> GRUB_ERR_NONE
      | Inr (sector', sz') \<Rightarrow> \<exists>j buf. unat sz' < 32768 \<and> acc' = acc @ buf \<and>
          delivered content disk sector sz j sector' sz' buf) \<and>
     (quiet live st \<longrightarrow> isl r = False \<and> quiet live st')"
  using assms(2-)
proof (induction fuel arbitrary: sector sz acc st)
  case 0
  then have "\<not> 32768 \<le> sz" by (simp add: word_le_nat_alt div_eq_0_iff)
  with 0 delivered_none show ?case by (fastforce simp: word_le_nat_alt)
next
  case (Suc fuel)
  show ?case
  proof (cases "32768 \<le> sz")
    case False
    with Suc.prems delivered_none show ?thesis by (fastforce simp: word_le_nat_alt)
  next
    case True
    then have ge: "32768 \<le> unat sz" by (simp add: word_le_nat_alt)
    obtain r1 st1 where t: "read_turn dread hook disk sector sz st = (r1, st1)" by fastforce
    note turn = read_turn_ok [OF disk Suc.prems(1-3) ge Suc.prems(4) t]
    show ?thesis
    proof (cases r1)
      case (Inl e)
      then show ?thesis using turn True t by auto
    next
      case (Inr x)
      obtain sector1 sz1 buf where x: "x = (sector1, sz1, buf)" by (metis prod_cases3)
      obtain j where j: "0 < j" "delivered content disk sector sz j sector1 sz1 buf"
        using turn Inr x by auto
      have pos: "unat sector1 = unat sector + 64 * j" "unat sz = unat sz1 + j * 32768"
        using j(2) by (simp_all add: delivered_def)
      have bytes: "unat sector1 * 512 + unat sz1 = unat sector * 512 + unat sz" using pos by simp
      have al: "unat sector1 mod 64 = 0" using pos(1) Suc.prems(2) by simp
      have "unat sz div 32768 = unat sz1 div 32768 + j" using pos(2) by simp
      then have fuel: "unat sz1 div 32768 \<le> fuel" using Suc.prems(5) j(1) by simp
      from Suc.IH [of st1 sector1 sz1 "acc @ buf"] turn al bytes Suc.prems(3,4) fuel
      obtain r acc' st' where IH: "read_loop fuel dread hook disk sector1 sz1 (acc @ buf) st1
            = Some (r, acc', st')" "cache_inv content good st'" "loose_frame st1 st'"
          "case r of Inl e \<Rightarrow> e \<noteq> GRUB_ERR_NONE
           | Inr (sector', sz') \<Rightarrow> \<exists>i b. unat sz' < 32768 \<and> acc' = (acc @ buf) @ b \<and>
               delivered content disk sector1 sz1 i sector' sz' b"
          "quiet live st1 \<longrightarrow> isl r = False \<and> quiet live st'" by auto
      have fr: "loose_frame st st'" using turn IH(3) loose_frame_trans by blast
      show ?thesis
        using IH(1,2,4,5) fr True t Inr x delivered_trans [OF j(2)] turn by (cases r) fastforce+
    qed
  qed
qed

lemma read_head_ok:
  assumes disk: "served disk" and inv: "cache_inv content good st"
    and stack: "length (error_stack (d_err st)) < GRUB_ERROR_STACK_SIZE"
    and o: "unat offset < 512" and s: "unat sector * 512 + unat offset + unat sz < 2 ^ 61"
    and room: "in_device disk (unat sector * 512 + unat offset + unat sz)"
    and run: "read_head dread hook disk sector offset sz st = (r, st')"
  shows "cache_inv content good st' \<and> loose_frame st st' \<and>
     (case r of
        Inl e \<Rightarrow> e \<noteq> GRUB_ERR_NONE
      | Inr (sector1, sz1, buf) \<Rightarrow>
          (unat sz1 = 0 \<or> unat sector1 mod 64 = 0 \<and>
             unat sector1 * 512 + unat sz1 = unat sector * 512 + unat offset + unat sz) \<and>
          unat sz1 \<le> unat sz \<and>
          buf = content_bytes content (disk_dev_id disk) (disk_id disk)
                  (unat sector * 512 + unat offset) (unat sz - unat sz1)) \<and>
     (quiet live st \<and> 0 < unat sz \<longrightarrow> isl r = False \<and> quiet live st')"
proof (cases "offset \<noteq> 0 \<or> sector AND 63 \<noteq> 0")
  case False
  then have "unat offset = 0" "unat sector mod 64 = 0" by (simp_all flip: unat_and_63)
  then show ?thesis using run inv False by (auto simp: read_head_def)
next
  case True
  define start where "start = sector AND NOT 63"
  define pos where "pos = push_bit 9 (sector - start)"
  define len where "len = (if 32768 - pos - offset > sz then sz else 32768 - pos - offset)"
  have u1: "unat start = unat sector - unat sector mod 64" by (simp only: start_def unat_align_63)
  have le: "start \<le> sector" by (simp add: word_le_nat_alt u1)
  have m: "unat sector mod 64 < 64" by simp
  have u2: "unat pos = unat sector mod 64 * 512"
    unfolding pos_def using m
    by (subst unat_push_bit_exact) (simp_all add: unat_minus_exact [OF le] u1)
  have u3: "unat (32768 - pos - offset) = 32768 - unat pos - unat offset"
    using o m u2 by (subst unat_minus_exact; (subst unat_minus_exact)?)
      (simp_all add: word_le_nat_alt unat_minus_exact)
  have u4: "unat len = min (unat sz) (32768 - unat pos - unat offset)"
    by (auto simp: len_def u3 word_less_nat_alt min_def)
  have fit: "unat pos + unat offset \<le> 32768" using o m u2 by simp
  have u5: "unat (offset + pos) = unat offset + unat pos" using fit by (intro unat_plus_exact) simp
  have base: "unat start * 512 + unat (offset + pos) = unat sector * 512 + unat offset"
    by (simp add: u1 u2 u5 diff_mult_distrib)
  obtain e buf st1 where rs: "grub_disk_read_small dread hook disk start (offset + pos) len st
      = ((e, buf), st1)" by (metis surj_pair)
  have al: "unat start mod 64 = 0" by (simp add: u1 minus_mod_eq_mult_div)
  have "unat start < 2 ^ 52" using s u1 by simp
  moreover have "unat (offset + pos) + unat len \<le> 32768" using fit by (simp add: u4 u5)
  moreover have "in_device disk (unat start * 512 + unat (offset + pos) + unat len)"
    using room u4 unfolding base by (auto simp: in_device_def)
  ultimately have small: "cache_inv content good st1 \<and> loose_frame st st1 \<and> (e = GRUB_ERR_NONE \<longrightarrow>
      buf = content_bytes content (disk_dev_id disk) (disk_id disk)
        (unat sector * 512 + unat offset) (unat len)) \<and>
      (quiet live st \<and> 0 < unat len \<longrightarrow> e = GRUB_ERR_NONE \<and> quiet live st1)"
    using read_small_ok [OF disk inv stack _ al _ _ rs] base by auto
  have lz: "len \<le> sz" by (simp add: word_le_nat_alt u4)
  have z1: "unat (sz - len) = unat sz - unat len" using lz by (rule unat_minus_exact)
  have sec1: "unat sector1 mod 64 = 0 \<and>
      unat sector1 * 512 + unat (sz - len) = unat sector * 512 + unat offset + unat sz"
    if "unat len \<noteq> unat sz" "sector1 = sector + drop_bit 9 (offset + len)" for sector1
  proof -
    have l: "unat len = 32768 - unat pos - unat offset" using that u4 by simp
    have ol: "unat (offset + len) = (64 - unat sector mod 64) * 512"
      using fit m by (subst unat_plus_exact) (simp_all add: l u2 diff_mult_distrib)
    have "unat sector1 = unat sector + (64 - unat sector mod 64)"
      using s unfolding that(2) by (subst unat_plus_exact) (simp_all add: unat_drop_bit ol)
    moreover have split: "unat sector = unat start + unat sector mod 64" using u1 by simp
    ultimately have s1: "unat sector1 = unat start + 64" using m by linarith
    have "unat len \<le> unat sz" using lz by (simp add: word_le_nat_alt)
    then have "unat sector1 * 512 + unat (sz - len) = unat sector * 512 + unat offset + unat sz"
      using split s1 z1 l u2 fit by linarith
    then show ?thesis using al s1 by simp
  qed
  have eq: "read_head dread hook disk sector offset sz st =
      (if e \<noteq> GRUB_ERR_NONE then (Inl e, st1)
       else (Inr (sector + drop_bit 9 (offset + len), sz - len, buf), st1))"
    using True unfolding read_head_def Let_def start_def [symmetric] pos_def [symmetric]
      len_def [symmetric] by (simp add: rs)
  have "unat pos + unat offset < 32768" using o m u2 by linarith
  then have "0 < unat len" if "0 < unat sz" using that by (simp add: u4)
  then show ?thesis
    using run small sec1 z1 lz by (auto simp: eq word_le_nat_alt split: if_splits)
qed

lemma read_finish_ok:
  assumes "cache_inv content good st" and "loose_frame (st0\<lparr> read_recursion_depth := Suc (read_recursion_depth st0) \<rparr>) st"
    and "read_finish disk n e buf st = ((e', buf'), st')"
  shows "cache_inv content good st' \<and> loose_frame st0 st' \<and> e' = e \<and> buf' = buf \<and> (quiet live st \<longrightarrow> quiet live st')"
  using assms by (auto simp: read_finish_def Let_def cache_inv_def loose_frame_def record_disk_read_wf
      quiet_def d_errno_def)

lemma read_tail_ok:
  assumes disk: "served disk" and inv: "cache_inv content good st"
    and fr: "loose_frame (st0\<lparr> read_recursion_depth := Suc (read_recursion_depth st0) \<rparr>) st"
    and stack: "length (error_stack (d_err st)) < GRUB_ERROR_STACK_SIZE"
    and al: "unat sz \<noteq> 0 \<Longrightarrow> unat sector mod 64 = 0" and small: "unat sz < 32768"
    and s: "unat sz \<noteq> 0 \<Longrightarrow> unat sector * 512 + unat sz < 2 ^ 61"
    and room: "unat sz \<noteq> 0 \<Longrightarrow> in_device disk (unat sector * 512 + unat sz)"
    and run: "read_tail dread hook disk n sector sz acc st = ((e, buf), st')"
  shows "cache_inv content good st' \<and> loose_frame st0 st' \<and> (e = GRUB_ERR_NONE \<longrightarrow>
     buf = acc @ content_bytes content (disk_dev_id disk) (disk_id disk) (unat sector * 512) (unat sz)) \<and>
     (quiet live st \<longrightarrow> e = GRUB_ERR_NONE \<and> quiet live st')"
proof (cases "sz = 0")
  case True
  then show ?thesis using read_finish_ok [OF inv fr] run by (fastforce simp: read_tail_def quiet_errno)
next
  case False
  then have nz: "unat sz \<noteq> 0" by (simp add: unat_eq_0)
  obtain e1 b1 st1 where r: "grub_disk_read_small dread hook disk sector 0 sz st = ((e1, b1), st1)"
    by (metis surj_pair)
  have "unat sector < 2 ^ 52" "unat (0 :: u64) + unat sz \<le> 32768"
    "in_device disk (unat sector * 512 + unat (0 :: u64) + unat sz)"
    using s [OF nz] small room [OF nz] by simp_all
  from read_small_ok [OF disk inv stack this(1) al [OF nz] this(2,3) r]
  have rs: "cache_inv content good st1" "loose_frame st st1" "e1 = GRUB_ERR_NONE \<longrightarrow>
      b1 = content_bytes content (disk_dev_id disk) (disk_id disk) (unat sector * 512) (unat sz)"
      "quiet live st \<Longrightarrow> e1 = GRUB_ERR_NONE \<and> quiet live st1"
    using nz by simp_all
  note fin = read_finish_ok [OF rs(1) loose_frame_trans [OF fr rs(2)]]
  show ?thesis
    using run False rs(3,4) fin by (fastforce simp: read_tail_def r quiet_errno split: if_splits)
qed

lemma adjust_range_room:
  assumes disk: "served disk" and sz: "unat sz + 1022 < 2 ^ 64"
    and adj: "grub_disk_adjust_range disk sector offset sz = Some (s, off)"
  shows "unat off < 512" "unat s * 512 + unat off + unat sz < 2 ^ 61"
    "in_device disk (unat s * 512 + unat off + unat sz)"
proof -
  have a: "off = offset AND 511" "unat s + span off sz \<le> unat (clamped_total disk)"
    using adj unfolding adjust_range_iff [OF sz] by blast+
  show "unat off < 512" by (simp add: a(1) unat_and_511)
  have "unat off + unat sz \<le> span off sz * 512" by (simp add: span_def)
  then have b: "unat s * 512 + unat off + unat sz \<le> unat (clamped_total disk) * 512"
    using a(2) by linarith
  also have "\<dots> \<le> 2 ^ 51 * 512" using clamped_total_le by (intro mult_right_mono) simp_all
  finally show "unat s * 512 + unat off + unat sz < 2 ^ 61" by simp
  show "in_device disk (unat s * 512 + unat off + unat sz)"
    by (rule clamped_total_in_device [OF served_geometry [OF disk] b])
qed

lemma read_rest_ok:
  assumes disk: "served disk" and inv: "cache_inv content good st"
    and fr: "loose_frame (st0\<lparr> read_recursion_depth := Suc (read_recursion_depth st0) \<rparr>) st"
    and stack: "length (error_stack (d_err st)) < GRUB_ERROR_STACK_SIZE"
    and al: "unat sector mod 64 = 0" and s: "unat sector * 512 + unat sz < 2 ^ 61"
    and room: "in_device disk (unat sector * 512 + unat sz)"
  shows "\<exists>r acc' st1. read_loop (unat sz div 32768) dread hook disk sector sz acc st = Some (r, acc', st1) \<and>
     (\<forall>e buf st'. (case r of Inl e1 \<Rightarrow> read_finish disk n e1 acc' st1
        | Inr (sector', sz') \<Rightarrow> read_tail dread hook disk n sector' sz' acc' st1) = ((e, buf), st') \<longrightarrow>
        cache_inv content good st' \<and> loose_frame st0 st' \<and> (e = GRUB_ERR_NONE \<longrightarrow> buf =
          acc @ content_bytes content (disk_dev_id disk) (disk_id disk) (unat sector * 512) (unat sz)) \<and>
        (quiet live st \<longrightarrow> e = GRUB_ERR_NONE \<and> quiet live st'))"
proof -
  from read_loop_ok [OF disk inv al s room order.refl] obtain r acc' st1
    where l: "read_loop (unat sz div 32768) dread hook disk sector sz acc st = Some (r, acc', st1)"
      and i1: "cache_inv content good st1" and f1: "loose_frame st st1"
      and c: "case r of Inl e \<Rightarrow> e \<noteq> GRUB_ERR_NONE
        | Inr (sector', sz') \<Rightarrow> \<exists>j buf. unat sz' < 32768 \<and> acc' = acc @ buf \<and>
            delivered content disk sector sz j sector' sz' buf"
      and q: "quiet live st \<longrightarrow> isl r = False \<and> quiet live st1" by blast
  note f2 = loose_frame_trans [OF fr f1]
  have st2: "length (error_stack (d_err st1)) < GRUB_ERROR_STACK_SIZE"
    using f1 stack by (simp add: loose_frame_def)
  show ?thesis
  proof (cases r)
    case (Inl e1)
    then show ?thesis using l c q read_finish_ok [OF i1 f2] by fastforce
  next
    case (Inr x)
    obtain sector' sz' where x: "x = (sector', sz')" by fastforce
    obtain j b where j: "unat sz' < 32768" "acc' = acc @ b" "delivered content disk sector sz j sector' sz' b"
      using c Inr x by auto
    have d: "unat sector' = unat sector + 64 * j" "unat sz = unat sz' + j * 32768"
      "b = content_bytes content (disk_dev_id disk) (disk_id disk) (unat sector * 512) (j * 32768)"
      using j(3) by (simp_all add: delivered_def)
    have bytes: "unat sector' * 512 + unat sz' = unat sector * 512 + unat sz"
      "unat sector' * 512 = unat sector * 512 + j * 32768" using d(1,2) by simp_all
    have al': "unat sector' mod 64 = 0" using al d(1) by simp
    have s': "unat sector' * 512 + unat sz' < 2 ^ 61" "in_device disk (unat sector' * 512 + unat sz')"
      using s room by (simp_all only: bytes(1))
    note tail = read_tail_ok [OF disk i1 f2 st2 al' j(1) s']
    have "acc' @ content_bytes content (disk_dev_id disk) (disk_id disk) (unat sector' * 512) (unat sz') =
        acc @ content_bytes content (disk_dev_id disk) (disk_id disk) (unat sector * 512) (unat sz)"
      unfolding j(2) d(3) bytes(2) append_assoc content_bytes_append using d(2) by (simp add: add.commute)
    then show ?thesis using l Inr x q tail [of n acc'] by fastforce
  qed
qed

lemma disk_read_ok:
  assumes disk: "served disk" and inv: "cache_inv content good st"
    and stack: "length (error_stack (d_err st)) < GRUB_ERROR_STACK_SIZE"
    and depth: "Suc (read_recursion_depth st) < MAX_READ_RECURSION_DEPTH"
    and sz: "unat sz + 1022 < 2 ^ 64"
    and adj: "grub_disk_adjust_range disk sector offset sz = Some (s, off)"
  shows "\<exists>e buf st'. grub_disk_read dread hook disk sector offset sz st = Some ((e, buf), st') \<and>
     cache_inv content good st' \<and> loose_frame st st' \<and> (e = GRUB_ERR_NONE \<longrightarrow> buf =
       content_bytes content (disk_dev_id disk) (disk_id disk) (unat s * 512 + unat off) (unat sz)) \<and>
     (quiet live st \<and> 0 < unat sz \<longrightarrow> e = GRUB_ERR_NONE \<and> quiet live st')"
proof -
  define st1 where "st1 = st\<lparr> read_recursion_depth := Suc (read_recursion_depth st) \<rparr>"
  have i1: "cache_inv content good st1" and sk1: "length (error_stack (d_err st1)) < GRUB_ERROR_STACK_SIZE"
    using inv stack by (simp_all add: st1_def cache_inv_def)
  obtain r st2 where h: "read_head dread hook disk s off sz st1 = (r, st2)" by fastforce
  have eq: "grub_disk_read dread hook disk sector offset sz st =
      (case r of Inl e \<Rightarrow> Some (read_finish disk sz e [] st2)
       | Inr (sector2, sz2, buf) \<Rightarrow>
           (case read_loop (unat sz2 div 32768) dread hook disk sector2 sz2 buf st2 of
              None \<Rightarrow> None
            | Some (Inl e, acc, st3) \<Rightarrow> Some (read_finish disk sz e acc st3)
            | Some (Inr (sector3, sz3), acc, st3) \<Rightarrow> Some (read_tail dread hook disk sz sector3 sz3 acc st3)))"
    using depth h unfolding grub_disk_read_def adj Let_def st1_def by simp
  note head = read_head_ok [OF disk i1 sk1 adjust_range_room [OF disk sz adj] h]
  have i2: "cache_inv content good st2" and f2: "loose_frame st1 st2" using head by simp_all
  have q1: "quiet live st1" if "quiet live st" using that by (simp add: st1_def quiet_def d_errno_def)
  have q2: "isl r = False \<and> quiet live st2" if "quiet live st" "0 < unat sz" using head q1 that by blast
  have sk2: "length (error_stack (d_err st2)) < GRUB_ERROR_STACK_SIZE"
    using f2 sk1 by (simp add: loose_frame_def)
  show ?thesis
  proof (cases r)
    case (Inl e)
    obtain e' b st' where f: "read_finish disk sz e [] st2 = ((e', b), st')" by (metis surj_pair)
    then show ?thesis
      using eq Inl head q2 read_finish_ok [OF i2 f2 [unfolded st1_def] f] by auto
  next
    case (Inr x)
    obtain sector2 sz2 buf where x: "x = (sector2, sz2, buf)" by (metis prod_cases3)
    have buf: "buf = content_bytes content (disk_dev_id disk) (disk_id disk)
        (unat s * 512 + unat off) (unat sz - unat sz2)" and le: "unat sz2 \<le> unat sz"
      using head Inr x by simp_all
    show ?thesis
    proof (cases "unat sz2 = 0")
      case True
      then have z: "sz2 = 0" by (simp add: unat_eq_0)
      obtain e' b st' where f: "read_finish disk sz (d_errno st2) buf st2 = ((e', b), st')" by (metis surj_pair)
      show ?thesis
        using eq Inr x z buf f read_finish_ok [OF i2 f2 [unfolded st1_def] f] q2
          quiet_errno [of live st2] by (auto simp: read_tail_def)
    next
      case False
      then have a: "unat sector2 mod 64 = 0"
        "unat sector2 * 512 + unat sz2 = unat s * 512 + unat off + unat sz"
        using head Inr x by simp_all
      have pos: "unat sector2 * 512 = unat s * 512 + unat off + (unat sz - unat sz2)" using a(2) le by linarith
      note room = adjust_range_room(2,3) [OF disk sz adj, folded a(2)]
      from read_rest_ok [OF disk i2 f2 [unfolded st1_def] sk2 a(1) room, of buf sz]
      obtain r2 acc' st3 where l: "read_loop (unat sz2 div 32768) dread hook disk sector2 sz2 buf st2 = Some (r2, acc', st3)"
        and fin: "\<forall>e b st'. (case r2 of Inl e1 \<Rightarrow> read_finish disk sz e1 acc' st3
          | Inr (sector', sz') \<Rightarrow> read_tail dread hook disk sz sector' sz' acc' st3) = ((e, b), st') \<longrightarrow>
          cache_inv content good st' \<and> loose_frame st st' \<and> (e = GRUB_ERR_NONE \<longrightarrow> b =
            buf @ content_bytes content (disk_dev_id disk) (disk_id disk) (unat sector2 * 512) (unat sz2)) \<and>
          (quiet live st2 \<longrightarrow> e = GRUB_ERR_NONE \<and> quiet live st')"
        by blast
      have whole: "buf @ content_bytes content (disk_dev_id disk) (disk_id disk) (unat sector2 * 512) (unat sz2)
          = content_bytes content (disk_dev_id disk) (disk_id disk) (unat s * 512 + unat off) (unat sz)"
        unfolding buf pos content_bytes_append using le by simp
      let ?out = "case r2 of Inl e1 \<Rightarrow> read_finish disk sz e1 acc' st3
          | Inr (sector', sz') \<Rightarrow> read_tail dread hook disk sz sector' sz' acc' st3"
      have "grub_disk_read dread hook disk sector offset sz st = Some ?out"
        using eq Inr x l by (simp split: sum.splits prod.splits)
      moreover obtain e b st' where "?out = ((e, b), st')" by (metis surj_pair)
      ultimately show ?thesis using fin whole q2 by fastforce
    qed
  qed
qed

end

end
