(* ===== verification/Misc.thy ===== *)
theory Misc
  imports Errors
begin

text \<open>
  String and number routines of \<open>grub/grub-core/kern/misc.c\<close> and \<open>grub/include/grub/misc.h\<close>.
  A C string is a \<open>string\<close> without the terminating zero; a pointer into it is the suffix it points
  to. A character read through a plain \<open>char\<close> pointer is sign-extended, as on the targets of the
  program. A routine that may call \<open>grub_error\<close> returns the code of that call, with
  \<open>GRUB_ERR_NONE\<close> when there is none.
\<close>

subsection \<open>Characters\<close>

definition uchar :: "char \<Rightarrow> int" where
  "uchar c = of_char c"

definition schar :: "char \<Rightarrow> int" where
  "schar c = sint (of_char c :: 8 word)"

text \<open>The character a pointer points to; zero at the end of the string.\<close>

fun cur_u :: "string \<Rightarrow> int" where
  "cur_u [] = 0"
| "cur_u (c # _) = uchar c"

definition grub_isspace :: "char \<Rightarrow> bool" where
  "grub_isspace c \<longleftrightarrow> schar c = 10 \<or> schar c = 13 \<or> schar c = 32 \<or> schar c = 9"

definition grub_iswordseparator :: "char \<Rightarrow> bool" where
  "grub_iswordseparator c \<longleftrightarrow> grub_isspace c \<or> c = CHR '','' \<or> c = CHR '';'' \<or> c = CHR ''|'' \<or> c = CHR ''&''"

definition grub_isdigit :: "int \<Rightarrow> bool" where
  "grub_isdigit c \<longleftrightarrow> 48 \<le> c \<and> c \<le> 57"

definition grub_isalpha :: "int \<Rightarrow> bool" where
  "grub_isalpha c \<longleftrightarrow> 97 \<le> c \<and> c \<le> 122 \<or> 65 \<le> c \<and> c \<le> 90"

definition grub_tolower :: "int \<Rightarrow> int" where
  "grub_tolower c = (if 65 \<le> c \<and> c \<le> 90 then c - 65 + 97 else c)"

subsection \<open>Comparison and search\<close>

fun grub_memcmp :: "bytes \<Rightarrow> bytes \<Rightarrow> nat \<Rightarrow> int" where
  "grub_memcmp (a # as) (b # bs) (Suc n) =
     (if a \<noteq> b then uint a - uint b else grub_memcmp as bs n)"
| "grub_memcmp _ _ _ = 0"

fun grub_strcmp :: "string \<Rightarrow> string \<Rightarrow> int" where
  "grub_strcmp (a # as) (b # bs) = (if a \<noteq> b then uchar a - uchar b else grub_strcmp as bs)"
| "grub_strcmp as bs = cur_u as - cur_u bs"

text \<open>The loop of \<open>grub_strncmp\<close> after the test for zero; \<open>n\<close> is decremented before each step.\<close>

fun strncmp_loop :: "string \<Rightarrow> string \<Rightarrow> nat \<Rightarrow> int" where
  "strncmp_loop (a # as) (b # bs) n =
     (if n - 1 = 0 \<or> a \<noteq> b then uchar a - uchar b else strncmp_loop as bs (n - 1))"
| "strncmp_loop as bs n = cur_u as - cur_u bs"

definition grub_strncmp :: "string \<Rightarrow> string \<Rightarrow> nat \<Rightarrow> int" where
  "grub_strncmp a b n = (if n = 0 then 0 else strncmp_loop a b n)"

fun grub_strchr :: "string \<Rightarrow> char \<Rightarrow> string option" where
  "grub_strchr [] c = None"
| "grub_strchr (x # xs) c = (if x = c then Some (x # xs) else grub_strchr xs c)"

text \<open>\<open>grub_strrchr\<close>: the suffix of a string that starts at the last occurrence of a character.\<close>

fun grub_strrchr :: "string \<Rightarrow> char \<Rightarrow> string option" where
  "grub_strrchr [] c = None"
| "grub_strrchr (x # xs) c =
     (case grub_strrchr xs c of Some s \<Rightarrow> Some s | None \<Rightarrow> if x = c then Some (x # xs) else None)"

fun strword_crawl :: "string \<Rightarrow> string \<Rightarrow> string \<times> string" where
  "strword_crawl (h # hs) (n # ns) =
     (if \<not> grub_iswordseparator h \<and> h = n then strword_crawl hs ns else (h # hs, n # ns))"
| "strword_crawl h n = (h, n)"

definition word_end :: "string \<Rightarrow> bool" where
  "word_end s \<longleftrightarrow> (case s of [] \<Rightarrow> True | c # _ \<Rightarrow> grub_iswordseparator c)"

abbreviation skip_seps :: "string \<Rightarrow> string" where
  "skip_seps \<equiv> dropWhile grub_iswordseparator"

abbreviation skip_word :: "string \<Rightarrow> string" where
  "skip_word \<equiv> dropWhile (\<lambda>c. \<not> grub_iswordseparator c)"

lemma crawl_length: "length (fst (strword_crawl h n)) \<le> length h"
  by (induction h n rule: strword_crawl.induct) auto

lemma crawl_stuck: "fst (strword_crawl h n) = h \<or> length (fst (strword_crawl h n)) < length h"
  by (cases "(h, n)" rule: strword_crawl.cases) (auto simp: crawl_length le_imp_less_Suc)

lemma skip_shorter: "h \<noteq> [] \<Longrightarrow> length (skip_seps (skip_word h)) < length h"
  by (cases h) (auto simp: less_Suc_eq_le intro: le_trans [OF length_dropWhile_le length_dropWhile_le] length_dropWhile_le)

function strword_loop :: "string \<Rightarrow> string \<Rightarrow> bool" where
  "strword_loop needle hay =
     (if hay = [] then False
      else if word_end (fst (strword_crawl hay needle)) \<and> word_end (snd (strword_crawl hay needle)) then True
      else strword_loop needle (skip_seps (skip_word (fst (strword_crawl hay needle)))))"
  by pat_completeness auto
termination
proof (relation "measure (\<lambda>(_, h). length h)")
  fix needle hay :: string
  assume "hay \<noteq> []"
  then have "length (skip_seps (skip_word (fst (strword_crawl hay needle)))) < length hay"
    using crawl_stuck [of hay needle] skip_shorter [of hay]
    by (metis le_less_trans length_dropWhile_le)
  then show "((needle, skip_seps (skip_word (fst (strword_crawl hay needle)))), needle, hay)
      \<in> measure (\<lambda>(_, h). length h)" by simp
qed simp

declare strword_loop.simps [simp del]

definition grub_strword :: "string \<Rightarrow> string \<Rightarrow> bool" where
  "grub_strword haystack needle = strword_loop needle (skip_seps haystack)"

text \<open>
  \<open>grub_strtok_r\<close>: the token and the saved pointer. The string is cut in place, so the token is
  the part before the delimiter.
\<close>

definition grub_strtok_r :: "string option \<Rightarrow> string \<Rightarrow> string \<Rightarrow> string option \<times> string" where
  "grub_strtok_r s delim save =
     (let start = dropWhile (\<lambda>c. c \<in> set delim) (case s of Some x \<Rightarrow> x | None \<Rightarrow> save)
      in if start = [] then (None, [])
         else (Some (takeWhile (\<lambda>c. c \<notin> set delim) start),
               case dropWhile (\<lambda>c. c \<notin> set delim) start of [] \<Rightarrow> [] | _ # rest \<Rightarrow> rest))"

subsection \<open>Division\<close>

text \<open>One turn of the shift-and-subtract loop on \<open>(q, m, n)\<close>.\<close>

definition divmod_step :: "u64 \<Rightarrow> u64 \<times> u64 \<times> u64 \<Rightarrow> u64 \<times> u64 \<times> u64" where
  "divmod_step d s =
     (case s of (q, m, n) \<Rightarrow>
        (let m1 = push_bit 1 m;
             m2 = (if n AND push_bit 63 1 \<noteq> 0 then m1 OR 1 else m1);
             q1 = push_bit 1 q;
             n1 = push_bit 1 n
         in if m2 \<ge> d then (q1 OR 1, m2 - d, n1) else (q1, m2, n1)))"

text \<open>
  \<open>grub_divmod64\<close>: quotient and remainder. Division by zero on the fast path is undefined in C
  (the caller's obligation); the model gives it the word division of HOL.
\<close>

definition grub_divmod64 :: "u64 \<Rightarrow> u64 \<Rightarrow> u64 \<times> u64" where
  "grub_divmod64 n d =
     (if n < 0xffffffff \<and> d < 0xffffffff
      then (ucast ((ucast n :: u32) div ucast d), ucast ((ucast n :: u32) mod ucast d))
      else (case (divmod_step d ^^ 64) (0, 0, n) of (q, m, _) \<Rightarrow> (q, m)))"

text \<open>
  The loop computes quotient and remainder of the bits of \<open>n\<close> shifted in so far, so nothing is
  lost when the remainder is doubled, whatever the divisor.
\<close>

definition divmod_inv :: "u64 \<Rightarrow> u64 \<Rightarrow> nat \<Rightarrow> u64 \<times> u64 \<times> u64 \<Rightarrow> bool" where
  "divmod_inv n d i s =
     (case s of (q, m, r) \<Rightarrow> unat q = (unat n div 2 ^ (64 - i)) div unat d \<and>
        unat m = (unat n div 2 ^ (64 - i)) mod unat d \<and> r = push_bit i n)"

lemma divmod_double:
  fixes p b d :: nat
  assumes "0 < d" and "b \<le> 1"
  shows "(2 * p + b) div d = 2 * (p div d) + (if d \<le> 2 * (p mod d) + b then 1 else 0)"
    and "(2 * p + b) mod d = 2 * (p mod d) + b - (if d \<le> 2 * (p mod d) + b then d else 0)"
proof -
  let ?r = "2 * (p mod d) + b"
  have e: "2 * p + b = ?r + d * (2 * (p div d))"
    using mult_div_mod_eq [of d p] by linarith
  have lt: "?r < 2 * d" using assms mod_less_divisor [OF assms(1), of p] by linarith
  have r: "?r div d = (if d \<le> ?r then 1 else 0)" "?r mod d = ?r - (if d \<le> ?r then d else 0)"
  proof -
    have "?r - d < d" using lt by linarith
    then show "?r div d = (if d \<le> ?r then 1 else 0)" "?r mod d = ?r - (if d \<le> ?r then d else 0)"
      using assms(1) by (simp_all add: le_div_geq le_mod_geq)
  qed
  show "(2 * p + b) div d = 2 * (p div d) + (if d \<le> ?r then 1 else 0)"
    unfolding e using assms(1) r(1) by simp
  show "(2 * p + b) mod d = ?r - (if d \<le> ?r then d else 0)"
    unfolding e using r(2) by simp
qed

lemma top_bit_shift:
  fixes n :: u64
  assumes "i < 64"
  shows "(push_bit i n AND push_bit 63 1 \<noteq> 0) \<longleftrightarrow> odd (unat n div 2 ^ (63 - i))"
proof -
  have "(push_bit i n AND 2 ^ 63 \<noteq> 0) \<longleftrightarrow> bit (push_bit i n) 63"
    by (simp only: and_exp_eq_0_iff_not_bit not_not)
  also have "\<dots> \<longleftrightarrow> bit n (63 - i)" using assms by (simp add: bit_simps)
  also have "\<dots> \<longleftrightarrow> odd (unat n div 2 ^ (63 - i))"
    using assms by (simp add: bit_iff_odd [of "unat n", symmetric] bit_simps)
  finally show ?thesis by (simp only: push_bit_of_1)
qed

lemma unat_shift_in:
  fixes m :: u64
  assumes "2 * unat m + 1 < 2 ^ 64"
  shows "unat (push_bit 1 m) = 2 * unat m" and "unat (push_bit 1 m OR 1) = 2 * unat m + 1"
proof -
  show a: "unat (push_bit 1 m) = 2 * unat m"
    using assms by (subst unat_push_bit_exact) simp_all
  have "even (push_bit 1 m)" by (simp add: push_bit_eq_mult)
  then have "push_bit 1 m OR 1 = push_bit 1 m + 1" by (simp add: or_one_eq)
  moreover have "unat (push_bit 1 m + 1) = unat (push_bit 1 m) + 1"
    using unat_plus_exact [of "push_bit 1 m" 1] assms a by simp
  ultimately show "unat (push_bit 1 m OR 1) = 2 * unat m + 1" using a by simp
qed

lemma divmod_step_inv:
  assumes d: "d \<noteq> 0" and i: "i < 64" and inv: "divmod_inv n d i s"
  shows "divmod_inv n d (Suc i) (divmod_step d s)"
proof -
  obtain q m r where s: "s = (q, m, r)" by (cases s)
  let ?p = "unat n div 2 ^ (64 - i)" and ?p' = "unat n div 2 ^ (63 - i)" and ?d = "unat d"
  have iq: "unat q = ?p div ?d" and im: "unat m = ?p mod ?d" and ir: "r = push_bit i n"
    using inv by (simp_all add: divmod_inv_def s)
  define b where "b = ?p' mod 2"
  have d0: "0 < ?d" using d by (simp add: unat_gt_0)
  have "64 - i = Suc (63 - i)" using i by simp
  then have "2 ^ (64 - i) = 2 ^ (63 - i) * (2 :: nat)" by (simp only: power_Suc2)
  then have "?p = ?p' div 2" by (simp only: div_mult2_eq)
  then have p': "?p' = 2 * ?p + b" by (simp add: b_def)
  have pb: "?p' < 2 ^ 64" using unsigned_less [of n, where 'a = nat]
    by (intro le_less_trans [OF div_le_dividend]) simp
  have b1: "b \<le> 1" by (simp add: b_def)
  have lm: "2 * unat m + b \<le> ?p'" "2 * unat q \<le> ?p'"
    using p' im iq mod_less_eq_dividend [of ?p ?d] div_le_dividend [of ?p ?d] by linarith+
  have mm: "2 * unat m + 1 < 2 ^ 64" "2 * unat q + 1 < 2 ^ 64"
  proof -
    have "?p < 2 ^ 63" using p' pb by simp
    then have "unat m < 2 ^ 63" "unat q < 2 ^ 63"
      unfolding im iq by (auto intro: le_less_trans [OF mod_less_eq_dividend] le_less_trans [OF div_le_dividend])
    then show "2 * unat m + 1 < 2 ^ 64" "2 * unat q + 1 < 2 ^ 64" by simp_all
  qed
  define m2 where "m2 = (if r AND push_bit 63 1 \<noteq> 0 then push_bit 1 m OR 1 else push_bit 1 m)"
  have u2: "unat m2 = 2 * unat m + b"
    using unat_shift_in [OF mm(1)] top_bit_shift [OF i, of n]
    by (auto simp: m2_def ir b_def odd_iff_mod_2_eq_one)
  have pr: "push_bit 1 r = push_bit (Suc i) n" by (simp add: ir push_bit_push_bit)
  note dd = divmod_double [OF d0 b1, of ?p]
  have cmp: "m2 \<ge> d \<longleftrightarrow> ?d \<le> 2 * (?p mod ?d) + b" by (simp add: word_le_nat_alt u2 im)
  have sub: "unat (m2 - d) = 2 * (?p mod ?d) + b - ?d" if "m2 \<ge> d"
    using unat_minus_exact [OF that] u2 im by simp
  have step: "divmod_step d s = (if m2 \<ge> d then (push_bit 1 q OR 1, m2 - d, push_bit 1 r)
      else (push_bit 1 q, m2, push_bit 1 r))"
    by (simp add: divmod_step_def s m2_def Let_def)
  have g: "unat n div 2 ^ (64 - Suc i) = 2 * ?p + b" using p' by simp
  show ?thesis
  proof (cases "m2 \<ge> d")
    case True
    then have "(2 * ?p + b) div ?d = 2 * unat q + 1" "(2 * ?p + b) mod ?d = unat (m2 - d)"
      using dd cmp sub iq by simp_all
    then show ?thesis
      using True unfolding step divmod_inv_def g
      by (simp only: if_True prod.case unat_shift_in(2) [OF mm(2)] pr)
  next
    case False
    then have "(2 * ?p + b) div ?d = 2 * unat q" "(2 * ?p + b) mod ?d = unat m2"
      using dd cmp u2 im iq by simp_all
    then show ?thesis
      using False unfolding step divmod_inv_def g
      by (simp only: if_False prod.case unat_shift_in(1) [OF mm(2)] pr)
  qed
qed

lemma divmod_loop_inv: "d \<noteq> 0 \<Longrightarrow> i \<le> 64 \<Longrightarrow> divmod_inv n d i ((divmod_step d ^^ i) (0, 0, n))"
proof (induction i)
  case 0
  have "unat n div 2 ^ 64 = 0" using unsigned_less [of n, where 'a = nat] by simp
  then show ?case by (simp add: divmod_inv_def)
next
  case (Suc i)
  then show ?case using divmod_step_inv [of d i n] by simp
qed

lemma grub_divmod64_eq:
  assumes "d \<noteq> 0"
  shows "grub_divmod64 n d = (n div d, n mod d)"
proof (cases "n < 0xffffffff \<and> d < 0xffffffff")
  case True
  have c: "unat (ucast x :: u32) = unat x" if "x < 0xffffffff" for x :: u64
    using that by (simp add: unat_ucast_mod word_less_nat_alt)
  have "ucast ((ucast n :: u32) div ucast d) = n div d" "ucast ((ucast n :: u32) mod ucast d) = n mod d"
    using True unsigned_less [of "n div d", where 'a = nat] unsigned_less [of "n mod d", where 'a = nat]
    by (simp_all add: word_unat_eq_iff unat_div_distrib unat_mod_distrib word_less_nat_alt unat_ucast_mod)
  then show ?thesis using True by (simp add: grub_divmod64_def)
next
  case False
  obtain q m r where s: "(divmod_step d ^^ 64) (0, 0, n) = (q, m, r)" by (metis prod_cases3)
  have "divmod_inv n d 64 (q, m, r)" using divmod_loop_inv [OF assms, of 64 n] by (simp add: s)
  then have "unat q = unat (n div d)" "unat m = unat (n mod d)"
    by (simp_all add: divmod_inv_def unat_div_distrib unat_mod_distrib)
  then have "q = n div d" "m = n mod d" by (simp_all only: word_unat_eq_iff)
  then show ?thesis unfolding grub_divmod64_def if_not_P [OF False] s by simp
qed

subsection \<open>Reading numbers\<close>

text \<open>The value of a digit character, computed in 64-bit unsigned arithmetic.\<close>

definition strtoull_digit :: "char \<Rightarrow> u64 option" where
  "strtoull_digit c =
     (let digit = word_of_int (grub_tolower (schar c)) - 48
      in if digit \<ge> 49 then Some (digit + 48 - 97 + 10)
         else if digit > 9 then None else Some digit)"

fun strtoull_loop :: "u64 \<Rightarrow> u64 \<Rightarrow> bool \<Rightarrow> string \<Rightarrow> grub_err_t \<times> u64 \<times> string" where
  "strtoull_loop base num found [] =
     (if \<not> found then (GRUB_ERR_BAD_NUMBER, 0, []) else (GRUB_ERR_NONE, num, []))"
| "strtoull_loop base num found (c # str) =
     (case strtoull_digit c of
        None \<Rightarrow> (if \<not> found then (GRUB_ERR_BAD_NUMBER, 0, c # str) else (GRUB_ERR_NONE, num, c # str))
      | Some digit \<Rightarrow>
          if digit \<ge> base
          then (if \<not> found then (GRUB_ERR_BAD_NUMBER, 0, c # str) else (GRUB_ERR_NONE, num, c # str))
          else if num > fst (grub_divmod64 (0xffffffffffffffff - digit) base)
          then (GRUB_ERR_OUT_OF_RANGE, 0xffffffffffffffff, c # str)
          else strtoull_loop base (num * base + digit) True str)"

definition guess_base :: "nat \<Rightarrow> string \<Rightarrow> nat \<times> string" where
  "guess_base base str =
     (let (b, s) =
        (case str of
           c0 # c1 # rest \<Rightarrow>
             if c0 = CHR ''0'' then
               if c1 = CHR ''x'' then (if base = 0 \<or> base = 16 then (16, rest) else (base, str))
               else if base = 0 \<and> 48 \<le> schar c1 \<and> schar c1 \<le> 55 then (8, str) else (base, str)
             else (base, str)
         | _ \<Rightarrow> (base, str))
      in (if b = 0 then 10 else b, s))"

definition grub_strtoull :: "string \<Rightarrow> nat \<Rightarrow> grub_err_t \<times> u64 \<times> string" where
  "grub_strtoull str base =
     (case guess_base base (dropWhile grub_isspace str) of
        (b, s) \<Rightarrow> strtoull_loop (of_nat b) 0 False s)"

text \<open>\<open>grub_strtoul\<close> on targets whose \<open>long\<close> has 64 bits.\<close>

definition grub_strtoul :: "string \<Rightarrow> nat \<Rightarrow> grub_err_t \<times> u64 \<times> string" where
  "grub_strtoul str base = grub_strtoull str base"

subsection \<open>Writing numbers\<close>

text \<open>The in-place reversal: the two pointers are the indices \<open>i\<close> and \<open>j\<close>.\<close>

function reverse_loop :: "nat \<Rightarrow> nat \<Rightarrow> string \<Rightarrow> string" where
  "reverse_loop i j s =
     (if i < j then reverse_loop (Suc i) (j - 1) (s[i := s ! j, j := s ! i]) else s)"
  by pat_completeness auto
termination by (relation "measure (\<lambda>(i, j, s). j - i)") auto

declare reverse_loop.simps [simp del]

definition grub_reverse :: "string \<Rightarrow> string" where
  "grub_reverse s = reverse_loop 0 (length s - 1) s"

definition hex_char :: "bool \<Rightarrow> nat \<Rightarrow> char" where
  "hex_char lower d = char_of (if d > 9 then d + (if lower then 97 else 65) - 10 else d + 48)"

lemma drop_bit_shrinks:
  fixes n :: u64
  assumes "drop_bit k n \<noteq> 0" and "0 < k"
  shows "unat (drop_bit k n) < unat n"
proof -
  have "unat n \<noteq> 0" using assms(1) by (auto simp: unat_eq_0)
  moreover have "(1 :: nat) < 2 ^ k" using assms(2) by (intro one_less_power) simp_all
  ultimately show ?thesis by (simp add: unat_drop_bit)
qed

text \<open>The three digit loops of \<open>grub_lltoa\<close>, least significant digit first.\<close>

function lltoa_hex :: "bool \<Rightarrow> u64 \<Rightarrow> string" where
  "lltoa_hex lower n =
     hex_char lower (unat (n AND 15)) # (if drop_bit 4 n \<noteq> 0 then lltoa_hex lower (drop_bit 4 n) else [])"
  by pat_completeness auto
termination by (relation "measure (\<lambda>(_, n). unat n)") (auto simp: drop_bit_shrinks)

function lltoa_oct :: "u64 \<Rightarrow> string" where
  "lltoa_oct n = char_of (unat (n AND 7) + 48) # (if drop_bit 3 n \<noteq> 0 then lltoa_oct (drop_bit 3 n) else [])"
  by pat_completeness auto
termination by (relation "measure unat") (auto simp: drop_bit_shrinks)

declare lltoa_hex.simps [simp del] lltoa_oct.simps [simp del]

lemma divmod10_shrinks:
  assumes "(q, m) = grub_divmod64 n 10" and "q \<noteq> 0"
  shows "unat q < unat n"
proof -
  have "unat q = unat n div 10" using assms(1) by (simp add: grub_divmod64_eq unat_div_distrib)
  moreover have "unat q \<noteq> 0" using assms(2) by (simp add: unat_eq_0)
  ultimately show ?thesis by simp
qed

function lltoa_dec :: "u64 \<Rightarrow> string" where
  "lltoa_dec n =
     (case grub_divmod64 n 10 of
        (q, m) \<Rightarrow> char_of (unat m + 48) # (if q \<noteq> 0 then lltoa_dec q else []))"
  by pat_completeness auto
termination by (relation "measure unat") (auto dest: divmod10_shrinks)

declare lltoa_dec.simps [simp del]

text \<open>\<open>grub_lltoa\<close>: the digits are written least significant first and then reversed in place.\<close>

definition grub_lltoa :: "char \<Rightarrow> u64 \<Rightarrow> string" where
  "grub_lltoa c n =
     (let neg = (sint n < 0 \<and> c = CHR ''d'');
          n1 = (if neg then 0 - n else n);
          digits = (if c = CHR ''x'' \<or> c = CHR ''X'' then lltoa_hex (c = CHR ''x'') n1
                    else if c = CHR ''o'' then lltoa_oct n1 else lltoa_dec n1)
      in (if neg then ''-'' else []) @ grub_reverse digits)"

text \<open>
  \<open>printf_read_uint\<close> of the format scanner: the value saturates at \<open>GRUB_INT_MAX\<close>; the rest of
  the format is returned.
\<close>

fun printf_read_uint :: "u64 \<Rightarrow> string \<Rightarrow> u64 \<times> string" where
  "printf_read_uint v [] = (v, [])"
| "printf_read_uint v (c # cs) =
     (if grub_isdigit (schar c) then
        let digit = word_of_int (schar c - 48)
        in printf_read_uint (if v > (0x7fffffff - digit) div 10 then 0x7fffffff else v * 10 + digit) cs
      else (v, c # cs))"

end
