(* ===== verification/File.thy ===== *)
theory File
  imports Disk_Read_Correct Misc
begin

text \<open>
  Files (\<open>grub/include/grub/file.h\<close>, \<open>grub/grub-core/kern/file.c\<close>): positions, reads and seeks,
  and the name parsing of \<open>grub_file_get_device_name\<close> and \<open>grub_file_get_suffix\<close>. The
  file-system driver behind a file is the function pointer \<open>fs_read\<close>, a parameter here. A file
  carries its driver's private data as the type parameter \<open>'d\<close>; the read hooks are identified
  by numbers.
\<close>

abbreviation GRUB_FILE_SIZE_UNKNOWN :: u64 where "GRUB_FILE_SIZE_UNKNOWN \<equiv> 0xffffffffffffffff"

record 'd grub_file =
  file_name :: string
  file_offset :: u64
  progress_offset :: u64
  file_size :: u64
  file_not_easily_seekable :: bool
  file_data :: 'd
  file_read_hook :: "nat option"
  file_read_hook_data :: "nat option"

type_synonym ('d, 'h) fs_read = "'d grub_file \<Rightarrow> u64 \<Rightarrow> 'h dstate \<Rightarrow> (int \<times> bytes) \<times> 'h dstate"

text \<open>
  \<open>grub_file_read\<close>: the result is the signed count and the bytes stored into the buffer. The
  hook pair of the file is swapped for the progress hook during the driver's read only.
\<close>

definition clip_read_len :: "'d grub_file \<Rightarrow> u64 \<Rightarrow> u64" where
  "clip_read_len file len =
     (let len1 = (if len > file_size file - file_offset file
                  then file_size file - file_offset file else len)
      in if sint len1 < 0 then drop_bit 1 len1 else len1)"

definition with_progress_hook :: "nat option \<Rightarrow> nat \<Rightarrow> 'd grub_file \<Rightarrow> 'd grub_file" where
  "with_progress_hook progress self file =
     (if file_read_hook file = None
      then file\<lparr> file_read_hook := progress, file_read_hook_data := Some self,
                 progress_offset := file_offset file \<rparr>
      else file)"

definition grub_file_read :: "('d, 'h) fs_read \<Rightarrow> nat option \<Rightarrow> nat \<Rightarrow> 'd grub_file \<Rightarrow> u64 \<Rightarrow> 'h dstate
    \<Rightarrow> (int \<times> bytes) \<times> 'd grub_file \<times> 'h dstate" where
  "grub_file_read fs_read progress self file len st =
     (if file_offset file > file_size file
      then ((-1, []), file,
            raise_error GRUB_ERR_OUT_OF_RANGE ''attempt to read past the end of file'' st)
      else if len = 0 then ((0, []), file, st)
      else let len1 = clip_read_len file len
           in if len1 = 0 then ((0, []), file, st)
              else let file1 = with_progress_hook progress self file
                   in case fs_read file1 len1 st of
                        ((res, buf), st1) \<Rightarrow>
                          (let file2 = file1\<lparr> file_read_hook := file_read_hook file,
                                              file_read_hook_data := file_read_hook_data file \<rparr>
                           in ((res, buf),
                               if res > 0
                               then file2\<lparr> file_offset := file_offset file2 + word_of_int res \<rparr>
                               else file2,
                               st1)))"

text \<open>\<open>grub_file_seek\<close>: the old offset, or \<open>-1\<close> with an error and the file unchanged.\<close>

definition grub_file_seek :: "'d grub_file \<Rightarrow> u64 \<Rightarrow> 'h dstate \<Rightarrow> u64 \<times> 'd grub_file \<times> 'h dstate" where
  "grub_file_seek file offset st =
     (if offset > file_size file
      then (-1, file, raise_error GRUB_ERR_OUT_OF_RANGE ''attempt to seek outside of the file'' st)
      else (file_offset file, file\<lparr> file_offset := offset \<rparr>, st))"

subsection \<open>Names\<close>

text \<open>
  The device part of a name such as \<open>(hd0,1)/boot/x\<close>. The inner option of the result is the
  returned pointer; the errors are a missing closing parenthesis and a refused allocation.
\<close>

definition grub_file_get_device_name :: "string \<Rightarrow> 'h dstate \<Rightarrow> string option \<times> 'h dstate" where
  "grub_file_get_device_name name st =
     (if name \<noteq> [] \<and> hd name = CHR ''('' then
        (case grub_strchr name (CHR '')'') of
           None \<Rightarrow> (None, raise_error GRUB_ERR_BAD_FILENAME ''missing `)' symbol'' st)
         | Some p \<Rightarrow>
             (case grub_malloc st of
                (False, st1) \<Rightarrow> (None, st1)
              | (True, st1) \<Rightarrow> (Some (bslice 1 (length name - length p - 1) name), st1)))
      else (None, st))"

text \<open>The file part, as \<open>grub_file_open\<close> computes it.\<close>

definition file_part :: "string \<Rightarrow> string" where
  "file_part name =
     (case (if name \<noteq> [] \<and> hd name = CHR ''('' then grub_strchr name (CHR '')'') else None) of
        Some p \<Rightarrow> tl p
      | None \<Rightarrow> name)"

definition grub_file_get_suffix :: "string option \<Rightarrow> string option" where
  "grub_file_get_suffix name =
     (case name of
        None \<Rightarrow> None
      | Some n \<Rightarrow>
          (let base = (case grub_strrchr n (CHR ''/'') of Some s \<Rightarrow> tl s | None \<Rightarrow> n)
           in case grub_strrchr base (CHR ''.'') of
                Some dot \<Rightarrow> if dot \<noteq> base then Some dot else None
              | None \<Rightarrow> None))"

subsection \<open>Lemmas\<close>

lemma clip_read_len_exact:
  assumes "file_offset file \<le> file_size file" and "unat (file_size file) < 2 ^ 63"
  shows "unat (clip_read_len file len) = min (unat len) (unat (file_size file) - unat (file_offset file))"
proof -
  have d: "unat (file_size file - file_offset file) = unat (file_size file) - unat (file_offset file)"
    using assms(1) by (rule unat_minus_exact)
  define l where "l = (if len > file_size file - file_offset file
                  then file_size file - file_offset file else len)"
  have l: "unat l = min (unat len) (unat (file_size file) - unat (file_offset file))"
    by (auto simp: l_def d word_less_nat_alt min_def)
  then have "unat l < 2 ^ 63" using assms(2) by linarith
  then have "\<not> sint l < 0" by (simp add: sint_small)
  then show ?thesis using l by (simp add: clip_read_len_def l_def [symmetric] Let_def)
qed

subsection \<open>The contract of a file-system driver\<close>

text \<open>
  A driver read of \<open>len\<close> bytes inside the file that leaves no error behind has stored exactly the
  bytes of the file at its offset; it keeps the disk-layer invariant in any case. \<open>opened\<close> says
  which private data with which size the driver serves.
\<close>

locale file_source =
  fixes fs_read :: "('d, 'h) fs_read"
    and bytes_of :: "'d \<Rightarrow> nat \<Rightarrow> u8"
    and opened :: "'d \<Rightarrow> u64 \<Rightarrow> bool"
    and content :: content
    and good :: "'h \<Rightarrow> bool"
    and live :: bool
  assumes fs_read_data:
      "opened (file_data f) (file_size f) \<Longrightarrow> cache_inv content good st \<Longrightarrow> unat (file_offset f) + unat len \<le> unat (file_size f) \<Longrightarrow>
       fs_read f len st = ((n, b), st') \<Longrightarrow> d_errno st' = GRUB_ERR_NONE \<Longrightarrow>
       n = int (unat len) \<and>
       b = map (bytes_of (file_data f)) [unat (file_offset f)..<unat (file_offset f) + unat len]"
    and fs_read_inv:
      "opened (file_data f) (file_size f) \<Longrightarrow> cache_inv content good st \<Longrightarrow> unat (file_offset f) + unat len \<le> unat (file_size f) \<Longrightarrow>
       cache_inv content good (snd (fs_read f len st)) \<and> loose_frame st (snd (fs_read f len st))"
    and fs_read_live:
      "opened (file_data f) (file_size f) \<Longrightarrow> cache_inv content good st \<Longrightarrow>
       unat (file_offset f) + unat len \<le> unat (file_size f) \<Longrightarrow> quiet live st \<Longrightarrow>
       quiet live (snd (fs_read f len st))"
    and opened_size: "opened d fsize \<Longrightarrow> unat fsize < 2 ^ 63"
begin

lemma file_read_ok:
  assumes f: "opened (file_data f) (file_size f)" and inv: "cache_inv content good st"
    and run: "grub_file_read fs_read p self f len st = ((n, b), f', st')"
  shows "cache_inv content good st'" and "loose_frame st st'"
    and "file_data f' = file_data f" and "file_size f' = file_size f"
    and "file_read_hook f' = file_read_hook f"
    and "quiet live st \<Longrightarrow> file_offset f \<le> file_size f \<Longrightarrow> quiet live st'"
    and "d_errno st' = GRUB_ERR_NONE \<Longrightarrow> file_offset f \<le> file_size f \<and>
      n = int (min (unat len) (unat (file_size f) - unat (file_offset f))) \<and>
      b = map (bytes_of (file_data f)) [unat (file_offset f)..<
            unat (file_offset f) + min (unat len) (unat (file_size f) - unat (file_offset f))] \<and>
      unat (file_offset f') = unat (file_offset f) + nat n"
proof -
  let ?l = "clip_read_len f len" and ?f1 = "with_progress_hook p self f"
  have same: "file_offset ?f1 = file_offset f" "file_size ?f1 = file_size f" "file_data ?f1 = file_data f"
    by (simp_all add: with_progress_hook_def)
  have clip: "unat ?l = min (unat len) (unat (file_size f) - unat (file_offset f))"
    if "file_offset f \<le> file_size f"
    by (rule clip_read_len_exact [OF that opened_size [OF f]])
  consider (past) "file_offset f > file_size f"
    | (none) "file_offset f \<le> file_size f" "len = 0 \<or> ?l = 0"
    | (read) "file_offset f \<le> file_size f" "len \<noteq> 0" "?l \<noteq> 0" by fastforce
  then have "cache_inv content good st' \<and> loose_frame st st' \<and> file_data f' = file_data f \<and>
      file_size f' = file_size f \<and> file_read_hook f' = file_read_hook f \<and>
      (quiet live st \<longrightarrow> file_offset f \<le> file_size f \<longrightarrow> quiet live st') \<and>
      (d_errno st' = GRUB_ERR_NONE \<longrightarrow> file_offset f \<le> file_size f \<and> n = int (unat ?l) \<and>
        b = map (bytes_of (file_data f)) [unat (file_offset f)..<unat (file_offset f) + unat ?l] \<and>
        unat (file_offset f') = unat (file_offset f) + nat n)"
  proof cases
    case past
    then show ?thesis using run inv
      by (auto simp: grub_file_read_def cache_inv_def loose_frame_def)
  next
    case none
    then have "grub_file_read fs_read p self f len st = ((0, []), f, st)"
      by (auto simp: grub_file_read_def Let_def not_less [symmetric])
    then show ?thesis using run inv none clip [OF none(1)] by auto
  next
    case read
    obtain m c st1 where r: "fs_read ?f1 ?l st = ((m, c), st1)" by (metis surj_pair)
    have room: "unat (file_offset ?f1) + unat ?l \<le> unat (file_size ?f1)"
      using clip [OF read(1)] read(1) by (simp add: same word_le_nat_alt)
    have o: "opened (file_data ?f1) (file_size ?f1)" using f by (simp add: same)
    have small: "unat (file_offset f) + unat ?l < 2 ^ 64" using room opened_size [OF f] by (simp add: same)
    have "unat (file_offset f + word_of_int (int (unat ?l))) = unat (file_offset f) + unat ?l"
      using unat_plus_exact [of "file_offset f" ?l] small by simp
    moreover have "uint ?l > 0" using read(3) by (simp add: word_greater_zero_iff [unfolded word_less_def, simplified])
    moreover have "st' = st1" "n = m" "b = c" "file_data f' = file_data f" "file_size f' = file_size f"
        "file_read_hook f' = file_read_hook f"
        "m > 0 \<Longrightarrow> file_offset f' = file_offset f + word_of_int m"
      using run r read by (auto simp: grub_file_read_def Let_def same not_less [symmetric] split: if_splits)
    ultimately show ?thesis
      using read(1) fs_read_inv [OF o inv room] fs_read_data [OF o inv room r]
        fs_read_live [OF o inv room] by (auto simp: r same)
  qed
  with clip show "cache_inv content good st'" "loose_frame st st'" "file_data f' = file_data f"
    "file_size f' = file_size f" "file_read_hook f' = file_read_hook f"
    "quiet live st \<Longrightarrow> file_offset f \<le> file_size f \<Longrightarrow> quiet live st'"
    "d_errno st' = GRUB_ERR_NONE \<Longrightarrow> file_offset f \<le> file_size f \<and>
      n = int (min (unat len) (unat (file_size f) - unat (file_offset f))) \<and>
      b = map (bytes_of (file_data f)) [unat (file_offset f)..<
            unat (file_offset f) + min (unat len) (unat (file_size f) - unat (file_offset f))] \<and>
      unat (file_offset f') = unat (file_offset f) + nat n" by simp_all
qed

end

end
