(* ===== verification/Loopback.thy ===== *)
theory Loopback
  imports File
begin

text \<open>
  Loopback devices (\<open>grub/grub-core/disk/loopback.c\<close>): the list of virtual disks backed by
  files, the command that adds and deletes them, and the driver entry points. The list and the
  identifier counter are the driver state \<open>d_ext\<close> of the disk layer. The pointer from an open
  disk to its device is the device's identifier, copied into \<open>disk->id\<close> by
  \<open>grub_loopback_open\<close>. Opening and closing a backing file are the parameters \<open>file_open\<close> and
  \<open>file_close\<close>; \<open>None\<close> as a result is \<open>grub_fatal\<close>, which does not return.
\<close>

abbreviation GRUB_DISK_DEVICE_LOOPBACK_ID :: u64 where "GRUB_DISK_DEVICE_LOOPBACK_ID \<equiv> 2"

record 'd grub_loopback =
  lb_devname :: string
  lb_file :: "'d grub_file"
  lb_id :: u64
  lb_refcnt :: u64

record 'd loop_state =
  loopback_list :: "'d grub_loopback list"
  last_id :: u64

type_synonym 'd lstate = "'d loop_state dstate"

definition set_list :: "'d grub_loopback list \<Rightarrow> 'd lstate \<Rightarrow> 'd lstate" where
  "set_list l st = st\<lparr> d_ext := (d_ext st)\<lparr> loopback_list := l \<rparr> \<rparr>"

fun find_name :: "string \<Rightarrow> 'd grub_loopback list \<Rightarrow> 'd grub_loopback option" where
  "find_name name [] = None"
| "find_name name (d # ds) = (if lb_devname d = name then Some d else find_name name ds)"

fun find_loop :: "u64 \<Rightarrow> 'd grub_loopback list \<Rightarrow> 'd grub_loopback option" where
  "find_loop i [] = None"
| "find_loop i (d # ds) = (if lb_id d = i then Some d else find_loop i ds)"

text \<open>Unlinking the first device of a name (\<open>*prev = dev->next\<close>), and updating one device.\<close>

fun unlink_name :: "string \<Rightarrow> 'd grub_loopback list \<Rightarrow> 'd grub_loopback list" where
  "unlink_name name [] = []"
| "unlink_name name (d # ds) = (if lb_devname d = name then ds else d # unlink_name name ds)"

fun update_loop :: "u64 \<Rightarrow> ('d grub_loopback \<Rightarrow> 'd grub_loopback) \<Rightarrow> 'd grub_loopback list \<Rightarrow> 'd grub_loopback list" where
  "update_loop i f [] = []"
| "update_loop i f (d # ds) = (if lb_id d = i then f d # ds else d # update_loop i f ds)"

definition delete_loopback :: "('d grub_file \<Rightarrow> 'd lstate \<Rightarrow> 'd lstate) \<Rightarrow> string \<Rightarrow> 'd lstate \<Rightarrow> grub_err_t \<times> 'd lstate" where
  "delete_loopback file_close name st =
     (case find_name name (loopback_list (d_ext st)) of
        None \<Rightarrow> (GRUB_ERR_BAD_DEVICE, raise_error GRUB_ERR_BAD_DEVICE ''device not found'' st)
      | Some dev \<Rightarrow>
          if lb_refcnt dev > 0
          then (GRUB_ERR_STILL_REFERENCED, raise_error GRUB_ERR_STILL_REFERENCED ''device still referenced'' st)
          else (GRUB_ERR_NONE,
                file_close (lb_file dev) (set_list (unlink_name name (loopback_list (d_ext st))) st)))"

definition add_loopback :: "('d grub_file \<Rightarrow> 'd lstate \<Rightarrow> 'd lstate) \<Rightarrow> string \<Rightarrow> 'd grub_file \<Rightarrow> 'd lstate
    \<Rightarrow> grub_err_t \<times> 'd lstate" where
  "add_loopback file_close name file st =
     (case grub_malloc st of
        (False, st1) \<Rightarrow> (d_errno st1, file_close file st1)
      | (True, st1) \<Rightarrow>
          (case grub_malloc st1 of
             (False, st2) \<Rightarrow> (d_errno st2, file_close file st2)
           | (True, st2) \<Rightarrow>
               (let ls = d_ext st2;
                    dev = \<lparr> lb_devname = name, lb_file = file, lb_id = last_id ls, lb_refcnt = 0 \<rparr>
                in (GRUB_ERR_NONE,
                    st2\<lparr> d_ext := ls\<lparr> loopback_list := dev # loopback_list ls,
                                       last_id := last_id ls + 1 \<rparr> \<rparr>))))"

text \<open>
  \<open>grub_cmd_loopback\<close>: \<open>del\<close> and \<open>dec\<close> are the \<open>-d\<close> and \<open>-D\<close> switches; the second argument of
  \<open>file_open\<close> is the flag \<open>GRUB_FILE_TYPE_NO_DECOMPRESS\<close>.
\<close>

definition grub_cmd_loopback ::
    "(string \<Rightarrow> bool \<Rightarrow> 'd lstate \<Rightarrow> 'd grub_file option \<times> 'd lstate) \<Rightarrow> ('d grub_file \<Rightarrow> 'd lstate \<Rightarrow> 'd lstate)
     \<Rightarrow> bool \<Rightarrow> bool \<Rightarrow> string list \<Rightarrow> 'd lstate \<Rightarrow> grub_err_t \<times> 'd lstate" where
  "grub_cmd_loopback file_open file_close del dec args st =
     (case args of
        [] \<Rightarrow> (GRUB_ERR_BAD_ARGUMENT, raise_error GRUB_ERR_BAD_ARGUMENT ''device name required'' st)
      | name # rest \<Rightarrow>
          if del then delete_loopback file_close name st
          else case rest of
            [] \<Rightarrow> (GRUB_ERR_BAD_ARGUMENT, raise_error GRUB_ERR_BAD_ARGUMENT ''filename expected'' st)
          | path # _ \<Rightarrow>
              if find_name name (loopback_list (d_ext st)) \<noteq> None
              then (GRUB_ERR_BAD_ARGUMENT,
                    raise_error GRUB_ERR_BAD_ARGUMENT ''device name already exists'' st)
              else case file_open path (\<not> dec) st of
                (None, st1) \<Rightarrow> (d_errno st1, st1)
              | (Some file, st1) \<Rightarrow> add_loopback file_close name file st1)"

text \<open>
  The listing calls the hook with the name of every device, until the hook answers true; \<open>pull\<close> is
  zero for \<open>GRUB_DISK_PULL_NONE\<close>. The devices are those present at the call: a hook may open and
  close them but may not delete one.
\<close>

fun iterate_names :: "(string \<Rightarrow> 'e \<Rightarrow> 'd lstate \<Rightarrow> (bool \<times> 'e \<times> 'd lstate) option) \<Rightarrow> 'd grub_loopback list \<Rightarrow> 'e
    \<Rightarrow> 'd lstate \<Rightarrow> (bool \<times> 'e \<times> 'd lstate) option" where
  "iterate_names hook [] e st = Some (False, e, st)"
| "iterate_names hook (d # ds) e st =
     (case hook (lb_devname d) e st of
        None \<Rightarrow> None
      | Some (stop, e1, st1) \<Rightarrow> if stop then Some (True, e1, st1) else iterate_names hook ds e1 st1)"

definition grub_loopback_iterate :: "(string \<Rightarrow> 'e \<Rightarrow> 'd lstate \<Rightarrow> (bool \<times> 'e \<times> 'd lstate) option) \<Rightarrow> nat \<Rightarrow> 'e
    \<Rightarrow> 'd lstate \<Rightarrow> (bool \<times> 'e \<times> 'd lstate) option" where
  "grub_loopback_iterate hook pull e st =
     (if pull \<noteq> 0 then Some (False, e, st) else iterate_names hook (loopback_list (d_ext st)) e st)"

definition loopback_sectors :: "u64 \<Rightarrow> u64" where
  "loopback_sectors sz = (if sz \<noteq> GRUB_FILE_SIZE_UNKNOWN then (sz + 512 - 1) div 512 else GRUB_DISK_SIZE_UNKNOWN)"

definition grub_loopback_open :: "string \<Rightarrow> grub_disk \<Rightarrow> 'd lstate \<Rightarrow> (grub_err_t \<times> grub_disk \<times> 'd lstate) option" where
  "grub_loopback_open name disk st =
     (case find_name name (loopback_list (d_ext st)) of
        None \<Rightarrow> Some (GRUB_ERR_UNKNOWN_DEVICE, disk, raise_error GRUB_ERR_UNKNOWN_DEVICE ''can't open device'' st)
      | Some dev \<Rightarrow>
          (case grub_add (lb_refcnt dev) 1 of
             None \<Rightarrow> None
           | Some r \<Rightarrow>
               Some (GRUB_ERR_NONE,
                     disk\<lparr> disk_total_sectors := loopback_sectors (file_size (lb_file dev)),
                           disk_max_agglomerate := 2 ^ (29 - GRUB_DISK_SECTOR_BITS - GRUB_DISK_CACHE_BITS),
                           disk_id := lb_id dev \<rparr>,
                     set_list (update_loop (lb_id dev) (\<lambda>d. d\<lparr> lb_refcnt := r \<rparr>) (loopback_list (d_ext st))) st)))"

definition grub_loopback_close :: "grub_disk \<Rightarrow> 'd lstate \<Rightarrow> 'd lstate option" where
  "grub_loopback_close disk st =
     (case find_loop (disk_id disk) (loopback_list (d_ext st)) of
        None \<Rightarrow> None
      | Some dev \<Rightarrow>
          (case grub_sub (lb_refcnt dev) 1 of
             None \<Rightarrow> None
           | Some r \<Rightarrow> Some (set_list (update_loop (disk_id disk) (\<lambda>d. d\<lparr> lb_refcnt := r \<rparr>) (loopback_list (d_ext st))) st)))"

text \<open>
  \<open>grub_loopback_read\<close>. The device of an open disk is always present (its reference count is
  positive, see \<open>delete_loopback\<close>); a dangling pointer is given the error \<open>GRUB_ERR_BUG\<close>.
\<close>

definition put_file :: "u64 \<Rightarrow> 'd grub_file \<Rightarrow> 'd lstate \<Rightarrow> 'd lstate" where
  "put_file i f st = set_list (update_loop i (\<lambda>d. d\<lparr> lb_file := f \<rparr>) (loopback_list (d_ext st))) st"

definition zero_tail :: "u64 \<Rightarrow> u64 \<Rightarrow> u64 \<Rightarrow> bytes \<Rightarrow> bytes" where
  "zero_tail fsize sector n buf =
     (let pos = push_bit GRUB_DISK_SECTOR_BITS (sector + n)
      in if pos > fsize
         then let amount = pos - fsize
              in take (unat (push_bit GRUB_DISK_SECTOR_BITS n) - unat amount) buf @ replicate (unat amount) 0
         else buf)"

definition grub_loopback_read :: "('d, 'd loop_state) fs_read \<Rightarrow> nat option \<Rightarrow> 'd loop_state dread" where
  "grub_loopback_read fs_read progress disk sector n st =
     (case find_loop (disk_id disk) (loopback_list (d_ext st)) of
        None \<Rightarrow> ((GRUB_ERR_BUG, []), raise_error GRUB_ERR_BUG ''dangling loopback device'' st)
      | Some dev \<Rightarrow>
          (case grub_file_seek (lb_file dev) (push_bit GRUB_DISK_SECTOR_BITS sector) st of
             (_, file1, st1) \<Rightarrow>
               (case grub_file_read fs_read progress (unat (lb_id dev)) file1
                       (push_bit GRUB_DISK_SECTOR_BITS n) st1 of
                  ((_, buf), file2, st2) \<Rightarrow>
                    (let st3 = put_file (disk_id disk) file2 st2
                     in if d_errno st3 \<noteq> GRUB_ERR_NONE then ((d_errno st3, []), st3)
                        else ((GRUB_ERR_NONE, zero_tail (file_size file2) sector n buf), st3)))))"

subsection \<open>Lists of devices\<close>

lemma set_list_simps [simp]:
  "d_cache (set_list l st) = d_cache st" "d_proc (set_list l st) = d_proc st" "d_err (set_list l st) = d_err st"
  "read_recursion_depth (set_list l st) = read_recursion_depth st" "d_malloc (set_list l st) = d_malloc st"
  "d_errno (set_list l st) = d_errno st" "d_ext (set_list l st) = (d_ext st)\<lparr> loopback_list := l \<rparr>"
  by (simp_all add: set_list_def d_errno_def)

lemma put_file_simps [simp]:
  "d_errno (put_file i f st) = d_errno st"
  "loose_frame st0 (put_file i f st) = loose_frame st0 st"
  by (simp_all add: put_file_def loose_frame_def)

lemma find_loop_update:
  assumes "\<And>d. lb_id (f d) = lb_id d"
  shows "find_loop j (update_loop i f l) = (if i = j then map_option f (find_loop i l) else find_loop j l)"
  using assms by (induction l) auto

lemma find_loop_in: "find_loop i l = Some d \<Longrightarrow> d \<in> set l \<and> lb_id d = i"
  by (induction l) (auto split: if_splits)

lemma find_name_in: "find_name s l = Some d \<Longrightarrow> d \<in> set l \<and> lb_devname d = s"
  by (induction l) (auto split: if_splits)

lemma find_name_None: "find_name s l = None \<longleftrightarrow> s \<notin> lb_devname ` set l"
  by (induction l) auto

lemma find_loop_distinct: "distinct (map lb_id l) \<Longrightarrow> d \<in> set l \<Longrightarrow> find_loop (lb_id d) l = Some d"
  by (induction l) auto

lemma map_update_loop:
  "(\<And>d. g (f d) = g d) \<Longrightarrow> map g (update_loop i f l) = map g l"
  by (induction l) auto

lemma set_unlink_name: "set (unlink_name s l) \<subseteq> set l"
  by (induction l) auto

lemma distinct_unlink_name: "distinct (map g l) \<Longrightarrow> distinct (map g (unlink_name s l))"
  by (induction l) (use set_unlink_name in \<open>fastforce+\<close>)

lemma unlink_name_gone: "distinct (map lb_devname l) \<Longrightarrow> s \<notin> lb_devname ` set (unlink_name s l)"
  by (induction l) auto

subsection \<open>The driver contract\<close>

text \<open>
  The backing files of the loopback devices, as the contract of a set of files: \<open>devs i\<close> is the
  private data and size of the file behind device \<open>i\<close>. The content of a device is the bytes of
  its file, followed by zeros up to the end of the last sector.
\<close>

definition loop_served :: "(u64 \<Rightarrow> ('d \<times> u64) option) \<Rightarrow> grub_disk \<Rightarrow> bool" where
  "loop_served devs disk \<longleftrightarrow> disk_dev_id disk = GRUB_DISK_DEVICE_LOOPBACK_ID \<and> disk_log_sector_size disk = 9 \<and>
     0 < disk_max_agglomerate disk \<and>
     (\<exists>d fsize. devs (disk_id disk) = Some (d, fsize) \<and> disk_total_sectors disk = loopback_sectors fsize)"

locale loop_files = file_source fs_read bytes_of opened content good live
  for fs_read :: "('d, 'd loop_state) fs_read" and bytes_of :: "'d \<Rightarrow> nat \<Rightarrow> u8"
    and opened :: "'d \<Rightarrow> u64 \<Rightarrow> bool" and content :: content and good :: "'d loop_state \<Rightarrow> bool"
    and live :: bool +
  fixes devs :: "u64 \<Rightarrow> ('d \<times> u64) option"
  assumes good_devs: "good ls \<Longrightarrow> devs i = Some (d, fsize) \<Longrightarrow>
      \<exists>dev. find_loop i (loopback_list ls) = Some dev \<and> file_data (lb_file dev) = d \<and> file_size (lb_file dev) = fsize"
    and good_put: "good ls \<Longrightarrow> devs i = Some (file_data f, file_size f) \<Longrightarrow>
      good (ls\<lparr> loopback_list := update_loop i (\<lambda>d. d\<lparr> lb_file := f \<rparr>) (loopback_list ls) \<rparr>)"
    and devs_opened: "devs i = Some (d, fsize) \<Longrightarrow> opened d fsize"
    and devs_content: "devs i = Some (d, fsize) \<Longrightarrow>
      content GRUB_DISK_DEVICE_LOOPBACK_ID i n = (if n < unat fsize then bytes_of d n else 0)"
begin

lemma served_disk:
  assumes "loop_served devs disk" and "good ls"
  obtains dev where "find_loop (disk_id disk) (loopback_list ls) = Some dev"
    and "devs (disk_id disk) = Some (file_data (lb_file dev), file_size (lb_file dev))"
    and "disk_total_sectors disk = loopback_sectors (file_size (lb_file dev))"
  using assms good_devs [OF assms(2)] by (fastforce simp: loop_served_def)

lemma loopback_data:
  assumes dev: "devs i = Some (d, fsize)"
    and s: "unat sector * 512 \<le> unat fsize" and room: "(unat sector + unat n) * 512 \<le> unat fsize + 511"
  shows "zero_tail fsize sector n
      (map (bytes_of d) [unat sector * 512..<unat sector * 512 + min (unat n * 512) (unat fsize - unat sector * 512)])
    = content_bytes content GRUB_DISK_DEVICE_LOOPBACK_ID i (unat sector * 512) (unat n * 512)"
proof -
  have small: "unat fsize < 2 ^ 63" by (rule opened_size [OF devs_opened [OF dev]])
  have sum: "unat (sector + n) = unat sector + unat n" using room small by (intro unat_plus_exact) simp
  have pos: "unat (push_bit 9 (sector + n)) = (unat sector + unat n) * 512"
    using room small by (subst unat_push_bit_exact) (simp_all add: sum)
  have nn: "unat (push_bit 9 n) = unat n * 512"
    using room small by (subst unat_push_bit_exact) simp_all
  let ?o = "unat sector * 512" and ?l = "unat n * 512"
  show ?thesis
  proof (cases "?o + ?l > unat fsize")
    case False
    then have "zero_tail fsize sector n x = x" for x
      by (simp add: zero_tail_def word_less_nat_alt pos)
    moreover have "min ?l (unat fsize - ?o) = ?l" using False s by simp
    ultimately show ?thesis
      using False by (auto simp: content_bytes_def devs_content [OF dev])
  next
    case True
    have am: "unat (push_bit 9 (sector + n) - fsize) = ?o + ?l - unat fsize"
      using True by (subst unat_minus_exact) (simp_all add: pos word_le_nat_alt)
    have fit: "?l - (?o + ?l - unat fsize) = unat fsize - ?o" using True s by linarith
    have split: "[?o..<?o + ?l] = [?o..<unat fsize] @ [unat fsize..<?o + ?l]"
      using True s upt_add_eq_append [of ?o "unat fsize" "?o + ?l - unat fsize"] by simp
    have "zero_tail fsize sector n x = take (unat fsize - ?o) x @ replicate (?o + ?l - unat fsize) 0" for x
      using True by (simp add: zero_tail_def word_less_nat_alt pos nn am fit)
    moreover have "min ?l (unat fsize - ?o) = unat fsize - ?o" using True by linarith
    ultimately show ?thesis
      using s unfolding content_bytes_def split
      by (auto simp: devs_content [OF dev] map_replicate_const intro!: nth_equalityI)
  qed
qed

lemma loopback_room:
  fixes s n :: u64
  assumes "loop_served devs disk" and "devs (disk_id disk) = Some (d, fsize)"
    and "in_device disk ((unat s + unat n) * 2 ^ disk_log_sector_size disk)"
  shows "(unat s + unat n) * 512 \<le> unat fsize + 511" and "unat (push_bit 9 s) = unat s * 512"
    and "unat (push_bit 9 n) = unat n * 512"
proof -
  have small: "unat fsize < 2 ^ 63" by (rule opened_size [OF devs_opened [OF assms(2)]])
  have "fsize + 512 - 1 = fsize + (511 :: u64)" by simp
  moreover have "unat (fsize + 511) = unat fsize + 511" using unat_plus_exact [of fsize 511] small by simp
  moreover have "fsize \<noteq> GRUB_FILE_SIZE_UNKNOWN" using small by auto
  ultimately have t: "unat (loopback_sectors fsize) = (unat fsize + 511) div 512"
    by (simp only: loopback_sectors_def if_True not_False_eq_True unat_div_distrib) simp
  have total: "disk_total_sectors disk = loopback_sectors fsize" "disk_log_sector_size disk = 9"
    using assms(1,2) by (auto simp: loop_served_def)
  have "loopback_sectors fsize \<noteq> GRUB_DISK_SIZE_UNKNOWN"
  proof
    assume "loopback_sectors fsize = GRUB_DISK_SIZE_UNKNOWN"
    then have "unat (loopback_sectors fsize) = 2 ^ 64 - 1" by simp
    with t small show False by simp
  qed
  then have "(unat s + unat n) * 512 \<le> (unat fsize + 511) div 512 * 512"
    using assms(3) by (simp add: in_device_def total t)
  then show r: "(unat s + unat n) * 512 \<le> unat fsize + 511" by (meson div_times_less_eq_dividend le_trans)
  show "unat (push_bit 9 s) = unat s * 512" "unat (push_bit 9 n) = unat n * 512"
    using r small by (simp_all add: unat_push_bit_exact)
qed

lemma loopback_read_ok:
  assumes disk: "loop_served devs disk" and inv: "cache_inv content good st"
    and room: "in_device disk ((unat s + unat n) * 2 ^ disk_log_sector_size disk)"
    and run: "grub_loopback_read fs_read p disk s n st = ((e, buf), st')"
  shows "cache_inv content good st' \<and> loose_frame st st' \<and> (e = GRUB_ERR_NONE \<longrightarrow>
     buf = content_bytes content (disk_dev_id disk) (disk_id disk)
       (unat s * 2 ^ disk_log_sector_size disk) (unat n * 2 ^ disk_log_sector_size disk)) \<and>
     (quiet live st \<and> 0 < unat n \<longrightarrow> e = GRUB_ERR_NONE \<and> quiet live st')"
proof -
  have g: "good (d_ext st)" using inv by (simp add: cache_inv_def)
  obtain dev where dev: "find_loop (disk_id disk) (loopback_list (d_ext st)) = Some dev"
    "devs (disk_id disk) = Some (file_data (lb_file dev), file_size (lb_file dev))"
    by (rule served_disk [OF disk g])
  let ?f = "lb_file dev"
  note r = loopback_room [OF disk dev(2) room]
  obtain old f1 st1 where sk: "grub_file_seek ?f (push_bit 9 s) st = (old, f1, st1)" by (metis prod_cases3)
  have f1: "file_data f1 = file_data ?f" "file_size f1 = file_size ?f"
    and st1: "cache_inv content good st1" "loose_frame st st1"
    and off: "push_bit 9 s \<le> file_size ?f \<Longrightarrow> file_offset f1 = push_bit 9 s"
    and bad: "\<not> push_bit 9 s \<le> file_size ?f \<Longrightarrow> d_errno st1 \<noteq> GRUB_ERR_NONE \<and> n = 0"
    using sk inv r by (auto simp: grub_file_seek_def cache_inv_def loose_frame_def word_le_nat_alt
        word_less_nat_alt unat_eq_0 [symmetric] split: if_splits)
  obtain m b f2 st2 where rd: "grub_file_read fs_read p (unat (lb_id dev)) f1 (push_bit 9 n) st1 = ((m, b), f2, st2)"
    by (metis surj_pair)
  have o: "opened (file_data f1) (file_size f1)" using devs_opened [OF dev(2)] by (simp add: f1)
  note fr = file_read_ok [OF o st1(1) rd]
  have bad2: "d_errno st2 \<noteq> GRUB_ERR_NONE" if "\<not> push_bit 9 s \<le> file_size ?f"
    using bad [OF that] rd by (auto simp: grub_file_read_def split: if_splits)
  define st3 where "st3 = put_file (disk_id disk) f2 st2"
  have good3: "good (d_ext st3)"
    using good_put [of "d_ext st2" "disk_id disk" f2] fr(1,3,4) f1 dev(2)
    by (simp add: st3_def put_file_def cache_inv_def)
  then have inv3: "cache_inv content good st3" and fr3: "loose_frame st st3"
    using fr(1,2) loose_frame_trans [OF st1(2)] by (simp_all add: st3_def put_file_def cache_inv_def loose_frame_def)
  have res: "(e, buf) = (if d_errno st3 \<noteq> GRUB_ERR_NONE then (d_errno st3, [])
      else (GRUB_ERR_NONE, zero_tail (file_size f2) s n b))" "st' = st3"
    using run unfolding grub_loopback_read_def dev sk rd option.case prod.case Let_def st3_def [symmetric]
    by (auto split: if_splits)
  have lv: "e = GRUB_ERR_NONE \<and> quiet live st3" if "quiet live st" "0 < unat n"
  proof -
    have le: "push_bit 9 s \<le> file_size ?f" using bad that(2) by fastforce
    then have "quiet live st1" using sk that(1) by (auto simp: grub_file_seek_def split: if_splits)
    then have "quiet live st2" using fr(6) le by (simp add: f1 off [OF le])
    then show ?thesis using res by (simp add: st3_def quiet_def put_file_def split: if_splits)
  qed
  have data: "buf = content_bytes content (disk_dev_id disk) (disk_id disk) (unat s * 512) (unat n * 512)"
    if "e = GRUB_ERR_NONE"
  proof -
    have n: "d_errno st2 = GRUB_ERR_NONE" using res that by (auto simp: st3_def split: if_splits)
    have le: "push_bit 9 s \<le> file_size ?f" using bad2 n by blast
    have "b = map (bytes_of (file_data ?f)) [unat s * 512..<unat s * 512 +
        min (unat n * 512) (unat (file_size ?f) - unat s * 512)]"
      using fr(7) [OF n] by (simp add: f1 off [OF le] r)
    then show ?thesis
      using loopback_data [OF dev(2) _ r(1)] le res that n disk
      by (simp add: word_le_nat_alt r st3_def fr f1 loop_served_def)
  qed
  have "disk_log_sector_size disk = 9" using disk by (simp add: loop_served_def)
  then show ?thesis using inv3 fr3 res(2) data lv by simp
qed

lemma loopback_read_error:
  "grub_loopback_read fs_read p disk s n st = ((e, buf), st') \<Longrightarrow> e \<noteq> GRUB_ERR_NONE \<Longrightarrow> d_errno st' = e"
  by (auto simp: grub_loopback_read_def Let_def split: option.splits prod.splits if_splits)

lemma loopback_geometry: "loop_served devs disk \<Longrightarrow> geometry_ok disk"
  by (simp add: loop_served_def geometry_ok_def)

end

sublocale loop_files \<subseteq> loop_disk: disk_device "grub_loopback_read fs_read p" content good "loop_served devs" live
  for p
proof
  fix disk :: grub_disk and s n :: u64 and st st' :: "'d lstate" and e buf
  assume a: "loop_served devs disk"
  show "geometry_ok disk" by (rule loopback_geometry [OF a])
  show "grub_loopback_read fs_read p disk s n st = ((e, buf), st') \<Longrightarrow> e \<noteq> GRUB_ERR_NONE \<Longrightarrow> d_errno st' = e"
    by (rule loopback_read_error)
  assume b: "cache_inv content good st" "in_device disk ((unat s + unat n) * 2 ^ disk_log_sector_size disk)"
  show "grub_loopback_read fs_read p disk s n st = ((GRUB_ERR_NONE, buf), st') \<Longrightarrow>
      buf = content_bytes content (disk_dev_id disk) (disk_id disk)
        (unat s * 2 ^ disk_log_sector_size disk) (unat n * 2 ^ disk_log_sector_size disk)"
    using loopback_read_ok [OF a b] by blast
  show "cache_inv content good (snd (grub_loopback_read fs_read p disk s n st)) \<and>
      loose_frame st (snd (grub_loopback_read fs_read p disk s n st))"
    using loopback_read_ok [OF a b] by (metis prod.exhaust_sel)
  show "0 < unat n \<Longrightarrow> quiet live st \<Longrightarrow> fst (fst (grub_loopback_read fs_read p disk s n st)) = GRUB_ERR_NONE \<and>
      quiet live (snd (grub_loopback_read fs_read p disk s n st))"
    using loopback_read_ok [OF a b] by (metis prod.exhaust_sel)
qed

end
