(* ===== verification/Procfs.thy ===== *)
theory Procfs
  imports Loopback
begin

text \<open>
  The virtual file system of statistics files (\<open>grub/grub-core/fs/proc.c\<close>): the growing writer
  its generators fill, opening and reading a generated file, and the dummy disk. A file's private
  data is the generated buffer. The writer's buffer is modelled by the bytes written so far and
  the terminating zero; the capacity is tracked separately. \<open>None\<close> is the value of a run that does
  not end (the capacity loop started from zero), which the lemmas exclude.
\<close>

record procfs_writer =
  w_data :: bytes
  w_size :: u64
  w_capacity :: u64
  w_error :: grub_err_t

definition writer_init :: procfs_writer where
  "writer_init = \<lparr> w_data = [], w_size = 0, w_capacity = 0, w_error = GRUB_ERR_NONE \<rparr>"

text \<open>The doubling loop; each turn doubles the capacity, so 64 turns reach every 64-bit size.\<close>

fun grow_capacity :: "nat \<Rightarrow> u64 \<Rightarrow> u64 \<Rightarrow> u64 option" where
  "grow_capacity 0 capacity needed = (if capacity < needed then None else Some capacity)"
| "grow_capacity (Suc fuel) capacity needed =
     (if capacity < needed then
        if capacity > 0xffffffffffffffff div 2 then Some needed
        else grow_capacity fuel (capacity * 2) needed
      else Some capacity)"

definition grub_procfs_writer_reserve :: "u64 \<Rightarrow> procfs_writer \<Rightarrow> 'h dstate
    \<Rightarrow> (grub_err_t \<times> procfs_writer \<times> 'h dstate) option" where
  "grub_procfs_writer_reserve n w st =
     (if w_error w \<noteq> GRUB_ERR_NONE then Some (w_error w, w, st)
      else case Option.bind (grub_add (w_size w) n) (\<lambda>m. grub_add m 1) of
        None \<Rightarrow> Some (GRUB_ERR_OUT_OF_RANGE, w\<lparr> w_error := GRUB_ERR_OUT_OF_RANGE \<rparr>,
                      raise_error GRUB_ERR_OUT_OF_RANGE ''procfs file is too large'' st)
      | Some needed \<Rightarrow>
          if needed \<le> w_capacity w then Some (GRUB_ERR_NONE, w, st)
          else case grow_capacity 64 (if w_capacity w \<noteq> 0 then w_capacity w else 256) needed of
            None \<Rightarrow> None
          | Some capacity \<Rightarrow>
              (case grub_malloc st of
                 (False, st1) \<Rightarrow>
                   if d_errno st1 = GRUB_ERR_NONE
                   then Some (GRUB_ERR_OUT_OF_MEMORY, w\<lparr> w_error := GRUB_ERR_OUT_OF_MEMORY \<rparr>,
                              raise_error GRUB_ERR_OUT_OF_MEMORY ''cannot allocate procfs file'' st1)
                   else Some (d_errno st1, w\<lparr> w_error := d_errno st1 \<rparr>, st1)
               | (True, st1) \<Rightarrow> Some (GRUB_ERR_NONE, w\<lparr> w_capacity := capacity \<rparr>, st1)))"

text \<open>\<open>size\<close> bytes of \<open>data\<close> and the terminating zero.\<close>

definition grub_procfs_write :: "bytes \<Rightarrow> u64 \<Rightarrow> procfs_writer \<Rightarrow> 'h dstate
    \<Rightarrow> (grub_err_t \<times> procfs_writer \<times> 'h dstate) option" where
  "grub_procfs_write data n w st =
     (case grub_procfs_writer_reserve n w st of
        None \<Rightarrow> None
      | Some (e, w1, st1) \<Rightarrow>
          if e \<noteq> GRUB_ERR_NONE then Some (w_error w1, w1, st1)
          else Some (GRUB_ERR_NONE,
                     w1\<lparr> w_data := take (unat (w_size w1)) (w_data w1) @ take (unat n) data @ [0],
                         w_size := w_size w1 + n \<rparr>, st1))"

definition grub_procfs_puts :: "bytes \<Rightarrow> procfs_writer \<Rightarrow> 'h dstate
    \<Rightarrow> (grub_err_t \<times> procfs_writer \<times> 'h dstate) option" where
  "grub_procfs_puts text w st = grub_procfs_write text (of_nat (length text)) w st"

text \<open>\<open>grub_procfs_printf\<close>: \<open>text\<close> is what the formatting produced.\<close>

definition grub_procfs_printf :: "bytes \<Rightarrow> procfs_writer \<Rightarrow> 'h dstate
    \<Rightarrow> (grub_err_t \<times> procfs_writer \<times> 'h dstate) option" where
  "grub_procfs_printf text w st =
     (if w_error w \<noteq> GRUB_ERR_NONE then Some (w_error w, w, st)
      else case grub_malloc st of
        (False, st1) \<Rightarrow>
          if d_errno st1 = GRUB_ERR_NONE
          then Some (GRUB_ERR_OUT_OF_MEMORY, w\<lparr> w_error := GRUB_ERR_OUT_OF_MEMORY \<rparr>,
                     raise_error GRUB_ERR_OUT_OF_MEMORY ''cannot format procfs file'' st1)
          else Some (d_errno st1, w\<lparr> w_error := d_errno st1 \<rparr>, st1)
      | (True, st1) \<Rightarrow>
          (case grub_procfs_puts text w st1 of
             None \<Rightarrow> None
           | Some (_, w2, st2) \<Rightarrow> Some (w_error w2, w2, st2)))"

subsection \<open>The dummy disk\<close>

definition grub_procdev_iterate :: "(string \<Rightarrow> 's \<Rightarrow> bool \<times> 's) \<Rightarrow> bool \<Rightarrow> 's \<Rightarrow> bool \<times> 's" where
  "grub_procdev_iterate hook pull_none s = (if \<not> pull_none then (False, s) else hook ''proc'' s)"

definition grub_procdev_open :: "string \<Rightarrow> grub_disk \<Rightarrow> 'h dstate \<Rightarrow> grub_err_t \<times> grub_disk \<times> 'h dstate" where
  "grub_procdev_open name disk st =
     (if name \<noteq> ''proc''
      then (GRUB_ERR_UNKNOWN_DEVICE, disk, raise_error GRUB_ERR_UNKNOWN_DEVICE ''not a procfs disk'' st)
      else (GRUB_ERR_NONE, disk\<lparr> disk_total_sectors := 0, disk_id := 0 \<rparr>, st))"

definition grub_procdev_read :: "'h dread" where
  "grub_procdev_read disk sector n st = ((GRUB_ERR_OUT_OF_RANGE, []), st)"

subsection \<open>Files\<close>

definition grub_procfs_read :: "(bytes, 'h) fs_read" where
  "grub_procfs_read file len st =
     ((sint len, bslice (unat (file_offset file)) (unat len) (file_data file)), st)"

text \<open>
  \<open>grub_procfs_open\<close>: the lookup of the entry (\<open>grub_archelp_open\<close>) and the entry's generator
  are the parameters \<open>lookup\<close> and \<open>generate\<close>.
\<close>

definition grub_procfs_open ::
    "(string \<Rightarrow> 'h dstate \<Rightarrow> (grub_err_t \<times> 'e) \<times> 'h dstate)
     \<Rightarrow> ('e \<Rightarrow> procfs_writer \<Rightarrow> 'h dstate \<Rightarrow> (grub_err_t \<times> procfs_writer \<times> 'h dstate) option)
     \<Rightarrow> bytes grub_file \<Rightarrow> string \<Rightarrow> 'h dstate \<Rightarrow> (grub_err_t \<times> bytes grub_file \<times> 'h dstate) option" where
  "grub_procfs_open lookup generate file path st =
     (case lookup path st of
        ((e, entry), st1) \<Rightarrow>
          if e \<noteq> GRUB_ERR_NONE then Some (e, file, st1)
          else case generate entry writer_init st1 of
            None \<Rightarrow> None
          | Some (e1, w1, st2) \<Rightarrow>
              (let e2 = (if e1 = GRUB_ERR_NONE then w_error w1 else e1)
               in case (if e2 = GRUB_ERR_NONE then grub_procfs_write [] 0 w1 st2 else Some (e2, w1, st2)) of
                    None \<Rightarrow> None
                  | Some (e3, w3, st3) \<Rightarrow>
                      if e3 \<noteq> GRUB_ERR_NONE
                      then Some (e3, file, if d_errno st3 = GRUB_ERR_NONE
                                           then raise_error e3 ''cannot generate procfs file'' st3 else st3)
                      else Some (GRUB_ERR_NONE,
                                 file\<lparr> file_data := w_data w3, file_size := w_size w3 \<rparr>, st3)))"

subsection \<open>The writer\<close>

text \<open>
  A writer without error holds its bytes and a terminating zero inside its capacity, or has no
  buffer yet.
\<close>

definition writer_wf :: "procfs_writer \<Rightarrow> bool" where
  "writer_wf w \<longleftrightarrow>
     (w_size w = 0 \<and> w_capacity w = 0 \<and> w_data w = [] \<or>
      w_size w < w_capacity w \<and> length (w_data w) = Suc (unat (w_size w)) \<and> last (w_data w) = 0)"

definition written :: "procfs_writer \<Rightarrow> bytes" where
  "written w = take (unat (w_size w)) (w_data w)"

lemma grow_capacity_ok:
  assumes "unat needed \<le> unat capacity * 2 ^ fuel" and "0 < capacity"
  shows "\<exists>c. grow_capacity fuel capacity needed = Some c \<and> needed \<le> c"
  using assms
proof (induction fuel arbitrary: capacity)
  case 0
  then show ?case by (auto simp: word_less_nat_alt word_le_nat_alt)
next
  case (Suc fuel)
  show ?case
  proof (cases "capacity < needed \<and> \<not> capacity > 0xffffffffffffffff div 2")
    case True
    then have c: "unat capacity * 2 < 2 ^ 64" by (simp add: word_less_nat_alt)
    have d: "unat (capacity * 2) = unat capacity * 2"
      using unat_mult_lem [of capacity 2] c by simp
    then have "0 < capacity * 2" using Suc.prems(2) by (simp add: word_less_nat_alt)
    moreover have "unat needed \<le> unat (capacity * 2) * 2 ^ fuel" using Suc.prems(1) by (simp add: d)
    ultimately show ?thesis using Suc.IH [of "capacity * 2"] True by simp
  next
    case False
    then show ?thesis by auto
  qed
qed

lemma reserve_ok:
  assumes wf: "writer_wf w"
  shows "\<exists>w1 st1. grub_procfs_writer_reserve n w st = Some (w_error w1, w1, st1) \<and>
     w_data w1 = w_data w \<and> w_size w1 = w_size w \<and> (w_error w1 \<noteq> GRUB_ERR_NONE \<longrightarrow> writer_wf w1) \<and>
     (w_error w1 = GRUB_ERR_NONE \<longrightarrow> unat (w_size w) + unat n < unat (w_capacity w1))"
proof (cases "Option.bind (grub_add (w_size w) n) (\<lambda>m. grub_add m 1)")
  case None
  then show ?thesis
    using wf by (cases "w_error w = GRUB_ERR_NONE") (auto simp: grub_procfs_writer_reserve_def writer_wf_def)
next
  case (Some needed)
  then have nd: "unat needed = unat (w_size w) + unat n + 1"
    by (auto simp: bind_eq_Some_conv grub_add_Some)
  let ?c = "if w_capacity w \<noteq> 0 then w_capacity w else 256"
  have c0: "0 < ?c" by (simp add: word_greater_zero_iff)
  then have "1 * 2 ^ 64 \<le> unat ?c * 2 ^ 64" by (intro mult_right_mono) (simp_all add: word_less_nat_alt)
  moreover have "unat needed < 2 ^ 64" using unsigned_less [of needed, where 'a = nat] by simp
  ultimately have "unat needed \<le> unat ?c * 2 ^ 64" by simp
  then obtain c where c: "grow_capacity 64 ?c needed = Some c" "needed \<le> c"
    using grow_capacity_ok c0 by blast
  obtain ok st1 where m: "grub_malloc st = (ok, st1)" by fastforce
  show ?thesis
  proof (cases "w_error w = GRUB_ERR_NONE \<and> \<not> needed \<le> w_capacity w")
    case False
    then show ?thesis
      using wf nd unfolding grub_procfs_writer_reserve_def Some
      by (auto simp: word_le_nat_alt intro!: exI [of _ w])
  next
    case True
    have eq: "grub_procfs_writer_reserve n w st =
        (if ok then Some (GRUB_ERR_NONE, w\<lparr> w_capacity := c \<rparr>, st1)
         else Some (d_errno st1, w\<lparr> w_error := d_errno st1 \<rparr>, st1))"
      using True c(1) grub_malloc_step(8) [OF m] unfolding grub_procfs_writer_reserve_def Some
      by (simp add: m)
    show ?thesis
    proof (cases ok)
      case False
      then show ?thesis
        using eq wf grub_malloc_step(8) [OF m]
        by (auto simp: writer_wf_def intro!: exI [of _ "w\<lparr> w_error := d_errno st1 \<rparr>"])
    next
      case t: True
      then show ?thesis
        using eq c(2) nd True by (auto simp: word_le_nat_alt intro!: exI [of _ "w\<lparr> w_capacity := c \<rparr>"])
    qed
  qed
qed

lemma write_ok:
  assumes wf: "writer_wf w" and len: "length data = unat n"
  shows "\<exists>w1 st1. grub_procfs_write data n w st = Some (w_error w1, w1, st1) \<and> writer_wf w1 \<and>
     written w1 = (if w_error w1 = GRUB_ERR_NONE then written w @ data else written w)"
proof -
  from reserve_ok [OF wf, of n st] obtain w1 st1
    where r: "grub_procfs_writer_reserve n w st = Some (w_error w1, w1, st1)"
      "w_data w1 = w_data w" "w_size w1 = w_size w" "w_error w1 \<noteq> GRUB_ERR_NONE \<longrightarrow> writer_wf w1"
      "w_error w1 = GRUB_ERR_NONE \<longrightarrow> unat (w_size w) + unat n < unat (w_capacity w1)" by blast
  show ?thesis
  proof (cases "w_error w1 = GRUB_ERR_NONE")
    case False
    then show ?thesis using r by (auto simp: grub_procfs_write_def written_def)
  next
    case True
    let ?w = "w1\<lparr> w_data := take (unat (w_size w)) (w_data w) @ data @ [0], w_size := w_size w + n \<rparr>"
    have cap: "unat (w_size w) + unat n < unat (w_capacity w1)" using r(5) True by simp
    then have sum: "unat (w_size w + n) = unat (w_size w) + unat n"
      using unsigned_less [of "w_capacity w1", where 'a = nat] by (intro unat_plus_exact) simp
    have tk: "length (take (unat (w_size w)) (w_data w)) = unat (w_size w)"
      using wf by (auto simp: writer_wf_def)
    have "writer_wf ?w" using cap len tk by (simp add: writer_wf_def word_less_nat_alt sum)
    moreover have "written ?w = written w @ data" using len tk by (simp add: written_def sum)
    ultimately show ?thesis using r True len by (auto simp: grub_procfs_write_def)
  qed
qed

subsection \<open>Loopback devices on generated files\<close>

text \<open>
  A generated file serves reads from its buffer, so it meets the contract of a file-system
  driver, and a loopback device on it that of a disk driver. The devices and their content are
  read off a loopback state \<open>ls\<close>; \<open>loop_good\<close> says that a later state still has those devices
  with the same files, whatever their positions.
\<close>

definition procfs_opened :: "bytes \<Rightarrow> u64 \<Rightarrow> bool" where
  "procfs_opened d fsize \<longleftrightarrow> unat fsize \<le> length d \<and> unat fsize < 2 ^ 63"

definition loop_devs :: "bytes loop_state \<Rightarrow> u64 \<Rightarrow> (bytes \<times> u64) option" where
  "loop_devs ls i =
     (case find_loop i (loopback_list ls) of
        None \<Rightarrow> None
      | Some dev \<Rightarrow>
          if procfs_opened (file_data (lb_file dev)) (file_size (lb_file dev))
          then Some (file_data (lb_file dev), file_size (lb_file dev)) else None)"

definition loop_content :: "bytes loop_state \<Rightarrow> content" where
  "loop_content ls dv i n =
     (case loop_devs ls i of
        None \<Rightarrow> 0
      | Some (d, fsize) \<Rightarrow> if n < unat fsize then byte_at d n else 0)"

definition loop_good :: "bytes loop_state \<Rightarrow> bytes loop_state \<Rightarrow> bool" where
  "loop_good ls ls' \<longleftrightarrow>
     (\<forall>i d fsize. loop_devs ls i = Some (d, fsize) \<longrightarrow>
        (\<exists>dev. find_loop i (loopback_list ls') = Some dev \<and>
           file_data (lb_file dev) = d \<and> file_size (lb_file dev) = fsize))"

lemma loop_good_refl: "loop_good ls ls"
  by (auto simp: loop_good_def loop_devs_def split: option.splits if_splits)

lemma procfs_loop_files:
  assumes devs: "\<And>h i d fsize. good h \<Longrightarrow> loop_devs ls i = Some (d, fsize) \<Longrightarrow>
      \<exists>dev. find_loop i (loopback_list h) = Some dev \<and> file_data (lb_file dev) = d \<and> file_size (lb_file dev) = fsize"
    and put: "\<And>h i f. good h \<Longrightarrow> loop_devs ls i = Some (file_data f, file_size f) \<Longrightarrow>
      good (h\<lparr> loopback_list := update_loop i (\<lambda>d. d\<lparr> lb_file := f \<rparr>) (loopback_list h) \<rparr>)"
  shows "loop_files grub_procfs_read byte_at procfs_opened (loop_content ls) good True (loop_devs ls)"
proof
  fix f :: "bytes grub_file" and st st' :: "bytes lstate" and len :: u64 and n b
  assume o: "procfs_opened (file_data f) (file_size f)"
    and l: "unat (file_offset f) + unat len \<le> unat (file_size f)"
  assume "grub_procfs_read f len st = ((n, b), st')"
  then show "n = int (unat len) \<and>
      b = map (byte_at (file_data f)) [unat (file_offset f)..<unat (file_offset f) + unat len]"
    using o l by (auto simp: grub_procfs_read_def procfs_opened_def sint_small bslice_byte_at)
qed (use devs put in \<open>auto simp: grub_procfs_read_def procfs_opened_def loop_devs_def loop_content_def
      split: option.splits if_splits\<close>)

interpretation procfs: loop_files grub_procfs_read byte_at procfs_opened "loop_content ls" "loop_good ls" True "loop_devs ls"
  for ls
proof (rule procfs_loop_files)
  fix h i and f :: "bytes grub_file"
  assume "loop_good ls h" "loop_devs ls i = Some (file_data f, file_size f)"
  then show "loop_good ls (h\<lparr> loopback_list := update_loop i (\<lambda>d. d\<lparr> lb_file := f \<rparr>) (loopback_list h) \<rparr>)"
    by (fastforce simp: loop_good_def find_loop_update)
qed (simp add: loop_good_def)

interpretation procfs_hooked: hooked_device "grub_loopback_read grub_procfs_read p" "loop_content ls"
    "loop_good ls" "loop_served (loop_devs ls)" True None
  for ls p
  by unfold_locales simp_all

end
