(* ===== verification/File_Map.thy ===== *)
theory File_Map
  imports File
begin

text \<open>
  The metadata mapping of files (\<open>grub/include/grub/filemap.h\<close> and the second half of
  \<open>grub/grub-core/kern/file.c\<close>): a file-system driver reports the extents of a file one by one
  through \<open>grub_file_map_emit\<close>, which validates, clips and coalesces them and passes them on to
  the caller's hook. The hook and the optional cancellation poll are parameters that work on the
  caller's data, the type \<open>'s\<close>; a result \<open>True\<close> of the hook asks to stop.
\<close>

abbreviation GRUB_FILE_MAP_DIRECT :: u32 where "GRUB_FILE_MAP_DIRECT \<equiv> 1"
abbreviation GRUB_FILE_MAP_ZERO :: u32 where "GRUB_FILE_MAP_ZERO \<equiv> 2"
abbreviation GRUB_FILE_MAP_HOLE :: u32 where "GRUB_FILE_MAP_HOLE \<equiv> 4"
abbreviation GRUB_FILE_MAP_UNWRITTEN :: u32 where "GRUB_FILE_MAP_UNWRITTEN \<equiv> 32"
abbreviation GRUB_FILE_MAP_TRANSFORMED :: u32 where "GRUB_FILE_MAP_TRANSFORMED \<equiv> 128"
abbreviation GRUB_FILE_MAP_VOLUME :: u32 where "GRUB_FILE_MAP_VOLUME \<equiv> 0"
abbreviation GRUB_FILE_MAP_FS_LOGICAL :: u32 where "GRUB_FILE_MAP_FS_LOGICAL \<equiv> 1"

record map_storage =
  ms_offset :: u64
  ms_length :: u64
  ms_address_space :: u32

text \<open>The empty list as \<open>me_storage\<close> is the null pointer.\<close>

record map_extent =
  me_logical_offset :: u64
  me_logical_length :: u64
  me_decoded_offset :: u64
  me_decoded_length :: u64
  me_flags :: u32
  me_encoding :: "string option"
  me_storage :: "map_storage list"
  me_storage_count :: nat

text \<open>
  \<open>struct grub_file_map_context\<close>, with the caller's data and the error state the calls work on.
\<close>

record 's map_context =
  mc_start :: u64
  mc_end :: u64
  mc_next :: u64
  mc_data :: 's
  mc_stopped :: bool
  mc_disk :: "grub_disk option"
  mc_pending :: map_extent
  mc_pending_storage :: map_storage
  mc_err :: err_state

type_synonym 's map_hook = "map_extent \<Rightarrow> 's \<Rightarrow> bool \<times> 's"
type_synonym 's map_cancel = "('s \<Rightarrow> bool \<times> 's) option"

definition flag_set :: "u32 \<Rightarrow> u32 \<Rightarrow> bool" where
  "flag_set w f \<longleftrightarrow> w AND f \<noteq> 0"

definition map_error :: "grub_err_t \<Rightarrow> string \<Rightarrow> 's map_context \<Rightarrow> grub_err_t \<times> 's map_context" where
  "map_error e msg ctx = (e, ctx\<lparr> mc_err := grub_error e msg (mc_err ctx) \<rparr>)"

definition grub_file_map_cancelled :: "'s map_cancel \<Rightarrow> 's map_context \<Rightarrow> bool \<times> 's map_context" where
  "grub_file_map_cancelled cancelled ctx =
     (case cancelled of
        Some c \<Rightarrow>
          if \<not> mc_stopped ctx
          then (case c (mc_data ctx) of (b, d) \<Rightarrow> (b, ctx\<lparr> mc_stopped := b, mc_data := d \<rparr>))
          else (mc_stopped ctx, ctx)
      | None \<Rightarrow> (mc_stopped ctx, ctx))"

fun check_map_partitions :: "grub_partition list \<Rightarrow> u64 \<Rightarrow> u64 \<Rightarrow> u64 option" where
  "check_map_partitions [] frst lst = Some lst"
| "check_map_partitions (p # ps) frst lst =
     (if lst \<ge> part_len p then None
      else case grub_add frst (part_start p) of
        None \<Rightarrow> None
      | Some fst1 \<Rightarrow>
          (case grub_add lst (part_start p) of
             None \<Rightarrow> None
           | Some lst1 \<Rightarrow> check_map_partitions ps fst1 lst1))"

text \<open>The error code and text of the check; \<open>GRUB_ERR_NONE\<close> when it passes.\<close>

definition grub_file_map_check_storage :: "grub_disk option \<Rightarrow> map_storage \<Rightarrow> u64 \<Rightarrow> grub_err_t \<times> string" where
  "grub_file_map_check_storage disk storage e =
     (if ms_address_space storage = GRUB_FILE_MAP_FS_LOGICAL then (GRUB_ERR_NONE, [])
      else case disk of
        None \<Rightarrow> (GRUB_ERR_BAD_FS, ''invalid mapping address space'')
      | Some d \<Rightarrow>
          if ms_address_space storage \<noteq> GRUB_FILE_MAP_VOLUME
          then (GRUB_ERR_BAD_FS, ''invalid mapping address space'')
          else case check_map_partitions (disk_partition d)
                      (drop_bit GRUB_DISK_SECTOR_BITS (ms_offset storage))
                      (drop_bit GRUB_DISK_SECTOR_BITS (e - 1)) of
            None \<Rightarrow> (GRUB_ERR_OUT_OF_RANGE, ''storage mapping outside partition'')
          | Some lst \<Rightarrow>
              if disk_log_sector_size d < GRUB_DISK_SECTOR_BITS \<or> disk_log_sector_size d > 12
              then (GRUB_ERR_BAD_FS, ''invalid mapping sector size'')
              else let shift = disk_log_sector_size d - GRUB_DISK_SECTOR_BITS;
                       limit = (if disk_total_sectors d \<noteq> GRUB_DISK_SIZE_UNKNOWN \<and>
                                   disk_total_sectors d < drop_bit shift GRUB_DISK_MAX_SECTORS
                                then push_bit shift (disk_total_sectors d) else GRUB_DISK_MAX_SECTORS)
                   in if lst \<ge> limit then (GRUB_ERR_OUT_OF_RANGE, ''storage mapping outside disk'')
                      else (GRUB_ERR_NONE, []))"

definition call_map_hook :: "'s map_hook \<Rightarrow> map_extent \<Rightarrow> 's map_context \<Rightarrow> 's map_context" where
  "call_map_hook hook e ctx =
     (case hook e (mc_data ctx) of (b, d) \<Rightarrow> ctx\<lparr> mc_stopped := b, mc_data := d \<rparr>)"

definition grub_file_map_flush :: "'s map_hook \<Rightarrow> 's map_cancel \<Rightarrow> 's map_context \<Rightarrow> 's map_context" where
  "grub_file_map_flush hook cancelled ctx =
     (let ctx1 = (if me_logical_length (mc_pending ctx) \<noteq> 0
                  then case grub_file_map_cancelled cancelled ctx of
                         (True, c) \<Rightarrow> c
                       | (False, c) \<Rightarrow> call_map_hook hook (mc_pending c) c
                  else ctx)
      in ctx1\<lparr> mc_pending := (mc_pending ctx1)\<lparr> me_logical_length := 0 \<rparr> \<rparr>)"

text \<open>
  The loop over the storage records: \<open>Inl\<close> leaves the function with a result, \<open>Inr\<close> goes on.
\<close>

fun check_storages :: "'s map_cancel \<Rightarrow> map_storage list \<Rightarrow> 's map_context
    \<Rightarrow> (grub_err_t + unit) \<times> 's map_context" where
  "check_storages cancelled [] ctx = (Inr (), ctx)"
| "check_storages cancelled (s # ss) ctx =
     (case grub_file_map_cancelled cancelled ctx of
        (True, c) \<Rightarrow> (Inl GRUB_ERR_NONE, c)
      | (False, c) \<Rightarrow>
          (case grub_add (ms_offset s) (ms_length s) of
             None \<Rightarrow> (case map_error GRUB_ERR_BAD_FS ''invalid storage mapping range'' c of (e, c1) \<Rightarrow> (Inl e, c1))
           | Some storage_end \<Rightarrow>
               if ms_length s = 0
               then (case map_error GRUB_ERR_BAD_FS ''invalid storage mapping range'' c of (e, c1) \<Rightarrow> (Inl e, c1))
               else (case grub_file_map_check_storage (mc_disk c) s storage_end of
                       (e, msg) \<Rightarrow>
                         if e \<noteq> GRUB_ERR_NONE
                         then (case map_error e msg c of (e1, c1) \<Rightarrow> (Inl e1, c1))
                         else check_storages cancelled ss c)))"

text \<open>
  Clipping of one extent to the queried range: the adjusted extent and the local variable
  \<open>storage\<close>, which is uninitialised (\<open>undefined\<close>) unless the extent is direct.
\<close>

definition is_plain :: "map_extent \<Rightarrow> bool" where
  "is_plain e \<longleftrightarrow> flag_set (me_flags e) GRUB_FILE_MAP_DIRECT \<or>
     flag_set (me_flags e) GRUB_FILE_MAP_UNWRITTEN \<and> \<not> flag_set (me_flags e) GRUB_FILE_MAP_TRANSFORMED"

definition clip_extent :: "u64 \<Rightarrow> u64 \<Rightarrow> map_extent \<Rightarrow> string + map_extent \<times> map_storage" where
  "clip_extent left right input =
     (let delta = left - me_logical_offset input;
          e = input\<lparr> me_logical_offset := left, me_logical_length := right - left \<rparr>
      in if is_plain e then
           (case me_storage e of
              [] \<Rightarrow> Inl ''invalid direct mapping''
            | s # _ \<Rightarrow>
                if me_storage_count e \<noteq> 1 \<or> ms_length s < me_logical_length input
                then Inl ''invalid direct mapping''
                else case grub_add (ms_offset s) delta of
                  None \<Rightarrow> Inl ''mapping address overflow''
                | Some off \<Rightarrow>
                    (case grub_add off (me_logical_length e) of
                       None \<Rightarrow> Inl ''mapping address overflow''
                     | Some _ \<Rightarrow>
                         (let s1 = s\<lparr> ms_offset := off, ms_length := me_logical_length e \<rparr>
                          in Inr (e\<lparr> me_storage := [s1] \<rparr>, s1))))
         else if flag_set (me_flags e) GRUB_FILE_MAP_TRANSFORMED then
           (case grub_add (me_decoded_offset e) delta of
              None \<Rightarrow> Inl ''decoded offset overflow''
            | Some off \<Rightarrow> Inr (e\<lparr> me_decoded_offset := off \<rparr>, undefined))
         else Inr (e, undefined))"

definition coalescable :: "map_extent \<Rightarrow> bool" where
  "coalescable e \<longleftrightarrow> me_flags e = GRUB_FILE_MAP_DIRECT \<or>
     me_flags e = GRUB_FILE_MAP_ZERO OR GRUB_FILE_MAP_HOLE"

definition joins_pending :: "map_extent \<Rightarrow> map_storage \<Rightarrow> 's map_context \<Rightarrow> bool" where
  "joins_pending e storage ctx \<longleftrightarrow>
     me_logical_length (mc_pending ctx) \<noteq> 0 \<and> me_flags (mc_pending ctx) = me_flags e \<and>
     me_logical_offset (mc_pending ctx) + me_logical_length (mc_pending ctx) = me_logical_offset e \<and>
     (me_storage_count e = 0 \<or>
      ms_address_space (mc_pending_storage ctx) = ms_address_space storage \<and>
      ms_offset (mc_pending_storage ctx) + ms_length (mc_pending_storage ctx) = ms_offset storage)"

text \<open>
  The storage pointer of the pending extent refers to \<open>pending_storage\<close>, so the growth of that
  record is visible through it.
\<close>

definition grow_pending :: "map_extent \<Rightarrow> 's map_context \<Rightarrow> 's map_context" where
  "grow_pending e ctx =
     (let s = (mc_pending_storage ctx)\<lparr> ms_length := ms_length (mc_pending_storage ctx) + me_logical_length e \<rparr>
      in ctx\<lparr> mc_pending := (mc_pending ctx)\<lparr>
                me_logical_length := me_logical_length (mc_pending ctx) + me_logical_length e,
                me_storage := (if me_storage_count (mc_pending ctx) \<noteq> 0 then [s] else me_storage (mc_pending ctx)) \<rparr>,
              mc_pending_storage := s \<rparr>)"

definition start_pending :: "map_extent \<Rightarrow> map_storage \<Rightarrow> 's map_context \<Rightarrow> 's map_context" where
  "start_pending e storage ctx =
     (if me_storage_count e \<noteq> 0
      then ctx\<lparr> mc_pending := e\<lparr> me_storage := [storage] \<rparr>, mc_pending_storage := storage \<rparr>
      else ctx\<lparr> mc_pending := e \<rparr>)"

definition deliver_extent :: "'s map_hook \<Rightarrow> 's map_cancel \<Rightarrow> map_extent \<Rightarrow> map_storage \<Rightarrow> 's map_context \<Rightarrow> 's map_context" where
  "deliver_extent hook cancelled e storage ctx =
     (if coalescable e then
        if joins_pending e storage ctx then grow_pending e ctx
        else start_pending e storage (grub_file_map_flush hook cancelled ctx)
      else case grub_file_map_cancelled cancelled (grub_file_map_flush hook cancelled ctx) of
             (True, c) \<Rightarrow> c
           | (False, c) \<Rightarrow> call_map_hook hook e c)"

definition decoded_range_bad :: "map_extent \<Rightarrow> bool" where
  "decoded_range_bad e \<longleftrightarrow>
     flag_set (me_flags e) GRUB_FILE_MAP_TRANSFORMED \<and> me_storage_count e \<noteq> 0 \<and> me_decoded_length e \<noteq> 0 \<and>
     (me_decoded_offset e > me_decoded_length e \<or>
      me_logical_length e > me_decoded_length e - me_decoded_offset e)"

definition place_extent :: "'s map_hook \<Rightarrow> 's map_cancel \<Rightarrow> map_extent \<Rightarrow> u64 \<Rightarrow> 's map_context
    \<Rightarrow> grub_err_t \<times> 's map_context" where
  "place_extent hook cancelled input e_end ctx =
     (if decoded_range_bad input then map_error GRUB_ERR_BAD_FS ''invalid decoded mapping range'' ctx
      else let left = max (me_logical_offset input) (mc_start ctx)
           in if left \<noteq> mc_next ctx
              then map_error GRUB_ERR_BAD_FS ''incomplete or overlapping mapping'' ctx
              else case clip_extent left (min e_end (mc_end ctx)) input of
                Inl msg \<Rightarrow> map_error GRUB_ERR_BAD_FS msg ctx
              | Inr (e, storage) \<Rightarrow>
                  (GRUB_ERR_NONE,
                   deliver_extent hook cancelled e storage
                     (ctx\<lparr> mc_next := left + me_logical_length e \<rparr>)))"

definition grub_file_map_emit :: "'s map_hook \<Rightarrow> 's map_cancel \<Rightarrow> map_extent \<Rightarrow> 's map_context
    \<Rightarrow> grub_err_t \<times> 's map_context" where
  "grub_file_map_emit hook cancelled input ctx =
     (case grub_file_map_cancelled cancelled ctx of
        (True, c) \<Rightarrow> (GRUB_ERR_NONE, c)
      | (False, c) \<Rightarrow>
          (case grub_add (me_logical_offset input) (me_logical_length input) of
             None \<Rightarrow> map_error GRUB_ERR_BAD_FS ''invalid mapping range'' c
           | Some e_end \<Rightarrow>
               if me_logical_length input = 0 then map_error GRUB_ERR_BAD_FS ''invalid mapping range'' c
               else if e_end \<le> mc_start c \<or> me_logical_offset input \<ge> mc_end c then (GRUB_ERR_NONE, c)
               else if me_storage_count input \<noteq> 0 \<and> me_storage input = []
                    then map_error GRUB_ERR_BAD_FS ''missing mapping storage'' c
               else case check_storages cancelled (take (me_storage_count input) (me_storage input)) c of
                      (Inl e, c1) \<Rightarrow> (e, c1)
                    | (Inr _, c1) \<Rightarrow> place_extent hook cancelled input e_end c1))"

definition grub_file_map_simple :: "'s map_hook \<Rightarrow> 's map_cancel \<Rightarrow> u64 \<Rightarrow> u64 \<Rightarrow> u32 \<Rightarrow> u64 \<Rightarrow> 's map_context
    \<Rightarrow> grub_err_t \<times> 's map_context" where
  "grub_file_map_simple hook cancelled offset len flags physical ctx =
     (let placed = flag_set flags (GRUB_FILE_MAP_DIRECT OR GRUB_FILE_MAP_UNWRITTEN)
      in grub_file_map_emit hook cancelled
           \<lparr> me_logical_offset = offset, me_logical_length = len, me_decoded_offset = 0, me_decoded_length = 0,
             me_flags = flags, me_encoding = None,
             me_storage = (if placed then [\<lparr> ms_offset = physical, ms_length = len,
                                             ms_address_space = GRUB_FILE_MAP_VOLUME \<rparr>] else []),
             me_storage_count = (if placed then 1 else 0) \<rparr> ctx)"

text \<open>
  \<open>grub_file_map_range_ex\<close>: the driver's \<open>fs_map_range\<close> is the parameter \<open>fs_map\<close>, \<open>None\<close> when
  the file system has none. The result is the error code, \<open>*stopped\<close> and the final context; the
  callers of this function pass a hook.
\<close>

definition zero_storage :: map_storage where
  "zero_storage = \<lparr> ms_offset = 0, ms_length = 0, ms_address_space = 0 \<rparr>"

definition zero_extent :: map_extent where
  "zero_extent = \<lparr> me_logical_offset = 0, me_logical_length = 0, me_decoded_offset = 0, me_decoded_length = 0,
     me_flags = 0, me_encoding = None, me_storage = [], me_storage_count = 0 \<rparr>"

definition map_context_init :: "u64 \<Rightarrow> u64 \<Rightarrow> grub_disk option \<Rightarrow> 's \<Rightarrow> err_state \<Rightarrow> 's map_context" where
  "map_context_init offset e disk d err =
     \<lparr> mc_start = offset, mc_end = e, mc_next = offset, mc_data = d, mc_stopped = False, mc_disk = disk,
       mc_pending = zero_extent, mc_pending_storage = zero_storage, mc_err = err \<rparr>"

definition grub_file_map_range_ex :: "'s map_hook \<Rightarrow> 's map_cancel
    \<Rightarrow> ('s map_context \<Rightarrow> grub_err_t \<times> 's map_context) option \<Rightarrow> 'd grub_file \<Rightarrow> grub_disk option
    \<Rightarrow> u64 \<Rightarrow> u64 \<Rightarrow> 's \<Rightarrow> err_state \<Rightarrow> grub_err_t \<times> bool \<times> 's map_context" where
  "grub_file_map_range_ex hook cancelled fs_map file disk offset len d err =
     (let fail = (\<lambda>e msg ctx. (e, False, snd (map_error e msg ctx)))
      in case grub_add offset len of
        None \<Rightarrow> fail GRUB_ERR_BAD_ARGUMENT ''invalid mapping query'' (map_context_init offset 0 disk d err)
      | Some q_end \<Rightarrow>
          if file_size file = GRUB_FILE_SIZE_UNKNOWN
          then fail GRUB_ERR_NOT_IMPLEMENTED_YET ''mapping requires known file size''
                 (map_context_init offset q_end disk d err)
          else case grub_file_map_cancelled cancelled
                      (map_context_init offset (min q_end (file_size file)) disk d err) of
            (True, c) \<Rightarrow> (GRUB_ERR_NONE, True, c)
          | (False, c) \<Rightarrow>
              if offset \<ge> mc_end c then (GRUB_ERR_NONE, False, c)
              else case fs_map of
                None \<Rightarrow> fail GRUB_ERR_NOT_IMPLEMENTED_YET ''filesystem has no metadata mapping'' c
              | Some f \<Rightarrow>
                  (case f c of
                     (e1, c1) \<Rightarrow>
                       if e1 \<noteq> GRUB_ERR_NONE then (e1, mc_stopped c1, c1)
                       else case grub_file_map_cancelled cancelled c1 of
                         (stop, c2) \<Rightarrow>
                           if \<not> stop \<and> mc_next c2 \<noteq> mc_end c2
                           then (case map_error GRUB_ERR_BAD_FS ''incomplete file mapping'' c2 of
                                   (e3, c3) \<Rightarrow> (e3, mc_stopped c3, c3))
                           else (let c3 = grub_file_map_flush hook cancelled c2
                                 in (GRUB_ERR_NONE, mc_stopped c3, c3))))"

definition grub_file_map_range :: "'s map_hook
    \<Rightarrow> ('s map_context \<Rightarrow> grub_err_t \<times> 's map_context) option \<Rightarrow> 'd grub_file \<Rightarrow> grub_disk option
    \<Rightarrow> u64 \<Rightarrow> u64 \<Rightarrow> 's \<Rightarrow> err_state \<Rightarrow> grub_err_t \<times> bool \<times> 's map_context" where
  "grub_file_map_range hook = grub_file_map_range_ex hook None"

end
