(* ===== verification/File_Map_Correct.thy ===== *)
theory File_Map_Correct
  imports File_Map
begin

text \<open>
  Correctness of the metadata mapping. The caller is a log: its hook records every extent it is
  given and its answers (stop, cancel) are arbitrary functions of what it has seen. Whatever a
  driver emits, the extents in the log follow each other without gap or overlap from the start of
  the query, and every byte a plain extent maps lies where some emitted extent put it.
\<close>

definition log_hook :: "(map_extent \<Rightarrow> map_extent list \<Rightarrow> bool) \<Rightarrow> map_extent list map_hook" where
  "log_hook stop e l = (stop e l, l @ [e])"

definition log_cancel :: "(map_extent list \<Rightarrow> bool) option \<Rightarrow> map_extent list map_cancel" where
  "log_cancel c = map_option (\<lambda>f l. (f l, l)) c"

fun tiles :: "nat \<Rightarrow> map_extent list \<Rightarrow> nat \<Rightarrow> bool" where
  "tiles a [] b \<longleftrightarrow> a = b"
| "tiles a (e # es) b \<longleftrightarrow> unat (me_logical_offset e) = a \<and> 0 < unat (me_logical_length e) \<and>
     tiles (a + unat (me_logical_length e)) es b"

text \<open>
  What an extent says of its bytes: position in the file, flags, and for plain extents the
  address space and address the byte is stored at.
\<close>

type_synonym byte_map = "(nat \<times> u32 \<times> (u32 \<times> nat) option) set"

definition byte_place :: "map_extent \<Rightarrow> nat \<Rightarrow> (u32 \<times> nat) option" where
  "byte_place e k =
     (if is_plain e
      then case me_storage e of [] \<Rightarrow> None | s # _ \<Rightarrow> Some (ms_address_space s, unat (ms_offset s) + k)
      else None)"

definition extent_bytes :: "map_extent \<Rightarrow> byte_map" where
  "extent_bytes e =
     {(unat (me_logical_offset e) + k, me_flags e, byte_place e k) | k. k < unat (me_logical_length e)}"

definition faithful :: "byte_map \<Rightarrow> map_extent \<Rightarrow> bool" where
  "faithful D e \<longleftrightarrow> (is_plain e \<longrightarrow>
     (\<exists>s. me_storage e = [s] \<and> me_storage_count e = 1 \<and> ms_length s = me_logical_length e \<and>
        unat (ms_offset s) + unat (ms_length s) < 2 ^ 64)) \<and> extent_bytes e \<subseteq> D"

definition pend :: "'s map_context \<Rightarrow> map_extent list" where
  "pend ctx = (if me_logical_length (mc_pending ctx) = 0 then [] else [mc_pending ctx])"

definition map_inv :: "byte_map \<Rightarrow> map_extent list map_context \<Rightarrow> bool" where
  "map_inv D ctx \<longleftrightarrow>
     (\<exists>m \<le> unat (mc_next ctx). tiles (unat (mc_start ctx)) (mc_data ctx) m) \<and>
     (mc_stopped ctx \<or> tiles (unat (mc_start ctx)) (mc_data ctx @ pend ctx) (unat (mc_next ctx))) \<and>
     unat (mc_start ctx) \<le> unat (mc_next ctx) \<and> unat (mc_next ctx) \<le> unat (mc_end ctx) \<and>
     unat (mc_start ctx) < unat (mc_end ctx) \<and>
     (\<forall>e \<in> set (mc_data ctx @ pend ctx). faithful D e) \<and>
     (\<forall>e \<in> set (pend ctx). is_plain e \<longrightarrow> me_storage e = [mc_pending_storage ctx])"

lemma tiles_append: "tiles a (es @ fs) b \<longleftrightarrow> (\<exists>m. tiles a es m \<and> tiles m fs b)"
  by (induction es arbitrary: a) auto

lemma tiles_mono: "tiles a es b \<Longrightarrow> a \<le> b"
  by (induction es arbitrary: a) force+

lemma faithful_mono: "faithful D e \<Longrightarrow> D \<subseteq> D' \<Longrightarrow> faithful D' e"
  by (auto simp: faithful_def)

lemma map_inv_mono: "map_inv D ctx \<Longrightarrow> D \<subseteq> D' \<Longrightarrow> map_inv D' ctx"
  by (auto simp: map_inv_def intro: faithful_mono)

lemma cancelled_log:
  assumes "grub_file_map_cancelled (log_cancel c) ctx = (b, ctx')"
  shows "ctx' = ctx\<lparr> mc_stopped := b \<rparr>" and "mc_stopped ctx \<Longrightarrow> b"
  using assms by (auto simp: grub_file_map_cancelled_def log_cancel_def split: option.splits if_splits)

lemma pend_simps [simp]:
  "pend (ctx\<lparr> mc_stopped := b \<rparr>) = pend ctx" "pend (ctx\<lparr> mc_data := d \<rparr>) = pend ctx"
  "pend (ctx\<lparr> mc_next := x \<rparr>) = pend ctx" "pend (ctx\<lparr> mc_err := er \<rparr>) = pend ctx"
  by (simp_all add: pend_def)

lemma map_inv_stop: "map_inv D ctx \<Longrightarrow> b \<or> \<not> mc_stopped ctx \<Longrightarrow> map_inv D (ctx\<lparr> mc_stopped := b \<rparr>)"
  by (auto simp: map_inv_def)

lemma map_inv_err [simp]: "map_inv D (ctx\<lparr> mc_err := er \<rparr>) = map_inv D ctx"
  by (simp add: map_inv_def)

lemma cancelled_inv:
  assumes "map_inv D ctx" and "grub_file_map_cancelled (log_cancel c) ctx = (b, ctx')"
  shows "map_inv D ctx'"
  using cancelled_log [OF assms(2)] map_inv_stop [OF assms(1)] by auto

text \<open>Flushing empties the pending extent into the log, unless the query has been stopped.\<close>

definition flushed :: "'s map_context \<Rightarrow> bool" where
  "flushed ctx \<longleftrightarrow> me_logical_length (mc_pending ctx) = 0"

lemma flush_inv:
  fixes f c
  assumes inv: "map_inv D ctx"
  defines "ctx' \<equiv> grub_file_map_flush (log_hook f) (log_cancel c) ctx"
  shows "map_inv D ctx'" and "flushed ctx'" and "mc_next ctx' = mc_next ctx" and "mc_end ctx' = mc_end ctx"
    and "mc_start ctx' = mc_start ctx" and "mc_err ctx' = mc_err ctx" and "mc_stopped ctx \<Longrightarrow> mc_stopped ctx'"
proof -
  obtain b c1 where can: "grub_file_map_cancelled (log_cancel c) ctx = (b, c1)" by fastforce
  note log = cancelled_log [OF can]
  have eq: "ctx' = (if me_logical_length (mc_pending ctx) = 0 then ctx
      else if b then ctx\<lparr> mc_stopped := True, mc_pending := (mc_pending ctx)\<lparr> me_logical_length := 0 \<rparr> \<rparr>
      else ctx\<lparr> mc_stopped := f (mc_pending ctx) (mc_data ctx), mc_data := mc_data ctx @ [mc_pending ctx],
                mc_pending := (mc_pending ctx)\<lparr> me_logical_length := 0 \<rparr> \<rparr>)"
    unfolding ctx'_def grub_file_map_flush_def can
    by (auto simp: log(1) call_map_hook_def log_hook_def Let_def)
  show "map_inv D ctx'"
    using inv log(2) unfolding eq map_inv_def
    by (auto simp: pend_def tiles_append split: if_splits)
  show "flushed ctx'" "mc_next ctx' = mc_next ctx" "mc_end ctx' = mc_end ctx"
    "mc_start ctx' = mc_start ctx" "mc_err ctx' = mc_err ctx" "mc_stopped ctx \<Longrightarrow> mc_stopped ctx'"
    using log(2) by (auto simp: eq flushed_def)
qed

lemma cancelled_next:
  "grub_file_map_cancelled c (ctx\<lparr> mc_next := x \<rparr>) =
     (case grub_file_map_cancelled c ctx of (b, ctx') \<Rightarrow> (b, ctx'\<lparr> mc_next := x \<rparr>))"
  by (auto simp: grub_file_map_cancelled_def split: option.splits prod.splits)

lemma call_hook_next: "call_map_hook h e (ctx\<lparr> mc_next := x \<rparr>) = (call_map_hook h e ctx)\<lparr> mc_next := x \<rparr>"
  by (simp add: call_map_hook_def split: prod.splits)

lemma cancelled_pending:
  "grub_file_map_cancelled c ctx = (b, ctx') \<Longrightarrow> mc_pending ctx' = mc_pending ctx"
  by (auto simp: grub_file_map_cancelled_def split: option.splits prod.splits if_splits)

lemma flush_next:
  "grub_file_map_flush h c (ctx\<lparr> mc_next := x \<rparr>) = (grub_file_map_flush h c ctx)\<lparr> mc_next := x \<rparr>"
  by (auto simp: grub_file_map_flush_def Let_def cancelled_next call_hook_next split: prod.splits bool.splits)

subsection \<open>Clipping\<close>

lemma unat_max: "unat (max a b :: u64) = max (unat a) (unat b)"
  by (simp add: max_def word_le_nat_alt)

lemma unat_min: "unat (min a b :: u64) = min (unat a) (unat b)"
  by (simp add: min_def word_le_nat_alt)

lemma clip_extent_ok:
  assumes clip: "clip_extent left right input = Inr (e, storage)"
    and l: "unat (me_logical_offset input) \<le> unat left" "unat left < unat right"
    and r: "unat right \<le> unat (me_logical_offset input) + unat (me_logical_length input)"
  shows "me_logical_offset e = left" and "unat (me_logical_length e) = unat right - unat left"
    and "faithful (extent_bytes input) e" and "is_plain e \<longrightarrow> me_storage e = [storage]"
    and "me_flags e = me_flags input" and "me_storage_count e = me_storage_count input"
proof -
  have len: "unat (right - left) = unat right - unat left"
    using l(2) by (intro unat_minus_exact) (simp add: word_le_nat_alt)
  have delta: "unat (left - me_logical_offset input) = unat left - unat (me_logical_offset input)"
    using l(1) by (intro unat_minus_exact) (simp add: word_le_nat_alt)
  have basic: "me_logical_offset e = left \<and> me_logical_length e = right - left \<and> me_flags e = me_flags input \<and>
      me_storage_count e = me_storage_count input \<and> (is_plain e \<longrightarrow> me_storage e = [storage])"
    using clip by (auto simp: clip_extent_def Let_def is_plain_def split: if_splits list.splits option.splits)
  then show "me_logical_offset e = left" "unat (me_logical_length e) = unat right - unat left"
    "is_plain e \<longrightarrow> me_storage e = [storage]" "me_flags e = me_flags input"
    "me_storage_count e = me_storage_count input" by (simp_all add: len)
  have pl: "is_plain e = is_plain input" using basic by (simp add: is_plain_def)
  have place: "byte_place e k = byte_place input (unat left - unat (me_logical_offset input) + k) \<and>
      (is_plain e \<longrightarrow> (\<exists>s. me_storage e = [s] \<and> me_storage_count e = 1 \<and> ms_length s = me_logical_length e \<and>
        unat (ms_offset s) + unat (ms_length s) < 2 ^ 64))" for k
  proof (cases "is_plain input")
    case False
    then show ?thesis using pl by (simp add: byte_place_def)
  next
    case True
    then obtain s rest off where s: "me_storage input = s # rest" "me_storage_count input = 1"
      "grub_add (ms_offset s) (left - me_logical_offset input) = Some off"
      "grub_add off (right - left) \<noteq> None"
      "storage = s\<lparr> ms_offset := off, ms_length := right - left \<rparr>"
      using clip by (auto simp: clip_extent_def Let_def is_plain_def split: if_splits list.splits option.splits)
    have "unat off = unat (ms_offset s) + (unat left - unat (me_logical_offset input))"
      using s(3) by (simp add: grub_add_Some delta)
    moreover have "unat off + unat (right - left) < 2 ^ 64" using s(4) by (auto simp: grub_add_def split: if_splits)
    ultimately show ?thesis using basic pl True s by (simp add: byte_place_def)
  qed
  have "extent_bytes e \<subseteq> extent_bytes input"
  proof
    fix x assume "x \<in> extent_bytes e"
    then obtain k where k: "k < unat right - unat left" and x: "x = (unat left + k, me_flags input, byte_place e k)"
      using basic by (auto simp: extent_bytes_def len)
    let ?j = "unat left - unat (me_logical_offset input) + k"
    have "x = (unat (me_logical_offset input) + ?j, me_flags input, byte_place input ?j)"
      using x l(1) place [of k] by simp
    moreover have "?j < unat (me_logical_length input)" using k l r by linarith
    ultimately show "x \<in> extent_bytes input" by (auto simp: extent_bytes_def)
  qed
  then show "faithful (extent_bytes input) e" using place by (simp add: faithful_def)
qed

subsection \<open>Delivery\<close>

lemma tiles_snoc:
  "tiles a es (unat (me_logical_offset e)) \<Longrightarrow> 0 < unat (me_logical_length e) \<Longrightarrow>
     b = unat (me_logical_offset e) + unat (me_logical_length e) \<Longrightarrow> tiles a (es @ [e]) b"
  by (auto simp: tiles_append)

lemma map_inv_prefix:
  "map_inv D ctx \<Longrightarrow> unat (mc_next ctx) \<le> n \<Longrightarrow> \<exists>m \<le> n. tiles (unat (mc_start ctx)) (mc_data ctx) m"
  unfolding map_inv_def by (meson le_trans)

lemma start_pending_inv:
  assumes inv: "map_inv D ctx" and fl: "flushed ctx" and e: "faithful D e"
    and st: "is_plain e \<longrightarrow> me_storage e = [storage]"
    and nx: "mc_next ctx = me_logical_offset e" and pos: "0 < unat (me_logical_length e)"
    and room: "unat (me_logical_offset e) + unat (me_logical_length e) \<le> unat (mc_end ctx)"
    and x: "unat x = unat (me_logical_offset e) + unat (me_logical_length e)"
  shows "map_inv D (start_pending e storage (ctx\<lparr> mc_next := x \<rparr>))"
proof -
  define e' where "e' = mc_pending (start_pending e storage (ctx\<lparr> mc_next := x \<rparr>))"
  have e': "me_logical_offset e' = me_logical_offset e" "me_logical_length e' = me_logical_length e"
    "is_plain e' = is_plain e" "is_plain e \<Longrightarrow> e' = e"
    using st e by (auto simp: e'_def start_pending_def is_plain_def faithful_def)
  have "me_flags e' = me_flags e" by (simp add: e'_def start_pending_def)
  then have "extent_bytes e' = extent_bytes e"
    using e' by (cases "is_plain e") (auto simp: extent_bytes_def byte_place_def)
  then have f': "faithful D e'" using e e'(3,4) by (cases "is_plain e") (auto simp: faithful_def)
  have pn: "pend (start_pending e storage (ctx\<lparr> mc_next := x \<rparr>)) = [e']"
    using e'(2) pos by (auto simp: pend_def e'_def [symmetric] unat_gt_0)
  have ps: "is_plain e' \<longrightarrow> me_storage e' = [mc_pending_storage (start_pending e storage (ctx\<lparr> mc_next := x \<rparr>))]"
    using e st e'(3) by (auto simp: start_pending_def e'_def faithful_def)
  have same: "mc_data (start_pending e storage (ctx\<lparr> mc_next := x \<rparr>)) = mc_data ctx"
    "mc_stopped (start_pending e storage (ctx\<lparr> mc_next := x \<rparr>)) = mc_stopped ctx"
    "mc_start (start_pending e storage (ctx\<lparr> mc_next := x \<rparr>)) = mc_start ctx"
    "mc_end (start_pending e storage (ctx\<lparr> mc_next := x \<rparr>)) = mc_end ctx"
    "mc_next (start_pending e storage (ctx\<lparr> mc_next := x \<rparr>)) = x"
    by (simp_all add: start_pending_def)
  have p0: "pend ctx = []" using fl by (simp add: pend_def flushed_def)
  have ex: "\<exists>m \<le> unat x. tiles (unat (mc_start ctx)) (mc_data ctx) m"
    using nx x by (intro map_inv_prefix [OF inv]) simp
  show ?thesis
    using inv p0 pos room x nx f' ps e' ex
    unfolding map_inv_def pn same
    by (auto intro!: tiles_snoc)
qed

lemma map_hook_inv:
  assumes inv: "map_inv D ctx" and fl: "flushed ctx" and e: "faithful D e" and go: "\<not> mc_stopped ctx"
    and nx: "mc_next ctx = me_logical_offset e" and pos: "0 < unat (me_logical_length e)"
    and room: "unat (me_logical_offset e) + unat (me_logical_length e) \<le> unat (mc_end ctx)"
    and x: "unat x = unat (me_logical_offset e) + unat (me_logical_length e)"
  shows "map_inv D (call_map_hook (log_hook f) e (ctx\<lparr> mc_next := x \<rparr>))"
proof -
  have p0: "pend ctx = []" using fl by (simp add: pend_def flushed_def)
  have t: "tiles (unat (mc_start ctx)) (mc_data ctx @ [e]) (unat x)"
    using inv go p0 nx pos x by (intro tiles_snoc) (auto simp: map_inv_def)
  then show ?thesis
    using inv p0 e room x tiles_mono [OF t]
    by (auto simp: map_inv_def call_map_hook_def log_hook_def)
qed

lemma coalescable_plain: "coalescable e \<Longrightarrow> is_plain e \<longleftrightarrow> me_flags e = GRUB_FILE_MAP_DIRECT"
  by (auto simp: coalescable_def is_plain_def flag_set_def)

lemma grow_faithful:
  assumes p: "faithful D p" and e: "faithful D e" and fl: "me_flags q = me_flags p" "me_flags e = me_flags p"
    and lo: "me_logical_offset q = me_logical_offset p"
      "unat (me_logical_offset e) = unat (me_logical_offset p) + unat (me_logical_length p)"
    and len: "unat (me_logical_length q) = unat (me_logical_length p) + unat (me_logical_length e)"
    and place: "\<And>k. byte_place q k = byte_place p k"
      "\<And>k. byte_place q (unat (me_logical_length p) + k) = byte_place e k"
    and sto: "is_plain q \<longrightarrow> (\<exists>s. me_storage q = [s] \<and> me_storage_count q = 1 \<and> ms_length s = me_logical_length q \<and>
        unat (ms_offset s) + unat (ms_length s) < 2 ^ 64)"
  shows "faithful D q"
proof -
  have "extent_bytes q \<subseteq> extent_bytes p \<union> extent_bytes e"
  proof
    fix y assume "y \<in> extent_bytes q"
    then obtain k where k: "k < unat (me_logical_length q)"
      and y: "y = (unat (me_logical_offset p) + k, me_flags p, byte_place q k)"
      by (auto simp: extent_bytes_def lo fl)
    show "y \<in> extent_bytes p \<union> extent_bytes e"
    proof (cases "k < unat (me_logical_length p)")
      case True
      then show ?thesis using y place(1) by (auto simp: extent_bytes_def)
    next
      case False
      then obtain j where j: "k = unat (me_logical_length p) + j" by (metis le_add_diff_inverse not_less)
      then have "y = (unat (me_logical_offset e) + j, me_flags e, byte_place e j)" "j < unat (me_logical_length e)"
        using y lo place(2) fl(2) k len by simp_all
      then show ?thesis by (auto simp: extent_bytes_def)
    qed
  qed
  then show ?thesis using p e sto by (auto simp: faithful_def)
qed

lemma grow_pending_inv:
  assumes inv: "map_inv D ctx" and go: "\<not> mc_stopped ctx" and e: "faithful D e"
    and join: "joins_pending e storage ctx"
    and co: "coalescable e" and st: "is_plain e \<longrightarrow> me_storage e = [storage]"
    and nx: "mc_next ctx = me_logical_offset e" and pos: "0 < unat (me_logical_length e)"
    and room: "unat (me_logical_offset e) + unat (me_logical_length e) \<le> unat (mc_end ctx)"
    and x: "unat x = unat (me_logical_offset e) + unat (me_logical_length e)"
  shows "map_inv D (grow_pending e (ctx\<lparr> mc_next := x \<rparr>))" (is "map_inv D ?ctx")
proof -
  let ?p = "mc_pending ctx" and ?ps = "mc_pending_storage ctx"
  let ?n = "me_logical_length ?p + me_logical_length e"
  have pd: "pend ctx = [?p]" "me_flags ?p = me_flags e"
    using join by (simp_all add: joins_pending_def pend_def)
  obtain m where m: "tiles (unat (mc_start ctx)) (mc_data ctx) m" "m = unat (me_logical_offset ?p)"
      "m + unat (me_logical_length ?p) = unat (me_logical_offset e)"
    using inv go pd nx by (auto simp: map_inv_def tiles_append)
  have n: "unat ?n = unat (me_logical_length ?p) + unat (me_logical_length e)"
    using room m(3) unsigned_less [of "mc_end ctx", where 'a = nat] by (intro unat_plus_exact) simp
  have pl: "is_plain ?p = is_plain e" using pd(2) by (simp add: is_plain_def)
  have fp: "faithful D ?p" and psto: "is_plain ?p \<Longrightarrow> me_storage ?p = [?ps]"
    using inv pd by (auto simp: map_inv_def)
  let ?q = "mc_pending ?ctx"
  have fields: "me_logical_length ?q = ?n" "me_logical_offset ?q = me_logical_offset ?p" "me_flags ?q = me_flags ?p"
    "me_storage_count ?q = me_storage_count ?p"
    by (simp_all add: grow_pending_def Let_def)
  have plq: "is_plain ?q = is_plain e" using fields(3) pl by (simp add: is_plain_def)
  have plain: "me_storage ?q = [mc_pending_storage ?ctx] \<and> mc_pending_storage ?ctx = ?ps\<lparr> ms_length := ?n \<rparr> \<and>
      me_storage ?p = [?ps] \<and> me_storage_count ?p = 1 \<and> me_storage e = [storage] \<and>
      ms_address_space ?ps = ms_address_space storage \<and>
      unat (ms_offset storage) = unat (ms_offset ?ps) + unat (me_logical_length ?p) \<and>
      unat (ms_offset ?ps) + unat ?n < 2 ^ 64" if "is_plain e"
  proof -
    have f: "me_storage ?p = [?ps]" "me_storage_count ?p = 1" "ms_length ?ps = me_logical_length ?p"
        "unat (ms_offset ?ps) + unat (ms_length ?ps) < 2 ^ 64"
      using fp psto pl that by (auto simp: faithful_def)
    have g: "me_storage e = [storage]" "me_storage_count e = 1"
        "unat (ms_offset storage) + unat (me_logical_length e) < 2 ^ 64"
      using e st that by (auto simp: faithful_def)
    have h: "ms_address_space ?ps = ms_address_space storage" "ms_offset ?ps + ms_length ?ps = ms_offset storage"
      using join g(2) by (auto simp: joins_pending_def)
    have "unat (ms_offset storage) = unat (ms_offset ?ps) + unat (me_logical_length ?p)"
      using unat_plus_exact [of "ms_offset ?ps" "ms_length ?ps"] f(3,4) by (simp flip: h(2))
    then show ?thesis using f g h n by (simp add: grow_pending_def Let_def)
  qed
  have qs: "is_plain ?q \<longrightarrow> me_storage ?q = [mc_pending_storage ?ctx]" using plain plq by simp
  have q: "faithful D ?q"
  proof (rule grow_faithful [OF fp e])
    show "byte_place ?q k = byte_place ?p k" for k
      using plain plq pl by (cases "is_plain e") (simp_all add: byte_place_def)
    show "byte_place ?q (unat (me_logical_length ?p) + k) = byte_place e k" for k
      using plain plq pl by (cases "is_plain e") (simp_all add: byte_place_def)
    show "is_plain ?q \<longrightarrow> (\<exists>s. me_storage ?q = [s] \<and> me_storage_count ?q = 1 \<and> ms_length s = me_logical_length ?q \<and>
        unat (ms_offset s) + unat (ms_length s) < 2 ^ 64)"
      using plain plq fields by auto
  qed (use fields pd(2) m n in simp_all)
  have "me_logical_length (mc_pending ?ctx) = ?n" "me_logical_offset (mc_pending ?ctx) = me_logical_offset ?p"
    by (simp_all add: grow_pending_def Let_def)
  moreover have same: "mc_data ?ctx = mc_data ctx" "mc_stopped ?ctx = mc_stopped ctx" "mc_start ?ctx = mc_start ctx"
    "mc_end ?ctx = mc_end ctx" "mc_next ?ctx = x" by (simp_all add: grow_pending_def Let_def)
  moreover have "?n \<noteq> 0" using n pos by auto
  ultimately have pd': "pend ?ctx = [mc_pending ?ctx]"
    and t: "tiles (unat (mc_start ctx)) (mc_data ctx @ [mc_pending ?ctx]) (unat x)"
    using m n pos x by (auto simp: pend_def tiles_append)
  have ex: "\<exists>m \<le> unat x. tiles (unat (mc_start ctx)) (mc_data ctx) m"
    using nx x by (intro map_inv_prefix [OF inv]) simp
  show ?thesis
    using inv pd q qs t ex room x tiles_mono [OF t] unfolding map_inv_def pd' same by auto
qed

lemma deliver_inv:
  assumes inv: "map_inv D ctx" and e: "faithful D e" and go: "\<not> mc_stopped ctx"
    and st: "is_plain e \<longrightarrow> me_storage e = [storage]"
    and nx: "mc_next ctx = me_logical_offset e" and pos: "0 < unat (me_logical_length e)"
    and room: "unat (me_logical_offset e) + unat (me_logical_length e) \<le> unat (mc_end ctx)"
  shows "map_inv D (deliver_extent (log_hook f) (log_cancel c) e storage
           (ctx\<lparr> mc_next := me_logical_offset e + me_logical_length e \<rparr>))"
proof -
  let ?x = "me_logical_offset e + me_logical_length e"
  have x: "unat ?x = unat (me_logical_offset e) + unat (me_logical_length e)"
    using room unsigned_less [of "mc_end ctx", where 'a = nat] by (intro unat_plus_exact) simp
  let ?fl = "grub_file_map_flush (log_hook f) (log_cancel c) ctx"
  note fl = flush_inv [OF inv, of f c]
  have nx': "mc_next ?fl = me_logical_offset e" and room': "unat (me_logical_offset e) + unat (me_logical_length e) \<le> unat (mc_end ?fl)"
    using fl nx room by simp_all
  show ?thesis
  proof (cases "coalescable e")
    case True
    show ?thesis
    proof (cases "joins_pending e storage ctx")
      case j: True
      then have "joins_pending e storage (ctx\<lparr> mc_next := ?x \<rparr>)" by (simp add: joins_pending_def)
      then show ?thesis
        using grow_pending_inv [OF inv go e j True st nx pos room x] True by (simp add: deliver_extent_def)
    next
      case j: False
      then have "\<not> joins_pending e storage (ctx\<lparr> mc_next := ?x \<rparr>)" by (simp add: joins_pending_def)
      then show ?thesis
        using start_pending_inv [OF fl(1,2) e st nx' pos room' x] True
        by (simp add: deliver_extent_def flush_next)
    qed
  next
    case False
    obtain b ctx1 where can: "grub_file_map_cancelled (log_cancel c) ?fl = (b, ctx1)" by fastforce
    note lg = cancelled_log [OF can]
    have inv1: "map_inv D ctx1" by (rule cancelled_inv [OF fl(1) can])
    have eq: "deliver_extent (log_hook f) (log_cancel c) e storage (ctx\<lparr> mc_next := ?x \<rparr>) =
        (if b then ctx1\<lparr> mc_next := ?x \<rparr> else call_map_hook (log_hook f) e (ctx1\<lparr> mc_next := ?x \<rparr>))"
      using False by (simp add: deliver_extent_def flush_next cancelled_next can)
    show ?thesis
    proof (cases b)
      case True
      have "\<exists>m \<le> unat ?x. tiles (unat (mc_start ctx1)) (mc_data ctx1) m"
        using nx' x lg(1) by (intro map_inv_prefix [OF inv1]) simp
      then show ?thesis using inv1 room' nx' x lg(1) True by (auto simp: eq map_inv_def)
    next
      case False
      have "flushed ctx1" using fl(2) lg(1) by (simp add: flushed_def)
      then show ?thesis
        using map_hook_inv [OF inv1 _ e _ _ pos _ x, of f] False lg(1) nx' room' by (simp add: eq)
    qed
  qed
qed

subsection \<open>Emitting\<close>

lemma map_error_log: "map_error e msg ctx = (r, ctx') \<Longrightarrow> \<exists>er. ctx' = ctx\<lparr> mc_err := er \<rparr>"
  by (auto simp: map_error_def)

lemma check_storages_log:
  assumes "check_storages (log_cancel c) ss ctx = (r, ctx')"
  shows "\<exists>b er. ctx' = ctx\<lparr> mc_stopped := b, mc_err := er \<rparr> \<and> (mc_stopped ctx \<longrightarrow> b) \<and>
     (r = Inr () \<longrightarrow> \<not> mc_stopped ctx \<longrightarrow> \<not> b)"
  using assms
proof (induction ss arbitrary: ctx)
  case Nil
  then show ?case by (auto intro!: exI [of _ "mc_stopped ctx"] exI [of _ "mc_err ctx"])
next
  case (Cons s ss)
  obtain b c1 where can: "grub_file_map_cancelled (log_cancel c) ctx = (b, c1)" by fastforce
  note lg = cancelled_log [OF can]
  have err: "\<exists>b er. c2 = ctx\<lparr> mc_stopped := b, mc_err := er \<rparr> \<and> (mc_stopped ctx \<longrightarrow> b)"
    if "c2 = c1\<lparr> mc_err := er \<rparr>" for c2 er using that lg by auto
  show ?case
  proof (cases b)
    case True
    then show ?thesis using Cons.prems can lg
      by (auto intro!: exI [of _ True] exI [of _ "mc_err ctx"])
  next
    case False
    then have c1: "c1 = ctx\<lparr> mc_stopped := False \<rparr>" "\<not> mc_stopped ctx" using lg by auto
    show ?thesis
    proof (cases "check_storages (log_cancel c) ss c1 = (r, ctx')")
      case True
      from Cons.IH [OF this] show ?thesis using c1 by auto
    next
      case nrec: False
      then have "\<exists>e msg. (Inl e, snd (map_error e msg c1)) = (r, ctx')"
        using Cons.prems can False
        by (auto simp: map_error_def split: option.splits if_splits prod.splits)
      then show ?thesis using c1 by (auto simp: map_error_def)
    qed
  qed
qed

lemma place_extent_inv:
  assumes inv: "map_inv D ctx" and go: "\<not> mc_stopped ctx"
    and e_end: "grub_add (me_logical_offset input) (me_logical_length input) = Some e_end"
    and len: "me_logical_length input \<noteq> 0"
    and meets: "\<not> e_end \<le> mc_start ctx" "\<not> me_logical_offset input \<ge> mc_end ctx"
    and run: "place_extent (log_hook f) (log_cancel c) input e_end ctx = (r, ctx')"
  shows "map_inv (D \<union> extent_bytes input) ctx'"
proof -
  let ?left = "max (me_logical_offset input) (mc_start ctx)" and ?right = "min e_end (mc_end ctx)"
  have inv1: "map_inv (D \<union> extent_bytes input) ctx" using inv by (rule map_inv_mono) simp
  have fail: "map_inv (D \<union> extent_bytes input) ctx'" if "map_error er msg ctx = (r, ctx')" for er msg
    using inv1 map_error_log [OF that] by auto
  show ?thesis
  proof (cases "decoded_range_bad input \<or> ?left \<noteq> mc_next ctx \<or> (\<exists>msg. clip_extent ?left ?right input = Inl msg)")
    case True
    then show ?thesis
      using run fail by (auto simp: place_extent_def Let_def split: if_splits)
  next
    case False
    then obtain e storage where cl: "clip_extent ?left ?right input = Inr (e, storage)"
      by (metis old.prod.exhaust sum.exhaust)
    have ee: "unat e_end = unat (me_logical_offset input) + unat (me_logical_length input)"
      using e_end by (simp add: grub_add_Some)
    have nx: "?left = mc_next ctx" using False by simp
    have "0 < unat (me_logical_length input)" using len by (simp add: unat_gt_0)
    then have lt: "unat ?left < unat ?right"
      using meets inv ee by (auto simp: unat_max unat_min word_le_nat_alt map_inv_def)
    have ll: "unat (me_logical_offset input) \<le> unat ?left" by (simp add: unat_max)
    have rr: "unat ?right \<le> unat (me_logical_offset input) + unat (me_logical_length input)"
      using ee by (simp add: unat_min)
    note ok = clip_extent_ok [OF cl ll lt rr]
    have "faithful (D \<union> extent_bytes input) e" using ok(3) by (rule faithful_mono) simp
    note dl = deliver_inv [OF inv1 this go ok(4), of f c]
    have "0 < unat (me_logical_length e)" "unat (me_logical_offset e) + unat (me_logical_length e) \<le> unat (mc_end ctx)"
      using ok(1,2) lt by (auto simp: unat_min)
    then show ?thesis
      using dl run False cl ok(1) nx by (auto simp: place_extent_def Let_def)
  qed
qed

lemma emit_inv:
  assumes inv: "map_inv D ctx" and run: "grub_file_map_emit (log_hook f) (log_cancel c) input ctx = (r, ctx')"
  shows "map_inv (D \<union> extent_bytes input) ctx'"
proof -
  obtain b c1 where can: "grub_file_map_cancelled (log_cancel c) ctx = (b, c1)" by fastforce
  note lg = cancelled_log [OF can]
  have inv1: "map_inv (D \<union> extent_bytes input) c1"
    by (rule map_inv_mono [OF cancelled_inv [OF inv can]]) simp
  have fail: "map_inv (D \<union> extent_bytes input) ctx'" if "map_error er msg c1 = (r, ctx')" for er msg
    using inv1 map_error_log [OF that] by auto
  show ?thesis
  proof (cases "b \<or> grub_add (me_logical_offset input) (me_logical_length input) = None")
    case True
    then show ?thesis using run can inv1 fail by (cases b) (auto simp: grub_file_map_emit_def)
  next
    case False
    then obtain e_end where ee: "grub_add (me_logical_offset input) (me_logical_length input) = Some e_end" and nb: "\<not> b"
      by auto
    obtain q c2 where cs: "check_storages (log_cancel c) (take (me_storage_count input) (me_storage input)) c1 = (q, c2)"
      by fastforce
    obtain b2 er where c2: "c2 = c1\<lparr> mc_stopped := b2, mc_err := er \<rparr>" "mc_stopped c1 \<longrightarrow> b2"
        "q = Inr () \<longrightarrow> \<not> mc_stopped c1 \<longrightarrow> \<not> b2"
      using check_storages_log [OF cs] by blast
    have inv2: "map_inv (D \<union> extent_bytes input) c2" using map_inv_stop [OF inv1, of b2] c2(1,2) by auto
    show ?thesis
    proof (cases "me_logical_length input = 0 \<or> e_end \<le> mc_start c1 \<or> me_logical_offset input \<ge> mc_end c1 \<or>
        me_storage_count input \<noteq> 0 \<and> me_storage input = [] \<or> q \<noteq> Inr ()")
      case True
      then show ?thesis
        using run can nb ee inv1 inv2 fail cs
        by (auto simp: grub_file_map_emit_def split: if_splits sum.splits)
    next
      case ok: False
      then have "place_extent (log_hook f) (log_cancel c) input e_end c2 = (r, ctx')"
        using run can nb ee cs by (auto simp: grub_file_map_emit_def split: if_splits)
      moreover have "\<not> mc_stopped c2" using c2 ok lg nb by simp
      ultimately show ?thesis
        using place_extent_inv [OF inv2 _ ee] ok c2(1) by (auto simp: Un_assoc)
    qed
  qed
qed

subsection \<open>Drivers and queries\<close>

text \<open>
  What a driver's \<open>fs_map_range\<close> does to the context: emit extents (the list), poll for
  cancellation, raise errors.
\<close>

inductive map_run :: "'s map_hook \<Rightarrow> 's map_cancel \<Rightarrow> 's map_context \<Rightarrow> map_extent list \<Rightarrow> 's map_context \<Rightarrow> bool"
  for hook cancelled where
  run_done: "map_run hook cancelled ctx [] ctx"
| run_emit: "grub_file_map_emit hook cancelled e ctx = (r, ctx1) \<Longrightarrow> map_run hook cancelled ctx1 es ctx2 \<Longrightarrow>
    map_run hook cancelled ctx (e # es) ctx2"
| run_poll: "grub_file_map_cancelled cancelled ctx = (b, ctx1) \<Longrightarrow> map_run hook cancelled ctx1 es ctx2 \<Longrightarrow>
    map_run hook cancelled ctx es ctx2"
| run_error: "map_run hook cancelled (ctx\<lparr> mc_err := er \<rparr>) es ctx2 \<Longrightarrow> map_run hook cancelled ctx es ctx2"

lemma emit_frame:
  assumes "grub_file_map_emit (log_hook f) (log_cancel c) input ctx = (r, ctx')"
  shows "mc_start ctx' = mc_start ctx \<and> mc_end ctx' = mc_end ctx"
proof -
  have can: "mc_start ctx2 = mc_start ctx1 \<and> mc_end ctx2 = mc_end ctx1"
    if "grub_file_map_cancelled (log_cancel c) ctx1 = (b, ctx2)" for b and ctx1 ctx2 :: "map_extent list map_context"
    using cancelled_log [OF that] by simp
  have fl: "mc_start (grub_file_map_flush (log_hook f) (log_cancel c) ctx1) = mc_start ctx1 \<and>
      mc_end (grub_file_map_flush (log_hook f) (log_cancel c) ctx1) = mc_end ctx1" for ctx1
    by (auto simp: grub_file_map_flush_def Let_def call_map_hook_def log_hook_def split: prod.splits bool.splits dest: can)
  have dl: "mc_start (deliver_extent (log_hook f) (log_cancel c) e s ctx1) = mc_start ctx1 \<and>
      mc_end (deliver_extent (log_hook f) (log_cancel c) e s ctx1) = mc_end ctx1" for e s ctx1
    using fl [of ctx1]
    by (auto simp: deliver_extent_def grow_pending_def start_pending_def call_map_hook_def log_hook_def Let_def
        split: prod.splits bool.splits dest!: can)
  have cs: "mc_start ctx2 = mc_start ctx1 \<and> mc_end ctx2 = mc_end ctx1"
    if "check_storages (log_cancel c) ss ctx1 = (q, ctx2)" for ss q ctx1 ctx2
    using check_storages_log [OF that] by auto
  have pl: "mc_start ctx2 = mc_start ctx1 \<and> mc_end ctx2 = mc_end ctx1"
    if "place_extent (log_hook f) (log_cancel c) input e_end ctx1 = (q, ctx2)" for e_end q ctx1 ctx2
    using that dl by (auto simp: place_extent_def map_error_def Let_def split: if_splits sum.splits prod.splits)
  show ?thesis
    using assms
    by (auto simp: grub_file_map_emit_def map_error_def split: prod.splits bool.splits option.splits if_splits sum.splits
        dest!: can cs pl)
qed

lemma map_run_inv:
  assumes "map_run (log_hook f) (log_cancel c) ctx es ctx'" and "map_inv D ctx"
  shows "map_inv (D \<union> (\<Union>e \<in> set es. extent_bytes e)) ctx' \<and> mc_start ctx' = mc_start ctx \<and> mc_end ctx' = mc_end ctx"
  using assms
proof (induction arbitrary: D)
  case (run_done ctx)
  then show ?case by simp
next
  case (run_emit e ctx r ctx1 es ctx2)
  from run_emit.IH [OF emit_inv [OF run_emit.prems run_emit.hyps(1)]] emit_frame [OF run_emit.hyps(1)]
  show ?case by (simp add: Un_assoc)
next
  case (run_poll ctx b ctx1 es ctx2)
  from run_poll.IH [OF cancelled_inv [OF run_poll.prems run_poll.hyps(1)]] cancelled_log [OF run_poll.hyps(1)]
  show ?case by simp
next
  case (run_error ctx er es ctx2)
  then show ?case by simp
qed

lemma map_inv_init: "unat offset < unat e \<Longrightarrow> map_inv {} (map_context_init offset e disk [] err)"
  by (simp add: map_inv_def map_context_init_def pend_def zero_extent_def)

lemma map_range_complete:
  assumes driver: "\<And>ctx. \<exists>es. set es \<subseteq> E \<and> map_run (log_hook f) (log_cancel c) ctx es (snd (fs_map ctx))"
    and run: "grub_file_map_range_ex (log_hook f) (log_cancel c) (Some fs_map) file disk offset len [] err = (e, stopped, ctx)"
    and query: "unat offset < min (unat offset + unat len) (unat (file_size file))"
  shows "\<exists>m \<le> min (unat offset + unat len) (unat (file_size file)). tiles (unat offset) (mc_data ctx) m"
    and "\<forall>x \<in> set (mc_data ctx). extent_bytes x \<subseteq> (\<Union>y \<in> E. extent_bytes y)"
    and "e = GRUB_ERR_NONE \<Longrightarrow> \<not> stopped \<Longrightarrow>
      tiles (unat offset) (mc_data ctx) (min (unat offset + unat len) (unat (file_size file)))"
proof -
  let ?lim = "min (unat offset + unat len) (unat (file_size file))"
  let ?D = "\<Union>y \<in> E. extent_bytes y"
  let ?goal = "\<lambda>ctx. (\<exists>m \<le> ?lim. tiles (unat offset) (mc_data ctx) m) \<and>
      (\<forall>x \<in> set (mc_data ctx). extent_bytes x \<subseteq> ?D)"
  have nil: "?goal ctx'" if "mc_data ctx' = []" for ctx' :: "map_extent list map_context"
    using that query by (auto intro: exI [of _ "unat offset"])
  have from_inv: "?goal ctx'" if "map_inv ?D ctx'" "mc_start ctx' = offset" "unat (mc_end ctx') = ?lim" for ctx'
    using that by (auto simp: map_inv_def faithful_def intro: le_trans)
  have "?goal ctx \<and> (e = GRUB_ERR_NONE \<longrightarrow> \<not> stopped \<longrightarrow> tiles (unat offset) (mc_data ctx) ?lim)"
  proof (cases "grub_add offset len = None \<or> file_size file = GRUB_FILE_SIZE_UNKNOWN")
    case True
    then show ?thesis
      using run nil query by (cases "grub_add offset len")
        (auto simp: grub_file_map_range_ex_def Let_def map_error_def map_context_init_def split: if_splits)
  next
    case False
    then obtain q where q: "grub_add offset len = Some q" by auto
    then have qu: "unat q = unat offset + unat len" by (simp add: grub_add_Some)
    let ?ini = "map_context_init offset (min q (file_size file)) disk [] err"
    have lim: "unat (min q (file_size file)) = ?lim" by (simp add: unat_min qu)
    obtain b c1 where can: "grub_file_map_cancelled (log_cancel c) ?ini = (b, c1)" by fastforce
    note lg = cancelled_log [OF can]
    have inv1: "map_inv {} c1" using query lim by (intro cancelled_inv [OF map_inv_init can]) simp
    have c1: "mc_start c1 = offset" "mc_end c1 = min q (file_size file)" "mc_data c1 = []"
      using lg(1) by (simp_all add: map_context_init_def)
    obtain es where es: "set es \<subseteq> E" "map_run (log_hook f) (log_cancel c) c1 es (snd (fs_map c1))"
      using driver by blast
    obtain e2 c2 where f: "fs_map c1 = (e2, c2)" by fastforce
    note r2 = map_run_inv [OF es(2) inv1]
    have inv2: "map_inv ?D c2" using r2 es(1) f by (auto intro: map_inv_mono)
    have c2: "mc_start c2 = offset" "unat (mc_end c2) = ?lim" using r2 f c1 lim by simp_all
    obtain b3 c3 where can3: "grub_file_map_cancelled (log_cancel c) c2 = (b3, c3)" by fastforce
    note lg3 = cancelled_log [OF can3] and inv3 = cancelled_inv [OF inv2 can3]
    have c3: "mc_start c3 = offset" "unat (mc_end c3) = ?lim" "mc_stopped c3 = b3" using lg3(1) c2 by simp_all
    note fl = flush_inv [OF inv3, of f c]
    let ?fl = "grub_file_map_flush (log_hook f) (log_cancel c) c3"
    have gfl: "?goal ?fl" using from_inv [OF fl(1)] fl c3 by simp
    have full: "tiles (unat offset) (mc_data ?fl) ?lim" if "\<not> mc_stopped ?fl" "mc_next c3 = mc_end c3 \<or> b3"
    proof -
      have "pend ?fl = []" using fl(2) by (simp add: pend_def flushed_def)
      moreover have "\<not> b3" using that(1) fl(7) c3(3) by blast
      ultimately show ?thesis using fl that c3 by (auto simp: map_inv_def)
    qed
    have open_q: "\<not> offset \<ge> mc_end c1" using query lim c1 by (auto simp: word_le_nat_alt)
    show ?thesis
    proof (cases b)
      case True
      then show ?thesis using run can q False c1 nil by (auto simp: grub_file_map_range_ex_def Let_def)
    next
      case nb: False
      have "(e, stopped, ctx) = (if e2 \<noteq> GRUB_ERR_NONE then (e2, mc_stopped c2, c2)
          else if \<not> b3 \<and> mc_next c3 \<noteq> mc_end c3
            then (GRUB_ERR_BAD_FS, mc_stopped c3, snd (map_error GRUB_ERR_BAD_FS ''incomplete file mapping'' c3))
            else (GRUB_ERR_NONE, mc_stopped ?fl, ?fl))"
        using run can q False nb open_q f can3
        by (auto simp: grub_file_map_range_ex_def Let_def map_error_def split: if_splits)
      then show ?thesis
        using from_inv [OF inv2 c2] from_inv [OF inv3 c3(1,2)] gfl full
        by (auto simp: map_error_def split: if_splits)
    qed
  qed
  then show "\<exists>m \<le> ?lim. tiles (unat offset) (mc_data ctx) m" "\<forall>x \<in> set (mc_data ctx). extent_bytes x \<subseteq> ?D"
    "e = GRUB_ERR_NONE \<Longrightarrow> \<not> stopped \<Longrightarrow> tiles (unat offset) (mc_data ctx) ?lim" by auto
qed

end
