(* ===== verification/Misc_Correct.thy ===== *)
theory Misc_Correct
  imports Misc
begin

text \<open>
  Correctness of the string and number routines: the in-place reversal, number parsing with exact
  overflow detection, the round trip of printing and parsing, comparison as an order, and the
  splitting of strings into words and tokens.
\<close>

subsection \<open>Reversal\<close>

lemma reverse_loop_nth:
  assumes "j < length s"
  shows "length (reverse_loop i j s) = length s \<and>
    (\<forall>k < length s. reverse_loop i j s ! k = (if i \<le> k \<and> k \<le> j then s ! (i + j - k) else s ! k))"
  using assms
proof (induction i j s rule: reverse_loop.induct)
  case (1 i j s)
  show ?case
  proof (cases "i < j")
    case False
    then have "reverse_loop i j s = s" by (simp add: reverse_loop.simps)
    moreover have "i \<le> k \<and> k \<le> j \<Longrightarrow> i + j - k = k" for k using False by linarith
    ultimately show ?thesis by auto
  next
    case True
    let ?s = "s[i := s ! j, j := s ! i]"
    have eq: "reverse_loop i j s = reverse_loop (Suc i) (j - 1) ?s"
      using True by (subst reverse_loop.simps) simp
    have IH: "length (reverse_loop (Suc i) (j - 1) ?s) = length s"
      "\<And>k. k < length s \<Longrightarrow> reverse_loop (Suc i) (j - 1) ?s ! k =
         (if Suc i \<le> k \<and> k \<le> j - 1 then ?s ! (i + j - k) else ?s ! k)"
      using "1.IH" [OF True] "1.prems" True by auto
    have "reverse_loop (Suc i) (j - 1) ?s ! k = (if i \<le> k \<and> k \<le> j then s ! (i + j - k) else s ! k)"
      if k: "k < length s" for k
      using IH(2) [OF k] True "1.prems" k by (auto simp: nth_list_update)
    then show ?thesis using IH(1) eq by simp
  qed
qed

lemma grub_reverse_rev: "grub_reverse s = rev s"
proof (cases "s = []")
  case False
  then have "length s - 1 < length s" by simp
  from reverse_loop_nth [OF this, of 0] show ?thesis
    unfolding grub_reverse_def by (intro nth_equalityI) (auto simp: rev_nth)
qed (simp add: grub_reverse_def reverse_loop.simps)

subsection \<open>Parsing numbers\<close>

abbreviation horner :: "nat \<Rightarrow> nat \<Rightarrow> nat list \<Rightarrow> nat" where
  "horner b acc ds \<equiv> foldl (\<lambda>a d. a * b + d) acc ds"

text \<open>The values of the digits a string starts with.\<close>

fun digit_prefix :: "u64 \<Rightarrow> string \<Rightarrow> nat list" where
  "digit_prefix base [] = []"
| "digit_prefix base (c # s) =
     (case strtoull_digit c of
        Some d \<Rightarrow> if d < base then unat d # digit_prefix base s else []
      | None \<Rightarrow> [])"

lemma horner_mono: "0 < b \<Longrightarrow> acc \<le> horner b acc ds"
proof (induction ds arbitrary: acc)
  case (Cons d ds)
  have "acc \<le> acc * b + d" using Cons.prems by (simp add: trans_le_add1)
  then show ?case using Cons.IH [of "acc * b + d"] Cons.prems by simp
qed simp

lemma overflow_test:
  fixes num d base :: u64
  assumes "1 < base" and "d < base"
  shows "num > fst (grub_divmod64 (0xffffffffffffffff - d) base) \<longleftrightarrow> \<not> unat num * unat base + unat d < 2 ^ 64"
proof -
  have b: "base \<noteq> 0" "0 < unat base" using assms(1) by (auto simp: word_less_nat_alt unat_gt_0)
  have "unat (0xffffffffffffffff - d) = 2 ^ 64 - 1 - unat d"
    using unsigned_less [of d, where 'a = nat] by (subst unat_minus_exact) (simp_all add: word_le_nat_alt)
  moreover have "unat d < 2 ^ 64" using unsigned_less [of d, where 'a = nat] by simp
  ultimately show ?thesis
    using b by (auto simp: grub_divmod64_eq word_less_nat_alt unat_div_distrib less_mult_imp_div_less
        div_less_iff_less_mult not_less less_eq_div_iff_mult_less_eq)
qed

lemma strtoull_loop_exact:
  fixes base :: u64
  assumes "1 < base"
  defines "v num s \<equiv> horner (unat base) (unat num) (digit_prefix base s)"
  shows "v num s < 2 ^ 64 \<Longrightarrow> strtoull_loop base num found s =
      (if digit_prefix base s = [] \<and> \<not> found then (GRUB_ERR_BAD_NUMBER, 0, s)
       else (GRUB_ERR_NONE, of_nat (v num s), drop (length (digit_prefix base s)) s))"
    and "\<not> v num s < 2 ^ 64 \<Longrightarrow> \<exists>k < length (digit_prefix base s). strtoull_loop base num found s =
      (GRUB_ERR_OUT_OF_RANGE, 0xffffffffffffffff, drop k s)"
proof (induction s arbitrary: num found)
  case Nil
  {
    case 1
    then show ?case by (simp add: v_def)
  next
    case 2
    then show ?case using unsigned_less [of num, where 'a = nat] by (simp add: v_def)
  }
next
  case (Cons c s)
  have here: "digit_prefix base (c # s) = [] \<Longrightarrow> strtoull_loop base num found (c # s) =
      (if \<not> found then (GRUB_ERR_BAD_NUMBER, 0, c # s) else (GRUB_ERR_NONE, num, c # s))" for num found
    by (auto split: option.splits if_splits simp: not_less)
  have more: "\<exists>d. strtoull_digit c = Some d \<and> d < base" if "digit_prefix base (c # s) \<noteq> []"
    using that by (auto split: option.splits if_splits)
  have step: "unat num * unat base + unat d < 2 ^ 64 \<Longrightarrow> unat (num * base + d) = unat num * unat base + unat d"
    for num d :: u64
  proof -
    assume a: "unat num * unat base + unat d < 2 ^ 64"
    then have "unat (num * base) = unat num * unat base" using unat_mult_lem [of num base] by simp
    with a show ?thesis by (simp add: unat_plus_exact)
  qed
  {
    case 1
    show ?case
    proof (cases "digit_prefix base (c # s) = []")
      case True
      then show ?thesis using here by (simp add: v_def)
    next
      case False
      then obtain d where d: "strtoull_digit c = Some d" "d < base" using more by blast
      have lt: "unat num * unat base + unat d < 2 ^ 64"
        using 1 horner_mono [of "unat base" "unat num * unat base + unat d" "digit_prefix base s"] d assms(1)
        by (simp add: v_def word_less_nat_alt)
      have "v (num * base + d) s = v num (c # s)" using d by (simp add: v_def step [OF lt])
      moreover have "strtoull_loop base num found (c # s) = strtoull_loop base (num * base + d) True s"
        using d overflow_test [OF assms(1) d(2), of num] lt by (simp add: not_le [symmetric])
      ultimately show ?thesis using Cons.IH(1) [of "num * base + d" True] 1 d by simp
    qed
  next
    case 2
    have "digit_prefix base (c # s) \<noteq> []"
    proof
      assume "digit_prefix base (c # s) = []"
      then show False using 2 unsigned_less [of num, where 'a = nat] by (simp add: v_def)
    qed
    then obtain d where d: "strtoull_digit c = Some d" "d < base" using more by blast
    show ?case
    proof (cases "unat num * unat base + unat d < 2 ^ 64")
      case False
      then have "strtoull_loop base num found (c # s) = (GRUB_ERR_OUT_OF_RANGE, 0xffffffffffffffff, drop 0 (c # s))"
        using d overflow_test [OF assms(1) d(2), of num] by (simp add: not_le [symmetric])
      then show ?thesis using d by auto
    next
      case lt: True
      have "v (num * base + d) s = v num (c # s)" using d by (simp add: v_def step [OF lt])
      moreover have "strtoull_loop base num found (c # s) = strtoull_loop base (num * base + d) True s"
        using d overflow_test [OF assms(1) d(2), of num] lt by (simp add: not_le [symmetric])
      ultimately obtain k where "k < length (digit_prefix base s)"
        "strtoull_loop base num found (c # s) = (GRUB_ERR_OUT_OF_RANGE, 0xffffffffffffffff, drop k s)"
        using Cons.IH(2) [of "num * base + d" True] 2 by auto
      then show ?thesis using d by (intro exI [of _ "Suc k"]) simp
    qed
  }
qed

subsection \<open>Printing and parsing\<close>

lemma schar_char_of: "n < 128 \<Longrightarrow> schar (char_of n) = int n"
proof -
  assume n: "n < 128"
  have "of_char (char_of n) = (of_nat (of_char (char_of n)) :: 8 word)" by (simp only: of_nat_of_char)
  also have "(of_char (char_of n) :: nat) = n" using n by (simp only: of_char_of) simp
  finally have w: "of_char (char_of n) = (of_nat n :: 8 word)" .
  have "sint (of_nat n :: 8 word) = int n"
    using n unfolding sint_uint by (simp add: uint_nat unat_of_nat signed_take_bit_int_eq_self)
  then show ?thesis by (simp add: schar_def w)
qed

lemma strtoull_digit_of:
  assumes "grub_tolower (schar c) = int k" and "48 \<le> k" "k < 123"
  shows "strtoull_digit c = (if k \<ge> 97 then Some (of_nat (k - 87)) else if k > 57 then None else Some (of_nat (k - 48)))"
proof -
  define x :: u64 where "x = of_nat (k - 48)"
  have w: "word_of_int (grub_tolower (schar c)) - 48 = x"
    using assms(2) by (simp add: assms(1) x_def of_nat_diff)
  have u: "unat x = k - 48" using assms(3) by (simp add: x_def unat_of_nat)
  have "x + 48 - 97 + 10 = of_nat (k - 87)" if "97 \<le> k"
    using that by (simp add: x_def of_nat_diff)
  then show ?thesis
    using assms(2,3) unfolding strtoull_digit_def w Let_def x_def [symmetric]
    by (auto simp: word_le_nat_alt word_less_nat_alt u)
qed

lemma strtoull_digit_hex: "d < 16 \<Longrightarrow> strtoull_digit (hex_char lower d) = Some (of_nat d)"
proof -
  assume d: "d < 16"
  show ?thesis
  proof (cases "d > 9")
    case True
    then have "grub_tolower (schar (hex_char lower d)) = int (d + 87)"
      using d by (simp add: hex_char_def schar_char_of grub_tolower_def)
    from strtoull_digit_of [OF this] show ?thesis using True d by simp
  next
    case False
    then have "grub_tolower (schar (hex_char lower d)) = int (d + 48)"
      by (simp add: hex_char_def schar_char_of grub_tolower_def)
    from strtoull_digit_of [OF this] show ?thesis using False by simp
  qed
qed

lemma dec_char_hex: "d < 10 \<Longrightarrow> char_of (d + 48) = hex_char lower d"
  by (simp add: hex_char_def)

fun lsv :: "nat \<Rightarrow> nat list \<Rightarrow> nat" where
  "lsv b [] = 0"
| "lsv b (d # ds) = d + b * lsv b ds"

lemma horner_rev: "horner b 0 (rev ds) = lsv b ds"
  by (induction ds) simp_all

text \<open>A string of digits, least significant first, with its value.\<close>

definition renders :: "bool \<Rightarrow> nat \<Rightarrow> u64 \<Rightarrow> string \<Rightarrow> bool" where
  "renders lower b n s \<longleftrightarrow>
     (\<exists>ds. s = map (hex_char lower) ds \<and> ds \<noteq> [] \<and> (\<forall>d \<in> set ds. d < b) \<and> lsv b ds = unat n)"

lemma renders_one: "unat n < b \<Longrightarrow> renders lower b n [hex_char lower (unat n)]"
  unfolding renders_def by (rule exI [of _ "[unat n]"]) simp

lemma renders_Cons:
  assumes "renders lower b q s" and "unat n = unat q * b + d" and "d < b"
  shows "renders lower b n (hex_char lower d # s)"
proof -
  obtain ds where ds: "s = map (hex_char lower) ds" "ds \<noteq> []" "\<forall>d \<in> set ds. d < b" "lsv b ds = unat q"
    using assms(1) by (auto simp: renders_def)
  then show ?thesis
    unfolding renders_def using assms(2,3) by (intro exI [of _ "d # ds"]) (simp add: mult.commute)
qed

lemma lltoa_dec_renders: "renders lower 10 n (lltoa_dec n)"
proof (induction n rule: lltoa_dec.induct)
  case (1 n)
  have qm: "grub_divmod64 n 10 = (n div 10, n mod 10)" by (simp add: grub_divmod64_eq)
  have m: "unat (n mod 10) = unat n mod 10" "unat (n div 10) = unat n div 10"
    by (simp_all add: unat_mod_distrib unat_div_distrib)
  have c: "char_of (unat (n mod 10) + 48) = hex_char lower (unat n mod 10)"
    unfolding m by (rule dec_char_hex) simp
  show ?case
  proof (cases "n div 10 = 0")
    case True
    then have "unat n div 10 = 0" using m(2) by simp
    then have "unat n < 10" by (simp add: div_eq_0_iff)
    then show ?thesis using renders_one [of n 10 lower] True c by (subst lltoa_dec.simps) (simp add: qm)
  next
    case False
    have "renders lower 10 (n div 10) (lltoa_dec (n div 10))"
      using "1.IH" [OF qm [symmetric]] False by simp
    from renders_Cons [OF this, of n "unat n mod 10"] show ?thesis
      using False c m by (subst lltoa_dec.simps) (simp add: qm)
  qed
qed

lemma lltoa_hex_renders: "renders lower 16 n (lltoa_hex lower n)"
proof (induction lower n rule: lltoa_hex.induct)
  case (1 lower n)
  have d: "unat (drop_bit 4 n) = unat n div 16" by (simp add: unat_drop_bit)
  have m: "unat (n AND 15) = unat n mod 16" using unat_and_mask [of n 4] by (simp add: mask_eq_exp_minus_1)
  show ?case
  proof (cases "drop_bit 4 n = 0")
    case True
    then have "unat n < 16" using d by (simp add: div_eq_0_iff)
    then show ?thesis using renders_one [of n 16 lower] True m by (subst lltoa_hex.simps) simp
  next
    case False
    from renders_Cons [OF "1.IH" [OF False], of n "unat n mod 16"] show ?thesis
      using False m d by (subst lltoa_hex.simps) simp
  qed
qed

lemma lltoa_oct_renders: "renders lower 8 n (lltoa_oct n)"
proof (induction n rule: lltoa_oct.induct)
  case (1 n)
  have d: "unat (drop_bit 3 n) = unat n div 8" by (simp add: unat_drop_bit)
  have m: "unat (n AND 7) = unat n mod 8" using unat_and_mask [of n 3] by (simp add: mask_eq_exp_minus_1)
  have c: "char_of (unat (n AND 7) + 48) = hex_char lower (unat n mod 8)"
    unfolding m by (rule dec_char_hex) (simp add: order_less_trans [OF mod_less_divisor])
  show ?case
  proof (cases "drop_bit 3 n = 0")
    case True
    then have "unat n < 8" using d by (simp add: div_eq_0_iff)
    then show ?thesis using renders_one [of n 8 lower] True c by (subst lltoa_oct.simps) simp
  next
    case False
    from renders_Cons [OF "1.IH" [OF False], of n "unat n mod 8"] show ?thesis
      using False c d by (subst lltoa_oct.simps) simp
  qed
qed

lemma digit_prefix_hex:
  assumes "\<forall>d \<in> set ds. d < b" and "b \<le> 16"
  shows "digit_prefix (of_nat b) (map (hex_char lower) ds) = ds"
  using assms(1)
proof (induction ds)
  case (Cons d ds)
  have d: "d < 16" "d < b" using Cons.prems assms(2) by auto
  have "unat (of_nat d :: u64) = d" "unat (of_nat b :: u64) = b"
    using d assms(2) by (simp_all add: unat_of_nat)
  then show ?case using Cons d by (simp add: strtoull_digit_hex word_less_nat_alt)
qed simp

lemma renders_parse:
  assumes r: "renders lower b n s" and b: "1 < b" "b \<le> 16"
  shows "strtoull_loop (of_nat b) 0 False (rev s) = (GRUB_ERR_NONE, n, [])"
proof -
  obtain ds where ds: "s = map (hex_char lower) ds" "ds \<noteq> []" "\<forall>d \<in> set ds. d < b" "lsv b ds = unat n"
    using r by (auto simp: renders_def)
  have ub: "unat (of_nat b :: u64) = b" using b by (simp add: unat_of_nat)
  have p: "digit_prefix (of_nat b) (rev s) = rev ds"
    using digit_prefix_hex [of "rev ds" b lower] ds(1,3) b(2) by (simp add: rev_map)
  have "horner (unat (of_nat b :: u64)) (unat (0 :: u64)) (digit_prefix (of_nat b) (rev s)) = unat n"
    using ds(4) by (simp add: p ub horner_rev)
  moreover have "(1 :: u64) < of_nat b" using b by (simp add: word_less_nat_alt ub)
  ultimately show ?thesis
    using strtoull_loop_exact(1) [of "of_nat b" 0 "rev s" False] p ds unsigned_less [of n, where 'a = nat]
    by simp
qed

lemma hex_char_graphic: "d < 16 \<Longrightarrow> \<not> grub_isspace (hex_char lower d) \<and> hex_char lower d \<noteq> CHR ''x''"
proof -
  assume d: "d < 16"
  have c: "schar (hex_char lower d) = int (if d > 9 then d + (if lower then 97 else 65) - 10 else d + 48)"
    using d by (auto simp: hex_char_def schar_char_of)
  have x: "schar (CHR ''x'') = 120" by (simp add: schar_def)
  show ?thesis using c d x by (auto simp: grub_isspace_def split: if_splits)
qed

lemma guess_base_digits:
  assumes "\<forall>c \<in> set s. c \<noteq> CHR ''x''" and "0 < b"
  shows "guess_base b s = (b, s)"
  using assms by (auto simp: guess_base_def Let_def split: list.splits)

lemma renders_strtoull:
  assumes r: "renders lower b n s" and b: "1 < b" "b \<le> 16"
  shows "grub_strtoull (rev s) b = (GRUB_ERR_NONE, n, [])"
proof -
  obtain ds where ds: "s = map (hex_char lower) ds" "\<forall>d \<in> set ds. d < b" "ds \<noteq> []"
    using r by (auto simp: renders_def)
  have g: "\<forall>c \<in> set (rev s). \<not> grub_isspace c \<and> c \<noteq> CHR ''x''"
    using ds b hex_char_graphic by auto
  then have "dropWhile grub_isspace (rev s) = rev s" by (cases "rev s") auto
  moreover have "guess_base b (rev s) = (b, rev s)" using g b by (intro guess_base_digits) auto
  ultimately show ?thesis using renders_parse [OF r b] by (simp add: grub_strtoull_def)
qed

subsection \<open>Comparison\<close>

lemma memcmp_zero_iff:
  "n \<le> length a \<Longrightarrow> n \<le> length b \<Longrightarrow> grub_memcmp a b n = 0 \<longleftrightarrow> take n a = take n b"
  by (induction a b n rule: grub_memcmp.induct) (auto simp: word_uint_eq_iff)

lemma uchar_inj [simp]: "uchar a = uchar b \<longleftrightarrow> a = b"
  by (simp add: uchar_def)

lemma uchar_nonneg [simp]: "0 \<le> uchar a"
  unfolding uchar_def by (metis of_nat_0_le_iff of_nat_of_char)

lemma uchar_pos: "0 < uchar a \<longleftrightarrow> CHR 0x00 \<noteq> a"
proof -
  have "uchar a = uchar (CHR 0x00) \<longleftrightarrow> a = CHR 0x00" by (rule uchar_inj)
  moreover have "uchar (CHR 0x00) = 0" by (simp add: uchar_def)
  ultimately show ?thesis using uchar_nonneg [of a] by (metis order_less_le)
qed

lemma uchar_0: "uchar a = 0 \<longleftrightarrow> CHR 0x00 = a"
  using uchar_pos [of a] uchar_nonneg [of a] by linarith

lemma strcmp_zero_iff:
  "CHR 0x00 \<notin> set a \<Longrightarrow> CHR 0x00 \<notin> set b \<Longrightarrow> grub_strcmp a b = 0 \<longleftrightarrow> a = b"
proof (induction a b rule: grub_strcmp.induct [case_names both left right])
  case (both a as b bs)
  then show ?case by auto
next
  case (left bs)
  then show ?case by (cases bs) (auto simp: uchar_0)
next
  case (right as)
  then show ?case by (cases as) (auto simp: uchar_0)
qed

lemma strcmp_antisym: "grub_strcmp b a = - grub_strcmp a b"
  by (induction a b rule: grub_strcmp.induct) auto

lemma strcmp_less_trans:
  "CHR 0x00 \<notin> set c \<Longrightarrow> grub_strcmp a b < 0 \<Longrightarrow> grub_strcmp b c < 0 \<Longrightarrow> grub_strcmp a c < 0"
proof (induction a b arbitrary: c rule: grub_strcmp.induct [case_names both left right])
  case (both a as b bs)
  then show ?case by (cases c) (auto split: if_splits)
next
  case (left bs)
  then show ?case using leD [OF uchar_nonneg]
    by (cases bs; cases c) (auto simp: uchar_pos split: if_splits)
next
  case (right as)
  then show ?case using uchar_nonneg by (cases as) (auto simp: not_less [symmetric])
qed

lemma strrchr_Some:
  "grub_strrchr xs c = Some s \<longleftrightarrow> (\<exists>pre rest. xs = pre @ s \<and> s = c # rest \<and> c \<notin> set rest)"
proof (induction xs arbitrary: s)
  case (Cons x xs)
  have none: "grub_strrchr xs c = None \<longleftrightarrow> c \<notin> set xs"
    by (induction xs) (auto split: option.splits)
  show ?case
  proof (cases "c \<in> set xs")
    case True
    then obtain s' where "grub_strrchr xs c = Some s'" using none by fastforce
    with Cons.IH [of s'] Cons.IH [of s] True show ?thesis
      by (auto simp: Cons_eq_append_conv)
  next
    case False
    then show ?thesis using none by (auto simp: Cons_eq_append_conv)
  qed
qed simp

subsection \<open>Words and tokens\<close>

text \<open>The maximal runs of characters that are not separators.\<close>

function words_of :: "string \<Rightarrow> string list" where
  "words_of s =
     (if skip_seps s = [] then []
      else takeWhile (\<lambda>c. \<not> grub_iswordseparator c) (skip_seps s) # words_of (skip_word (skip_seps s)))"
  by pat_completeness auto
termination
proof (relation "measure length")
  fix s :: string
  assume ne: "skip_seps s \<noteq> []"
  then have "\<not> grub_iswordseparator (hd (skip_seps s))" by (rule hd_dropWhile)
  then have "length (skip_word (skip_seps s)) < length (skip_seps s)"
    using ne by (cases "skip_seps s") (auto simp: less_Suc_eq_le length_dropWhile_le)
  then show "(skip_word (skip_seps s), s) \<in> measure length"
    using length_dropWhile_le [of grub_iswordseparator s] by simp
qed simp

declare words_of.simps [simp del]

lemma crawl_found:
  "word_end (fst (strword_crawl h n)) \<and> word_end (snd (strword_crawl h n)) \<longleftrightarrow>
     takeWhile (\<lambda>c. \<not> grub_iswordseparator c) h = takeWhile (\<lambda>c. \<not> grub_iswordseparator c) n"
  by (induction h n rule: strword_crawl.induct) (auto simp: word_end_def split: list.splits)

lemma crawl_skip: "skip_word (fst (strword_crawl h n)) = skip_word h"
  by (induction h n rule: strword_crawl.induct) auto

lemma words_of_skip: "words_of (skip_seps s) = words_of s"
  by (subst (1 2) words_of.simps) (simp add: dropWhile_idem)

lemma strword_loop_iff:
  "hay = skip_seps hay \<Longrightarrow>
     strword_loop needle hay \<longleftrightarrow> takeWhile (\<lambda>c. \<not> grub_iswordseparator c) needle \<in> set (words_of hay)"
proof (induction needle hay rule: strword_loop.induct)
  case (1 needle hay)
  let ?w = "takeWhile (\<lambda>c. \<not> grub_iswordseparator c)"
  show ?case
  proof (cases "hay = []")
    case True
    then show ?thesis by (simp add: strword_loop.simps words_of.simps)
  next
    case False
    have w: "words_of hay = ?w hay # words_of (skip_seps (skip_word hay))"
      using False 1(2) by (subst words_of.simps) (simp add: words_of_skip)
    have rest: "strword_loop needle hay \<longleftrightarrow> ?w hay = ?w needle \<or> strword_loop needle (skip_seps (skip_word hay))"
      using False crawl_found [of hay needle] by (subst strword_loop.simps) (simp add: crawl_skip)
    show ?thesis
    proof (cases "?w hay = ?w needle")
      case True
      then show ?thesis using rest w by simp
    next
      case ne: False
      have "strword_loop needle (skip_seps (skip_word hay)) \<longleftrightarrow>
          ?w needle \<in> set (words_of (skip_seps (skip_word hay)))"
        using "1.IH" [OF False] ne crawl_found [of hay needle] by (simp add: crawl_skip dropWhile_idem)
      then show ?thesis using rest w ne by auto
    qed
  qed
qed

text \<open>Repeated \<open>grub_strtok_r\<close> calls; each call shortens the saved string.\<close>

lemma strtok_shrinks:
  assumes "grub_strtok_r None delim save = (Some t, save')"
  shows "length save' < length save"
proof -
  let ?s = "dropWhile (\<lambda>c. c \<in> set delim) save"
  have ne: "?s \<noteq> []" and s': "save' = (case dropWhile (\<lambda>c. c \<notin> set delim) ?s of [] \<Rightarrow> [] | _ # r \<Rightarrow> r)"
    using assms by (auto simp: grub_strtok_r_def Let_def split: if_splits)
  have "length (dropWhile (\<lambda>c. c \<notin> set delim) ?s) \<le> length save"
    by (meson le_trans length_dropWhile_le)
  moreover have "0 < length save" using ne by (cases save) auto
  ultimately show ?thesis using s' by (cases "dropWhile (\<lambda>c. c \<notin> set delim) ?s") auto
qed

function strtok_all :: "string \<Rightarrow> string \<Rightarrow> string list" where
  "strtok_all delim save =
     (case grub_strtok_r None delim save of (None, _) \<Rightarrow> [] | (Some t, save') \<Rightarrow> t # strtok_all delim save')"
  by pat_completeness auto
termination by (relation "measure (\<lambda>(_, s). length s)") (auto dest: strtok_shrinks [OF sym])

declare strtok_all.simps [simp del]

text \<open>The non-empty pieces between delimiters, by a fold over the string.\<close>

fun pieces :: "string \<Rightarrow> string \<Rightarrow> string \<Rightarrow> string list" where
  "pieces delim acc [] = (if acc = [] then [] else [rev acc])"
| "pieces delim acc (c # cs) =
     (if c \<in> set delim then (if acc = [] then [] else [rev acc]) @ pieces delim [] cs
      else pieces delim (c # acc) cs)"

lemma pieces_skip: "pieces delim [] (dropWhile (\<lambda>c. c \<in> set delim) s) = pieces delim [] s"
  by (induction s) auto

lemma pieces_word:
  "acc \<noteq> [] \<or> s \<noteq> [] \<and> hd s \<notin> set delim \<Longrightarrow>
   pieces delim acc s = (rev acc @ takeWhile (\<lambda>c. c \<notin> set delim) s) #
     pieces delim [] (case dropWhile (\<lambda>c. c \<notin> set delim) s of [] \<Rightarrow> [] | _ # r \<Rightarrow> r)"
  by (induction delim acc s rule: pieces.induct) auto

lemma strtok_all_pieces: "strtok_all delim s = pieces delim [] s"
proof (induction delim s rule: strtok_all.induct)
  case (1 delim s)
  let ?s = "dropWhile (\<lambda>c. c \<in> set delim) s"
  show ?case
  proof (cases "?s = []")
    case True
    then have "strtok_all delim s = []" by (subst strtok_all.simps) (simp add: grub_strtok_r_def)
    then show ?thesis using pieces_skip [of delim s] unfolding True by simp
  next
    case False
    let ?r = "case dropWhile (\<lambda>c. c \<notin> set delim) ?s of [] \<Rightarrow> [] | _ # r \<Rightarrow> r"
    have t: "grub_strtok_r None delim s = (Some (takeWhile (\<lambda>c. c \<notin> set delim) ?s), ?r)"
      by (simp only: grub_strtok_r_def option.case Let_def False if_False)
    have hd: "hd ?s \<notin> set delim" using False by (rule hd_dropWhile)
    have "strtok_all delim s = takeWhile (\<lambda>c. c \<notin> set delim) ?s # strtok_all delim ?r"
      by (subst strtok_all.simps) (simp add: t)
    also have "\<dots> = pieces delim [] ?s"
      using "1.IH" [OF t [symmetric] refl] False hd pieces_word [of "[]" ?s delim] by simp
    finally show ?thesis by (simp add: pieces_skip)
  qed
qed

end
