(* ===== verification/Partition.thy ===== *)
theory Partition
  imports Disk_Read Misc "HOL-Library.Monad_Syntax"
begin

text \<open>
  Partitions (\<open>grub/grub-core/kern/partition.c\<close>, \<open>grub/include/grub/partition.h\<close>): looking a
  partition up by name, walking all partitions of a disk with nested maps, and naming a partition.

  A partition map is a name and an iterate function. An iterate function reads the disk through
  the given reader (\<open>grub_disk_read\<close> on the disk) and calls a hook for each partition until the
  hook answers true. Reads, hooks and iterate functions are partial: \<open>None\<close> is a call that does not
  return. The void pointer handed to the hook is the value of type \<open>'d\<close> that is threaded through.
\<close>

subsection \<open>State, hooks and maps\<close>

text \<open>The disk being walked, whose \<open>partition\<close> pointer the walk changes, and the core's state.\<close>

record 'h pstate =
  ps_disk :: grub_disk
  ps_dst :: "'h dstate"

type_synonym 'h part_read = "u64 \<Rightarrow> u64 \<Rightarrow> u64 \<Rightarrow> 'h pstate \<Rightarrow> (grub_err_t \<times> bytes \<times> 'h pstate) option"

type_synonym ('h, 'd) part_hook = "grub_partition \<Rightarrow> 'd \<Rightarrow> 'h pstate \<Rightarrow> (bool \<times> 'd \<times> 'h pstate) option"

type_synonym ('h, 'd) part_iter = "('h, 'd) part_hook \<Rightarrow> 'd \<Rightarrow> 'h pstate \<Rightarrow> (grub_err_t \<times> 'd \<times> 'h pstate) option"

type_synonym ('h, 'd) partmaps = "(string \<times> ('h, 'd) part_iter) list"

text \<open>The hook of the public walk sees the partition with its chain of parents, innermost first.\<close>

type_synonym ('h, 'd) chain_hook = "grub_partition list \<Rightarrow> 'd \<Rightarrow> 'h pstate \<Rightarrow> (bool \<times> 'd \<times> 'h pstate) option"

abbreviation MAX_RECURSION_DEPTH :: nat where "MAX_RECURSION_DEPTH \<equiv> 32"

definition p_errno :: "'h pstate \<Rightarrow> grub_err_t" where
  "p_errno ps = d_errno (ps_dst ps)"

definition p_set_errno :: "grub_err_t \<Rightarrow> 'h pstate \<Rightarrow> 'h pstate" where
  "p_set_errno e ps = ps\<lparr> ps_dst := set_errno e (ps_dst ps) \<rparr>"

definition p_error :: "grub_err_t \<Rightarrow> string \<Rightarrow> 'h pstate \<Rightarrow> 'h pstate" where
  "p_error e msg ps = ps\<lparr> ps_dst := raise_error e msg (ps_dst ps) \<rparr>"

definition p_malloc :: "'h pstate \<Rightarrow> bool \<times> 'h pstate" where
  "p_malloc ps = (case grub_malloc (ps_dst ps) of (ok, st) \<Rightarrow> (ok, ps\<lparr> ps_dst := st \<rparr>))"

definition cur_partition :: "'h pstate \<Rightarrow> grub_partition list" where
  "cur_partition ps = disk_partition (ps_disk ps)"

definition set_partition :: "grub_partition list \<Rightarrow> 'h pstate \<Rightarrow> 'h pstate" where
  "set_partition parts ps = ps\<lparr> ps_disk := (ps_disk ps)\<lparr> disk_partition := parts \<rparr> \<rparr>"

text \<open>\<open>return grub_error (...)\<close> in an iterate function.\<close>

definition fail_with :: "grub_err_t \<Rightarrow> string \<Rightarrow> 'd \<Rightarrow> 'h pstate \<Rightarrow> (grub_err_t \<times> 'd \<times> 'h pstate) option" where
  "fail_with e msg d ps = Some (e, d, p_error e msg ps)"

text \<open>
  The loop of a map whose table is in memory: the hook is called for one partition after the other
  until it answers true.
\<close>

fun call_hooks :: "('h, 'd) part_hook \<Rightarrow> grub_partition list \<Rightarrow> 'd \<Rightarrow> 'h pstate \<Rightarrow> (bool \<times> 'd \<times> 'h pstate) option" where
  "call_hooks hook [] d ps = Some (False, d, ps)"
| "call_hooks hook (p # parts) d ps =
     do { (stop, d1, ps1) \<leftarrow> hook p d ps;
          if stop then Some (True, d1, ps1) else call_hooks hook parts d1 ps1 }"

text \<open>The reader of a disk: \<open>grub_disk_read\<close> with the disk's driver and read hook.\<close>

definition disk_reader :: "'h dread \<Rightarrow> 'h read_hook option \<Rightarrow> 'h part_read" where
  "disk_reader dread rhook sector offset sz ps =
     map_option (\<lambda>((e, buf), st). (e, buf, ps\<lparr> ps_dst := st \<rparr>))
       (grub_disk_read dread rhook (ps_disk ps) sector offset sz (ps_dst ps))"

subsection \<open>Names\<close>

text \<open>
  \<open>grub_partition_get_name\<close> writes the components into a buffer from its end: for each
  partition, innermost first, the number, before it the name of the map and before that a comma;
  the first comma is then dropped. \<open>"%d"\<close> without width prints \<open>grub_lltoa 'd'\<close> of the argument.
\<close>

definition part_number_text :: "grub_partition \<Rightarrow> string" where
  "part_number_text p = grub_lltoa (CHR ''d'') (word_of_int (part_number p + 1))"

fun write_names :: "grub_partition list \<Rightarrow> string \<Rightarrow> string" where
  "write_names [] out = out"
| "write_names (p # ps) out = write_names ps (CHR '','' # part_partmap p @ part_number_text p @ out)"

definition grub_partition_get_name :: "grub_partition list \<Rightarrow> 'h pstate \<Rightarrow> string option \<times> 'h pstate" where
  "grub_partition_get_name parts ps =
     (case p_malloc ps of (ok, ps1) \<Rightarrow> (if ok then Some (tl (write_names parts [])) else None, ps1))"

text \<open>The size of the buffer it allocates, less the terminating zero.\<close>

definition name_needlen :: "grub_partition list \<Rightarrow> nat" where
  "name_needlen parts = (\<Sum>p \<leftarrow> parts. length (part_partmap p) + 1 + 27)"

subsection \<open>Containment\<close>

definition grub_partition_check_containment :: "grub_partition \<Rightarrow> 'h pstate \<Rightarrow> bool \<times> 'h pstate" where
  "grub_partition_check_containment part ps =
     (case cur_partition ps of
        [] \<Rightarrow> (True, ps)
      | q # _ \<Rightarrow>
          if part_start part + part_len part > part_len q
          then (False, snd (grub_partition_get_name (cur_partition ps) ps))
          else (True, ps))"

subsection \<open>Looking up a partition\<close>

definition probe_iter :: "int \<Rightarrow> ('h, grub_partition option) part_hook" where
  "probe_iter partnum part ctx ps =
     (if partnum \<noteq> part_number part then Some (False, ctx, ps)
      else case grub_partition_check_containment part ps of
        (ok, ps1) \<Rightarrow>
          if \<not> ok then Some (False, ctx, ps1)
          else case p_malloc ps1 of
            (got, ps2) \<Rightarrow> Some (True, if got then Some part else None, ps2))"

definition grub_partition_map_probe :: "('h, grub_partition option) part_iter \<Rightarrow> int \<Rightarrow> 'h pstate
    \<Rightarrow> (grub_partition option \<times> 'h pstate) option" where
  "grub_partition_map_probe iter partnum ps =
     do { (e, p, ps1) \<leftarrow> iter (probe_iter partnum) None ps;
          Some (if p_errno ps1 \<noteq> GRUB_ERR_NONE then None else p, ps1) }"

text \<open>The test whether a map is asked: its name is \<open>partname\<close>, or no name is given.\<close>

definition map_selected :: "string \<Rightarrow> string \<Rightarrow> bool" where
  "map_selected partname name \<longleftrightarrow>
     partname = [] \<or> grub_strncmp name partname (length partname) = 0 \<and> drop (length partname) name = []"

text \<open>The walk over the maps for one component; the map reads inside \<open>part\<close>.\<close>

fun probe_maps :: "('h, grub_partition option) partmaps \<Rightarrow> string \<Rightarrow> int \<Rightarrow> grub_partition list \<Rightarrow> grub_partition list
    \<Rightarrow> 'h pstate \<Rightarrow> (grub_partition option \<times> 'h pstate) option" where
  "probe_maps [] partname num part tail ps = Some (None, ps)"
| "probe_maps ((name, iter) # maps) partname num part tail ps =
     (if \<not> map_selected partname name then probe_maps maps partname num part tail ps
      else do { (cur, ps1) \<leftarrow> grub_partition_map_probe iter num (set_partition part ps);
                let ps2 = set_partition tail ps1;
                case cur of
                  Some p \<Rightarrow> Some (Some p, ps2)
                | None \<Rightarrow>
                    if p_errno ps2 = GRUB_ERR_BAD_PART_TABLE
                    then probe_maps maps partname num part tail (p_set_errno GRUB_ERR_NONE ps2)
                    else Some (None, ps2) })"

text \<open>
  The letters of a component, and what \<open>grub_strtoul\<close> makes of the rest; an error it reports comes
  with the number zero or the largest one, for which the caller sets an error of its own.
\<close>

definition split_component :: "string \<Rightarrow> string \<times> grub_err_t \<times> u64 \<times> string" where
  "split_component ptr =
     (let is_letter = (\<lambda>c. grub_isalpha (schar c))
      in (takeWhile is_letter ptr, grub_strtoul (dropWhile is_letter ptr) 0))"

partial_function (option) probe_loop :: "('h, grub_partition option) partmaps \<Rightarrow> grub_partition list
    \<Rightarrow> grub_partition list \<Rightarrow> string \<Rightarrow> 'h pstate \<Rightarrow> (grub_partition list \<times> 'h pstate) option" where
  "probe_loop maps tail part ptr ps =
     (if ptr = [] then Some (part, ps)
      else case split_component ptr of
        (partname, e, num, rest) \<Rightarrow>
          if num = 0 \<or> num > 0x7fffffff
          then Some ([], p_error GRUB_ERR_BAD_NUMBER ''invalid partition number'' ps)
          else do { (cur, ps1) \<leftarrow> probe_maps maps partname (uint num - 1) part tail ps;
                    case cur of
                      None \<Rightarrow> Some ([], ps1)
                    | Some p \<Rightarrow>
                        (case rest of
                           [] \<Rightarrow> Some (p # part, ps1)
                         | c # cs \<Rightarrow>
                             if c \<noteq> CHR '','' then Some (p # part, ps1)
                             else probe_loop maps tail (p # part) cs ps1) })"

definition grub_partition_probe :: "('h, grub_partition option) partmaps \<Rightarrow> string option \<Rightarrow> 'h pstate
    \<Rightarrow> (grub_partition list \<times> 'h pstate) option" where
  "grub_partition_probe maps str ps =
     (case str of
        None \<Rightarrow> Some ([], ps)
      | Some s \<Rightarrow> probe_loop maps (cur_partition ps) (cur_partition ps) s ps)"

subsection \<open>Walking all partitions\<close>

text \<open>
  The loop over the maps: an error of a map is dropped, and the walk stops when \<open>ctx->ret\<close> (the
  boolean) is set. Each element of the list is the iterate call for one map.
\<close>

fun iterate_maps :: "(bool \<times> 'd \<Rightarrow> 'h pstate \<Rightarrow> (grub_err_t \<times> (bool \<times> 'd) \<times> 'h pstate) option) list
    \<Rightarrow> bool \<times> 'd \<Rightarrow> 'h pstate \<Rightarrow> ((bool \<times> 'd) \<times> 'h pstate) option" where
  "iterate_maps [] ctx ps = Some (ctx, ps)"
| "iterate_maps (run # runs) ctx ps =
     do { (e, ctx1, ps1) \<leftarrow> run ctx ps;
          let ps2 = (if e \<noteq> GRUB_ERR_NONE then p_set_errno GRUB_ERR_NONE ps1 else ps1);
          if fst ctx1 then Some (ctx1, ps2) else iterate_maps runs ctx1 ps2 }"

text \<open>
  \<open>part_iterate\<close> with the walk of the maps inside the partition as an argument; the hook is called
  while \<open>dsk->partition\<close> is null.
\<close>

definition part_visit :: "('h, 'd) chain_hook
    \<Rightarrow> (bool \<times> 'd \<Rightarrow> 'h pstate \<Rightarrow> ((bool \<times> 'd) \<times> 'h pstate) option) \<Rightarrow> ('h, bool \<times> 'd) part_hook" where
  "part_visit hook nested part ctx ps =
     (case grub_partition_check_containment part ps of
        (ok, ps1) \<Rightarrow>
          if \<not> ok then Some (False, ctx, ps1)
          else let parent = cur_partition ps1
          in do { (stop, d, ps2) \<leftarrow> hook (part # parent) (snd ctx) (set_partition [] ps1);
                  if stop then Some (True, (True, d), ps2)
                  else if part_start part \<noteq> 0
                  then do { (ctx1, ps3) \<leftarrow> nested (fst ctx, d) (set_partition (part # parent) ps2);
                            Some (fst ctx1, ctx1, set_partition parent ps3) }
                  else Some (fst ctx, (fst ctx, d), set_partition parent ps2) })"

text \<open>
  The recursion of \<open>part_iterate\<close>; the number is how many more levels \<open>MAX_RECURSION_DEPTH\<close>
  admits, that is the limit less the global \<open>recursion_depth\<close>.
\<close>

primrec part_iterate :: "nat \<Rightarrow> ('h, bool \<times> 'd) partmaps \<Rightarrow> ('h, 'd) chain_hook \<Rightarrow> ('h, bool \<times> 'd) part_hook" where
  "part_iterate 0 maps hook = part_visit hook (iterate_maps (map (\<lambda>_.
      fail_with GRUB_ERR_RECURSION_DEPTH ''maximum recursion depth exceeded'') maps))"
| "part_iterate (Suc n) maps hook = part_visit hook (iterate_maps (map (\<lambda>(_, iter).
      iter (part_iterate n maps hook)) maps))"

text \<open>\<open>depth\<close> is the value of the global \<open>recursion_depth\<close> at the call, zero outside of a walk.\<close>

definition grub_partition_iterate :: "nat \<Rightarrow> ('h, bool \<times> 'd) partmaps \<Rightarrow> ('h, 'd) chain_hook \<Rightarrow> 'd \<Rightarrow> 'h pstate
    \<Rightarrow> ((bool \<times> 'd) \<times> 'h pstate) option" where
  "grub_partition_iterate depth maps hook d ps =
     iterate_maps (map (\<lambda>(_, iter). iter (part_iterate (MAX_RECURSION_DEPTH - depth) maps hook)) maps)
       (False, d) ps"

end
