(* ===== verification/Partmap_Msdos.thy ===== *)
theory Partmap_Msdos
  imports Partition
begin

text \<open>
  The MSDOS partition map (\<open>grub/grub-core/partmap/msdos.c\<close>,
  \<open>grub/include/grub/msdos_partition.h\<close>): the primary table and the chain of extended boot
  records, with the detection of loops in that chain.
\<close>

subsection \<open>The boot record\<close>

abbreviation GRUB_PC_PARTITION_SIGNATURE :: u16 where "GRUB_PC_PARTITION_SIGNATURE \<equiv> 0xaa55"
abbreviation GRUB_PC_PARTITION_TYPE_NONE :: u8 where "GRUB_PC_PARTITION_TYPE_NONE \<equiv> 0"
abbreviation GRUB_PC_PARTITION_TYPE_EXTENDED :: u8 where "GRUB_PC_PARTITION_TYPE_EXTENDED \<equiv> 5"
abbreviation GRUB_PC_PARTITION_TYPE_WIN95_EXTENDED :: u8 where "GRUB_PC_PARTITION_TYPE_WIN95_EXTENDED \<equiv> 0xf"
abbreviation GRUB_PC_PARTITION_TYPE_LINUX_EXTENDED :: u8 where "GRUB_PC_PARTITION_TYPE_LINUX_EXTENDED \<equiv> 0x85"
abbreviation GRUB_PC_PARTITION_TYPE_LINUX_MINIX :: u8 where "GRUB_PC_PARTITION_TYPE_LINUX_MINIX \<equiv> 0x81"
abbreviation GRUB_PC_PARTITION_TYPE_GPT_DISK :: u8 where "GRUB_PC_PARTITION_TYPE_GPT_DISK \<equiv> 0xee"

text \<open>The fields of \<open>mbr.entries[i]\<close>, of 16 bytes each after 446 bytes of code.\<close>

definition ent_flag :: "bytes \<Rightarrow> nat \<Rightarrow> u8" where "ent_flag mbr i = byte_at mbr (446 + 16 * i)"
definition ent_type :: "bytes \<Rightarrow> nat \<Rightarrow> u8" where "ent_type mbr i = byte_at mbr (446 + 16 * i + 4)"
definition ent_start :: "bytes \<Rightarrow> nat \<Rightarrow> u32" where "ent_start mbr i = le32 mbr (446 + 16 * i + 8)"
definition ent_length :: "bytes \<Rightarrow> nat \<Rightarrow> u32" where "ent_length mbr i = le32 mbr (446 + 16 * i + 12)"
definition mbr_signature :: "bytes \<Rightarrow> u16" where "mbr_signature mbr = le16 mbr 510"

definition grub_msdos_partition_is_empty :: "u8 \<Rightarrow> bool" where
  "grub_msdos_partition_is_empty t \<longleftrightarrow> t = GRUB_PC_PARTITION_TYPE_NONE"

definition grub_msdos_partition_is_extended :: "u8 \<Rightarrow> bool" where
  "grub_msdos_partition_is_extended t \<longleftrightarrow>
     t = GRUB_PC_PARTITION_TYPE_EXTENDED \<or> t = GRUB_PC_PARTITION_TYPE_WIN95_EXTENDED
     \<or> t = GRUB_PC_PARTITION_TYPE_LINUX_EXTENDED"

definition slots :: "nat list" where "slots = [0, 1, 2, 3]"

text \<open>A native sector number from the table in units of 512 bytes.\<close>

definition native_units :: "grub_disk \<Rightarrow> u32 \<Rightarrow> u64" where
  "native_units disk n = push_bit (disk_log_sector_size disk - GRUB_DISK_SECTOR_BITS) (ucast n)"

subsection \<open>The walk\<close>

text \<open>The partition described by entry \<open>i\<close> of the table read at \<open>offset\<close>.\<close>

definition msdos_part :: "grub_disk \<Rightarrow> bytes \<Rightarrow> u64 \<Rightarrow> u64 \<Rightarrow> int \<Rightarrow> nat \<Rightarrow> grub_partition" where
  "msdos_part disk mbr offset delta number i =
     \<lparr> part_number = number, part_start = offset + native_units disk (ent_start mbr i) - delta,
       part_len = native_units disk (ent_length mbr i), part_offset = offset, part_index = int i,
       part_partmap = ''msdos'', part_msdostype = ent_type mbr i \<rparr>"

text \<open>
  The loop over the entries. Ordinary entries take the next number and are reported; the others
  only take a number while fewer than four have been given out. The answer says whether the hook
  stopped the walk.
\<close>

fun msdos_entries :: "('h, 'd) part_hook \<Rightarrow> bytes \<Rightarrow> u64 \<Rightarrow> u64 \<Rightarrow> nat list \<Rightarrow> int \<Rightarrow> 'd \<Rightarrow> 'h pstate
    \<Rightarrow> (bool \<times> int \<times> 'd \<times> 'h pstate) option" where
  "msdos_entries hook mbr offset delta [] number d ps = Some (False, number, d, ps)"
| "msdos_entries hook mbr offset delta (i # is) number d ps =
     (if \<not> grub_msdos_partition_is_empty (ent_type mbr i) \<and> \<not> grub_msdos_partition_is_extended (ent_type mbr i)
      then do { (stop, d1, ps1) \<leftarrow> hook (msdos_part (ps_disk ps) mbr offset delta (number + 1) i) d ps;
                if stop then Some (True, number + 1, d1, ps1)
                else msdos_entries hook mbr offset delta is (number + 1) d1 ps1 }
      else msdos_entries hook mbr offset delta is (if number < 3 then number + 1 else number) d ps)"

definition find_extended :: "bytes \<Rightarrow> nat option" where
  "find_extended mbr = find (\<lambda>i. grub_msdos_partition_is_extended (ent_type mbr i)) slots"

text \<open>The checks on a boot record, in the order of the code; the text of the failed check.\<close>

definition mbr_dummy :: "bytes \<Rightarrow> u64 \<Rightarrow> bool" where
  "mbr_dummy mbr offset \<longleftrightarrow> offset = 0 \<and> list_ex (\<lambda>i. ent_type mbr i = GRUB_PC_PARTITION_TYPE_GPT_DISK) slots"

definition mbr_bad_flag :: "bytes \<Rightarrow> bool" where
  "mbr_bad_flag mbr \<longleftrightarrow> list_ex (\<lambda>i. ent_flag mbr i AND 0x7f \<noteq> 0) slots"

definition mbr_check :: "bytes \<Rightarrow> u64 \<Rightarrow> nat \<Rightarrow> u64 \<Rightarrow> string option" where
  "mbr_check mbr offset labeln lastaddr =
     (if mbr_dummy mbr offset then Some ''dummy mbr''
      else if labeln \<noteq> 0 \<and> lastaddr = offset then Some ''loop detected''
      else if mbr_signature mbr \<noteq> GRUB_PC_PARTITION_SIGNATURE then Some ''no signature''
      else if mbr_bad_flag mbr then Some ''bad boot flag''
      else None)"

text \<open>
  The address compared with later ones is replaced whenever the count of records is a power of
  two. The count is a number here; the \<open>int\<close> of the code is the same for fewer than \<open>2 ^ 31\<close>
  records.
\<close>

definition next_lastaddr :: "nat \<Rightarrow> u64 \<Rightarrow> u64 \<Rightarrow> u64" where
  "next_lastaddr labeln offset lastaddr = (if labeln AND (labeln - 1) = 0 then offset else lastaddr)"

partial_function (option) msdos_loop :: "'h part_read \<Rightarrow> ('h, 'd) part_hook \<Rightarrow> u64 \<Rightarrow> u64 \<Rightarrow> u64 \<Rightarrow> int
    \<Rightarrow> nat \<Rightarrow> u64 \<Rightarrow> 'd \<Rightarrow> 'h pstate \<Rightarrow> (grub_err_t \<times> 'd \<times> 'h pstate) option" where
  "msdos_loop rd hook delta offset ext_offset number labeln lastaddr d ps =
     do { (e, mbr, ps1) \<leftarrow> rd offset 0 512 ps;
          if e \<noteq> GRUB_ERR_NONE then Some (p_errno ps1, d, ps1)
          else case mbr_check mbr offset labeln lastaddr of
            Some msg \<Rightarrow> fail_with GRUB_ERR_BAD_PART_TABLE msg d ps1
          | None \<Rightarrow>
              do { (stop, number1, d1, ps2) \<leftarrow> msdos_entries hook mbr offset delta slots number d ps1;
                   if stop then Some (p_errno ps2, d1, ps2)
                   else case find_extended mbr of
                     None \<Rightarrow> Some (p_errno ps2, d1, ps2)
                   | Some i \<Rightarrow>
                       let offset1 = ext_offset + native_units (ps_disk ps2) (ent_start mbr i)
                       in msdos_loop rd hook delta offset1
                            (if ext_offset = 0 then offset1 else ext_offset) number1 (Suc labeln)
                            (next_lastaddr (Suc labeln) offset lastaddr) d1 ps2 } }"

definition grub_partition_msdos_iterate :: "'h part_read \<Rightarrow> ('h, 'd) part_iter" where
  "grub_partition_msdos_iterate rd hook d ps =
     (case cur_partition ps of
        [] \<Rightarrow> msdos_loop rd hook 0 0 0 (-1) 0 1 d ps
      | q # _ \<Rightarrow>
          if part_partmap q = ''msdos'' then
            if part_msdostype q = GRUB_PC_PARTITION_TYPE_LINUX_MINIX
            then msdos_loop rd hook (part_start q) 0 0 (-1) 0 1 d ps
            else fail_with GRUB_ERR_BAD_PART_TABLE ''no embedding supported'' d ps
          else msdos_loop rd hook 0 0 0 (-1) 0 1 d ps)"

end
