(* ===== verification/Partmap_Gpt.thy ===== *)
theory Partmap_Gpt
  imports Partmap_Msdos
begin

text \<open>
  The GUID partition map (\<open>grub/grub-core/partmap/gpt.c\<close>,
  \<open>grub/include/grub/gpt_partition.h\<close>): the protective boot record, the search for the header over
  the possible sector sizes, and the walk over the entry array.
\<close>

abbreviation MAX_SECTOR_LOG :: nat where "MAX_SECTOR_LOG \<equiv> 7"

definition grub_gpt_magic :: bytes where
  "grub_gpt_magic = [0x45, 0x46, 0x49, 0x20, 0x50, 0x41, 0x52, 0x54]"

definition gpt_partitions :: "bytes \<Rightarrow> u64" where "gpt_partitions gpt = le64 gpt 72"
definition gpt_maxpart :: "bytes \<Rightarrow> u32" where "gpt_maxpart gpt = le32 gpt 80"
definition gpt_partentry_size :: "bytes \<Rightarrow> u32" where "gpt_partentry_size gpt = le32 gpt 84"

definition gpt_used :: "bytes \<Rightarrow> bool" where
  "gpt_used entry \<longleftrightarrow> grub_memcmp (replicate 16 0) (take 16 entry) 16 \<noteq> 0"

definition gptent_start :: "bytes \<Rightarrow> u64" where "gptent_start entry = le64 entry 32"
definition gptent_end :: "bytes \<Rightarrow> u64" where "gptent_end entry = le64 entry 40"

text \<open>
  The header is tried at sector 1 of every sector size from 512 bytes on. A failed read ends the
  walk (\<open>Inl\<close>); \<open>Inr None\<close> is no header at any size.
\<close>

fun gpt_find_header :: "'h part_read \<Rightarrow> nat list \<Rightarrow> 'h pstate
    \<Rightarrow> ((grub_err_t + (nat \<times> bytes) option) \<times> 'h pstate) option" where
  "gpt_find_header rd [] ps = Some (Inr None, ps)"
| "gpt_find_header rd (k # ks) ps =
     do { (e, gpt, ps1) \<leftarrow> rd (push_bit k 1) 0 92 ps;
          if e \<noteq> GRUB_ERR_NONE then Some (Inl (p_errno ps1), ps1)
          else if grub_memcmp gpt grub_gpt_magic 8 = 0 then Some (Inr (Some (k, gpt)), ps1)
          else gpt_find_header rd ks ps1 }"

text \<open>The carry of the offset within a sector into the sector number.\<close>

function gpt_carry :: "u64 \<Rightarrow> u64 \<Rightarrow> u64 \<times> u64" where
  "gpt_carry entries last_offset =
     (if last_offset \<ge> 512 then gpt_carry (entries + 1) (last_offset - 512) else (entries, last_offset))"
  by pat_completeness auto
termination
  by (relation "measure (\<lambda>(_, l). unat l)") (auto simp: word_le_nat_alt unat_minus_exact)

declare gpt_carry.simps [simp del]

text \<open>
  The partition of an entry. \<open>p0\<close> is what the uninitialised structure on the stack held: the type
  field that only the MSDOS map uses keeps its value.
\<close>

definition gpt_part :: "grub_partition \<Rightarrow> bytes \<Rightarrow> nat \<Rightarrow> nat \<Rightarrow> u64 \<Rightarrow> u64 \<Rightarrow> grub_partition" where
  "gpt_part p0 entry sector_log i entries last_offset =
     p0\<lparr> part_start := push_bit sector_log (gptent_start entry),
         part_len := push_bit sector_log (gptent_end entry - gptent_start entry + 1),
         part_offset := entries, part_number := sint (of_nat i :: u32), part_index := uint last_offset,
         part_partmap := ''gpt'' \<rparr>"

text \<open>The loop over the entries, with the number of entries still to read.\<close>

fun gpt_entries :: "'h part_read \<Rightarrow> grub_partition \<Rightarrow> ('h, 'd) part_hook \<Rightarrow> u32 \<Rightarrow> nat \<Rightarrow> nat \<Rightarrow> nat \<Rightarrow> u64 \<Rightarrow> u64
    \<Rightarrow> 'd \<Rightarrow> 'h pstate \<Rightarrow> (grub_err_t \<times> 'd \<times> 'h pstate) option" where
  "gpt_entries rd p0 hook psize sector_log 0 i entries last_offset d ps = Some (GRUB_ERR_NONE, d, ps)"
| "gpt_entries rd p0 hook psize sector_log (Suc n) i entries last_offset d ps =
     do { (e, entry, ps1) \<leftarrow> rd entries last_offset 128 ps;
          if e \<noteq> GRUB_ERR_NONE then Some (p_errno ps1, d, ps1)
          else do { (stop, d1, ps2) \<leftarrow>
                      (if gpt_used entry then hook (gpt_part p0 entry sector_log i entries last_offset) d ps1
                       else Some (False, d, ps1));
                    if stop then Some (p_errno ps2, d1, ps2)
                    else case gpt_carry entries (last_offset + ucast psize) of
                      (entries1, last_offset1) \<Rightarrow>
                        gpt_entries rd p0 hook psize sector_log n (Suc i) entries1 last_offset1 d1 ps2 } }"

definition gpt_size_bad :: "bytes \<Rightarrow> bool" where
  "gpt_size_bad gpt \<longleftrightarrow> gpt_partentry_size gpt < 128 \<or> gpt_partentry_size gpt mod 128 \<noteq> 0"

definition gpt_table :: "'h part_read \<Rightarrow> grub_partition \<Rightarrow> ('h, 'd) part_hook \<Rightarrow> nat \<Rightarrow> bytes
    \<Rightarrow> 'd \<Rightarrow> 'h pstate \<Rightarrow> (grub_err_t \<times> 'd \<times> 'h pstate) option" where
  "gpt_table rd p0 hook sector_log gpt d ps =
     (if gpt_size_bad gpt then fail_with GRUB_ERR_BAD_PART_TABLE ''invalid GPT entry size'' d ps
      else gpt_entries rd p0 hook (gpt_partentry_size gpt) sector_log (unat (gpt_maxpart gpt)) 0
             (push_bit sector_log (gpt_partitions gpt)) 0 d ps)"

definition grub_gpt_partition_map_iterate :: "'h part_read \<Rightarrow> grub_partition \<Rightarrow> ('h, 'd) part_iter" where
  "grub_gpt_partition_map_iterate rd p0 hook d ps =
     do { (e, mbr, ps1) \<leftarrow> rd 0 0 512 ps;
          if e \<noteq> GRUB_ERR_NONE then Some (p_errno ps1, d, ps1)
          else if mbr_signature mbr \<noteq> GRUB_PC_PARTITION_SIGNATURE
          then fail_with GRUB_ERR_BAD_PART_TABLE ''no signature'' d ps1
          else if \<not> list_ex (\<lambda>i. ent_type mbr i = GRUB_PC_PARTITION_TYPE_GPT_DISK) slots
          then fail_with GRUB_ERR_BAD_PART_TABLE ''no GPT partition map found'' d ps1
          else do { (r, ps2) \<leftarrow> gpt_find_header rd [0..<MAX_SECTOR_LOG] ps1;
                    case r of
                      Inl e2 \<Rightarrow> Some (e2, d, ps2)
                    | Inr None \<Rightarrow> fail_with GRUB_ERR_BAD_PART_TABLE ''no valid GPT header'' d ps2
                    | Inr (Some (sector_log, gpt)) \<Rightarrow> gpt_table rd p0 hook sector_log gpt d ps2 } }"

end
