(* ===== verification/Partmap_Labels.thy ===== *)
theory Partmap_Labels
  imports Partition
begin

text \<open>
  Partition maps whose table is one block that is checked as a whole: Sun
  (\<open>partmap/sun.c\<close>), Sun PC (\<open>partmap/sunpc.c\<close>), SGI volume headers (\<open>partmap/dvh.c\<close>) and Acorn
  (\<open>partmap/acorn.c\<close>), and DragonFly labels (\<open>partmap/dfly.c\<close>), read entry by entry. \<open>p0\<close> is
  what the uninitialised partition structure of the C function held; a field the function does not
  set keeps its value.
\<close>

subsection \<open>Sun\<close>

abbreviation GRUB_PARTMAP_SUN_MAGIC :: u16 where "GRUB_PARTMAP_SUN_MAGIC \<equiv> 0xDABE"
abbreviation GRUB_PARTMAP_SUN_WHOLE_DISK_ID :: u8 where "GRUB_PARTMAP_SUN_WHOLE_DISK_ID \<equiv> 0x05"

text \<open>The exclusive or of the 256 half words of a label, shared by the two Sun maps.\<close>

definition grub_sun_is_valid :: "bytes \<Rightarrow> bool" where
  "grub_sun_is_valid label \<longleftrightarrow> fold (\<lambda>i sum. sum XOR le16 label (2 * i)) [0..<256] 0 = 0"

definition sun_id :: "bytes \<Rightarrow> nat \<Rightarrow> u8" where
  "sun_id block i = byte_at block (142 + 4 * i + 1)"

definition sun_part :: "grub_partition \<Rightarrow> bytes \<Rightarrow> nat \<Rightarrow> grub_partition" where
  "sun_part p0 block i =
     p0\<lparr> part_start := ucast (be32 block (444 + 8 * i)) * ucast (be16 block 436) * ucast (be16 block 438),
         part_len := ucast (be32 block (444 + 8 * i + 4)),
         part_number := int i, part_index := int i, part_partmap := ''sun'' \<rparr>"

definition sun_parts :: "grub_partition \<Rightarrow> bytes \<Rightarrow> grub_partition list" where
  "sun_parts p0 block =
     filter (\<lambda>p. part_len p \<noteq> 0)
       (map (sun_part p0 block)
         (filter (\<lambda>i. sun_id block i \<noteq> 0 \<and> sun_id block i \<noteq> GRUB_PARTMAP_SUN_WHOLE_DISK_ID) [0..<8]))"

definition sun_partition_map_iterate :: "'h part_read \<Rightarrow> grub_partition \<Rightarrow> ('h, 'd) part_iter" where
  "sun_partition_map_iterate rd p0 hook d ps =
     do { (e, block, ps1) \<leftarrow> rd 0 0 512 ps;
          if e \<noteq> GRUB_ERR_NONE then Some (e, d, ps1)
          else if be16 block 508 \<noteq> GRUB_PARTMAP_SUN_MAGIC
          then fail_with GRUB_ERR_BAD_PART_TABLE ''not a sun partition table'' d ps1
          else if \<not> grub_sun_is_valid block
          then fail_with GRUB_ERR_BAD_PART_TABLE ''invalid checksum'' d ps1
          else do { (_, d1, ps2) \<leftarrow> call_hooks hook (sun_parts p0 block) d ps1;
                    Some (p_errno ps2, d1, ps2) } }"

subsection \<open>Sun PC\<close>

abbreviation GRUB_PARTMAP_SUN_PC_MAGIC :: u16 where "GRUB_PARTMAP_SUN_PC_MAGIC \<equiv> 0xDABE"
abbreviation GRUB_PARTMAP_SUN_PC_WHOLE_DISK_ID :: u16 where "GRUB_PARTMAP_SUN_PC_WHOLE_DISK_ID \<equiv> 0x05"

definition sun_pc_id :: "bytes \<Rightarrow> nat \<Rightarrow> u16" where
  "sun_pc_id block i = le16 block (72 + 12 * i)"

text \<open>The partition structure is allocated zeroed; table offset and index are left zero.\<close>

definition sun_pc_part :: "bytes \<Rightarrow> nat \<Rightarrow> grub_partition" where
  "sun_pc_part block i =
     \<lparr> part_number = int i, part_start = ucast (le32 block (72 + 12 * i + 4)),
       part_len = ucast (le32 block (72 + 12 * i + 8)), part_offset = 0, part_index = 0,
       part_partmap = ''sunpc'', part_msdostype = 0 \<rparr>"

definition sun_pc_parts :: "bytes \<Rightarrow> grub_partition list" where
  "sun_pc_parts block =
     filter (\<lambda>p. part_len p \<noteq> 0)
       (map (sun_pc_part block)
         (filter (\<lambda>i. sun_pc_id block i \<noteq> 0 \<and> sun_pc_id block i \<noteq> GRUB_PARTMAP_SUN_PC_WHOLE_DISK_ID) [0..<16]))"

definition sun_pc_partition_map_iterate :: "'h part_read \<Rightarrow> ('h, 'd) part_iter" where
  "sun_pc_partition_map_iterate rd hook d ps0 =
     (case p_malloc ps0 of
        (got, ps) \<Rightarrow>
          if \<not> got then Some (p_errno ps, d, ps)
          else do { (e, block, ps1) \<leftarrow> rd 1 0 512 ps;
                    if e \<noteq> GRUB_ERR_NONE then Some (e, d, ps1)
                    else if le16 block 508 \<noteq> GRUB_PARTMAP_SUN_PC_MAGIC
                    then fail_with GRUB_ERR_BAD_PART_TABLE ''not a sun_pc partition table'' d ps1
                    else if \<not> grub_sun_is_valid block
                    then fail_with GRUB_ERR_BAD_PART_TABLE ''invalid checksum'' d ps1
                    else do { (_, d1, ps2) \<leftarrow> call_hooks hook (sun_pc_parts block) d ps1;
                              Some (p_errno ps2, d1, ps2) } })"

subsection \<open>SGI volume header\<close>

abbreviation DVH_MAGIC :: u32 where "DVH_MAGIC \<equiv> 0x0be5a941"

definition grub_dvh_is_valid :: "bytes \<Rightarrow> bool" where
  "grub_dvh_is_valid label \<longleftrightarrow> fold (\<lambda>i sum. sum + be32 label (4 * i)) [0..<128] 0 = 0"

definition dvh_length :: "bytes \<Rightarrow> nat \<Rightarrow> u32" where
  "dvh_length block i = be32 block (312 + 12 * i)"

definition dvh_part :: "grub_partition \<Rightarrow> bytes \<Rightarrow> nat \<Rightarrow> grub_partition" where
  "dvh_part p0 block i =
     p0\<lparr> part_start := ucast (be32 block (312 + 12 * i + 4)), part_len := ucast (dvh_length block i),
         part_number := int i, part_index := int i, part_partmap := ''dvh'' \<rparr>"

definition dvh_parts :: "grub_partition \<Rightarrow> bytes \<Rightarrow> grub_partition list" where
  "dvh_parts p0 block = map (dvh_part p0 block) (filter (\<lambda>i. dvh_length block i \<noteq> 0 \<and> i \<noteq> 10) [0..<16])"

definition dvh_partition_map_iterate :: "'h part_read \<Rightarrow> grub_partition \<Rightarrow> ('h, 'd) part_iter" where
  "dvh_partition_map_iterate rd p0 hook d ps =
     do { (e, block, ps1) \<leftarrow> rd 0 0 512 ps;
          if e \<noteq> GRUB_ERR_NONE then Some (e, d, ps1)
          else if DVH_MAGIC \<noteq> be32 block 0
          then fail_with GRUB_ERR_BAD_PART_TABLE ''not a dvh partition table'' d ps1
          else if \<not> grub_dvh_is_valid block
          then fail_with GRUB_ERR_BAD_PART_TABLE ''invalid checksum'' d ps1
          else do { (_, d1, ps2) \<leftarrow> call_hooks hook (dvh_parts p0 block) d ps1;
                    Some (p_errno ps2, d1, ps2) } }"

subsection \<open>Acorn\<close>

abbreviation LINUX_NATIVE_MAGIC :: u32 where "LINUX_NATIVE_MAGIC \<equiv> 0xdeafa1de"
abbreviation LINUX_SWAP_MAGIC :: u32 where "LINUX_SWAP_MAGIC \<equiv> 0xdeafab1e"
abbreviation LINUX_MAP_ENTRIES :: nat where "LINUX_MAP_ENTRIES \<equiv> 42"

definition acorn_checksum :: "bytes \<Rightarrow> u32" where
  "acorn_checksum boot =
     fold (\<lambda>i c. (c AND 0xff) + drop_bit 8 c + ucast (byte_at boot i)) [0..<511] 0"

text \<open>The first sector of the Linux map: cylinder times sectors per track times heads, in 32 bits.\<close>

definition acorn_map_sector :: "bytes \<Rightarrow> u64" where
  "acorn_map_sector boot =
     (let heads = ucast (byte_at boot 450) + (drop_bit 6 (ucast (byte_at boot 456)) AND 1) :: u32;
          sectors_per_cylinder = ucast (byte_at boot 449) * heads
      in ucast (ucast (le16 boot 509) * sectors_per_cylinder))"

text \<open>The error of the call with the sector and the contents of the map.\<close>

definition acorn_partition_map_find :: "'h part_read \<Rightarrow> 'h pstate \<Rightarrow> (grub_err_t \<times> u64 \<times> bytes \<times> 'h pstate) option" where
  "acorn_partition_map_find rd ps =
     do { (e, boot, ps1) \<leftarrow> rd 6 0 512 ps;
          if e \<noteq> GRUB_ERR_NONE then Some (e, 0, [], ps1)
          else if byte_at boot 508 AND 15 \<noteq> 9 \<or> ucast (acorn_checksum boot) \<noteq> byte_at boot 511
          then Some (GRUB_ERR_BAD_PART_TABLE, 0, [],
                 p_error GRUB_ERR_BAD_PART_TABLE ''Linux/ADFS partition map not found'' ps1)
          else do { (e2, m, ps2) \<leftarrow> rd (acorn_map_sector boot) 0 504 ps1;
                    Some (e2, acorn_map_sector boot, m, ps2) } }"

definition acorn_part :: "grub_partition \<Rightarrow> bytes \<Rightarrow> u64 \<Rightarrow> nat \<Rightarrow> grub_partition" where
  "acorn_part p0 m sector i =
     p0\<lparr> part_start := sector + ucast (le32 m (12 * i + 4)), part_len := ucast (le32 m (12 * i + 8)),
         part_offset := 6, part_number := int i, part_index := int i, part_partmap := ''acorn'' \<rparr>"

text \<open>The entries up to the first one that carries neither magic number.\<close>

definition acorn_parts :: "grub_partition \<Rightarrow> bytes \<Rightarrow> u64 \<Rightarrow> grub_partition list" where
  "acorn_parts p0 m sector =
     map (acorn_part p0 m sector)
       (takeWhile (\<lambda>i. le32 m (12 * i) = LINUX_NATIVE_MAGIC \<or> le32 m (12 * i) = LINUX_SWAP_MAGIC)
         [0..<LINUX_MAP_ENTRIES])"

definition acorn_partition_map_iterate :: "'h part_read \<Rightarrow> grub_partition \<Rightarrow> ('h, 'd) part_iter" where
  "acorn_partition_map_iterate rd p0 hook d ps =
     do { (e, sector, m, ps1) \<leftarrow> acorn_partition_map_find rd ps;
          if e \<noteq> GRUB_ERR_NONE then Some (e, d, ps1)
          else do { (stop, d1, ps2) \<leftarrow> call_hooks hook (acorn_parts p0 m sector) d ps1;
                    Some (if stop then p_errno ps2 else GRUB_ERR_NONE, d1, ps2) } }"

subsection \<open>DragonFly disklabel64\<close>

abbreviation GRUB_DISKLABEL64_MAGIC :: u32 where "GRUB_DISKLABEL64_MAGIC \<equiv> 0xc4464c59"
abbreviation GRUB_PARTITION_DISKLABEL64_HEADER_SIZE :: u32 where "GRUB_PARTITION_DISKLABEL64_HEADER_SIZE \<equiv> 200"
abbreviation GRUB_PARTITION_DISKLABEL64_ENTRY_SIZE :: u32 where "GRUB_PARTITION_DISKLABEL64_ENTRY_SIZE \<equiv> 64"

definition dfly_part :: "grub_partition \<Rightarrow> bytes \<Rightarrow> nat \<Rightarrow> u64 \<Rightarrow> u64 \<Rightarrow> grub_partition" where
  "dfly_part p0 dpart partno sector offset =
     p0\<lparr> part_number := sint (of_nat partno :: u32),
         part_start := drop_bit GRUB_DISK_SECTOR_BITS (le64 dpart 0),
         part_len := drop_bit GRUB_DISK_SECTOR_BITS (le64 dpart 8),
         part_offset := sector, part_index := uint offset, part_partmap := ''dfly'' \<rparr>"

text \<open>The loop over the entries, with the number of entries still to read.\<close>

fun dfly_entries :: "'h part_read \<Rightarrow> grub_partition \<Rightarrow> ('h, 'd) part_hook \<Rightarrow> nat \<Rightarrow> nat \<Rightarrow> u32 \<Rightarrow> 'd \<Rightarrow> 'h pstate
    \<Rightarrow> (grub_err_t \<times> 'd \<times> 'h pstate) option" where
  "dfly_entries rd p0 hook 0 partno pos d ps = Some (GRUB_ERR_NONE, d, ps)"
| "dfly_entries rd p0 hook (Suc n) partno pos d ps =
     (let sector = ucast (drop_bit GRUB_DISK_SECTOR_BITS pos); offset = ucast (pos AND (512 - 1));
          pos1 = pos + GRUB_PARTITION_DISKLABEL64_ENTRY_SIZE
      in do { (e, dpart, ps1) \<leftarrow> rd sector offset 16 ps;
              if e \<noteq> GRUB_ERR_NONE then Some (p_errno ps1, d, ps1)
              else if le64 dpart 8 = 0 then dfly_entries rd p0 hook n (Suc partno) pos1 d ps1
              else do { (stop, d1, ps2) \<leftarrow> hook (dfly_part p0 dpart partno sector offset) d ps1;
                        if stop then Some (p_errno ps2, d1, ps2)
                        else dfly_entries rd p0 hook n (Suc partno) pos1 d1 ps2 } })"

definition dfly_partition_map_iterate :: "'h part_read \<Rightarrow> grub_partition \<Rightarrow> ('h, 'd) part_iter" where
  "dfly_partition_map_iterate rd p0 hook d ps =
     do { (e, label, ps1) \<leftarrow> rd 1 0 16 ps;
          if e \<noteq> GRUB_ERR_NONE then Some (p_errno ps1, d, ps1)
          else if le32 label 0 \<noteq> GRUB_DISKLABEL64_MAGIC
          then fail_with GRUB_ERR_BAD_PART_TABLE ''disklabel64 not found'' d ps1
          else dfly_entries rd p0 hook (unat (le32 label 12)) 0
                 (GRUB_PARTITION_DISKLABEL64_HEADER_SIZE + 512) d ps1 }"

end
