(* ===== verification/Partmap_Lists.thy ===== *)
theory Partmap_Lists
  imports Partition
begin

text \<open>
  Partition maps that follow the table on the disk: Apple (\<open>partmap/apple.c\<close>), the linked list of
  Amiga blocks (\<open>partmap/amiga.c\<close>) and the textual table of Plan 9 (\<open>partmap/plan.c\<close>). Their loops
  end when the data on the disk says so. \<open>p0\<close> is what the uninitialised partition structure of the C
  function held.
\<close>

subsection \<open>Apple\<close>

abbreviation GRUB_APPLE_HEADER_MAGIC :: u16 where "GRUB_APPLE_HEADER_MAGIC \<equiv> 0x4552"
abbreviation GRUB_APPLE_PART_MAGIC :: u16 where "GRUB_APPLE_PART_MAGIC \<equiv> 0x504D"

definition apple_units :: "u16 \<Rightarrow> u32 \<Rightarrow> u64" where
  "apple_units blocksize n = (ucast n * ucast blocksize) div 512"

definition apple_part :: "grub_partition \<Rightarrow> u16 \<Rightarrow> bytes \<Rightarrow> u32 \<Rightarrow> int \<Rightarrow> grub_partition" where
  "apple_part p0 blocksize apart pos partno =
     p0\<lparr> part_start := apple_units blocksize (be32 apart 8), part_len := apple_units blocksize (be32 apart 12),
         part_offset := ucast pos, part_index := partno, part_number := partno, part_partmap := ''apple'' \<rparr>"

text \<open>The end of the walk after \<open>partno\<close> partitions.\<close>

definition apple_finish :: "int \<Rightarrow> 'd \<Rightarrow> 'h pstate \<Rightarrow> (grub_err_t \<times> 'd \<times> 'h pstate) option" where
  "apple_finish partno d ps =
     (if partno \<noteq> 0 then Some (GRUB_ERR_NONE, d, ps)
      else fail_with GRUB_ERR_BAD_PART_TABLE ''Apple partition map not found'' d ps)"

partial_function (option) apple_loop :: "'h part_read \<Rightarrow> grub_partition \<Rightarrow> ('h, 'd) part_hook \<Rightarrow> u16 \<Rightarrow> u32 \<Rightarrow> int
    \<Rightarrow> int \<Rightarrow> 'd \<Rightarrow> 'h pstate \<Rightarrow> (grub_err_t \<times> 'd \<times> 'h pstate) option" where
  "apple_loop rd p0 hook blocksize pos partno partnum d ps =
     do { (e, apart, ps1) \<leftarrow> rd (ucast (pos div 512)) (ucast (pos mod 512)) 512 ps;
          if e \<noteq> GRUB_ERR_NONE then Some (p_errno ps1, d, ps1)
          else if be16 apart 0 \<noteq> GRUB_APPLE_PART_MAGIC then apple_finish partno d ps1
          else let partnum1 = (if partnum = 0 then sint (be32 apart 4) else partnum)
          in do { (stop, d1, ps2) \<leftarrow> hook (apple_part p0 blocksize apart pos partno) d ps1;
                  if stop then Some (p_errno ps2, d1, ps2)
                  else if partno + 1 < partnum1
                  then apple_loop rd p0 hook blocksize (pos + ucast blocksize) (partno + 1) partnum1 d1 ps2
                  else apple_finish (partno + 1) d1 ps2 } }"

definition apple_partition_map_iterate :: "'h part_read \<Rightarrow> grub_partition \<Rightarrow> ('h, 'd) part_iter" where
  "apple_partition_map_iterate rd p0 hook d ps =
     do { (e, aheader, ps1) \<leftarrow> rd 0 0 4 ps;
          if e \<noteq> GRUB_ERR_NONE then Some (p_errno ps1, d, ps1)
          else if be16 aheader 0 \<noteq> GRUB_APPLE_HEADER_MAGIC
          then fail_with GRUB_ERR_BAD_PART_TABLE ''Apple partition map not found'' d ps1
          else apple_loop rd p0 hook (be16 aheader 2) (ucast (be16 aheader 2)) 0 0 d ps1 }"

subsection \<open>Amiga\<close>

abbreviation AMIGA_CHECKSUM_WORDS :: nat where "AMIGA_CHECKSUM_WORDS \<equiv> 128"

definition GRUB_AMIGA_RDSK_MAGIC :: bytes where "GRUB_AMIGA_RDSK_MAGIC = [0x52, 0x44, 0x53, 0x4b]"
definition GRUB_AMIGA_PART_MAGIC :: bytes where "GRUB_AMIGA_PART_MAGIC = [0x50, 0x41, 0x52, 0x54]"

text \<open>The sum of as many words as the block says, at most the whole block.\<close>

definition amiga_checksum_words :: "bytes \<Rightarrow> nat" where
  "amiga_checksum_words buf =
     (if be32 buf 4 AND NOT 127 \<noteq> 0 then AMIGA_CHECKSUM_WORDS else unat (be32 buf 4))"

definition amiga_partition_map_checksum :: "bytes \<Rightarrow> u32" where
  "amiga_partition_map_checksum buf =
     fold (\<lambda>i r. r + be32 buf (4 * i)) [0..<amiga_checksum_words buf] 0"

text \<open>The search of the first blocks for the descriptor; \<open>-1\<close> when none of them is one.\<close>

fun amiga_find_rdsk :: "'h part_read \<Rightarrow> nat list \<Rightarrow> 'h pstate \<Rightarrow> ((grub_err_t + u32) \<times> 'h pstate) option" where
  "amiga_find_rdsk rd [] ps = Some (Inr 0xffffffff, ps)"
| "amiga_find_rdsk rd (pos # poss) ps =
     do { (e, rdsk, ps1) \<leftarrow> rd (of_nat pos) 0 512 ps;
          if e \<noteq> GRUB_ERR_NONE then Some (Inl (p_errno ps1), ps1)
          else if grub_memcmp rdsk GRUB_AMIGA_RDSK_MAGIC 4 = 0 \<and> amiga_partition_map_checksum rdsk = 0
          then Some (Inr (be32 rdsk 28), ps1)
          else amiga_find_rdsk rd poss ps1 }"

text \<open>Start and length are computed in 32 bits; the signed block number is widened.\<close>

definition amiga_part :: "grub_partition \<Rightarrow> bytes \<Rightarrow> u32 \<Rightarrow> int \<Rightarrow> grub_partition" where
  "amiga_part p0 apart next partno =
     (let heads = be32 apart 140; block_per_track = be32 apart 148;
          lowcyl = be32 apart 164; highcyl = be32 apart 168
      in p0\<lparr> part_start := ucast (lowcyl * heads * block_per_track),
             part_len := ucast ((highcyl - lowcyl + 1) * heads * block_per_track),
             part_offset := scast next, part_number := partno, part_index := 0,
             part_partmap := ''amiga'' \<rparr>)"

partial_function (option) amiga_loop :: "'h part_read \<Rightarrow> grub_partition \<Rightarrow> ('h, 'd) part_hook \<Rightarrow> u32 \<Rightarrow> int
    \<Rightarrow> 'd \<Rightarrow> 'h pstate \<Rightarrow> (grub_err_t \<times> 'd \<times> 'h pstate) option" where
  "amiga_loop rd p0 hook next partno d ps =
     (if next = 0xffffffff then Some (GRUB_ERR_NONE, d, ps)
      else do { (e, apart, ps1) \<leftarrow> rd (scast next) 0 512 ps;
                if e \<noteq> GRUB_ERR_NONE then Some (p_errno ps1, d, ps1)
                else if grub_memcmp apart GRUB_AMIGA_PART_MAGIC 4 \<noteq> 0 \<or> amiga_partition_map_checksum apart \<noteq> 0
                then fail_with GRUB_ERR_BAD_PART_TABLE ''invalid Amiga partition map'' d ps1
                else do { (stop, d1, ps2) \<leftarrow> hook (amiga_part p0 apart next partno) d ps1;
                          if stop then Some (p_errno ps2, d1, ps2)
                          else amiga_loop rd p0 hook (be32 apart 16) (partno + 1) d1 ps2 } })"

definition amiga_partition_map_iterate :: "'h part_read \<Rightarrow> grub_partition \<Rightarrow> ('h, 'd) part_iter" where
  "amiga_partition_map_iterate rd p0 hook d ps =
     do { (r, ps1) \<leftarrow> amiga_find_rdsk rd [0..<15] ps;
          case r of
            Inl e \<Rightarrow> Some (e, d, ps1)
          | Inr next \<Rightarrow>
              if next = 0xffffffff
              then fail_with GRUB_ERR_BAD_PART_TABLE ''Amiga partition map not found'' d ps1
              else amiga_loop rd p0 hook next 0 d ps1 }"

subsection \<open>Plan 9\<close>

text \<open>
  The table is text at sector 1. \<open>ptr\<close> is the position in it, an \<open>int\<close> in the code, which the
  number here agrees with below \<open>2 ^ 31\<close>. A loop gives the error of a failed read, or the last
  character read with the position behind it.
\<close>

definition plan_sig :: bytes where "plan_sig = [112, 97, 114, 116, 32]"

abbreviation plan_digit :: "u8 \<Rightarrow> bool" where "plan_digit c \<equiv> grub_isdigit (sint c)"

partial_function (option) plan_skip :: "'h part_read \<Rightarrow> nat \<Rightarrow> 'h pstate \<Rightarrow> ((grub_err_t + u8 \<times> nat) \<times> 'h pstate) option" where
  "plan_skip rd ptr ps =
     do { (e, buf, ps1) \<leftarrow> rd 1 (of_nat ptr) 1 ps;
          if e \<noteq> GRUB_ERR_NONE then Some (Inl e, ps1)
          else let c = byte_at buf 0
          in if plan_digit c \<or> grub_isalpha (sint c) then plan_skip rd (Suc ptr) ps1
             else Some (Inr (c, Suc ptr), ps1) }"

partial_function (option) plan_number :: "'h part_read \<Rightarrow> u64 \<Rightarrow> nat \<Rightarrow> 'h pstate
    \<Rightarrow> ((grub_err_t + u8 \<times> u64 \<times> nat) \<times> 'h pstate) option" where
  "plan_number rd v ptr ps =
     do { (e, buf, ps1) \<leftarrow> rd 1 (of_nat ptr) 1 ps;
          if e \<noteq> GRUB_ERR_NONE then Some (Inl e, ps1)
          else let c = byte_at buf 0
          in if \<not> plan_digit c then Some (Inr (c, v, Suc ptr), ps1)
             else plan_number rd (v * 10 + word_of_int (sint c - 48)) (Suc ptr) ps1 }"

text \<open>One line of the table: an error, a line that ends the table (\<open>None\<close>), or start, length and position.\<close>

definition plan_fields :: "'h part_read \<Rightarrow> nat \<Rightarrow> 'h pstate
    \<Rightarrow> ((grub_err_t + (u64 \<times> u64 \<times> nat) option) \<times> 'h pstate) option" where
  "plan_fields rd ptr ps =
     do { (r1, ps1) \<leftarrow> plan_skip rd ptr ps;
          case r1 of
            Inl e \<Rightarrow> Some (Inl e, ps1)
          | Inr (c1, ptr1) \<Rightarrow>
              if c1 \<noteq> 32 then Some (Inr None, ps1)
              else do { (r2, ps2) \<leftarrow> plan_number rd 0 ptr1 ps1;
                        case r2 of
                          Inl e \<Rightarrow> Some (Inl e, ps2)
                        | Inr (c2, start, ptr2) \<Rightarrow>
                            if c2 \<noteq> 32 then Some (Inr None, ps2)
                            else do { (r3, ps3) \<leftarrow> plan_number rd 0 ptr2 ps2;
                                      case r3 of
                                        Inl e \<Rightarrow> Some (Inl e, ps3)
                                      | Inr (c3, len, ptr3) \<Rightarrow>
                                          if c3 \<noteq> 10 then Some (Inr None, ps3)
                                          else Some (Inr (Some (start, len - start, ptr3)), ps3) } } }"

definition plan_part :: "nat \<Rightarrow> int \<Rightarrow> u64 \<Rightarrow> u64 \<Rightarrow> grub_partition" where
  "plan_part ptr number start len =
     \<lparr> part_number = number, part_start = start, part_len = len, part_offset = of_nat (ptr div 512 + 1),
       part_index = int (ptr mod 512), part_partmap = ''plan'', part_msdostype = 0 \<rparr>"

definition plan_finish :: "int \<Rightarrow> 'd \<Rightarrow> 'h pstate \<Rightarrow> (grub_err_t \<times> 'd \<times> 'h pstate) option" where
  "plan_finish number d ps =
     (if number = 0 then fail_with GRUB_ERR_BAD_PART_TABLE ''not a plan partition table'' d ps
      else Some (GRUB_ERR_NONE, d, ps))"

partial_function (option) plan_loop :: "'h part_read \<Rightarrow> ('h, 'd) part_hook \<Rightarrow> int \<Rightarrow> nat \<Rightarrow> 'd \<Rightarrow> 'h pstate
    \<Rightarrow> (grub_err_t \<times> 'd \<times> 'h pstate) option" where
  "plan_loop rd hook number ptr d ps =
     do { (e, sig, ps1) \<leftarrow> rd 1 (of_nat ptr) 5 ps;
          if e \<noteq> GRUB_ERR_NONE then Some (e, d, ps1)
          else if grub_memcmp sig plan_sig 5 \<noteq> 0 then plan_finish number d ps1
          else do { (r, ps2) \<leftarrow> plan_fields rd (ptr + 5) ps1;
                    case r of
                      Inl e2 \<Rightarrow> Some (e2, d, ps2)
                    | Inr None \<Rightarrow> plan_finish number d ps2
                    | Inr (Some (start, len, ptr1)) \<Rightarrow>
                        do { (stop, d1, ps3) \<leftarrow> hook (plan_part ptr number start len) d ps2;
                             if stop then Some (p_errno ps3, d1, ps3)
                             else plan_loop rd hook (number + 1) ptr1 d1 ps3 } } }"

definition plan_partition_map_iterate :: "'h part_read \<Rightarrow> ('h, 'd) part_iter" where
  "plan_partition_map_iterate rd hook d ps = plan_loop rd hook 0 0 d ps"

end
