(* ===== verification/Partmap_Nested.thy ===== *)
theory Partmap_Nested
  imports Partmap_Msdos
begin

text \<open>
  Partition maps that live inside an MSDOS partition: BSD labels (\<open>partmap/bsdlabel.c\<close>, with the
  NetBSD and OpenBSD variants that look the label up through the MSDOS table), SCO UnixWare slices
  (\<open>partmap/unixware.c\<close>) and Xenix divisions (\<open>partmap/xenix.c\<close>). \<open>p0\<close> is what the uninitialised
  partition structure of the C function held.
\<close>

subsection \<open>BSD labels\<close>

abbreviation GRUB_PC_PARTITION_BSD_LABEL_SECTOR :: u64 where "GRUB_PC_PARTITION_BSD_LABEL_SECTOR \<equiv> 1"
abbreviation GRUB_PC_PARTITION_BSD_LABEL_MAGIC :: u32 where "GRUB_PC_PARTITION_BSD_LABEL_MAGIC \<equiv> 0x82564557"
abbreviation GRUB_PC_PARTITION_BSD_LABEL_WHOLE_DISK_PARTITION :: nat where
  "GRUB_PC_PARTITION_BSD_LABEL_WHOLE_DISK_PARTITION \<equiv> 2"
abbreviation GRUB_PC_PARTITION_TYPE_FREEBSD :: u8 where "GRUB_PC_PARTITION_TYPE_FREEBSD \<equiv> 0xa5"
abbreviation GRUB_PC_PARTITION_TYPE_OPENBSD :: u8 where "GRUB_PC_PARTITION_TYPE_OPENBSD \<equiv> 0xa6"
abbreviation GRUB_PC_PARTITION_TYPE_NETBSD :: u8 where "GRUB_PC_PARTITION_TYPE_NETBSD \<equiv> 0xa9"

definition bsd_num_partitions :: "bytes \<Rightarrow> nat" where
  "bsd_num_partitions label = unat (le16 label 138)"

definition bsd_part :: "grub_partition \<Rightarrow> string \<Rightarrow> nat \<Rightarrow> u64 \<Rightarrow> u64 \<Rightarrow> bytes \<Rightarrow> grub_partition" where
  "bsd_part p0 pmap number pos delta be =
     p0\<lparr> part_number := int number, part_offset := pos div 512, part_index := uint (pos mod 512),
         part_start := ucast (le32 be 4) - delta, part_len := ucast (le32 be 0), part_partmap := pmap \<rparr>"

text \<open>
  The loop over the entries, with the number of entries left. The whole-disk entry, empty entries
  and entries that start before the base \<open>delta\<close> are passed over.
\<close>

fun bsd_entries :: "'h part_read \<Rightarrow> grub_partition \<Rightarrow> string \<Rightarrow> ('h, 'd) part_hook \<Rightarrow> u64 \<Rightarrow> nat \<Rightarrow> nat \<Rightarrow> u64
    \<Rightarrow> 'd \<Rightarrow> 'h pstate \<Rightarrow> (grub_err_t \<times> 'd \<times> 'h pstate) option" where
  "bsd_entries rd p0 pmap hook delta 0 number pos d ps = Some (GRUB_ERR_NONE, d, ps)"
| "bsd_entries rd p0 pmap hook delta (Suc n) number pos d ps =
     (if number = GRUB_PC_PARTITION_BSD_LABEL_WHOLE_DISK_PARTITION
      then bsd_entries rd p0 pmap hook delta n (Suc number) (pos + 16) d ps
      else do { (e, be, ps1) \<leftarrow> rd (pos div 512) (pos mod 512) 16 ps;
                if e \<noteq> GRUB_ERR_NONE then Some (p_errno ps1, d, ps1)
                else if le32 be 0 = 0 \<or> ucast (le32 be 4) < delta
                then bsd_entries rd p0 pmap hook delta n (Suc number) (pos + 16) d ps1
                else do { (stop, d1, ps2) \<leftarrow> hook (bsd_part p0 pmap number pos delta be) d ps1;
                          if stop then Some (p_errno ps2, d1, ps2)
                          else bsd_entries rd p0 pmap hook delta n (Suc number) (pos + 16) d1 ps2 } })"

text \<open>The base of the starts: the start of the whole-disk entry on FreeBSD, zero otherwise.\<close>

definition bsd_delta :: "'h part_read \<Rightarrow> u64 \<Rightarrow> bool \<Rightarrow> bytes \<Rightarrow> 'h pstate \<Rightarrow> (grub_err_t \<times> u64 \<times> 'h pstate) option" where
  "bsd_delta rd sector freebsd label ps =
     (if GRUB_PC_PARTITION_BSD_LABEL_WHOLE_DISK_PARTITION < bsd_num_partitions label \<and> freebsd
      then let pos = 148 + sector * 512 + 16 * 2
           in do { (e, be, ps1) \<leftarrow> rd (pos div 512) (pos mod 512) 16 ps;
                   Some (e, ucast (le32 be 4), ps1) }
      else Some (GRUB_ERR_NONE, 0, ps))"

definition iterate_real :: "'h part_read \<Rightarrow> grub_partition \<Rightarrow> u64 \<Rightarrow> bool \<Rightarrow> string \<Rightarrow> ('h, 'd) part_iter" where
  "iterate_real rd p0 sector freebsd pmap hook d ps =
     do { (e, label, ps1) \<leftarrow> rd sector 0 148 ps;
          if e \<noteq> GRUB_ERR_NONE then Some (p_errno ps1, d, ps1)
          else if le32 label 0 \<noteq> GRUB_PC_PARTITION_BSD_LABEL_MAGIC
          then fail_with GRUB_ERR_BAD_PART_TABLE ''no signature'' d ps1
          else do { (e2, delta, ps2) \<leftarrow> bsd_delta rd sector freebsd label ps1;
                    if e2 \<noteq> GRUB_ERR_NONE then Some (p_errno ps2, d, ps2)
                    else bsd_entries rd p0 pmap hook delta (bsd_num_partitions label) 0
                           (148 + sector * 512) d ps2 } }"

definition bsdlabel_partition_map_iterate :: "'h part_read \<Rightarrow> grub_partition \<Rightarrow> ('h, 'd) part_iter" where
  "bsdlabel_partition_map_iterate rd p0 hook d ps =
     (case cur_partition ps of
        [] \<Rightarrow> iterate_real rd p0 GRUB_PC_PARTITION_BSD_LABEL_SECTOR False ''bsd'' hook d ps
      | q # _ \<Rightarrow>
          if grub_strcmp (part_partmap q) ''msdos'' = 0 \<and> part_msdostype q = GRUB_PC_PARTITION_TYPE_FREEBSD
          then iterate_real rd p0 GRUB_PC_PARTITION_BSD_LABEL_SECTOR True ''bsd'' hook d ps
          else if grub_strcmp (part_partmap q) ''msdos'' = 0 \<or> part_partmap q = ''bsd''
                  \<or> part_partmap q = ''netbsd'' \<or> part_partmap q = ''openbsd''
          then fail_with GRUB_ERR_BAD_PART_TABLE ''no embedding supported'' d ps
          else iterate_real rd p0 GRUB_PC_PARTITION_BSD_LABEL_SECTOR False ''bsd'' hook d ps)"

definition p_print_error :: "'h pstate \<Rightarrow> 'h pstate" where
  "p_print_error ps = ps\<lparr> ps_dst := (ps_dst ps)\<lparr> d_err := grub_print_error (d_err (ps_dst ps)) \<rparr> \<rparr>"

text \<open>The context is the count of labels found with the data of the caller's hook.\<close>

definition check_msdos :: "'h part_read \<Rightarrow> grub_partition \<Rightarrow> u8 \<Rightarrow> string \<Rightarrow> ('h, 'd) part_hook
    \<Rightarrow> ('h, nat \<times> 'd) part_hook" where
  "check_msdos rd p0 ptype pmap hook part ctx ps =
     (if part_msdostype part \<noteq> ptype then Some (False, ctx, ps)
      else do { (e, d, ps1) \<leftarrow> iterate_real rd p0 (part_start part + GRUB_PC_PARTITION_BSD_LABEL_SECTOR) False
                                pmap hook (snd ctx) ps;
                if e = GRUB_ERR_NONE then Some (True, (Suc (fst ctx), d), ps1)
                else if e = GRUB_ERR_BAD_PART_TABLE
                then Some (False, (fst ctx, d), p_set_errno GRUB_ERR_NONE ps1)
                else Some (False, (fst ctx, d), p_print_error ps1) })"

definition netopenbsdlabel_partition_map_iterate :: "'h part_read \<Rightarrow> grub_partition \<Rightarrow> u8 \<Rightarrow> string \<Rightarrow> ('h, 'd) part_iter" where
  "netopenbsdlabel_partition_map_iterate rd p0 ptype pmap hook d ps =
     (if cur_partition ps \<noteq> [] \<and> grub_strcmp (part_partmap (hd (cur_partition ps))) ''msdos'' = 0
      then fail_with GRUB_ERR_BAD_PART_TABLE ''no embedding supported'' d ps
      else do { (e, ctx, ps1) \<leftarrow> grub_partition_msdos_iterate rd (check_msdos rd p0 ptype pmap hook) (0, d) ps;
                if e \<noteq> GRUB_ERR_NONE then Some (e, snd ctx, ps1)
                else if fst ctx = 0
                then fail_with GRUB_ERR_BAD_PART_TABLE ''no bsdlabel found'' (snd ctx) ps1
                else Some (GRUB_ERR_NONE, snd ctx, ps1) })"

definition netbsdlabel_partition_map_iterate :: "'h part_read \<Rightarrow> grub_partition \<Rightarrow> ('h, 'd) part_iter" where
  "netbsdlabel_partition_map_iterate rd p0 =
     netopenbsdlabel_partition_map_iterate rd p0 GRUB_PC_PARTITION_TYPE_NETBSD ''netbsd''"

definition openbsdlabel_partition_map_iterate :: "'h part_read \<Rightarrow> grub_partition \<Rightarrow> ('h, 'd) part_iter" where
  "openbsdlabel_partition_map_iterate rd p0 =
     netopenbsdlabel_partition_map_iterate rd p0 GRUB_PC_PARTITION_TYPE_OPENBSD ''openbsd''"

subsection \<open>UnixWare\<close>

abbreviation UNIXWARE_MSDOS_TYPE :: u8 where "UNIXWARE_MSDOS_TYPE \<equiv> 0x63"
abbreviation UNIXWARE_LABEL_SECTOR :: u64 where "UNIXWARE_LABEL_SECTOR \<equiv> 29"
abbreviation UNIXWARE_DISK_MAGIC :: u32 where "UNIXWARE_DISK_MAGIC \<equiv> 0xca5e600d"
abbreviation UNIXWARE_VTOC_MAGIC :: u32 where "UNIXWARE_VTOC_MAGIC \<equiv> 0x600ddeee"
abbreviation UNIXWARE_VTOC_OFFSET :: nat where "UNIXWARE_VTOC_OFFSET \<equiv> 156"
abbreviation UNIXWARE_NUMSLICE :: nat where "UNIXWARE_NUMSLICE \<equiv> 16"

definition unixware_slice_off :: "nat \<Rightarrow> nat" where
  "unixware_slice_off i = UNIXWARE_VTOC_OFFSET + 60 + i * 12"

definition unixware_part :: "grub_partition \<Rightarrow> bytes \<Rightarrow> u64 \<Rightarrow> nat \<Rightarrow> grub_partition" where
  "unixware_part p0 label base i =
     p0\<lparr> part_start := ucast (le32 label (unixware_slice_off i + 4)) - base,
         part_len := ucast (le32 label (unixware_slice_off i + 8)),
         part_number := int i - 1, part_offset := UNIXWARE_LABEL_SECTOR,
         part_index := int (unixware_slice_off i), part_partmap := ''unixware'' \<rparr>"

definition unixware_slice_used :: "bytes \<Rightarrow> u64 \<Rightarrow> nat \<Rightarrow> bool" where
  "unixware_slice_used label base i \<longleftrightarrow>
     \<not> (le16 label (unixware_slice_off i) = 0 \<or> le32 label (unixware_slice_off i + 8) = 0
        \<or> ucast (le32 label (unixware_slice_off i + 4)) < base)"

definition unixware_parts :: "grub_partition \<Rightarrow> bytes \<Rightarrow> u64 \<Rightarrow> grub_partition list" where
  "unixware_parts p0 label base =
     map (unixware_part p0 label base)
       (filter (unixware_slice_used label base)
         [1..<min (unat (le16 label (UNIXWARE_VTOC_OFFSET + 16))) UNIXWARE_NUMSLICE])"

definition unixware_partition_map_iterate :: "'h part_read \<Rightarrow> grub_partition \<Rightarrow> ('h, 'd) part_iter" where
  "unixware_partition_map_iterate rd p0 hook d ps =
     (if cur_partition ps = [] \<or> grub_strcmp (part_partmap (hd (cur_partition ps))) ''msdos'' \<noteq> 0
         \<or> part_msdostype (hd (cur_partition ps)) \<noteq> UNIXWARE_MSDOS_TYPE
      then fail_with GRUB_ERR_BAD_PART_TABLE ''not a unixware partition'' d ps
      else do { (e, label, ps1) \<leftarrow> rd UNIXWARE_LABEL_SECTOR 0 512 ps;
                if e \<noteq> GRUB_ERR_NONE then Some (p_errno ps1, d, ps1)
                else if le32 label 4 \<noteq> UNIXWARE_DISK_MAGIC
                then fail_with GRUB_ERR_BAD_PART_TABLE ''no unixware disk label'' d ps1
                else if le32 label UNIXWARE_VTOC_OFFSET \<noteq> UNIXWARE_VTOC_MAGIC
                then fail_with GRUB_ERR_BAD_PART_TABLE ''no unixware vtoc'' d ps1
                else do { (_, d1, ps2) \<leftarrow> call_hooks hook (unixware_parts p0 label
                                            (grub_partition_get_start (cur_partition ps1))) d ps1;
                          Some (p_errno ps2, d1, ps2) } })"

subsection \<open>Xenix\<close>

abbreviation XENIX_MSDOS_TYPE :: u8 where "XENIX_MSDOS_TYPE \<equiv> 0x02"
abbreviation XENIX_DIVVY_SECTOR :: u64 where "XENIX_DIVVY_SECTOR \<equiv> 42"
abbreviation XENIX_BADTRK_SECTOR :: u64 where "XENIX_BADTRK_SECTOR \<equiv> 44"
abbreviation XENIX_SYSTEM_SECTORS :: nat where "XENIX_SYSTEM_SECTORS \<equiv> 52"
abbreviation XENIX_DIVVY_MAGIC :: u16 where "XENIX_DIVVY_MAGIC \<equiv> 0x1234"
abbreviation XENIX_BADTRK_MAGIC :: u16 where "XENIX_BADTRK_MAGIC \<equiv> 0x4321"
abbreviation XENIX_WHOLE_DIVISION :: nat where "XENIX_WHOLE_DIVISION \<equiv> 7"
abbreviation XENIX_MAX_BAD_TRACKS :: u16 where "XENIX_MAX_BAD_TRACKS \<equiv> 1023"

definition xenix_chs_matches :: "u64 \<Rightarrow> u8 \<Rightarrow> u8 \<Rightarrow> u8 \<Rightarrow> u32 \<Rightarrow> u32 \<Rightarrow> bool" where
  "xenix_chs_matches lba head sector cylinder heads sectors =
     (let track = lba div ucast sectors
      in ucast head = track mod ucast heads
         \<and> ucast (sector AND 63) = lba mod ucast sectors + 1
         \<and> ucast (ucast cylinder OR push_bit 2 (ucast (sector AND 0xc0) :: u32)) = (track div ucast heads) AND 1023)"

text \<open>The partition the label must be in: a primary MSDOS partition of the whole disk.\<close>

definition xenix_parent_ok :: "grub_disk \<Rightarrow> bool" where
  "xenix_parent_ok disk =
     (case disk_partition disk of
        [parent] \<Rightarrow>
          part_offset parent = 0 \<and> grub_strcmp (part_partmap parent) ''msdos'' = 0
          \<and> part_msdostype parent = XENIX_MSDOS_TYPE \<and> 0 \<le> part_index parent \<and> part_index parent < 4
          \<and> disk_log_sector_size disk = GRUB_DISK_SECTOR_BITS \<and> \<not> part_len parent < of_nat XENIX_SYSTEM_SECTORS
      | _ \<Rightarrow> False)"

definition xenix_badtrk_check :: "bytes \<Rightarrow> string option" where
  "xenix_badtrk_check badtrk =
     (if le16 badtrk 0 \<noteq> XENIX_BADTRK_MAGIC \<or> le16 badtrk 2 > XENIX_MAX_BAD_TRACKS
      then Some ''invalid xenix bad-track table''
      else if le16 badtrk 4 \<noteq> 0xffff \<or> le16 badtrk 6 \<noteq> 0xffff
      then Some ''xenix bad-track remapping is not supported'' else None)"

text \<open>The first sector behind the system area, and so the number of sectors reserved.\<close>

definition xenix_reserved :: "u64 \<Rightarrow> u32 \<Rightarrow> u32 \<Rightarrow> u16 \<Rightarrow> u64" where
  "xenix_reserved start heads sectors aliases =
     (let track0 = (start + ucast sectors - 1) div ucast sectors;
          track = track0 + ucast ((of_nat XENIX_SYSTEM_SECTORS + sectors - 1) div sectors + ucast aliases);
          data_start = ((track + ucast heads - 1) div ucast heads) * ucast heads * ucast sectors
      in data_start - start)"

text \<open>The boot record's entry for the partition, its geometry and the sectors reserved in it.\<close>

definition xenix_outer :: "grub_partition \<Rightarrow> bytes \<Rightarrow> bytes \<Rightarrow> bytes \<Rightarrow> string + u64" where
  "xenix_outer parent mbr label badtrk =
     (let i = nat (part_index parent); start = ucast (ent_start mbr i); len = ucast (ent_length mbr i);
          heads = ucast (byte_at mbr (446 + 16 * i + 5)) + 1;
          sectors = ucast (byte_at mbr (446 + 16 * i + 6) AND 63);
          reserved = xenix_reserved start heads sectors (le16 badtrk 2)
      in if mbr_signature mbr \<noteq> GRUB_PC_PARTITION_SIGNATURE \<or> ent_type mbr i \<noteq> XENIX_MSDOS_TYPE
            \<or> start \<noteq> part_start parent \<or> len \<noteq> part_len parent
         then Inl ''inconsistent xenix outer partition''
         else if sectors = 0
            \<or> \<not> xenix_chs_matches start (byte_at mbr (446 + 16 * i + 1)) (byte_at mbr (446 + 16 * i + 2))
                  (byte_at mbr (446 + 16 * i + 3)) heads sectors
            \<or> \<not> xenix_chs_matches (start + len - 1) (byte_at mbr (446 + 16 * i + 5)) (byte_at mbr (446 + 16 * i + 6))
                  (byte_at mbr (446 + 16 * i + 7)) heads sectors
         then Inl ''inconsistent xenix CHS geometry''
         else if reserved \<ge> len \<or> le32 label (2 + XENIX_WHOLE_DIVISION * 8) \<noteq> 0
            \<or> ucast (le32 label (6 + XENIX_WHOLE_DIVISION * 8)) \<noteq> (len + 1) div 2
         then Inl ''invalid xenix reserved or whole area''
         else Inr reserved)"

definition xenix_off :: "bytes \<Rightarrow> nat \<Rightarrow> u32" where "xenix_off label i = le32 label (2 + i * 8)"
definition xenix_size :: "bytes \<Rightarrow> nat \<Rightarrow> u32" where "xenix_size label i = le32 label (6 + i * 8)"

definition xenix_division :: "bytes \<Rightarrow> u64 \<Rightarrow> nat \<Rightarrow> grub_partition" where
  "xenix_division label reserved i =
     \<lparr> part_number = int i, part_start = reserved + ucast (xenix_off label i) * 2,
       part_len = ucast (xenix_size label i) * 2, part_offset = XENIX_DIVVY_SECTOR, part_index = 2 + int i * 8,
       part_partmap = ''xenix'', part_msdostype = 0 \<rparr>"

definition xenix_outside :: "bytes \<Rightarrow> u64 \<Rightarrow> u64 \<Rightarrow> nat \<Rightarrow> bool" where
  "xenix_outside label reserved len i =
     (let p = xenix_division label reserved i
      in (xenix_off label i OR xenix_size label i) AND 0x80000000 \<noteq> 0
         \<or> part_start p \<ge> len \<or> part_len p > len - part_start p)"

text \<open>All divisions are validated before any is reported; empty ones are left out.\<close>

definition xenix_divisions :: "bytes \<Rightarrow> u64 \<Rightarrow> u64 \<Rightarrow> string + grub_partition list" where
  "xenix_divisions label reserved len =
     (let used = filter (\<lambda>i. xenix_size label i \<noteq> 0) [0..<XENIX_WHOLE_DIVISION]
      in if list_ex (xenix_outside label reserved len) used then Inl ''xenix division outside parent''
         else Inr (map (xenix_division label reserved) used))"

definition xenix_table :: "grub_partition \<Rightarrow> bytes \<Rightarrow> bytes \<Rightarrow> bytes \<Rightarrow> string + grub_partition list" where
  "xenix_table parent mbr label badtrk =
     (case xenix_outer parent mbr label badtrk of
        Inl msg \<Rightarrow> Inl msg
      | Inr reserved \<Rightarrow> xenix_divisions label reserved (ucast (ent_length mbr (nat (part_index parent)))))"

text \<open>The common end: the partition pointer is restored and the pending error returned.\<close>

definition xenix_exit :: "grub_partition list \<Rightarrow> 'd \<Rightarrow> 'h pstate \<Rightarrow> (grub_err_t \<times> 'd \<times> 'h pstate) option" where
  "xenix_exit parent d ps = Some (p_errno ps, d, set_partition parent ps)"

definition xenix_fail :: "grub_partition list \<Rightarrow> string \<Rightarrow> 'd \<Rightarrow> 'h pstate \<Rightarrow> (grub_err_t \<times> 'd \<times> 'h pstate) option" where
  "xenix_fail parent msg d ps = xenix_exit parent d (p_error GRUB_ERR_BAD_PART_TABLE msg ps)"

definition xenix_report :: "'h part_read \<Rightarrow> grub_partition list \<Rightarrow> bytes \<Rightarrow> bytes \<Rightarrow> ('h, 'd) part_iter" where
  "xenix_report rd parent label badtrk hook d ps =
     do { (e, mbr, ps1) \<leftarrow> rd 0 0 512 (set_partition [] ps);
          if e \<noteq> GRUB_ERR_NONE then xenix_exit parent d ps1
          else let ps2 = set_partition parent ps1
          in case xenix_table (hd parent) mbr label badtrk of
               Inl msg \<Rightarrow> xenix_fail parent msg d ps2
             | Inr parts \<Rightarrow>
                 do { (_, d1, ps3) \<leftarrow> call_hooks hook (filter (\<lambda>p. part_len p \<noteq> 0) parts) d ps2;
                      xenix_exit parent d1 ps3 } }"

definition xenix_partition_map_iterate :: "'h part_read \<Rightarrow> ('h, 'd) part_iter" where
  "xenix_partition_map_iterate rd hook d ps =
     (if \<not> xenix_parent_ok (ps_disk ps)
      then fail_with GRUB_ERR_BAD_PART_TABLE ''not a xenix partition'' d ps
      else let parent = cur_partition ps
      in do { (e, label, ps1) \<leftarrow> rd XENIX_DIVVY_SECTOR 0 66 ps;
              if e \<noteq> GRUB_ERR_NONE then xenix_exit parent d ps1
              else if le16 label 0 \<noteq> XENIX_DIVVY_MAGIC
              then xenix_fail parent ''no xenix 2.2+ division table'' d ps1
              else do { (e2, badtrk, ps2) \<leftarrow> rd XENIX_BADTRK_SECTOR 0 8 ps1;
                        if e2 \<noteq> GRUB_ERR_NONE then xenix_exit parent d ps2
                        else case xenix_badtrk_check badtrk of
                               Some msg \<Rightarrow> xenix_fail parent msg d ps2
                             | None \<Rightarrow> xenix_report rd parent label badtrk hook d ps2 } })"

end
