(* ===== verification/Partmaps.thy ===== *)
theory Partmaps
  imports Partmap_Gpt Partmap_Labels Partmap_Lists Partmap_Nested
begin

text \<open>
  The list of partition maps, \<open>grub_partition_map_list\<close>. The modules register their maps in the
  order of \<open>grub/rover/init.c\<close>, and each registration puts a map in front of the list
  (\<open>grub_list_push\<close>), so that the last one registered is asked first.
\<close>

definition grub_partition_map_register :: "string \<times> ('h, 'd) part_iter \<Rightarrow> ('h, 'd) partmaps \<Rightarrow> ('h, 'd) partmaps" where
  "grub_partition_map_register m maps = m # maps"

definition register_all :: "(string \<times> ('h, 'd) part_iter) list \<Rightarrow> ('h, 'd) partmaps" where
  "register_all ms = fold grub_partition_map_register ms []"

text \<open>The maps in the order of registration; \<open>p0\<close> is the contents of uninitialised structures.\<close>

definition partmap_modules :: "'h part_read \<Rightarrow> grub_partition \<Rightarrow> (string \<times> ('h, 'd) part_iter) list" where
  "partmap_modules rd p0 =
     [(''acorn'', acorn_partition_map_iterate rd p0), (''amiga'', amiga_partition_map_iterate rd p0),
      (''apple'', apple_partition_map_iterate rd p0), (''bsd'', bsdlabel_partition_map_iterate rd p0),
      (''netbsd'', netbsdlabel_partition_map_iterate rd p0), (''openbsd'', openbsdlabel_partition_map_iterate rd p0),
      (''dfly'', dfly_partition_map_iterate rd p0), (''dvh'', dvh_partition_map_iterate rd p0),
      (''gpt'', grub_gpt_partition_map_iterate rd p0), (''msdos'', grub_partition_msdos_iterate rd),
      (''plan'', plan_partition_map_iterate rd), (''sun'', sun_partition_map_iterate rd p0),
      (''sunpc'', sun_pc_partition_map_iterate rd), (''unixware'', unixware_partition_map_iterate rd p0),
      (''xenix'', xenix_partition_map_iterate rd)]"

definition grub_partition_map_list :: "'h part_read \<Rightarrow> grub_partition \<Rightarrow> ('h, 'd) partmaps" where
  "grub_partition_map_list rd p0 = register_all (partmap_modules rd p0)"

lemma register_all_rev: "register_all ms = rev ms"
proof -
  have "fold grub_partition_map_register ms acc = rev ms @ acc" for acc
    by (induction ms arbitrary: acc) (simp_all add: grub_partition_map_register_def)
  then show ?thesis by (simp add: register_all_def)
qed

end
