(* ===== verification/Partition_Reader.thy ===== *)
theory Partition_Reader
  imports Partition Procfs
begin

text \<open>
  The contract between the partition maps and the disk layer. A map reads the disk inside the
  partition that is current; what it sees are the bytes of the device displaced by the starts of the
  chain of partitions. \<open>part_source\<close> states what a map relies on; every device that meets the
  contract of the disk layer meets it through \<open>grub_disk_read\<close>, and the loopback device does.
\<close>

subsection \<open>The bytes inside a partition\<close>

definition part_image :: "content \<Rightarrow> grub_disk \<Rightarrow> nat \<Rightarrow> u8" where
  "part_image c disk i =
     c (disk_dev_id disk) (disk_id disk)
       (unat (of_nat (i div 512) + grub_partition_get_start (disk_partition disk)) * 512 + i mod 512)"

definition image_bytes :: "(nat \<Rightarrow> u8) \<Rightarrow> u64 \<Rightarrow> u64 \<Rightarrow> u64 \<Rightarrow> bytes" where
  "image_bytes f sector offset sz =
     map f [unat sector * 512 + unat offset..<unat sector * 512 + unat offset + unat sz]"

text \<open>A block of 512 bytes at a sector, and the first 92 bytes of a sector.\<close>

definition record_at :: "(nat \<Rightarrow> u8) \<Rightarrow> u64 \<Rightarrow> bytes" where
  "record_at img sector = image_bytes img sector 0 512"

definition header_at :: "(nat \<Rightarrow> u8) \<Rightarrow> nat \<Rightarrow> bytes" where
  "header_at img k = image_bytes img (push_bit k 1) 0 92"

lemma length_image_bytes [simp]: "length (image_bytes f s off n) = unat n"
  by (simp add: image_bytes_def)

lemma adjusted_image:
  assumes sz: "unat sz + 1022 < 2 ^ 64"
    and adj: "grub_disk_adjust_range disk sector offset sz = Some (s, off)"
  shows "content_bytes c (disk_dev_id disk) (disk_id disk) (unat s * 512 + unat off) (unat sz) =
    image_bytes (part_image c disk) sector offset sz"
proof -
  let ?g = "grub_partition_get_start (disk_partition disk)"
  have a: "s = ?g + (sector + drop_bit 9 offset)" "off = offset AND 511"
    "unat s + span off sz \<le> unat (clamped_total disk)"
    using adj unfolding adjust_range_iff [OF sz] by blast+
  have off: "unat off = unat offset mod 512" by (simp add: a(2) unat_and_511)
  have room: "unat s + (unat off + unat sz + 511) div 512 \<le> 2 ^ 51"
    using a(3) clamped_total_le [of disk] by (simp add: span_def)
  have "part_image c disk (unat sector * 512 + unat offset + k) =
      c (disk_dev_id disk) (disk_id disk) (unat s * 512 + unat off + k)" if k: "k < unat sz" for k
  proof -
    have pos: "unat sector * 512 + unat offset + k = 512 * (unat sector + unat offset div 512) + (unat off + k)"
    proof -
      have "q * 512 + r = x \<Longrightarrow> a * 512 + x + k = 512 * (a + q) + (r + k)" for a q r x :: nat by auto
      from this [OF div_mult_mod_eq] show ?thesis unfolding off .
    qed
    have d: "(unat sector * 512 + unat offset + k) div 512 =
        unat sector + unat offset div 512 + (unat off + k) div 512"
      "(unat sector * 512 + unat offset + k) mod 512 = (unat off + k) mod 512"
      unfolding pos by (subst div_mult_self4, simp_all only: mod_mult_self4)
    have "(unat off + k) div 512 \<le> (unat off + unat sz + 511) div 512" using k by (intro div_le_mono) simp
    then have "unat s + (unat off + k) div 512 \<le> 2 ^ 51" using room by (meson add_left_mono le_trans)
    then have r: "unat s + (unat off + k) div 512 < 2 ^ 64" by (rule le_less_trans) simp
    have "of_nat (unat sector + unat offset div 512) = sector + drop_bit 9 offset"
      by (simp add: word_unat_eq_iff unat_word_ariths unat_of_nat unat_drop_bit mod_simps)
    then have "of_nat (unat sector + unat offset div 512 + (unat off + k) div 512) + ?g =
        s + of_nat ((unat off + k) div 512)" by (simp add: a(1) add_ac del: of_nat_add) (simp add: add_ac)
    moreover have "unat (s + of_nat ((unat off + k) div 512)) = unat s + (unat off + k) div 512"
      using r by (subst unat_plus_exact) (auto simp: unat_of_nat)
    ultimately show ?thesis
      unfolding part_image_def d
      by (simp only: add_mult_distrib add.assoc div_mult_mod_eq)
  qed
  then show ?thesis
    by (auto simp: image_bytes_def content_bytes_def intro!: nth_equalityI)
qed

subsection \<open>Calls that return\<close>

text \<open>A call that returns a value with a property, and how it composes.\<close>

definition returns :: "'a option \<Rightarrow> ('a \<Rightarrow> bool) \<Rightarrow> bool" where
  "returns m Q \<longleftrightarrow> (\<exists>y. m = Some y \<and> Q y)"

lemma returns_Some [simp]: "returns (Some y) Q \<longleftrightarrow> Q y"
  by (simp add: returns_def)

lemma returns_bind: "returns m P \<Longrightarrow> (\<And>x. P x \<Longrightarrow> returns (f x) Q) \<Longrightarrow> returns (m \<bind> f) Q"
  by (auto simp: returns_def)

lemma returns_mono: "returns m P \<Longrightarrow> (\<And>x. P x \<Longrightarrow> Q x) \<Longrightarrow> returns m Q"
  by (auto simp: returns_def)

lemma returns_fail_with [simp]: "returns (fail_with e m d ps) Q \<longleftrightarrow> Q (e, d, p_error e m ps)"
  by (simp add: fail_with_def)

text \<open>What a map's call leaves behind: a usable state.\<close>

abbreviation usable :: "('h pstate \<Rightarrow> bool) \<Rightarrow> 'a \<times> 'd \<times> 'h pstate \<Rightarrow> bool" where
  "usable ok \<equiv> \<lambda>(_, _, ps). ok ps"

subsection \<open>The contract\<close>

locale part_source =
  fixes rd :: "'h part_read"
    and ok :: "'h pstate \<Rightarrow> bool"
    and calm :: "'h pstate \<Rightarrow> bool"
    and image :: "grub_disk \<Rightarrow> nat \<Rightarrow> u8"
  assumes rd_ok:
      "ok ps \<Longrightarrow> 0 < unat sz \<Longrightarrow> unat sz + 1022 < 2 ^ 64 \<Longrightarrow>
       \<exists>e buf ps'. rd s off sz ps = Some (e, buf, ps') \<and> ok ps' \<and> ps_disk ps' = ps_disk ps \<and>
         (e = GRUB_ERR_NONE \<longrightarrow> buf = image_bytes (image (ps_disk ps)) s off sz \<and>
            grub_disk_adjust_range (ps_disk ps) s off sz \<noteq> None) \<and>
         (calm ps \<and> grub_disk_adjust_range (ps_disk ps) s off sz \<noteq> None \<longrightarrow> e = GRUB_ERR_NONE \<and> calm ps')"
    and ok_geometry: "ok ps \<Longrightarrow> disk_log_sector_size (ps_disk ps) \<le> 30"
    and ok_partition: "ok ps \<Longrightarrow> ok (set_partition parts ps)"
    and ok_errno: "ok ps \<Longrightarrow> ok (p_set_errno e ps)"
    and ok_error: "ok ps \<Longrightarrow> ok (p_error e m ps)"
    and ok_malloc: "ok ps \<Longrightarrow> ok (snd (p_malloc ps))"
    and ok_print: "ok ps \<Longrightarrow> ok (ps\<lparr> ps_dst := (ps_dst ps)\<lparr> d_err := grub_print_error (d_err (ps_dst ps)) \<rparr> \<rparr>)"
    and calm_partition: "calm ps \<Longrightarrow> calm (set_partition parts ps)"
    and calm_errno: "calm ps \<Longrightarrow> p_errno ps = GRUB_ERR_NONE"
    and calm_malloc: "calm ps \<Longrightarrow> fst (p_malloc ps) \<and> calm (snd (p_malloc ps))"
begin

lemma rd_Some:
  assumes "rd s off sz ps = Some (e, buf, ps')" and "ok ps" "0 < unat sz" "unat sz + 1022 < 2 ^ 64"
  shows "ok ps'" "ps_disk ps' = ps_disk ps"
    "e = GRUB_ERR_NONE \<Longrightarrow> buf = image_bytes (image (ps_disk ps)) s off sz"
    "e = GRUB_ERR_NONE \<Longrightarrow> grub_disk_adjust_range (ps_disk ps) s off sz \<noteq> None"
  using rd_ok [OF assms(2-4), of s off] assms(1) by auto

lemma rd_total:
  assumes "ok ps" "0 < unat sz" "unat sz + 1022 < 2 ^ 64"
  obtains e buf ps' where "rd s off sz ps = Some (e, buf, ps')" "ok ps'" "ps_disk ps' = ps_disk ps"
    "e = GRUB_ERR_NONE \<Longrightarrow> buf = image_bytes (image (ps_disk ps)) s off sz"
  using rd_ok [OF assms, of s off] by auto

lemma rd_returns:
  "ok ps \<Longrightarrow> 0 < unat sz \<Longrightarrow> unat sz + 1022 < 2 ^ 64 \<Longrightarrow>
     returns (rd s off sz ps) (\<lambda>(e, buf, ps'). ok ps' \<and> ps_disk ps' = ps_disk ps \<and>
       (e = GRUB_ERR_NONE \<longrightarrow> buf = image_bytes (image (ps_disk ps)) s off sz \<and>
          grub_disk_adjust_range (ps_disk ps) s off sz \<noteq> None))"
  unfolding returns_def using rd_ok [of ps sz s off] by fastforce

lemma rd_calm:
  assumes "ok ps" "calm ps" "0 < unat sz" "unat sz + 1022 < 2 ^ 64"
    and "grub_disk_adjust_range (ps_disk ps) s off sz \<noteq> None"
  obtains ps' where "rd s off sz ps = Some (GRUB_ERR_NONE, image_bytes (image (ps_disk ps)) s off sz, ps')"
    "ok ps'" "calm ps'" "ps_disk ps' = ps_disk ps"
  using rd_ok [OF assms(1,3,4), of s off] assms(2,5) by auto

end

subsection \<open>Hooks and maps that return\<close>

text \<open>The disk without its current partition, which a walk never changes.\<close>

definition disk_base :: "'h pstate \<Rightarrow> grub_disk" where
  "disk_base ps = (ps_disk ps)\<lparr> disk_partition := [] \<rparr>"

lemma disk_base_simps [simp]:
  "disk_base (set_partition parts ps) = disk_base ps" "disk_base (p_set_errno e ps) = disk_base ps"
  "disk_base (p_error e m ps) = disk_base ps" "disk_base (snd (p_malloc ps)) = disk_base ps"
  "disk_base (ps\<lparr> ps_dst := st \<rparr>) = disk_base ps"
  by (simp_all add: disk_base_def set_partition_def p_set_errno_def p_error_def p_malloc_def split: prod.splits)

lemma disk_base_cong: "ps_disk ps' = ps_disk ps \<Longrightarrow> disk_base ps' = disk_base ps"
  by (simp add: disk_base_def)

text \<open>
  A hook that returns and keeps the walk going. It may move the disk's partition only when it stops
  the walk with no error pending.
\<close>

definition hook_keeps :: "('h pstate \<Rightarrow> bool) \<Rightarrow> ('h, 'd) part_hook \<Rightarrow> bool" where
  "hook_keeps ok hook \<longleftrightarrow> (\<forall>p d ps. ok ps \<longrightarrow> returns (hook p d ps) (\<lambda>(stop, d', ps'). ok ps' \<and>
     disk_base ps' = disk_base ps \<and> (ps_disk ps' = ps_disk ps \<or> stop \<and> p_errno ps' = GRUB_ERR_NONE)))"

lemma hook_returns:
  assumes "hook_keeps ok hook" and "ok ps"
  shows "returns (hook p d ps) (\<lambda>(stop, d', ps'). ok ps' \<and> disk_base ps' = disk_base ps \<and>
     (ps_disk ps' = ps_disk ps \<or> stop \<and> p_errno ps' = GRUB_ERR_NONE))"
  using assms unfolding hook_keeps_def by blast

lemma hook_keepsD:
  assumes "hook_keeps ok hook" and "ok ps"
  obtains stop d' ps' where "hook p d ps = Some (stop, d', ps')" "ok ps'" "disk_base ps' = disk_base ps"
    "stop \<or> ps_disk ps' = ps_disk ps"
  using hook_returns [OF assms, of p d] by (auto simp: returns_def)

text \<open>A map that returns under every such hook.\<close>

definition iter_returns :: "('h pstate \<Rightarrow> bool) \<Rightarrow> ('h, 'd) part_iter \<Rightarrow> bool" where
  "iter_returns ok iter \<longleftrightarrow> (\<forall>hook d ps. hook_keeps ok hook \<longrightarrow> ok ps \<longrightarrow> returns (iter hook d ps) (usable ok))"

lemma iter_returnsI:
  assumes "\<And>hook d ps. hook_keeps ok hook \<Longrightarrow> ok ps \<Longrightarrow> returns (iter hook d ps) (usable ok)"
  shows "iter_returns ok iter"
  using assms by (simp add: iter_returns_def)

lemma call_hooks_returns:
  assumes "hook_keeps ok hook" and "ok ps"
  shows "returns (call_hooks hook parts d ps) (usable ok)"
  using assms(2)
proof (induction parts arbitrary: d ps)
  case (Cons p parts)
  show ?case
    by (simp, rule returns_bind [OF hook_returns [OF assms(1) Cons.prems]]) (auto intro: Cons.IH)
qed simp

text \<open>The contract can be narrowed to one disk.\<close>

context part_source
begin

lemma fixed_disk: "part_source rd (\<lambda>ps. ok ps \<and> disk_base ps = b) calm image"
proof
  fix ps :: "'h pstate" and sz s off :: u64
  assume "ok ps \<and> disk_base ps = b" "0 < unat sz" "unat sz + 1022 < 2 ^ 64"
  with rd_ok [of ps sz s off] show "\<exists>e buf ps'. rd s off sz ps = Some (e, buf, ps') \<and>
      (ok ps' \<and> disk_base ps' = b) \<and> ps_disk ps' = ps_disk ps \<and>
      (e = GRUB_ERR_NONE \<longrightarrow> buf = image_bytes (image (ps_disk ps)) s off sz \<and>
         grub_disk_adjust_range (ps_disk ps) s off sz \<noteq> None) \<and>
      (calm ps \<and> grub_disk_adjust_range (ps_disk ps) s off sz \<noteq> None \<longrightarrow> e = GRUB_ERR_NONE \<and> calm ps')"
    by (auto dest: disk_base_cong)
qed (use ok_geometry ok_partition ok_errno ok_error ok_malloc ok_print calm_partition calm_errno calm_malloc in auto)

lemma hook_keeps_fixed: "hook_keeps ok hook \<Longrightarrow> hook_keeps (\<lambda>ps. ok ps \<and> disk_base ps = b) hook"
  unfolding hook_keeps_def by (auto elim: returns_mono)

end

subsection \<open>The disk layer meets the contract\<close>

locale partitioned_device = hooked_device dread content good served live hook
  for dread :: "'h dread" and content :: content and good :: "'h \<Rightarrow> bool"
    and served :: "grub_disk \<Rightarrow> bool" and live :: bool and hook :: "'h read_hook option" +
  assumes served_partition: "served disk \<Longrightarrow> served (disk\<lparr> disk_partition := parts \<rparr>)"
begin

definition dev_ok :: "'h pstate \<Rightarrow> bool" where
  "dev_ok ps \<longleftrightarrow> served (ps_disk ps) \<and> cache_inv content good (ps_dst ps) \<and>
     length (error_stack (d_err (ps_dst ps))) < GRUB_ERROR_STACK_SIZE \<and>
     Suc (read_recursion_depth (ps_dst ps)) < MAX_READ_RECURSION_DEPTH"

lemma out_of_range_read:
  assumes "dev_ok ps" and "grub_disk_adjust_range (ps_disk ps) s off sz = None"
  shows "\<exists>buf ps'. disk_reader dread hook s off sz ps = Some (GRUB_ERR_OUT_OF_RANGE, buf, ps') \<and> dev_ok ps' \<and>
    ps_disk ps' = ps_disk ps"
  using assms unfolding dev_ok_def disk_reader_def grub_disk_read_def
  by (auto simp: Let_def push_pop_error_id cache_inv_def record_disk_read_wf d_errno_def)
     (auto simp: raise_error_def)

lemma dev_read:
  assumes ok: "dev_ok ps" and sz: "0 < unat sz" "unat sz + 1022 < 2 ^ 64"
  shows "\<exists>e buf ps'. disk_reader dread hook s off sz ps = Some (e, buf, ps') \<and> dev_ok ps' \<and> ps_disk ps' = ps_disk ps \<and>
     (e = GRUB_ERR_NONE \<longrightarrow> buf = image_bytes (part_image content (ps_disk ps)) s off sz \<and>
        grub_disk_adjust_range (ps_disk ps) s off sz \<noteq> None) \<and>
     (quiet live (ps_dst ps) \<and> grub_disk_adjust_range (ps_disk ps) s off sz \<noteq> None \<longrightarrow>
        e = GRUB_ERR_NONE \<and> quiet live (ps_dst ps'))"
proof (cases "grub_disk_adjust_range (ps_disk ps) s off sz")
  case None
  from out_of_range_read [OF ok None] obtain buf ps' where
    "disk_reader dread hook s off sz ps = Some (GRUB_ERR_OUT_OF_RANGE, buf, ps')" "dev_ok ps'"
    "ps_disk ps' = ps_disk ps" by blast
  with None show ?thesis by (intro exI [of _ GRUB_ERR_OUT_OF_RANGE] exI [of _ buf] exI [of _ ps']) simp
next
  case (Some p)
  obtain s1 off1 where p: "p = (s1, off1)" by (cases p)
  have st: "served (ps_disk ps)" "cache_inv content good (ps_dst ps)"
    "length (error_stack (d_err (ps_dst ps))) < GRUB_ERROR_STACK_SIZE"
    "Suc (read_recursion_depth (ps_dst ps)) < MAX_READ_RECURSION_DEPTH"
    using ok by (simp_all add: dev_ok_def)
  from disk_read_ok [OF st sz(2) Some [unfolded p]] obtain e buf st' where
    r: "grub_disk_read dread hook (ps_disk ps) s off sz (ps_dst ps) = Some ((e, buf), st')"
    and i: "cache_inv content good st'" "loose_frame (ps_dst ps) st'"
    and b: "e = GRUB_ERR_NONE \<longrightarrow> buf = content_bytes content (disk_dev_id (ps_disk ps)) (disk_id (ps_disk ps))
        (unat s1 * 512 + unat off1) (unat sz)"
    and q: "quiet live (ps_dst ps) \<and> 0 < unat sz \<longrightarrow> e = GRUB_ERR_NONE \<and> quiet live st'"
    by blast
  have "disk_reader dread hook s off sz ps = Some (e, buf, ps\<lparr> ps_dst := st' \<rparr>)"
    by (simp add: disk_reader_def r)
  moreover have "dev_ok (ps\<lparr> ps_dst := st' \<rparr>)" using st i by (simp add: dev_ok_def loose_frame_def)
  ultimately show ?thesis
    using b q sz Some adjusted_image [OF sz(2) Some [unfolded p], of content] by auto
qed

end

sublocale partitioned_device \<subseteq> parts: part_source "disk_reader dread hook" dev_ok "\<lambda>ps. quiet live (ps_dst ps)" "part_image content"
proof
  fix ps :: "'h pstate" and sz :: u64 and s off
  show "dev_ok ps \<Longrightarrow> 0 < unat sz \<Longrightarrow> unat sz + 1022 < 2 ^ 64 \<Longrightarrow>
       \<exists>e buf ps'. disk_reader dread hook s off sz ps = Some (e, buf, ps') \<and> dev_ok ps' \<and> ps_disk ps' = ps_disk ps \<and>
         (e = GRUB_ERR_NONE \<longrightarrow> buf = image_bytes (part_image content (ps_disk ps)) s off sz \<and>
            grub_disk_adjust_range (ps_disk ps) s off sz \<noteq> None) \<and>
         (quiet live (ps_dst ps) \<and> grub_disk_adjust_range (ps_disk ps) s off sz \<noteq> None \<longrightarrow>
           e = GRUB_ERR_NONE \<and> quiet live (ps_dst ps'))"
    by (rule dev_read)
  show "dev_ok ps \<Longrightarrow> disk_log_sector_size (ps_disk ps) \<le> 30"
    using served_geometry [of "ps_disk ps"] by (simp add: dev_ok_def geometry_ok_def)
  show "dev_ok ps \<Longrightarrow> dev_ok (set_partition parts ps)" for parts
    using served_partition by (simp add: dev_ok_def set_partition_def)
  show "dev_ok ps \<Longrightarrow> dev_ok (p_set_errno e ps)" for e
    by (simp add: dev_ok_def p_set_errno_def cache_inv_def set_errno_def err_wf_def)
  show "dev_ok ps \<Longrightarrow> dev_ok (p_error e m ps)" for e m
    by (simp add: dev_ok_def p_error_def cache_inv_def)
  show "dev_ok ps \<Longrightarrow> dev_ok (snd (p_malloc ps))"
    by (cases "grub_malloc (ps_dst ps)")
      (auto simp: dev_ok_def p_malloc_def cache_inv_def grub_malloc_def Let_def split: if_splits)
  show "dev_ok ps \<Longrightarrow> dev_ok (ps\<lparr> ps_dst := (ps_dst ps)\<lparr> d_err := grub_print_error (d_err (ps_dst ps)) \<rparr> \<rparr>)"
    by (simp add: dev_ok_def cache_inv_def grub_print_error_def Let_def print_loop_effect err_wf_def)
  show "quiet live (ps_dst ps) \<Longrightarrow> quiet live (ps_dst (set_partition parts ps))" for parts
    by (simp add: set_partition_def)
  show "quiet live (ps_dst ps) \<Longrightarrow> p_errno ps = GRUB_ERR_NONE"
    by (simp add: p_errno_def quiet_errno)
  show "quiet live (ps_dst ps) \<Longrightarrow> fst (p_malloc ps) \<and> quiet live (ps_dst (snd (p_malloc ps)))"
    using quiet_malloc [of live "ps_dst ps"] by (auto simp: p_malloc_def split: prod.splits)
qed

text \<open>The loopback device with its disks, whatever partition is current.\<close>

interpretation loop_parts: partitioned_device "grub_loopback_read grub_procfs_read p" "loop_content ls"
    "loop_good ls" "loop_served (loop_devs ls)" True None
  for ls p
  by unfold_locales (simp add: loop_served_def)

end
