(* ===== verification/Msdos_Correct.thy ===== *)
theory Msdos_Correct
  imports Partmap_Msdos Partition_Reader
begin

text \<open>
  Correctness of the MSDOS map: the walk over the chain of extended boot records returns on every
  disk, loops in the chain included, and the partitions it reports are those of the tables, with
  the numbers of the slots for primary partitions and increasing numbers from five on for logical
  ones.
\<close>

subsection \<open>Loop detection\<close>

text \<open>
  The scheme of the code in general form: while a function is iterated, the value at the counts
  that are powers of two is kept, and every value is compared with the one kept. On a finite type
  the comparison succeeds at some point.
\<close>

lemma power_and_pred: "(2 ^ k :: nat) AND (2 ^ k - 1) = 0"
proof -
  have "(2 ^ k :: nat) AND (2 ^ k - 1) = take_bit k (2 ^ k)"
    by (simp add: take_bit_eq_mask mask_eq_exp_minus_1)
  then show ?thesis by (simp add: take_bit_eq_mod)
qed

lemma between_powers_and_pred:
  assumes "0 < t" and "t < 2 ^ k"
  shows "(2 ^ k + t :: nat) AND (2 ^ k + t - 1) \<noteq> 0"
proof -
  have b: "bit (2 ^ k + u :: nat) k" if "u < 2 ^ k" for u :: nat
    using that div_add_self1 [of "2 ^ k :: nat" u] by (simp add: bit_iff_odd)
  obtain u where t: "t = Suc u" using assms(1) by (cases t) auto
  then have "bit ((2 ^ k + t :: nat) AND (2 ^ k + t - 1)) k"
    using b [of t] b [of u] assms(2) by (simp add: bit_and_iff)
  then show ?thesis by (metis bit_0_eq bot_apply bot_bool_def)
qed

locale loop_detection =
  fixes f :: "'a::finite \<Rightarrow> 'a" and x :: 'a and n0 :: nat and kept :: "nat \<Rightarrow> 'a"
  assumes kept_Suc: "kept (Suc m) =
    (if (n0 + Suc m) AND (n0 + Suc m - 1) = 0 then (f ^^ m) x else kept m)"
begin

lemma funpow_shift: "(f ^^ i) x = (f ^^ (i + l)) x \<Longrightarrow> (f ^^ (i + t)) x = (f ^^ (i + t + l)) x"
proof (induction t)
  case (Suc t)
  have "(f ^^ (i + Suc t)) x = f ((f ^^ (i + t)) x)" "(f ^^ (i + Suc t + l)) x = f ((f ^^ (i + t + l)) x)"
    by simp_all
  then show ?case using Suc by simp
qed simp

lemma repeats: "\<exists>i l. 0 < l \<and> (\<forall>m \<ge> i. (f ^^ m) x = (f ^^ (m + l)) x)"
proof -
  have "\<not> inj (\<lambda>m. (f ^^ m) x)" using finite_imageD [of "\<lambda>m. (f ^^ m) x" UNIV] finite by auto
  then obtain a b where "a < b" "(f ^^ a) x = (f ^^ b) x"
    unfolding inj_def by (metis linorder_neqE_nat)
  then have s: "(f ^^ a) x = (f ^^ (a + (b - a))) x" "0 < b - a" by simp_all
  have "(f ^^ m) x = (f ^^ (m + (b - a))) x" if "a \<le> m" for m
    using funpow_shift [OF s(1), of "m - a"] that by simp
  with s(2) show ?thesis by blast
qed

lemma detected: "\<exists>m. kept m = (f ^^ m) x"
proof -
  obtain i l where l: "0 < l" "\<And>m. i \<le> m \<Longrightarrow> (f ^^ m) x = (f ^^ (m + l)) x" using repeats by blast
  define k where "k = n0 + i + l"
  have k: "n0 + i + l < 2 ^ k" unfolding k_def by (rule less_exp)
  define m where "m = 2 ^ k - Suc n0"
  have m: "n0 + Suc m = 2 ^ k" "i \<le> m" using k by (simp_all add: m_def)
  have "kept (m + t) = (f ^^ m) x" if "0 < t" "t \<le> l" for t
    using that
  proof (induction t)
    case (Suc t)
    show ?case
    proof (cases "t = 0")
      case True
      then show ?thesis using kept_Suc [of m, unfolded m(1)] power_and_pred [of k] by simp
    next
      case False
      have c: "n0 + Suc (m + t) = 2 ^ k + t" using m(1) by simp
      have "t < 2 ^ k" using Suc.prems k by linarith
      then have "kept (Suc (m + t)) = kept (m + t)"
        using kept_Suc [of "m + t", unfolded c] between_powers_and_pred [of t k] False by simp
      then show ?thesis using Suc False by simp
    qed
  qed simp
  from this [of l] l m(2) show ?thesis by (metis order_refl)
qed

end

text \<open>What the code keeps, as a function of the number of turns.\<close>

primrec kept_addr :: "(u64 \<Rightarrow> u64) \<Rightarrow> u64 \<Rightarrow> nat \<Rightarrow> u64 \<Rightarrow> nat \<Rightarrow> u64" where
  "kept_addr f x n0 a 0 = a"
| "kept_addr f x n0 a (Suc m) = next_lastaddr (n0 + Suc m) ((f ^^ m) x) (kept_addr f x n0 a m)"

lemma kept_addr_shift:
  "kept_addr f (f x) (Suc n0) (next_lastaddr (Suc n0) x a) m = kept_addr f x n0 a (Suc m)"
  by (induction m) (simp_all add: funpow_swap1)

interpretation kept: loop_detection f x n0 "kept_addr f x n0 a" for f :: "u64 \<Rightarrow> u64" and x n0 a
  by unfold_locales (simp add: next_lastaddr_def)

subsection \<open>Total correctness of the walk\<close>

lemma native_units_small: "disk_log_sector_size disk \<le> 30 \<Longrightarrow> unat (native_units disk n) < 2 ^ 53"
proof -
  assume "disk_log_sector_size disk \<le> 30"
  then have "(2 :: nat) ^ (disk_log_sector_size disk - 9) \<le> 2 ^ 21" by (intro power_increasing) simp_all
  moreover have "unat (ucast n :: u64) < 2 ^ 32" using unsigned_less [of n, where 'a = nat] by (simp add: unat_ucast_mod)
  ultimately have "unat (ucast n :: u64) * 2 ^ (disk_log_sector_size disk - 9) < 2 ^ 32 * 2 ^ 21"
    by (intro mult_less_le_imp_less) simp_all
  then show ?thesis
    unfolding native_units_def by (subst unat_push_bit_exact) simp_all
qed

context part_source
begin

definition next_record :: "grub_disk \<Rightarrow> u64 \<Rightarrow> u64 \<Rightarrow> u64" where
  "next_record disk ext offset =
     (case find_extended (record_at (image disk) offset) of
        None \<Rightarrow> 0 | Some i \<Rightarrow> ext + native_units disk (ent_start (record_at (image disk) offset) i))"

lemma next_record_nonzero:
  assumes "ext \<noteq> 0" "unat ext < 2 ^ 53" "disk_log_sector_size disk \<le> 30"
    and "find_extended (record_at (image disk) offset) = Some i"
  shows "next_record disk ext offset \<noteq> 0"
proof -
  let ?n = "native_units disk (ent_start (record_at (image disk) offset) i)"
  have "unat (ext + ?n) = unat ext + unat ?n"
    using assms(2) native_units_small [OF assms(3), of "ent_start (record_at (image disk) offset) i"]
    by (intro unat_plus_exact) simp
  then have "ext + ?n \<noteq> 0" using assms(1) by (metis add_is_0 unat_0 unat_eq_zero)
  then show ?thesis by (simp add: next_record_def assms(4))
qed

text \<open>
  A rule for one turn: the postcondition \<open>Q\<close> holds when the turn ends the walk, and \<open>R\<close> leads from
  the entries of the record to the next turn.
\<close>

lemma msdos_turn:
  assumes ok: "ok ps" "ps_disk ps = disk"
    and fail: "\<And>ps'. ok ps' \<Longrightarrow> ps_disk ps' = disk \<Longrightarrow> Q d ps'"
    and ent: "\<And>ps'. ok ps' \<Longrightarrow> ps_disk ps' = disk \<Longrightarrow> \<exists>stop n' d' ps2.
        msdos_entries hook (record_at (image disk) offset) offset delta slots number d ps' = Some (stop, n', d', ps2) \<and>
        Q d' ps2 \<and> (\<not> stop \<longrightarrow> ps_disk ps2 = disk \<and> R n' d' ps2)"
    and more: "\<And>i n' d' ps2. mbr_check (record_at (image disk) offset) offset labeln lastaddr = None \<Longrightarrow>
        find_extended (record_at (image disk) offset) = Some i \<Longrightarrow> R n' d' ps2 \<Longrightarrow>
        \<exists>e d3 ps3. msdos_loop rd hook delta (next_record disk ext offset)
          (if ext = 0 then next_record disk ext offset else ext) n' (Suc labeln)
          (next_lastaddr (Suc labeln) offset lastaddr) d' ps2 = Some (e, d3, ps3) \<and> Q d3 ps3"
  shows "\<exists>e d3 ps3. msdos_loop rd hook delta offset ext number labeln lastaddr d ps = Some (e, d3, ps3) \<and> Q d3 ps3"
proof -
  let ?mbr = "record_at (image disk) offset"
  obtain e mbr ps1 where r: "rd offset 0 512 ps = Some (e, mbr, ps1)" "ok ps1" "ps_disk ps1 = disk"
    "e = GRUB_ERR_NONE \<Longrightarrow> mbr = ?mbr"
    by (rule rd_total [OF ok(1), of 512 offset 0]) (auto simp: record_at_def ok(2))
  obtain stop n' d' ps2 where m: "msdos_entries hook ?mbr offset delta slots number d ps1 = Some (stop, n', d', ps2)"
    "Q d' ps2" "\<not> stop \<longrightarrow> ps_disk ps2 = disk \<and> R n' d' ps2"
    using ent [OF r(2,3)] by blast
  note unf = msdos_loop.simps [of rd hook delta offset ext number labeln lastaddr d ps]
  show ?thesis
  proof (cases "e = GRUB_ERR_NONE \<and> mbr_check ?mbr offset labeln lastaddr = None")
    case False
    have "Q d ps1" "Q d (p_error GRUB_ERR_BAD_PART_TABLE msg ps1)" for msg
      using fail r(2,3) ok_error by (auto simp: p_error_def)
    then show ?thesis using False r(1,4) unfolding unf by (auto simp: fail_with_def split: option.splits)
  next
    case True
    show ?thesis
    proof (cases "stop \<or> find_extended ?mbr = None")
      case last: True
      show ?thesis using True last r(1,4) m(1,2) unfolding unf by auto
    next
      case False
      then obtain i where i: "find_extended ?mbr = Some i" by blast
      have nr: "next_record disk ext offset = ext + native_units disk (ent_start ?mbr i)"
        by (simp add: next_record_def i)
      show ?thesis
        using more [OF conjunct2 [OF True] i, of n' d' ps2, unfolded nr] m(1,3) False True r(1,4)
        unfolding unf by (cases "ext = 0") (simp_all add: i Let_def)
    qed
  qed
qed

lemma msdos_loop_detected:
  assumes ok: "ok ps" "ps_disk ps = disk" and fail: "\<And>ps'. ok ps' \<Longrightarrow> ps_disk ps' = disk \<Longrightarrow> Q d ps'"
    and l: "labeln \<noteq> 0"
  shows "\<exists>e d3 ps3. msdos_loop rd hook delta offset ext number labeln offset d ps = Some (e, d3, ps3) \<and> Q d3 ps3"
proof -
  obtain e mbr ps1 where r: "rd offset 0 512 ps = Some (e, mbr, ps1)" "ok ps1" "ps_disk ps1 = disk"
    by (rule rd_total [OF ok(1), of 512 offset 0]) (auto simp: ok(2))
  have "Q d ps1" "Q d (p_error GRUB_ERR_BAD_PART_TABLE msg ps1)" for msg
    using fail r(2,3) ok_error by (auto simp: p_error_def)
  then show ?thesis using r(1) l by (subst msdos_loop.simps) (auto simp: mbr_check_def fail_with_def)
qed

text \<open>
  The walk behind the first record: with an invariant \<open>I\<close> that the entries of every record keep, it
  returns, since a turn finds the loop at the latest when the kept address recurs.
\<close>

lemma msdos_loop_total:
  assumes inv: "\<And>n d ps. I n d ps \<Longrightarrow> ok ps \<and> ps_disk ps = disk"
    and fin: "\<And>n d ps ps'. I n d ps \<Longrightarrow> ok ps' \<Longrightarrow> ps_disk ps' = disk \<Longrightarrow> I n d ps' \<and> Q d ps'"
    and ent: "\<And>off n d ps. off \<noteq> 0 \<Longrightarrow> I n d ps \<Longrightarrow> \<exists>stop n' d' ps2.
        msdos_entries hook (record_at (image disk) off) off delta slots n d ps = Some (stop, n', d', ps2) \<and>
        Q d' ps2 \<and> (\<not> stop \<longrightarrow> I n' d' ps2)"
    and ext: "ext \<noteq> 0" "unat ext < 2 ^ 53" "disk_log_sector_size disk \<le> 30"
    and start: "offset \<noteq> 0" "labeln \<noteq> 0" "I number d ps"
  shows "\<exists>e d3 ps3. msdos_loop rd hook delta offset ext number labeln lastaddr d ps = Some (e, d3, ps3) \<and> Q d3 ps3"
proof -
  let ?f = "next_record disk ext"
  obtain m where "kept_addr ?f offset labeln lastaddr m = (?f ^^ m) offset" using kept.detected by blast
  then show ?thesis using start
  proof (induction m arbitrary: offset number labeln lastaddr d ps)
    case 0
    show ?case
      using msdos_loop_detected [of ps disk Q d labeln] inv [OF "0.prems"(4)] fin [OF "0.prems"(4)] "0.prems"(1,3) by simp
  next
    case (Suc m)
    have k: "kept_addr ?f (?f offset) (Suc labeln) (next_lastaddr (Suc labeln) offset lastaddr) m = (?f ^^ m) (?f offset)"
      using Suc.prems(1) by (simp only: kept_addr_shift funpow_Suc_right comp_apply)
    show ?case
    proof (rule msdos_turn [where disk = disk and R = I])
      fix i n' d' ps2
      assume "find_extended (record_at (image disk) offset) = Some i" "I n' d' ps2"
      with Suc.IH [OF k next_record_nonzero [OF ext]] ext(1)
      show "\<exists>e d3 ps3. msdos_loop rd hook delta (?f offset) (if ext = 0 then ?f offset else ext) n' (Suc labeln)
          (next_lastaddr (Suc labeln) offset lastaddr) d' ps2 = Some (e, d3, ps3) \<and> Q d3 ps3"
        by simp
    qed (use inv [OF Suc.prems(4)] fin [OF Suc.prems(4)] ent [OF Suc.prems(2)] inv in blast)+
  qed
qed

lemma msdos_start_total:
  assumes ok: "ok ps" "ps_disk ps = disk"
    and first: "\<And>ps'. ok ps' \<Longrightarrow> ps_disk ps' = disk \<Longrightarrow> Q d ps' \<and> (\<exists>stop n' d' ps2.
        msdos_entries hook (record_at (image disk) 0) 0 delta slots number d ps' = Some (stop, n', d', ps2) \<and>
        Q d' ps2 \<and> (\<not> stop \<longrightarrow> I n' d' ps2))"
    and inv: "\<And>n d ps. I n d ps \<Longrightarrow> ok ps \<and> ps_disk ps = disk"
    and fin: "\<And>n d ps ps'. I n d ps \<Longrightarrow> ok ps' \<Longrightarrow> ps_disk ps' = disk \<Longrightarrow> I n d ps' \<and> Q d ps'"
    and ent: "\<And>off n d ps. off \<noteq> 0 \<Longrightarrow> I n d ps \<Longrightarrow> \<exists>stop n' d' ps2.
        msdos_entries hook (record_at (image disk) off) off delta slots n d ps = Some (stop, n', d', ps2) \<and>
        Q d' ps2 \<and> (\<not> stop \<longrightarrow> I n' d' ps2)"
    and log: "disk_log_sector_size disk \<le> 30"
  shows "\<exists>e d3 ps3. msdos_loop rd hook delta 0 0 number 0 lastaddr d ps = Some (e, d3, ps3) \<and> Q d3 ps3"
proof (rule msdos_turn [OF ok, where R = I])
  fix i n' d' ps2
  let ?x = "next_record disk 0 0"
  assume i: "find_extended (record_at (image disk) 0) = Some i" and I: "I n' d' ps2"
  have small: "unat ?x < 2 ^ 53" using native_units_small [OF log] by (simp add: next_record_def i)
  show "\<exists>e d3 ps3. msdos_loop rd hook delta ?x (if 0 = 0 then ?x else 0) n' (Suc 0)
      (next_lastaddr (Suc 0) 0 lastaddr) d' ps2 = Some (e, d3, ps3) \<and> Q d3 ps3"
  proof (cases "?x = 0")
    case True
    then show ?thesis
      using msdos_loop_detected [of ps2 disk Q d' "Suc 0" hook delta 0 0 n'] inv [OF I] fin [OF I]
      by (simp add: next_lastaddr_def)
  next
    case False
    show ?thesis
      using msdos_loop_total [where labeln = "Suc 0", OF inv fin ent False small log False _ I] by simp
  qed
qed (use first inv in blast)+

end

text \<open>The walk returns under every hook that does.\<close>

lemma msdos_entries_returns:
  assumes "hook_keeps ok hook" and "ok ps"
  shows "\<exists>stop n' d' ps'. msdos_entries hook mbr offset delta is number d ps = Some (stop, n', d', ps') \<and>
    ok ps' \<and> (\<not> stop \<longrightarrow> ps_disk ps' = ps_disk ps)"
  using assms(2)
proof (induction "is" arbitrary: number d ps)
  case (Cons i "is")
  obtain stop d1 ps1 where h: "hook (msdos_part (ps_disk ps) mbr offset delta (number + 1) i) d ps = Some (stop, d1, ps1)"
    "ok ps1" "stop \<or> ps_disk ps1 = ps_disk ps"
    using hook_keepsD [OF assms(1) Cons.prems] by metis
  show ?case
  proof (cases "\<not> grub_msdos_partition_is_empty (ent_type mbr i) \<and> \<not> grub_msdos_partition_is_extended (ent_type mbr i)")
    case True
    then show ?thesis using h Cons.IH [OF h(2), of "number + 1" d1] by (cases stop) auto
  next
    case False
    then show ?thesis using Cons.IH [OF Cons.prems] by (simp only: msdos_entries.simps if_False)
  qed
qed auto

context part_source
begin

lemma msdos_start_returns:
  assumes k: "hook_keeps ok hook" and ok: "ok ps"
  shows "\<exists>e d3 ps3. msdos_loop rd hook delta 0 0 number 0 lastaddr d ps = Some (e, d3, ps3) \<and> ok ps3"
  by (rule msdos_start_total [OF ok refl, where Q = "\<lambda>_. ok" and I = "\<lambda>_ _ ps'. ok ps' \<and> ps_disk ps' = ps_disk ps"])
    (use msdos_entries_returns [OF k] ok_geometry [OF ok] in \<open>auto, (metis (no_types))+\<close>)

lemma msdos_iterate_returns:
  assumes "hook_keeps ok hook" and "ok ps"
  shows "\<exists>e d' ps'. grub_partition_msdos_iterate rd hook d ps = Some (e, d', ps') \<and> ok ps'"
  using msdos_start_returns [OF assms] ok_error [OF assms(2)]
  by (auto simp: grub_partition_msdos_iterate_def fail_with_def split: list.splits)

end

subsection \<open>What is reported\<close>

text \<open>The hook that collects the partitions.\<close>

definition collect :: "('h, grub_partition list) part_hook" where
  "collect p d ps = Some (False, d @ [p], ps)"

lemma collect_keeps: "hook_keeps ok collect"
  by (simp add: hook_keeps_def collect_def)

text \<open>
  A list of partitions with increasing numbers above a bound, each decoded from an ordinary entry of
  the record at its table offset.
\<close>

definition msdos_entry_of :: "(u64 \<Rightarrow> bytes) \<Rightarrow> grub_disk \<Rightarrow> u64 \<Rightarrow> grub_partition \<Rightarrow> bool" where
  "msdos_entry_of rec disk delta p \<longleftrightarrow> (\<exists>i < 4. p = msdos_part disk (rec (part_offset p)) (part_offset p) delta (part_number p) i \<and>
     \<not> grub_msdos_partition_is_empty (ent_type (rec (part_offset p)) i) \<and>
     \<not> grub_msdos_partition_is_extended (ent_type (rec (part_offset p)) i))"

definition msdos_listing :: "(u64 \<Rightarrow> bytes) \<Rightarrow> grub_disk \<Rightarrow> u64 \<Rightarrow> int \<Rightarrow> grub_partition list \<Rightarrow> bool" where
  "msdos_listing rec disk delta lo parts \<longleftrightarrow> sorted_wrt (<) (map part_number parts) \<and>
     (\<forall>p \<in> set parts. lo < part_number p \<and> msdos_entry_of rec disk delta p)"

lemma msdos_listing_Nil [simp]: "msdos_listing rec disk delta lo []"
  by (simp add: msdos_listing_def)

lemma msdos_listing_append:
  assumes "msdos_listing rec disk delta lo xs" and "msdos_listing rec disk delta hi ys"
    and "\<forall>p \<in> set xs. part_number p \<le> hi" and "lo \<le> hi"
  shows "msdos_listing rec disk delta lo (xs @ ys)"
  using assms by (fastforce simp: msdos_listing_def sorted_wrt_append)

lemma msdos_listing_Cons:
  assumes "msdos_listing rec disk delta (part_number p) ys" and "lo < part_number p" and "msdos_entry_of rec disk delta p"
  shows "msdos_listing rec disk delta lo (p # ys)"
  using assms by (fastforce simp: msdos_listing_def)

text \<open>The loop over the entries of one record.\<close>

lemma msdos_entries_collect:
  assumes "\<forall>i \<in> set is. i < 4"
  shows "\<exists>number' new. msdos_entries collect (rec offset) offset delta is number d ps = Some (False, number', d @ new, ps) \<and>
    number \<le> number' \<and> msdos_listing rec (ps_disk ps) delta number new \<and>
    (\<forall>p \<in> set new. part_number p \<le> number' \<and> part_offset p = offset)"
  using assms
proof (induction "is" arbitrary: number d)
  case (Cons i "is")
  let ?p = "msdos_part (ps_disk ps) (rec offset) offset delta (number + 1) i"
  have i: "i < 4" and r: "\<forall>i \<in> set is. i < 4" using Cons.prems by simp_all
  have p: "part_number ?p = number + 1" "part_offset ?p = offset" by (simp_all add: msdos_part_def)
  show ?case
  proof (cases "\<not> grub_msdos_partition_is_empty (ent_type (rec offset) i) \<and> \<not> grub_msdos_partition_is_extended (ent_type (rec offset) i)")
    case True
    obtain number' new where IH: "msdos_entries collect (rec offset) offset delta is (number + 1) (d @ [?p]) ps =
        Some (False, number', (d @ [?p]) @ new, ps)" "number + 1 \<le> number'"
      "msdos_listing rec (ps_disk ps) delta (number + 1) new"
      "\<forall>p \<in> set new. part_number p \<le> number' \<and> part_offset p = offset"
      using Cons.IH [OF r, of "number + 1" "d @ [?p]"] by blast
    have "msdos_entry_of rec (ps_disk ps) delta ?p"
      unfolding msdos_entry_of_def using i True p by auto
    then have "msdos_listing rec (ps_disk ps) delta number (?p # new)"
      using IH(3) p(1) by (intro msdos_listing_Cons) simp_all
    moreover have "msdos_entries collect (rec offset) offset delta (i # is) number d ps =
        msdos_entries collect (rec offset) offset delta is (number + 1) (d @ [?p]) ps"
      using True by (simp add: collect_def)
    ultimately show ?thesis
      using IH p by (intro exI [of _ number'] exI [of _ "?p # new"]) (simp del: msdos_entries.simps)
  next
    case False
    let ?n = "if number < 3 then number + 1 else number"
    obtain number' new where IH: "msdos_entries collect (rec offset) offset delta is ?n d ps =
        Some (False, number', d @ new, ps)" "?n \<le> number'"
      "msdos_listing rec (ps_disk ps) delta ?n new"
      "\<forall>p \<in> set new. part_number p \<le> number' \<and> part_offset p = offset"
      using Cons.IH [OF r, of ?n d] by blast
    have "msdos_listing rec (ps_disk ps) delta number new"
      using msdos_listing_append [of rec "ps_disk ps" delta number "[]" ?n new] IH(3) by simp
    moreover have "number \<le> number'" using IH(2) by (simp split: if_splits)
    moreover have "msdos_entries collect (rec offset) offset delta (i # is) number d ps = Some (False, number', d @ new, ps)"
      using False IH(1) by (simp only: msdos_entries.simps if_False)
    ultimately show ?thesis using IH(4) by blast
  qed
qed auto

text \<open>In the first record every slot takes the number of its position.\<close>

lemma msdos_primary_collect:
  "k \<le> 4 \<Longrightarrow> \<exists>new. msdos_entries collect mbr offset delta [k..<4] (int k - 1) d ps = Some (False, 3, d @ new, ps) \<and>
     (\<forall>p \<in> set new. part_number p = part_index p)"
proof (induction k arbitrary: d rule: inc_induct)
  case (step k)
  have l: "[k..<4] = k # [Suc k..<4]" using step.hyps by (simp add: upt_conv_Cons)
  let ?p = "msdos_part (ps_disk ps) mbr offset delta (int k) k"
  have "part_number ?p = part_index ?p" by (simp add: msdos_part_def)
  then show ?case
    using step.IH [of d] step.IH [of "d @ [?p]"] step.hyps by (auto simp: l collect_def)
qed simp

text \<open>The primary partitions of a boot record, each numbered by its slot.\<close>

definition msdos_primaries :: "grub_disk \<Rightarrow> bytes \<Rightarrow> grub_partition list" where
  "msdos_primaries disk mbr = map (\<lambda>i. msdos_part disk mbr 0 0 (int i) i)
     (filter (\<lambda>i. \<not> grub_msdos_partition_is_empty (ent_type mbr i) \<and>
        \<not> grub_msdos_partition_is_extended (ent_type mbr i)) [0..<4])"

lemma msdos_primary_listing:
  "k \<le> 4 \<Longrightarrow> msdos_entries collect mbr offset delta [k..<4] (int k - 1) d ps = Some (False, 3,
     d @ map (\<lambda>i. msdos_part (ps_disk ps) mbr offset delta (int i) i)
       (filter (\<lambda>i. \<not> grub_msdos_partition_is_empty (ent_type mbr i) \<and>
          \<not> grub_msdos_partition_is_extended (ent_type mbr i)) [k..<4]), ps)"
proof (induction k arbitrary: d rule: inc_induct)
  case (step k)
  have l: "[k..<4] = k # [Suc k..<4]" using step.hyps by (simp add: upt_conv_Cons)
  show ?case
    using step.IH [of d] step.IH [of "d @ [msdos_part (ps_disk ps) mbr offset delta (int k) k]"] step.hyps
    by (auto simp: l collect_def)
qed simp

lemma slots_upt: "slots = [0..<4]"
  by (simp add: slots_def upt_rec)

text \<open>What a walk reports: primary partitions under the numbers of their slots, logical ones from four on.\<close>

definition msdos_report :: "(u64 \<Rightarrow> bytes) \<Rightarrow> grub_disk \<Rightarrow> u64 \<Rightarrow> grub_partition list \<Rightarrow> bool" where
  "msdos_report rec disk delta parts \<longleftrightarrow> msdos_listing rec disk delta (-1) parts \<and>
     (\<forall>p \<in> set parts. (part_offset p = 0 \<longleftrightarrow> part_number p < 4) \<and> (part_offset p = 0 \<longrightarrow> part_number p = part_index p))"



lemma msdos_report_primary:
  assumes "msdos_listing rec disk delta (-1) new"
    and "\<forall>p \<in> set new. part_number p \<le> 3 \<and> part_offset p = 0 \<and> part_number p = part_index p"
  shows "msdos_report rec disk delta new"
  using assms by (auto simp: msdos_report_def)

lemma msdos_report_append:
  assumes "msdos_report rec disk delta d" and "\<forall>p \<in> set d. part_number p \<le> n" and "3 \<le> n"
    and "msdos_listing rec disk delta n new" and "\<forall>p \<in> set new. part_offset p \<noteq> 0"
  shows "msdos_report rec disk delta (d @ new)"
proof -
  have "msdos_listing rec disk delta (-1) (d @ new)"
    using assms by (intro msdos_listing_append [of _ _ _ _ _ n]) (auto simp: msdos_report_def)
  moreover have "\<forall>p \<in> set new. 4 \<le> part_number p" using assms(3,4) by (auto simp: msdos_listing_def)
  ultimately show ?thesis using assms(1,5) by (auto simp: msdos_report_def)
qed

context part_source
begin

lemma msdos_first_record:
  assumes "ps_disk ps = disk"
  obtains new where
    "msdos_entries collect (record_at (image disk) 0) 0 delta slots (-1) d ps = Some (False, 3, d @ new, ps)"
    "msdos_listing (record_at (image disk)) disk delta (-1) new"
    "\<forall>p \<in> set new. part_number p \<le> 3 \<and> part_offset p = 0 \<and> part_number p = part_index p"
  using msdos_primary_collect [of 0 "record_at (image disk) 0" 0 delta d ps]
    msdos_entries_collect [of slots "record_at (image disk)" 0 delta "-1" d ps] assms
  by (auto simp: slots_upt)

lemma msdos_start_report:
  assumes ok: "ok ps"
  shows "\<exists>e parts ps3. msdos_loop rd collect delta 0 0 (-1) 0 lastaddr [] ps = Some (e, parts, ps3) \<and>
    msdos_report (record_at (image (ps_disk ps))) (ps_disk ps) delta parts"
proof -
  let ?rec = "record_at (image (ps_disk ps))"
  let ?R = "msdos_report ?rec (ps_disk ps) delta"
  let ?I = "\<lambda>n d ps'. ok ps' \<and> ps_disk ps' = ps_disk ps \<and> ?R d \<and> 3 \<le> n \<and> (\<forall>p \<in> set d. part_number p \<le> n)"
  show ?thesis
  proof (rule msdos_start_total [OF ok refl, where Q = "\<lambda>d _. ?R d" and I = ?I])
    fix ps'
    assume ps': "ok ps'" "ps_disk ps' = ps_disk ps"
    obtain new where new: "msdos_entries collect (?rec 0) 0 delta slots (-1) [] ps' = Some (False, 3, new, ps')"
      "msdos_listing ?rec (ps_disk ps) delta (-1) new"
      "\<forall>p \<in> set new. part_number p \<le> 3 \<and> part_offset p = 0 \<and> part_number p = part_index p"
      using msdos_first_record [OF ps'(2), of delta "[]"] by (metis append_Nil)
    show "?R [] \<and> (\<exists>stop n' d' ps2. msdos_entries collect (?rec 0) 0 delta slots (-1) [] ps' = Some (stop, n', d', ps2) \<and>
        ?R d' \<and> (\<not> stop \<longrightarrow> ?I n' d' ps2))"
    proof (intro conjI exI)
      show "?R []" by (simp add: msdos_report_def)
      show "msdos_entries collect (?rec 0) 0 delta slots (-1) [] ps' = Some (False, 3, new, ps')" by (rule new(1))
      show "?R new" by (rule msdos_report_primary [OF new(2,3)])
      then show "\<not> False \<longrightarrow> ?I 3 new ps'" using ps' new(3) by fastforce
    qed
  next
    fix off :: u64 and n d ps'
    assume off: "off \<noteq> 0" and I: "?I n d ps'"
    obtain n' new where m: "msdos_entries collect (?rec off) off delta slots n d ps' = Some (False, n', d @ new, ps')"
      "n \<le> n'" "msdos_listing ?rec (ps_disk ps) delta n new" "\<forall>p \<in> set new. part_number p \<le> n' \<and> part_offset p = off"
      using msdos_entries_collect [of slots ?rec off delta n d ps'] I by (auto simp: slots_def)
    have "?R (d @ new)" using I m(4) off by (intro msdos_report_append [OF _ _ _ m(3)]) auto
    moreover have "\<forall>p \<in> set (d @ new). part_number p \<le> n'" "3 \<le> n'" using I m(2,4) by auto
    ultimately show "\<exists>stop n' d' ps2. msdos_entries collect (?rec off) off delta slots n d ps' = Some (stop, n', d', ps2) \<and>
        ?R d' \<and> (\<not> stop \<longrightarrow> ?I n' d' ps2)"
      using m(1) I by blast
  qed (use ok_geometry [OF ok] in auto)
qed

lemma msdos_iterate_report:
  assumes ok: "ok ps"
    and outer: "cur_partition ps = [] \<or> part_partmap (hd (cur_partition ps)) \<noteq> ''msdos''"
  shows "\<exists>e parts ps'. grub_partition_msdos_iterate rd collect [] ps = Some (e, parts, ps') \<and>
    msdos_report (record_at (image (ps_disk ps))) (ps_disk ps) 0 parts"
  using msdos_start_report [OF ok, of 0 1] outer
  by (auto simp: grub_partition_msdos_iterate_def split: list.splits)

text \<open>Without an extended partition the report is complete: the ordinary entries of the boot record.\<close>

lemma msdos_iterate_exact:
  assumes ok: "ok ps" and calm: "calm ps" and disk: "ps_disk ps = disk" and whole: "disk_partition disk = []"
    and readable: "grub_disk_adjust_range disk 0 0 512 \<noteq> None"
    and valid: "mbr_check (record_at (image disk) 0) 0 0 1 = None" "find_extended (record_at (image disk) 0) = None"
  shows "\<exists>ps'. grub_partition_msdos_iterate rd collect [] ps =
    Some (GRUB_ERR_NONE, msdos_primaries disk (record_at (image disk) 0), ps') \<and> ok ps' \<and> calm ps'"
proof -
  obtain ps1 where r: "rd 0 0 512 ps = Some (GRUB_ERR_NONE, record_at (image disk) 0, ps1)" "ok ps1" "calm ps1"
    "ps_disk ps1 = disk"
    by (rule rd_calm [OF ok calm, of 512 0 0]) (use readable disk in \<open>auto simp: record_at_def\<close>)
  have "msdos_entries collect (record_at (image disk) 0) 0 0 slots (-1) [] ps1 =
      Some (False, 3, msdos_primaries disk (record_at (image disk) 0), ps1)"
    using msdos_primary_listing [of 0 "record_at (image disk) 0" 0 0 "[]" ps1]
    by (simp add: slots_upt msdos_primaries_def r(4))
  then show ?thesis
    using r valid calm_errno [OF r(3)] whole disk
    by (simp add: grub_partition_msdos_iterate_def cur_partition_def msdos_loop.simps [of rd collect 0 0])
qed

end

end
