(* ===== verification/Gpt_Correct.thy ===== *)
theory Gpt_Correct
  imports Partmap_Gpt Msdos_Correct
begin

text \<open>
  Correctness of the GPT map: the carry arithmetic visits the entry array at multiples of the entry
  size, for every legal size, and the partitions reported are exactly the used entries.
\<close>

lemma gpt_carry_eq: "gpt_carry entries lo = (entries + of_nat (unat lo div 512), of_nat (unat lo mod 512))"
proof (induction entries lo rule: gpt_carry.induct)
  case (1 entries lo)
  show ?case
  proof (cases "512 \<le> lo")
    case True
    then have u: "unat (lo - 512) = unat lo - 512" "512 \<le> unat lo"
      by (simp_all add: unat_minus_exact word_le_nat_alt)
    have "unat lo div 512 = Suc ((unat lo - 512) div 512)" "unat lo mod 512 = (unat lo - 512) mod 512"
      using u(2) by (simp_all add: le_div_geq le_mod_geq)
    then show ?thesis
      using True "1.IH" by (subst gpt_carry.simps) (simp add: u(1))
  next
    case False
    then have "unat lo < 512" by (simp add: word_le_nat_alt not_le)
    then show ?thesis using False by (subst gpt_carry.simps) simp
  qed
qed

lemma div_add_split: "0 < m \<Longrightarrow> (a + b) div m = a div m + (a mod m + b) div (m :: nat)"
proof -
  assume m: "0 < m"
  have "a + b = m * (a div m) + (a mod m + b)" by (simp only: add.assoc [symmetric] mult_div_mod_eq)
  then show ?thesis using m div_mult_self4 [of m "a div m" "a mod m + b"] by (simp only: neq0_conv)
qed

text \<open>A byte address as the sector and offset the walk keeps.\<close>

definition sector_of :: "nat \<Rightarrow> u64" where "sector_of a = of_nat (a div 512)"
definition offset_of :: "nat \<Rightarrow> u64" where "offset_of a = of_nat (a mod 512)"

lemma unat_sector_of: "a div 512 < 2 ^ 64 \<Longrightarrow> unat (sector_of a) = a div 512"
  by (simp add: sector_of_def unat_of_nat)

lemma unat_offset_of: "unat (offset_of a) = a mod 512"
proof -
  have "a mod 512 < 2 ^ 64" by (rule less_trans [of _ 512]) simp_all
  then show ?thesis by (simp add: offset_of_def unat_of_nat)
qed

lemma address_parts: "a div 512 < 2 ^ 64 \<Longrightarrow> unat (sector_of a) * 512 + unat (offset_of a) = a"
  by (simp add: unat_sector_of unat_offset_of)

lemma gpt_carry_step:
  "gpt_carry (sector_of a) (offset_of a + ucast (psize :: u32)) =
     (sector_of (a + unat psize), offset_of (a + unat psize))"
proof -
  have p: "unat (ucast psize :: u64) = unat psize" "unat psize < 2 ^ 32"
    using unsigned_less [of psize, where 'a = nat] by (simp_all add: unat_ucast_mod)
  have "a mod 512 < 512" by simp
  then have u: "unat (offset_of a + ucast psize) = a mod 512 + unat psize"
    using p by (subst unat_plus_exact) (simp_all add: unat_offset_of)
  have "(a + unat psize) div 512 = a div 512 + (a mod 512 + unat psize) div 512"
    by (rule div_add_split) simp
  moreover have "(a + unat psize) mod 512 = (a mod 512 + unat psize) mod 512" by (simp add: mod_simps)
  ultimately show ?thesis
    unfolding gpt_carry_eq u by (simp add: sector_of_def offset_of_def)
qed

text \<open>The partitions of the used entries of an array that starts at byte \<open>a\<close>, numbered from \<open>i\<close>.\<close>

definition entry_bytes :: "(nat \<Rightarrow> u8) \<Rightarrow> nat \<Rightarrow> bytes" where
  "entry_bytes img a = map img [a..<a + 128]"

definition gpt_listing :: "grub_partition \<Rightarrow> (nat \<Rightarrow> u8) \<Rightarrow> nat \<Rightarrow> nat \<Rightarrow> nat \<Rightarrow> nat \<Rightarrow> nat \<Rightarrow> grub_partition list" where
  "gpt_listing p0 img sector_log psize a i n =
     map (\<lambda>j. gpt_part p0 (entry_bytes img (a + j * psize)) sector_log (i + j)
            (sector_of (a + j * psize)) (offset_of (a + j * psize)))
       (filter (\<lambda>j. gpt_used (entry_bytes img (a + j * psize))) [0..<n])"

lemma gpt_listing_0 [simp]: "gpt_listing p0 img k psize a i 0 = []"
  by (simp add: gpt_listing_def)

lemma gpt_listing_Suc:
  "gpt_listing p0 img k psize a i (Suc n) =
     (if gpt_used (entry_bytes img a) then [gpt_part p0 (entry_bytes img a) k i (sector_of a) (offset_of a)] else []) @
     gpt_listing p0 img k psize (a + psize) (Suc i) n"
proof -
  have "[0..<Suc n] = 0 # map Suc [0..<n]" by (simp add: upt_conv_Cons map_Suc_upt)
  then show ?thesis by (simp add: gpt_listing_def filter_map comp_def add.assoc)
qed

context part_source
begin

lemma gpt_entries_returns:
  assumes k: "hook_keeps ok hook" and "ok ps"
  shows "\<exists>r. gpt_entries rd p0 hook psize sl n i entries lo d ps = Some r"
  using assms(2)
proof (induction n arbitrary: i entries lo d ps)
  case (Suc n)
  obtain e buf ps1 where r: "rd entries lo 128 ps = Some (e, buf, ps1)" "ok ps1"
    by (rule rd_total [OF Suc.prems, of 128 entries lo]) auto
  obtain stop d' ps' where h: "hook (gpt_part p0 buf sl i entries lo) d ps1 = Some (stop, d', ps')" "ok ps'"
    using hook_keepsD [OF k r(2)] by blast
  show ?case using r h Suc.IH [OF r(2)] Suc.IH [OF h(2)] by (auto split: prod.splits)
qed simp

lemma gpt_find_header_returns:
  "ok ps \<Longrightarrow> \<exists>r ps'. gpt_find_header rd ks ps = Some (r, ps') \<and> ok ps'"
proof (induction ks arbitrary: ps)
  case (Cons k ks)
  obtain e buf ps1 where r: "rd (push_bit k 1) 0 92 ps = Some (e, buf, ps1)" "ok ps1"
    by (rule rd_total [OF Cons.prems, of 92 "push_bit k 1" 0]) auto
  show ?case using r Cons.IH [OF r(2)] by auto
qed simp

lemma gpt_iterate_returns:
  assumes k: "hook_keeps ok hook" and ok: "ok ps"
  shows "\<exists>r. grub_gpt_partition_map_iterate rd p0 hook d ps = Some r"
proof -
  obtain e buf ps1 where r: "rd 0 0 512 ps = Some (e, buf, ps1)" "ok ps1"
    by (rule rd_total [OF ok, of 512 0 0]) auto
  obtain h ps2 where f: "gpt_find_header rd [0..<MAX_SECTOR_LOG] ps1 = Some (h, ps2)" "ok ps2"
    using gpt_find_header_returns [OF r(2)] by blast
  show ?thesis
    using r(1) f gpt_entries_returns [OF k f(2)]
    by (auto simp: grub_gpt_partition_map_iterate_def gpt_table_def fail_with_def simp del: upt_rec_numeral
        split: sum.splits option.splits)
qed

text \<open>With no error pending and the array on the disk, the walk reports exactly the used entries.\<close>

lemma gpt_entries_exact:
  assumes "ok ps" "calm ps" "ps_disk ps = disk"
    and "\<forall>j < n. grub_disk_adjust_range disk (sector_of (a + j * unat psize)) (offset_of (a + j * unat psize)) 128 \<noteq> None"
    and "(a + n * unat psize) div 512 < 2 ^ 64"
  shows "\<exists>ps'. gpt_entries rd p0 collect psize sl n i (sector_of a) (offset_of a) d ps =
      Some (GRUB_ERR_NONE, d @ gpt_listing p0 (image disk) sl (unat psize) a i n, ps') \<and> ok ps' \<and> calm ps'"
  using assms
proof (induction n arbitrary: a i d ps)
  case (Suc n)
  have a: "a div 512 < 2 ^ 64" by (rule le_less_trans [OF _ Suc.prems(5)]) (simp add: div_le_mono)
  obtain ps1 where r: "rd (sector_of a) (offset_of a) 128 ps =
      Some (GRUB_ERR_NONE, image_bytes (image (ps_disk ps)) (sector_of a) (offset_of a) 128, ps1)"
    "ok ps1" "calm ps1" "ps_disk ps1 = ps_disk ps"
    by (rule rd_calm [OF Suc.prems(1,2), of 128 "sector_of a" "offset_of a"]) (use Suc.prems(3,4) in auto)
  have b: "image_bytes (image (ps_disk ps)) (sector_of a) (offset_of a) 128 = entry_bytes (image disk) a"
    unfolding image_bytes_def entry_bytes_def address_parts [OF a] using Suc.prems(3) by simp
  have n: "\<forall>j < n. grub_disk_adjust_range disk (sector_of (a + unat psize + j * unat psize))
      (offset_of (a + unat psize + j * unat psize)) 128 \<noteq> None"
    using Suc.prems(4) by (auto simp: add.assoc dest: spec [of _ "Suc _"])
  have l: "(a + unat psize + n * unat psize) div 512 < 2 ^ 64" using Suc.prems(5) by (simp add: add.assoc)
  have d1: "ps_disk ps1 = disk" using r(4) Suc.prems(3) by simp
  let ?p = "gpt_part p0 (entry_bytes (image disk) a) sl i (sector_of a) (offset_of a)"
  let ?d = "if gpt_used (entry_bytes (image disk) a) then d @ [?p] else d"
  have "gpt_entries rd p0 collect psize sl (Suc n) i (sector_of a) (offset_of a) d ps =
      gpt_entries rd p0 collect psize sl n (Suc i) (sector_of (a + unat psize)) (offset_of (a + unat psize)) ?d ps1"
    by (simp add: r(1) [unfolded b] gpt_carry_step collect_def)
  moreover have "?d @ gpt_listing p0 (image disk) sl (unat psize) (a + unat psize) (Suc i) n =
      d @ gpt_listing p0 (image disk) sl (unat psize) a i (Suc n)"
    by (simp add: gpt_listing_Suc)
  ultimately show ?case
    using Suc.IH [OF r(2,3) d1 n l, of "Suc i" ?d] by (simp only:)
qed auto

text \<open>The header is the first one with the magic number, over the sector sizes in order.\<close>

lemma gpt_find_header_exact:
  assumes "ok ps" "calm ps" "ps_disk ps = disk"
    and "\<forall>j \<in> set (js @ [k]). grub_disk_adjust_range disk (push_bit j 1) 0 92 \<noteq> None"
    and "\<forall>j \<in> set js. grub_memcmp (header_at (image disk) j) grub_gpt_magic 8 \<noteq> 0"
    and "grub_memcmp (header_at (image disk) k) grub_gpt_magic 8 = 0"
  shows "\<exists>ps'. gpt_find_header rd (js @ k # ks) ps = Some (Inr (Some (k, header_at (image disk) k)), ps') \<and>
    ok ps' \<and> calm ps' \<and> ps_disk ps' = disk"
  using assms
proof (induction js arbitrary: ps)
  case Nil
  obtain ps1 where "rd (push_bit k 1) 0 92 ps = Some (GRUB_ERR_NONE, header_at (image disk) k, ps1)"
    "ok ps1" "calm ps1" "ps_disk ps1 = disk"
    by (rule rd_calm [OF Nil(1,2), of 92 "push_bit k 1" 0]) (use Nil in \<open>auto simp: header_at_def\<close>)
  then show ?case using Nil(6) by simp
next
  case (Cons j js)
  obtain ps1 where r: "rd (push_bit j 1) 0 92 ps = Some (GRUB_ERR_NONE, header_at (image disk) j, ps1)"
    "ok ps1" "calm ps1" "ps_disk ps1 = disk"
    by (rule rd_calm [OF Cons.prems(1,2), of 92 "push_bit j 1" 0]) (use Cons.prems in \<open>auto simp: header_at_def\<close>)
  show ?case using r Cons.IH [OF r(2,3,4)] Cons.prems(4-6) by simp
qed

lemma gpt_iterate_exact:
  assumes ok: "ok ps" and calm: "calm ps" and disk: "ps_disk ps = disk"
    and mbr: "grub_disk_adjust_range disk 0 0 512 \<noteq> None"
      "mbr_signature (record_at (image disk) 0) = GRUB_PC_PARTITION_SIGNATURE"
      "list_ex (\<lambda>i. ent_type (record_at (image disk) 0) i = GRUB_PC_PARTITION_TYPE_GPT_DISK) slots"
    and k: "k < MAX_SECTOR_LOG" "\<forall>j \<le> k. grub_disk_adjust_range disk (push_bit j 1) 0 92 \<noteq> None"
      "\<forall>j < k. grub_memcmp (header_at (image disk) j) grub_gpt_magic 8 \<noteq> 0"
      "grub_memcmp (header_at (image disk) k) grub_gpt_magic 8 = 0"
    and size: "\<not> gpt_size_bad (header_at (image disk) k)"
  defines "gpt \<equiv> header_at (image disk) k"
  defines "a \<equiv> unat (push_bit k (gpt_partitions gpt)) * 512" and "w \<equiv> unat (gpt_partentry_size gpt)"
    and "n \<equiv> unat (gpt_maxpart gpt)"
  assumes room: "\<forall>j < n. grub_disk_adjust_range disk (sector_of (a + j * w)) (offset_of (a + j * w)) 128 \<noteq> None"
    and nowrap: "(a + n * w) div 512 < 2 ^ 64"
  shows "\<exists>ps'. grub_gpt_partition_map_iterate rd p0 collect [] ps =
      Some (GRUB_ERR_NONE, gpt_listing p0 (image disk) k w a 0 n, ps') \<and> ok ps' \<and> calm ps'"
proof -
  obtain ps1 where r: "rd 0 0 512 ps = Some (GRUB_ERR_NONE, record_at (image disk) 0, ps1)" "ok ps1" "calm ps1" "ps_disk ps1 = disk"
    by (rule rd_calm [OF ok calm, of 512 0 0]) (use mbr disk in \<open>auto simp: record_at_def\<close>)
  have "[0..<MAX_SECTOR_LOG] = [0..<k] @ k # [Suc k..<MAX_SECTOR_LOG]"
    using k(1) by (metis less_imp_le_nat upt_add_eq_append upt_conv_Cons le0 le_add_diff_inverse)
  then obtain ps2 where f: "gpt_find_header rd [0..<MAX_SECTOR_LOG] ps1 = Some (Inr (Some (k, gpt)), ps2)"
    "ok ps2" "calm ps2" "ps_disk ps2 = disk"
    using gpt_find_header_exact [OF r(2-4), of "[0..<k]" k "[Suc k..<MAX_SECTOR_LOG]"] k(2-4) by (auto simp: gpt_def)
  have "sector_of a = push_bit k (gpt_partitions gpt)" "offset_of a = 0"
    by (simp_all add: a_def sector_of_def offset_of_def)
  then show ?thesis
    using r(1) f(1) mbr(2,3) size gpt_entries_exact [OF f(2-4) room [unfolded w_def] nowrap [unfolded w_def], of p0 k 0 "[]"]
    by (simp add: grub_gpt_partition_map_iterate_def gpt_table_def gpt_def [symmetric] n_def w_def del: upt_rec_numeral)
qed

end

end
