(* ===== verification/Partmaps_Return.thy ===== *)
theory Partmaps_Return
  imports Partmaps Gpt_Correct
begin

text \<open>
  The partition maps return: on every disk, whatever its contents, the walk of a map ends with a
  usable state under every hook that returns. The Amiga map is the exception; its list of blocks is
  followed without a bound.
\<close>

context part_source
begin

lemmas iter_returnsD = iter_returns_def [THEN iffD1, rule_format]
lemmas rd_then = returns_bind [OF rd_returns]
lemmas keeps = ok_error ok_malloc ok_partition ok_errno ok_print

subsection \<open>Tables in one block\<close>

lemma sun_returns: "iter_returns ok (sun_partition_map_iterate rd p0)"
proof (rule iter_returnsI)
  fix hook :: "('h, 'd) part_hook" and d ps
  assume k: "hook_keeps ok hook" and ok: "ok ps"
  show "returns (sun_partition_map_iterate rd p0 hook d ps) (usable ok)"
    unfolding sun_partition_map_iterate_def
    by (rule rd_then [OF ok]) (auto simp: keeps intro!: returns_bind [OF call_hooks_returns [OF k]])
qed

lemma sun_pc_returns: "iter_returns ok (sun_pc_partition_map_iterate rd)"
proof (rule iter_returnsI)
  fix hook :: "('h, 'd) part_hook" and d ps
  assume k: "hook_keeps ok hook" and ok: "ok ps"
  have "ok (snd (p_malloc ps))" by (rule ok_malloc [OF ok])
  then show "returns (sun_pc_partition_map_iterate rd hook d ps) (usable ok)"
    unfolding sun_pc_partition_map_iterate_def
    by (cases "p_malloc ps") (auto simp: keeps intro!: rd_then returns_bind [OF call_hooks_returns [OF k]])
qed

lemma dvh_returns: "iter_returns ok (dvh_partition_map_iterate rd p0)"
proof (rule iter_returnsI)
  fix hook :: "('h, 'd) part_hook" and d ps
  assume k: "hook_keeps ok hook" and ok: "ok ps"
  show "returns (dvh_partition_map_iterate rd p0 hook d ps) (usable ok)"
    unfolding dvh_partition_map_iterate_def
    by (rule rd_then [OF ok]) (auto simp: keeps intro!: returns_bind [OF call_hooks_returns [OF k]])
qed

lemma acorn_returns: "iter_returns ok (acorn_partition_map_iterate rd p0)"
proof (rule iter_returnsI)
  fix hook :: "('h, 'd) part_hook" and d ps
  assume k: "hook_keeps ok hook" and ok: "ok ps"
  have find: "returns (acorn_partition_map_find rd ps) (\<lambda>(_, _, _, ps'). ok ps')"
    unfolding acorn_partition_map_find_def
    by (rule rd_then [OF ok]) (auto simp: keeps intro!: rd_then)
  show "returns (acorn_partition_map_iterate rd p0 hook d ps) (usable ok)"
    unfolding acorn_partition_map_iterate_def
    by (rule returns_bind [OF find]) (auto intro!: returns_bind [OF call_hooks_returns [OF k]])
qed

lemma unixware_returns: "iter_returns ok (unixware_partition_map_iterate rd p0)"
proof (rule iter_returnsI)
  fix hook :: "('h, 'd) part_hook" and d ps
  assume k: "hook_keeps ok hook" and ok: "ok ps"
  show "returns (unixware_partition_map_iterate rd p0 hook d ps) (usable ok)"
    unfolding unixware_partition_map_iterate_def
    using ok by (auto simp: keeps intro!: rd_then returns_bind [OF call_hooks_returns [OF k]])
qed

lemma xenix_report_returns:
  assumes k: "hook_keeps ok hook" and ok: "ok ps"
  shows "returns (xenix_report rd parent label badtrk hook d ps) (usable ok)"
  unfolding xenix_report_def
  by (rule rd_then [OF ok_partition [OF ok]])
    (auto simp: Let_def xenix_exit_def xenix_fail_def keeps
      intro!: returns_bind [OF call_hooks_returns [OF k]] split: sum.splits)

lemma xenix_returns: "iter_returns ok (xenix_partition_map_iterate rd)"
proof (rule iter_returnsI)
  fix hook :: "('h, 'd) part_hook" and d ps
  assume k: "hook_keeps ok hook" and ok: "ok ps"
  show "returns (xenix_partition_map_iterate rd hook d ps) (usable ok)"
    unfolding xenix_partition_map_iterate_def
    using ok by (auto simp: Let_def xenix_exit_def xenix_fail_def keeps xenix_report_returns [OF k]
        intro!: rd_then split: option.splits)
qed

subsection \<open>Entries counted by the header\<close>

lemma dfly_entries_returns:
  assumes k: "hook_keeps ok hook"
  shows "ok ps \<Longrightarrow> returns (dfly_entries rd p0 hook n partno pos d ps) (usable ok)"
proof (induction n arbitrary: partno pos d ps)
  case (Suc n)
  show ?case
    unfolding dfly_entries.simps Let_def
    by (rule rd_then [OF Suc.prems]) (auto simp: Suc.IH intro!: returns_bind [OF hook_returns [OF k]])
qed simp

lemma dfly_returns: "iter_returns ok (dfly_partition_map_iterate rd p0)"
proof (rule iter_returnsI)
  fix hook :: "('h, 'd) part_hook" and d ps
  assume k: "hook_keeps ok hook" and ok: "ok ps"
  show "returns (dfly_partition_map_iterate rd p0 hook d ps) (usable ok)"
    unfolding dfly_partition_map_iterate_def
    by (rule rd_then [OF ok]) (auto simp: keeps dfly_entries_returns [OF k])
qed

lemma bsd_entries_returns:
  assumes k: "hook_keeps ok hook"
  shows "ok ps \<Longrightarrow> returns (bsd_entries rd p0 pmap hook delta n number pos d ps) (usable ok)"
proof (induction n arbitrary: number pos d ps)
  case (Suc n)
  then show ?case
    by (auto intro!: rd_then returns_bind [OF hook_returns [OF k]])
qed simp

lemma iterate_real_returns:
  assumes k: "hook_keeps ok hook" and ok: "ok ps"
  shows "returns (iterate_real rd p0 sector freebsd pmap hook d ps) (usable ok)"
proof -
  have delta: "ok ps1 \<Longrightarrow> returns (bsd_delta rd sector freebsd label ps1) (usable ok)" for ps1 label
    by (auto simp: bsd_delta_def Let_def intro!: rd_then)
  show ?thesis
    unfolding iterate_real_def
    by (rule rd_then [OF ok]) (auto simp: keeps bsd_entries_returns [OF k] intro!: returns_bind [OF delta])
qed

lemma bsd_returns: "iter_returns ok (bsdlabel_partition_map_iterate rd p0)"
  by (rule iter_returnsI)
    (auto simp: bsdlabel_partition_map_iterate_def iterate_real_returns keeps split: list.splits)

lemma gpt_entries_usable:
  assumes k: "hook_keeps ok hook"
  shows "ok ps \<Longrightarrow> returns (gpt_entries rd p0 hook psize sl n i entries lo d ps) (usable ok)"
proof (induction n arbitrary: i entries lo d ps)
  case (Suc n)
  show ?case
    unfolding gpt_entries.simps
    by (rule rd_then [OF Suc.prems])
      (auto simp: Suc.IH intro!: returns_bind [OF hook_returns [OF k]] split: prod.splits)
qed simp

lemma gpt_returns: "iter_returns ok (grub_gpt_partition_map_iterate rd p0)"
proof (rule iter_returnsI)
  fix hook :: "('h, 'd) part_hook" and d ps
  assume k: "hook_keeps ok hook" and ok: "ok ps"
  have find: "ok ps1 \<Longrightarrow> returns (gpt_find_header rd ks ps1) (\<lambda>(_, ps'). ok ps')" for ks ps1
    using gpt_find_header_returns [of ps1 ks] by (auto simp: returns_def)
  show "returns (grub_gpt_partition_map_iterate rd p0 hook d ps) (usable ok)"
    unfolding grub_gpt_partition_map_iterate_def
    by (rule rd_then [OF ok])
      (auto simp: keeps gpt_table_def gpt_entries_usable [OF k] simp del: upt_rec_numeral
        intro!: returns_bind [OF find] split: sum.splits option.splits)
qed

subsection \<open>Tables that are followed\<close>

lemma apple_loop_returns:
  assumes k: "hook_keeps ok hook" and n: "0 \<le> partno" "partnum = 0 \<longrightarrow> partno = 0"
  shows "ok ps \<Longrightarrow> returns (apple_loop rd p0 hook blocksize pos partno partnum d ps) (usable ok)"
proof -
  have fin: "ok ps' \<Longrightarrow> returns (apple_finish m d' ps') (usable ok)" for m d' ps'
    by (simp add: apple_finish_def keeps)
  have run: "ok ps \<Longrightarrow> 0 < m \<Longrightarrow> returns (apple_loop rd p0 hook blocksize pos partno m d ps) (usable ok)" for m pos partno d ps
  proof (induction "nat (m - partno)" arbitrary: pos partno d ps rule: less_induct)
    case less
    have IH: "ok ps' \<Longrightarrow> partno + 1 < m \<Longrightarrow>
        returns (apple_loop rd p0 hook blocksize pos' (partno + 1) m d' ps') (usable ok)" for pos' d' ps'
      using less.hyps [of "partno + 1" ps'] less.prems(2) by simp
    show ?case
      unfolding apple_loop.simps [of rd p0 hook blocksize pos]
      using less.prems by (auto simp: Let_def fin IH intro!: rd_then returns_bind [OF hook_returns [OF k]])
  qed
  assume ok: "ok ps"
  show ?thesis
    unfolding apple_loop.simps [of rd p0 hook blocksize pos]
    using ok n run by (auto simp: Let_def fin intro!: rd_then returns_bind [OF hook_returns [OF k]])
qed

lemma apple_returns: "iter_returns ok (apple_partition_map_iterate rd p0)"
proof (rule iter_returnsI)
  fix hook :: "('h, 'd) part_hook" and d ps
  assume k: "hook_keeps ok hook" and ok: "ok ps"
  show "returns (apple_partition_map_iterate rd p0 hook d ps) (usable ok)"
    unfolding apple_partition_map_iterate_def
    by (rule rd_then [OF ok]) (auto simp: keeps apple_loop_returns [OF k])
qed

end

text \<open>
  The text of the Plan 9 table is read byte by byte up to the end of the disk. The position on the
  device grows with every byte that could be read, so the loops end.
\<close>

definition plan_sector :: "grub_disk \<Rightarrow> nat \<Rightarrow> u64" where
  "plan_sector disk ptr = grub_partition_get_start (disk_partition disk) + (1 + drop_bit 9 (of_nat ptr))"

definition plan_key :: "grub_disk \<Rightarrow> nat \<Rightarrow> nat" where
  "plan_key disk ptr = unat (plan_sector disk ptr) * 512 + ptr mod 512"

lemma plan_key_bound:
  assumes "grub_disk_adjust_range disk 1 (of_nat ptr) sz \<noteq> None" and "unat sz + 1022 < 2 ^ 64"
  shows "unat (plan_sector disk ptr) < 2 ^ 51" "plan_key disk ptr < 2 ^ 60"
proof -
  obtain s off where "grub_disk_adjust_range disk 1 (of_nat ptr) sz = Some (s, off)" using assms(1) by auto
  then show b: "unat (plan_sector disk ptr) < 2 ^ 51"
    unfolding adjust_range_iff [OF assms(2)] plan_sector_def
    using clamped_total_le [of disk] by (auto intro: less_le_trans)
  have "ptr mod 512 < 512" by simp
  moreover have "a < 2 ^ 51 \<Longrightarrow> r < 512 \<Longrightarrow> a * 512 + r < 2 ^ 60" for a r :: nat by simp
  ultimately show "plan_key disk ptr < 2 ^ 60" using b by (simp only: plan_key_def)
qed

lemma plan_sector_low: "plan_sector disk ptr = grub_partition_get_start (disk_partition disk) + 1 + of_nat (ptr mod 2 ^ 64 div 512)"
proof -
  have "drop_bit 9 (of_nat ptr :: u64) = of_nat (ptr mod 2 ^ 64 div 512)"
    by (simp add: word_unat_eq_iff unat_drop_bit unat_of_nat)
  then show ?thesis by (simp add: plan_sector_def add.assoc)
qed

text \<open>Moving on by at most a sector: within the sector, to the next one, or around the end of the address space.\<close>

lemma plan_sector_step:
  assumes n: "0 < n" "n \<le> 512"
  shows "plan_sector disk (ptr + n) = plan_sector disk ptr \<and> (ptr + n) mod 512 = ptr mod 512 + n \<or>
    plan_sector disk (ptr + n) = plan_sector disk ptr + 1 \<or>
    plan_sector disk (ptr + n) = plan_sector disk ptr + 1 - 2 ^ 55"
proof -
  define x where "x = ptr mod 2 ^ 64"
  have x: "x < 2 ^ 64" "ptr mod 512 = x mod 512" by (simp_all add: x_def mod_mod_cancel)
  have m: "(ptr + n) mod 2 ^ 64 = (x + n) mod 2 ^ 64" by (simp add: x_def mod_simps)
  let ?g = "grub_partition_get_start (disk_partition disk) + 1"
  have px: "plan_sector disk ptr = ?g + of_nat (x div 512)"
    and pn: "plan_sector disk (ptr + n) = ?g + of_nat ((x + n) mod 2 ^ 64 div 512)"
    by (simp_all only: plan_sector_low x_def m)
  have d: "(x + n) div 512 = x div 512 + (x mod 512 + n) div 512" by (rule div_add_split) simp
  have r: "x mod 512 < 512" by simp
  show ?thesis
  proof (cases "x mod 512 + n < 512")
    case True
    have "x + n < 2 ^ 64"
    proof -
      have "x div 512 < 2 ^ 55" using x(1) by (simp add: less_mult_imp_div_less)
      moreover have "x + n = x div 512 * 512 + (x mod 512 + n)" by simp
      moreover have "a < 2 ^ 55 \<Longrightarrow> b < 512 \<Longrightarrow> a * 512 + b < 2 ^ 64" for a b :: nat by simp
      ultimately show ?thesis using True by (simp only:)
    qed
    then have "plan_sector disk (ptr + n) = plan_sector disk ptr"
      using d True by (simp add: px pn)
    moreover have "(ptr + n) mod 512 = ptr mod 512 + n"
      using True x(2) by (metis mod_add_left_eq mod_less)
    ultimately show ?thesis by blast
  next
    case False
    have one: "(x mod 512 + n) div 512 = 1" using False r n(2) by (intro div_nat_eqI) simp_all
    then have s: "(x + n) div 512 = x div 512 + 1" using d by simp
    show ?thesis
    proof (cases "x + n < 2 ^ 64")
      case True
      then show ?thesis using s by (simp add: px pn)
    next
      case wrap: False
      have q: "x div 512 = 2 ^ 55 - 1"
        using x(1) wrap n(2) by (intro div_nat_eqI) simp_all
      have "(x + n) mod 2 ^ 64 < 512"
        using wrap x(1) n(2) by (simp add: le_mod_geq)
      then have "(x + n) mod 2 ^ 64 div 512 = 0" by simp
      then show ?thesis by (simp add: px pn q)
    qed
  qed
qed

lemma plan_key_step:
  assumes b: "unat (plan_sector disk ptr) < 2 ^ 51" and n: "0 < n" "n \<le> 512"
  shows "plan_key disk ptr < plan_key disk (ptr + n)"
proof -
  have r: "ptr mod 512 < 512" by simp
  have grow: "a < c \<Longrightarrow> r < 512 \<Longrightarrow> a * 512 + r < c * 512 + q" for a c r q :: nat by simp
  from plan_sector_step [OF n, of disk ptr] consider
    "plan_sector disk (ptr + n) = plan_sector disk ptr" "(ptr + n) mod 512 = ptr mod 512 + n"
    | "plan_sector disk (ptr + n) = plan_sector disk ptr + 1"
    | "plan_sector disk (ptr + n) = plan_sector disk ptr + 1 - 2 ^ 55" by blast
  then show ?thesis
  proof cases
    case 1
    then show ?thesis using n(1) by (simp add: plan_key_def)
  next
    case 2
    then have "unat (plan_sector disk (ptr + n)) = unat (plan_sector disk ptr) + 1"
      using b by (simp add: unat_plus_exact)
    then show ?thesis unfolding plan_key_def by (intro grow r) simp
  next
    case 3
    have "unat (plan_sector disk ptr + 1) = unat (plan_sector disk ptr) + 1" using b by (simp add: unat_plus_exact)
    then have "unat (plan_sector disk (ptr + n)) = unat (plan_sector disk ptr) + 1 + (2 ^ 64 - 2 ^ 55)"
      using 3 b by (simp add: unat_sub_if_size word_size)
    then show ?thesis unfolding plan_key_def by (intro grow r) simp
  qed
qed

context part_source
begin

text \<open>The state of a walk on a given disk.\<close>

definition on_disk :: "grub_disk \<Rightarrow> 'h pstate \<Rightarrow> bool" where
  "on_disk disk ps \<longleftrightarrow> ok ps \<and> ps_disk ps = disk"

text \<open>One successful read in the table moves the key on, by any step within a sector.\<close>

lemma plan_read:
  assumes "on_disk disk ps" "0 < unat sz" "unat sz + 1022 < 2 ^ 64" "0 < n" "n \<le> 512"
  shows "returns (rd 1 (of_nat ptr) sz ps) (\<lambda>(e, buf, ps'). on_disk disk ps' \<and>
    (e = GRUB_ERR_NONE \<longrightarrow> plan_key disk ptr < 2 ^ 60 \<and> plan_key disk ptr < plan_key disk (ptr + n)))"
proof -
  have ok: "ok ps" "ps_disk ps = disk" using assms(1) by (simp_all add: on_disk_def)
  show ?thesis
    by (rule returns_mono [OF rd_returns [OF ok(1) assms(2,3)]])
      (use ok(2) plan_key_bound [OF _ assms(3)] plan_key_step [OF _ assms(4,5)] in
        \<open>auto simp: on_disk_def split: prod.splits\<close>)
qed

lemmas plan_byte = returns_bind [OF plan_read [where sz = 1 and n = 1]]

definition ahead :: "grub_disk \<Rightarrow> nat \<Rightarrow> ('v \<Rightarrow> nat) \<Rightarrow> (grub_err_t + u8 \<times> 'v) \<times> 'h pstate \<Rightarrow> bool" where
  "ahead disk ptr pos x \<longleftrightarrow> on_disk disk (snd x) \<and>
     (\<forall>c v. fst x = Inr (c, v) \<longrightarrow> plan_key disk ptr < plan_key disk (pos v))"

lemma ahead_simps [simp]:
  "ahead disk ptr pos (Inl e, ps) \<longleftrightarrow> on_disk disk ps"
  "ahead disk ptr pos (Inr (c, v), ps) \<longleftrightarrow> on_disk disk ps \<and> plan_key disk ptr < plan_key disk (pos v)"
  by (auto simp: ahead_def)

lemma ahead_mono: "returns m (ahead disk q pos) \<Longrightarrow> plan_key disk p < plan_key disk q \<Longrightarrow> returns m (ahead disk p pos)"
  by (erule returns_mono) (auto simp: ahead_def intro: less_trans)

lemma plan_skip_returns: "on_disk disk ps \<Longrightarrow> returns (plan_skip rd ptr ps) (ahead disk ptr (\<lambda>q. q))"
proof (induction "2 ^ 60 - plan_key disk ptr" arbitrary: ptr ps rule: less_induct)
  case less
  have IH: "returns (plan_skip rd (Suc ptr) ps1) (ahead disk ptr (\<lambda>q. q))"
    if "on_disk disk ps1" "plan_key disk ptr < 2 ^ 60" "plan_key disk ptr < plan_key disk (Suc ptr)" for ps1
    using less.hyps [OF _ that(1)] that(2,3) by (intro ahead_mono [OF _ that(3)]) simp
  show ?case
    unfolding plan_skip.simps [of rd ptr ps]
    by (rule plan_byte [OF less.prems]) (auto simp: Let_def IH)
qed

lemma plan_number_returns: "on_disk disk ps \<Longrightarrow> returns (plan_number rd v ptr ps) (ahead disk ptr snd)"
proof (induction "2 ^ 60 - plan_key disk ptr" arbitrary: v ptr ps rule: less_induct)
  case less
  have IH: "returns (plan_number rd v' (Suc ptr) ps1) (ahead disk ptr snd)"
    if "on_disk disk ps1" "plan_key disk ptr < 2 ^ 60" "plan_key disk ptr < plan_key disk (Suc ptr)" for v' ps1
    using less.hyps [OF _ that(1)] that(2,3) by (intro ahead_mono [OF _ that(3)]) simp
  show ?case
    unfolding plan_number.simps [of rd v ptr ps]
    by (rule plan_byte [OF less.prems]) (auto simp: Let_def IH)
qed

lemma plan_fields_returns:
  assumes ok: "on_disk disk ps"
  shows "returns (plan_fields rd ptr ps) (\<lambda>(r, ps'). on_disk disk ps' \<and>
    (\<forall>s l q. r = Inr (Some (s, l, q)) \<longrightarrow> plan_key disk ptr < plan_key disk q))"
proof -
  have num: "returns (plan_number rd 0 q ps2) (ahead disk ptr snd)"
    if "on_disk disk ps2" "plan_key disk ptr < plan_key disk q" for q ps2
    using plan_number_returns [OF that(1)] that(2) by (rule ahead_mono)
  show ?thesis
    unfolding plan_fields_def
    by (rule returns_bind [OF plan_skip_returns [OF ok]])
      (auto simp: ahead_def intro!: returns_bind [OF num] split: sum.splits)
qed

lemma plan_loop_returns:
  assumes k: "hook_keeps ok hook"
  shows "on_disk disk ps \<Longrightarrow> returns (plan_loop rd hook number ptr d ps) (usable ok)"
proof (induction "2 ^ 60 - plan_key disk ptr" arbitrary: number ptr d ps rule: less_induct)
  case less
  have od: "ok ps'" "ps_disk ps' = disk" if "on_disk disk ps'" for ps' using that by (simp_all add: on_disk_def)
  have fin: "on_disk disk ps' \<Longrightarrow> returns (plan_finish number d' ps') (usable ok)" for d' ps'
    by (simp add: plan_finish_def keeps od)
  have IH: "returns (plan_loop rd hook (number + 1) q d' ps1) (usable ok)"
    if "ok ps1" "ps_disk ps1 = disk" "plan_key disk ptr < 2 ^ 60"
      "plan_key disk ptr < plan_key disk (ptr + 5)" "plan_key disk (ptr + 5) < plan_key disk q" for q d' ps1
    using less.hyps [of q ps1] that by (simp add: on_disk_def)
  show ?case
    unfolding plan_loop.simps [of rd hook number ptr d ps]
    by (rule returns_bind [OF plan_read [OF less.prems, where n = 5]])
      (auto simp: fin od IH intro!: returns_bind [OF plan_fields_returns [where disk = disk]]
        returns_bind [OF hook_returns [OF k]] split: sum.splits option.splits)
qed

lemma plan_returns: "iter_returns ok (plan_partition_map_iterate rd)"
  by (rule iter_returnsI)
    (simp add: plan_partition_map_iterate_def plan_loop_returns [where disk = "ps_disk _"] on_disk_def)

subsection \<open>The MSDOS table, and labels found through it\<close>

lemma msdos_returns: "iter_returns ok (grub_partition_msdos_iterate rd)"
  by (rule iter_returnsI) (use msdos_iterate_returns in \<open>fastforce simp: returns_def\<close>)

text \<open>A label read on its own moves the disk's partition only when its hook stopped the walk without error.\<close>

definition moved_calmly :: "'h pstate \<Rightarrow> grub_err_t \<times> 'd \<times> 'h pstate \<Rightarrow> bool" where
  "moved_calmly ps x = (case x of (e, d, ps') \<Rightarrow> ok ps' \<and> disk_base ps' = disk_base ps \<and>
     (ps_disk ps' = ps_disk ps \<or> e = GRUB_ERR_NONE \<and> p_errno ps' = GRUB_ERR_NONE))"

lemma moved_calmly_I: "ok ps' \<Longrightarrow> ps_disk ps' = ps_disk ps \<Longrightarrow> moved_calmly ps (e, d, ps')"
  by (simp add: moved_calmly_def disk_base_def)

lemma moved_calmly_cong: "ps_disk ps1 = ps_disk ps \<Longrightarrow> moved_calmly ps1 = moved_calmly ps"
  by (simp add: moved_calmly_def fun_eq_iff disk_base_def)

lemma ps_disk_simps [simp]: "ps_disk (p_error e m ps) = ps_disk ps" "ps_disk (p_set_errno e ps) = ps_disk ps"
    "ps_disk (snd (p_malloc ps)) = ps_disk ps" "ps_disk (p_print_error ps) = ps_disk ps"
  by (simp_all add: p_error_def p_set_errno_def p_malloc_def p_print_error_def split: prod.splits)

lemma bsd_entries_moved:
  assumes k: "hook_keeps ok hook"
  shows "ok ps \<Longrightarrow> returns (bsd_entries rd p0 pmap hook delta n number pos d ps) (moved_calmly ps)"
proof (induction n arbitrary: number pos d ps)
  case (Suc n)
  have IH: "returns (bsd_entries rd p0 pmap hook delta n number' pos' d' ps1) (moved_calmly ps)"
    if "ok ps1" "ps_disk ps1 = ps_disk ps" for number' pos' d' ps1
    using Suc.IH [OF that(1)] by (simp add: moved_calmly_cong [OF that(2)])
  show ?case
    using Suc.prems by (auto simp: IH moved_calmly_I intro!: rd_then returns_bind [OF hook_returns [OF k]])
      (auto simp: moved_calmly_def disk_base_def)
qed (simp add: moved_calmly_I)

lemma iterate_real_moved:
  assumes k: "hook_keeps ok hook" and ok: "ok ps"
  shows "returns (iterate_real rd p0 sector freebsd pmap hook d ps) (moved_calmly ps)"
proof -
  have delta: "ok ps1 \<Longrightarrow> returns (bsd_delta rd sector freebsd label ps1)
      (\<lambda>(_, _, ps'). ok ps' \<and> ps_disk ps' = ps_disk ps1)" for ps1 label
    by (auto simp: bsd_delta_def Let_def intro!: rd_then)
  have entries: "returns (bsd_entries rd p0 pmap hook dl n 0 pos d ps1) (moved_calmly ps)"
    if "ok ps1" "ps_disk ps1 = ps_disk ps" for dl n pos ps1
    using bsd_entries_moved [OF k that(1)] by (simp add: moved_calmly_cong [OF that(2)])
  show ?thesis
    unfolding iterate_real_def
    by (rule rd_then [OF ok])
      (auto simp: keeps moved_calmly_I entries intro!: returns_bind [OF delta])
qed

lemma check_msdos_keeps:
  assumes "hook_keeps ok hook"
  shows "hook_keeps ok (check_msdos rd p0 ptype pmap hook)"
  unfolding hook_keeps_def check_msdos_def
  by (auto intro!: returns_bind [OF iterate_real_moved [OF assms]])
    (auto simp: moved_calmly_def keeps p_print_error_def)

lemma netopenbsd_returns: "iter_returns ok (netopenbsdlabel_partition_map_iterate rd p0 ptype pmap)"
proof (rule iter_returnsI)
  fix hook :: "('h, 'd) part_hook" and d ps
  assume k: "hook_keeps ok hook" and ok: "ok ps"
  have m: "returns (grub_partition_msdos_iterate rd (check_msdos rd p0 ptype pmap hook) (0, d) ps) (usable ok)"
    by (rule iter_returnsD [OF msdos_returns check_msdos_keeps [OF k] ok])
  show "returns (netopenbsdlabel_partition_map_iterate rd p0 ptype pmap hook d ps) (usable ok)"
    unfolding netopenbsdlabel_partition_map_iterate_def
    using ok by (auto simp: keeps intro!: returns_bind [OF m])
qed

text \<open>Every registered map but the Amiga one.\<close>

lemma maps_return:
  assumes "m \<in> set (grub_partition_map_list rd p0)" and "fst m \<noteq> ''amiga''"
  shows "iter_returns ok (snd m)"
  using assms
  by (auto simp: grub_partition_map_list_def register_all_rev partmap_modules_def netbsdlabel_partition_map_iterate_def
      openbsdlabel_partition_map_iterate_def
      intro: acorn_returns apple_returns bsd_returns netopenbsd_returns dfly_returns dvh_returns gpt_returns
        msdos_returns plan_returns sun_returns sun_pc_returns unixware_returns xenix_returns)

end

end
