(* ===== verification/Partition_Walk.thy ===== *)
theory Partition_Walk
  imports Partmaps_Return
begin

text \<open>
  The walk over all partitions and the lookup of one (\<open>kern/partition.c\<close>) on the registered maps:
  both return on every disk, the walk shows its hook only partitions that lie inside their parent,
  and a partition map that follows a list without a bound makes it run forever.
\<close>

subsection \<open>Components of a name\<close>

lemma strtoull_loop_suffix: "strtoull_loop base num found s = (e, n, rest) \<Longrightarrow> length rest \<le> length s"
  by (induction base num found s rule: strtoull_loop.induct) (auto split: option.splits if_splits)

lemma guess_base_suffix: "guess_base base s = (b, rest) \<Longrightarrow> length rest \<le> length s"
  by (auto simp: guess_base_def Let_def split: list.splits if_splits)

lemma strtoull_suffix: "grub_strtoull s base = (e, n, rest) \<Longrightarrow> length rest \<le> length s"
  unfolding grub_strtoull_def
  by (auto split: prod.splits dest!: strtoull_loop_suffix guess_base_suffix intro: le_trans le_trans [OF _ length_dropWhile_le])

lemma split_component_shrinks: "split_component ptr = (name, e, num, rest) \<Longrightarrow> length rest \<le> length ptr"
  unfolding split_component_def grub_strtoul_def Let_def
  by (auto dest!: strtoull_suffix intro: le_trans [OF _ length_dropWhile_le])

subsection \<open>The hook of the walk\<close>

text \<open>A hook of the public walk that returns, leaves the disk alone and stops only without a pending error.\<close>

definition chain_keeps :: "('h pstate \<Rightarrow> bool) \<Rightarrow> ('h, 'd) chain_hook \<Rightarrow> bool" where
  "chain_keeps ok hook \<longleftrightarrow> (\<forall>chain d ps. ok ps \<longrightarrow> returns (hook chain d ps)
     (\<lambda>(stop, d', ps'). ok ps' \<and> ps_disk ps' = ps_disk ps \<and> (stop \<longrightarrow> p_errno ps' = GRUB_ERR_NONE)))"

lemmas chain_returns = chain_keeps_def [THEN iffD1, rule_format]

lemma set_partition_disk:
  assumes "disk_base ps' = disk_base ps"
  shows "ps_disk (set_partition (cur_partition ps) ps') = ps_disk ps"
proof -
  have "ps_disk (set_partition (cur_partition ps) ps') = (disk_base ps')\<lparr> disk_partition := cur_partition ps \<rparr>"
    by (simp add: disk_base_def set_partition_def)
  also have "\<dots> = ps_disk ps" unfolding assms by (simp add: disk_base_def cur_partition_def)
  finally show ?thesis .
qed

lemma cur_partition_cong: "ps_disk ps' = ps_disk ps \<Longrightarrow> cur_partition ps' = cur_partition ps"
  by (simp add: cur_partition_def)

text \<open>The result of the loop over the maps: the state is usable and the disk is the same.\<close>

definition walked :: "('h pstate \<Rightarrow> bool) \<Rightarrow> 'h pstate \<Rightarrow> (bool \<times> 'd) \<times> 'h pstate \<Rightarrow> bool" where
  "walked ok ps x \<longleftrightarrow> ok (snd x) \<and> disk_base (snd x) = disk_base ps"

lemma walked_simps [simp]: "walked ok ps (ctx, ps') \<longleftrightarrow> ok ps' \<and> disk_base ps' = disk_base ps"
  by (simp add: walked_def)

context part_source
begin

lemma containment_keeps:
  assumes "ok ps"
  shows "ok (snd (grub_partition_check_containment part ps))"
    "ps_disk (snd (grub_partition_check_containment part ps)) = ps_disk ps"
  using ok_malloc [OF assms] assms
  by (auto simp: grub_partition_check_containment_def grub_partition_get_name_def case_prod_unfold split: list.splits)

lemma part_visit_keeps:
  assumes hook: "chain_keeps ok hook"
    and nested: "\<And>ctx ps. ok ps \<Longrightarrow> returns (nested ctx ps) (walked ok ps)"
  shows "hook_keeps ok (part_visit hook nested)"
  unfolding hook_keeps_def
proof (intro allI impI)
  fix part ctx and ps :: "'h pstate"
  assume ok: "ok ps"
  obtain inside ps1 where c: "grub_partition_check_containment part ps = (inside, ps1)" by fastforce
  have ps1: "ok ps1" "ps_disk ps1 = ps_disk ps" using containment_keeps [OF ok, of part] c by auto
  note par = cur_partition_cong [OF ps1(2)]
  show "returns (part_visit hook nested part ctx ps) (\<lambda>(stop, d', ps'). ok ps' \<and> disk_base ps' = disk_base ps \<and>
      (ps_disk ps' = ps_disk ps \<or> stop \<and> p_errno ps' = GRUB_ERR_NONE))"
    unfolding part_visit_def c Let_def prod.case par
    using ps1 disk_base_cong [OF ps1(2)]
    by (auto simp: walked_def set_partition_disk ok_partition dest!: disk_base_cong
        intro!: returns_bind [OF chain_returns [OF hook ok_partition]] returns_bind [OF nested [OF ok_partition]])
qed

lemma iterate_maps_walked:
  assumes "\<And>run ctx ps. run \<in> set runs \<Longrightarrow> ok ps \<Longrightarrow> returns (run ctx ps) (\<lambda>(e, ctx', ps'). walked ok ps (ctx', ps'))"
  shows "ok ps \<Longrightarrow> returns (iterate_maps runs ctx ps) (walked ok ps)"
  using assms
proof (induction runs arbitrary: ctx ps)
  case (Cons run runs)
  have IH: "returns (iterate_maps runs ctx' ps') (walked ok ps)"
    if "ok ps'" "disk_base ps' = disk_base ps" for ctx' ps'
  proof -
    have "returns (iterate_maps runs ctx' ps') (walked ok ps')"
      by (rule Cons.IH [OF that(1)], rule Cons.prems(2)) simp_all
    then show ?thesis unfolding walked_def that(2) .
  qed
  show ?case
    unfolding iterate_maps.simps
    by (rule returns_bind [OF Cons.prems(2) [OF _ Cons.prems(1)]]) (auto simp: Let_def ok_errno IH)
qed (simp add: walked_def)

text \<open>A map that returns under the contract narrowed to one disk keeps that disk.\<close>

definition map_walks :: "('h, bool \<times> 'd) part_iter \<Rightarrow> bool" where
  "map_walks iter \<longleftrightarrow> (\<forall>b. iter_returns (\<lambda>ps. ok ps \<and> disk_base ps = b) iter)"

lemma map_walks_run:
  assumes "map_walks iter" "hook_keeps ok hook" "ok ps"
  shows "returns (iter hook ctx ps) (\<lambda>(e, ctx', ps'). walked ok ps (ctx', ps'))"
  using iter_returnsD [OF assms(1) [unfolded map_walks_def, rule_format, of "disk_base ps"] hook_keeps_fixed [OF assms(2)],
      of ps ctx] assms(3)
  by (auto simp: walked_def elim: returns_mono)

lemma part_iterate_keeps:
  assumes hook: "chain_keeps ok hook" and maps: "\<And>m. m \<in> set maps \<Longrightarrow> map_walks (snd m)"
  shows "hook_keeps ok (part_iterate n maps hook)"
proof (induction n)
  case 0
  show ?case
    by (simp, rule part_visit_keeps [OF hook], rule iterate_maps_walked)
      (auto simp: walked_def ok_error fail_with_def)
next
  case (Suc n)
  show ?case
    by (simp, rule part_visit_keeps [OF hook], rule iterate_maps_walked)
      (use map_walks_run [OF maps Suc.IH] in fastforce)+
qed

lemma partition_iterate_walked:
  assumes hook: "chain_keeps ok hook" and maps: "\<And>m. m \<in> set maps \<Longrightarrow> map_walks (snd m)" and "ok ps"
  shows "returns (grub_partition_iterate depth maps hook d ps) (walked ok ps)"
  unfolding grub_partition_iterate_def
  by (rule iterate_maps_walked [OF _ \<open>ok ps\<close>])
    (use map_walks_run [OF maps part_iterate_keeps [OF hook maps]] in fastforce)

end

text \<open>The registered maps, less the one that may not return.\<close>

definition returning_maps :: "'h part_read \<Rightarrow> grub_partition \<Rightarrow> ('h, 'd) partmaps" where
  "returning_maps rd p0 = filter (\<lambda>m. fst m \<noteq> ''amiga'') (grub_partition_map_list rd p0)"

context part_source
begin

lemma returning_maps_walk: "m \<in> set (returning_maps rd p0) \<Longrightarrow> map_walks (snd m)"
  unfolding map_walks_def
  by (intro allI part_source.maps_return [OF fixed_disk]) (auto simp: returning_maps_def)

lemma registered_walk_returns:
  assumes "chain_keeps ok hook" and "ok ps"
  shows "returns (grub_partition_iterate depth (returning_maps rd p0) hook d ps) (walked ok ps)"
  by (rule partition_iterate_walked [OF assms(1) returning_maps_walk assms(2)])

subsection \<open>Looking up a partition\<close>

lemma probe_iter_keeps: "hook_keeps ok (probe_iter num)"
  unfolding hook_keeps_def probe_iter_def
proof (intro allI impI)
  fix part ctx and ps :: "'h pstate"
  assume ok: "ok ps"
  show "returns (if num \<noteq> part_number part then Some (False, ctx, ps)
      else case grub_partition_check_containment part ps of (ok, ps1) \<Rightarrow>
          if \<not> ok then Some (False, ctx, ps1)
          else case p_malloc ps1 of (got, ps2) \<Rightarrow> Some (True, if got then Some part else None, ps2))
     (\<lambda>(stop, d', ps'). ok ps' \<and> disk_base ps' = disk_base ps \<and>
       (ps_disk ps' = ps_disk ps \<or> stop \<and> p_errno ps' = GRUB_ERR_NONE))"
    using containment_keeps [OF ok, of part] ok
    by (auto simp: case_prod_unfold ok_malloc intro: disk_base_cong)
qed

lemma map_probe_returns:
  assumes "iter_returns ok iter" and "ok ps"
  shows "returns (grub_partition_map_probe iter num ps) (\<lambda>(_, ps'). ok ps')"
  unfolding grub_partition_map_probe_def
  by (rule returns_bind [OF iter_returnsD [OF assms(1) probe_iter_keeps assms(2)]]) auto

lemma probe_maps_returns:
  assumes "\<And>m. m \<in> set maps \<Longrightarrow> iter_returns ok (snd m)"
  shows "ok ps \<Longrightarrow> returns (probe_maps maps partname num part tail ps) (\<lambda>(_, ps'). ok ps')"
  using assms
proof (induction maps arbitrary: ps)
  case (Cons m maps)
  obtain name iter where m: "m = (name, iter)" by fastforce
  have it: "iter_returns ok iter" using Cons.prems(2) [of m] m by simp
  show ?case
    unfolding m probe_maps.simps
    using Cons by (auto simp: Let_def ok_partition ok_errno intro!: returns_bind [OF map_probe_returns [OF it]]
        split: option.splits)
qed simp

lemma probe_loop_returns:
  assumes "\<And>m. m \<in> set maps \<Longrightarrow> iter_returns ok (snd m)"
  shows "ok ps \<Longrightarrow> returns (probe_loop maps tail part ptr ps) (\<lambda>(_, ps'). ok ps')"
proof (induction "length ptr" arbitrary: part ptr ps rule: less_induct)
  case less
  obtain partname e num rest where c: "split_component ptr = (partname, e, num, rest)" by (cases "split_component ptr") auto
  have len: "length rest \<le> length ptr"
    using split_component_shrinks [of ptr] c by simp
  have IH: "returns (probe_loop maps tail (p # part) cs ps1) (\<lambda>(_, ps'). ok ps')"
    if "rest = CHR '','' # cs" "ok ps1" for p cs ps1
    using less.hyps [OF _ that(2)] that(1) len by simp
  show ?case
    unfolding probe_loop.simps [of maps tail part ptr ps] c prod.case
    using less.prems
    by (auto simp: ok_error IH intro!: returns_bind [OF probe_maps_returns [OF assms]] split: option.splits list.splits)
qed

end

context part_source
begin

lemma probe_returns:
  assumes "ok ps"
  shows "returns (grub_partition_probe (returning_maps rd p0) name ps) (\<lambda>(_, ps'). ok ps')"
proof -
  have "iter_returns ok (snd m)" if "m \<in> set (returning_maps rd p0)" for m :: "string \<times> ('h, grub_partition option) part_iter"
    by (rule maps_return) (use that in \<open>auto simp: returning_maps_def\<close>)
  from probe_loop_returns [OF this assms] show ?thesis
    using assms by (auto simp: grub_partition_probe_def split: option.splits)
qed

end

subsection \<open>What the walk shows its hook\<close>

text \<open>A chain whose innermost partition ends, in the arithmetic of sectors, inside its parent.\<close>

definition inside_parent :: "grub_partition list \<Rightarrow> bool" where
  "inside_parent chain =
     (case chain of p # q # _ \<Rightarrow> part_start p + part_len p \<le> part_len q | _ \<Rightarrow> True)"

lemma containment_iff: "fst (grub_partition_check_containment part ps) \<longleftrightarrow> inside_parent (part # cur_partition ps)"
  by (auto simp: grub_partition_check_containment_def inside_parent_def split: list.splits)

lemma part_visit_cong:
  fixes hook hook' :: "('h, 'd) chain_hook"
  assumes "\<And>chain d ps. inside_parent chain \<Longrightarrow> hook chain d ps = hook' chain d ps"
  shows "part_visit hook nested = part_visit hook' nested"
proof (intro ext)
  fix part ctx and ps :: "'h pstate"
  obtain ok ps1 where c: "grub_partition_check_containment part ps = (ok, ps1)" by fastforce
  have "cur_partition ps1 = cur_partition ps"
    using c by (auto simp: grub_partition_check_containment_def grub_partition_get_name_def cur_partition_def p_malloc_def
        split: list.splits if_splits prod.splits)
  then have "ok \<Longrightarrow> inside_parent (part # cur_partition ps1)" using containment_iff [of part ps] c by simp
  then show "part_visit hook nested part ctx ps = part_visit hook' nested part ctx ps"
    using assms by (simp add: part_visit_def c Let_def)
qed

lemma part_iterate_cong:
  assumes "\<And>chain d ps. inside_parent chain \<Longrightarrow> hook chain d ps = hook' chain d ps"
  shows "part_iterate n maps hook = part_iterate n maps hook'"
proof (induction n)
  case 0
  show ?case by (simp add: part_visit_cong [OF assms])
next
  case (Suc n)
  show ?case by (simp add: Suc part_visit_cong [OF assms])
qed

subsection \<open>A cyclic list of Amiga blocks\<close>

context part_source
begin

lemma amiga_cycle:
  assumes blk: "blk = record_at (image disk) (scast next)"
    and part: "grub_memcmp blk GRUB_AMIGA_PART_MAGIC 4 = 0" "amiga_partition_map_checksum blk = 0"
    and cycle: "be32 blk 16 = next" "next \<noteq> 0xffffffff"
    and readable: "grub_disk_adjust_range disk (scast next) 0 512 \<noteq> None"
    and ps: "ok ps" "calm ps" "ps_disk ps = disk"
  shows "amiga_loop rd p0 collect next k d ps = None"
proof -
  have "r = rd \<Longrightarrow> hook = collect \<Longrightarrow> n = next \<Longrightarrow> ok ps \<Longrightarrow> calm ps \<Longrightarrow> ps_disk ps = disk \<Longrightarrow> False"
    if "amiga_loop r p0 hook n k d ps = Some y" for r p0 hook n k d ps y
    using that
  proof (induction r p0 hook n k d ps y rule: amiga_loop.raw_induct [rotated, consumes 1])
    case (1 f r p0 hook n k d ps y)
    obtain ps1 where r: "rd (scast next) 0 512 ps = Some (GRUB_ERR_NONE, blk, ps1)" "ok ps1" "calm ps1" "ps_disk ps1 = disk"
      using rd_calm [OF "1.prems"(4,5), of 512 "scast next" 0] readable "1.prems"(6) blk by (auto simp: record_at_def)
    have c: "collect (amiga_part p0 blk next k) d ps1 = Some (False, d @ [amiga_part p0 blk next k], ps1)"
      by (simp add: collect_def)
    have "f rd p0 collect next (k + 1) (d @ [amiga_part p0 blk next k]) ps1 = Some y"
      using "1.hyps" "1.prems" r(1) part cycle by (simp add: c)
    from "1.IH" [OF this refl refl refl r(2-4)] show False .
  qed
  from this [OF _ refl refl refl ps] show ?thesis by (cases "amiga_loop rd p0 collect next k d ps") blast+
qed

text \<open>The whole map: the first block is a descriptor whose list starts at the block that names itself.\<close>

lemma amiga_cycle_iterate:
  assumes rdsk: "rdsk = record_at (image (ps_disk ps)) 0" "grub_memcmp rdsk GRUB_AMIGA_RDSK_MAGIC 4 = 0"
      "amiga_partition_map_checksum rdsk = 0" "be32 rdsk 28 = next" "next \<noteq> 0xffffffff"
    and blk: "blk = record_at (image (ps_disk ps)) (scast next)" "grub_memcmp blk GRUB_AMIGA_PART_MAGIC 4 = 0"
      "amiga_partition_map_checksum blk = 0" "be32 blk 16 = next"
    and readable: "grub_disk_adjust_range (ps_disk ps) 0 0 512 \<noteq> None"
      "grub_disk_adjust_range (ps_disk ps) (scast next) 0 512 \<noteq> None"
    and ps: "ok ps" "calm ps"
  shows "amiga_partition_map_iterate rd p0 collect d ps = None"
proof -
  obtain ps1 where r: "rd 0 0 512 ps = Some (GRUB_ERR_NONE, rdsk, ps1)" "ok ps1" "calm ps1" "ps_disk ps1 = ps_disk ps"
    using rd_calm [OF ps, of 512 0 0] readable(1) rdsk(1) by (auto simp: record_at_def)
  have "amiga_loop rd p0 collect next 0 d ps1 = None"
    by (rule amiga_cycle [OF blk(1-4) rdsk(5) readable(2) r(2-4)])
  moreover have "amiga_find_rdsk rd [0..<15] ps = Some (Inr next, ps1)"
    using r(1) rdsk(2-4) by (subst upt_conv_Cons) simp_all
  ultimately show ?thesis using rdsk(5) by (simp add: amiga_partition_map_iterate_def del: upt_rec_numeral)
qed

end

end
