(* ===== verification/Partition_Names.thy ===== *)
theory Partition_Names
  imports Partition_Walk Misc_Correct
begin

text \<open>
  The names of partitions: what \<open>grub_partition_get_name\<close> writes fits the buffer it allocates, and
  \<open>grub_partition_probe\<close> on the name walks down exactly the chain of partitions it was made from.
\<close>

subsection \<open>Numbers in names\<close>

lemma lltoa_dec_length: "unat n < 10 ^ Suc k \<Longrightarrow> length (lltoa_dec n) \<le> Suc k"
proof (induction n arbitrary: k rule: lltoa_dec.induct)
  case (1 n)
  have qm: "grub_divmod64 n 10 = (n div 10, n mod 10)" by (simp add: grub_divmod64_eq)
  have d: "unat (n div 10) = unat n div 10" by (simp add: unat_div_distrib)
  show ?case
  proof (cases "n div 10 = 0")
    case False
    then obtain j where k: "k = Suc j"
      using "1.prems" d by (cases k) (auto simp: word_unat_eq_iff)
    have "unat (n div 10) < 10 ^ Suc j" using "1.prems" unfolding d k by (simp add: less_mult_imp_div_less)
    from "1.IH" [OF qm [symmetric] False this] show ?thesis
      using False k by (subst lltoa_dec.simps) (simp add: qm)
  qed (subst lltoa_dec.simps, simp add: qm)
qed

lemma lltoa_dec_last: "n \<noteq> 0 \<Longrightarrow> last (lltoa_dec n) \<noteq> CHR ''0''"
proof (induction n rule: lltoa_dec.induct)
  case (1 n)
  have qm: "grub_divmod64 n 10 = (n div 10, n mod 10)" by (simp add: grub_divmod64_eq)
  show ?case
  proof (cases "n div 10 = 0")
    case True
    have small: "unat n < 10"
      using True by (simp add: word_unat_eq_iff unat_div_distrib div_eq_0_iff)
    have "char_of (unat n + 48) \<noteq> CHR ''0''"
    proof
      assume "char_of (unat n + 48) = CHR ''0''"
      then have "of_char (char_of (unat n + 48) :: char) = (48 :: nat)" by simp
      with small have "unat n = 0" by simp
      with "1.prems" show False by (simp add: unat_eq_0)
    qed
    moreover have "unat (n mod 10) = unat n" using small by (simp add: unat_mod_distrib)
    ultimately show ?thesis using True by (subst lltoa_dec.simps) (simp add: qm)
  next
    case False
    have "lltoa_dec (n div 10) \<noteq> []" by (subst lltoa_dec.simps) (simp split: prod.splits)
    then show ?thesis using "1.IH" [OF qm [symmetric] False False] False by (subst lltoa_dec.simps) (simp add: qm)
  qed
qed

text \<open>The text of a number, with what follows it in a name.\<close>

lemma number_text_eq:
  assumes "0 \<le> part_number p" "part_number p < 2 ^ 31"
  shows "part_number_text p = rev (lltoa_dec (word_of_int (part_number p + 1)))"
    "uint (word_of_int (part_number p + 1) :: u64) = part_number p + 1"
proof -
  have n: "0 \<le> part_number p + 1" "part_number p + 1 < 2 ^ 63" using assms by simp_all
  show "uint (word_of_int (part_number p + 1) :: u64) = part_number p + 1"
    using n by (simp only: uint_word_of_int) (simp add: take_bit_int_eq_self)
  have "sint (word_of_int (part_number p + 1) :: u64) = part_number p + 1"
    using n by (simp only: sint_sbintrunc') (simp add: signed_take_bit_int_eq_self)
  then show "part_number_text p = rev (lltoa_dec (word_of_int (part_number p + 1)))"
    using n(1) by (simp only: part_number_text_def grub_lltoa_def Let_def grub_reverse_rev) simp
qed

lemma number_text_length: "length (part_number_text p) \<le> 21"
proof -
  have "length (lltoa_dec n) \<le> 20" for n
    using lltoa_dec_length [of n 19] unsigned_less [of n, where 'a = nat] by simp
  then have "length (rev (lltoa_dec n)) \<le> 21" "length (''-'' @ rev (lltoa_dec n)) \<le> 21" for n
    using le_SucI by fastforce+
  then show ?thesis unfolding part_number_text_def grub_lltoa_def Let_def grub_reverse_rev by simp
qed

lemma digit_prefix_append:
  assumes "\<forall>d \<in> set ds. d < 10" and "digit_prefix 10 rest = []"
  shows "digit_prefix 10 (map (hex_char lower) ds @ rest) = ds"
  using assms(1)
proof (induction ds)
  case (Cons d ds)
  then have d: "d < 16" "d < 10" by auto
  have "unat (of_nat d :: u64) = d" using d by (simp add: unat_of_nat)
  then show ?case using Cons d by (simp add: strtoull_digit_hex word_less_nat_alt)
qed (simp add: assms(2))

text \<open>The end of a component: the end of the name or a comma.\<close>

definition component_end :: "string \<Rightarrow> bool" where
  "component_end rest \<longleftrightarrow> rest = [] \<or> hd rest = CHR '','' "

lemma comma_no_digit: "component_end rest \<Longrightarrow> digit_prefix 10 rest = []"
proof -
  have "strtoull_digit (CHR '','') = Some d \<Longrightarrow> \<not> d < 10" for d
    by (auto simp: strtoull_digit_def Let_def schar_def grub_tolower_def)
  then show "component_end rest \<Longrightarrow> digit_prefix 10 rest = []"
    by (cases rest) (auto simp: component_end_def split: option.splits)
qed

lemma strtoull_decimal:
  assumes n: "n \<noteq> 0" and rest: "component_end rest"
  shows "grub_strtoull (rev (lltoa_dec n) @ rest) 0 = (GRUB_ERR_NONE, n, rest)"
proof -
  obtain ds where ds: "lltoa_dec n = map (hex_char True) ds" "ds \<noteq> []" "\<forall>d \<in> set ds. d < 10" "lsv 10 ds = unat n"
    using lltoa_dec_renders [of True n] by (auto simp: renders_def)
  obtain c s where cs: "rev (lltoa_dec n) = c # s" using ds(1,2) by (cases "rev (lltoa_dec n)") auto
  have c: "c \<noteq> CHR ''0''" using lltoa_dec_last [OF n] cs ds(1,2) by (metis hd_rev list.sel(1))
  have "c \<in> set (lltoa_dec n)" using cs by (metis list.set_intros(1) set_rev)
  then have "\<not> grub_isspace c" using ds(1,3) hex_char_graphic by fastforce
  then have sp: "dropWhile grub_isspace (rev (lltoa_dec n) @ rest) = rev (lltoa_dec n) @ rest" using cs by simp
  have g: "guess_base 0 (rev (lltoa_dec n) @ rest) = (10, rev (lltoa_dec n) @ rest)"
    using c cs by (auto simp: guess_base_def split: list.splits)
  have p: "digit_prefix 10 (rev (lltoa_dec n) @ rest) = rev ds"
    using digit_prefix_append [of "rev ds" rest True] ds(1,3) comma_no_digit [OF rest] by (simp add: rev_map)
  have h: "horner 10 0 (rev ds) = unat n" using ds(4) by (simp add: horner_rev)
  have l: "length ds = length (rev (lltoa_dec n))" using ds(1) by simp
  show ?thesis
    using strtoull_loop_exact(1) [of 10 0 "rev (lltoa_dec n) @ rest" False] ds(2) unsigned_less [of n, where 'a = nat]
    unfolding grub_strtoull_def sp g by (simp add: p h l)
qed

lemma split_component_name:
  assumes letters: "\<forall>c \<in> set (part_partmap p). grub_isalpha (schar c)"
    and num: "0 \<le> part_number p" "part_number p < 2 ^ 31" and rest: "component_end rest"
  shows "split_component (part_partmap p @ part_number_text p @ rest) =
    (part_partmap p, GRUB_ERR_NONE, word_of_int (part_number p + 1), rest)"
proof -
  let ?n = "word_of_int (part_number p + 1) :: u64"
  have t: "part_number_text p = rev (lltoa_dec ?n)" by (rule number_text_eq [OF num])
  have n: "?n \<noteq> 0" using number_text_eq(2) [OF num] num(1) by auto
  obtain ds where ds: "lltoa_dec ?n = map (hex_char True) ds" "ds \<noteq> []" "\<forall>d \<in> set ds. d < 10"
    using lltoa_dec_renders [of True ?n] by (auto simp: renders_def)
  have "\<not> grub_isalpha (schar (hex_char True d))" if "d < 10" for d
    using that by (simp add: hex_char_def schar_char_of grub_isalpha_def)
  then have "\<not> grub_isalpha (schar (hd (rev (lltoa_dec ?n))))"
    using ds by (simp add: hd_rev last_map)
  moreover have "rev (lltoa_dec ?n) \<noteq> []" using ds by simp
  ultimately have "takeWhile (\<lambda>c. grub_isalpha (schar c)) (rev (lltoa_dec ?n) @ rest) = []"
      "dropWhile (\<lambda>c. grub_isalpha (schar c)) (rev (lltoa_dec ?n) @ rest) = rev (lltoa_dec ?n) @ rest"
    by (cases "rev (lltoa_dec ?n)"; simp)+
  then show ?thesis
    using letters strtoull_decimal [OF n rest]
    by (simp add: split_component_def Let_def t takeWhile_append2 dropWhile_append2 grub_strtoul_def)
qed

subsection \<open>Names of chains\<close>

definition component_text :: "grub_partition \<Rightarrow> string" where
  "component_text p = part_partmap p @ part_number_text p"

fun chain_text :: "grub_partition list \<Rightarrow> string" where
  "chain_text [] = []"
| "chain_text [p] = component_text p"
| "chain_text (p # ps) = component_text p @ CHR '','' # chain_text ps"

lemma write_names_eq: "write_names ps out = concat (map (\<lambda>p. CHR '','' # component_text p) (rev ps)) @ out"
  by (induction ps out rule: write_names.induct) (simp_all add: component_text_def)

lemma chain_text_concat: "chain_text qs = tl (concat (map (\<lambda>p. CHR '','' # component_text p) qs))"
proof (induction qs rule: chain_text.induct)
  case (3 p q ps)
  then show ?case by (cases "concat (map (\<lambda>p. CHR '','' # component_text p) (q # ps))") auto
qed simp_all

lemma get_name_text: "tl (write_names chain []) = chain_text (rev chain)"
  by (simp add: write_names_eq chain_text_concat)

lemma write_names_length: "length (write_names ps out) \<le> name_needlen ps + length out"
proof (induction ps out rule: write_names.induct)
  case (2 p ps out)
  then show ?case using number_text_length [of p] by (simp add: name_needlen_def)
qed (simp add: name_needlen_def)

lemma chain_text_Cons:
  "chain_text (q # qs) = component_text q @ (if qs = [] then [] else CHR '','' # chain_text qs)"
  by (cases qs) simp_all

subsection \<open>Looking a name up\<close>

text \<open>
  Every partition of the chain, innermost first, is what the maps report inside its parents for its
  map name and number, from every state of a set \<open>I\<close> which the lookup does not leave.
\<close>

fun chain_found :: "('h pstate \<Rightarrow> bool) \<Rightarrow> ('h, grub_partition option) partmaps \<Rightarrow> grub_partition list
    \<Rightarrow> grub_partition list \<Rightarrow> bool" where
  "chain_found I maps tail [] \<longleftrightarrow> True"
| "chain_found I maps tail (p # parents) \<longleftrightarrow>
     (\<forall>ps. I ps \<longrightarrow> returns (probe_maps maps (part_partmap p) (part_number p) parents tail ps)
        (\<lambda>(cur, ps'). cur = Some p \<and> I ps')) \<and> chain_found I maps tail parents"

definition named_ok :: "grub_partition \<Rightarrow> bool" where
  "named_ok p \<longleftrightarrow> (\<forall>c \<in> set (part_partmap p). grub_isalpha (schar c)) \<and>
     0 \<le> part_number p \<and> part_number p < 2 ^ 31 - 1"

lemma chain_found_suffix: "chain_found I maps tail (qs @ parents) \<Longrightarrow> chain_found I maps tail parents"
  by (induction qs) auto

lemma probe_loop_chain:
  assumes "chain_found I maps tail (rev qs @ part)" and "\<forall>p \<in> set qs. named_ok p" and "I ps"
  shows "returns (probe_loop maps tail part (chain_text qs) ps) (\<lambda>(found, ps'). found = rev qs @ part \<and> I ps')"
  using assms
proof (induction qs arbitrary: part ps)
  case Nil
  then show ?case by (simp add: probe_loop.simps)
next
  case (Cons q qs)
  let ?rest = "if qs = [] then [] else CHR '','' # chain_text qs"
  have q: "named_ok q" using Cons.prems(2) by simp
  then have num: "0 \<le> part_number q" "part_number q < 2 ^ 31" "part_number q < 2 ^ 31 - 1"
    by (auto simp: named_ok_def)
  have c: "split_component (chain_text (q # qs)) =
      (part_partmap q, GRUB_ERR_NONE, word_of_int (part_number q + 1), ?rest)"
    unfolding chain_text_Cons component_text_def append_assoc
    using q num by (intro split_component_name) (auto simp: named_ok_def component_end_def)
  have u: "uint (word_of_int (part_number q + 1) :: u64) = part_number q + 1" by (rule number_text_eq [OF num(1,2)])
  have n: "\<not> ((word_of_int (part_number q + 1) :: u64) = 0 \<or> (word_of_int (part_number q + 1) :: u64) > 0x7fffffff)"
    using u num by (auto simp: word_less_def word_uint_eq_iff)
  have ne: "chain_text (q # qs) \<noteq> []"
    using c by (auto simp: split_component_def grub_strtoul_def grub_strtoull_def guess_base_def)
  have f: "chain_found I maps tail (q # part)" 
    by (rule chain_found_suffix [of _ _ _ "rev qs"]) (use Cons.prems(1) in simp)
  then have "returns (probe_maps maps (part_partmap q) (part_number q) part tail ps)
      (\<lambda>(cur, ps'). cur = Some q \<and> I ps')" using Cons.prems(3) by simp
  then obtain ps1 where found: "probe_maps maps (part_partmap q) (part_number q) part tail ps = Some (Some q, ps1)" "I ps1"
    by (auto simp: returns_def)
  have IH: "I ps1 \<Longrightarrow> returns (probe_loop maps tail (q # part) (chain_text qs) ps1)
      (\<lambda>(found, ps'). found = rev qs @ q # part \<and> I ps')" for ps1
    using Cons.IH [of "q # part"] Cons.prems(1,2) by simp
  show ?case
    unfolding probe_loop.simps [of maps tail part "chain_text (q # qs)" ps] c prod.case u if_not_P [OF n] if_not_P [OF ne]
    using found IH [OF found(2)] by simp
qed

end
