(* ===== verification/Samples.thy ===== *)
theory Samples
  imports Partition_Names
begin

text \<open>
  Concrete machines: a loopback device on a generated file whose bytes are given by a function, in
  the state after start-up. The theorems about partition maps are applied to such disks.
\<close>

definition image_size :: "nat \<Rightarrow> u64" where
  "image_size n = of_nat (n * 512)"

definition image_file :: "(nat \<Rightarrow> u8) \<Rightarrow> nat \<Rightarrow> bytes grub_file" where
  "image_file img n = \<lparr> file_name = ''f'', file_offset = 0, progress_offset = 0, file_size = image_size n,
     file_not_easily_seekable = False, file_data = map img [0..<n * 512], file_read_hook = None,
     file_read_hook_data = None \<rparr>"

definition image_loops :: "(nat \<Rightarrow> u8) \<Rightarrow> nat \<Rightarrow> bytes loop_state" where
  "image_loops img n = \<lparr> loopback_list =
     [\<lparr> lb_devname = ''loop0'', lb_file = image_file img n, lb_id = 0, lb_refcnt = 1 \<rparr>], last_id = 1 \<rparr>"

definition image_disk :: "nat \<Rightarrow> grub_disk" where
  "image_disk n = \<lparr> disk_name = ''loop0'', disk_dev_id = GRUB_DISK_DEVICE_LOOPBACK_ID, disk_total_sectors = of_nat n,
     disk_log_sector_size = 9, disk_max_agglomerate = 16384, disk_id = 0, disk_partition = [] \<rparr>"

definition image_state :: "(nat \<Rightarrow> u8) \<Rightarrow> nat \<Rightarrow> bytes loop_state pstate" where
  "image_state img n = \<lparr> ps_disk = image_disk n, ps_dst = dstate_init (\<lambda>_. True) (image_loops img n) \<rparr>"

definition zero_partition :: grub_partition where
  "zero_partition = \<lparr> part_number = 0, part_start = 0, part_len = 0, part_offset = 0, part_index = 0,
     part_partmap = [], part_msdostype = 0 \<rparr>"

text \<open>The disks are small enough to be read in full.\<close>

definition image_small :: "nat \<Rightarrow> bool" where
  "image_small n \<longleftrightarrow> 0 < n \<and> n \<le> 4096"

lemma unat_image_size: "image_small n \<Longrightarrow> unat (image_size n) = n * 512"
  unfolding image_size_def by (simp only: unat_of_nat) (simp add: image_small_def)

lemma image_devs:
  assumes "image_small n"
  shows "loop_devs (image_loops img n) 0 = Some (map img [0..<n * 512], image_size n)"
proof -
  have "procfs_opened (map img [0..<n * 512]) (image_size n)"
    using assms by (simp add: procfs_opened_def unat_image_size) (simp add: image_small_def)
  then show ?thesis by (simp add: loop_devs_def image_loops_def image_file_def)
qed

lemma image_sectors:
  assumes "image_small n"
  shows "loopback_sectors (image_size n) = of_nat n"
proof -
  have u: "unat (of_nat n :: u64) = n" "n \<le> 4096"
    using assms by (simp_all add: unat_of_nat image_small_def)
  have "image_size n \<noteq> GRUB_FILE_SIZE_UNKNOWN"
    using unat_image_size [OF assms] u(2) by (auto simp: word_unat_eq_iff)
  moreover have "unat (image_size n + 512 - 1) = n * 512 + 511"
  proof -
    have "image_size n + 512 - 1 = image_size n + 511" by simp
    moreover have "unat (image_size n + 511) = n * 512 + 511"
      using unat_image_size [OF assms] u(2) by (subst unat_plus_exact) simp_all
    ultimately show ?thesis by (simp add: add.commute)
  qed
  ultimately show ?thesis
    using u(1) by (simp add: loopback_sectors_def word_unat_eq_iff unat_div_distrib)
qed

lemma image_served: "image_small n \<Longrightarrow> loop_served (loop_devs (image_loops img n)) (image_disk n)"
  unfolding loop_served_def by (simp add: image_disk_def image_devs image_sectors)

lemma image_ok: "image_small n \<Longrightarrow> loop_parts.dev_ok (image_loops img n) (image_state img n)"
  unfolding loop_parts.dev_ok_def
  by (simp add: image_state_def image_served cache_inv_init loop_good_refl) (simp add: dstate_init_def err_init_def)

lemma image_quiet: "quiet True (ps_dst (image_state img n))"
  by (simp add: image_state_def quiet_def dstate_init_def d_errno_def err_init_def)

lemma image_content: "image_small n \<Longrightarrow> i < n * 512 \<Longrightarrow> part_image (loop_content (image_loops img n)) (image_disk n) i = img i"
proof -
  assume n: "image_small n" and i: "i < n * 512"
  have "unat (of_nat (i div 512) :: u64) = i div 512" using n i by (simp add: unat_of_nat image_small_def)
  then show ?thesis
    using n i by (simp add: part_image_def image_disk_def loop_content_def image_devs unat_image_size)
qed

lemma image_total: "image_small n \<Longrightarrow> unat (clamped_total (image_disk n)) = n"
  by (simp add: clamped_total_def image_disk_def Let_def word_less_nat_alt unat_of_nat image_small_def)

lemma image_range:
  assumes "image_small n" and "unat off < 512" and "unat sz + 1022 < 2 ^ 64" and "unat s < n"
    and "unat s * 512 + unat off + unat sz \<le> n * 512"
  shows "grub_disk_adjust_range (image_disk n) s off sz = Some (s, off)"
proof -
  have o: "drop_bit 9 off = 0" "off AND 511 = off"
    using assms(2) by (simp_all add: word_unat_eq_iff unat_drop_bit unat_and_511)
  have "unat s + (unat off + unat sz + 511) div 512 \<le> n" using assms(5) by linarith
  then show ?thesis
    using assms(4) by (subst adjust_range_iff [OF assms(3)])
      (simp add: o image_total [OF assms(1)] span_def, simp add: image_disk_def)
qed

lemma image_record:
  assumes "image_small n" and "unat s < n"
  shows "record_at (part_image (loop_content (image_loops img n)) (image_disk n)) s = map img [unat s * 512..<unat s * 512 + 512]"
  using assms by (auto simp: record_at_def image_bytes_def intro!: image_content)

lemma image_header:
  assumes "image_small n" and "2 ^ k < n" and "k < 12"
  shows "header_at (part_image (loop_content (image_loops img n)) (image_disk n)) k = map img [2 ^ k * 512..<2 ^ k * 512 + 92]"
proof -
  have "unat (push_bit k (1 :: u64)) = 2 ^ k"
    using assms(3) power_strict_increasing [of k 12 "2 :: nat"] by (subst unat_push_bit_exact) (simp_all)
  then show ?thesis
    using assms by (auto simp: header_at_def image_bytes_def intro!: image_content)
qed

lemma image_entry:
  assumes "image_small n" and "a + 128 \<le> n * 512"
  shows "entry_bytes (part_image (loop_content (image_loops img n)) (image_disk n)) a = map img [a..<a + 128]"
  using assms by (auto simp: entry_bytes_def intro!: image_content)

lemma byte_at_map_upt: "byte_at (map f [a..<b]) i = (if i < b - a then f (a + i) else 0)"
  by (simp add: byte_at_def)

text \<open>Fields of a structure, unfolded to their bytes.\<close>

lemma le_word_numeral:
  "le_word bs off (numeral k) = unat (byte_at bs off) + 256 * le_word bs (off + 1) (pred_numeral k)"
  by (simp add: numeral_eq_Suc)

lemma be_word_numeral:
  "be_word bs off (numeral k) acc = be_word bs (off + 1) (pred_numeral k) (256 * acc + unat (byte_at bs off))"
  by (simp add: numeral_eq_Suc)

lemmas field_eval = field_defs le_word_numeral be_word_numeral byte_at_map_upt

subsection \<open>Disks with partition tables\<close>

text \<open>
  A disk of eight sectors with a protective boot record, a GPT header with one entry of 128 bytes
  in sector 2, and in that entry a partition of sectors 4 to 6.
\<close>

definition gpt_image :: "nat \<Rightarrow> u8" where
  "gpt_image i =
     (if i = 450 then 0xee else if i = 510 then 0x55 else if i = 511 then 0xaa
      else if 512 \<le> i \<and> i < 520 then grub_gpt_magic ! (i - 512)
      else if i = 584 then 2 else if i = 592 then 1 else if i = 596 then 128
      else if i = 1024 then 7 else if i = 1056 then 4 else if i = 1064 then 6 else 0)"

lemma gpt_image_mbr:
  "mbr_signature (map gpt_image [0..<512]) = GRUB_PC_PARTITION_SIGNATURE"
  "ent_type (map gpt_image [0..<512]) 0 = GRUB_PC_PARTITION_TYPE_GPT_DISK"
  by (simp_all add: mbr_signature_def ent_type_def field_eval gpt_image_def del: upt_rec_numeral)

lemma gpt_image_header:
  "grub_memcmp (map gpt_image [512..<604]) grub_gpt_magic 8 = 0"
  "gpt_partitions (map gpt_image [512..<604]) = 2" "gpt_maxpart (map gpt_image [512..<604]) = 1"
  "gpt_partentry_size (map gpt_image [512..<604]) = 128"
proof -
  have "take 8 (map gpt_image [512..<604]) = map gpt_image [512..<520]" by (simp add: take_map take_upt del: upt_rec_numeral)
  also have "\<dots> = grub_gpt_magic" by (simp add: gpt_image_def grub_gpt_magic_def)
  finally show "grub_memcmp (map gpt_image [512..<604]) grub_gpt_magic 8 = 0"
    by (subst memcmp_zero_iff) (simp_all add: grub_gpt_magic_def del: upt_rec_numeral)
  show "gpt_partitions (map gpt_image [512..<604]) = 2" "gpt_maxpart (map gpt_image [512..<604]) = 1"
    "gpt_partentry_size (map gpt_image [512..<604]) = 128"
    by (simp_all add: gpt_partitions_def gpt_maxpart_def gpt_partentry_size_def field_eval gpt_image_def del: upt_rec_numeral)
qed

lemma gpt_used_Cons: "x \<noteq> 0 \<Longrightarrow> gpt_used (x # xs)"
proof -
  have "grub_memcmp (0 # as) (x # bs) (Suc n) = - uint x" if "x \<noteq> 0" for as bs n using that by simp
  moreover have "replicate 16 (0 :: u8) = 0 # replicate 15 0" by (simp add: numeral_eq_Suc)
  moreover have "take 16 (x # xs) = x # take 15 xs" by (simp add: numeral_eq_Suc)
  ultimately show "x \<noteq> 0 \<Longrightarrow> gpt_used (x # xs)"
    unfolding gpt_used_def by (metis eval_nat_numeral(3) neg_equal_0_iff_equal numeral_eq_Suc uint_0_iff)
qed

lemma gpt_image_entry: "gpt_used (map gpt_image [1024..<1152])"
proof -
  have "map gpt_image [1024..<1152] = 7 # map gpt_image [1025..<1152]"
    by (subst upt_conv_Cons) (simp_all add: gpt_image_def del: upt_rec_numeral)
  then show ?thesis by (simp add: gpt_used_Cons del: upt_rec_numeral)
qed

text \<open>A boot record with one Linux partition of five sectors.\<close>

definition msdos_image :: "nat \<Rightarrow> u8" where
  "msdos_image i =
     (if i = 450 then 0x83 else if i = 454 then 1 else if i = 458 then 5
      else if i = 510 then 0x55 else if i = 511 then 0xaa else 0)"

lemma msdos_image_record:
  "mbr_check (map msdos_image [0..<512]) 0 0 1 = None" "find_extended (map msdos_image [0..<512]) = None"
  "msdos_primaries (image_disk n) (map msdos_image [0..<512]) =
     [zero_partition\<lparr> part_start := 1, part_len := 5, part_partmap := ''msdos'', part_msdostype := 0x83 \<rparr>]"
proof -
  let ?m = "map msdos_image [0..<512]"
  have t: "ent_type ?m 0 = 0x83" "ent_type ?m (Suc 0) = 0" "ent_type ?m 2 = 0" "ent_type ?m 3 = 0"
    by (simp_all add: ent_type_def field_eval msdos_image_def del: upt_rec_numeral)
  have f: "ent_flag ?m 0 = 0" "ent_flag ?m (Suc 0) = 0" "ent_flag ?m 2 = 0" "ent_flag ?m 3 = 0"
    by (simp_all add: ent_flag_def field_eval msdos_image_def del: upt_rec_numeral)
  have s: "mbr_signature ?m = GRUB_PC_PARTITION_SIGNATURE" "ent_start ?m 0 = 1" "ent_length ?m 0 = 5"
    by (simp_all add: mbr_signature_def ent_start_def ent_length_def field_eval msdos_image_def del: upt_rec_numeral)
  have u: "[0..<4] = [0, 1, 2, 3 :: nat]" by (simp add: upt_rec)
  note defs = grub_msdos_partition_is_empty_def grub_msdos_partition_is_extended_def slots_def
  show "mbr_check ?m 0 0 1 = None"
    by (simp add: mbr_check_def mbr_dummy_def mbr_bad_flag_def slots_def t f s del: upt_rec_numeral)
  show "find_extended ?m = None"
    by (simp add: find_extended_def defs t del: upt_rec_numeral)
  show "msdos_primaries (image_disk n) ?m =
     [zero_partition\<lparr> part_start := 1, part_len := 5, part_partmap := ''msdos'', part_msdostype := 0x83 \<rparr>]"
    unfolding msdos_primaries_def u
    by (simp add: t s defs msdos_part_def native_units_def image_disk_def zero_partition_def del: upt_rec_numeral)
qed

text \<open>An Amiga descriptor whose list is the one block that names itself as the next.\<close>

definition amiga_words :: "u8 list" where
  "amiga_words = [0x52, 0x44, 0x53, 0x4b, 0, 0, 0, 8, 0xad, 0xbb, 0xac, 0xac, 0, 0, 0, 0,
     0, 0, 0, 0, 0, 0, 0, 0, 0, 0, 0, 0, 0, 0, 0, 1]"

definition amiga_block :: "u8 list" where
  "amiga_block = [0x50, 0x41, 0x52, 0x54, 0, 0, 0, 5, 0xaf, 0xbe, 0xad, 0xa6, 0, 0, 0, 0, 0, 0, 0, 1]"

definition amiga_image :: "nat \<Rightarrow> u8" where
  "amiga_image i = (if i < 32 then amiga_words ! i
     else if 512 \<le> i \<and> i < 532 then amiga_block ! (i - 512) else 0)"

lemma amiga_image_rdsk:
  "grub_memcmp (map amiga_image [0..<512]) GRUB_AMIGA_RDSK_MAGIC 4 = 0"
  "amiga_partition_map_checksum (map amiga_image [0..<512]) = 0"
  "be32 (map amiga_image [0..<512]) 28 = 1"
proof -
  have "take 4 (map amiga_image [0..<512]) = map amiga_image [0..<4]" by (simp add: take_map take_upt del: upt_rec_numeral)
  also have "\<dots> = GRUB_AMIGA_RDSK_MAGIC"
    by (simp add: amiga_image_def amiga_words_def GRUB_AMIGA_RDSK_MAGIC_def numeral_eq_Suc)
  finally show "grub_memcmp (map amiga_image [0..<512]) GRUB_AMIGA_RDSK_MAGIC 4 = 0"
    by (subst memcmp_zero_iff) (simp_all add: GRUB_AMIGA_RDSK_MAGIC_def del: upt_rec_numeral)
  show "be32 (map amiga_image [0..<512]) 28 = 1"
    by (simp add: field_eval amiga_image_def amiga_words_def del: upt_rec_numeral)
  have w: "be32 (map amiga_image [0..<512]) 4 = 8"
    by (simp add: field_eval amiga_image_def amiga_words_def del: upt_rec_numeral)
  then have "amiga_checksum_words (map amiga_image [0..<512]) = 8"
    by (simp add: amiga_checksum_words_def del: upt_rec_numeral)
  moreover have "[0..<8] = [0, 1, 2, 3, 4, 5, 6, 7 :: nat]" by (simp add: upt_rec)
  ultimately show "amiga_partition_map_checksum (map amiga_image [0..<512]) = 0"
    by (simp add: amiga_partition_map_checksum_def field_eval amiga_image_def amiga_words_def del: upt_rec_numeral)
qed

lemma amiga_image_part:
  "grub_memcmp (map amiga_image [512..<1024]) GRUB_AMIGA_PART_MAGIC 4 = 0"
  "amiga_partition_map_checksum (map amiga_image [512..<1024]) = 0"
  "be32 (map amiga_image [512..<1024]) 16 = 1"
proof -
  have "take 4 (map amiga_image [512..<1024]) = map amiga_image [512..<516]" by (simp add: take_map take_upt del: upt_rec_numeral)
  also have "\<dots> = GRUB_AMIGA_PART_MAGIC"
    by (simp add: amiga_image_def amiga_block_def GRUB_AMIGA_PART_MAGIC_def numeral_eq_Suc)
  finally show "grub_memcmp (map amiga_image [512..<1024]) GRUB_AMIGA_PART_MAGIC 4 = 0"
    by (subst memcmp_zero_iff) (simp_all add: GRUB_AMIGA_PART_MAGIC_def del: upt_rec_numeral)
  show "be32 (map amiga_image [512..<1024]) 16 = 1"
    by (simp add: field_eval amiga_image_def amiga_block_def del: upt_rec_numeral)
  have w: "be32 (map amiga_image [512..<1024]) 4 = 5"
    by (simp add: field_eval amiga_image_def amiga_block_def del: upt_rec_numeral)
  then have "amiga_checksum_words (map amiga_image [512..<1024]) = 5"
    by (simp add: amiga_checksum_words_def del: upt_rec_numeral)
  moreover have "[0..<5] = [0, 1, 2, 3, 4 :: nat]" by (simp add: upt_rec)
  ultimately show "amiga_partition_map_checksum (map amiga_image [512..<1024]) = 0"
    by (simp add: amiga_partition_map_checksum_def field_eval amiga_image_def amiga_block_def del: upt_rec_numeral)
qed

end
