(* ===== verification/Disk_Cache_Lookup.thy ===== *)
theory Disk_Cache_Lookup
  imports Disk_Cache
begin

text \<open>
  The cache as a map: the keys within a slot and its overflow chain stay distinct under every
  operation, so a block that was stored is what the next lookup finds, storing it does not disturb
  the lookup of other slots, and nothing unlocked is found after an invalidation.
\<close>

definition entry_key :: "cache_entry \<Rightarrow> u64 \<times> u64 \<times> u64" where
  "entry_key e = (ce_dev_id e, ce_disk_id e, ce_sector e)"

definition bucket_distinct :: "bucket \<Rightarrow> bool" where
  "bucket_distinct b \<longleftrightarrow> distinct (map entry_key (fst b # snd b))"

definition keys_distinct :: "'h dstate \<Rightarrow> bool" where
  "keys_distinct st \<longleftrightarrow> (\<forall>i. bucket_distinct (d_cache st i))"

lemma entry_matches_key: "entry_matches dv di s e \<longleftrightarrow> entry_key e = (dv, di, s)"
  by (simp add: entry_matches_def entry_key_def)

lemma entry_key_update [simp]:
  "entry_key (e\<lparr> ce_data := d \<rparr>) = entry_key e" "entry_key (e\<lparr> ce_lock := l \<rparr>) = entry_key e"
  "entry_key (lock_entry e) = entry_key e"
  by (simp_all add: entry_key_def lock_entry_def)

lemma update_entry_keys:
  "(\<And>e. entry_key (f e) = entry_key e) \<Longrightarrow> map entry_key (update_entry dv di s f es) = map entry_key es"
  by (induction es) auto

lemma update_bucket_distinct:
  "(\<And>e. entry_key (f e) = entry_key e) \<Longrightarrow> bucket_distinct (update_bucket dv di s f b) = bucket_distinct b"
  by (simp add: bucket_distinct_def update_bucket_def update_entry_keys flip: set_map)

lemma keys_distinct_upd:
  "keys_distinct st \<Longrightarrow> bucket_distinct b \<Longrightarrow> keys_distinct (st\<lparr> d_cache := (d_cache st)(i := b) \<rparr>)"
  by (simp add: keys_distinct_def)

lemma keys_distinct_cong: "d_cache st' = d_cache st \<Longrightarrow> keys_distinct st' = keys_distinct st"
  by (simp add: keys_distinct_def)

lemma fetch_distinct: "keys_distinct st \<Longrightarrow> keys_distinct (snd (grub_disk_cache_fetch disk s st))"
  by (auto simp: grub_disk_cache_fetch_def Let_def keys_distinct_def update_bucket_distinct split: option.splits)

lemma unlock_distinct: "keys_distinct st \<Longrightarrow> keys_distinct (grub_disk_cache_unlock dv di s st)"
  by (simp add: grub_disk_cache_unlock_def Let_def keys_distinct_def update_bucket_distinct)

lemma invalidate_distinct: "keys_distinct st \<Longrightarrow> keys_distinct (grub_disk_cache_invalidate_all st)"
proof -
  have "bucket_distinct (invalidate_bucket b)" if "bucket_distinct b" for b
    using that by (auto simp: bucket_distinct_def invalidate_bucket_def intro: distinct_map_filter)
  then show "keys_distinct st \<Longrightarrow> keys_distinct (grub_disk_cache_invalidate_all st)"
    by (simp add: keys_distinct_def grub_disk_cache_invalidate_all_def)
qed

lemma init_distinct: "keys_distinct (dstate_init malloc h)"
  by (simp add: keys_distinct_def dstate_init_def bucket_distinct_def empty_bucket_def)

text \<open>The result of a store: nothing but the slot of the key changes.\<close>

lemma refill_find:
  assumes "find_entry dv di s es = Some e"
  shows "find_entry dv di s (update_entry dv di s (\<lambda>e. e\<lparr> ce_data := Some d, ce_lock := False \<rparr>) es) =
    Some (e\<lparr> ce_data := Some d, ce_lock := False \<rparr>)"
  using assms by (induction es) (auto simp: entry_matches_def split: if_splits)

definition stored :: "u64 \<Rightarrow> u64 \<Rightarrow> u64 \<Rightarrow> bytes \<Rightarrow> bucket \<Rightarrow> bool" where
  "stored dv di s data b \<longleftrightarrow> (\<exists>e. find_entry dv di s (fst b # snd b) = Some e \<and> ce_data e = Some data)"

text \<open>The block has an entry with data in the bucket.\<close>

definition stored_any :: "u64 \<Rightarrow> u64 \<Rightarrow> u64 \<Rightarrow> bucket \<Rightarrow> bool" where
  "stored_any dv di s b \<longleftrightarrow> (\<exists>e. find_entry dv di s (fst b # snd b) = Some e \<and> ce_data e \<noteq> None)"

lemma store_effect:
  assumes distinct: "bucket_distinct (d_cache st i)" and i: "i = grub_disk_cache_get_index dv di s"
    and absent: "\<not> stored_any dv di s (d_cache st i)"
    and run: "grub_disk_cache_store dv di s data st = (e, st')"
  shows "(\<forall>j. j \<noteq> i \<longrightarrow> d_cache st' j = d_cache st j) \<and> bucket_distinct (d_cache st' i) \<and>
    (e = GRUB_ERR_NONE \<longrightarrow> stored dv di s data (d_cache st' i))"
proof (cases "find_entry dv di s (snd (d_cache st i))")
  case (Some e0)
  have k: "entry_key e0 = (dv, di, s)" "e0 \<in> set (snd (d_cache st i))"
    using find_entry_in [OF Some] by (auto simp: entry_matches_key)
  then have slot: "entry_key (fst (d_cache st i)) \<noteq> (dv, di, s)"
    using distinct by (auto simp: bucket_distinct_def intro: rev_image_eqI)
  let ?b = "\<lambda>x. (fst (d_cache st i), update_entry dv di s (\<lambda>e. e\<lparr> ce_data := x, ce_lock := False \<rparr>) (snd (d_cache st i)))"
  have d: "bucket_distinct (?b x)" for x
    using distinct by (simp add: bucket_distinct_def update_entry_keys flip: set_map)
  have "stored dv di s data (?b (Some data))"
    using slot refill_find [OF Some] by (auto simp: stored_def entry_matches_key)
  moreover obtain ok st1 where m: "grub_malloc st = (ok, st1)" by fastforce
  ultimately show ?thesis
    using run Some d grub_malloc_step(1,8) [OF m]
    by (cases ok) (auto simp: grub_disk_cache_store_def Let_def store_refill_def m i [symmetric])
next
  case None
  let ?slot = "fst (d_cache st i)" and ?chain = "snd (d_cache st i)"
  let ?new = "\<lparr> ce_dev_id = dv, ce_disk_id = di, ce_sector = s, ce_data = Some data, ce_lock = False \<rparr>"
  let ?old = "?slot\<lparr> ce_data := None, ce_lock := False \<rparr>"
  have fresh: "\<forall>x \<in> set ?chain. entry_key x \<noteq> (dv, di, s)"
    using None by (simp add: find_entry_None entry_matches_key)
  have other: "ce_data ?slot \<noteq> None \<Longrightarrow> entry_key ?slot \<noteq> (dv, di, s)"
    using absent by (auto simp: stored_any_def entry_matches_key)
  have keep: "bucket_distinct (?new, ?chain)"
    using distinct fresh by (auto simp: bucket_distinct_def) (metis entry_key_def cache_entry.select_convs(1-3) imageE)
  have evict: "bucket_distinct (?new, evict_chain ?old ?chain)" if "ce_data ?slot \<noteq> None"
  proof -
    have k: "map entry_key (?new # evict_chain ?old ?chain) =
        (dv, di, s) # entry_key ?slot # take GRUB_CACHE_EVICTED_MAX (map entry_key ?chain)"
      by (simp add: evict_chain_eq take_map) (simp add: entry_key_def)
    have "(dv, di, s) \<notin> set (map entry_key ?chain)" using fresh by auto
    then show ?thesis
      using distinct other [OF that] unfolding bucket_distinct_def fst_conv snd_conv k
      by (auto dest: in_set_takeD simp del: set_map)
  qed
  have clear: "bucket_distinct (?old, ?chain)" using distinct by (simp add: bucket_distinct_def)
  have "stored dv di s data (?new, ch)" for ch by (simp add: stored_def entry_matches_def)
  moreover obtain ok0 s0 where m0: "grub_malloc st = (ok0, s0)" by fastforce
  moreover define st1 where "st1 = (if ce_data ?slot \<noteq> None then set_errno GRUB_ERR_NONE s0 else st)"
  moreover obtain ok st2 where m: "grub_malloc st1 = (ok, st2)" by fastforce
  moreover have "d_cache st2 = d_cache st"
    using grub_malloc_step(1) [OF m] grub_malloc_step(1) [OF m0] by (simp add: st1_def)
  ultimately show ?thesis
    using run None keep evict clear grub_malloc_step(8) [OF m]
    by (cases ok; cases ok0; cases "ce_data ?slot")
      (auto simp: grub_disk_cache_store_def Let_def store_slot_def i [symmetric])
qed

lemma store_distinct:
  assumes "keys_distinct st" and "\<not> stored_any dv di s (d_cache st (grub_disk_cache_get_index dv di s))"
  shows "keys_distinct (snd (grub_disk_cache_store dv di s data st))"
proof -
  let ?i = "grub_disk_cache_get_index dv di s"
  have b: "bucket_distinct (d_cache st j)" for j using assms(1) by (simp add: keys_distinct_def)
  have "bucket_distinct (d_cache (snd (grub_disk_cache_store dv di s data st)) j)" for j
    using store_effect [OF b refl assms(2) prod.collapse [symmetric], of data] b by (cases "j = ?i") simp_all
  then show ?thesis by (simp add: keys_distinct_def)
qed

text \<open>A lookup gives the data of the first entry of the key.\<close>

lemma fetch_eq:
  "fst (grub_disk_cache_fetch disk s st) =
     (case find_entry (disk_dev_id disk) (disk_id disk) s
         (let b = d_cache st (grub_disk_cache_get_index (disk_dev_id disk) (disk_id disk) s) in fst b # snd b) of
       Some e \<Rightarrow> ce_data e | None \<Rightarrow> None)"
  by (auto simp: grub_disk_cache_fetch_def Let_def simp del: find_entry.simps split: option.splits)

lemma fetch_miss_absent:
  assumes "fst (grub_disk_cache_fetch disk s st) = None"
  shows "\<not> stored_any (disk_dev_id disk) (disk_id disk) s
    (d_cache st (grub_disk_cache_get_index (disk_dev_id disk) (disk_id disk) s))"
  using assms by (auto simp: fetch_eq Let_def stored_any_def simp del: find_entry.simps)

lemma index_bound: "grub_disk_cache_get_index dv di s < GRUB_DISK_CACHE_NUM"
  by (simp add: grub_disk_cache_get_index_def unat_mod_distrib)

text \<open>A lookup that finds an entry without data leaves the bucket as it is.\<close>

lemma update_bucket_lock_None:
  "find_entry dv di s (fst b # snd b) = Some e \<Longrightarrow> ce_data e = None \<Longrightarrow> update_bucket dv di s lock_entry b = b"
proof -
  have "find_entry dv di s es = Some e \<Longrightarrow> ce_data e = None \<Longrightarrow> update_entry dv di s lock_entry es = es" for es
    by (induction es) (auto simp: lock_entry_def split: if_splits)
  then show "find_entry dv di s (fst b # snd b) = Some e \<Longrightarrow> ce_data e = None \<Longrightarrow> update_bucket dv di s lock_entry b = b"
    by (auto simp: update_bucket_def lock_entry_def split: if_splits)
qed

end
