(* ===== verification/Disk_Open.thy ===== *)
theory Disk_Open
  imports Partmaps
begin

text \<open>
  Opening and closing disks (\<open>grub_disk_open\<close>, \<open>grub_disk_close\<close> and the list of disk drivers in
  \<open>grub/grub-core/kern/disk.c\<close>) and the named lists of \<open>kern/list.c\<close>. A driver is the record of its
  function pointers; calls of a driver are partial, \<open>None\<close> is a call that does not return. The
  partition maps are a parameter, a function of the reader of the disk.
\<close>

subsection \<open>Lists\<close>

text \<open>\<open>grub_named_list_find\<close> on items whose name is given by \<open>nm\<close>.\<close>

fun grub_named_list_find :: "('a \<Rightarrow> string) \<Rightarrow> 'a list \<Rightarrow> string \<Rightarrow> 'a option" where
  "grub_named_list_find nm [] name = None"
| "grub_named_list_find nm (x # xs) name =
     (if grub_strcmp (nm x) name = 0 then Some x else grub_named_list_find nm xs name)"

definition grub_list_push :: "'a list \<Rightarrow> 'a \<Rightarrow> 'a list" where
  "grub_list_push head item = item # head"

text \<open>\<open>grub_list_remove\<close> unlinks one item of a list in which every item occurs once.\<close>

definition grub_list_remove :: "'a \<Rightarrow> 'a list \<Rightarrow> 'a list" where
  "grub_list_remove item head = remove1 item head"

definition grub_list_length :: "'a list \<Rightarrow> nat" where
  "grub_list_length head = fold (\<lambda>_ n. n + 1) head 0"

subsection \<open>Drivers\<close>

abbreviation GRUB_DISK_PULL_MAX :: nat where "GRUB_DISK_PULL_MAX \<equiv> 3"

text \<open>The hook of a driver's listing answers true to stop; \<open>'d\<close> is the type of the data handed to it.\<close>

type_synonym ('h, 'd) name_hook = "string \<Rightarrow> 'd \<Rightarrow> 'h dstate \<Rightarrow> (bool \<times> 'd \<times> 'h dstate) option"

record ('h, 'd) disk_dev =
  dev_name :: string
  dev_id :: u64
  dev_iterate :: "(('h, 'd) name_hook \<Rightarrow> nat \<Rightarrow> 'd \<Rightarrow> 'h dstate \<Rightarrow> (bool \<times> 'd \<times> 'h dstate) option) option"
  dev_open :: "string \<Rightarrow> grub_disk \<Rightarrow> 'h dstate \<Rightarrow> (grub_err_t \<times> grub_disk \<times> 'h dstate) option"
  dev_close :: "(grub_disk \<Rightarrow> 'h dstate \<Rightarrow> 'h dstate option) option"
  dev_read :: "'h dread"

definition grub_disk_dev_register :: "('h, 'd) disk_dev \<Rightarrow> ('h, 'd) disk_dev list \<Rightarrow> ('h, 'd) disk_dev list" where
  "grub_disk_dev_register dev devs = dev # devs"

text \<open>The pointer that is compared is identified by the id of the driver.\<close>

fun grub_disk_dev_unregister :: "('h, 'd) disk_dev \<Rightarrow> ('h, 'd) disk_dev list \<Rightarrow> ('h, 'd) disk_dev list" where
  "grub_disk_dev_unregister dev [] = []"
| "grub_disk_dev_unregister dev (d # ds) =
     (if dev_id d = dev_id dev then ds else d # grub_disk_dev_unregister dev ds)"

text \<open>\<open>grub_disk_dev_iterate\<close>: every driver at every pull level, until the hook stops.\<close>

fun iterate_devs :: "('h, 'd) name_hook \<Rightarrow> nat \<Rightarrow> ('h, 'd) disk_dev list \<Rightarrow> 'd \<Rightarrow> 'h dstate
    \<Rightarrow> (bool \<times> 'd \<times> 'h dstate) option" where
  "iterate_devs hook pull [] d st = Some (False, d, st)"
| "iterate_devs hook pull (dev # devs) d st =
     do { (stop, d1, st1) \<leftarrow> (case dev_iterate dev of None \<Rightarrow> Some (False, d, st) | Some f \<Rightarrow> f hook pull d st);
          if stop then Some (True, d1, st1) else iterate_devs hook pull devs d1 st1 }"

fun iterate_pulls :: "('h, 'd) name_hook \<Rightarrow> nat list \<Rightarrow> ('h, 'd) disk_dev list \<Rightarrow> 'd \<Rightarrow> 'h dstate
    \<Rightarrow> (bool \<times> 'd \<times> 'h dstate) option" where
  "iterate_pulls hook [] devs d st = Some (False, d, st)"
| "iterate_pulls hook (pull # pulls) devs d st =
     do { (stop, d1, st1) \<leftarrow> iterate_devs hook pull devs d st;
          if stop then Some (True, d1, st1) else iterate_pulls hook pulls devs d1 st1 }"

definition grub_disk_dev_iterate :: "('h, 'd) name_hook \<Rightarrow> ('h, 'd) disk_dev list \<Rightarrow> 'd \<Rightarrow> 'h dstate
    \<Rightarrow> (bool \<times> 'd \<times> 'h dstate) option" where
  "grub_disk_dev_iterate hook = iterate_pulls hook [0..<GRUB_DISK_PULL_MAX]"

subsection \<open>Names with a partition\<close>

text \<open>\<open>find_part_sep\<close>: the suffix from the first comma that is not escaped by a backslash.\<close>

fun find_part_sep :: "string \<Rightarrow> string option" where
  "find_part_sep [] = None"
| "find_part_sep [c] = (if c = CHR '','' then Some [c] else None)"
| "find_part_sep (c # d # cs) =
     (if c = CHR 0x5C \<and> d = CHR '','' then find_part_sep cs
      else if c = CHR '','' then Some (c # d # cs)
      else find_part_sep (d # cs))"

subsection \<open>Opening and closing\<close>

abbreviation GRUB_CACHE_TIMEOUT :: u64 where "GRUB_CACHE_TIMEOUT \<equiv> 2"

definition grub_get_time_ms :: "'h dstate \<Rightarrow> u64 \<times> 'h dstate" where
  "grub_get_time_ms st = (d_time st (d_time_calls st), st\<lparr> d_time_calls := Suc (d_time_calls st) \<rparr>)"

text \<open>An open disk with its driver; \<open>disk->dev\<close> is null until the driver was chosen.\<close>

record ('h, 'd) open_disk =
  od_disk :: grub_disk
  od_dev :: "('h, 'd) disk_dev option"

definition grub_disk_close :: "('h, 'd) open_disk \<Rightarrow> 'h dstate \<Rightarrow> 'h dstate option" where
  "grub_disk_close d st =
     do { st1 \<leftarrow> (case od_dev d of
                     Some dev \<Rightarrow> (case dev_close dev of Some f \<Rightarrow> f (od_disk d) st | None \<Rightarrow> Some st)
                   | None \<Rightarrow> Some st);
          Some (case grub_get_time_ms st1 of (t, st2) \<Rightarrow> st2\<lparr> grub_last_time := t \<rparr>) }"

definition fresh_disk :: grub_disk where
  "fresh_disk = \<lparr> disk_name = [], disk_dev_id = 0, disk_total_sectors = 0, disk_log_sector_size = GRUB_DISK_SECTOR_BITS,
     disk_max_agglomerate = 32, disk_id = 0, disk_partition = [] \<rparr>"

text \<open>The search for the driver: the first one that opens the name; \<open>Inl\<close> is the jump to \<open>fail\<close>.\<close>

fun find_driver :: "('h, 'd) disk_dev list \<Rightarrow> string \<Rightarrow> string \<Rightarrow> grub_disk \<Rightarrow> 'h dstate
    \<Rightarrow> ((unit + ('h, 'd) disk_dev) \<times> grub_disk \<times> 'h dstate) option" where
  "find_driver [] raw name disk st =
     Some (Inl (), disk, raise_error GRUB_ERR_UNKNOWN_DEVICE ''disk not found'' st)"
| "find_driver (dev # devs) raw name disk st =
     do { (e, disk1, st1) \<leftarrow> dev_open dev raw disk st;
          if e = GRUB_ERR_NONE then Some (Inr dev, disk1, st1)
          else if d_errno st1 = GRUB_ERR_UNKNOWN_DEVICE
          then find_driver devs raw name disk1 (set_errno GRUB_ERR_NONE st1)
          else Some (Inl (), disk1, st1) }"

text \<open>The end of a successful opening: a cache that has not been used for two seconds is dropped.\<close>

definition refresh_cache :: "'h dstate \<Rightarrow> 'h dstate" where
  "refresh_cache st =
     (case grub_get_time_ms st of
        (now, st1) \<Rightarrow>
          (if now > grub_last_time st1 + GRUB_CACHE_TIMEOUT * 1000 then grub_disk_cache_invalidate_all st1 else st1)
            \<lparr> grub_last_time := now \<rparr>)"

text \<open>The label \<open>fail\<close>, which a successful opening reaches as well.\<close>

definition open_result :: "('h, 'd) open_disk \<Rightarrow> 'h dstate \<Rightarrow> (('h, 'd) open_disk option \<times> 'h dstate) option" where
  "open_result d st =
     (if d_errno st \<noteq> GRUB_ERR_NONE
      then map_option (\<lambda>st1. (None, st1)) (grub_disk_close d (push_pop_error st))
      else Some (Some d, st))"

text \<open>The part behind the choice of the driver: sector size, partition, cache.\<close>

definition open_partition :: "('h part_read \<Rightarrow> ('h, grub_partition option) partmaps) \<Rightarrow> string option \<Rightarrow> ('h, 'd) disk_dev
    \<Rightarrow> grub_disk \<Rightarrow> 'h dstate \<Rightarrow> (('h, 'd) open_disk option \<times> 'h dstate) option" where
  "open_partition maps part dev disk st =
     (case part of
        None \<Rightarrow> open_result \<lparr> od_disk = disk, od_dev = Some dev \<rparr> (refresh_cache st)
      | Some name \<Rightarrow>
          do { (chain, ps) \<leftarrow> grub_partition_probe (maps (disk_reader (dev_read dev) None)) (Some name)
                                \<lparr> ps_disk = disk, ps_dst = st \<rparr>;
               let d = \<lparr> od_disk = (ps_disk ps)\<lparr> disk_partition := chain \<rparr>, od_dev = Some dev \<rparr>;
               if chain = []
               then open_result d (raise_error GRUB_ERR_UNKNOWN_DEVICE ''no such partition'' (ps_dst ps))
               else open_result d (refresh_cache (ps_dst ps)) })"

definition open_driver :: "('h part_read \<Rightarrow> ('h, grub_partition option) partmaps) \<Rightarrow> ('h, 'd) disk_dev list \<Rightarrow> string
    \<Rightarrow> string \<Rightarrow> string option \<Rightarrow> grub_disk \<Rightarrow> 'h dstate \<Rightarrow> (('h, 'd) open_disk option \<times> 'h dstate) option" where
  "open_driver maps devs name raw part disk st =
     do { (r, disk1, st1) \<leftarrow> find_driver devs raw name disk st;
          case r of
            Inl _ \<Rightarrow> open_result \<lparr> od_disk = disk1, od_dev = None \<rparr> st1
          | Inr dev \<Rightarrow>
              if disk_log_sector_size disk1 > GRUB_DISK_CACHE_BITS + GRUB_DISK_SECTOR_BITS
                 \<or> disk_log_sector_size disk1 < GRUB_DISK_SECTOR_BITS
              then open_result \<lparr> od_disk = disk1, od_dev = None \<rparr>
                     (raise_error GRUB_ERR_NOT_IMPLEMENTED_YET ''sector size not supported'' st1)
              else open_partition maps part dev (disk1\<lparr> disk_dev_id := dev_id dev \<rparr>) st1 }"

text \<open>
  The name without the partition is copied twice when there is a partition, to \<open>raw\<close> and to the
  disk, and once otherwise; every copy is a request to the allocator.
\<close>

definition grub_disk_open :: "('h part_read \<Rightarrow> ('h, grub_partition option) partmaps) \<Rightarrow> ('h, 'd) disk_dev list
    \<Rightarrow> string \<Rightarrow> 'h dstate \<Rightarrow> (('h, 'd) open_disk option \<times> 'h dstate) option" where
  "grub_disk_open maps devs name st =
     (let fail = open_result \<lparr> od_disk = fresh_disk, od_dev = None \<rparr>;
          sep = find_part_sep name;
          raw = (case sep of Some p \<Rightarrow> take (length name - length p) name | None \<Rightarrow> name);
          go = (\<lambda>st1. case grub_malloc st1 of
                   (False, st2) \<Rightarrow> fail st2
                 | (True, st2) \<Rightarrow> open_driver maps devs name raw (map_option tl sep)
                                    (fresh_disk\<lparr> disk_name := raw \<rparr>) st2)
      in case grub_malloc st of
           (False, st1) \<Rightarrow> Some (None, st1)
         | (True, st1) \<Rightarrow>
             if sep = None then go st1
             else case grub_malloc st1 of
                    (False, st2) \<Rightarrow> fail st2
                  | (True, st2) \<Rightarrow> go st2)"

end
