(* ===== verification/Device.thy ===== *)
theory Device
  imports Disk_Open
begin

text \<open>
  Devices (\<open>grub/grub-core/kern/device.c\<close>): opening the disk behind a name, closing it, and the
  listing of all disks with their partitions. The network member of a device is omitted: the hook
  \<open>grub_net_open\<close> is null in this program, so every device that is opened has a disk.
\<close>

text \<open>\<open>grub_strdup\<close> and \<open>grub_xasprintf\<close> by the length of the text they make; \<open>255\<close> is the first guess.\<close>

definition grub_strdup :: "string \<Rightarrow> 'h dstate \<Rightarrow> string option \<times> 'h dstate" where
  "grub_strdup s st = (case grub_malloc st of (ok, st1) \<Rightarrow> (if ok then Some s else None, st1))"

definition grub_xasprintf :: "string \<Rightarrow> 'h dstate \<Rightarrow> string option \<times> 'h dstate" where
  "grub_xasprintf s st =
     (case grub_malloc st of
        (False, st1) \<Rightarrow> (None, st1)
      | (True, st1) \<Rightarrow> if length s \<le> 255 then (Some s, st1) else grub_strdup s st1)"

record ('h, 'd) grub_device =
  gd_disk :: "('h, 'd) open_disk option"

text \<open>The variable \<open>root\<close> of the environment is the argument \<open>root\<close>; a null name stands for it.\<close>

definition grub_device_open :: "('h part_read \<Rightarrow> ('h, grub_partition option) partmaps) \<Rightarrow> ('h, 'd) disk_dev list
    \<Rightarrow> string option \<Rightarrow> string option \<Rightarrow> 'h dstate \<Rightarrow> (('h, 'd) grub_device option \<times> 'h dstate) option" where
  "grub_device_open maps devs root name st =
     (case (case name of None \<Rightarrow> if root = Some [] then None else root | Some n \<Rightarrow> Some n) of
        None \<Rightarrow> Some (None, raise_error GRUB_ERR_BAD_DEVICE ''variable isn't set'' st)
      | Some n \<Rightarrow>
          (case grub_malloc st of
             (False, st1) \<Rightarrow> Some (None, st1)
           | (True, st1) \<Rightarrow>
               do { (d, st2) \<leftarrow> grub_disk_open maps devs n st1;
                    Some (map_option (\<lambda>disk. \<lparr> gd_disk = Some disk \<rparr>) d, st2) }))"

definition grub_device_close :: "('h, 'd) grub_device option \<Rightarrow> 'h dstate \<Rightarrow> (grub_err_t \<times> 'h dstate) option" where
  "grub_device_close device st =
     (case device of
        None \<Rightarrow> Some (GRUB_ERR_NONE, st)
      | Some dev \<Rightarrow>
          do { st1 \<leftarrow> (case gd_disk dev of None \<Rightarrow> Some st | Some d \<Rightarrow> grub_disk_close d st);
               Some (d_errno st1, st1) })"

subsection \<open>Listing disks and partitions\<close>

text \<open>The hook that collects the names of the partitions, the last one first.\<close>

definition iterate_partition :: "('h, string list) chain_hook" where
  "iterate_partition part ents ps =
     (case p_malloc ps of
        (False, ps1) \<Rightarrow> Some (True, ents, ps1)
      | (True, ps1) \<Rightarrow>
          (case grub_partition_get_name part ps1 of
             (None, ps2) \<Rightarrow> Some (True, ents, ps2)
           | (Some part_name, ps2) \<Rightarrow>
               (case grub_xasprintf (disk_name (ps_disk ps2) @ CHR '','' # part_name) (ps_dst ps2) of
                  (None, st) \<Rightarrow> Some (True, ents, ps2\<lparr> ps_dst := st \<rparr>)
                | (Some text, st) \<Rightarrow> Some (False, text # ents, ps2\<lparr> ps_dst := st \<rparr>))))"

text \<open>The hook is called for the names until it answers true.\<close>

fun report_ents :: "('h, 'd) name_hook \<Rightarrow> string list \<Rightarrow> 'd \<Rightarrow> 'h dstate \<Rightarrow> (bool \<times> 'd \<times> 'h dstate) option" where
  "report_ents hook [] d st = Some (False, d, st)"
| "report_ents hook (p # ps) d st =
     do { (ret, d1, st1) \<leftarrow> hook p d st;
          if ret then Some (True, d1, st1) else report_ents hook ps d1 st1 }"

text \<open>
  \<open>walk\<close> gives the partition maps at the type of the walk, \<open>maps\<close> those at the type of the lookup;
  both are the registered ones. A disk without a driver is a null pointer that is followed, \<open>None\<close>.
\<close>

definition iterate_disk :: "('h part_read \<Rightarrow> ('h, bool \<times> string list) partmaps)
    \<Rightarrow> ('h part_read \<Rightarrow> ('h, grub_partition option) partmaps) \<Rightarrow> ('h, 'd) disk_dev list \<Rightarrow> ('h, 'd) name_hook
    \<Rightarrow> ('h, 'd) name_hook" where
  "iterate_disk walk maps devs hook name d st =
     do { (stop, d1, st1) \<leftarrow> hook name d st;
          if stop then Some (True, d1, st1)
          else do { (dev, st2) \<leftarrow> grub_device_open maps devs None (Some name) st1;
            case dev of
              None \<Rightarrow> Some (False, d1, set_errno GRUB_ERR_NONE st2)
            | Some device \<Rightarrow>
                (case gd_disk device of
                   None \<Rightarrow> do { (_, st3) \<leftarrow> grub_device_close dev st2; Some (False, d1, st3) }
                 | Some disk \<Rightarrow>
                     do { ((_, ents), ps) \<leftarrow>
                            (case od_dev disk of
                               None \<Rightarrow> None
                             | Some drv \<Rightarrow>
                                 grub_partition_iterate 0 (walk (disk_reader (dev_read drv) None)) iterate_partition []
                                   \<lparr> ps_disk = od_disk disk, ps_dst = st2 \<rparr>);
                          (_, st3) \<leftarrow> grub_device_close (Some (device\<lparr> gd_disk := Some (disk\<lparr> od_disk := ps_disk ps \<rparr>) \<rparr>)) (ps_dst ps);
                          report_ents hook ents d1 (set_errno GRUB_ERR_NONE st3) }) } }"

definition grub_device_iterate :: "('h part_read \<Rightarrow> ('h, bool \<times> string list) partmaps)
    \<Rightarrow> ('h part_read \<Rightarrow> ('h, grub_partition option) partmaps) \<Rightarrow> ('h, 'd) disk_dev list \<Rightarrow> ('h, 'd) name_hook
    \<Rightarrow> 'd \<Rightarrow> 'h dstate \<Rightarrow> (bool \<times> 'd \<times> 'h dstate) option" where
  "grub_device_iterate walk maps devs hook =
     grub_disk_dev_iterate (iterate_disk walk maps devs hook) devs"

end
