(* ===== verification/Fs.thy ===== *)
theory Fs
  imports Device File
begin

text \<open>
  File systems (\<open>grub/grub-core/kern/fs.c\<close>): the record of a file system's entry points, the probe
  that finds the file system of a device, and block lists, the files that are given by ranges of
  sectors. The entry points of the file systems are function pointers, so they are parameters; a
  call is partial, \<open>None\<close> does not return. The hook that loads modules is null in this program.
\<close>

record grub_dirhook_info =
  di_dir :: bool
  di_symlink :: bool
  di_mtimeset :: bool
  di_case_insensitive :: bool
  di_inodeset :: bool
  di_sizeset :: bool
  di_mtime :: "64 word"
  di_inode :: u64
  di_size :: u64

text \<open>The private data of a file: none yet, the blocks of a block list, or a file system's own.\<close>

datatype 'd file_priv = No_Data | Blocks "(u64 \<times> u64) list" | Fs_Data 'd

type_synonym 'd fs_file = "'d file_priv grub_file"

type_synonym 'h dir_hook = "string \<Rightarrow> grub_dirhook_info \<Rightarrow> 'h dstate \<Rightarrow> (bool \<times> 'h dstate) option"

text \<open>The entry points; a file is passed together with its member \<open>device\<close>, which may be null.\<close>

record ('h, 'd, 'e) grub_fs =
  fs_name :: string
  fs_dir :: "('h, 'e) grub_device \<Rightarrow> string \<Rightarrow> 'h dir_hook \<Rightarrow> 'h dstate \<Rightarrow> (grub_err_t \<times> 'h dstate) option"
  fs_open :: "('h, 'e) grub_device option \<Rightarrow> 'd fs_file \<Rightarrow> string \<Rightarrow> 'h dstate \<Rightarrow> (grub_err_t \<times> 'd fs_file \<times> 'h dstate) option"
  fs_read :: "('h, 'e) grub_device option \<Rightarrow> 'd fs_file \<Rightarrow> u64 \<Rightarrow> 'h dstate \<Rightarrow> ((int \<times> bytes) \<times> 'h dstate) option"
  fs_close :: "(('h, 'e) grub_device option \<Rightarrow> 'd fs_file \<Rightarrow> 'h dstate \<Rightarrow> (grub_err_t \<times> 'd fs_file \<times> 'h dstate) option) option"
  fs_label :: "(('h, 'e) grub_device \<Rightarrow> 'h dstate \<Rightarrow> ((grub_err_t \<times> string option) \<times> 'h dstate) option) option"
  fs_uuid :: "(('h, 'e) grub_device \<Rightarrow> 'h dstate \<Rightarrow> ((grub_err_t \<times> string option) \<times> 'h dstate) option) option"

definition grub_fs_register :: "('h, 'd, 'e) grub_fs \<Rightarrow> ('h, 'd, 'e) grub_fs list \<Rightarrow> ('h, 'd, 'e) grub_fs list" where
  "grub_fs_register fs fss = grub_list_push fss fs"

subsection \<open>Probing\<close>

definition probe_dummy_iter :: "'h dir_hook" where
  "probe_dummy_iter filename info st = Some (True, st)"

text \<open>
  The loop over the registered file systems. A refusal is one of two errors, which is dropped;
  every other error ends the probe.
\<close>

fun probe_fs :: "('h, 'd, 'e) grub_fs list \<Rightarrow> ('h, 'e) grub_device \<Rightarrow> 'h dstate
    \<Rightarrow> (('h, 'd, 'e) grub_fs option \<times> 'h dstate) option" where
  "probe_fs [] device st = Some (None, raise_error GRUB_ERR_UNKNOWN_FS ''unknown filesystem'' st)"
| "probe_fs (p # ps) device st =
     do { (_, st1) \<leftarrow> fs_dir p device ''/'' probe_dummy_iter st;
          if d_errno st1 = GRUB_ERR_NONE then Some (Some p, st1)
          else let st2 = push_pop_error st1
            in if d_errno st2 \<noteq> GRUB_ERR_BAD_FS \<and> d_errno st2 \<noteq> GRUB_ERR_OUT_OF_RANGE then Some (None, st2)
               else probe_fs ps device (set_errno GRUB_ERR_NONE st2) }"

definition grub_fs_probe :: "('h, 'd, 'e) grub_fs list \<Rightarrow> ('h, 'e) grub_device \<Rightarrow> 'h dstate
    \<Rightarrow> (('h, 'd, 'e) grub_fs option \<times> 'h dstate) option" where
  "grub_fs_probe fss device st =
     (if gd_disk device \<noteq> None then probe_fs fss device st
      else Some (None, raise_error GRUB_ERR_UNKNOWN_FS ''unknown filesystem'' st))"

subsection \<open>Block lists\<close>

text \<open>The number of blocks: one more than the commas.\<close>

fun count_blocks :: "string \<Rightarrow> nat" where
  "count_blocks [] = 1"
| "count_blocks (c # cs) = (if c = CHR '','' then Suc (count_blocks cs) else count_blocks cs)"

text \<open>A number of the list: the parser's error is raised in the state.\<close>

definition parse_num :: "string \<Rightarrow> 'h dstate \<Rightarrow> u64 \<times> string \<times> 'h dstate" where
  "parse_num p st =
     (case grub_strtoull p 0 of (e, n, rest) \<Rightarrow>
        (n, rest, if e = GRUB_ERR_NONE then st else raise_error e ''unrecognized number'' st))"

definition starts_with :: "char \<Rightarrow> string \<Rightarrow> bool" where
  "starts_with c s \<longleftrightarrow> s \<noteq> [] \<and> hd s = c"

text \<open>The offset of a block and the rest behind it, which starts with the plus sign; \<open>Inl\<close> is an error.\<close>

definition parse_offset :: "string \<Rightarrow> 'h dstate \<Rightarrow> (unit + u64 \<times> string) \<times> 'h dstate" where
  "parse_offset p st =
     (if starts_with (CHR ''+'') p then (Inr (0, p), st)
      else case parse_num p st of (n, rest, st1) \<Rightarrow>
        if d_errno st1 \<noteq> GRUB_ERR_NONE \<or> \<not> starts_with (CHR ''+'') rest
        then (Inl (), raise_error GRUB_ERR_BAD_FILENAME ''invalid file name'' st1)
        else (Inr (n, rest), st1))"

definition parse_length :: "u64 \<Rightarrow> u64 \<Rightarrow> string \<Rightarrow> 'h dstate \<Rightarrow> (unit + u64 \<times> string) \<times> 'h dstate" where
  "parse_length max_sectors off p st =
     (let (n, rest, st1) = (if p = [] \<or> hd p = CHR '','' then (max_sectors - off, p, st) else parse_num p st)
      in if d_errno st1 \<noteq> GRUB_ERR_NONE \<or> n = 0 \<or> (rest \<noteq> [] \<and> hd rest \<noteq> CHR '','' \<and> \<not> grub_isspace (hd rest))
         then (Inl (), raise_error GRUB_ERR_BAD_FILENAME ''invalid file name'' st1)
         else if max_sectors < off + n
         then (Inl (), raise_error GRUB_ERR_BAD_FILENAME ''beyond the total sectors'' st1)
         else (Inr (n, rest), st1))"

text \<open>The loop over the blocks: the blocks and the size of the file.\<close>

fun parse_blocks :: "nat \<Rightarrow> u64 \<Rightarrow> string \<Rightarrow> (u64 \<times> u64) list \<Rightarrow> u64 \<Rightarrow> 'h dstate
    \<Rightarrow> (unit + (u64 \<times> u64) list) \<times> u64 \<times> 'h dstate" where
  "parse_blocks 0 max_sectors p blocks fsize st = (Inr blocks, fsize, st)"
| "parse_blocks (Suc num) max_sectors p blocks fsize st =
     (case parse_offset p st of
        (Inl _, st1) \<Rightarrow> (Inl (), fsize, st1)
      | (Inr (off, rest), st1) \<Rightarrow>
          (case parse_length max_sectors off (tl rest) st1 of
             (Inl _, st2) \<Rightarrow> (Inl (), fsize, st2)
           | (Inr (n, rest2), st2) \<Rightarrow>
               parse_blocks num max_sectors (tl rest2) (blocks @ [(off, n)])
                 (fsize + push_bit GRUB_DISK_SECTOR_BITS n) st2))"

text \<open>\<open>grub_calloc\<close> of the list; when it is refused the result is zero and the file has no data.\<close>

definition grub_fs_blocklist_open :: "('h, 'e) grub_device option \<Rightarrow> 'd fs_file \<Rightarrow> string \<Rightarrow> 'h dstate
    \<Rightarrow> (grub_err_t \<times> 'd fs_file \<times> 'h dstate) option" where
  "grub_fs_blocklist_open device file name st =
     do { dev \<leftarrow> device; disk \<leftarrow> gd_disk dev;
          Some (case grub_malloc st of
             (False, st1) \<Rightarrow> (GRUB_ERR_NONE, file, st1)
           | (True, st1) \<Rightarrow>
               (case parse_blocks (count_blocks name)
                       (grub_disk_from_native_sector (od_disk disk) (disk_total_sectors (od_disk disk))) name [] 0 st1 of
                  (Inl _, fsize, st2) \<Rightarrow> (d_errno st2, file\<lparr> file_size := fsize \<rparr>, st2)
                | (Inr blocks, fsize, st2) \<Rightarrow>
                    (GRUB_ERR_NONE, file\<lparr> file_size := fsize, file_data := Blocks blocks \<rparr>, st2))) }"

text \<open>Storing bytes at the start of the caller's buffer.\<close>

definition store_at_start :: "bytes \<Rightarrow> bytes \<Rightarrow> bytes" where
  "store_at_start new buf = new @ drop (length new) buf"

text \<open>The bytes taken from one block.\<close>

definition block_take :: "u64 \<Rightarrow> u64 \<Rightarrow> u64 \<Rightarrow> u64 \<Rightarrow> u64" where
  "block_take n sector offset len =
     (if drop_bit GRUB_DISK_SECTOR_BITS (len + offset + 512 - 1) > n - sector
      then push_bit GRUB_DISK_SECTOR_BITS (n - sector) - offset else len)"

text \<open>The loop over the blocks, up to the one of length zero; every read starts at the start of the buffer.\<close>

fun read_blocks :: "(u64 \<Rightarrow> u64 \<Rightarrow> u64 \<Rightarrow> 'h dstate \<Rightarrow> ((grub_err_t \<times> bytes) \<times> 'h dstate) option) \<Rightarrow> (u64 \<times> u64) list
    \<Rightarrow> u64 \<Rightarrow> u64 \<Rightarrow> u64 \<Rightarrow> u64 \<Rightarrow> bytes \<Rightarrow> 'h dstate \<Rightarrow> ((int \<times> bytes) \<times> 'h dstate) option" where
  "read_blocks rd [] sector offset len ret buf st = Some ((sint ret, buf), st)"
| "read_blocks rd ((off, n) # blocks) sector offset len ret buf st =
     (if n = 0 \<or> len = 0 then Some ((sint ret, buf), st)
      else if sector < n then
        (let sz = block_take n sector offset len
         in do { ((e, new), st1) \<leftarrow> rd (off + sector) offset sz st;
                 if e \<noteq> GRUB_ERR_NONE then Some ((-1, store_at_start new buf), st1)
                 else read_blocks rd blocks (sector - drop_bit GRUB_DISK_SECTOR_BITS (sz + offset))
                        ((sz + offset) AND (512 - 1)) (len - sz) (ret + sz) (store_at_start new buf) st1 })
      else read_blocks rd blocks (sector - n) offset len ret buf st)"

text \<open>
  The hook of the file is installed on the disk for the time of the read; \<open>hook_of\<close> gives the
  function behind the pair of pointers.
\<close>

definition grub_fs_blocklist_read :: "(nat option \<Rightarrow> nat option \<Rightarrow> 'h read_hook option) \<Rightarrow> ('h, 'e) grub_device option \<Rightarrow> 'd fs_file
    \<Rightarrow> u64 \<Rightarrow> 'h dstate \<Rightarrow> ((int \<times> bytes) \<times> 'h dstate) option" where
  "grub_fs_blocklist_read hook_of device file len st =
     do { dev \<leftarrow> device; disk \<leftarrow> gd_disk dev;
          drv \<leftarrow> od_dev disk;
          blocks \<leftarrow> (case file_data file of Blocks bs \<Rightarrow> Some bs | _ \<Rightarrow> None);
          let len1 = (if len > file_size file - file_offset file then file_size file - file_offset file else len);
          read_blocks (grub_disk_read (dev_read drv) (hook_of (file_read_hook file) (file_read_hook_data file)) (od_disk disk))
            blocks (drop_bit GRUB_DISK_SECTOR_BITS (file_offset file)) (file_offset file AND (512 - 1)) len1 0 [] st }"

definition grub_fs_blocklist_close :: "('h, 'e) grub_device option \<Rightarrow> 'd fs_file \<Rightarrow> 'h dstate
    \<Rightarrow> (grub_err_t \<times> 'd fs_file \<times> 'h dstate) option" where
  "grub_fs_blocklist_close device file st = Some (GRUB_ERR_NONE, file\<lparr> file_data := No_Data \<rparr>, st)"

text \<open>Its \<open>fs_dir\<close> is null: calling it does not return.\<close>

definition grub_fs_blocklist :: "(nat option \<Rightarrow> nat option \<Rightarrow> 'h read_hook option) \<Rightarrow> ('h, 'd, 'e) grub_fs" where
  "grub_fs_blocklist hook_of = \<lparr> fs_name = ''blocklist'', fs_dir = (\<lambda>_ _ _ _. None), fs_open = grub_fs_blocklist_open,
     fs_read = grub_fs_blocklist_read hook_of, fs_close = Some grub_fs_blocklist_close,
     fs_label = None, fs_uuid = None \<rparr>"

end
