(* ===== verification/File_Open.thy ===== *)
theory File_Open
  imports Fs
begin

text \<open>
  Opening and closing files (\<open>grub_file_open\<close>, \<open>grub_file_close\<close> in
  \<open>grub/grub-core/kern/file.c\<close>): the device, the file system and the filters that unpack a file.
  File systems, filters and the environment variable \<open>root\<close> are parameters. The reference counts of
  modules are omitted: file systems and filters are linked into the program.
\<close>

record ('h, 'd, 'e) open_file =
  of_file :: "'d fs_file"
  of_device :: "('h, 'e) grub_device option"
  of_fs :: "('h, 'd, 'e) grub_fs"
  of_type :: nat

text \<open>A filter gives no file, the file it was called with, or a new one on top of it.\<close>

datatype 'f filter_result = Filter_Null | Filter_Same 'f | Filter_New 'f

type_synonym ('h, 'd, 'e) file_filter =
  "('h, 'd, 'e) open_file \<Rightarrow> nat \<Rightarrow> 'h dstate \<Rightarrow> (('h, 'd, 'e) open_file filter_result \<times> 'h dstate) option"

definition grub_file_filter_register :: "nat \<Rightarrow> ('h, 'd, 'e) file_filter \<Rightarrow> ('h, 'd, 'e) file_filter option list
    \<Rightarrow> ('h, 'd, 'e) file_filter option list" where
  "grub_file_filter_register i f filters = filters[i := Some f]"

definition grub_file_filter_unregister :: "nat \<Rightarrow> ('h, 'd, 'e) file_filter option list \<Rightarrow> ('h, 'd, 'e) file_filter option list" where
  "grub_file_filter_unregister i filters = filters[i := None]"

definition grub_file_close :: "('h, 'd, 'e) open_file \<Rightarrow> 'h dstate \<Rightarrow> (grub_err_t \<times> 'h dstate) option" where
  "grub_file_close f st =
     do { st1 \<leftarrow> (case fs_close (of_fs f) of
                     None \<Rightarrow> Some st
                   | Some close \<Rightarrow> map_option (\<lambda>(_, _, s). s) (close (of_device f) (of_file f) st));
          st2 \<leftarrow> (case of_device f of
                     None \<Rightarrow> Some st1
                   | Some dev \<Rightarrow> map_option snd (grub_device_close (Some dev) st1));
          Some (d_errno st2, st2) }"

text \<open>A name whose copy was refused is the null pointer, the empty name here.\<close>

definition with_name :: "string option \<Rightarrow> ('h, 'd, 'e) open_file \<Rightarrow> ('h, 'd, 'e) open_file" where
  "with_name name f = f\<lparr> of_file := (of_file f)\<lparr> file_name := (case name of None \<Rightarrow> [] | Some n \<Rightarrow> n) \<rparr> \<rparr>"

fun run_filters :: "('h, 'd, 'e) file_filter option list \<Rightarrow> nat \<Rightarrow> string \<Rightarrow> ('h, 'd, 'e) open_file \<Rightarrow> 'h dstate
    \<Rightarrow> (('h, 'd, 'e) open_file option \<times> 'h dstate) option" where
  "run_filters [] ty name file st = Some (Some (file\<lparr> of_type := ty \<rparr>), st)"
| "run_filters (None # fs) ty name file st = run_filters fs ty name file st"
| "run_filters (Some f # fs) ty name file st =
     do { (r, st1) \<leftarrow> f file ty st;
          case r of
            Filter_Null \<Rightarrow> do { (_, st2) \<leftarrow> grub_file_close file st1; Some (None, st2) }
          | Filter_Same file1 \<Rightarrow> run_filters fs ty name file1 st1
          | Filter_New file1 \<Rightarrow>
              (case grub_strdup name st1 of
                 (nm, st2) \<Rightarrow> run_filters fs ty name (with_name nm file1) (set_errno GRUB_ERR_NONE st2)) }"

definition fresh_file :: "'d fs_file" where
  "fresh_file = \<lparr> file_name = [], file_offset = 0, progress_offset = 0, file_size = 0, file_not_easily_seekable = False,
     file_data = No_Data, file_read_hook = None, file_read_hook_data = None \<rparr>"

text \<open>The label \<open>fail\<close> once there is a device.\<close>

definition open_failed :: "('h, 'e) grub_device \<Rightarrow> 'h dstate \<Rightarrow> (('h, 'd, 'e) open_file option \<times> 'h dstate) option" where
  "open_failed dev st = do { (_, st1) \<leftarrow> grub_device_close (Some dev) st; Some (None, st1) }"

text \<open>Block lists are the names without a leading slash, on all disks but the one called \<open>host\<close>.\<close>

definition names_blocks :: "('h, 'e) grub_device \<Rightarrow> string \<Rightarrow> bool" where
  "names_blocks dev fname \<longleftrightarrow>
     (case gd_disk dev of
        None \<Rightarrow> False
      | Some d \<Rightarrow> \<not> starts_with (CHR ''/'') fname \<and> grub_strcmp (disk_name (od_disk d)) ''host'' \<noteq> 0)"

text \<open>The opening on a device: the file system, its \<open>fs_open\<close>, the filters.\<close>

definition open_with_fs :: "('h, 'd, 'e) grub_fs \<Rightarrow> ('h, 'd, 'e) file_filter option list \<Rightarrow> ('h, 'e) grub_device \<Rightarrow> string \<Rightarrow> nat
    \<Rightarrow> 'h dstate \<Rightarrow> (('h, 'd, 'e) open_file option \<times> 'h dstate) option" where
  "open_with_fs fs filters dev name ty st =
     do { (e, file, st1) \<leftarrow> fs_open fs (Some dev) fresh_file (file_part name) st;
          if e \<noteq> GRUB_ERR_NONE \<or> file_data file = No_Data then open_failed dev st1
          else case grub_strdup name st1 of
            (nm, st2) \<Rightarrow>
              run_filters filters ty name
                (with_name nm \<lparr> of_file = file, of_device = Some dev, of_fs = fs, of_type = 0 \<rparr>)
                (set_errno GRUB_ERR_NONE st2) }"

definition open_on_device :: "('h, 'd, 'e) grub_fs list \<Rightarrow> (nat option \<Rightarrow> nat option \<Rightarrow> 'h read_hook option)
    \<Rightarrow> ('h, 'd, 'e) file_filter option list \<Rightarrow> ('h, 'e) grub_device \<Rightarrow> string \<Rightarrow> nat \<Rightarrow> 'h dstate
    \<Rightarrow> (('h, 'd, 'e) open_file option \<times> 'h dstate) option" where
  "open_on_device fss hook_of filters dev name ty st =
     (case grub_malloc st of
        (False, st1) \<Rightarrow> open_failed dev st1
      | (True, st1) \<Rightarrow>
          if names_blocks dev (file_part name) then open_with_fs (grub_fs_blocklist hook_of) filters dev name ty st1
          else do { (fs, st2) \<leftarrow> grub_fs_probe fss dev st1;
                    case fs of
                      None \<Rightarrow> open_failed dev st2
                    | Some f \<Rightarrow> open_with_fs f filters dev name ty st2 })"

definition grub_file_open :: "('h part_read \<Rightarrow> ('h, grub_partition option) partmaps) \<Rightarrow> ('h, 'e) disk_dev list
    \<Rightarrow> string option \<Rightarrow> ('h, 'd, 'e) grub_fs list \<Rightarrow> (nat option \<Rightarrow> nat option \<Rightarrow> 'h read_hook option)
    \<Rightarrow> ('h, 'd, 'e) file_filter option list \<Rightarrow> string \<Rightarrow> nat \<Rightarrow> 'h dstate
    \<Rightarrow> (('h, 'd, 'e) open_file option \<times> 'h dstate) option" where
  "grub_file_open maps devs root fss hook_of filters name ty st =
     (case grub_file_get_device_name name (set_errno GRUB_ERR_NONE st) of
        (device_name, st1) \<Rightarrow>
          if d_errno st1 \<noteq> GRUB_ERR_NONE then Some (None, st1)
          else do { (device, st2) \<leftarrow> grub_device_open maps devs root device_name st1;
                    case device of
                      None \<Rightarrow> Some (None, st2)
                    | Some dev \<Rightarrow> open_on_device fss hook_of filters dev name ty st2 })"

end
