(* ===== verification/Loopback_Correct.thy ===== *)
theory Loopback_Correct
  imports Loopback
begin

text \<open>
  The life of loopback devices as a state machine: devices are made and deleted by the command and
  opened and closed as disks. In every reachable state names and ids are distinct and the reference
  count of a device is the number of its open disks, so that an open disk always has its device.
\<close>

subsection \<open>Steps\<close>

text \<open>
  A state with the ids of the open disks. Opening the backing file and closing it are calls that
  leave the list of loopback devices alone; \<open>step_other\<close> stands for all code that does. Fewer than
  \<open>2 ^ 64\<close> devices are made in a run.
\<close>

definition loops_kept :: "'d lstate \<Rightarrow> 'd lstate \<Rightarrow> bool" where
  "loops_kept st st' \<longleftrightarrow> d_ext st' = d_ext st"

inductive loop_step :: "'d lstate \<times> u64 list \<Rightarrow> 'd lstate \<times> u64 list \<Rightarrow> bool" where
  step_open: "grub_loopback_open name disk st = Some (GRUB_ERR_NONE, disk', st') \<Longrightarrow>
    loop_step (st, opened) (st', disk_id disk' # opened)"
| step_close: "disk_id disk \<in> set opened \<Longrightarrow> grub_loopback_close disk st = Some st' \<Longrightarrow>
    loop_step (st, opened) (st', remove1 (disk_id disk) opened)"
| step_command: "(\<And>path flag s. loops_kept s (snd (file_open path flag s))) \<Longrightarrow> (\<And>f s. loops_kept s (file_close f s)) \<Longrightarrow>
    last_id (d_ext st) \<noteq> 0xffffffffffffffff \<Longrightarrow>
    grub_cmd_loopback file_open file_close del dec args st = (e, st') \<Longrightarrow> loop_step (st, opened) (st', opened)"
| step_other: "loops_kept st st' \<Longrightarrow> loop_step (st, opened) (st', opened)"

definition loops_inv :: "'d loop_state \<Rightarrow> u64 list \<Rightarrow> bool" where
  "loops_inv ls opened \<longleftrightarrow>
     distinct (map lb_devname (loopback_list ls)) \<and> distinct (map lb_id (loopback_list ls)) \<and>
     (\<forall>dev \<in> set (loopback_list ls). lb_id dev < last_id ls \<and> unat (lb_refcnt dev) = count_list opened (lb_id dev)) \<and>
     set opened \<subseteq> lb_id ` set (loopback_list ls)"

definition loop_start :: "'d lstate \<Rightarrow> bool" where
  "loop_start st \<longleftrightarrow> loopback_list (d_ext st) = []"

definition loop_reachable :: "'d lstate \<times> u64 list \<Rightarrow> bool" where
  "loop_reachable x \<longleftrightarrow> (\<exists>st0. loop_start st0 \<and> loop_step\<^sup>*\<^sup>* (st0, []) x)"

subsection \<open>The invariant\<close>

lemma find_loop_inv:
  assumes "loops_inv ls opened" and "i \<in> set opened"
  obtains dev where "find_loop i (loopback_list ls) = Some dev" "0 < lb_refcnt dev" "dev \<in> set (loopback_list ls)" "lb_id dev = i"
proof -
  obtain dev where d: "dev \<in> set (loopback_list ls)" "lb_id dev = i" using assms by (auto simp: loops_inv_def)
  moreover have "find_loop i (loopback_list ls) = Some dev"
    using find_loop_distinct [OF _ d(1)] d(2) assms(1) by (simp add: loops_inv_def)
  moreover have "count_list opened i \<noteq> 0" using assms(2) by (simp add: count_list_0_iff)
  then have "0 < lb_refcnt dev" using assms(1) d by (auto simp: loops_inv_def word_less_nat_alt)
  ultimately show ?thesis using that by blast
qed

lemma update_loop_map:
  "distinct (map lb_id l) \<Longrightarrow> update_loop i f l = map (\<lambda>d. if lb_id d = i then f d else d) l"
proof (induction l)
  case (Cons d l)
  have "map (\<lambda>d. if lb_id d = i then f d else d) l = l" if "lb_id d = i"
    by (rule map_idI) (use Cons.prems that in \<open>auto intro: rev_image_eqI\<close>)
  then show ?case using Cons by simp
qed simp

text \<open>Changing the count of one device.\<close>

lemma update_count_inv:
  assumes inv: "loops_inv ls opened" and dev: "find_loop i (loopback_list ls) = Some dev"
    and count: "unat r = count_list opened' i" "\<And>j. j \<noteq> i \<Longrightarrow> count_list opened' j = count_list opened j"
    and sub: "set opened' \<subseteq> insert i (set opened)"
  shows "loops_inv (ls\<lparr> loopback_list := update_loop i (\<lambda>d. d\<lparr> lb_refcnt := r \<rparr>) (loopback_list ls) \<rparr>) opened'"
proof -
  let ?l = "loopback_list ls" and ?f = "\<lambda>d. d\<lparr> lb_refcnt := r \<rparr>"
  have ids: "map lb_id (update_loop i ?f ?l) = map lb_id ?l" "map lb_devname (update_loop i ?f ?l) = map lb_devname ?l"
    by (simp_all add: map_update_loop)
  have d: "distinct (map lb_id ?l)" using inv by (simp add: loops_inv_def)
  have el: "lb_id d < last_id ls \<and> unat (lb_refcnt d) = count_list opened' (lb_id d)"
    if "d \<in> set (update_loop i ?f ?l)" for d
    using that inv count unfolding update_loop_map [OF d] by (fastforce simp: loops_inv_def)
  have "i \<in> lb_id ` set ?l" using find_loop_in [OF dev] by auto
  moreover have "lb_id ` set (update_loop i ?f ?l) = lb_id ` set ?l" using ids(1) by (metis set_map)
  ultimately show ?thesis
    using inv el sub ids by (auto simp: loops_inv_def)
qed

lemma open_inv:
  assumes inv: "loops_inv (d_ext st) opened" and run: "grub_loopback_open name disk st = Some (GRUB_ERR_NONE, disk', st')"
  shows "loops_inv (d_ext st') (disk_id disk' # opened)"
proof -
  obtain dev r where dev: "find_name name (loopback_list (d_ext st)) = Some dev" "grub_add (lb_refcnt dev) 1 = Some r"
    and st': "disk_id disk' = lb_id dev"
      "st' = set_list (update_loop (lb_id dev) (\<lambda>d. d\<lparr> lb_refcnt := r \<rparr>) (loopback_list (d_ext st))) st"
    using run by (auto simp: grub_loopback_open_def split: option.splits)
  have m: "dev \<in> set (loopback_list (d_ext st))" using find_name_in [OF dev(1)] by simp
  then have f: "find_loop (lb_id dev) (loopback_list (d_ext st)) = Some dev"
    using inv by (intro find_loop_distinct) (simp_all add: loops_inv_def)
  have r: "unat r = Suc (count_list opened (lb_id dev))"
    using dev(2) m inv by (auto simp: grub_add_Some loops_inv_def)
  show ?thesis
    unfolding st' by (simp, rule update_count_inv [OF inv f]) (auto simp: r)
qed

lemma count_remove1: "count_list (remove1 x xs) y = count_list xs y - (if x = y then 1 else 0)"
  by (induction xs) (auto simp: count_list_0_iff)

lemma close_inv:
  assumes inv: "loops_inv (d_ext st) opened" and mem: "disk_id disk \<in> set opened"
  shows "\<exists>st'. grub_loopback_close disk st = Some st' \<and> loops_inv (d_ext st') (remove1 (disk_id disk) opened)"
proof -
  obtain dev where dev: "find_loop (disk_id disk) (loopback_list (d_ext st)) = Some dev" "0 < lb_refcnt dev"
      "dev \<in> set (loopback_list (d_ext st))" "lb_id dev = disk_id disk"
    by (rule find_loop_inv [OF inv mem])
  have pos: "0 < unat (lb_refcnt dev)" using dev(2) by (simp add: word_less_nat_alt)
  then have "grub_sub (lb_refcnt dev) 1 \<noteq> None" by (simp add: grub_sub_def word_le_nat_alt)
  then obtain r where r: "grub_sub (lb_refcnt dev) 1 = Some r" by blast
  then have u: "unat r = unat (lb_refcnt dev) - 1" by (simp add: grub_sub_Some)
  have n: "unat (lb_refcnt dev) = count_list opened (disk_id disk)" 
    unfolding dev(4) [symmetric] using inv dev(3) by (simp add: loops_inv_def)
  have c: "unat r = count_list (remove1 (disk_id disk) opened) (disk_id disk)"
    by (simp add: u n count_remove1)
  have o: "count_list (remove1 (disk_id disk) opened) j = count_list opened j" if "j \<noteq> disk_id disk" for j
    using that by (simp add: count_remove1)
  have sub: "set (remove1 (disk_id disk) opened) \<subseteq> insert (disk_id disk) (set opened)"
    by (rule subset_trans [OF set_remove1_subset subset_insertI])
  show ?thesis
    using update_count_inv [OF inv dev(1) c o sub] dev(1) r by (simp add: grub_loopback_close_def)
qed

lemma add_inv:
  assumes inv: "loops_inv ls opened" and new: "find_name name (loopback_list ls) = None" and room: "last_id ls \<noteq> 0xffffffffffffffff"
  shows "loops_inv (ls\<lparr> loopback_list := \<lparr> lb_devname = name, lb_file = f, lb_id = last_id ls, lb_refcnt = 0 \<rparr> # loopback_list ls,
    last_id := last_id ls + 1 \<rparr>) opened"
proof -
  have "unat (last_id ls) \<noteq> 2 ^ 64 - 1"
    using room by (auto simp: word_unat_eq_iff)
  then have s: "unat (last_id ls + 1) = Suc (unat (last_id ls))"
    using unsigned_less [of "last_id ls", where 'a = nat] by (subst unat_plus_exact) simp_all
  have "last_id ls \<notin> lb_id ` set (loopback_list ls)" using inv by (auto simp: loops_inv_def)
  then have "last_id ls \<notin> set opened" using inv by (auto simp: loops_inv_def)
  then have "count_list opened (last_id ls) = 0" by (simp add: count_list_0_iff)
  then show ?thesis
    using inv new by (auto simp: loops_inv_def find_name_None word_less_nat_alt s)
qed

lemma delete_inv:
  assumes inv: "loops_inv ls opened" and dev: "find_name name (loopback_list ls) = Some dev" and free: "lb_refcnt dev = 0"
  shows "loops_inv (ls\<lparr> loopback_list := unlink_name name (loopback_list ls) \<rparr>) opened"
proof -
  let ?l = "loopback_list ls"
  have "lb_id dev \<notin> set opened"
    using inv free find_name_in [OF dev] by (auto simp: loops_inv_def count_list_0_iff)
  moreover have "set l \<subseteq> insert dev' (set (unlink_name name l))" if "find_name name l = Some dev'" for l :: "'a grub_loopback list" and dev'
    using that by (induction l) (auto split: if_splits)
  from image_mono [OF this [OF dev], of lb_id] have "set opened \<subseteq> insert (lb_id dev) (lb_id ` set (unlink_name name ?l))"
    using inv unfolding loops_inv_def by blast
  ultimately have "set opened \<subseteq> lb_id ` set (unlink_name name ?l)" by auto
  then show ?thesis
    using inv set_unlink_name [of name ?l] by (auto simp: loops_inv_def distinct_unlink_name)
qed

lemma malloc_kept: "loops_kept st (snd (grub_malloc st))"
  by (simp add: loops_kept_def)

lemma command_inv:
  assumes inv: "loops_inv (d_ext st) opened"
    and file_open: "\<And>path flag s. loops_kept s (snd (file_open path flag s))" and file_close: "\<And>f s. loops_kept s (file_close f s)"
    and room: "last_id (d_ext st) \<noteq> 0xffffffffffffffff"
    and run: "grub_cmd_loopback file_open file_close del dec args st = (e, st')"
  shows "loops_inv (d_ext st') opened"
proof -
  have add: "loops_inv (d_ext (snd (add_loopback file_close name f s))) opened"
    if "d_ext s = d_ext st" "find_name name (loopback_list (d_ext st)) = None" for name f s
  proof -
    obtain b1 s1 b2 s2 where m: "grub_malloc s = (b1, s1)" "grub_malloc s1 = (b2, s2)" by fastforce
    have k: "d_ext s1 = d_ext st" "d_ext s2 = d_ext st"
      using grub_malloc_step(5) [OF m(1)] grub_malloc_step(5) [OF m(2)] that(1) by simp_all
    show ?thesis
      using k inv add_inv [OF inv that(2) room, of f] file_close
      by (cases b1; cases b2) (simp_all add: add_loopback_def m Let_def loops_kept_def)
  qed
  have del: "loops_inv (d_ext (snd (delete_loopback file_close name st))) opened" for name
  proof (cases "find_name name (loopback_list (d_ext st))")
    case (Some dev)
    then show ?thesis
      using inv delete_inv [OF inv Some] file_close
      by (simp add: delete_loopback_def loops_kept_def raise_error_def word_greater_zero_iff)
  qed (use inv in \<open>simp add: delete_loopback_def raise_error_def\<close>)
  have opened: "d_ext (snd (file_open path flag st)) = d_ext st" for path flag
    using file_open [of st path flag] by (simp add: loops_kept_def)
  have "loops_inv (d_ext (snd (grub_cmd_loopback file_open file_close del dec args st))) opened"
    using inv add [OF opened] del
    by (auto simp: grub_cmd_loopback_def raise_error_def opened [unfolded prod.collapse] split: list.splits option.splits prod.splits)
      (metis opened snd_conv)+
  then show ?thesis by (simp add: run)
qed

lemma step_inv: "loop_step x y \<Longrightarrow> loops_inv (d_ext (fst x)) (snd x) \<Longrightarrow> loops_inv (d_ext (fst y)) (snd y)"
proof (induction rule: loop_step.induct)
  case (step_close disk opened st st')
  then show ?case using close_inv [of st opened disk] by auto
next
  case (step_command file_open file_close st del dec args e st' opened)
  then show ?case using command_inv [of st opened file_open file_close] by simp
qed (auto intro: open_inv simp: loops_kept_def)

lemma reachable_inv: "loop_reachable (st, opened) \<Longrightarrow> loops_inv (d_ext st) opened"
proof -
  have "loop_step\<^sup>*\<^sup>* x y \<Longrightarrow> loops_inv (d_ext (fst x)) (snd x) \<Longrightarrow> loops_inv (d_ext (fst y)) (snd y)" for x y :: "'a lstate \<times> u64 list"
    by (induction rule: rtranclp_induct) (auto intro: step_inv)
  moreover have "loop_start st0 \<Longrightarrow> loops_inv (d_ext st0) []" for st0 :: "'a lstate"
    by (simp add: loop_start_def loops_inv_def)
  ultimately show "loop_reachable (st, opened) \<Longrightarrow> loops_inv (d_ext st) opened"
    by (fastforce simp: loop_reachable_def)
qed

text \<open>A device that is open cannot be deleted.\<close>

lemma delete_refused:
  assumes inv: "loops_inv (d_ext st) opened" and dev: "find_name name (loopback_list (d_ext st)) = Some dev"
    and mem: "lb_id dev \<in> set opened"
  shows "fst (grub_cmd_loopback file_open file_close True dec (name # args) st) = GRUB_ERR_STILL_REFERENCED"
proof -
  have "dev \<in> set (loopback_list (d_ext st))" using find_name_in [OF dev] by simp
  then have "unat (lb_refcnt dev) = count_list opened (lb_id dev)" using inv by (simp add: loops_inv_def)
  moreover have "count_list opened (lb_id dev) \<noteq> 0" using mem by (simp add: count_list_0_iff)
  ultimately have "lb_refcnt dev \<noteq> 0" by auto
  then show ?thesis using dev by (simp add: grub_cmd_loopback_def delete_loopback_def word_greater_zero_iff)
qed

end
