(* ===== verification/Disk_Open_Correct.thy ===== *)
theory Disk_Open_Correct
  imports Disk_Open Loopback_Correct Partition_Walk
begin

text \<open>
  Opening and closing disks, whatever the drivers: the contract of a driver's \<open>disk_open\<close> and
  \<open>disk_close\<close>, what \<open>grub_disk_open\<close> promises over drivers that meet it, and the loopback driver,
  which does. A driver counts the references to its devices; opening and closing balance.
\<close>

context partitioned_device
begin

lemma source: "part_source (disk_reader dread hook) dev_ok (\<lambda>ps. quiet live (ps_dst ps)) (part_image content)"
  by (rule parts.part_source_axioms)

end

subsection \<open>The contract of a driver\<close>

text \<open>The state in which disks are opened.\<close>

definition open_ready :: "content \<Rightarrow> ('h \<Rightarrow> bool) \<Rightarrow> 'h dstate \<Rightarrow> bool" where
  "open_ready content good st \<longleftrightarrow> cache_inv content good st \<and>
     length (error_stack (d_err st)) < GRUB_ERROR_STACK_SIZE \<and>
     Suc (read_recursion_depth st) < MAX_READ_RECURSION_DEPTH"

definition new_disk :: "grub_disk \<Rightarrow> bool" where
  "new_disk disk \<longleftrightarrow> disk_log_sector_size disk = GRUB_DISK_SECTOR_BITS \<and> 0 < disk_max_agglomerate disk \<and>
     disk_partition disk = []"

text \<open>The device behind a disk, and the count of references after an opening or a closing.\<close>

definition disk_key :: "grub_disk \<Rightarrow> u64 \<times> u64" where
  "disk_key disk = (disk_dev_id disk, disk_id disk)"

locale disk_driver =
  fixes dev :: "('h, 'd) disk_dev"
    and content :: content
    and good :: "'h \<Rightarrow> bool"
    and served :: "grub_disk \<Rightarrow> bool"
    and live :: bool
    and held :: "'h \<Rightarrow> u64 \<times> u64 \<Rightarrow> nat"
  assumes reads: "partitioned_device (dev_read dev) content (\<lambda>h. good h \<and> held h = c) served live None"
    and opens: "open_ready content good st \<Longrightarrow> \<forall>k. held (d_ext st) k < 2 ^ 64 - 1 \<Longrightarrow> new_disk disk \<Longrightarrow>
      returns (dev_open dev name disk st) (\<lambda>(e, disk', st'). open_ready content good st' \<and>
        (if e = GRUB_ERR_NONE
         then d_errno st' = d_errno st \<and> served (disk'\<lparr> disk_dev_id := dev_id dev \<rparr>) \<and> disk_partition disk' = [] \<and>
           held (d_ext st') = (held (d_ext st))((dev_id dev, disk_id disk') := Suc (held (d_ext st) (dev_id dev, disk_id disk')))
         else d_errno st' = e \<and> new_disk disk' \<and> held (d_ext st') = held (d_ext st)))"
    and closes: "open_ready content good st \<Longrightarrow> served disk \<Longrightarrow> disk_dev_id disk = dev_id dev \<Longrightarrow>
      0 < held (d_ext st) (disk_key disk) \<Longrightarrow>
      \<exists>f. dev_close dev = Some f \<and> returns (f disk st) (\<lambda>st'. open_ready content good st' \<and>
        d_errno st' = d_errno st \<and> held (d_ext st') = (held (d_ext st))(disk_key disk := held (d_ext st) (disk_key disk) - 1))"

text \<open>The state after a call that opened the disk \<open>d\<close>: one more reference on its device.\<close>

definition disk_opened :: "(('h, 'd) disk_dev \<Rightarrow> grub_disk \<Rightarrow> bool) \<Rightarrow> ('h, 'd) disk_dev list \<Rightarrow> (u64 \<times> u64 \<Rightarrow> nat)
    \<Rightarrow> (u64 \<times> u64 \<Rightarrow> nat) \<Rightarrow> ('h, 'd) open_disk \<Rightarrow> bool" where
  "disk_opened sv devs refs refs' d \<longleftrightarrow> (\<exists>dev \<in> set devs. od_dev d = Some dev \<and> sv dev (od_disk d) \<and>
     disk_dev_id (od_disk d) = dev_id dev \<and>
     refs' = refs(disk_key (od_disk d) := Suc (refs (disk_key (od_disk d)))))"

lemma open_ready_simps [simp]:
  "open_ready c good (st\<lparr> grub_last_time := t \<rparr>) = open_ready c good st"
  "open_ready c good (snd (grub_get_time_ms st)) = open_ready c good st"
  "open_ready c good (raise_error e m st) = open_ready c good st"
  "open_ready c good (set_errno e st) = open_ready c good st"
  "open_ready c good (snd (grub_malloc st)) = open_ready c good st"
  by (simp_all add: open_ready_def cache_inv_def grub_get_time_ms_def)

lemma clock_simps [simp]:
  "d_errno (st\<lparr> grub_last_time := t \<rparr>) = d_errno st" "d_errno (snd (grub_get_time_ms st)) = d_errno st"
  "d_ext (snd (grub_get_time_ms st)) = d_ext st"
  by (simp_all add: grub_get_time_ms_def d_errno_def)

lemma open_ready_push_pop: "open_ready c good st \<Longrightarrow> push_pop_error st = st"
  by (simp add: open_ready_def push_pop_error_id)

lemma invalidate_keeps:
  "open_ready c good st \<Longrightarrow> open_ready c good (grub_disk_cache_invalidate_all st)"
  "d_errno (grub_disk_cache_invalidate_all st) = d_errno st" "d_ext (grub_disk_cache_invalidate_all st) = d_ext st"
  using invalidate_all_inv [of c good st]
  by (simp_all add: open_ready_def d_errno_def grub_disk_cache_invalidate_all_def)

lemma refresh_cache_keeps:
  assumes "open_ready c good st"
  shows "open_ready c good (refresh_cache st)"
    "d_errno (refresh_cache st) = d_errno st" "d_ext (refresh_cache st) = d_ext st"
proof -
  let ?st = "snd (grub_get_time_ms st)"
  have "open_ready c good ?st" using assms by simp_all
  then show "open_ready c good (refresh_cache st)"
    "d_errno (refresh_cache st) = d_errno st" "d_ext (refresh_cache st) = d_ext st"
    by (simp_all add: refresh_cache_def case_prod_unfold invalidate_keeps)
qed

subsection \<open>The search for a driver\<close>

lemma find_driver_ok:
  assumes "\<forall>dev \<in> set devs. disk_driver dev content good (sv dev) live held"
    and "open_ready content good st" "\<forall>k. held (d_ext st) k < 2 ^ 64 - 1" "new_disk disk" "d_errno st = GRUB_ERR_NONE"
  shows "returns (find_driver devs raw name disk st) (\<lambda>(r, disk', st'). open_ready content good st' \<and>
     (case r of
        Inl _ \<Rightarrow> d_errno st' \<noteq> GRUB_ERR_NONE \<and> held (d_ext st') = held (d_ext st)
      | Inr dev \<Rightarrow> d_errno st' = GRUB_ERR_NONE \<and> disk_partition disk' = [] \<and>
          disk_opened sv devs (held (d_ext st)) (held (d_ext st')) \<lparr> od_disk = disk'\<lparr> disk_dev_id := dev_id dev \<rparr>, od_dev = Some dev \<rparr>))"
  using assms
proof (induction devs arbitrary: st disk)
  case Nil
  then show ?case by simp
next
  case (Cons dev devs)
  have "disk_driver dev content good (sv dev) live held" using Cons.prems(1) by simp
  from disk_driver.opens [OF this Cons.prems(2-4), of raw] obtain e disk1 st1
    where run: "dev_open dev raw disk st = Some (e, disk1, st1)"
      and st1: "open_ready content good st1"
      and res: "if e = GRUB_ERR_NONE
         then d_errno st1 = d_errno st \<and> sv dev (disk1\<lparr> disk_dev_id := dev_id dev \<rparr>) \<and> disk_partition disk1 = [] \<and>
           held (d_ext st1) = (held (d_ext st))((dev_id dev, disk_id disk1) := Suc (held (d_ext st) (dev_id dev, disk_id disk1)))
         else d_errno st1 = e \<and> new_disk disk1 \<and> held (d_ext st1) = held (d_ext st)"
    by (auto simp: returns_def)
  show ?case
  proof (cases "e = GRUB_ERR_NONE")
    case True
    then show ?thesis using run st1 res Cons.prems(5) by (simp add: disk_opened_def disk_key_def)
  next
    case False
    let ?st = "set_errno GRUB_ERR_NONE st1"
    have h: "held (d_ext ?st) = held (d_ext st)" "held (d_ext st1) = held (d_ext st)" and e: "d_errno st1 = e" "new_disk disk1" using res False by (simp_all add: set_errno_def)
    have "returns (find_driver devs raw name disk1 ?st) (\<lambda>(r, disk', st'). open_ready content good st' \<and>
     (case r of
        Inl _ \<Rightarrow> d_errno st' \<noteq> GRUB_ERR_NONE \<and> held (d_ext st') = held (d_ext ?st)
      | Inr dev \<Rightarrow> d_errno st' = GRUB_ERR_NONE \<and> disk_partition disk' = [] \<and>
          disk_opened sv devs (held (d_ext ?st)) (held (d_ext st')) \<lparr> od_disk = disk'\<lparr> disk_dev_id := dev_id dev \<rparr>, od_dev = Some dev \<rparr>))"
      by (rule Cons.IH) (use Cons.prems st1 e in \<open>simp_all add: h\<close>)
    then show ?thesis
      using False run st1 e unfolding h(1)
      by (auto simp: h(2) disk_opened_def split: sum.splits elim!: returns_mono)
  qed
qed

subsection \<open>Closing\<close>

lemma disk_close_ok:
  assumes dr: "\<forall>dev \<in> set devs. disk_driver dev content good (sv dev) live held"
    and rdy: "open_ready content good st" and d: "disk_opened sv devs refs (held (d_ext st)) d"
  shows "returns (grub_disk_close d st) (\<lambda>st'. open_ready content good st' \<and>
    d_errno st' = d_errno st \<and> held (d_ext st') = refs)"
proof -
  let ?k = "disk_key (od_disk d)"
  obtain dev where dev: "dev \<in> set devs" "od_dev d = Some dev" "sv dev (od_disk d)" "disk_dev_id (od_disk d) = dev_id dev"
    and h: "held (d_ext st) = refs(?k := Suc (refs ?k))"
    using d by (auto simp: disk_opened_def)
  have "disk_driver dev content good (sv dev) live held" using dr dev(1) by simp
  from disk_driver.closes [OF this rdy dev(3,4)] obtain f
    where "dev_close dev = Some f" "returns (f (od_disk d) st) (\<lambda>st'. open_ready content good st' \<and>
      d_errno st' = d_errno st \<and> held (d_ext st') = refs)"
    by (auto simp: h)
  then show ?thesis by (auto simp: grub_disk_close_def dev(2) returns_def case_prod_unfold)
qed

text \<open>The end of \<open>grub_disk_open\<close>: a disk with its driver, or no driver and an error.\<close>

definition open_outcome :: "content \<Rightarrow> ('h \<Rightarrow> bool) \<Rightarrow> (('h, 'd) disk_dev \<Rightarrow> grub_disk \<Rightarrow> bool) \<Rightarrow> ('h, 'd) disk_dev list
    \<Rightarrow> ('h \<Rightarrow> u64 \<times> u64 \<Rightarrow> nat) \<Rightarrow> bool \<Rightarrow> 'h dstate \<Rightarrow> ('h, 'd) open_disk option \<times> 'h dstate \<Rightarrow> bool" where
  "open_outcome content good sv devs held part st = (\<lambda>(r, st').
     open_ready content good st' \<and>
     (case r of
        None \<Rightarrow> d_errno st' \<noteq> GRUB_ERR_NONE \<and> held (d_ext st') = held (d_ext st)
      | Some d \<Rightarrow> d_errno st' = GRUB_ERR_NONE \<and> disk_opened sv devs (held (d_ext st)) (held (d_ext st')) d \<and>
          (disk_partition (od_disk d) \<noteq> []) = part))"

lemma open_result_ok:
  assumes "\<forall>dev \<in> set devs. disk_driver dev content good (sv dev) live held"
    and "open_ready content good st1" "disk_opened sv devs (held (d_ext st)) (held (d_ext st1)) d"
    and "d_errno st1 = GRUB_ERR_NONE \<Longrightarrow> (disk_partition (od_disk d) \<noteq> []) = part"
  shows "returns (open_result d st1) (open_outcome content good sv devs held part st)"
proof (cases "d_errno st1 = GRUB_ERR_NONE")
  case True
  then show ?thesis using assms by (simp add: open_result_def open_outcome_def)
next
  case False
  from disk_close_ok [OF assms(1-3)] False show ?thesis
    by (auto simp: open_result_def open_outcome_def open_ready_push_pop [OF assms(2)] returns_def)
qed

lemma open_failed_ok:
  assumes "open_ready content good st1" "held (d_ext st1) = held (d_ext st)"
    and "d_errno st1 \<noteq> GRUB_ERR_NONE" "od_dev d = None"
  shows "returns (open_result d st1) (open_outcome content good sv devs held part st)"
  using assms
  by (simp add: open_result_def open_outcome_def open_ready_push_pop [OF assms(1)] grub_disk_close_def case_prod_unfold)

subsection \<open>Opening\<close>

lemma open_partition_ok:
  fixes p0 :: grub_partition
  assumes dr: "\<forall>dev \<in> set devs. disk_driver dev content good (sv dev) live held"
    and st1: "open_ready content good st1" "d_errno st1 = GRUB_ERR_NONE"
    and d: "disk_opened sv devs (held (d_ext st)) (held (d_ext st1)) \<lparr> od_disk = disk, od_dev = Some dev \<rparr>"
    and p: "disk_partition disk = []"
  shows "returns (open_partition (\<lambda>rd. returning_maps rd p0) name dev disk st1)
    (open_outcome content good sv devs held (name \<noteq> None) st)"
proof (cases name)
  case None
  note r = refresh_cache_keeps [OF st1(1)]
  show ?thesis
    unfolding open_partition_def None option.case
    by (rule open_result_ok [OF dr r(1)]) (use r d p in simp_all)
next
  case (Some nm)
  let ?rd = "disk_reader (dev_read dev) None" and ?h = "held (d_ext st1)"
  let ?good = "\<lambda>h. good h \<and> held h = ?h"
  let ?ok = "partitioned_device.dev_ok content ?good (sv dev)"
  let ?ps = "\<lparr> ps_disk = disk, ps_dst = st1 \<rparr>"
  have dev: "dev \<in> set devs" "sv dev disk" "disk_dev_id disk = dev_id dev"
    using d by (auto simp: disk_opened_def)
  then have "disk_driver dev content good (sv dev) live held" using dr by simp
  then have part: "partitioned_device (dev_read dev) content ?good (sv dev) live None" by (rule disk_driver.reads)
  note ok_def = partitioned_device.dev_ok_def [OF part]
  have inv: "cache_inv content ?good s \<longleftrightarrow> cache_inv content good s \<and> held (d_ext s) = ?h" for s
    by (auto simp: cache_inv_def)
  have "?ok ?ps" using st1 dev(2) by (simp add: ok_def inv open_ready_def)
  then have "returns (grub_partition_probe (returning_maps ?rd p0) (Some nm) ?ps)
      (\<lambda>(_, ps). ?ok ps \<and> disk_base ps = disk_base ?ps)"
    by (intro part_source.probe_returns [OF part_source.fixed_disk [OF partitioned_device.source [OF part]]]) simp
  then obtain chain ps where run: "grub_partition_probe (returning_maps ?rd p0) (Some nm) ?ps = Some (chain, ps)"
    and ok: "?ok ps" and base: "disk_base ps = disk_base ?ps" by (auto simp: returns_def)
  let ?d = "\<lparr> od_disk = (ps_disk ps)\<lparr> disk_partition := chain \<rparr>, od_dev = Some dev \<rparr>"
  have rdy: "open_ready content good (ps_dst ps)" "held (d_ext (ps_dst ps)) = ?h"
    using ok by (simp_all add: ok_def inv open_ready_def)
  have "sv dev (od_disk ?d)"
    using ok partitioned_device.served_partition [OF part] by (simp add: ok_def)
  moreover have "disk_dev_id (ps_disk ps) = dev_id dev" "disk_key (od_disk ?d) = disk_key disk"
    using arg_cong [OF base, of disk_dev_id] arg_cong [OF base, of disk_id] dev(3) by (simp_all add: disk_base_def disk_key_def)
  ultimately have opened: "disk_opened sv devs (held (d_ext st)) ?h ?d"
    using d dev(1) by (auto simp: disk_opened_def)
  show ?thesis
  proof (cases "chain = []")
    case True
    let ?st = "raise_error GRUB_ERR_UNKNOWN_DEVICE ''no such partition'' (ps_dst ps)"
    have "returns (open_result ?d ?st) (open_outcome content good sv devs held (name \<noteq> None) st)"
      by (rule open_result_ok [OF dr]) (use rdy opened in simp_all)
    then show ?thesis using run True by (simp add: open_partition_def Some Let_def)
  next
    case False
    note r = refresh_cache_keeps [OF rdy(1)]
    have "returns (open_result ?d (refresh_cache (ps_dst ps))) (open_outcome content good sv devs held (name \<noteq> None) st)"
      by (rule open_result_ok [OF dr r(1)]) (use rdy opened r False Some in simp_all)
    then show ?thesis using run False by (simp add: open_partition_def Some Let_def)
  qed
qed

lemma open_driver_ok:
  assumes dr: "\<forall>dev \<in> set devs. disk_driver dev content good (sv dev) live held"
    and rdy: "open_ready content good st1" "held (d_ext st1) = held (d_ext st)" "d_errno st1 = GRUB_ERR_NONE"
    and room: "\<forall>k. held (d_ext st) k < 2 ^ 64 - 1" and new: "new_disk disk"
  shows "returns (open_driver (\<lambda>rd. returning_maps rd p0) devs name raw part disk st1)
    (open_outcome content good sv devs held (part \<noteq> None) st)"
proof -
  from find_driver_ok [OF dr rdy(1) _ new rdy(3), unfolded rdy(2), OF room, of raw name] obtain r disk' st'
    where run: "find_driver devs raw name disk st1 = Some (r, disk', st')" and st': "open_ready content good st'"
      and res: "case r of
        Inl _ \<Rightarrow> d_errno st' \<noteq> GRUB_ERR_NONE \<and> held (d_ext st') = held (d_ext st)
      | Inr dev \<Rightarrow> d_errno st' = GRUB_ERR_NONE \<and> disk_partition disk' = [] \<and>
          disk_opened sv devs (held (d_ext st)) (held (d_ext st')) \<lparr> od_disk = disk'\<lparr> disk_dev_id := dev_id dev \<rparr>, od_dev = Some dev \<rparr>"
    by (auto simp: returns_def)
  show ?thesis
  proof (cases r)
    case (Inl u)
    have "returns (open_result \<lparr> od_disk = disk', od_dev = None \<rparr> st') (open_outcome content good sv devs held (part \<noteq> None) st)"
      by (rule open_failed_ok) (use st' res Inl in simp_all)
    then show ?thesis by (simp add: open_driver_def run Inl)
  next
    case (Inr dev)
    then have o: "disk_opened sv devs (held (d_ext st)) (held (d_ext st')) \<lparr> od_disk = disk'\<lparr> disk_dev_id := dev_id dev \<rparr>, od_dev = Some dev \<rparr>"
      using res by simp
    then have "dev \<in> set devs" "sv dev (disk'\<lparr> disk_dev_id := dev_id dev \<rparr>)" by (auto simp: disk_opened_def)
    then have "geometry_ok (disk'\<lparr> disk_dev_id := dev_id dev \<rparr>)"
      using disk_driver.reads [OF bspec [OF dr]] partitioned_device.axioms(1) hooked_device.axioms(1) disk_device.served_geometry
      by blast
    then have geo: "\<not> (disk_log_sector_size disk' > GRUB_DISK_CACHE_BITS + GRUB_DISK_SECTOR_BITS
        \<or> disk_log_sector_size disk' < GRUB_DISK_SECTOR_BITS)"
      by (simp add: geometry_ok_def)
    have "returns (open_partition (\<lambda>rd. returning_maps rd p0) part dev (disk'\<lparr> disk_dev_id := dev_id dev \<rparr>) st')
        (open_outcome content good sv devs held (part \<noteq> None) st)"
      by (rule open_partition_ok [OF dr st' _ o]) (use res Inr in simp_all)
    then show ?thesis using geo by (simp add: open_driver_def run Inr)
  qed
qed

theorem disk_open_ok:
  assumes dr: "\<forall>dev \<in> set devs. disk_driver dev content good (sv dev) live held"
    and rdy: "open_ready content good st" "d_errno st = GRUB_ERR_NONE" and room: "\<forall>k. held (d_ext st) k < 2 ^ 64 - 1"
  shows "returns (grub_disk_open (\<lambda>rd. returning_maps rd p0) devs name st)
    (open_outcome content good sv devs held (find_part_sep name \<noteq> None) st)"
proof -
  let ?Q = "open_outcome content good sv devs held (find_part_sep name \<noteq> None) st"
  have malloc: "open_ready content good s1" "held (d_ext s1) = held (d_ext s)" "d_errno s1 = (if ok then d_errno s else GRUB_ERR_OUT_OF_MEMORY)"
    if "grub_malloc s = (ok, s1)" "open_ready content good s" for s s1 ok
    using grub_malloc_step [OF that(1)] that open_ready_simps(5) [of content good s] by simp_all
  have fail: "returns (open_result \<lparr> od_disk = fresh_disk, od_dev = None \<rparr> s1) ?Q"
    if "grub_malloc s = (False, s1)" "open_ready content good s" "held (d_ext s) = held (d_ext st)" for s s1
    by (rule open_failed_ok) (use malloc [OF that(1,2)] that in simp_all)
  have run: "returns (open_driver (\<lambda>rd. returning_maps rd p0) devs name raw (map_option tl (find_part_sep name)) (fresh_disk\<lparr> disk_name := raw \<rparr>) s1) ?Q"
    if "grub_malloc s = (True, s1)" "open_ready content good s" "held (d_ext s) = held (d_ext st)" "d_errno s = GRUB_ERR_NONE" for s s1 raw
    using open_driver_ok [OF dr, of s1 st "fresh_disk\<lparr> disk_name := raw \<rparr>" p0 name raw "map_option tl (find_part_sep name)"]
      malloc [OF that(1,2)] that room by (simp add: new_disk_def fresh_disk_def)
  obtain ok1 st1 where m1: "grub_malloc st = (ok1, st1)" by fastforce
  obtain ok2 st2 where m2: "grub_malloc st1 = (ok2, st2)" by fastforce
  obtain ok3 st3 where m3: "grub_malloc st2 = (ok3, st3)" by fastforce
  note k1 = malloc [OF m1 rdy(1)] and k2 = malloc [OF m2 malloc(1) [OF m1 rdy(1)]]
  show ?thesis
    using k1 k2 m1 m2 m3 rdy fail run
    by (cases ok1; cases ok2; cases ok3) (auto simp: grub_disk_open_def Let_def open_outcome_def)
qed

subsection \<open>The loopback driver\<close>

definition loopback_dev :: "nat option \<Rightarrow> (bytes loop_state, 'd) disk_dev" where
  "loopback_dev p = \<lparr> dev_name = ''loopback'', dev_id = GRUB_DISK_DEVICE_LOOPBACK_ID,
     dev_iterate = Some grub_loopback_iterate, dev_open = grub_loopback_open,
     dev_close = Some grub_loopback_close, dev_read = grub_loopback_read grub_procfs_read p \<rparr>"

lemma loopback_dev_simps [simp]:
  "dev_id (loopback_dev p) = GRUB_DISK_DEVICE_LOOPBACK_ID" "dev_open (loopback_dev p) = grub_loopback_open"
  "dev_close (loopback_dev p) = Some grub_loopback_close" "dev_read (loopback_dev p) = grub_loopback_read grub_procfs_read p"
  by (simp_all add: loopback_dev_def)

text \<open>The references to the devices, and the states in which all devices are those of \<open>ls\<close>.\<close>

definition loop_held :: "bytes loop_state \<Rightarrow> u64 \<times> u64 \<Rightarrow> nat" where
  "loop_held h k =
     (if fst k = GRUB_DISK_DEVICE_LOOPBACK_ID
      then (case find_loop (snd k) (loopback_list h) of None \<Rightarrow> 0 | Some dev \<Rightarrow> unat (lb_refcnt dev)) else 0)"

definition loops_known :: "bytes loop_state \<Rightarrow> bytes loop_state \<Rightarrow> bool" where
  "loops_known ls h \<longleftrightarrow> loop_good ls h \<and> distinct (map lb_id (loopback_list h)) \<and>
     (\<forall>dev \<in> set (loopback_list h). loop_devs ls (lb_id dev) = Some (file_data (lb_file dev), file_size (lb_file dev)))"

lemma loops_known_update:
  assumes known: "loops_known ls h"
    and f: "\<And>d. lb_id (f d) = lb_id d" "\<And>d. loop_devs ls (lb_id d) = Some (file_data (lb_file d), file_size (lb_file d)) \<Longrightarrow>
      lb_id d = i \<Longrightarrow> file_data (lb_file (f d)) = file_data (lb_file d) \<and> file_size (lb_file (f d)) = file_size (lb_file d)"
  shows "loops_known ls (h\<lparr> loopback_list := update_loop i f (loopback_list h) \<rparr>)"
proof -
  have d: "distinct (map lb_id (loopback_list h))" using known by (simp add: loops_known_def)
  have "loop_good ls (h\<lparr> loopback_list := update_loop i f (loopback_list h) \<rparr>)"
    unfolding loop_good_def
  proof (intro allI impI)
    fix j dat fsize
    assume j: "loop_devs ls j = Some (dat, fsize)"
    have "loop_good ls h" using known by (simp add: loops_known_def)
    from this [unfolded loop_good_def, rule_format, OF j] obtain dev
      where dev: "find_loop j (loopback_list h) = Some dev" "file_data (lb_file dev) = dat" "file_size (lb_file dev) = fsize" by blast
    show "\<exists>dev. find_loop j (loopback_list (h\<lparr> loopback_list := update_loop i f (loopback_list h) \<rparr>)) = Some dev \<and>
        file_data (lb_file dev) = dat \<and> file_size (lb_file dev) = fsize"
      using dev f(2) [of dev] find_loop_in [OF dev(1)] j by (auto simp: find_loop_update [of f, OF f(1)])
  qed
  then show ?thesis
    using known f by (auto simp: loops_known_def map_update_loop [of lb_id f, OF f(1)]) (auto simp: update_loop_map [OF d])
qed

lemma loop_held_update:
  assumes "\<And>d. lb_id (f d) = lb_id d" and "\<And>d. lb_refcnt (f d) = lb_refcnt d"
  shows "loop_held (h\<lparr> loopback_list := update_loop i f (loopback_list h) \<rparr>) = loop_held h"
  by (auto simp: loop_held_def find_loop_update [of f, OF assms(1)] assms(2) fun_eq_iff split: option.splits)

interpretation counted: loop_files grub_procfs_read byte_at procfs_opened "loop_content ls"
    "\<lambda>h. loops_known ls h \<and> loop_held h = c" True "loop_devs ls"
  for ls c
proof (rule procfs_loop_files)
  fix h i and f :: "bytes grub_file"
  assume "loops_known ls h \<and> loop_held h = c" "loop_devs ls i = Some (file_data f, file_size f)"
  then show "loops_known ls (h\<lparr> loopback_list := update_loop i (\<lambda>d. d\<lparr> lb_file := f \<rparr>) (loopback_list h) \<rparr>) \<and>
      loop_held (h\<lparr> loopback_list := update_loop i (\<lambda>d. d\<lparr> lb_file := f \<rparr>) (loopback_list h) \<rparr>) = c"
    by (auto simp: loop_held_update intro!: loops_known_update)
qed (auto simp: loops_known_def loop_good_def)

interpretation counted_parts: partitioned_device "grub_loopback_read grub_procfs_read p" "loop_content ls"
    "\<lambda>h. loops_known ls h \<and> loop_held h = c" "loop_served (loop_devs ls)" True None
  for ls p c
  by unfold_locales (simp_all add: loop_served_def)

text \<open>Changing the count of one device.\<close>

lemma loop_held_count:
  assumes "find_loop i (loopback_list h) = Some dev"
  shows "loop_held (h\<lparr> loopback_list := update_loop i (\<lambda>d. d\<lparr> lb_refcnt := r \<rparr>) (loopback_list h) \<rparr>) =
    (loop_held h)((GRUB_DISK_DEVICE_LOOPBACK_ID, i) := unat r)"
  using assms by (auto simp: loop_held_def find_loop_update fun_eq_iff)

lemma set_list_ready:
  assumes "open_ready content (loops_known ls) st" and "loops_known ls ((d_ext st)\<lparr> loopback_list := l \<rparr>)"
  shows "open_ready content (loops_known ls) (set_list l st)"
  using assms by (simp add: open_ready_def cache_inv_def)

lemma known_count:
  "loops_known ls h \<Longrightarrow> loops_known ls (h\<lparr> loopback_list := update_loop i (\<lambda>d. d\<lparr> lb_refcnt := r \<rparr>) (loopback_list h) \<rparr>)"
  by (rule loops_known_update) simp_all

lemma loopback_opens:
  assumes rdy: "open_ready (loop_content ls) (loops_known ls) st" and room: "\<forall>k. loop_held (d_ext st) k < 2 ^ 64 - 1" and new: "new_disk disk"
  shows "returns (grub_loopback_open name disk st) (\<lambda>(e, disk', st'). open_ready (loop_content ls) (loops_known ls) st' \<and>
      (if e = GRUB_ERR_NONE
       then d_errno st' = d_errno st \<and> loop_served (loop_devs ls) (disk'\<lparr> disk_dev_id := GRUB_DISK_DEVICE_LOOPBACK_ID \<rparr>) \<and>
         disk_partition disk' = [] \<and> loop_held (d_ext st') = (loop_held (d_ext st))((GRUB_DISK_DEVICE_LOOPBACK_ID, disk_id disk') :=
           Suc (loop_held (d_ext st) (GRUB_DISK_DEVICE_LOOPBACK_ID, disk_id disk')))
       else d_errno st' = e \<and> new_disk disk' \<and> loop_held (d_ext st') = loop_held (d_ext st)))"
proof -
  have known: "loops_known ls (d_ext st)" using rdy by (simp add: open_ready_def cache_inv_def)
  show ?thesis
  proof (cases "find_name name (loopback_list (d_ext st))")
    case None
    then show ?thesis using rdy new by (simp add: grub_loopback_open_def)
  next
    case (Some dev)
    then have m: "dev \<in> set (loopback_list (d_ext st))" using find_name_in by blast
    then have f: "find_loop (lb_id dev) (loopback_list (d_ext st)) = Some dev"
      using known by (intro find_loop_distinct) (simp_all add: loops_known_def)
    then have h: "loop_held (d_ext st) (GRUB_DISK_DEVICE_LOOPBACK_ID, lb_id dev) = unat (lb_refcnt dev)" by (simp add: loop_held_def)
    have "unat (lb_refcnt dev) < 2 ^ 64 - 1" using room [rule_format, of "(GRUB_DISK_DEVICE_LOOPBACK_ID, lb_id dev)"] unfolding h .
    then have "grub_add (lb_refcnt dev) 1 \<noteq> None" by (simp add: grub_add_def)
    then obtain r where r: "grub_add (lb_refcnt dev) 1 = Some r" by blast
    then have u: "unat r = Suc (unat (lb_refcnt dev))" by (simp add: grub_add_Some)
    have "loop_devs ls (lb_id dev) = Some (file_data (lb_file dev), file_size (lb_file dev))"
      using known m by (simp add: loops_known_def)
    then show ?thesis
      using rdy new known
      by (simp add: grub_loopback_open_def Some r loop_held_count [OF f] h u set_list_ready known_count
          loop_served_def new_disk_def)
  qed
qed

lemma loopback_closes:
  assumes rdy: "open_ready (loop_content ls) (loops_known ls) st" and dev: "loop_served (loop_devs ls) disk"
    and pos: "0 < loop_held (d_ext st) (disk_key disk)"
  shows "returns (grub_loopback_close disk st) (\<lambda>st'. open_ready (loop_content ls) (loops_known ls) st' \<and>
      d_errno st' = d_errno st \<and> loop_held (d_ext st') = (loop_held (d_ext st))(disk_key disk := loop_held (d_ext st) (disk_key disk) - 1))"
proof -
  have known: "loops_known ls (d_ext st)" using rdy by (simp add: open_ready_def cache_inv_def)
  have key: "disk_key disk = (GRUB_DISK_DEVICE_LOOPBACK_ID, disk_id disk)" using dev by (simp add: disk_key_def loop_served_def)
  obtain d where f: "find_loop (disk_id disk) (loopback_list (d_ext st)) = Some d"
    using pos by (auto simp: key loop_held_def split: option.splits)
  then have h: "loop_held (d_ext st) (disk_key disk) = unat (lb_refcnt d)" by (simp add: key loop_held_def)
  have "grub_sub (lb_refcnt d) 1 \<noteq> None" using pos by (simp add: h grub_sub_def word_le_nat_alt)
  then obtain r where r: "grub_sub (lb_refcnt d) 1 = Some r" by blast
  then have u: "unat r = unat (lb_refcnt d) - 1" by (simp add: grub_sub_Some)
  show ?thesis
    using rdy known
    by (simp add: grub_loopback_close_def f r loop_held_count [OF f] h u set_list_ready known_count)
      (simp add: key)
qed

interpretation loop_driver: disk_driver "loopback_dev p" "loop_content ls" "loops_known ls" "loop_served (loop_devs ls)" True loop_held
  for ls p
proof (rule disk_driver.intro, goal_cases)
  case (1 c)
  show ?case using counted_parts.partitioned_device_axioms by simp
next
  case (2 st disk name)
  show ?case unfolding loopback_dev_simps by (rule loopback_opens [OF 2])
next
  case (3 st disk)
  show ?case using loopback_closes [OF 3(1,2,4)] by simp
qed

end
