(* ===== verification/Fs_Correct.thy ===== *)
theory Fs_Correct
  imports File_Open Disk_Open_Correct
begin

text \<open>
  Probing for a file system, block lists, and the balance of opening and closing files. The contract
  of a file system's entry points is that they return and keep the state usable.
\<close>

subsection \<open>Probing\<close>

text \<open>A file system that does not recognise the device, in the states of an invariant.\<close>

definition fs_refuses :: "('h dstate \<Rightarrow> bool) \<Rightarrow> ('h, 'e) grub_device \<Rightarrow> ('h, 'd, 'e) grub_fs \<Rightarrow> bool" where
  "fs_refuses I device fs \<longleftrightarrow> (\<forall>st. I st \<longrightarrow> returns (fs_dir fs device ''/'' probe_dummy_iter st) (\<lambda>(_, st').
     (d_errno st' = GRUB_ERR_BAD_FS \<or> d_errno st' = GRUB_ERR_OUT_OF_RANGE) \<and>
     length (error_stack (d_err st')) < GRUB_ERROR_STACK_SIZE \<and> I (set_errno GRUB_ERR_NONE st')))"

definition fs_accepts :: "('h dstate \<Rightarrow> bool) \<Rightarrow> ('h, 'e) grub_device \<Rightarrow> ('h, 'd, 'e) grub_fs \<Rightarrow> bool" where
  "fs_accepts I device fs \<longleftrightarrow> (\<forall>st. I st \<longrightarrow> returns (fs_dir fs device ''/'' probe_dummy_iter st) (\<lambda>(_, st').
     d_errno st' = GRUB_ERR_NONE))"

lemma refuse_step:
  assumes "fs_refuses I device fs" and "I st"
  obtains st' where "probe_fs (fs # fss) device st = probe_fs fss device st'" "I st'"
proof -
  from assms obtain x st1 where "fs_dir fs device ''/'' probe_dummy_iter st = Some (x, st1)"
    "d_errno st1 = GRUB_ERR_BAD_FS \<or> d_errno st1 = GRUB_ERR_OUT_OF_RANGE"
    "length (error_stack (d_err st1)) < GRUB_ERROR_STACK_SIZE" "I (set_errno GRUB_ERR_NONE st1)"
    unfolding fs_refuses_def returns_def by blast
  then show ?thesis using that [of "set_errno GRUB_ERR_NONE st1"] by (auto simp: push_pop_error_id Let_def)
qed

lemma refuse_steps:
  "\<forall>fs \<in> set pre. fs_refuses I device fs \<Longrightarrow> I st \<Longrightarrow> \<exists>st'. probe_fs (pre @ fss) device st = probe_fs fss device st' \<and> I st'"
proof (induction pre arbitrary: st)
  case (Cons fs pre)
  obtain st1 where s: "probe_fs (fs # pre @ fss) device st = probe_fs (pre @ fss) device st1" "I st1"
    by (rule refuse_step [of I device fs st "pre @ fss"]) (use Cons.prems in auto)
  with Cons show ?case by simp
qed auto

lemma probe_first:
  assumes "gd_disk device \<noteq> None" and "\<forall>fs \<in> set pre. fs_refuses I device fs" and "fs_accepts I device fs" and "I st"
  shows "\<exists>st'. grub_fs_probe (pre @ fs # post) device st = Some (Some fs, st') \<and> d_errno st' = GRUB_ERR_NONE"
proof -
  obtain st1 where "probe_fs (pre @ fs # post) device st = probe_fs (fs # post) device st1" "I st1"
    using refuse_steps [OF assms(2,4)] by blast
  with assms show ?thesis by (fastforce simp: fs_accepts_def returns_def grub_fs_probe_def)
qed

lemma probe_none:
  assumes "gd_disk device \<noteq> None" and "\<forall>fs \<in> set fss. fs_refuses I device fs" and "I st"
  shows "\<exists>st'. grub_fs_probe fss device st = Some (None, st') \<and> d_errno st' = GRUB_ERR_UNKNOWN_FS"
  using refuse_steps [OF assms(2,3), of "[]"] assms(1) by (auto simp: grub_fs_probe_def)

subsection \<open>Block lists\<close>

lemma skip_blocks:
  assumes "\<forall>b \<in> set pre. snd b \<noteq> 0" and "len \<noteq> 0" and "unat sector = (\<Sum>b\<leftarrow>pre. unat (snd b)) + s"
  shows "read_blocks rd (pre @ blocks) sector off len ret buf st = read_blocks rd blocks (of_nat s) off len ret buf st"
  using assms(1,3)
proof (induction pre arbitrary: sector)
  case Nil
  then have "s = unat sector" by simp
  then show ?case by simp
next
  case (Cons b pre)
  obtain o1 n where b: "b = (o1, n)" by fastforce
  have n: "n \<noteq> 0" "unat sector = unat n + ((\<Sum>b\<leftarrow>pre. unat (snd b)) + s)" using Cons.prems b by simp_all
  then have le: "n \<le> sector" by (simp add: word_le_nat_alt)
  then have "unat (sector - n) = (\<Sum>b\<leftarrow>pre. unat (snd b)) + s" using n(2) by (simp add: unat_minus_exact)
  from Cons.IH [OF _ this] Cons.prems show ?case using n(1) le assms(2) by (simp add: b leD)
qed

lemma block_take_within:
  fixes n len :: u64
  assumes "s < unat n" and "off < 512" and "s * 512 + off + unat len \<le> unat n * 512" and "unat len + 1022 < 2 ^ 64"
  shows "block_take n (of_nat s) (of_nat off) len = len"
proof -
  have s: "unat (of_nat s :: u64) = s" using assms(1) unsigned_less [of n, where 'a = nat] by (simp add: unat_of_nat)
  have o: "unat (of_nat off :: u64) = off" using assms(2) by (simp add: unat_of_nat)
  have e: "len + of_nat off + 512 - 1 = of_nat off + len + (511 :: u64)" by simp
  have "unat (of_nat off + len + (511 :: u64)) = off + unat len + 511"
    using assms(2,4) o by (simp add: unat_plus_exact)
  then have "unat (drop_bit 9 (len + of_nat off + 512 - 1)) = (off + unat len + 511) div 512"
    unfolding e unat_drop_bit by simp
  moreover have "unat (n - of_nat s) = unat n - s"
    using assms(1) s by (subst unat_minus_exact) (simp_all add: word_le_nat_alt)
  moreover have "(off + unat len + 511) div 512 \<le> unat n - s" using assms(1,3) by (simp add: algebra_simps less_Suc_eq_le [symmetric] div_less_iff_less_mult)
  ultimately show ?thesis by (simp add: block_take_def word_less_nat_alt)
qed

text \<open>A read that lies inside one block of the list.\<close>

lemma read_in_block:
  fixes n len :: u64
  assumes "\<forall>b \<in> set pre. snd b \<noteq> 0" and "unat sector = (\<Sum>b\<leftarrow>pre. unat (snd b)) + s"
    and "s < unat n" "o' < 512" "s * 512 + o' + unat len \<le> unat n * 512" "0 < unat len" "unat len + 1022 < 2 ^ 63"
    and "rd (start + of_nat s) (of_nat o') len st = Some ((e, new), st1)"
  shows "read_blocks rd (pre @ (start, n) # post) sector (of_nat o') len 0 [] st =
    Some (if e \<noteq> GRUB_ERR_NONE then (-1, new) else (int (unat len), new), st1)"
proof -
  have l: "len \<noteq> 0" "n \<noteq> 0" using assms(3,6) by auto
  have "of_nat s < n" using assms(3) unsigned_less [of n, where 'a = nat] by (simp add: word_less_nat_alt unat_of_nat)
  moreover have "block_take n (of_nat s) (of_nat o') len = len"
    by (rule block_take_within [OF assms(3-5)]) (use assms(7) in simp)
  moreover have "sint len = int (unat len)" using assms(7) by (intro sint_small) simp
  ultimately show ?thesis
    unfolding skip_blocks [OF assms(1) l(1) assms(2)]
    using l assms(8) by (simp add: store_at_start_def Let_def) (cases post; auto)
qed

text \<open>A read that spans two blocks takes the wrong sector of the second one and stores it over the first.\<close>

lemma read_two_blocks:
  assumes "rd (a + 3) 0 512 st = Some ((GRUB_ERR_NONE, new1), st1)" and "length new1 = 512"
    and "rd (b + 2) 0 512 st1 = Some ((GRUB_ERR_NONE, new2), st2)" and "length new2 = 512"
  shows "read_blocks rd [(a, 4), (b, 4)] 3 0 1024 0 [] st = Some ((1024, new2), st2)"
  using assms by (simp add: block_take_def store_at_start_def Let_def)

text \<open>A block without a length that starts behind the end of the disk is accepted.\<close>

lemma open_block_wraps:
  assumes "max_sectors < start" and "d_errno st = GRUB_ERR_NONE"
  shows "parse_length max_sectors start [] st = (Inr (max_sectors - start, []), st)"
  using assms by (auto simp: parse_length_def)

end
