(* ===== verification/File_Open_Correct.thy ===== *)
theory File_Open_Correct
  imports Fs_Correct
begin

text \<open>
  Opening and closing devices and files balance: whatever goes wrong on the way, a call of
  \<open>grub_file_open\<close> that gives no file leaves the reference counts of the disks as they were, and
  closing the file it gives restores them. File systems and filters are assumed to return and to keep
  the state of the disk layer.
\<close>

subsection \<open>What is assumed of file systems and filters\<close>

text \<open>The state is usable and the references are \<open>refs\<close>.\<close>

definition refs_kept :: "content \<Rightarrow> ('h \<Rightarrow> bool) \<Rightarrow> ('h \<Rightarrow> u64 \<times> u64 \<Rightarrow> nat) \<Rightarrow> 'h dstate \<Rightarrow> 'h dstate \<Rightarrow> bool" where
  "refs_kept content good held st st' \<longleftrightarrow> open_ready content good st' \<and> held (d_ext st') = held (d_ext st)"

definition fs_keeps :: "content \<Rightarrow> ('h \<Rightarrow> bool) \<Rightarrow> ('h \<Rightarrow> u64 \<times> u64 \<Rightarrow> nat) \<Rightarrow> ('h, 'd, 'e) grub_fs \<Rightarrow> bool" where
  "fs_keeps content good held fs \<longleftrightarrow>
     (\<forall>dev file name st. open_ready content good st \<longrightarrow> gd_disk dev \<noteq> None \<longrightarrow>
        returns (fs_open fs (Some dev) file name st) (\<lambda>(_, _, st'). refs_kept content good held st st')) \<and>
     (\<forall>close dev file st. fs_close fs = Some close \<longrightarrow> open_ready content good st \<longrightarrow>
        returns (close (Some dev) file st) (\<lambda>(_, _, st'). refs_kept content good held st st'))"

definition dir_keeps :: "content \<Rightarrow> ('h \<Rightarrow> bool) \<Rightarrow> ('h \<Rightarrow> u64 \<times> u64 \<Rightarrow> nat) \<Rightarrow> ('h, 'd, 'e) grub_fs \<Rightarrow> bool" where
  "dir_keeps content good held fs \<longleftrightarrow> (\<forall>dev path hook st. open_ready content good st \<longrightarrow>
     returns (fs_dir fs dev path hook st) (\<lambda>(_, st'). refs_kept content good held st st'))"

text \<open>A filter may refuse the file or leave it on its device and file system.\<close>

definition filter_keeps :: "content \<Rightarrow> ('h \<Rightarrow> bool) \<Rightarrow> ('h \<Rightarrow> u64 \<times> u64 \<Rightarrow> nat) \<Rightarrow> ('h, 'd, 'e) file_filter \<Rightarrow> bool" where
  "filter_keeps content good held f \<longleftrightarrow> (\<forall>file ty st. open_ready content good st \<longrightarrow>
     returns (f file ty st) (\<lambda>(r, st'). refs_kept content good held st st' \<and>
       (case r of
          Filter_Null \<Rightarrow> True
        | Filter_Same file' \<Rightarrow> of_device file' = of_device file \<and> of_fs file' = of_fs file
        | Filter_New file' \<Rightarrow> of_device file' = of_device file \<and> of_fs file' = of_fs file)))"

lemmas fs_opens = fs_keeps_def [THEN iffD1, THEN conjunct1, rule_format]
  and fs_closes = fs_keeps_def [THEN iffD1, THEN conjunct2, rule_format]
  and dir_returns = dir_keeps_def [THEN iffD1, rule_format]
  and filter_returns = filter_keeps_def [THEN iffD1, rule_format]

lemma refs_kept_trans: "refs_kept c good held a b \<Longrightarrow> refs_kept c good held b d \<Longrightarrow> refs_kept c good held a d"
  by (simp add: refs_kept_def)

lemma refs_kept_simps [simp]:
  "refs_kept c good held st0 (set_errno e st) = refs_kept c good held st0 st"
  "refs_kept c good held st0 (raise_error e m st) = refs_kept c good held st0 st"
  "refs_kept c good held st0 (snd (grub_malloc st)) = refs_kept c good held st0 st"
  by (simp_all add: refs_kept_def)

lemma strdup_kept [simp]: "refs_kept c good held st0 (snd (grub_strdup s st)) = refs_kept c good held st0 st"
  by (simp add: grub_strdup_def case_prod_unfold)

subsection \<open>Block lists\<close>

lemma parse_num_kept: "parse_num p st = (n, rest, st') \<Longrightarrow> refs_kept c good held st0 st' = refs_kept c good held st0 st"
  by (auto simp: parse_num_def split: prod.splits if_splits)

lemma parse_offset_kept: "parse_offset p st = (r, st') \<Longrightarrow> refs_kept c good held st0 st' = refs_kept c good held st0 st"
  by (auto simp: parse_offset_def parse_num_kept split: prod.splits if_splits)

lemma parse_length_kept: "parse_length m off p st = (r, st') \<Longrightarrow> refs_kept c good held st0 st' = refs_kept c good held st0 st"
  by (auto simp: parse_length_def parse_num_kept split: prod.splits if_splits)

lemma parse_blocks_kept:
  "parse_blocks num m p bs fsize st = (r, z, st') \<Longrightarrow> refs_kept c good held st0 st' = refs_kept c good held st0 st"
  by (induction num arbitrary: p bs fsize st)
    (auto split: prod.splits sum.splits simp: parse_offset_kept parse_length_kept)

lemma blocklist_keeps: "fs_keeps content good held (grub_fs_blocklist hook_of :: ('h, 'd, 'e) grub_fs)"
proof -
  have "returns (grub_fs_blocklist_open (Some dev) fl name st) (\<lambda>(_, _, st'). refs_kept content good held st st')"
    if "open_ready content good st" "gd_disk dev \<noteq> None" for dev :: "('h, 'e) grub_device" and fl :: "'d fs_file" and name st
  proof -
    obtain ok st1 where m: "grub_malloc st = (ok, st1)" by fastforce
    have "refs_kept content good held st st1"
      using refs_kept_simps(3) [of content good held st st] that(1) by (simp add: m refs_kept_def)
    then show ?thesis
      using that(2) parse_blocks_kept [of _ _ _ _ _ st1 _ _ _ content good held st]
      by (auto simp: grub_fs_blocklist_open_def m split: bool.splits prod.splits sum.splits)
  qed
  then show ?thesis by (simp add: fs_keeps_def grub_fs_blocklist_def grub_fs_blocklist_close_def refs_kept_def)
qed

subsection \<open>Devices\<close>

locale disk_layer =
  fixes devs :: "('h, 'e) disk_dev list"
    and content :: content
    and good :: "'h \<Rightarrow> bool"
    and sv :: "('h, 'e) disk_dev \<Rightarrow> grub_disk \<Rightarrow> bool"
    and live :: bool
    and held :: "'h \<Rightarrow> u64 \<times> u64 \<Rightarrow> nat"
  assumes drivers: "\<forall>dev \<in> set devs. disk_driver dev content good (sv dev) live held"
begin

definition device_opened :: "(u64 \<times> u64 \<Rightarrow> nat) \<Rightarrow> 'h dstate \<Rightarrow> ('h, 'e) grub_device \<Rightarrow> bool" where
  "device_opened refs st dev \<longleftrightarrow> open_ready content good st \<and>
     (\<exists>d. gd_disk dev = Some d \<and> disk_opened sv devs refs (held (d_ext st)) d)"

definition released :: "(u64 \<times> u64 \<Rightarrow> nat) \<Rightarrow> 'h dstate \<Rightarrow> bool" where
  "released refs st \<longleftrightarrow> open_ready content good st \<and> held (d_ext st) = refs"

lemma device_opened_kept:
  "device_opened refs st dev \<Longrightarrow> refs_kept content good held st st' \<Longrightarrow> device_opened refs st' dev"
  by (auto simp: device_opened_def refs_kept_def)

lemma device_opened_ready: "device_opened refs st dev \<Longrightarrow> open_ready content good st"
  by (simp add: device_opened_def)

lemma device_opened_disk: "device_opened refs st dev \<Longrightarrow> gd_disk dev \<noteq> None"
  by (auto simp: device_opened_def)

lemma malloc_refs: "open_ready content good st \<Longrightarrow> grub_malloc st = (ok, st1) \<Longrightarrow> refs_kept content good held st st1"
  using refs_kept_simps(3) [of content good held st st] by (simp add: refs_kept_def)

lemma device_open_ok:
  assumes rdy: "open_ready content good st" "d_errno st = GRUB_ERR_NONE" and room: "\<forall>k. held (d_ext st) k < 2 ^ 64 - 1"
  shows "returns (grub_device_open (\<lambda>rd. returning_maps rd p0) devs root name st) (\<lambda>(r, st').
    (case r of None \<Rightarrow> released (held (d_ext st)) st' | Some dev \<Rightarrow> device_opened (held (d_ext st)) st' dev))"
proof -
  obtain ok st1 where m: "grub_malloc st = (ok, st1)" by fastforce
  note k = malloc_refs [OF rdy(1) m]
  have r: "released (held (d_ext st)) st1" "released (held (d_ext st)) (raise_error e msg st)" for e msg
    using k rdy(1) by (simp_all add: refs_kept_def released_def)
  have o: "returns (do { (d, st2) \<leftarrow> grub_disk_open (\<lambda>rd. returning_maps rd p0) devs n st1;
        Some (map_option (\<lambda>disk. \<lparr> gd_disk = Some disk \<rparr>) d, st2) }) (\<lambda>(r, st').
      (case r of None \<Rightarrow> released (held (d_ext st)) st' | Some dev \<Rightarrow> device_opened (held (d_ext st)) st' dev))" if ok for n
  proof (rule returns_bind [OF disk_open_ok [OF drivers]])
    show "open_ready content good st1" "\<forall>k. held (d_ext st1) k < 2 ^ 64 - 1" "d_errno st1 = GRUB_ERR_NONE"
      using k room rdy(2) grub_malloc_step(8) [OF m] that by (simp_all add: refs_kept_def)
  qed (use k in \<open>auto simp: open_outcome_def released_def device_opened_def refs_kept_def split: option.splits\<close>)
  show ?thesis
    using r o m by (cases ok) (auto simp: grub_device_open_def split: option.splits)
qed

lemma device_close_ok:
  assumes "device_opened refs st dev"
  shows "returns (grub_device_close (Some dev) st) (\<lambda>(_, st'). released refs st')"
proof -
  obtain d where d: "gd_disk dev = Some d" "disk_opened sv devs refs (held (d_ext st)) d" "open_ready content good st"
    using assms by (auto simp: device_opened_def)
  from disk_close_ok [OF drivers d(3,2)] show ?thesis
    by (auto simp: grub_device_close_def d(1) released_def returns_def)
qed

subsection \<open>Files\<close>

definition file_opened :: "(u64 \<times> u64 \<Rightarrow> nat) \<Rightarrow> 'h dstate \<Rightarrow> ('h, 'd, 'e) open_file \<Rightarrow> bool" where
  "file_opened refs st f \<longleftrightarrow> (\<exists>dev. of_device f = Some dev \<and> device_opened refs st dev) \<and> fs_keeps content good held (of_fs f)"

lemma file_close_ok:
  assumes "file_opened refs st f"
  shows "returns (grub_file_close f st) (\<lambda>(_, st'). released refs st')"
proof -
  obtain dev where dev: "of_device f = Some dev" "device_opened refs st dev" and fs: "fs_keeps content good held (of_fs f)"
    using assms by (auto simp: file_opened_def)
  note rdy = device_opened_ready [OF dev(2)]
  have first: "returns (case fs_close (of_fs f) of None \<Rightarrow> Some st
      | Some close \<Rightarrow> map_option (\<lambda>(_, _, s). s) (close (Some dev) (of_file f) st)) (\<lambda>st'. device_opened refs st' dev)"
  proof (cases "fs_close (of_fs f)")
    case (Some close)
    from fs_closes [OF fs Some rdy, of dev "of_file f"] obtain e file1 st1
      where "close (Some dev) (of_file f) st = Some (e, file1, st1)" "refs_kept content good held st st1"
      by (auto simp: returns_def)
    with device_opened_kept [OF dev(2)] show ?thesis by (simp add: Some)
  qed (simp add: dev)
  have second: "returns (map_option snd (grub_device_close (Some dev) st1)) (released refs)" if "device_opened refs st1 dev" for st1
    using device_close_ok [OF that] by (auto simp: returns_def)
  show ?thesis
    unfolding grub_file_close_def dev(1) option.case
    by (intro returns_bind [OF first] returns_bind [OF second]) simp_all
qed

lemma file_opened_kept:
  "file_opened refs st f \<Longrightarrow> refs_kept content good held st st' \<Longrightarrow> of_device f' = of_device f \<Longrightarrow> of_fs f' = of_fs f \<Longrightarrow>
   file_opened refs st' f'"
  by (auto simp: file_opened_def intro: device_opened_kept)

text \<open>What \<open>grub_file_open\<close> gives: nothing, with the references as before, or an open file.\<close>

definition file_outcome :: "(u64 \<times> u64 \<Rightarrow> nat) \<Rightarrow> ('h, 'd, 'e) open_file option \<times> 'h dstate \<Rightarrow> bool" where
  "file_outcome refs = (\<lambda>(r, st'). case r of None \<Rightarrow> released refs st' | Some f \<Rightarrow> file_opened refs st' f)"

lemma file_outcome_simps [simp]:
  "file_outcome refs (None, st) = released refs st" "file_outcome refs (Some f, st) = file_opened refs st f"
  by (simp_all add: file_outcome_def)

lemma run_filters_ok:
  assumes "\<forall>f. Some f \<in> set filters \<longrightarrow> filter_keeps content good held f" and "file_opened refs st f"
  shows "returns (run_filters filters ty name f st) (file_outcome refs)"
  using assms
proof (induction filters ty name f st rule: run_filters.induct)
  case (1 ty name f st)
  then show ?case using file_opened_kept [of refs st f st "f\<lparr> of_type := ty \<rparr>"] 
    by (auto simp: refs_kept_def file_opened_def device_opened_def)
next
  case (3 g fs ty name f st)
  have rdy: "open_ready content good st" using 3(4) by (auto simp: file_opened_def device_opened_def)
  have "filter_keeps content good held g" using 3(3) by simp
  from filter_returns [OF this rdy, of f ty] obtain r st1 where g: "g f ty st = Some (r, st1)"
    and k: "refs_kept content good held st st1"
    and r: "case r of Filter_Null \<Rightarrow> True
        | Filter_Same file' \<Rightarrow> of_device file' = of_device f \<and> of_fs file' = of_fs f
        | Filter_New file' \<Rightarrow> of_device file' = of_device f \<and> of_fs file' = of_fs f"
    by (auto simp: returns_def)
  have fs: "\<forall>f. Some f \<in> set fs \<longrightarrow> filter_keeps content good held f" using 3(3) by simp
  show ?case
  proof (cases r)
    case Filter_Null
    have "file_opened refs st1 f" by (rule file_opened_kept [OF 3(4) k]) simp_all
    from file_close_ok [OF this] Filter_Null show ?thesis by (auto simp: g returns_def)
  next
    case (Filter_Same f1)
    have "file_opened refs st1 f1" by (rule file_opened_kept [OF 3(4) k]) (use r Filter_Same in simp_all)
    with 3(1) [OF g refl Filter_Same fs] show ?thesis by (simp add: g Filter_Same)
  next
    case (Filter_New f1)
    let ?st = "set_errno GRUB_ERR_NONE (snd (grub_strdup name st1))"
    have "file_opened refs ?st (with_name (fst (grub_strdup name st1)) f1)"
      by (rule file_opened_kept [OF 3(4)]) (use k r Filter_New in \<open>simp_all add: with_name_def\<close>)
    with 3(2) [OF g refl Filter_New prod.collapse fs] show ?thesis by (simp add: g Filter_New case_prod_unfold)
  qed
qed simp

lemma open_failed_ok': "device_opened refs st dev \<Longrightarrow> returns (open_failed dev st) (file_outcome refs)"
  using device_close_ok [of refs st dev] by (auto simp: open_failed_def returns_def)

lemma open_with_fs_ok:
  fixes fs :: "('h, 'd, 'e) grub_fs"
  assumes dev: "device_opened refs st dev" and fs: "fs_keeps content good held fs"
    and filters: "\<forall>f. Some f \<in> set filters \<longrightarrow> filter_keeps content good held f"
  shows "returns (open_with_fs fs filters dev name ty st) (file_outcome refs)"
proof -
  from fs_opens [OF fs device_opened_ready [OF dev] device_opened_disk [OF dev], of fresh_file "file_part name"]
  obtain e fl st1 where o: "fs_open fs (Some dev) fresh_file (file_part name) st = Some (e, fl, st1)"
    and k: "refs_kept content good held st st1" by (auto simp: returns_def)
  let ?st = "set_errno GRUB_ERR_NONE (snd (grub_strdup name st1))"
  have "device_opened refs ?st dev" by (rule device_opened_kept [OF dev]) (simp add: k)
  then have "file_opened refs ?st (with_name (fst (grub_strdup name st1)) \<lparr> of_file = fl, of_device = Some dev, of_fs = fs, of_type = 0 \<rparr>)"
    using fs by (simp add: file_opened_def with_name_def)
  note run = run_filters_ok [OF filters this, of ty name]
  have "returns (open_failed dev st1 :: (('h, 'd, 'e) open_file option \<times> 'h dstate) option) (file_outcome refs)"
    by (rule open_failed_ok' [OF device_opened_kept [OF dev k]])
  with run show ?thesis by (simp add: open_with_fs_def o case_prod_unfold)
qed

lemma probe_ok:
  assumes "device_opened refs st dev" and "\<forall>fs \<in> set fss. dir_keeps content good held fs"
  shows "returns (grub_fs_probe fss dev st) (\<lambda>(r, st'). device_opened refs st' dev \<and> (case r of None \<Rightarrow> True | Some fs \<Rightarrow> fs \<in> set fss))"
proof -
  have "returns (probe_fs fss dev st) (\<lambda>(r, st'). device_opened refs st' dev \<and> (case r of None \<Rightarrow> True | Some fs \<Rightarrow> fs \<in> set fss))"
    using assms
  proof (induction fss arbitrary: st)
    case Nil
    have "refs_kept content good held st (raise_error GRUB_ERR_UNKNOWN_FS ''unknown filesystem'' st)"
      using device_opened_ready [OF Nil(1)] by (simp add: refs_kept_def)
    from device_opened_kept [OF Nil(1) this] show ?case by simp
  next
    case (Cons fs fss)
    have "dir_keeps content good held fs" using Cons.prems(2) by simp
    from dir_returns [OF this device_opened_ready [OF Cons.prems(1)], of dev "''/''" probe_dummy_iter]
    obtain e st1 where d: "fs_dir fs dev ''/'' probe_dummy_iter st = Some (e, st1)" and k: "refs_kept content good held st st1"
      by (auto simp: returns_def)
    have pp: "push_pop_error st1 = st1" using k by (intro open_ready_push_pop [of content good]) (simp add: refs_kept_def)
    have o: "device_opened refs st1 dev" by (rule device_opened_kept [OF Cons.prems(1) k])
    have "device_opened refs (set_errno GRUB_ERR_NONE st1) dev"
      by (rule device_opened_kept [OF Cons.prems(1)]) (simp add: k)
    then have "returns (probe_fs fss dev (set_errno GRUB_ERR_NONE st1))
        (\<lambda>(r, st'). device_opened refs st' dev \<and> (case r of None \<Rightarrow> True | Some fs \<Rightarrow> fs \<in> set fss))"
      by (rule Cons.IH) (use Cons.prems(2) in simp)
    then show ?case using o by (auto simp: d pp Let_def elim!: returns_mono split: option.splits)
  qed
  then show ?thesis using device_opened_disk [OF assms(1)] by (simp add: grub_fs_probe_def)
qed

theorem file_open_ok:
  fixes fss :: "('h, 'd, 'e) grub_fs list"
  assumes rdy: "open_ready content good st" and room: "\<forall>k. held (d_ext st) k < 2 ^ 64 - 1"
    and fss: "\<forall>fs \<in> set fss. fs_keeps content good held fs \<and> dir_keeps content good held fs"
    and filters: "\<forall>f. Some f \<in> set filters \<longrightarrow> filter_keeps content good held f"
  shows "returns (grub_file_open (\<lambda>rd. returning_maps rd p0) devs root fss hook_of filters name ty st)
    (file_outcome (held (d_ext st)))"
proof -
  let ?refs = "held (d_ext st)"
  let ?Q = "file_outcome ?refs :: ('h, 'd, 'e) open_file option \<times> 'h dstate \<Rightarrow> bool"
  obtain device_name st1 where n: "grub_file_get_device_name name (set_errno GRUB_ERR_NONE st) = (device_name, st1)" by fastforce
  then have k: "refs_kept content good held st st1"
    using rdy malloc_refs [of "set_errno GRUB_ERR_NONE st"]
    by (auto simp: grub_file_get_device_name_def refs_kept_def split: if_splits option.splits prod.splits bool.splits)
  have fail: "returns (open_failed dev s) ?Q" if "device_opened ?refs s dev" for dev s by (rule open_failed_ok' [OF that])
  have opened: "returns (open_on_device fss hook_of filters dev name ty s) ?Q" if dev: "device_opened ?refs s dev" for dev s
  proof -
    obtain ok s1 where m: "grub_malloc s = (ok, s1)" by fastforce
    have o: "device_opened ?refs s1 dev"
      by (rule device_opened_kept [OF dev malloc_refs [OF device_opened_ready [OF dev] m]])
    note with_fs = open_with_fs_ok [OF _ _ filters]
    have probed: "returns (do { (fs, st2) \<leftarrow> grub_fs_probe fss dev s1;
        case fs of None \<Rightarrow> open_failed dev st2 | Some f \<Rightarrow> open_with_fs f filters dev name ty st2 }) ?Q"
    proof (rule returns_bind [OF probe_ok [OF o]])
      show "\<forall>fs \<in> set fss. dir_keeps content good held fs" using fss by simp
      fix x :: "('h, 'd, 'e) grub_fs option \<times> 'h dstate"
      obtain r s2 where x: "x = (r, s2)" by fastforce
      assume "case x of (r, st') \<Rightarrow> device_opened ?refs st' dev \<and> (case r of None \<Rightarrow> True | Some fs \<Rightarrow> fs \<in> set fss)"
      then show "returns (case x of (fs, st2) \<Rightarrow> case fs of None \<Rightarrow> open_failed dev st2
          | Some f \<Rightarrow> open_with_fs f filters dev name ty st2) ?Q"
        using fail with_fs fss by (cases r) (simp_all add: x)
    qed
    show ?thesis
      using m fail [OF o] probed with_fs [OF o blocklist_keeps] by (cases ok) (simp_all add: open_on_device_def)
  qed
  show ?thesis
  proof (cases "d_errno st1 = GRUB_ERR_NONE")
    case True
    have h: "held (d_ext st1) = ?refs" using k by (simp add: refs_kept_def)
    have dev: "returns (grub_device_open (\<lambda>rd. returning_maps rd p0) devs root device_name st1) (\<lambda>(r, st').
        (case r of None \<Rightarrow> released ?refs st' | Some dev \<Rightarrow> device_opened ?refs st' dev))"
      using device_open_ok [of st1 p0 root device_name, unfolded h] k True room by (simp add: refs_kept_def)
    have "returns (do { (device, st2) \<leftarrow> grub_device_open (\<lambda>rd. returning_maps rd p0) devs root device_name st1;
        case device of None \<Rightarrow> Some (None, st2) | Some dev \<Rightarrow> open_on_device fss hook_of filters dev name ty st2 }) ?Q"
      by (rule returns_bind [OF dev]) (auto simp: opened split: option.splits)
    then show ?thesis using True n by (simp add: grub_file_open_def)
  next
    case False
    then show ?thesis using n k by (simp add: grub_file_open_def released_def refs_kept_def)
  qed
qed

end

interpretation loop_layer: disk_layer "[loopback_dev p]" "loop_content ls" "loops_known ls" "\<lambda>_. loop_served (loop_devs ls)" True loop_held
  for ls p
  by unfold_locales (simp add: loop_driver.disk_driver_axioms)

end
