(* ===== verification/Checksums.thy ===== *)
theory Checksums
  imports Prelude
begin

text \<open>
  Checksums: the table-driven CRC-32C of \<open>grub/grub-core/lib/crc.c\<close> and CRC-64 of \<open>lib/crc64.c\<close>,
  Adler-32 of \<open>lib/adler32.c\<close>, and the bitwise CRC-32 of \<open>grub/rover/lostfs.c\<close>, with the reference
  definitions they are compared to: the reflected shift register, one bit at a time, and the sums
  modulo 65521.
\<close>

subsection \<open>CRC-32C\<close>

text \<open>The loop of \<open>reflect\<close>: \<open>i\<close> counts the bits still to look at.\<close>

fun reflect_loop :: "'a::len word \<Rightarrow> 'a word \<Rightarrow> nat \<Rightarrow> 'a word" where
  "reflect_loop ref result 0 = result"
| "reflect_loop ref result (Suc i) =
     reflect_loop (drop_bit 1 ref) (if ref AND 1 \<noteq> 0 then result OR push_bit i 1 else result) i"

definition reflect :: "'a::len word \<Rightarrow> nat \<Rightarrow> 'a word" where
  "reflect ref len = reflect_loop ref 0 len"

definition crc32c_shift :: "u32 \<Rightarrow> u32" where
  "crc32c_shift c = push_bit 1 c XOR (if c AND push_bit 31 1 \<noteq> 0 then 0x1edc6f41 else 0)"

definition crc32c_entry :: "nat \<Rightarrow> u32" where
  "crc32c_entry i = reflect ((crc32c_shift ^^ 8) (push_bit 24 (reflect (of_nat i) 8))) 32"

definition crc32c_table :: "u32 list" where
  "crc32c_table = map crc32c_entry [0..<256]"

fun crc32c_loop :: "u32 \<Rightarrow> bytes \<Rightarrow> u32" where
  "crc32c_loop crc [] = crc"
| "crc32c_loop crc (d # ds) =
     crc32c_loop (drop_bit 8 crc XOR crc32c_table ! unat ((crc AND 0xff) XOR ucast d)) ds"

definition grub_getcrc32c :: "u32 \<Rightarrow> bytes \<Rightarrow> u32" where
  "grub_getcrc32c crc buf = crc32c_loop (crc XOR 0xffffffff) buf XOR 0xffffffff"

subsection \<open>CRC-64\<close>

definition crc64_shift :: "u64 \<Rightarrow> u64" where
  "crc64_shift c = push_bit 1 c XOR (if c AND push_bit 63 1 \<noteq> 0 then 0x42f0e1eba9ea3693 else 0)"

definition crc64_entry :: "nat \<Rightarrow> u64" where
  "crc64_entry i = reflect ((crc64_shift ^^ 8) (push_bit 56 (reflect (of_nat i) 8))) 64"

definition crc64_table :: "u64 list" where
  "crc64_table = map crc64_entry [0..<256]"

text \<open>The context is the checksum itself, kept in little-endian order; \<open>crc64_init\<close> sets it to zero.\<close>

definition crc64_init :: u64 where
  "crc64_init = 0"

fun crc64_loop :: "u64 \<Rightarrow> bytes \<Rightarrow> u64" where
  "crc64_loop crc [] = crc"
| "crc64_loop crc (d # ds) =
     crc64_loop (drop_bit 8 crc XOR crc64_table ! unat ((crc AND 0xff) XOR ucast d)) ds"

text \<open>
  The counter of the loop has 32 bits and the size 64: on buffers of \<open>2 ^ 32\<close> bytes and more the
  loop does not end, \<open>None\<close>.
\<close>

definition crc64_write :: "u64 \<Rightarrow> bytes \<Rightarrow> u64 option" where
  "crc64_write context buf =
     (if length buf < 2 ^ 32 then Some (NOT (crc64_loop (NOT context) buf)) else None)"

subsection \<open>Adler-32\<close>

abbreviation ADLER_MOD :: u16 where "ADLER_MOD \<equiv> 65521"

definition mod_add :: "u16 \<Rightarrow> u16 \<Rightarrow> u16" where
  "mod_add a b = (if (ucast a :: u32) + ucast b \<ge> 65521 then a + b - ADLER_MOD else a + b)"

definition adler32_init :: "u16 \<times> u16" where
  "adler32_init = (1, 0)"

fun adler32_write :: "u16 \<times> u16 \<Rightarrow> bytes \<Rightarrow> u16 \<times> u16" where
  "adler32_write (a, b) [] = (a, b)"
| "adler32_write (a, b) (d # ds) =
     (let a1 = mod_add a (ucast d) in adler32_write (a1, mod_add a1 b) ds)"

text \<open>The four bytes of the result are the big-endian form of this word.\<close>

definition adler32_read :: "u16 \<times> u16 \<Rightarrow> u32" where
  "adler32_read ctx =
     (let a = (if fst ctx > ADLER_MOD then fst ctx - ADLER_MOD else fst ctx);
          b = (if snd ctx > ADLER_MOD then snd ctx - ADLER_MOD else snd ctx)
      in ucast a OR push_bit 16 (ucast b))"

subsection \<open>CRC-32\<close>

definition crc32_shift :: "u32 \<Rightarrow> u32" where
  "crc32_shift crc = drop_bit 1 crc XOR (if crc AND 1 \<noteq> 0 then 0xedb88320 else 0)"

fun crc32_loop :: "u32 \<Rightarrow> bytes \<Rightarrow> u32" where
  "crc32_loop crc [] = crc"
| "crc32_loop crc (p # ps) = crc32_loop ((crc32_shift ^^ 8) (crc XOR ucast p)) ps"

definition lost_crc32 :: "bytes \<Rightarrow> u32" where
  "lost_crc32 p = NOT (crc32_loop 0xffffffff p)"

subsection \<open>Reference: a reflected shift register\<close>

text \<open>One bit of a reflected CRC with polynomial \<open>g\<close>, and the register after the bits of a byte list.\<close>

definition lfsr :: "'a::len word \<Rightarrow> 'a word \<Rightarrow> 'a word" where
  "lfsr g c = drop_bit 1 c XOR (if bit c 0 then g else 0)"

fun lfsr_bytes :: "'a::len word \<Rightarrow> 'a word \<Rightarrow> bytes \<Rightarrow> 'a word" where
  "lfsr_bytes g c [] = c"
| "lfsr_bytes g c (d # ds) = lfsr_bytes g ((lfsr g ^^ 8) (c XOR ucast d)) ds"

lemma lfsr_bytes_append: "lfsr_bytes g c (a @ b) = lfsr_bytes g (lfsr_bytes g c a) b"
  by (induction a arbitrary: c) simp_all

lemma lfsr_xor: "lfsr g (a XOR b) = lfsr g a XOR lfsr g b"
  by (auto simp: lfsr_def bit_xor_iff drop_bit_xor ac_simps)

lemma lfsr_pow_xor: "(lfsr g ^^ n) (a XOR b) = (lfsr g ^^ n) a XOR (lfsr g ^^ n) b"
  by (induction n arbitrary: a b) (simp_all add: funpow_Suc_right lfsr_xor del: funpow.simps)

text \<open>A register whose low bits are zero is only shifted.\<close>

lemma lfsr_pow_high:
  "(\<And>i. i < n \<Longrightarrow> \<not> bit c i) \<Longrightarrow> (lfsr g ^^ n) c = drop_bit n c"
proof (induction n arbitrary: c)
  case (Suc n)
  have "lfsr g c = drop_bit 1 c" using Suc.prems [of 0] by (simp add: lfsr_def)
  moreover have "(lfsr g ^^ n) (drop_bit 1 c) = drop_bit n (drop_bit 1 c)"
    by (rule Suc.IH) (use Suc.prems in \<open>simp add: bit_drop_bit_eq\<close>)
  ultimately show ?case by (simp add: funpow_Suc_right drop_bit_drop_bit del: funpow.simps)
qed simp

text \<open>The table-driven step: the byte that leaves the register selects what is added.\<close>

lemma table_step:
  fixes c :: "'a::len word" and d :: u8
  assumes "8 \<le> LENGTH('a)"
  shows "(lfsr g ^^ 8) (c XOR ucast d) = drop_bit 8 c XOR (lfsr g ^^ 8) ((c AND 0xff) XOR ucast d)"
proof -
  have m: "(0xff :: 'a word) = mask 8" by (simp add: mask_eq_exp_minus_1)
  have "c XOR ucast d = (c AND NOT (mask 8)) XOR ((c AND mask 8) XOR ucast d)"
    by (rule bit_word_eqI) (auto simp: bit_simps)
  moreover have "(lfsr g ^^ 8) (c AND NOT (mask 8)) = drop_bit 8 (c AND NOT (mask 8))"
    by (rule lfsr_pow_high) (use assms in \<open>auto simp: bit_simps\<close>)
  moreover have "drop_bit 8 (c AND NOT (mask 8)) = drop_bit 8 c"
    by (rule bit_word_eqI) (auto simp: bit_simps dest: bit_imp_le_length)
  ultimately have "(lfsr g ^^ 8) (c XOR ucast d) = drop_bit 8 c XOR (lfsr g ^^ 8) ((c AND mask 8) XOR ucast d)"
    by (metis lfsr_pow_xor)
  then show ?thesis unfolding m .
qed

subsection \<open>Reflection\<close>

lemma bit_reflect_loop:
  fixes ref :: "'a::len word"
  assumes "n \<le> LENGTH('a)"
  shows "bit (reflect_loop ref result n) i \<longleftrightarrow> bit result i \<or> i < n \<and> bit ref (n - 1 - i)"
  using assms
proof (induction ref result n rule: reflect_loop.induct)
  case (2 ref result n)
  have odd: "ref AND 1 \<noteq> 0 \<longleftrightarrow> bit ref 0"
    by (simp add: and_one_eq odd_iff_mod_2_eq_one [symmetric] bit_0)
  have step: "bit (drop_bit 1 ref) (n - 1 - i) \<longleftrightarrow> bit ref (n - i)" if "i < n"
  proof -
    have "1 + (n - 1 - i) = n - i" using that by simp
    then show ?thesis by (simp add: bit_drop_bit_eq)
  qed
  have "bit (reflect_loop ref result (Suc n)) i \<longleftrightarrow>
      (bit result i \<or> bit ref 0 \<and> i = n) \<or> i < n \<and> bit ref (n - i)"
    using 2 step by (auto simp: odd bit_simps simp del: diff_diff_left One_nat_def)
  then show ?case by (auto simp: less_Suc_eq)
qed simp

lemma bit_reflect:
  fixes ref :: "'a::len word"
  shows "n \<le> LENGTH('a) \<Longrightarrow> bit (reflect ref n) i \<longleftrightarrow> i < n \<and> bit ref (n - 1 - i)"
  by (simp add: reflect_def bit_reflect_loop)

lemma and_bit_nonzero:
  fixes c :: "'a::len word"
  assumes "k < LENGTH('a)"
  shows "c AND push_bit k 1 \<noteq> 0 \<longleftrightarrow> bit c k"
proof -
  have "bit (c AND push_bit k 1) i \<longleftrightarrow> i = k \<and> bit c k" for i
    using assms by (auto simp: bit_simps)
  then show ?thesis by (metis bit_0_eq bot_apply bit_eq_iff bot_bool_def)
qed

text \<open>Reflecting a left shift gives the shift of the reflected register.\<close>

lemma reflect_shift:
  fixes c poly :: "'a::len word"
  assumes n: "n = LENGTH('a)" "0 < n"
  shows "reflect (push_bit 1 c XOR (if c AND push_bit (n - 1) 1 \<noteq> 0 then poly else 0)) n = lfsr (reflect poly n) (reflect c n)"
proof -
  have top: "c AND push_bit (n - 1) 1 \<noteq> 0 \<longleftrightarrow> bit c (n - 1)"
    by (rule and_bit_nonzero) (use n in simp)
  have low: "bit (reflect c n) 0 \<longleftrightarrow> bit c (n - 1)" using n by (simp add: bit_reflect)
  define s where "s = push_bit 1 c"
  have s: "bit s j \<longleftrightarrow> 1 \<le> j \<and> j < n \<and> bit c (j - 1)" for j
    unfolding s_def by (simp only: bit_push_bit_iff) (auto simp: n dest: bit_imp_le_length)
  have shift: "reflect s n = drop_bit 1 (reflect c n)"
  proof (rule bit_word_eqI)
    fix i
    show "bit (reflect s n) i \<longleftrightarrow> bit (drop_bit 1 (reflect c n)) i"
      using n by (auto simp: bit_reflect bit_drop_bit_eq s)
  qed
  have "reflect (s XOR t) n = reflect s n XOR reflect t n" for t
    by (rule bit_word_eqI) (auto simp: bit_reflect bit_xor_iff n)
  moreover have "reflect (0 :: 'a word) n = 0"
    by (rule bit_word_eqI) (simp add: bit_reflect n)
  ultimately show ?thesis
    unfolding top lfsr_def low s_def [symmetric] shift [symmetric] by simp
qed

lemma reflect_shift_pow:
  fixes c poly :: "'a::len word"
  assumes n: "n = LENGTH('a)" "0 < n"
    and f: "\<And>c. f c = push_bit 1 c XOR (if c AND push_bit (n - 1) 1 \<noteq> 0 then poly else 0)"
  shows "reflect ((f ^^ k) c) n = (lfsr (reflect poly n) ^^ k) (reflect c n)"
  by (induction k) (simp_all only: funpow.simps o_apply id_apply f reflect_shift [OF n])

lemma reflect_byte:
  fixes x :: "'a::len word"
  assumes n: "n = LENGTH('a)" "8 \<le> n" and x: "\<And>i. 8 \<le> i \<Longrightarrow> \<not> bit x i"
  shows "reflect (push_bit (n - 8) (reflect x 8)) n = x"
proof (rule bit_word_eqI)
  fix i assume i: "i < LENGTH('a)"
  have b: "bit (push_bit (n - 8) (reflect x 8)) j \<longleftrightarrow> n - 8 \<le> j \<and> j < n \<and> bit x (n - 1 - j)" for j
    using n by (auto simp: bit_push_bit_iff bit_reflect)
  have "bit x (n - 1 - (n - 1 - i)) = bit x i" using i n by simp
  then show "bit (reflect (push_bit (n - 8) (reflect x 8)) n) i \<longleftrightarrow> bit x i"
    unfolding bit_reflect [OF eq_imp_le [OF n(1)]] b using i n x [of i] by (cases "8 \<le> i") auto
qed

lemma bit_small_index: "8 \<le> j \<Longrightarrow> i < 256 \<Longrightarrow> \<not> bit (of_nat i :: 'a::len word) j"
proof -
  assume "8 \<le> j" "i < 256"
  then have "i < 2 ^ j" using power_increasing [of 8 j "2::nat"] by simp
  then have "\<not> bit i j" by (simp add: bit_iff_odd)
  then show ?thesis by (simp add: bit_of_nat_iff)
qed

lemma reflect_loop_numeral:
  "reflect_loop ref result (numeral k) =
     reflect_loop (drop_bit 1 ref)
       (if ref AND 1 \<noteq> 0 then result OR push_bit (pred_numeral k) 1 else result) (pred_numeral k)"
  by (simp add: numeral_eq_Suc)

lemma reflect_poly32: "reflect (0x1edc6f41 :: u32) 32 = 0x82f63b78"
  by (simp add: reflect_def reflect_loop_numeral)

lemma reflect_poly64: "reflect (0x42f0e1eba9ea3693 :: u64) 64 = 0xc96c5795d7870f42"
  by (simp add: reflect_def reflect_loop_numeral)

lemma crc32c_entry_eq: "i < 256 \<Longrightarrow> crc32c_entry i = (lfsr 0x82f63b78 ^^ 8) (of_nat i)"
  unfolding crc32c_entry_def
  by (subst reflect_shift_pow [where poly = "0x1edc6f41"])
    (simp_all add: crc32c_shift_def reflect_poly32 bit_small_index
      reflect_byte [of 32, where 'a = 32, simplified])

lemma crc64_entry_eq: "i < 256 \<Longrightarrow> crc64_entry i = (lfsr 0xc96c5795d7870f42 ^^ 8) (of_nat i)"
  unfolding crc64_entry_def
  by (subst reflect_shift_pow [where poly = "0x42f0e1eba9ea3693"])
    (simp_all add: crc64_shift_def reflect_poly64 bit_small_index
      reflect_byte [of 64, where 'a = 64, simplified])

subsection \<open>The tables compute the register\<close>

abbreviation crc32c_poly :: u32 where "crc32c_poly \<equiv> 0x82f63b78"
abbreviation crc64_poly :: u64 where "crc64_poly \<equiv> 0xc96c5795d7870f42"
abbreviation crc32_poly :: u32 where "crc32_poly \<equiv> 0xedb88320"

text \<open>The byte index of a table and the register value it stands for.\<close>

lemma byte_index:
  fixes c :: "'a::len word" and d :: u8
  assumes "8 < LENGTH('a)"
  shows "unat ((c AND 0xff) XOR ucast d) < 256"
proof -
  have m: "(0xff :: 'a word) = mask 8" by (simp add: mask_eq_exp_minus_1)
  have "(c AND mask 8) XOR ucast d = take_bit 8 ((c AND mask 8) XOR ucast d)"
    by (rule bit_word_eqI) (auto simp: bit_simps dest: bit_imp_le_length)
  then have "unat ((c AND mask 8) XOR ucast d) = take_bit 8 (unat ((c AND mask 8) XOR ucast d))"
    by (metis unsigned_take_bit_eq)
  then have "unat ((c AND mask 8) XOR ucast d) < 2 ^ 8" by (metis take_bit_nat_less_exp)
  then show ?thesis unfolding m by simp
qed

lemma crc32c_step:
  "drop_bit 8 crc XOR crc32c_table ! unat ((crc AND 0xff) XOR ucast d) =
     (lfsr crc32c_poly ^^ 8) (crc XOR ucast (d :: u8))"
  using byte_index [of crc d] table_step [of crc32c_poly crc d]
  by (simp add: crc32c_table_def crc32c_entry_eq)

lemma crc64_step:
  "drop_bit 8 crc XOR crc64_table ! unat ((crc AND 0xff) XOR ucast d) =
     (lfsr crc64_poly ^^ 8) (crc XOR ucast (d :: u8))"
  using byte_index [of crc d] table_step [of crc64_poly crc d]
  by (simp add: crc64_table_def crc64_entry_eq)

lemma crc32_shift_eq: "crc32_shift = lfsr crc32_poly"
  using and_bit_nonzero [of 0, where 'a = 32] by (simp add: fun_eq_iff crc32_shift_def lfsr_def)

lemma crc32c_loop_eq: "crc32c_loop c ds = lfsr_bytes crc32c_poly c ds"
  by (induction ds arbitrary: c) (simp_all only: crc32c_loop.simps lfsr_bytes.simps crc32c_step)

lemma crc64_loop_eq: "crc64_loop c ds = lfsr_bytes crc64_poly c ds"
  by (induction ds arbitrary: c) (simp_all only: crc64_loop.simps lfsr_bytes.simps crc64_step)

lemma crc32_loop_eq: "crc32_loop c ds = lfsr_bytes crc32_poly c ds"
  by (induction ds arbitrary: c) (simp_all only: crc32_loop.simps lfsr_bytes.simps crc32_shift_eq)

subsection \<open>Adler-32 and its sums\<close>

text \<open>The two sums over the naturals, reduced only at the end.\<close>

fun adler_sums :: "nat \<times> nat \<Rightarrow> bytes \<Rightarrow> nat \<times> nat" where
  "adler_sums (a, b) [] = (a, b)"
| "adler_sums (a, b) (d # ds) = adler_sums (a + unat d, b + a + unat d) ds"

lemma unat_mod_add:
  assumes "unat a < 65521" "unat b < 65521"
  shows "unat (mod_add a b) = (unat a + unat b) mod 65521"
proof -
  have u: "(ucast a :: u32) + ucast b \<ge> 65521 \<longleftrightarrow> 65521 \<le> unat a + unat b"
    using assms by (simp add: word_le_nat_alt unat_word_ariths unsigned_ucast_eq take_bit_nat_eq_self)
  show ?thesis
  proof (cases "65521 \<le> unat a + unat b")
    case True
    have "unat (a + b - ADLER_MOD) = unat a + unat b - 65521"
    proof -
      have "a + b - ADLER_MOD = of_nat (unat a + unat b - 65521)"
        using True by (simp add: of_nat_diff)
      then show ?thesis using assms by (simp add: unat_of_nat take_bit_nat_eq_self del: of_nat_add)
    qed
    moreover have "(unat a + unat b) mod 65521 = unat a + unat b - 65521"
      using True assms by (simp add: mod_if)
    ultimately show ?thesis using u True by (simp add: mod_add_def)
  next
    case False
    then show ?thesis using u by (simp add: mod_add_def unat_word_ariths)
  qed
qed

lemma adler32_write_sums:
  assumes "unat a < 65521" "unat b < 65521"
    and "unat a = x mod 65521" "unat b = y mod 65521"
  shows "case adler32_write (a, b) ds of (a', b') \<Rightarrow>
    unat a' = fst (adler_sums (x, y) ds) mod 65521 \<and> unat b' = snd (adler_sums (x, y) ds) mod 65521"
  using assms
proof (induction ds arbitrary: a b x y)
  case (Cons d ds)
  have d: "unat (ucast d :: u16) = unat d" "unat d < 65521"
    using unsigned_less [of d, where ?'a = nat] by (simp_all add: unsigned_ucast_eq take_bit_nat_eq_self)
  define a1 where "a1 = mod_add a (ucast d)"
  have a1: "unat a1 = (x + unat d) mod 65521"
    using unat_mod_add [of a "ucast d"] Cons.prems d by (simp add: a1_def mod_simps)
  then have "unat a1 < 65521" by simp
  then have b1: "unat (mod_add a1 b) = (y + x + unat d) mod 65521"
    using unat_mod_add [of a1 b] Cons.prems(2)
    by (simp add: a1 Cons.prems(4) mod_add_eq ac_simps)
  then have "unat (mod_add a1 b) < 65521" by simp
  from Cons.IH [OF \<open>unat a1 < 65521\<close> this a1 b1]
  show ?case by (simp add: a1_def Let_def)
qed simp

lemma adler32_read_eq:
  assumes "unat a < 65521" "unat b < 65521"
  shows "adler32_read (a, b) = ucast a OR push_bit 16 (ucast b)"
  using assms by (simp add: adler32_read_def word_less_nat_alt)

lemma unat_or_shifted:
  fixes a b :: u32
  assumes "unat a < 65536" "unat b < 65536"
  shows "unat (a OR push_bit 16 b) = 65536 * unat b + unat a"
proof -
  have a: "a = take_bit 16 a" using assms(1) by (simp add: word_unat_eq_iff unsigned_take_bit_eq take_bit_nat_eq_self)
  have "a OR push_bit 16 b = a + push_bit 16 b"
  proof (subst disjunctive_add)
    show "\<not> bit a n \<or> \<not> bit (push_bit 16 b) n" for n
      by (subst a) (auto simp: bit_simps)
  qed simp
  moreover have "unat (push_bit 16 b) = 65536 * unat b"
    using assms(2) unat_push_bit_exact [of b 16] by simp
  ultimately show ?thesis using assms by (simp add: unat_plus_exact)
qed

lemma adler32_sums:
  "unat (adler32_read (adler32_write adler32_init buf)) =
     65536 * (snd (adler_sums (1, 0) buf) mod 65521) + fst (adler_sums (1, 0) buf) mod 65521"
proof -
  obtain a b where ab: "adler32_write adler32_init buf = (a, b)" by force
  have s: "unat a = fst (adler_sums (1, 0) buf) mod 65521" "unat b = snd (adler_sums (1, 0) buf) mod 65521"
    using adler32_write_sums [of 1 0 1 0 buf] ab by (simp_all add: adler32_init_def)
  then have l: "unat a < 65521" "unat b < 65521" by simp_all
  have u: "unat (ucast a :: u32) = unat a" "unat (ucast b :: u32) = unat b"
    using l by (simp_all add: unsigned_ucast_eq take_bit_nat_eq_self)
  show ?thesis
    unfolding ab adler32_read_eq [OF l] s [symmetric]
    using unat_or_shifted [of "ucast a" "ucast b"] l u by simp
qed

lemma xor_ones32: "c XOR 0xffffffff = NOT (c :: u32)"
proof -
  have "(0xffffffff :: u32) = mask 32" by (simp add: mask_eq_exp_minus_1)
  moreover have "c XOR mask 32 = NOT c" by (rule bit_word_eqI) (auto simp: bit_simps)
  ultimately show ?thesis by (simp only:)
qed

end
