(* ===== verification/Lost_Fs.thy ===== *)
theory Lost_Fs
  imports Checksums Misc
begin

text \<open>
  The tests of the lost partition search on boot sectors and superblocks
  (\<open>grub/rover/lostfs.c\<close> and the byte readers of \<open>grub/rover/lostint.h\<close>). A buffer is the list of the
  bytes from the pointer on; the out parameters of a test are its result, and \<open>None\<close> is the refusal.
  The callers give every test at least the bytes it looks at (\<open>LOST_WINDOW\<close> from a candidate on).
\<close>

subsection \<open>Reading fields\<close>

definition lost_le16 :: "bytes \<Rightarrow> nat \<Rightarrow> u16" where
  "lost_le16 p i = ucast (byte_at p i) OR push_bit 8 (ucast (byte_at p (i + 1)))"

definition lost_le32 :: "bytes \<Rightarrow> nat \<Rightarrow> u32" where
  "lost_le32 p i = ucast (byte_at p i) OR push_bit 8 (ucast (byte_at p (i + 1)))
     OR push_bit 16 (ucast (byte_at p (i + 2))) OR push_bit 24 (ucast (byte_at p (i + 3)))"

definition lost_le64 :: "bytes \<Rightarrow> nat \<Rightarrow> u64" where
  "lost_le64 p i = ucast (lost_le32 p i) OR push_bit 32 (ucast (lost_le32 p (i + 4)))"

definition lost_be16 :: "bytes \<Rightarrow> nat \<Rightarrow> u16" where
  "lost_be16 p i = push_bit 8 (ucast (byte_at p i)) OR ucast (byte_at p (i + 1))"

definition lost_be32 :: "bytes \<Rightarrow> nat \<Rightarrow> u32" where
  "lost_be32 p i = push_bit 24 (ucast (byte_at p i)) OR push_bit 16 (ucast (byte_at p (i + 1)))
     OR push_bit 8 (ucast (byte_at p (i + 2))) OR ucast (byte_at p (i + 3))"

definition lost_be64 :: "bytes \<Rightarrow> nat \<Rightarrow> u64" where
  "lost_be64 p i = push_bit 32 (ucast (lost_be32 p i)) OR ucast (lost_be32 p (i + 4))"

definition lost_is_pow2 :: "u64 \<Rightarrow> bool" where
  "lost_is_pow2 v \<longleftrightarrow> v \<noteq> 0 \<and> v AND (v - 1) = 0"

definition lost_round_up :: "u64 \<Rightarrow> u64 \<Rightarrow> u64" where
  "lost_round_up v align = (v + align - 1) div align * align"

definition ascii :: "string \<Rightarrow> bytes" where
  "ascii s = map of_char s"

text \<open>\<open>grub_memcmp (p + off, "...", length) == 0\<close>.\<close>

definition has_text :: "bytes \<Rightarrow> nat \<Rightarrow> bytes \<Rightarrow> bool" where
  "has_text p off t \<longleftrightarrow> grub_memcmp (drop off p) t (length t) = 0"

abbreviation LOST_WINDOW :: nat where "LOST_WINDOW \<equiv> 69632"
abbreviation LOST_SB_1K :: nat where "LOST_SB_1K \<equiv> 1024"
abbreviation LOST_BTRFS_SB :: nat where "LOST_BTRFS_SB \<equiv> 65536"
abbreviation LOST_BTRFS_SB_SIZE :: nat where "LOST_BTRFS_SB_SIZE \<equiv> 4096"
abbreviation LOST_UFS1_SB :: nat where "LOST_UFS1_SB \<equiv> 8192"
abbreviation LOST_UFS2_SB :: nat where "LOST_UFS2_SB \<equiv> 65536"
abbreviation LOST_JFS_SB :: nat where "LOST_JFS_SB \<equiv> 0x8000"
abbreviation LOST_JFS_SB2 :: nat where "LOST_JFS_SB2 \<equiv> 0xf000"
abbreviation LOST_JFS_SB_SIZE :: nat where "LOST_JFS_SB_SIZE \<equiv> 4096"
abbreviation LOST_REISERFS_SB :: nat where "LOST_REISERFS_SB \<equiv> 65536"
abbreviation LOST_VRS :: nat where "LOST_VRS \<equiv> 32768"

text \<open>The type of a result; the code keeps it as one of these strings and compares with \<open>grub_strcmp\<close>.\<close>

datatype lost_type = Ntfs | Fat12 | Fat16 | Fat32 | Exfat | Ext2 | Ext3 | Ext4 | Xfs | Btrfs | Hfs | Hfsplus
  | Hfsx | Apfs | Refs | F2fs | Ufs | Ufs2 | Jfs | Reiserfs | Iso9660 | Udf | Table_Partition

fun type_text :: "lost_type \<Rightarrow> string" where
  "type_text Ntfs = ''ntfs''" | "type_text Fat12 = ''fat12''" | "type_text Fat16 = ''fat16''"
| "type_text Fat32 = ''fat32''" | "type_text Exfat = ''exfat''" | "type_text Ext2 = ''ext2''"
| "type_text Ext3 = ''ext3''" | "type_text Ext4 = ''ext4''" | "type_text Xfs = ''xfs''"
| "type_text Btrfs = ''btrfs''" | "type_text Hfs = ''hfs''" | "type_text Hfsplus = ''hfsplus''"
| "type_text Hfsx = ''hfsx''" | "type_text Apfs = ''apfs''" | "type_text Refs = ''refs''"
| "type_text F2fs = ''f2fs''" | "type_text Ufs = ''ufs''" | "type_text Ufs2 = ''ufs2''"
| "type_text Jfs = ''jfs''" | "type_text Reiserfs = ''reiserfs''" | "type_text Iso9660 = ''iso9660''"
| "type_text Udf = ''udf''" | "type_text Table_Partition = ''partition''"

subsection \<open>NTFS, FAT and exFAT\<close>

text \<open>The size and the bytes per sector.\<close>

definition lost_ntfs :: "bytes \<Rightarrow> (u64 \<times> u32) option" where
  "lost_ntfs bs =
     (let bps = ucast (lost_le16 bs 0x0b) :: u32;
          spc = ucast (byte_at bs 0x0d) :: u32;
          sectors = lost_le64 bs 0x28
      in if lost_le16 bs 0x1fe \<noteq> 0xaa55 \<or> \<not> has_text bs 3 (ascii ''NTFS'')
            \<or> lost_le16 bs 0x0e \<noteq> 0 \<or> byte_at bs 0x10 \<noteq> 0 \<or> lost_le16 bs 0x11 \<noteq> 0
            \<or> lost_le16 bs 0x13 \<noteq> 0 \<or> lost_le16 bs 0x16 \<noteq> 0 \<or> lost_le32 bs 0x20 \<noteq> 0 then None
         else if bps < 256 \<or> bps > 4096 \<or> \<not> lost_is_pow2 (ucast bps) then None
         else if \<not> (spc \<le> 0x80 \<and> lost_is_pow2 (ucast spc)) \<and> \<not> (spc \<ge> 0xf4 \<and> spc \<le> 0xf8) then None
         else if sectors = 0 \<or> sectors \<ge> push_bit 52 1 then None
         else Some ((sectors + 1) * ucast bps, bps))"

text \<open>The type and the least length of the table by the number of clusters.\<close>

definition fat_kind :: "bytes \<Rightarrow> u32 \<Rightarrow> u32 \<Rightarrow> u32 \<Rightarrow> (lost_type \<times> u32) option" where
  "fat_kind bs sector_size dir_entries clusters =
     (if clusters < 4085 then
        if dir_entries = 0 \<or> dir_entries mod 16 \<noteq> 0 \<or> lost_le16 bs 0x16 > 256 then None
        else Some (Fat12, (clusters + 2 + sector_size * 2 div 3 - 1) * 3 div 2 div sector_size)
      else if clusters < 65525 then
        if lost_le16 bs 0x16 = 0 \<or> dir_entries = 0 \<or> dir_entries mod 16 \<noteq> 0 then None
        else Some (Fat16, (clusters + 2 + sector_size div 2 - 1) * 2 div sector_size)
      else
        let root = lost_le32 bs 0x2c
        in if lost_le16 bs 0x13 \<noteq> 0 \<or> dir_entries \<noteq> 0 \<or> root < 2 \<or> root \<ge> 2 + clusters then None
           else Some (Fat32, ucast (((ucast clusters :: u64) + 2 + ucast (sector_size div 4) - 1) * 4 div ucast sector_size)))"

definition lost_fat :: "bytes \<Rightarrow> u32 \<Rightarrow> (lost_type \<times> u64) option" where
  "lost_fat bs sector_size =
     (let spc = ucast (byte_at bs 0x0d) :: u32;
          fats = ucast (byte_at bs 0x10) :: u32;
          fat_length = (if lost_le16 bs 0x16 \<noteq> 0 then ucast (lost_le16 bs 0x16) else lost_le32 bs 0x24) :: u32;
          total = (if lost_le16 bs 0x13 \<noteq> 0 then ucast (lost_le16 bs 0x13) else lost_le32 bs 0x20) :: u32;
          reserved = ucast (lost_le16 bs 0x0e) :: u32;
          dir_entries = ucast (lost_le16 bs 0x11) :: u32;
          start_data = ucast reserved + ucast fats * ucast fat_length
            + ucast ((dir_entries * 32 + sector_size - 1) div sector_size) :: u64;
          clusters = ucast ((ucast total - start_data) div ucast spc) :: u32
      in if lost_le16 bs 0x1fe \<noteq> 0xaa55
            \<or> \<not> ((byte_at bs 0 = 0xeb \<and> byte_at bs 2 = 0x90) \<or> byte_at bs 0 = 0xe9) then None
         else if spc > 128 \<or> \<not> lost_is_pow2 (ucast spc) \<or> (fats \<noteq> 1 \<and> fats \<noteq> 2)
            \<or> ucast (lost_le16 bs 0x0b) \<noteq> sector_size \<or> (byte_at bs 0x15 \<noteq> 0xf0 \<and> byte_at bs 0x15 < 0xf8) then None
         else if reserved = 0 \<or> fat_length = 0 then None
         else if start_data \<ge> ucast total then None
         else case fat_kind bs sector_size dir_entries clusters of
                None \<Rightarrow> None
              | Some (type, calc) \<Rightarrow>
                  if fat_length < calc then None else Some (type, ucast total * ucast sector_size))"

text \<open>The shift of the sector size and the size.\<close>

definition lost_exfat :: "bytes \<Rightarrow> (u32 \<times> u64) option" where
  "lost_exfat bs =
     (let shift = ucast (byte_at bs 0x6c) :: u32;
          sectors = lost_le64 bs 0x48
      in if lost_le16 bs 0x1fe \<noteq> 0xaa55 \<or> \<not> has_text bs 3 (ascii ''EXFAT   '') then None
         else if \<not> list_all (\<lambda>i. byte_at bs i = 0) [0x0b..<0x40] then None
         else if shift < 9 \<or> shift > 12 \<or> ucast (byte_at bs 0x6d) > 25 - shift
            \<or> (byte_at bs 0x6e \<noteq> 1 \<and> byte_at bs 0x6e \<noteq> 2) then None
         else if sectors = 0 \<or> sectors \<ge> push_bit (64 - unat shift) 1 then None
         else Some (shift, push_bit (unat shift) sectors))"

subsection \<open>ext2 to ext4, XFS and Btrfs\<close>

definition ext_blocks :: "bytes \<Rightarrow> u64" where
  "ext_blocks sb =
     (if lost_le32 sb 0x60 AND 0x80 \<noteq> 0
      then ucast (lost_le32 sb 0x04) OR push_bit 32 (ucast (lost_le32 sb 0x150))
      else ucast (lost_le32 sb 0x04))"

definition ext_free_blocks :: "bytes \<Rightarrow> u64" where
  "ext_free_blocks sb =
     (if lost_le32 sb 0x60 AND 0x80 \<noteq> 0
      then ucast (lost_le32 sb 0x0c) OR push_bit 32 (ucast (lost_le32 sb 0x158))
      else ucast (lost_le32 sb 0x0c))"

text \<open>The type, the size, and where this copy of the superblock lies in the file system.\<close>

definition lost_ext :: "bytes \<Rightarrow> (lost_type \<times> u64 \<times> u64) option" where
  "lost_ext sb =
     (let compat = lost_le32 sb 0x5c;
          incompat = lost_le32 sb 0x60;
          ro_compat = lost_le32 sb 0x64;
          blocks = ext_blocks sb;
          errors = ucast (lost_le16 sb 0x3c) :: u32;
          log_bs = lost_le32 sb 0x18;
          bpg = lost_le32 sb 0x20;
          size = push_bit (10 + unat log_bs) blocks;
          group = ucast (lost_le16 sb 0x5a) :: u32;
          sb_offset = (if group \<noteq> 0
            then push_bit (10 + unat log_bs) (ucast (lost_le32 sb 0x14) + ucast group * ucast bpg :: u64)
            else of_nat LOST_SB_1K)
      in if lost_le16 sb 0x38 \<noteq> 0xef53 then None
         else if ext_free_blocks sb > blocks \<or> lost_le32 sb 0x10 > lost_le32 sb 0x00 \<or> errors > 3
            \<or> (ucast (lost_le16 sb 0x3a) :: u32) AND NOT 3 \<noteq> 0 \<or> blocks = 0 \<or> log_bs > 6 \<or> bpg = 0
            \<or> blocks \<ge> push_bit (54 - unat log_bs) 1 then None
         else if ro_compat AND (0x08 OR 0x10 OR 0x20 OR 0x40) \<noteq> 0 \<or> incompat AND (0x80 OR 0x100) \<noteq> 0
         then Some (Ext4, size, sb_offset)
         else if compat AND 0x04 \<noteq> 0 then Some (Ext3, size, sb_offset)
         else Some (Ext2, size, sb_offset))"

text \<open>The size, the size of an allocation group and the sector size.\<close>

definition lost_xfs :: "bytes \<Rightarrow> (u64 \<times> u64 \<times> u32) option" where
  "lost_xfs sb =
     (let dblocks = lost_be64 sb 8;
          agblocks = lost_be32 sb 84;
          agcount = lost_be32 sb 88;
          version = ucast (lost_be16 sb 100) AND 0xf :: u32;
          blocklog = byte_at sb 120;
          sectlog = byte_at sb 121;
          inodelog = byte_at sb 122
      in if lost_be32 sb 0 \<noteq> 0x58465342
            \<or> blocklog < 9 \<or> blocklog > 16 \<or> sectlog < 9 \<or> sectlog > blocklog
            \<or> inodelog < 8 \<or> inodelog > 11
            \<or> lost_be32 sb 4 \<noteq> push_bit (unat blocklog) 1
            \<or> ucast (lost_be16 sb 102) \<noteq> (push_bit (unat sectlog) 1 :: u32)
            \<or> ucast (lost_be16 sb 104) \<noteq> (push_bit (unat inodelog) 1 :: u32)
            \<or> version < 1 \<or> version > 5
            \<or> dblocks = 0 \<or> agblocks = 0 \<or> agcount = 0
            \<or> dblocks > ucast agcount * ucast agblocks then None
         else Some (push_bit (unat blocklog) dblocks, push_bit (unat blocklog) (ucast agblocks),
                    push_bit (unat sectlog) 1))"

text \<open>The size and where this copy of the superblock lies on the device.\<close>

definition lost_btrfs :: "bytes \<Rightarrow> (u64 \<times> u64) option" where
  "lost_btrfs sb =
     (let sectorsize = lost_le32 sb 144;
          nodesize = lost_le32 sb 148;
          bytenr = lost_le64 sb 48;
          size = lost_le64 sb (201 + 8)
      in if \<not> has_text sb 64 (ascii ''_BHRfS_M'') then None
         else if (bytenr \<noteq> of_nat LOST_BTRFS_SB \<and> bytenr \<noteq> push_bit 20 64 \<and> bytenr \<noteq> push_bit 30 256)
            \<or> lost_le64 sb 136 \<noteq> 1
            \<or> sectorsize < 4096 \<or> sectorsize > 65536 \<or> \<not> lost_is_pow2 (ucast sectorsize)
            \<or> nodesize < sectorsize \<or> nodesize > 65536 \<or> \<not> lost_is_pow2 (ucast nodesize)
            \<or> lost_le32 sb (201 + 32) = 0 then None
         else if lost_le16 sb 196 = 0
            \<and> lost_le32 sb 0 \<noteq> grub_getcrc32c 0 (bslice 32 (LOST_BTRFS_SB_SIZE - 32) sb) then None
         else if size \<noteq> 0 then Some (size, bytenr) else None)"

subsection \<open>HFS, APFS and ReFS\<close>

definition lost_hfs :: "bytes \<Rightarrow> (lost_type \<times> u64) option" where
  "lost_hfs b =
     (let sig = lost_be16 b 0
      in if sig = 0x4244 then
           (let blocks = lost_be16 b 0x12;
                block_size = lost_be32 b 0x14;
                size = ucast blocks * ucast block_size + ucast (lost_be16 b 0x1c) * 512 + 0x400 :: u64
            in if block_size < 512 \<or> \<not> lost_is_pow2 (ucast block_size) \<or> blocks = 0
                  \<or> lost_be16 b 0x22 > blocks \<or> lost_be16 b 0x0e \<noteq> 3 \<or> lost_be16 b 0x1c \<le> 3
                  \<or> byte_at b 0x24 > 27 \<or> lost_be32 b 0x18 mod block_size \<noteq> 0 then None
               else if size > push_bit 30 2049 then None
               else Some (Hfs, size))
         else if \<not> (sig = 0x482b \<and> lost_be16 b 2 = 4) \<and> \<not> (sig = 0x4858 \<and> lost_be16 b 2 = 5) then None
         else
           (let block_size = lost_be32 b 0x28;
                total = lost_be32 b 0x2c
            in if lost_be32 b 0x30 > total \<or> total = 0 \<or> block_size < 512 \<or> \<not> lost_is_pow2 (ucast block_size) then None
               else Some (if sig = 0x482b then Hfsplus else Hfsx, ucast total * ucast block_size)))"

text \<open>The two sums over the block behind the checksum, then over the checksum; the turns are at 8, 12, ...\<close>

definition apfs_sums :: "bytes \<Rightarrow> nat \<Rightarrow> u64 \<times> u64" where
  "apfs_sums b block_size =
     fold (\<lambda>k (sum1, sum2).
         let i = 8 + 4 * k;
             s1 = (sum1 + ucast (lost_le32 b (if i < block_size then i else i - block_size))) mod 0xffffffff
         in (s1, (sum2 + s1) mod 0xffffffff))
       [0..<block_size div 4] (0, 0)"

definition lost_apfs :: "bytes \<Rightarrow> nat \<Rightarrow> u64 option" where
  "lost_apfs b avail =
     (let block_size = lost_le32 b 36;
          blocks = lost_le64 b 40
      in if lost_le32 b 32 \<noteq> 0x4253584e \<or> lost_le32 b 24 AND 0xffff \<noteq> 1
            \<or> block_size < 4096 \<or> block_size > 65536 \<or> \<not> lost_is_pow2 (ucast block_size)
            \<or> unat block_size > avail \<or> blocks = 0 \<or> blocks \<ge> push_bit 48 1
            \<or> ucast (lost_le32 b 104) + ucast (lost_le32 b 108) > blocks then None
         else if apfs_sums b (unat block_size) \<noteq> (0, 0) then None
         else Some (blocks * ucast block_size))"

definition lost_refs :: "bytes \<Rightarrow> u64 option" where
  "lost_refs bs =
     (let sectors = lost_le64 bs 0x18;
          bps = lost_le32 bs 0x20;
          cluster = ucast bps * ucast (lost_le32 bs 0x24) :: u64
      in if \<not> has_text bs 3 (ascii ''ReFS'') \<or> \<not> has_text bs 0x10 (ascii ''FSRS'')
            \<or> bps < 512 \<or> bps > 4096 \<or> \<not> lost_is_pow2 (ucast bps)
            \<or> cluster < 4096 \<or> cluster > 65536 \<or> \<not> lost_is_pow2 cluster
            \<or> (byte_at bs 0x28 \<noteq> 1 \<and> byte_at bs 0x28 \<noteq> 3)
            \<or> sectors = 0 \<or> sectors \<ge> push_bit 52 1 then None
         else Some (sectors * ucast bps))"

subsection \<open>F2FS, UFS, JFS and ReiserFS\<close>

definition lost_f2fs :: "bytes \<Rightarrow> u64 option" where
  "lost_f2fs sb =
     (let log_sector = lost_le32 sb 8;
          blocks = lost_le64 sb 36
      in if lost_le32 sb 0 \<noteq> 0xf2f52010 \<or> lost_le32 sb 16 \<noteq> 12 \<or> log_sector < 9 \<or> log_sector > 12
            \<or> log_sector + lost_le32 sb 12 \<noteq> 12 \<or> blocks = 0 \<or> blocks \<ge> push_bit 52 1 then None
         else Some (push_bit 12 blocks))"

text \<open>The byte order and whether it is UFS2, by the magic number.\<close>

definition ufs_magic :: "bytes \<Rightarrow> (bool \<times> bool) option" where
  "ufs_magic sb =
     (let magic_le = lost_le32 sb 1372; magic_be = lost_be32 sb 1372
      in if magic_le = 0x00011954 \<or> magic_le = 0x19540119 then Some (False, magic_le = 0x19540119)
         else if magic_be = 0x00011954 \<or> magic_be = 0x19540119 then Some (True, magic_be = 0x19540119)
         else None)"

definition ufs_32 :: "bool \<Rightarrow> bytes \<Rightarrow> nat \<Rightarrow> u32" where
  "ufs_32 be sb i = (if be then lost_be32 sb i else lost_le32 sb i)"

definition ufs_64 :: "bool \<Rightarrow> bytes \<Rightarrow> nat \<Rightarrow> u64" where
  "ufs_64 be sb i = (if be then lost_be64 sb i else lost_le64 sb i)"

definition lost_ufs :: "bytes \<Rightarrow> u64 \<Rightarrow> (lost_type \<times> u64) option" where
  "lost_ufs sb at =
     (case ufs_magic sb of
        None \<Rightarrow> None
      | Some (be, ufs2) \<Rightarrow>
          let fsize = ufs_32 be sb 52;
              bsize = ufs_32 be sb 48;
              blocks = (if ufs2 then ufs_64 be sb 1080 else ucast (ufs_32 be sb 36));
              location = ufs_64 be sb 1000
          in if (if location = of_nat LOST_UFS1_SB \<or> location = of_nat LOST_UFS2_SB then location \<noteq> at
                 else at \<noteq> (if ufs2 then of_nat LOST_UFS2_SB else of_nat LOST_UFS1_SB)) then None
             else if fsize < 512 \<or> fsize > 4096 \<or> \<not> lost_is_pow2 (ucast fsize)
                \<or> bsize < fsize \<or> bsize > 65536 \<or> \<not> lost_is_pow2 (ucast bsize) \<or> bsize div fsize > 8
                \<or> ufs_32 be sb 44 = 0 \<or> blocks = 0 \<or> blocks \<ge> push_bit 52 1 then None
             else Some (if ufs2 then Ufs2 else Ufs, blocks * ucast fsize))"

definition lost_jfs :: "bytes \<Rightarrow> u64 option" where
  "lost_jfs sb =
     (let bsize = lost_le32 sb 16;
          pbsize = lost_le32 sb 24;
          blocks = lost_le64 sb 8
      in if \<not> has_text sb 0 (ascii ''JFS1'')
            \<or> bsize < 512 \<or> bsize > 4096 \<or> \<not> lost_is_pow2 (ucast bsize)
            \<or> pbsize < 512 \<or> pbsize > 4096 \<or> \<not> lost_is_pow2 (ucast pbsize)
            \<or> blocks = 0 \<or> blocks \<ge> push_bit 50 1 then None
         else Some (blocks * ucast pbsize
                + ucast bsize * ucast ((lost_le32 sb 72 AND 0xffffff) + (lost_le32 sb 80 AND 0xffffff))))"

text \<open>The lengths compared count the zero that ends the text in the code.\<close>

definition lost_reiserfs :: "bytes \<Rightarrow> u64 option" where
  "lost_reiserfs sb =
     (let blocks = lost_le32 sb 0;
          block_size = lost_le16 sb 0x2c;
          oid_max = lost_le16 sb 0x2e;
          state = lost_le16 sb 0x32
      in if (\<not> has_text sb 0x34 (ascii ''ReIsErFs'' @ [0]) \<and> \<not> has_text sb 0x34 (ascii ''ReIsEr2Fs'' @ [0])
              \<and> \<not> has_text sb 0x34 (ascii ''ReIsEr3Fs'' @ [0]))
            \<or> blocks < lost_le32 sb 4 \<or> blocks < 100 \<or> (state \<noteq> 1 \<and> state \<noteq> 2)
            \<or> oid_max mod 2 \<noteq> 0 \<or> oid_max < lost_le16 sb 0x30 \<or> (block_size \<noteq> 4096 \<and> block_size \<noteq> 8192) then None
         else Some (ucast blocks * ucast block_size))"

subsection \<open>ISO 9660, UDF and extended boot records\<close>

definition lost_iso :: "bytes \<Rightarrow> u64 option" where
  "lost_iso pvd =
     (let blocks = lost_le32 pvd 80;
          block_size = lost_le16 pvd 128
      in if \<not> has_text pvd 0 (1 # ascii ''CD001'' @ [1])
            \<or> blocks \<noteq> lost_be32 pvd 84 \<or> block_size \<noteq> lost_be16 pvd 130
            \<or> block_size < 512 \<or> block_size > 2048 \<or> \<not> lost_is_pow2 (ucast block_size) \<or> blocks \<le> 16 then None
         else Some (ucast blocks * ucast block_size))"

text \<open>The loop over the descriptors, by the number of positions that are left.\<close>

fun udf_vrs_loop :: "bytes \<Rightarrow> nat \<Rightarrow> nat \<Rightarrow> nat \<Rightarrow> bool \<Rightarrow> bool" where
  "udf_vrs_loop buf step at 0 extended = False"
| "udf_vrs_loop buf step at (Suc n) extended =
     (if has_text buf (at + 1) (ascii ''BEA01'') then udf_vrs_loop buf step (at + step) n True
      else if extended \<and> (has_text buf (at + 1) (ascii ''NSR02'') \<or> has_text buf (at + 1) (ascii ''NSR03'')) then True
      else if \<not> has_text buf (at + 1) (ascii ''CD001'') \<and> \<not> has_text buf (at + 1) (ascii ''BOOT2'') then False
      else udf_vrs_loop buf step (at + step) n extended)"

definition lost_udf_vrs :: "bytes \<Rightarrow> u32 \<Rightarrow> bool" where
  "lost_udf_vrs buf sector_size =
     (let step = (if sector_size > 2048 then unat sector_size else 2048)
      in udf_vrs_loop buf step LOST_VRS ((LOST_WINDOW - 6 - LOST_VRS) div step + 1) False)"

definition lost_udf_tag :: "bytes \<Rightarrow> u16 \<Rightarrow> u32 \<Rightarrow> bool" where
  "lost_udf_tag tag ident location \<longleftrightarrow>
     fold (\<lambda>i sum. if i \<noteq> 4 then sum + byte_at tag i else sum) [0..<16] 0 = byte_at tag 4
     \<and> lost_le16 tag 0 = ident \<and> lost_le32 tag 12 = location"

text \<open>The start and the length in sectors of the logical partition.\<close>

definition lost_ebr :: "bytes \<Rightarrow> (u32 \<times> u32) option" where
  "lost_ebr b =
     (let e0 = drop 0x1be b; e1 = drop 16 e0;
          t0 = byte_at e0 4; t1 = byte_at e1 4;
          start = lost_le32 e0 8; count = lost_le32 e0 12
      in if lost_le16 b 0x1fe \<noteq> 0xaa55 \<or> byte_at e0 0 AND 0x7f \<noteq> 0 \<or> byte_at e1 0 AND 0x7f \<noteq> 0 then None
         else if \<not> list_all (\<lambda>i. byte_at e0 i = 0) [32..<64] then None
         else if t0 = 0 \<or> t0 = 0x05 \<or> t0 = 0x0f \<or> t0 = 0x85 \<or> t0 = 0xee
            \<or> (t1 \<noteq> 0 \<and> t1 \<noteq> 0x05 \<and> t1 \<noteq> 0x0f \<and> t1 \<noteq> 0x85) then None
         else if start \<noteq> 0 \<and> count \<noteq> 0 then Some (start, count) else None)"

end
