(* ===== verification/Lost_State.thy ===== *)
theory Lost_State
  imports Lost_Fs Errors "HOL-Library.Monad_Syntax"
begin

text \<open>
  The state of the lost partition search (\<open>struct rover_lost_scan\<close> of \<open>grub/rover/lostint.h\<close>,
  \<open>struct rover_lost_part\<close> of \<open>grub/rover/rover.h\<close>) and the operations of \<open>grub/rover/lostpart.c\<close> and
  \<open>losttable.c\<close> on its lists: hints, ranges stepped over, table entries. The disk of the scan and
  all that lies outside of it is the component \<open>sc_world\<close>; what the search calls there is the
  record \<open>lost_env\<close>. The scratch buffers are local values of the operations that fill them.
\<close>

record lost_range =
  r_start :: u64
  r_end :: u64
  r_readable :: bool

record lost_found =
  f_start :: u64
  f_size :: u64
  f_type :: lost_type

record lost_table =
  t_start :: u64
  t_size :: u64
  t_claimed :: bool

datatype lost_skip_state = LOST_SKIP_PASSED | LOST_SKIP_QUEUED | LOST_SKIP_DONE

record lost_skip =
  sk_from :: u64
  sk_to :: u64
  sk_state :: lost_skip_state

text \<open>The number of remaps is the length of the list; \<open>ROVER_LOST_REMAP_MAX\<close> bounds it.\<close>

record rover_lost_remap =
  rm_target :: u64
  rm_source :: u64
  rm_length :: u64

abbreviation ROVER_LOST_REMAP_MAX :: nat where "ROVER_LOST_REMAP_MAX \<equiv> 2"

record lost_hit =
  h_start :: u64
  h_size :: u64
  h_type :: lost_type
  h_backup :: bool
  h_remap :: "rover_lost_remap list"

record rover_lost_part =
  p_offset :: u64
  p_size :: u64
  p_type :: lost_type
  p_fs :: "string option"
  p_label :: "string option"
  p_fs_uuid :: "string option"
  p_flags :: u32
  p_window :: u64
  p_remap :: "rover_lost_remap list"

record 'w rover_lost_scan =
  sc_world :: 'w
  sc_size :: u64
  sc_sector_size :: u32
  sc_flags :: u32
  sc_pos :: u64
  sc_limit :: u64
  sc_done :: bool
  sc_rescanning :: bool
  sc_finishing :: bool
  sc_base_readable :: bool
  sc_ranges :: "lost_range list"
  sc_hints :: "u64 list"
  sc_hints_alloc :: nat
  sc_found :: "lost_found list"
  sc_found_alloc :: nat
  sc_tables :: "lost_table list"
  sc_tables_alloc :: nat
  sc_next_table :: nat
  sc_skips :: "lost_skip list"
  sc_skips_alloc :: nat
  sc_pending :: "lost_hit list"
  sc_pending_alloc :: nat
  sc_next_pending :: nat
  sc_pending_ready :: bool

abbreviation LOST_MIB :: u64 where "LOST_MIB \<equiv> 1048576"
abbreviation LOST_TRACK :: u64 where "LOST_TRACK \<equiv> 32256"
abbreviation LOST_CYLINDER :: u64 where "LOST_CYLINDER \<equiv> 8225280"
abbreviation LOST_AUX :: u32 where "LOST_AUX \<equiv> 65536"

abbreviation ROVER_LOST_SCAN_EXT_BACKUP :: u32 where "ROVER_LOST_SCAN_EXT_BACKUP \<equiv> 1"
abbreviation ROVER_LOST_SCAN_DEEP :: u32 where "ROVER_LOST_SCAN_DEEP \<equiv> 2"

definition ROVER_LOST_BACKUP :: u32 where "ROVER_LOST_BACKUP = 0x01"
definition ROVER_LOST_VERIFIED :: u32 where "ROVER_LOST_VERIFIED = 0x02"
definition ROVER_LOST_EXISTING :: u32 where "ROVER_LOST_EXISTING = 0x04"
definition ROVER_LOST_OVERLAP :: u32 where "ROVER_LOST_OVERLAP = 0x08"
definition ROVER_LOST_TRUNCATED :: u32 where "ROVER_LOST_TRUNCATED = 0x10"
definition ROVER_LOST_TABLE :: u32 where "ROVER_LOST_TABLE = 0x20"

lemmas lost_flags = ROVER_LOST_BACKUP_def ROVER_LOST_VERIFIED_def ROVER_LOST_EXISTING_def
  ROVER_LOST_OVERLAP_def ROVER_LOST_TRUNCATED_def ROVER_LOST_TABLE_def

text \<open>
  What lies outside: \<open>grub_disk_read\<close> on the disk of the scan (sector, offset, length), the probe of
  \<open>lostdisk.c\<close> (start and length in sectors, remaps; the driver's name, the label and the uuid), the
  caller's hook, the allocator and the error variable. A call that is \<open>None\<close> does not return.
\<close>

record 'w lost_env =
  le_read :: "u64 \<Rightarrow> u64 \<Rightarrow> nat \<Rightarrow> 'w \<Rightarrow> ((grub_err_t \<times> bytes) \<times> 'w) option"
  le_probe :: "u64 \<Rightarrow> u64 \<Rightarrow> rover_lost_remap list \<Rightarrow> 'w
    \<Rightarrow> ((grub_err_t \<times> string option \<times> string option \<times> string option) \<times> 'w) option"
  le_hook :: "rover_lost_part \<Rightarrow> 'w \<Rightarrow> (bool \<times> 'w) option"
  le_malloc :: "'w \<Rightarrow> bool \<times> 'w"
  le_errno :: "'w \<Rightarrow> grub_err_t"
  le_set_errno :: "grub_err_t \<Rightarrow> 'w \<Rightarrow> 'w"
  le_error :: "grub_err_t \<Rightarrow> string \<Rightarrow> 'w \<Rightarrow> 'w"

definition set_world :: "'w \<Rightarrow> 'w rover_lost_scan \<Rightarrow> 'w rover_lost_scan" where
  "set_world w scan = scan\<lparr> sc_world := w \<rparr>"

subsection \<open>Reading and memory\<close>

text \<open>\<open>lost_read\<close>: \<open>None\<close> in the result is the return of -1, with the error dropped.\<close>

definition lost_read :: "'w lost_env \<Rightarrow> u64 \<Rightarrow> nat \<Rightarrow> 'w rover_lost_scan \<Rightarrow> (bytes option \<times> 'w rover_lost_scan) option" where
  "lost_read env offset len scan =
     do { ((e, buf), w) \<leftarrow> le_read env (drop_bit 9 offset) (offset AND 511) len (sc_world scan);
          if e \<noteq> GRUB_ERR_NONE then Some (None, set_world (le_set_errno env GRUB_ERR_NONE w) scan)
          else Some (Some buf, set_world w scan) }"

text \<open>
  The growth of a list that has \<open>n\<close> entries and room for \<open>alloc\<close>: the room after it, or \<open>None\<close> when
  \<open>grub_realloc\<close> fails.
\<close>

definition lost_grow :: "'w lost_env \<Rightarrow> nat \<Rightarrow> nat \<Rightarrow> nat \<Rightarrow> 'w rover_lost_scan \<Rightarrow> nat option \<times> 'w rover_lost_scan" where
  "lost_grow env n alloc first scan =
     (if n = alloc then
        (case le_malloc env (sc_world scan) of
           (ok, w) \<Rightarrow> (if ok then Some (if alloc \<noteq> 0 then alloc * 2 else first) else None, set_world w scan))
      else (Some alloc, scan))"

subsection \<open>Hints\<close>

text \<open>The binary search of \<open>lost_add_hint\<close> and \<open>lost_next\<close>: the first hint that is not below \<open>offset\<close>.\<close>

function lost_lower :: "u64 list \<Rightarrow> u64 \<Rightarrow> nat \<Rightarrow> nat \<Rightarrow> nat" where
  "lost_lower hints offset lo hi =
     (if lo < hi then
        let mid = lo + (hi - lo) div 2
        in if hints ! mid < offset then lost_lower hints offset (mid + 1) hi
           else lost_lower hints offset lo mid
      else lo)"
  by pat_completeness auto
termination
  by (relation "measure (\<lambda>(_, _, lo, hi). hi - lo)") auto

declare lost_lower.simps [simp del]

text \<open>Of the integer a function returns, true stands for -1, the failure.\<close>

definition lost_add_hint :: "'w lost_env \<Rightarrow> u64 \<Rightarrow> 'w rover_lost_scan \<Rightarrow> bool \<times> 'w rover_lost_scan" where
  "lost_add_hint env offset scan =
     (let hints = sc_hints scan; lo = lost_lower hints offset 0 (length hints)
      in if offset > sc_size scan \<or> offset mod ucast (sc_sector_size scan) \<noteq> 0 then (False, scan)
         else if lo < length hints \<and> hints ! lo = offset then (False, scan)
         else case lost_grow env (length hints) (sc_hints_alloc scan) 64 scan of
                (None, scan1) \<Rightarrow> (True, scan1)
              | (Some alloc, scan1) \<Rightarrow>
                  (False, scan1\<lparr> sc_hints_alloc := alloc, sc_hints := take lo hints @ offset # drop lo hints \<rparr>))"

text \<open>The calls of a condition with \<open>||\<close>, up to the first that fails.\<close>

fun add_hints :: "'w lost_env \<Rightarrow> u64 list \<Rightarrow> 'w rover_lost_scan \<Rightarrow> bool \<times> 'w rover_lost_scan" where
  "add_hints env [] scan = (False, scan)"
| "add_hints env (h # hs) scan =
     (case lost_add_hint env h scan of
        (True, scan1) \<Rightarrow> (True, scan1)
      | (False, scan1) \<Rightarrow> add_hints env hs scan1)"

definition lost_add_end_hints :: "'w lost_env \<Rightarrow> u64 \<Rightarrow> 'w rover_lost_scan \<Rightarrow> bool \<times> 'w rover_lost_scan" where
  "lost_add_end_hints env end scan =
     (let track = lost_round_up end LOST_TRACK
      in case lost_add_hint env end scan of
           (True, scan1) \<Rightarrow> (True, scan1)
         | (False, scan1) \<Rightarrow>
             if sc_sector_size scan1 \<noteq> 512 then (False, scan1)
             else add_hints env [end + LOST_TRACK, track, track + LOST_TRACK] scan1)"

text \<open>The smallest candidate offset at or after \<open>from\<close>.\<close>

definition next_head :: "u64 \<Rightarrow> u64 \<Rightarrow> u64 \<Rightarrow> u64" where
  "next_head from head best =
     (let c0 = from div LOST_CYLINDER * LOST_CYLINDER + head * LOST_TRACK;
          c = (if c0 < from then c0 + LOST_CYLINDER else c0)
      in if c < best then c else best)"

definition lost_next :: "'w rover_lost_scan \<Rightarrow> u64 \<Rightarrow> u64" where
  "lost_next scan from =
     (let best0 = lost_round_up from LOST_MIB;
          best1 = (if sc_sector_size scan = 512 then fold (next_head from) [0, 1, 2] best0 else best0);
          hints = sc_hints scan;
          lo = lost_lower hints from 0 (length hints);
          best2 = (if lo < length hints \<and> hints ! lo < best1 then hints ! lo else best1)
      in if best2 > sc_size scan then sc_size scan + 1 else best2)"

subsection \<open>Ranges that were stepped over\<close>

definition lost_conflict :: "u64 \<Rightarrow> 'w rover_lost_scan \<Rightarrow> 'w rover_lost_scan" where
  "lost_conflict start scan =
     scan\<lparr> sc_skips := map (\<lambda>sk. if sk_state sk = LOST_SKIP_PASSED \<and> sk_from sk \<le> start \<and> start < sk_to sk
                                then sk\<lparr> sk_state := LOST_SKIP_QUEUED \<rparr> else sk) (sc_skips scan) \<rparr>"

definition lost_evidence :: "'w rover_lost_scan \<Rightarrow> u64 \<Rightarrow> u64 \<Rightarrow> bool" where
  "lost_evidence scan from to \<longleftrightarrow>
     list_ex (\<lambda>t. t_start t \<ge> from \<and> t_start t < to) (sc_tables scan)
     \<or> list_ex (\<lambda>r. \<not> r_readable r \<and> r_start r \<ge> from \<and> r_start r < to) (sc_ranges scan)
     \<or> list_ex (\<lambda>f. f_start f \<ge> from \<and> f_start f < to) (sc_found scan)"

definition lost_jump :: "'w lost_env \<Rightarrow> u64 \<Rightarrow> 'w rover_lost_scan \<Rightarrow> bool \<times> 'w rover_lost_scan" where
  "lost_jump env end scan =
     (if end \<le> sc_pos scan \<or> end > sc_size scan \<or> lost_evidence scan (sc_pos scan) end then (False, scan)
      else case lost_grow env (length (sc_skips scan)) (sc_skips_alloc scan) 16 scan of
             (None, scan1) \<Rightarrow> (True, scan1)
           | (Some alloc, scan1) \<Rightarrow>
               (False, scan1\<lparr> sc_skips_alloc := alloc,
                 sc_skips := sc_skips scan1 @ [\<lparr> sk_from = sc_pos scan1, sk_to = end, sk_state = LOST_SKIP_PASSED \<rparr>],
                 sc_pos := end \<rparr>))"

text \<open>The first queued range and the list with it marked as done.\<close>

fun take_queued :: "lost_skip list \<Rightarrow> (lost_skip \<times> lost_skip list) option" where
  "take_queued [] = None"
| "take_queued (sk # sks) =
     (if sk_state sk = LOST_SKIP_QUEUED then Some (sk, sk\<lparr> sk_state := LOST_SKIP_DONE \<rparr> # sks)
      else map_option (\<lambda>(q, rest). (q, sk # rest)) (take_queued sks))"

definition lost_next_pass :: "'w rover_lost_scan \<Rightarrow> bool \<times> 'w rover_lost_scan" where
  "lost_next_pass scan =
     (case take_queued (sc_skips scan) of
        None \<Rightarrow> (False, scan)
      | Some (q, skips) \<Rightarrow>
          (True, scan\<lparr> sc_skips := skips, sc_pos := sk_from q, sc_limit := sk_to q, sc_rescanning := True \<rparr>))"

definition lost_range_at :: "'w rover_lost_scan \<Rightarrow> u64 \<Rightarrow> bool \<Rightarrow> lost_range option" where
  "lost_range_at scan offset readable =
     find (\<lambda>r. r_readable r = readable \<and> offset \<ge> r_start r \<and> offset < r_end r) (sc_ranges scan)"

subsection \<open>Table entries\<close>

definition lost_add_table :: "'w lost_env \<Rightarrow> u64 \<Rightarrow> u64 \<Rightarrow> 'w rover_lost_scan \<Rightarrow> bool \<times> 'w rover_lost_scan" where
  "lost_add_table env start sz scan =
     (if sz = 0 \<or> start mod ucast (sc_sector_size scan) \<noteq> 0 \<or> start \<ge> sc_size scan then (False, scan)
      else if list_ex (\<lambda>r. r_start r = start \<and> r_end r - start = sz) (sc_ranges scan) then (False, scan)
      else if list_ex (\<lambda>t. t_start t = start \<and> t_size t = sz) (sc_tables scan) then (False, scan)
      else case lost_grow env (length (sc_tables scan)) (sc_tables_alloc scan) 16 scan of
             (None, scan1) \<Rightarrow> (True, scan1)
           | (Some alloc, scan1) \<Rightarrow>
               let scan2 = lost_conflict start (scan1\<lparr> sc_tables_alloc := alloc,
                     sc_tables := sc_tables scan1 @ [\<lparr> t_start = start, t_size = sz, t_claimed = False \<rparr>] \<rparr>)
               in case lost_add_hint env start scan2 of
                    (True, scan3) \<Rightarrow> (True, scan3)
                  | (False, scan3) \<Rightarrow>
                      if start + sz > start \<and> start + sz \<le> sc_size scan3
                      then lost_add_end_hints env (start + sz) scan3
                      else (False, scan3))"

text \<open>The header of a table is usable: what \<open>lost_gpt\<close> checks before it looks at the entries.\<close>

definition gpt_header_ok :: "bytes \<Rightarrow> u64 \<Rightarrow> u64 \<Rightarrow> bool" where
  "gpt_header_ok hdr lba_size lba \<longleftrightarrow>
     (let hdr_size = lost_le32 hdr 12
      in hdr_size \<ge> 92 \<and> ucast hdr_size \<le> lba_size
         \<and> lost_crc32 (bslice 0 (unat hdr_size) (take 16 hdr @ [0, 0, 0, 0] @ drop 20 hdr)) = lost_le32 hdr 16
         \<and> lost_le64 hdr 24 = lba \<and> lost_le64 hdr 40 < lost_le64 hdr 48)"

definition gpt_array_ok :: "bytes \<Rightarrow> u64 \<Rightarrow> u64 \<Rightarrow> bool" where
  "gpt_array_ok hdr lba_size dev_size \<longleftrightarrow>
     (let count = lost_le32 hdr 80; entry_size = lost_le32 hdr 84;
          entries_off = lost_le64 hdr 72 * lba_size;
          len = ucast count * ucast entry_size :: u64
      in count \<noteq> 0 \<and> count \<le> 4096 \<and> entry_size \<ge> 128 \<and> entry_size \<le> 4096 \<and> entry_size mod 8 = 0
         \<and> entries_off div lba_size = lost_le64 hdr 72
         \<and> entries_off \<le> dev_size \<and> len \<le> dev_size - entries_off)"

fun add_gpt_entries :: "'w lost_env \<Rightarrow> u64 \<Rightarrow> bytes list \<Rightarrow> 'w rover_lost_scan \<Rightarrow> bool \<times> 'w rover_lost_scan" where
  "add_gpt_entries env lba_size [] scan = (False, scan)"
| "add_gpt_entries env lba_size (e # es) scan =
     (let first = lost_le64 e 32; last = lost_le64 e 40
      in if list_all (\<lambda>k. byte_at e k = 0) [0..<16] \<or> first = 0 \<or> first > last \<or> last \<ge> NOT 0 div lba_size
         then add_gpt_entries env lba_size es scan
         else case lost_add_table env (first * lba_size) ((last - first + 1) * lba_size) scan of
                (True, scan1) \<Rightarrow> (True, scan1)
              | (False, scan1) \<Rightarrow> add_gpt_entries env lba_size es scan1)"

definition lost_gpt :: "'w lost_env \<Rightarrow> u64 \<Rightarrow> u64 \<Rightarrow> 'w rover_lost_scan \<Rightarrow> (bool \<times> 'w rover_lost_scan) option" where
  "lost_gpt env lba_size lba scan =
     (if lba_size > of_nat LOST_WINDOW \<or> (lba + 1) * lba_size > sc_size scan then Some (False, scan)
      else do {
        (r, scan1) \<leftarrow> lost_read env (lba * lba_size) (unat lba_size) scan;
        case r of
          None \<Rightarrow> Some (False, scan1)
        | Some hdr \<Rightarrow>
            if \<not> has_text hdr 0 (ascii ''EFI PART'') \<or> \<not> gpt_header_ok hdr lba_size lba
               \<or> \<not> gpt_array_ok hdr lba_size (sc_size scan1) then Some (False, scan1)
            else
              let count = lost_le32 hdr 80; entry_size = lost_le32 hdr 84;
                  len = unat count * unat entry_size
              in case le_malloc env (sc_world scan1) of
                   (False, w) \<Rightarrow> Some (True, set_world w scan1)
                 | (True, w) \<Rightarrow> do {
                     (r2, scan2) \<leftarrow> lost_read env (lost_le64 hdr 72 * lba_size) len (set_world w scan1);
                     case r2 of
                       None \<Rightarrow> Some (False, scan2)
                     | Some entries \<Rightarrow>
                         if lost_crc32 entries \<noteq> lost_le32 hdr 88 then Some (False, scan2)
                         else Some (add_gpt_entries env lba_size
                           (map (\<lambda>i. drop (i * unat entry_size) entries) [0..<unat count]) scan2) } })"

end
