(* ===== verification/Lost_Exam.thy ===== *)
theory Lost_Exam
  imports Lost_State
begin

text \<open>
  What lies at one offset of the lost partition search (\<open>grub/rover/lostexam.c\<close>): a file system that
  starts there, or one found there through a backup boot sector or a copy of its superblock. A buffer
  is the list of the bytes from the pointer on. The sector size is between 512 and 4096, the sizes the
  buffers of the search are made for.
\<close>

subsection \<open>Hits\<close>

definition lost_set_hit :: "u64 \<Rightarrow> u64 \<Rightarrow> lost_type \<Rightarrow> bool \<Rightarrow> lost_hit" where
  "lost_set_hit start sz type backup =
     \<lparr> h_start = start, h_size = sz, h_type = type, h_backup = backup, h_remap = [] \<rparr>"

definition lost_remap :: "u64 \<Rightarrow> u64 \<Rightarrow> u64 \<Rightarrow> lost_hit \<Rightarrow> lost_hit" where
  "lost_remap target source len hit =
     (if length (h_remap hit) < ROVER_LOST_REMAP_MAX
      then hit\<lparr> h_remap := h_remap hit @ [\<lparr> rm_target = target, rm_source = source, rm_length = len \<rparr>] \<rparr>
      else hit)"

text \<open>
  The copy of an ext superblock stands in for the primary, and the group descriptors behind it for
  the primary ones, unless the feature META_BG spreads them over the groups.
\<close>

definition lost_ext_remap :: "bytes \<Rightarrow> u64 \<Rightarrow> lost_hit \<Rightarrow> lost_hit" where
  "lost_ext_remap sb sb_offset hit =
     (let incompat = lost_le32 sb 0x60;
          bs = push_bit (unat (lost_le32 sb 0x18)) 1024 :: u64;
          first = ucast (lost_le32 sb 0x14) :: u64;
          per_group = ucast (lost_le32 sb 0x20) :: u64;
          blocks = (if incompat AND 0x80 \<noteq> 0
            then ucast (lost_le32 sb 0x04) OR push_bit 32 (ucast (lost_le32 sb 0x150))
            else ucast (lost_le32 sb 0x04)) :: u64;
          desc = (if incompat AND 0x80 \<noteq> 0 then ucast (lost_le16 sb 0xfe) else 32) :: u64;
          hit1 = lost_remap (of_nat LOST_SB_1K) sb_offset 1024 hit;
          table = lost_round_up ((blocks - first + per_group - 1) div per_group * desc) bs
      in if incompat AND 0x10 \<noteq> 0 then hit1
         else if desc < 32 \<or> desc > bs \<or> \<not> lost_is_pow2 desc \<or> blocks \<le> first then hit1
         else if table < per_group * bs
         then lost_remap ((first + 1) * bs) ((sb_offset div bs + 1) * bs) table hit1
         else hit1)"

definition lost_tail_len :: "u32 \<Rightarrow> u32" where
  "lost_tail_len ss = (if ss > of_nat LOST_SB_1K then ss else of_nat LOST_SB_1K)"

text \<open>The hits of volumes that end at \<open>s\<close>; \<open>tail\<close> holds the \<open>lost_tail_len\<close> bytes before \<open>s\<close>.\<close>

definition lost_examine_end :: "u32 \<Rightarrow> u64 \<Rightarrow> bytes \<Rightarrow> lost_hit list" where
  "lost_examine_end ss s tail =
     (let len = unat (lost_tail_len ss)
      in (case lost_ntfs (drop (len - unat ss) tail) of
            Some (sz, bps) \<Rightarrow>
              if bps = ss \<and> sz \<le> s
              then [lost_remap 0 (sz - ucast bps) (ucast bps) (lost_set_hit (s - sz) sz Ntfs True)] else []
          | None \<Rightarrow> [])
       @ (case lost_hfs (drop (len - LOST_SB_1K) tail) of
            Some (type, sz) \<Rightarrow>
              if sz \<le> s \<and> (s - sz) mod ucast ss = 0
              then [lost_remap (of_nat LOST_SB_1K) (sz - of_nat LOST_SB_1K) 512 (lost_set_hit (s - sz) sz type True)]
              else []
          | None \<Rightarrow> []))"

subsection \<open>UDF\<close>

text \<open>The loop over the descriptors, by the number that are left: the largest end of a partition.\<close>

fun udf_descs :: "bytes \<Rightarrow> u64 \<Rightarrow> u32 \<Rightarrow> u32 \<Rightarrow> nat \<Rightarrow> u64 \<Rightarrow> u64" where
  "udf_descs aux bs location i 0 end = end"
| "udf_descs aux bs location i (Suc n) end =
     (let desc = drop (unat i * unat bs) aux;
          pend = ucast (lost_le32 desc 188) + ucast (lost_le32 desc 192) :: u64
      in if lost_udf_tag desc 8 (location + i) then end
         else udf_descs aux bs location (i + 1) n
                (if lost_udf_tag desc 5 (location + i) \<and> pend > end then pend else end))"

text \<open>The length of the descriptor sequence that is read: whole blocks, at most the buffer.\<close>

definition udf_length :: "bytes \<Rightarrow> u64 \<Rightarrow> u32" where
  "udf_length aux bs =
     (let len = (if lost_le32 aux 16 > LOST_AUX then LOST_AUX else lost_le32 aux 16)
      in len - len mod ucast bs)"

fun udf_loop :: "'w lost_env \<Rightarrow> u64 \<Rightarrow> u64 list \<Rightarrow> 'w rover_lost_scan \<Rightarrow> (u64 option \<times> 'w rover_lost_scan) option" where
  "udf_loop env s [] scan = Some (None, scan)"
| "udf_loop env s (bs # bss) scan =
     (if s + 257 * bs > sc_size scan then udf_loop env s bss scan
      else do {
        (r, scan1) \<leftarrow> lost_read env (s + 256 * bs) 512 scan;
        case r of
          None \<Rightarrow> udf_loop env s bss scan1
        | Some aux \<Rightarrow>
            if \<not> lost_udf_tag aux 2 256 then udf_loop env s bss scan1
            else
              let len = udf_length aux bs; location = lost_le32 aux 20
              in if len = 0 \<or> s + (ucast location + 1) * bs + ucast len > sc_size scan1 then udf_loop env s bss scan1
                 else do {
                   (r2, scan2) \<leftarrow> lost_read env (s + ucast location * bs) (unat len) scan1;
                   case r2 of
                     None \<Rightarrow> udf_loop env s bss scan2
                   | Some seq \<Rightarrow>
                       Some (Some (udf_descs seq bs location 0 (unat len div unat bs) 257 * bs), scan2) } })"

text \<open>Block sizes from the sector size on, doubled up to 4096: with sectors of 512 bytes that is four turns.\<close>

definition lost_udf :: "'w lost_env \<Rightarrow> u64 \<Rightarrow> 'w rover_lost_scan \<Rightarrow> (u64 option \<times> 'w rover_lost_scan) option" where
  "lost_udf env s scan =
     udf_loop env s (takeWhile (\<lambda>bs. bs \<le> 4096) (map (\<lambda>k. push_bit k (ucast (sc_sector_size scan))) [0..<4])) scan"

subsection \<open>Checking the primary of a backup\<close>

definition window_len :: "u64 \<Rightarrow> u64 \<Rightarrow> nat" where
  "window_len dev_size s =
     (if dev_size - s < of_nat LOST_WINDOW then unat (dev_size - s) else LOST_WINDOW)"

definition fill_window :: "nat \<Rightarrow> bytes \<Rightarrow> bytes" where
  "fill_window len buf = buf @ replicate (LOST_WINDOW - len) 0"

definition primary_matches :: "u32 \<Rightarrow> bytes \<Rightarrow> lost_hit \<Rightarrow> bool" where
  "primary_matches ss buf hit =
     (if h_type hit = Ntfs then (case lost_ntfs buf of Some (sz, _) \<Rightarrow> sz = h_size hit | None \<Rightarrow> False)
      else if h_type hit = Exfat then (case lost_exfat buf of Some (_, sz) \<Rightarrow> sz = h_size hit | None \<Rightarrow> False)
      else if h_type hit = Xfs then
        (case lost_xfs buf of
           Some (sz, _, sector) \<Rightarrow> sz = h_size hit
             \<and> (lost_be32 buf (unat sector) \<noteq> 0x58414746 \<or> lost_be32 buf (unat sector + 8) = 0)
         | None \<Rightarrow> False)
      else if h_type hit = Btrfs then
        (case lost_btrfs (drop LOST_BTRFS_SB buf) of
           Some (sz, sb_offset) \<Rightarrow> sb_offset = of_nat LOST_BTRFS_SB \<and> sz = h_size hit
         | None \<Rightarrow> False)
      else if h_type hit = Jfs then
        (case lost_jfs (drop LOST_JFS_SB buf) of Some sz \<Rightarrow> sz = h_size hit | None \<Rightarrow> False)
      else case lost_ext (drop LOST_SB_1K buf) of
        Some (type, sz, sb_offset) \<Rightarrow> sb_offset = of_nat LOST_SB_1K \<and> sz = h_size hit \<and> type = h_type hit
      | None \<Rightarrow>
          (case lost_hfs (drop LOST_SB_1K buf) of
             Some (type, sz) \<Rightarrow> sz = h_size hit \<and> type = h_type hit
           | None \<Rightarrow>
               (case lost_fat buf ss of
                  Some (type, sz) \<Rightarrow> sz = h_size hit \<and> type = h_type hit
                | None \<Rightarrow> False)))"

definition lost_primary_ok :: "'w lost_env \<Rightarrow> lost_hit \<Rightarrow> 'w rover_lost_scan \<Rightarrow> (bool \<times> 'w rover_lost_scan) option" where
  "lost_primary_ok env hit scan =
     (let len = window_len (sc_size scan) (h_start hit)
      in do {
        (r, scan1) \<leftarrow> lost_read env (h_start hit) len scan;
        case r of
          None \<Rightarrow> Some (False, scan1)
        | Some buf \<Rightarrow> Some (primary_matches (sc_sector_size scan1) (fill_window len buf) hit, scan1) })"

subsection \<open>Examining an offset\<close>

text \<open>The copies of ext superblocks, and the file systems with a superblock at 1 KiB.\<close>

definition exam_1k :: "u32 \<Rightarrow> u64 \<Rightarrow> bytes \<Rightarrow> lost_hit option" where
  "exam_1k ss s buf =
     (case lost_hfs (drop LOST_SB_1K buf) of
        Some (type, sz) \<Rightarrow> Some (lost_set_hit s sz type False)
      | None \<Rightarrow> map_option (\<lambda>sz. lost_set_hit s sz F2fs False) (lost_f2fs (drop LOST_SB_1K buf)))"

definition exam_ext_copy :: "u32 \<Rightarrow> u64 \<Rightarrow> bytes \<Rightarrow> lost_hit option" where
  "exam_ext_copy ss s buf =
     (case lost_ext buf of
        Some (type, sz, sb_offset) \<Rightarrow>
          if lost_le32 buf 0x18 > 0 \<and> lost_le16 buf 0x5a \<noteq> 0 \<and> sb_offset \<le> s \<and> (s - sb_offset) mod ucast ss = 0
          then Some (lost_ext_remap buf sb_offset (lost_set_hit (s - sb_offset) sz type True))
          else exam_1k ss s buf
      | None \<Rightarrow> exam_1k ss s buf)"

definition exam_ext :: "u32 \<Rightarrow> u64 \<Rightarrow> bytes \<Rightarrow> lost_hit option" where
  "exam_ext ss s buf =
     (case lost_ext (drop LOST_SB_1K buf) of
        Some (type, sz, sb_offset) \<Rightarrow>
          if sb_offset = of_nat LOST_SB_1K then Some (lost_set_hit s sz type False)
          else if sb_offset \<le> s + of_nat LOST_SB_1K \<and> (s + of_nat LOST_SB_1K - sb_offset) mod ucast ss = 0
          then Some (lost_ext_remap (drop LOST_SB_1K buf) sb_offset
                 (lost_set_hit (s + of_nat LOST_SB_1K - sb_offset) sz type True))
          else exam_ext_copy ss s buf
      | None \<Rightarrow> exam_ext_copy ss s buf)"

text \<open>Boot sectors and superblocks at the offset itself.\<close>

definition exam_xfs :: "u32 \<Rightarrow> u64 \<Rightarrow> bytes \<Rightarrow> lost_hit option" where
  "exam_xfs ss s buf =
     (case lost_xfs buf of
        Some (sz, ag_size, xfs_sector) \<Rightarrow>
          let group = (if lost_be32 buf (unat xfs_sector) = 0x58414746
                       then ucast (lost_be32 buf (unat xfs_sector + 8)) else 0) :: u64
          in if group \<le> s div ag_size \<and> (s - group * ag_size) mod ucast ss = 0
             then Some (let hit = lost_set_hit (s - group * ag_size) sz Xfs (group \<noteq> 0)
                        in if group \<noteq> 0 then lost_remap 0 (group * ag_size) (ucast xfs_sector) hit else hit)
             else None
      | None \<Rightarrow> None)"

definition exam_zero :: "u32 \<Rightarrow> u64 \<Rightarrow> bytes \<Rightarrow> nat \<Rightarrow> lost_hit option" where
  "exam_zero ss s buf len =
     (case lost_apfs buf len of Some sz \<Rightarrow> Some (lost_set_hit s sz Apfs False) | None \<Rightarrow>
      case lost_fat buf ss of Some (type, sz) \<Rightarrow> Some (lost_set_hit s sz type False) | None \<Rightarrow>
      case lost_exfat buf of Some (_, sz) \<Rightarrow> Some (lost_set_hit s sz Exfat False) | None \<Rightarrow>
      case lost_ntfs buf of Some (sz, _) \<Rightarrow> Some (lost_set_hit s sz Ntfs False) | None \<Rightarrow>
      case lost_refs buf of Some sz \<Rightarrow> Some (lost_set_hit s sz Refs False) | None \<Rightarrow>
      exam_xfs ss s buf)"

text \<open>Btrfs at 64 KiB, or one of its mirrors at the offset itself.\<close>

definition exam_btrfs :: "u32 \<Rightarrow> u64 \<Rightarrow> bytes \<Rightarrow> lost_hit option" where
  "exam_btrfs ss s buf =
     (case lost_btrfs (drop LOST_BTRFS_SB buf) of
        Some (sz, sb_offset) \<Rightarrow>
          if sb_offset = of_nat LOST_BTRFS_SB then Some (lost_set_hit s sz Btrfs False) else None
      | None \<Rightarrow>
          (case lost_btrfs buf of
             Some (sz, sb_offset) \<Rightarrow>
               if sb_offset \<le> s \<and> (s - sb_offset) mod ucast ss = 0
               then Some (let hit = lost_set_hit (s - sb_offset) sz Btrfs (sb_offset \<noteq> of_nat LOST_BTRFS_SB)
                          in if sb_offset \<noteq> of_nat LOST_BTRFS_SB
                             then lost_remap (of_nat LOST_BTRFS_SB) sb_offset (of_nat LOST_BTRFS_SB_SIZE) hit else hit)
               else None
           | None \<Rightarrow> None))"

definition exam_late :: "u64 \<Rightarrow> bytes \<Rightarrow> lost_hit option" where
  "exam_late s buf =
     (case lost_ufs (drop LOST_UFS1_SB buf) (of_nat LOST_UFS1_SB) of
        Some (type, sz) \<Rightarrow> Some (lost_set_hit s sz type False) | None \<Rightarrow>
      case lost_ufs (drop LOST_UFS2_SB buf) (of_nat LOST_UFS2_SB) of
        Some (type, sz) \<Rightarrow> Some (lost_set_hit s sz type False) | None \<Rightarrow>
      case lost_jfs (drop LOST_JFS_SB buf) of Some sz \<Rightarrow> Some (lost_set_hit s sz Jfs False) | None \<Rightarrow>
      map_option (\<lambda>sz. lost_set_hit s sz Reiserfs False) (lost_reiserfs (drop LOST_REISERFS_SB buf)))"

text \<open>The backups that are found by their distance from the start.\<close>

definition exam_exfat_backup :: "u32 \<Rightarrow> u64 \<Rightarrow> bytes \<Rightarrow> nat \<Rightarrow> lost_hit option" where
  "exam_exfat_backup ss s buf shift =
     (if (push_bit shift 1 :: u32) \<ge> ss
      then (case lost_exfat (drop (12 * 2 ^ shift) buf) of
              Some (got, sz) \<Rightarrow>
                if got = of_nat shift
                then Some (lost_remap 0 (push_bit shift 12) (push_bit shift 12) (lost_set_hit s sz Exfat True))
                else None
            | None \<Rightarrow> None)
      else None)"

definition exam_backup :: "u32 \<Rightarrow> u64 \<Rightarrow> bytes \<Rightarrow> lost_hit option" where
  "exam_backup ss s buf =
     (let fat = drop (6 * unat ss) buf
      in case lost_fat fat ss of
           Some (Fat32, sz) \<Rightarrow>
             if lost_le16 fat 0x32 = 6
             then Some (lost_remap 0 (ucast (6 * ss)) (ucast (3 * ss)) (lost_set_hit s sz Fat32 True))
             else None
         | _ \<Rightarrow> None)"

definition exam_positional :: "u32 \<Rightarrow> u64 \<Rightarrow> bytes \<Rightarrow> lost_hit option" where
  "exam_positional ss s buf =
     (case exam_backup ss s buf of Some hit \<Rightarrow> Some hit | None \<Rightarrow>
      case find (\<lambda>shift. exam_exfat_backup ss s buf shift \<noteq> None) [9, 10, 11, 12] of
        Some shift \<Rightarrow> exam_exfat_backup ss s buf shift | None \<Rightarrow>
      case lost_f2fs (drop (4096 + LOST_SB_1K) buf) of Some sz \<Rightarrow> Some (lost_set_hit s sz F2fs True) | None \<Rightarrow>
      map_option (\<lambda>sz. lost_remap (of_nat LOST_JFS_SB) (of_nat LOST_JFS_SB2) (of_nat LOST_JFS_SB_SIZE)
                         (lost_set_hit s sz Jfs True))
        (lost_jfs (drop LOST_JFS_SB2 buf)))"

text \<open>The ext copy of block group 3, for the three block sizes.\<close>

fun ext_group3 :: "'w lost_env \<Rightarrow> u64 \<Rightarrow> nat list \<Rightarrow> 'w rover_lost_scan \<Rightarrow> (lost_hit option \<times> 'w rover_lost_scan) option" where
  "ext_group3 env s [] scan = Some (None, scan)"
| "ext_group3 env s (log_bs # rest) scan =
     (let bs = push_bit log_bs 1024 :: u64;
          at = s + 3 * bs * 8 * bs + (if log_bs \<noteq> 0 then 0 else of_nat LOST_SB_1K)
      in if at + 1024 > sc_size scan then ext_group3 env s rest scan
         else do {
           (r, scan1) \<leftarrow> lost_read env at 1024 scan;
           case r of
             None \<Rightarrow> ext_group3 env s rest scan1
           | Some aux \<Rightarrow>
               (case lost_ext aux of
                  Some (type, sz, sb_offset) \<Rightarrow>
                    if lost_le16 aux 0x5a \<noteq> 0 \<and> sb_offset \<le> at \<and> (at - sb_offset) mod ucast (sc_sector_size scan1) = 0
                    then Some (Some (lost_ext_remap aux sb_offset (lost_set_hit (at - sb_offset) sz type True)), scan1)
                    else ext_group3 env s rest scan1
                | None \<Rightarrow> ext_group3 env s rest scan1) })"

text \<open>
  All tests of \<open>lost_examine\<close> in order, by the point where they touch the device or the scan:
  \<open>Inl\<close> is the return of -1, \<open>Inr None\<close> nothing found.
\<close>

definition exam_rest :: "'w lost_env \<Rightarrow> u64 \<Rightarrow> bytes \<Rightarrow> bool \<Rightarrow> 'w rover_lost_scan
    \<Rightarrow> ((unit + lost_hit option) \<times> 'w rover_lost_scan) option" where
  "exam_rest env s buf positional scan =
     (let ss = sc_sector_size scan
      in case lost_iso (drop LOST_VRS buf) of
           Some sz \<Rightarrow> Some (Inr (Some (lost_set_hit s sz Iso9660 False)), scan)
         | None \<Rightarrow>
             (case lost_ebr buf of
                Some (start, count) \<Rightarrow>
                  (case lost_add_table env (s + ucast start * ucast ss) (ucast count * ucast ss) scan of
                     (True, scan1) \<Rightarrow> Some (Inl (), scan1)
                   | (False, scan1) \<Rightarrow> Some (Inr None, scan1))
              | None \<Rightarrow>
                  if \<not> positional then Some (Inr None, scan)
                  else case exam_positional ss s buf of
                         Some hit \<Rightarrow> Some (Inr (Some hit), scan)
                       | None \<Rightarrow>
                           if sc_flags scan AND ROVER_LOST_SCAN_EXT_BACKUP \<noteq> 0
                              \<and> sc_flags scan AND ROVER_LOST_SCAN_DEEP = 0
                           then map_option (\<lambda>(h, scan1). (Inr h, scan1)) (ext_group3 env s [0, 1, 2] scan)
                           else Some (Inr None, scan)))"

definition lost_examine :: "'w lost_env \<Rightarrow> u64 \<Rightarrow> bytes \<Rightarrow> nat \<Rightarrow> bool \<Rightarrow> 'w rover_lost_scan
    \<Rightarrow> ((unit + lost_hit option) \<times> 'w rover_lost_scan) option" where
  "lost_examine env s buf len positional scan =
     (let ss = sc_sector_size scan; found = (\<lambda>hit. Some (Inr (Some hit), scan))
      in case exam_ext ss s buf of Some hit \<Rightarrow> found hit | None \<Rightarrow>
         case exam_zero ss s buf len of Some hit \<Rightarrow> found hit | None \<Rightarrow>
         case exam_btrfs ss s buf of Some hit \<Rightarrow> found hit | None \<Rightarrow>
         case exam_late s buf of Some hit \<Rightarrow> found hit | None \<Rightarrow>
         if lost_udf_vrs buf ss then
           do { (r, scan1) \<leftarrow> lost_udf env s scan;
                case r of
                  Some sz \<Rightarrow> Some (Inr (Some (lost_set_hit s sz Udf False)), scan1)
                | None \<Rightarrow> exam_rest env s buf positional scan1 }
         else exam_rest env s buf positional scan)"

end
