(* ===== verification/Lost_Scan.thy ===== *)
theory Lost_Scan
  imports Lost_Exam Device Fs
begin

text \<open>
  The engine of the lost partition search (\<open>grub/rover/lostpart.c\<close>): reporting a hit, the quick search
  over candidate offsets, the deep search over all sectors, and the step that the caller repeats
  until the device is searched.
\<close>

subsection \<open>Reporting\<close>

definition hit_end :: "lost_hit \<Rightarrow> u64" where
  "hit_end hit = h_start hit + h_size hit"

definition hit_truncated :: "u64 \<Rightarrow> lost_hit \<Rightarrow> bool" where
  "hit_truncated dev_size hit \<longleftrightarrow> hit_end hit < h_start hit \<or> hit_end hit > dev_size"

definition range_flags :: "lost_hit \<Rightarrow> lost_range \<Rightarrow> u32 \<Rightarrow> u32" where
  "range_flags hit r fl =
     (let fl1 = (if \<not> r_readable r \<and> r_start r = h_start hit then fl OR ROVER_LOST_EXISTING else fl)
      in if r_readable r \<and> h_start hit < r_end r \<and> (hit_end hit > r_start r \<or> hit_end hit < h_start hit)
         then fl1 OR ROVER_LOST_OVERLAP else fl1)"

definition found_flags :: "lost_hit \<Rightarrow> lost_found \<Rightarrow> u32 \<Rightarrow> u32" where
  "found_flags hit f fl =
     (if h_start hit < f_start f + f_size f \<and> hit_end hit > f_start f then fl OR ROVER_LOST_OVERLAP else fl)"

definition hit_flags :: "u32 \<Rightarrow> 'w rover_lost_scan \<Rightarrow> lost_hit \<Rightarrow> u32" where
  "hit_flags flags scan hit =
     (let fl0 = (if h_backup hit then flags OR ROVER_LOST_BACKUP else flags);
          fl1 = (if hit_truncated (sc_size scan) hit then fl0 OR ROVER_LOST_TRUNCATED else fl0);
          fl2 = fold (range_flags hit) (sc_ranges scan) fl1;
          fl3 = fold (found_flags hit) (sc_found scan) fl2
      in if list_ex (\<lambda>t. t_start t = h_start hit) (sc_tables scan) then fl3 OR ROVER_LOST_TABLE else fl3)"

definition hit_window :: "'w rover_lost_scan \<Rightarrow> lost_hit \<Rightarrow> u64" where
  "hit_window scan hit =
     (let window = (if hit_truncated (sc_size scan) hit then sc_size scan - h_start hit else h_size hit)
      in window - window mod ucast (sc_sector_size scan))"

definition remap_inside :: "u64 \<Rightarrow> rover_lost_remap \<Rightarrow> bool" where
  "remap_inside window r \<longleftrightarrow>
     rm_length r \<le> window \<and> rm_target r \<le> window - rm_length r \<and> rm_source r \<le> window - rm_length r"

definition part_of_hit :: "u32 \<Rightarrow> 'w rover_lost_scan \<Rightarrow> lost_hit \<Rightarrow> rover_lost_part" where
  "part_of_hit flags scan hit =
     \<lparr> p_offset = h_start hit, p_size = h_size hit, p_type = h_type hit, p_fs = None, p_label = None,
       p_fs_uuid = None, p_flags = hit_flags flags scan hit, p_window = hit_window scan hit,
       p_remap = filter (remap_inside (hit_window scan hit)) (h_remap hit) \<rparr>"

definition claim_tables :: "u64 \<Rightarrow> 'w rover_lost_scan \<Rightarrow> 'w rover_lost_scan" where
  "claim_tables start scan =
     scan\<lparr> sc_tables := map (\<lambda>t. if t_start t = start then t\<lparr> t_claimed := True \<rparr> else t) (sc_tables scan) \<rparr>"

text \<open>Opening the window with the drivers: the name, the label and the uuid a driver read.\<close>

definition verify_part :: "'w lost_env \<Rightarrow> rover_lost_part \<Rightarrow> 'w rover_lost_scan
    \<Rightarrow> (rover_lost_part \<times> 'w rover_lost_scan) option" where
  "verify_part env part scan =
     (if p_window part = 0 then Some (part, set_world (le_set_errno env GRUB_ERR_NONE (sc_world scan)) scan)
      else do {
        ((e, fs, label, uuid), w) \<leftarrow>
          le_probe env (drop_bit 9 (p_offset part)) (drop_bit 9 (p_window part)) (p_remap part) (sc_world scan);
        let part1 = part\<lparr> p_fs := fs \<rparr>;
        let part2 = (if e = GRUB_ERR_NONE
              then part1\<lparr> p_flags := p_flags part1 OR ROVER_LOST_VERIFIED, p_label := label, p_fs_uuid := uuid \<rparr>
              else part1);
        let scan1 = set_world (le_set_errno env GRUB_ERR_NONE w) scan;
        Some (part2, scan1) })"

text \<open>The end of \<open>lost_report\<close>: the result is recorded, then handed to the caller. \<open>Inl\<close> is the return of -1.\<close>

definition record_found :: "'w lost_env \<Rightarrow> lost_hit \<Rightarrow> 'w rover_lost_scan \<Rightarrow> bool \<times> 'w rover_lost_scan" where
  "record_found env hit scan =
     (case lost_grow env (length (sc_found scan)) (sc_found_alloc scan) 16 scan of
        (None, scan1) \<Rightarrow> (True, scan1)
      | (Some alloc, scan1) \<Rightarrow>
          (False, lost_conflict (h_start hit) (scan1\<lparr> sc_found_alloc := alloc,
             sc_found := sc_found scan1 @ [\<lparr> f_start = h_start hit, f_size = h_size hit, f_type = h_type hit \<rparr>] \<rparr>)))"

definition step_over :: "'w lost_env \<Rightarrow> u64 \<Rightarrow> 'w rover_lost_scan \<Rightarrow> bool \<times> 'w rover_lost_scan" where
  "step_over env end scan =
     (case lost_add_end_hints env end scan of
        (True, scan1) \<Rightarrow> (True, scan1)
      | (False, scan1) \<Rightarrow> lost_jump env end scan1)"

definition report_new :: "'w lost_env \<Rightarrow> lost_hit \<Rightarrow> u32 \<Rightarrow> 'w rover_lost_scan
    \<Rightarrow> ((unit + bool) \<times> 'w rover_lost_scan) option" where
  "report_new env hit flags scan =
     do { (part, scan1) \<leftarrow> verify_part env (part_of_hit flags scan hit) (claim_tables (h_start hit) scan);
          case record_found env hit scan1 of
            (True, scan2) \<Rightarrow> Some (Inl (), scan2)
          | (False, scan2) \<Rightarrow>
              (case (if hit_truncated (sc_size scan2) hit then (False, scan2) else step_over env (hit_end hit) scan2) of
                 (True, scan3) \<Rightarrow> Some (Inl (), scan3)
               | (False, scan3) \<Rightarrow>
                   do { (stop, w) \<leftarrow> le_hook env part (sc_world scan3);
                        Some (Inr stop, set_world w scan3) }) }"

definition already_found :: "lost_hit \<Rightarrow> 'w rover_lost_scan \<Rightarrow> bool" where
  "already_found hit scan \<longleftrightarrow>
     list_ex (\<lambda>f. f_start f = h_start hit \<and> f_size f = h_size hit \<and> f_type f = h_type hit) (sc_found scan)"

text \<open>A hit that was found through a backup while its primary is fine is reported without remaps.\<close>

definition settle_primary :: "'w lost_env \<Rightarrow> lost_hit \<Rightarrow> 'w rover_lost_scan \<Rightarrow> (lost_hit \<times> 'w rover_lost_scan) option" where
  "settle_primary env hit scan =
     (if h_backup hit then
        do { (ok, scan1) \<leftarrow> lost_primary_ok env hit scan;
             Some (if ok then hit\<lparr> h_backup := False, h_remap := [] \<rparr> else hit, scan1) }
      else Some (hit, scan))"

definition lost_report :: "'w lost_env \<Rightarrow> lost_hit \<Rightarrow> u32 \<Rightarrow> 'w rover_lost_scan
    \<Rightarrow> ((unit + bool) \<times> 'w rover_lost_scan) option" where
  "lost_report env found_hit flags scan =
     (if h_size found_hit = 0 \<or> h_start found_hit \<ge> sc_size scan
         \<or> lost_range_at scan (h_start found_hit) True \<noteq> None
      then Some (Inr False, scan)
      else do {
        (hit, scan1) \<leftarrow> settle_primary env found_hit scan;
        if already_found hit scan1
        then Some (if hit_end hit > h_start hit
               then (case lost_jump env (hit_end hit) scan1 of
                       (True, scan2) \<Rightarrow> (Inl (), scan2)
                     | (False, scan2) \<Rightarrow> (Inr False, scan2))
               else (Inr False, scan1))
        else report_new env hit flags scan1 })"

subsection \<open>The hits of the deep search\<close>

definition same_hit :: "lost_hit \<Rightarrow> lost_hit \<Rightarrow> bool" where
  "same_hit p hit \<longleftrightarrow> h_start p = h_start hit \<and> h_size p = h_size hit \<and> h_type p = h_type hit"

text \<open>The first hit of the list that is the same is replaced by one found through its primary.\<close>

fun pend_replace :: "lost_hit \<Rightarrow> lost_hit list \<Rightarrow> lost_hit list option" where
  "pend_replace hit [] = None"
| "pend_replace hit (p # ps) =
     (if same_hit p hit then Some ((if h_backup p \<and> \<not> h_backup hit then hit else p) # ps)
      else map_option (\<lambda>qs. p # qs) (pend_replace hit ps))"

definition lost_pend :: "'w lost_env \<Rightarrow> lost_hit \<Rightarrow> 'w rover_lost_scan \<Rightarrow> bool \<times> 'w rover_lost_scan" where
  "lost_pend env hit scan =
     (if h_size hit = 0 then (False, scan)
      else case pend_replace hit (sc_pending scan) of
             Some ps \<Rightarrow> (False, scan\<lparr> sc_pending := ps \<rparr>)
           | None \<Rightarrow>
               (case lost_grow env (length (sc_pending scan)) (sc_pending_alloc scan) 64 scan of
                  (None, scan1) \<Rightarrow> (True, scan1)
                | (Some alloc, scan1) \<Rightarrow>
                    (False, scan1\<lparr> sc_pending_alloc := alloc, sc_pending := sc_pending scan1 @ [hit] \<rparr>)))"

text \<open>
  The insertion sort of \<open>lost_settle\<close>: one turn moves a hit down past those with a larger start. The
  sorted part is kept with its last hit first.
\<close>

fun sink_hit :: "lost_hit \<Rightarrow> lost_hit list \<Rightarrow> lost_hit list" where
  "sink_hit h [] = [h]"
| "sink_hit h (p # ps) = (if h_start p > h_start h then p # sink_hit h ps else h # p # ps)"

definition sort_hits :: "lost_hit list \<Rightarrow> lost_hit list" where
  "sort_hits hits = rev (fold sink_hit hits [])"

definition copy_of :: "lost_hit \<Rightarrow> lost_hit \<Rightarrow> bool" where
  "copy_of a b \<longleftrightarrow> h_size a = h_size b \<and> h_type a = h_type b \<and> h_start a < h_start b
     \<and> h_start b - h_start a < h_size a"

text \<open>
  The loop that drops copies works in place: the hits kept so far are written to the front of the
  array that the following ones are compared with.
\<close>

fun drop_copies :: "nat \<Rightarrow> nat \<Rightarrow> nat \<Rightarrow> lost_hit list \<Rightarrow> nat \<times> lost_hit list" where
  "drop_copies 0 i kept arr = (kept, arr)"
| "drop_copies (Suc n) i kept arr =
     (let b = arr ! i
      in if list_ex (\<lambda>j. j \<noteq> i \<and> copy_of (arr ! j) b) [0..<length arr]
         then drop_copies n (Suc i) kept arr
         else drop_copies n (Suc i) (Suc kept) (arr[kept := b]))"

definition settled :: "lost_hit list \<Rightarrow> lost_hit list" where
  "settled hits =
     (case drop_copies (length hits) 0 0 (sort_hits hits) of (kept, arr) \<Rightarrow> take kept arr)"

definition lost_settle :: "'w rover_lost_scan \<Rightarrow> 'w rover_lost_scan" where
  "lost_settle scan = scan\<lparr> sc_pending := settled (sc_pending scan), sc_pending_ready := True \<rparr>"

subsection \<open>The quick search\<close>

definition lost_quick_candidate :: "'w lost_env \<Rightarrow> u64 \<Rightarrow> bool \<Rightarrow> 'w rover_lost_scan
    \<Rightarrow> ((unit + lost_hit list) \<times> 'w rover_lost_scan) option" where
  "lost_quick_candidate env s end_only scan =
     (let ss = sc_sector_size scan; tail = ucast (lost_tail_len ss) :: u64
      in do {
        (hits, scan1) \<leftarrow>
          (if s \<ge> tail
           then do { (r, scan1) \<leftarrow> lost_read env (s - tail) (unat tail) scan;
                     Some (case r of None \<Rightarrow> [] | Some buf \<Rightarrow> lost_examine_end ss s buf, scan1) }
           else Some ([], scan));
        if end_only \<or> s \<ge> sc_size scan1 then Some (Inr hits, scan1)
        else let len = window_len (sc_size scan1) s
          in do {
            (r, scan2) \<leftarrow> lost_read env s len scan1;
            case r of
              None \<Rightarrow> Some (Inr hits, scan2)
            | Some buf \<Rightarrow>
                do { (e, scan3) \<leftarrow> lost_examine env s (fill_window len buf) len True scan2;
                     Some (case e of
                             Inl _ \<Rightarrow> Inl ()
                           | Inr None \<Rightarrow> Inr hits
                           | Inr (Some hit) \<Rightarrow> Inr (hits @ [hit]), scan3) } } })"

subsection \<open>The deep search\<close>

abbreviation LOST_TAIL :: nat where "LOST_TAIL \<equiv> 4096"
abbreviation LOST_DEEP_CHUNK :: nat where "LOST_DEEP_CHUNK \<equiv> 4194304"

text \<open>The pieces of \<open>lost_read_fill\<close>: what cannot be read is zeros.\<close>

function read_pieces :: "'w lost_env \<Rightarrow> u64 \<Rightarrow> nat \<Rightarrow> 'w rover_lost_scan \<Rightarrow> (bytes \<times> 'w rover_lost_scan) option" where
  "read_pieces env offset len scan =
     (if len = 0 then Some ([], scan)
      else let piece = min len 65536
        in do { (r, scan1) \<leftarrow> lost_read env offset piece scan;
                (rest, scan2) \<leftarrow> read_pieces env (offset + of_nat piece) (len - piece) scan1;
                Some ((case r of Some buf \<Rightarrow> buf | None \<Rightarrow> replicate piece 0) @ rest, scan2) })"
  by pat_completeness auto
termination
  by (relation "measure (\<lambda>(_, _, len, _). len)") auto

declare read_pieces.simps [simp del]

definition lost_read_fill :: "'w lost_env \<Rightarrow> u64 \<Rightarrow> nat \<Rightarrow> 'w rover_lost_scan \<Rightarrow> (bytes \<times> 'w rover_lost_scan) option" where
  "lost_read_fill env offset len scan =
     do { (r, scan1) \<leftarrow> lost_read env offset len scan;
          case r of Some buf \<Rightarrow> Some (buf, scan1) | None \<Rightarrow> read_pieces env offset len scan1 }"

fun pend_all :: "'w lost_env \<Rightarrow> lost_hit list \<Rightarrow> 'w rover_lost_scan \<Rightarrow> bool \<times> 'w rover_lost_scan" where
  "pend_all env [] scan = (False, scan)"
| "pend_all env (h # hs) scan =
     (case lost_pend env h scan of
        (True, scan1) \<Rightarrow> (True, scan1)
      | (False, scan1) \<Rightarrow> pend_all env hs scan1)"

text \<open>The loop over the sectors from \<open>s\<close> on, with the number that are left; \<open>deep\<close> starts \<open>LOST_TAIL\<close> bytes before \<open>base\<close>.\<close>

fun deep_sectors :: "'w lost_env \<Rightarrow> bool \<Rightarrow> bytes \<Rightarrow> u64 \<Rightarrow> nat \<Rightarrow> u64 \<Rightarrow> u64 \<Rightarrow> 'w rover_lost_scan
    \<Rightarrow> (bool \<times> 'w rover_lost_scan) option" where
  "deep_sectors env in_range deep base 0 s candidate scan = Some (False, scan)"
| "deep_sectors env in_range deep base (Suc n) s candidate scan =
     (let ss = sc_sector_size scan;
          at = LOST_TAIL + unat (s - base);
          cand = (if candidate < s then lost_next scan s else candidate);
          positional = (cand = s);
          tail = lost_tail_len ss;
          ends = (if positional \<and> s \<ge> ucast tail then lost_examine_end ss s (drop (at - unat tail) deep) else [])
      in do {
        (e, scan1) \<leftarrow>
          (if \<not> in_range \<and> s < sc_size scan
           then lost_examine env s (drop at deep) (window_len (sc_size scan) s) positional scan
           else Some (Inr None, scan));
        case e of
          Inl _ \<Rightarrow> Some (True, scan1)
        | Inr found \<Rightarrow>
            (case pend_all env (ends @ (case found of None \<Rightarrow> [] | Some hit \<Rightarrow> [hit])) scan1 of
               (True, scan2) \<Rightarrow> Some (True, scan2)
             | (False, scan2) \<Rightarrow> deep_sectors env in_range deep base n (s + ucast ss) cand scan2) })"

definition deep_end :: "'w rover_lost_scan \<Rightarrow> bool \<Rightarrow> u64" where
  "deep_end scan in_range =
     (let base = sc_pos scan;
          end0 = (if in_range then base + 1 else base + of_nat LOST_DEEP_CHUNK);
          end1 = fold (\<lambda>r end. if r_readable r \<and> r_start r > base \<and> r_start r < end then r_start r else end)
                   (sc_ranges scan) end0
      in if end1 > sc_size scan + 1 then sc_size scan + 1 else end1)"

text \<open>One chunk from \<open>sc_pos\<close> on, with the readable partition \<open>r\<close> that starts there, if one does.\<close>

definition deep_body :: "'w lost_env \<Rightarrow> lost_range option \<Rightarrow> 'w rover_lost_scan \<Rightarrow> (bool \<times> 'w rover_lost_scan) option" where
  "deep_body env r scan =
     (let base = sc_pos scan; ss = sc_sector_size scan;
          end = deep_end scan (r \<noteq> None);
          first = (if base > of_nat LOST_TAIL then base - of_nat LOST_TAIL else 0);
          last = (if end + of_nat LOST_WINDOW < sc_size scan then end + of_nat LOST_WINDOW else sc_size scan);
          room = LOST_TAIL + LOST_DEEP_CHUNK + LOST_WINDOW;
          before = unat (first + of_nat LOST_TAIL - base)
      in do {
        (data, scan1) \<leftarrow>
          (if last > first then lost_read_fill env first (unat (last - first)) scan else Some ([], scan));
        (failed, scan2) \<leftarrow>
          deep_sectors env (r \<noteq> None) (replicate before 0 @ data @ replicate (room - before - length data) 0) base
            ((unat (end - base) + unat ss - 1) div unat ss) base (lost_next scan1 base) scan1;
        if failed then Some (True, scan2)
        else Some (False, scan2\<lparr> sc_pos := (case r of Some q \<Rightarrow> r_end q | None \<Rightarrow> end) \<rparr>) })"

definition lost_deep_chunk :: "'w lost_env \<Rightarrow> 'w rover_lost_scan \<Rightarrow> (bool \<times> 'w rover_lost_scan) option" where
  "lost_deep_chunk env scan =
     (case lost_range_at scan (sc_pos scan) True of
        Some q \<Rightarrow> if r_start q \<noteq> sc_pos scan then Some (False, scan\<lparr> sc_pos := r_end q \<rparr>) else deep_body env (Some q) scan
      | None \<Rightarrow> deep_body env None scan)"

subsection \<open>The step\<close>

text \<open>The outcome of one turn of the loop of \<open>rover_lost_scan_step\<close>.\<close>

datatype turn = Turn_Fail | Turn_Break | Turn_Continue

definition turn_of_report :: "unit + bool \<Rightarrow> turn" where
  "turn_of_report r = (case r of Inl _ \<Rightarrow> Turn_Fail | Inr stop \<Rightarrow> if stop then Turn_Break else Turn_Continue)"

text \<open>The hits of a candidate are all reported before the loop ends.\<close>

fun report_hits :: "'w lost_env \<Rightarrow> lost_hit list \<Rightarrow> bool \<Rightarrow> 'w rover_lost_scan
    \<Rightarrow> (turn \<times> 'w rover_lost_scan) option" where
  "report_hits env [] stopped scan = Some (if stopped then Turn_Break else Turn_Continue, scan)"
| "report_hits env (h # hs) stopped scan =
     do { (ret, scan1) \<leftarrow> lost_report env h 0 scan;
          case ret of
            Inl _ \<Rightarrow> Some (Turn_Fail, scan1)
          | Inr stop \<Rightarrow> report_hits env hs (stopped \<or> stop) scan1 }"

text \<open>The end of the search: the hits that were kept, then the table entries nothing was found at.\<close>

definition finish_turn :: "'w lost_env \<Rightarrow> 'w rover_lost_scan \<Rightarrow> (turn \<times> 'w rover_lost_scan) option" where
  "finish_turn env scan =
     (if sc_next_pending scan < length (sc_pending scan)
      then do { (ret, scan1) \<leftarrow> lost_report env (sc_pending scan ! sc_next_pending scan) 0
                  (scan\<lparr> sc_next_pending := Suc (sc_next_pending scan) \<rparr>);
                Some (turn_of_report ret, scan1) }
      else if sc_next_table scan = length (sc_tables scan) then Some (Turn_Break, scan\<lparr> sc_done := True \<rparr>)
      else let t = sc_tables scan ! sc_next_table scan;
               scan1 = scan\<lparr> sc_next_table := Suc (sc_next_table scan) \<rparr>
           in if t_claimed t then Some (Turn_Continue, scan1)
              else do { (ret, scan2) \<leftarrow> lost_report env (lost_set_hit (t_start t) (t_size t) Table_Partition False) 0 scan1;
                        Some (turn_of_report ret, scan2) })"

definition deep_turn :: "'w lost_env \<Rightarrow> 'w rover_lost_scan \<Rightarrow> (turn \<times> 'w rover_lost_scan) option" where
  "deep_turn env scan =
     (if sc_pos scan > sc_size scan
      then Some (Turn_Continue, (lost_settle scan)\<lparr> sc_pos := sc_size scan, sc_finishing := True \<rparr>)
      else do { (failed, scan1) \<leftarrow> lost_deep_chunk env scan;
                Some (if failed then Turn_Fail else Turn_Continue, scan1) })"

text \<open>A turn of the quick search at the candidate \<open>s\<close>.\<close>

definition quick_turn :: "'w lost_env \<Rightarrow> u64 \<Rightarrow> 'w rover_lost_scan \<Rightarrow> (turn \<times> 'w rover_lost_scan) option" where
  "quick_turn env s scan =
     (let scan0 = scan\<lparr> sc_pos := s + 1 \<rparr>; r = lost_range_at scan0 s True
      in if s mod ucast (sc_sector_size scan) \<noteq> 0 then Some (Turn_Continue, scan0)
         else if (case r of Some q \<Rightarrow> r_start q \<noteq> s | None \<Rightarrow> False)
         then Some (Turn_Continue, scan0\<lparr> sc_pos := r_end (the r) \<rparr>)
         else do { (c, scan1) \<leftarrow> lost_quick_candidate env s (r \<noteq> None) scan0;
                   case c of
                     Inl _ \<Rightarrow> Some (Turn_Fail, scan1)
                   | Inr hits \<Rightarrow> report_hits env hits False scan1 })"

text \<open>One turn of the loop, with the offset \<open>stop\<close> at which this step ends.\<close>

definition step_turn :: "'w lost_env \<Rightarrow> u64 \<Rightarrow> u64 \<Rightarrow> 'w rover_lost_scan \<Rightarrow> (turn \<times> u64 \<times> 'w rover_lost_scan) option" where
  "step_turn env budget stop scan =
     (if sc_finishing scan then map_option (\<lambda>(t, scan1). (t, stop, scan1)) (finish_turn env scan)
      else if sc_pos scan \<ge> stop then Some (Turn_Break, stop, scan)
      else if sc_flags scan AND ROVER_LOST_SCAN_DEEP \<noteq> 0
      then map_option (\<lambda>(t, scan1). (t, stop, scan1)) (deep_turn env scan)
      else let s = lost_next scan (sc_pos scan)
        in if s > sc_size scan \<or> s \<ge> sc_limit scan
           then (case lost_next_pass scan of
                   (False, scan1) \<Rightarrow> Some (Turn_Continue, stop, scan1\<lparr> sc_finishing := True \<rparr>)
                 | (True, scan1) \<Rightarrow>
                     Some (Turn_Continue, if budget \<noteq> 0 then sc_pos scan1 + budget else stop, scan1))
           else map_option (\<lambda>(t, scan1). (t, stop, scan1)) (quick_turn env s scan))"

text \<open>The loop may run forever; \<open>None\<close> is that. The result tells whether it jumped to \<open>fail\<close>.\<close>

partial_function (option) step_loop :: "'w lost_env \<Rightarrow> u64 \<Rightarrow> u64 \<Rightarrow> 'w rover_lost_scan
    \<Rightarrow> (bool \<times> 'w rover_lost_scan) option" where
  "step_loop env budget stop scan =
     (if sc_done scan then Some (False, scan)
      else do { (t, stop1, scan1) \<leftarrow> step_turn env budget stop scan;
                case t of
                  Turn_Fail \<Rightarrow> Some (True, scan1)
                | Turn_Break \<Rightarrow> Some (False, scan1)
                | Turn_Continue \<Rightarrow> step_loop env budget stop1 scan1 })"

text \<open>The result is -1 on failure, 1 if more remains and 0 at the end.\<close>

definition rover_lost_scan_step :: "'w lost_env \<Rightarrow> u64 \<Rightarrow> 'w rover_lost_scan \<Rightarrow> (int \<times> 'w rover_lost_scan) option" where
  "rover_lost_scan_step env budget scan =
     (let stop0 = sc_pos scan + budget;
          stop = (if budget = 0 \<or> stop0 < sc_pos scan then NOT 0 else stop0)
      in do {
        (failed, scan1) \<leftarrow> step_loop env budget stop (set_world (le_set_errno env GRUB_ERR_NONE (sc_world scan)) scan);
        if failed
        then let scan2 = scan1\<lparr> sc_done := True, sc_pos := sc_size scan1 \<rparr>
             in Some (-1, if le_errno env (sc_world scan2) = GRUB_ERR_NONE
                    then set_world (le_error env GRUB_ERR_OUT_OF_MEMORY ''out of memory'' (sc_world scan2)) scan2
                    else scan2)
        else let scan2 = (if sc_pos scan1 > sc_size scan1 \<or> sc_done scan1
                          then scan1\<lparr> sc_pos := sc_size scan1 \<rparr> else scan1)
             in Some (if sc_done scan2 then 0 else 1, scan2) })"

text \<open>The bytes covered so far and the size.\<close>

definition rover_lost_scan_progress :: "'w rover_lost_scan \<Rightarrow> u64 \<times> u64" where
  "rover_lost_scan_progress scan =
     (if sc_done scan \<or> sc_rescanning scan then sc_size scan else sc_pos scan, sc_size scan)"

subsection \<open>The caller's loop\<close>

text \<open>The loop of the command line tool (\<open>common/lostpart.h\<close>): it steps while more remains.\<close>

partial_function (option) search_loop :: "'w lost_env \<Rightarrow> u64 \<Rightarrow> 'w rover_lost_scan
    \<Rightarrow> (int \<times> 'w rover_lost_scan) option" where
  "search_loop env budget scan =
     do { (more, scan1) \<leftarrow> rover_lost_scan_step env budget scan;
          if more > 0 then search_loop env budget scan1 else Some (more, scan1) }"

end
