(* ===== verification/Lost_Fs_Correct.thy ===== *)
theory Lost_Fs_Correct
  imports Lost_Fs
begin

text \<open>
  The sizes the tests of the lost partition search report: the bounds checked by every test but
  those of NTFS, XFS and Btrfs keep the product of block count and block size below \<open>2 ^ 64\<close>.
\<close>

subsection \<open>Products without wrap-around\<close>

lemma unat_mult_exact:
  fixes a b :: "'a::len word"
  assumes "unat a * unat b < 2 ^ LENGTH('a)"
  shows "unat (a * b) = unat a * unat b"
  using assms by (simp add: unat_word_ariths)

lemma power_64: "k \<le> 64 \<Longrightarrow> (2 :: nat) ^ k \<le> 18446744073709551616"
  using power_increasing [of k 64 "2 :: nat"] by simp

lemma power_63: "k < 64 \<Longrightarrow> (2 :: nat) ^ k < 18446744073709551616"
  using power_strict_increasing [of k 64 "2 :: nat"] by simp

text \<open>A count below \<open>2 ^ m\<close> times a unit of at most \<open>2 ^ n\<close>.\<close>

lemma unat_blocks:
  fixes a b :: u64
  assumes "unat a < 2 ^ m" "unat b \<le> 2 ^ n" "m + n \<le> 64" "0 < unat b"
  shows "unat (a * b) = unat a * unat b"
proof (rule unat_mult_exact)
  have "unat a * unat b < 2 ^ m * unat b" using assms by simp
  also have "\<dots> \<le> 2 ^ m * 2 ^ n" using assms by simp
  also have "\<dots> \<le> 2 ^ 64" using assms power_64 [of "m + n"] by (simp flip: power_add)
  finally show "unat a * unat b < 2 ^ LENGTH(64)" by simp
qed

lemma below_power:
  fixes a :: u64
  assumes "\<not> push_bit m 1 \<le> a" "m < 64"
  shows "unat a < 2 ^ m"
proof -
  have "unat (push_bit m (1 :: u64)) = 2 ^ m" using assms(2) unat_push_bit_exact [of "1 :: u64" m] power_63 [of m] by (simp add: push_bit_eq_mult del: unat_push_bit_exact)
  then show ?thesis using assms(1) by (simp add: word_le_nat_alt)
qed

lemma unat_ucast_up [simp]:
  "unat (ucast (w :: u32) :: u64) = unat w" "unat (ucast (h :: u16) :: u64) = unat h"
  "unat (ucast (h :: u16) :: u32) = unat h" "unat (ucast (b :: u8) :: u32) = unat b"
  by (simp_all add: unsigned_ucast_eq take_bit_nat_eq_self unsigned_less [THEN order_less_le_trans])

lemma unat_nonzero: "w \<noteq> 0 \<longleftrightarrow> 0 < unat (w :: 'a::len word)"
  by (simp add: unat_gt_0)

text \<open>The sizes as exact products of what the sector holds.\<close>

definition exact_product :: "u64 \<Rightarrow> nat \<Rightarrow> nat \<Rightarrow> bool" where
  "exact_product sz n unit \<longleftrightarrow> unat sz = n * unit \<and> 0 < n \<and> 0 < unit"

lemma exact_blocks:
  fixes a b :: u64
  assumes "a \<noteq> 0" "\<not> push_bit m 1 \<le> a" "unat b \<le> 2 ^ n" "m + n \<le> 64" "0 < unat b" "m < 64"
  shows "exact_product (a * b) (unat a) (unat b)"
  using unat_blocks [OF below_power [OF assms(2,6)] assms(3-5)] assms
  by (simp add: exact_product_def unat_nonzero)

lemma exact_shift:
  fixes a :: u64
  assumes "a \<noteq> 0" "\<not> push_bit m 1 \<le> a" "m + n \<le> 64" "m < 64"
  shows "exact_product (push_bit n a) (unat a) (2 ^ n)"
proof -
  have "unat a * 2 ^ n < 2 ^ m * 2 ^ n" using below_power [OF assms(2,4)] by simp
  also have "\<dots> \<le> 2 ^ 64" using assms power_64 [of "m + n"] by (simp flip: power_add)
  finally show ?thesis
    using assms unat_push_bit_exact [of a n] by (simp add: exact_product_def unat_nonzero)
qed

lemma exact_u32:
  fixes a :: u32 and b :: "'b::len word"
  assumes "a \<noteq> 0" "LENGTH('b) \<le> 32" "0 < unat b"
  shows "exact_product (ucast a * ucast b) (unat a) (unat b)"
proof -
  have b: "unat b < 2 ^ 32"
    using unsigned_less [of b, where ?'a = nat] assms(2)
    by (meson less_le_trans one_le_numeral power_increasing)
  have ub: "unat (ucast b :: u64) = unat b"
    using b by (simp add: unsigned_ucast_eq take_bit_nat_eq_self)
  have "unat a < 2 ^ 32" using unsigned_less [of a, where ?'a = nat] by simp
  then have "unat a * unat b < 2 ^ 32 * 2 ^ 32" using b by (intro mult_strict_mono) simp_all
  then show ?thesis
    using assms by (simp add: exact_product_def unat_mult_exact ub unat_nonzero)
qed

subsection \<open>The tests\<close>

lemma lost_exfat_size:
  "lost_exfat bs = Some (shift, sz) \<Longrightarrow> exact_product sz (unat (lost_le64 bs 0x48)) (2 ^ unat shift)"
proof -
  assume a: "lost_exfat bs = Some (shift, sz)"
  define k where "k = unat shift"
  have s: "\<not> shift < 9" "\<not> 12 < shift" and x: "lost_le64 bs 0x48 \<noteq> 0" "\<not> push_bit (64 - k) 1 \<le> lost_le64 bs 0x48"
    and sz: "sz = push_bit k (lost_le64 bs 0x48)"
    using a by (auto simp: lost_exfat_def Let_def k_def simp del: upt_rec_numeral split: if_splits)
  have "9 \<le> k" "k \<le> 12" using s by (simp_all add: k_def word_less_nat_alt not_less)
  with exact_shift [OF x, of k] show ?thesis by (simp add: sz k_def)
qed

lemma lost_ext_size:
  "lost_ext sb = Some (type, sz, sb_offset) \<Longrightarrow>
     exact_product sz (unat (ext_blocks sb)) (2 ^ (10 + unat (lost_le32 sb 0x18)))"
proof -
  assume a: "lost_ext sb = Some (type, sz, sb_offset)"
  define k where "k = unat (lost_le32 sb 0x18)"
  have s: "\<not> 6 < lost_le32 sb 0x18" and x: "ext_blocks sb \<noteq> 0" "\<not> push_bit (54 - k) 1 \<le> ext_blocks sb"
    and sz: "sz = push_bit (10 + k) (ext_blocks sb)"
    using a by (auto simp: lost_ext_def Let_def k_def split: if_splits)
  have "k \<le> 6" using s by (simp add: k_def word_less_nat_alt not_less)
  with exact_shift [OF x, of "10 + k"] show ?thesis by (simp add: sz k_def)
qed

lemma lost_fat_size:
  "lost_fat bs ss = Some (type, sz) \<Longrightarrow> 0 < ss \<Longrightarrow> \<exists>total. exact_product sz total (unat ss) \<and> total < 2 ^ 32"
proof -
  assume a: "lost_fat bs ss = Some (type, sz)" and ss: "0 < ss"
  define total where "total = (if lost_le16 bs 0x13 \<noteq> 0 then ucast (lost_le16 bs 0x13) else lost_le32 bs 0x20 :: u32)"
  obtain start :: u64 where t: "\<not> ucast total \<le> start" "sz = ucast total * ucast ss"
    using a by (auto simp: lost_fat_def Let_def total_def split: if_splits option.splits)
  then have "total \<noteq> 0" by auto
  moreover have "unat total < 2 ^ 32" using unsigned_less [of total, where ?'a = nat] by simp
  ultimately show ?thesis
    using exact_u32 [of total ss] ss t(2) by (auto simp: word_less_nat_alt)
qed

lemma lost_apfs_size:
  "lost_apfs b avail = Some sz \<Longrightarrow> exact_product sz (unat (lost_le64 b 40)) (unat (lost_le32 b 36))"
proof -
  assume a: "lost_apfs b avail = Some sz"
  have s: "\<not> lost_le32 b 36 < 4096" "\<not> 65536 < lost_le32 b 36"
    and x: "lost_le64 b 40 \<noteq> 0" "\<not> push_bit 48 1 \<le> lost_le64 b 40"
    and sz: "sz = lost_le64 b 40 * ucast (lost_le32 b 36)"
    using a by (auto simp: lost_apfs_def Let_def split: if_splits)
  have "unat (lost_le32 b 36) \<le> 2 ^ 16" "0 < unat (lost_le32 b 36)"
    using s by (simp_all add: word_less_nat_alt not_less)
  with exact_blocks [OF x, of "ucast (lost_le32 b 36)" 16] show ?thesis by (simp add: sz)
qed

lemma lost_refs_size:
  "lost_refs bs = Some sz \<Longrightarrow> exact_product sz (unat (lost_le64 bs 0x18)) (unat (lost_le32 bs 0x20))"
proof -
  assume a: "lost_refs bs = Some sz"
  have s: "\<not> lost_le32 bs 0x20 < 512" "\<not> 4096 < lost_le32 bs 0x20"
    and x: "lost_le64 bs 0x18 \<noteq> 0" "\<not> push_bit 52 1 \<le> lost_le64 bs 0x18"
    and sz: "sz = lost_le64 bs 0x18 * ucast (lost_le32 bs 0x20)"
    using a by (auto simp: lost_refs_def Let_def split: if_splits)
  have "unat (lost_le32 bs 0x20) \<le> 2 ^ 12" "0 < unat (lost_le32 bs 0x20)"
    using s by (simp_all add: word_less_nat_alt not_less)
  with exact_blocks [OF x, of "ucast (lost_le32 bs 0x20)" 12] show ?thesis by (simp add: sz)
qed

lemma lost_f2fs_size:
  "lost_f2fs sb = Some sz \<Longrightarrow> exact_product sz (unat (lost_le64 sb 36)) 4096"
  using exact_shift [of "lost_le64 sb 36" 52 12] by (auto simp: lost_f2fs_def Let_def split: if_splits)

text \<open>The block count of a UFS superblock in its byte order.\<close>

definition ufs_blocks :: "bool \<Rightarrow> bool \<Rightarrow> bytes \<Rightarrow> u64" where
  "ufs_blocks be ufs2 sb = (if ufs2 then ufs_64 be sb 1080 else ucast (ufs_32 be sb 36))"

lemma lost_ufs_size:
  "lost_ufs sb at = Some (type, sz) \<Longrightarrow>
     \<exists>be ufs2. ufs_magic sb = Some (be, ufs2) \<and> exact_product sz (unat (ufs_blocks be ufs2 sb)) (unat (ufs_32 be sb 52))"
proof -
  assume a: "lost_ufs sb at = Some (type, sz)"
  then obtain be ufs2 where m: "ufs_magic sb = Some (be, ufs2)" by (auto simp: lost_ufs_def split: option.splits)
  have s: "\<not> ufs_32 be sb 52 < 512" "\<not> 4096 < ufs_32 be sb 52"
    and x: "ufs_blocks be ufs2 sb \<noteq> 0" "\<not> push_bit 52 1 \<le> ufs_blocks be ufs2 sb"
    and sz: "sz = ufs_blocks be ufs2 sb * ucast (ufs_32 be sb 52)"
    using a by (simp_all add: lost_ufs_def m ufs_blocks_def Let_def split: if_splits)
  have "unat (ufs_32 be sb 52) \<le> 2 ^ 12" "0 < unat (ufs_32 be sb 52)"
    using s by (simp_all add: word_less_nat_alt not_less)
  with exact_blocks [OF x, of "ucast (ufs_32 be sb 52)" 12] show ?thesis using m by (auto simp: sz)
qed

lemma lost_reiserfs_size:
  "lost_reiserfs sb = Some sz \<Longrightarrow> exact_product sz (unat (lost_le32 sb 0)) (unat (lost_le16 sb 0x2c))"
proof -
  assume a: "lost_reiserfs sb = Some sz"
  have s: "lost_le16 sb 0x2c = 4096 \<or> lost_le16 sb 0x2c = 8192" and x: "\<not> lost_le32 sb 0 < 100"
    and sz: "sz = ucast (lost_le32 sb 0) * ucast (lost_le16 sb 0x2c)"
    using a by (auto simp: lost_reiserfs_def Let_def split: if_splits)
  have "lost_le32 sb 0 \<noteq> 0" using x by auto
  with exact_u32 [of "lost_le32 sb 0" "lost_le16 sb 0x2c"] s show ?thesis by (auto simp: sz)
qed

lemma lost_iso_size:
  "lost_iso pvd = Some sz \<Longrightarrow> exact_product sz (unat (lost_le32 pvd 80)) (unat (lost_le16 pvd 128))"
proof -
  assume a: "lost_iso pvd = Some sz"
  have s: "\<not> lost_le16 pvd 128 < 512" and x: "\<not> lost_le32 pvd 80 \<le> 16"
    and sz: "sz = ucast (lost_le32 pvd 80) * ucast (lost_le16 pvd 128)"
    using a by (auto simp: lost_iso_def Let_def split: if_splits)
  have "0 < unat (lost_le16 pvd 128)" using s by (simp add: word_less_nat_alt not_less)
  moreover have "lost_le32 pvd 80 \<noteq> 0" using x by auto
  ultimately show ?thesis using exact_u32 [of "lost_le32 pvd 80" "lost_le16 pvd 128"] by (simp add: sz)
qed

text \<open>The NTFS test admits one size that does not fit: \<open>2 ^ 52\<close> sectors with the backup, of 4096 bytes each.\<close>

lemma lost_ntfs_size:
  assumes a: "lost_ntfs bs = Some (sz, bps)"
  shows "unat sz = (unat (lost_le64 bs 0x28) + 1) * unat bps mod 2 ^ 64" (is ?t1)
    and "exact_product sz (unat (lost_le64 bs 0x28) + 1) (unat bps) \<or>
      (lost_le64 bs 0x28 = push_bit 52 1 - 1 \<and> bps = 4096 \<and> sz = 0)" (is ?t2)
proof -
  let ?n = "lost_le64 bs 0x28"
  have s: "\<not> bps < 256" "\<not> 4096 < bps" and x: "\<not> push_bit 52 1 \<le> ?n"
    and sz: "sz = (?n + 1) * ucast bps"
    using a by (auto simp: lost_ntfs_def Let_def split: if_splits)
  have b: "256 \<le> unat bps" "unat bps \<le> 4096" using s by (simp_all add: word_less_nat_alt not_less)
  have n: "unat ?n < 2 ^ 52" by (rule below_power [OF x]) simp
  have n1: "unat (?n + 1) = unat ?n + 1" using unat_plus_exact [of ?n 1] n by simp
  show t1: ?t1 by (simp only: sz unat_word_ariths(2)) (simp add: n1)
  show ?t2
  proof (cases "(unat ?n + 1) * unat bps < 2 ^ 64")
    case True
    then show ?thesis using t1 b by (simp add: exact_product_def)
  next
    case False
    have "(unat ?n + 1) * unat bps \<le> 2 ^ 52 * 4096" using n b by (intro mult_le_mono) simp_all
    with False have eq: "(unat ?n + 1) * unat bps = 2 ^ 52 * 4096" by simp
    have "unat ?n + 1 = 2 ^ 52"
    proof (rule ccontr)
      assume "unat ?n + 1 \<noteq> 2 ^ 52"
      then have "unat ?n + 1 \<le> 2 ^ 52 - 1" using n by linarith
      then have "(unat ?n + 1) * unat bps \<le> (2 ^ 52 - 1) * 4096" using b by (intro mult_le_mono)
      then show False using eq by simp
    qed
    moreover have "unat bps = 4096" using eq calculation by simp
    ultimately have "unat ?n = unat (push_bit 52 1 - 1 :: u64)" "unat bps = unat (4096 :: u32)" by simp_all
    then show ?thesis using t1 eq by (simp add: word_unat_eq_iff)
  qed
qed

lemma lost_jfs_size:
  "lost_jfs sb = Some sz \<Longrightarrow>
     unat sz = unat (lost_le64 sb 8) * unat (lost_le32 sb 24)
       + unat (lost_le32 sb 16) * (unat (lost_le32 sb 72 AND 0xffffff) + unat (lost_le32 sb 80 AND 0xffffff)) \<and> 0 < unat sz"
proof -
  assume a: "lost_jfs sb = Some sz"
  let ?b = "lost_le32 sb 16" and ?p = "lost_le32 sb 24" and ?n = "lost_le64 sb 8"
  let ?l = "lost_le32 sb 72 AND 0xffffff" and ?f = "lost_le32 sb 80 AND 0xffffff"
  have s: "\<not> ?b < 512" "\<not> 4096 < ?b" "\<not> ?p < 512" "\<not> 4096 < ?p"
    and x: "?n \<noteq> 0" "\<not> push_bit 50 1 \<le> ?n"
    and sz: "sz = ?n * ucast ?p + ucast ?b * ucast (?l + ?f)"
    using a by (auto simp: lost_jfs_def Let_def split: if_splits)
  have b: "unat ?b \<le> 4096" and p: "512 \<le> unat ?p" "unat ?p \<le> 4096"
    using s by (simp_all add: word_less_nat_alt not_less)
  have n: "unat ?n < 2 ^ 50" by (rule below_power [OF x(2)]) simp
  have m: "unat (w AND 0xffffff) < 2 ^ 24" for w :: u32
    using unat_and_mask [of w 24] by (simp add: mask_eq_exp_minus_1)
  have lf: "unat (?l + ?f) = unat ?l + unat ?f" by (rule unat_plus_exact) (use m [of "lost_le32 sb 72"] m [of "lost_le32 sb 80"] in simp)
  have lt: "unat ?l + unat ?f < 2 ^ 25" using m [of "lost_le32 sb 72"] m [of "lost_le32 sb 80"] by simp
  have p1: "unat (?n * ucast ?p) = unat ?n * unat ?p"
    by (subst unat_blocks [of _ 50 _ 12]) (use n p in simp_all)
  have p2: "unat (ucast ?b * ucast (?l + ?f) :: u64) = unat ?b * (unat ?l + unat ?f)"
  proof -
    have "unat ?b * (unat ?l + unat ?f) \<le> 4096 * 2 ^ 25" using b lt by (intro mult_le_mono) simp_all
    then show ?thesis by (subst unat_mult_exact) (simp_all add: lf)
  qed
  have "unat ?n * unat ?p \<le> 2 ^ 50 * 4096" using n p by (intro mult_le_mono) simp_all
  moreover have "unat ?b * (unat ?l + unat ?f) \<le> 4096 * 2 ^ 25" using b lt by (intro mult_le_mono) simp_all
  ultimately have "unat sz = unat ?n * unat ?p + unat ?b * (unat ?l + unat ?f)"
    unfolding sz by (subst unat_plus_exact) (simp_all add: p1 p2)
  moreover have "0 < unat ?n * unat ?p" using x p by (simp add: unat_nonzero)
  ultimately show ?thesis by simp
qed

end
