(* ===== verification/Lost_State_Correct.thy ===== *)
theory Lost_State_Correct
  imports Lost_Exam Lost_Fs_Correct
begin

text \<open>
  The lists of the lost partition search: what every operation keeps (\<open>scan_wf\<close>), what it does not
  touch (\<open>calm\<close>), and the two searches over the hints. The step of the search ends because every
  turn of its loop makes progress in the sense of \<open>grows\<close>.
\<close>

subsection \<open>Types of results\<close>

instance lost_type :: finite
proof
  have "UNIV = {Ntfs, Fat12, Fat16, Fat32, Exfat, Ext2, Ext3, Ext4, Xfs, Btrfs, Hfs, Hfsplus, Hfsx, Apfs, Refs,
      F2fs, Ufs, Ufs2, Jfs, Reiserfs, Iso9660, Udf, Table_Partition}"
    using lost_type.exhaust by auto
  then show "finite (UNIV :: lost_type set)" by (metis finite.simps)
qed

text \<open>The strings of the code tell the types apart, so comparing them is comparing the constructors.\<close>

lemma type_text_inj: "type_text a = type_text b \<longleftrightarrow> a = b"
  by (cases a; cases b) simp_all

subsection \<open>Well-formed searches\<close>

definition found_key :: "lost_found \<Rightarrow> u64 \<times> u64 \<times> lost_type" where
  "found_key f = (f_start f, f_size f, f_type f)"

definition table_key :: "lost_table \<Rightarrow> u64 \<times> u64" where
  "table_key t = (t_start t, t_size t)"

definition aligned :: "'w rover_lost_scan \<Rightarrow> u64 \<Rightarrow> bool" where
  "aligned scan x \<longleftrightarrow> x mod ucast (sc_sector_size scan) = 0"

definition hints_wf :: "'w rover_lost_scan \<Rightarrow> bool" where
  "hints_wf scan \<longleftrightarrow> sorted_wrt (<) (sc_hints scan) \<and> length (sc_hints scan) \<le> sc_hints_alloc scan
     \<and> (\<forall>h \<in> set (sc_hints scan). h \<le> sc_size scan \<and> aligned scan h)"

definition found_wf :: "'w rover_lost_scan \<Rightarrow> bool" where
  "found_wf scan \<longleftrightarrow> distinct (map found_key (sc_found scan)) \<and> length (sc_found scan) \<le> sc_found_alloc scan
     \<and> (\<forall>f \<in> set (sc_found scan). f_size f \<noteq> 0 \<and> f_start f < sc_size scan)"

definition tables_wf :: "'w rover_lost_scan \<Rightarrow> bool" where
  "tables_wf scan \<longleftrightarrow> distinct (map table_key (sc_tables scan)) \<and> length (sc_tables scan) \<le> sc_tables_alloc scan
     \<and> sc_next_table scan \<le> length (sc_tables scan)
     \<and> (\<forall>t \<in> set (sc_tables scan). t_size t \<noteq> 0 \<and> t_start t < sc_size scan \<and> aligned scan (t_start t))"

definition skips_wf :: "'w rover_lost_scan \<Rightarrow> bool" where
  "skips_wf scan \<longleftrightarrow> length (sc_skips scan) \<le> sc_skips_alloc scan
     \<and> (\<forall>sk \<in> set (sc_skips scan). sk_from sk < sk_to sk \<and> sk_to sk \<le> sc_size scan)"

definition scan_wf :: "'w rover_lost_scan \<Rightarrow> bool" where
  "scan_wf scan \<longleftrightarrow> hints_wf scan \<and> found_wf scan \<and> tables_wf scan \<and> skips_wf scan"

definition fixed_part where
  "fixed_part scan = (sc_size scan, sc_sector_size scan, sc_flags scan, sc_limit scan, sc_done scan,
     sc_rescanning scan, sc_finishing scan, sc_base_readable scan, sc_ranges scan, sc_next_table scan,
     sc_next_pending scan)"

definition queued :: "'w rover_lost_scan \<Rightarrow> nat" where
  "queued scan = length (filter (\<lambda>sk. sk_state sk = LOST_SKIP_QUEUED) (sc_skips scan))"

definition grows :: "'w rover_lost_scan \<Rightarrow> 'w rover_lost_scan \<Rightarrow> bool" where
  "grows scan scan' \<longleftrightarrow> scan_wf scan' \<and> fixed_part scan' = fixed_part scan
     \<and> length (sc_found scan) \<le> length (sc_found scan') \<and> length (sc_tables scan) \<le> length (sc_tables scan')
     \<and> (length (sc_found scan') = length (sc_found scan) \<and> length (sc_tables scan') = length (sc_tables scan)
          \<longrightarrow> queued scan' = queued scan)
     \<and> sc_pos scan \<le> sc_pos scan' \<and> sc_pos scan' \<le> max (sc_pos scan) (sc_size scan)"

definition calm :: "'w rover_lost_scan \<Rightarrow> 'w rover_lost_scan \<Rightarrow> bool" where
  "calm scan scan' \<longleftrightarrow> grows scan scan' \<and> sc_pending scan' = sc_pending scan"

lemmas wf_defs = hints_wf_def found_wf_def tables_wf_def skips_wf_def

lemma grows_refl [simp]: "scan_wf scan \<Longrightarrow> grows scan scan"
  by (simp add: grows_def)

lemma grows_trans: "grows a b \<Longrightarrow> grows b c \<Longrightarrow> grows a c"
  unfolding grows_def fixed_part_def by (auto simp: max_def split: if_splits)

lemma calm_refl [simp]: "scan_wf scan \<Longrightarrow> calm scan scan"
  by (simp add: calm_def)

lemma calm_trans: "calm a b \<Longrightarrow> calm b c \<Longrightarrow> calm a c"
  unfolding calm_def using grows_trans by metis

lemma calm_grows: "calm a b \<Longrightarrow> grows a b" and calm_wf: "calm a b \<Longrightarrow> scan_wf b"
  by (simp_all add: calm_def grows_def)

lemma calm_sizes:
  "calm a b \<Longrightarrow> sc_size b = sc_size a" "calm a b \<Longrightarrow> sc_sector_size b = sc_sector_size a"
  "calm a b \<Longrightarrow> sc_flags b = sc_flags a" "calm a b \<Longrightarrow> sc_ranges b = sc_ranges a"
  by (simp_all add: calm_def grows_def fixed_part_def)

lemma calm_world [simp]: "scan_wf scan \<Longrightarrow> calm scan (set_world w scan)"
  by (simp add: calm_def grows_def set_world_def scan_wf_def wf_defs aligned_def fixed_part_def queued_def)

lemma set_world_simps [simp]:
  "sc_size (set_world w scan) = sc_size scan" "sc_sector_size (set_world w scan) = sc_sector_size scan"
  "sc_hints (set_world w scan) = sc_hints scan" "sc_found (set_world w scan) = sc_found scan"
  "sc_tables (set_world w scan) = sc_tables scan" "sc_skips (set_world w scan) = sc_skips scan"
  "sc_pos (set_world w scan) = sc_pos scan" "sc_world (set_world w scan) = w"
  "sc_ranges (set_world w scan) = sc_ranges scan" "sc_flags (set_world w scan) = sc_flags scan"
  "sc_finishing (set_world w scan) = sc_finishing scan" "sc_done (set_world w scan) = sc_done scan"
  "sc_pending (set_world w scan) = sc_pending scan" "aligned (set_world w scan) x = aligned scan x" "scan_wf (set_world w scan) = scan_wf scan"
  by (simp_all add: set_world_def scan_wf_def wf_defs aligned_def)

subsection \<open>Growth of a list\<close>

lemma lost_grow_cases:
  assumes "lost_grow env n alloc first scan = (r, scan1)" "n \<le> alloc" "0 < first"
  obtains (fail) w where "r = None" "scan1 = set_world w scan"
    | (room) a w where "r = Some a" "Suc n \<le> a" "scan1 = set_world w scan"
proof (cases "n = alloc")
  case True
  then show ?thesis using assms that by (auto simp: lost_grow_def split: prod.splits if_splits)
next
  case False
  moreover have "scan = set_world (sc_world scan) scan" by (simp add: set_world_def)
  ultimately show ?thesis using assms that by (auto simp: lost_grow_def)
qed

subsection \<open>The binary search\<close>

lemma lost_lower_spec:
  assumes "sorted_wrt (<) hints" "lo \<le> hi" "hi \<le> length hints"
    and "\<And>i. i < lo \<Longrightarrow> hints ! i < x" "\<And>i. hi \<le> i \<Longrightarrow> i < length hints \<Longrightarrow> x \<le> hints ! i"
  shows "lost_lower hints x lo hi \<le> length hints
    \<and> (\<forall>i < lost_lower hints x lo hi. hints ! i < x)
    \<and> (\<forall>i \<ge> lost_lower hints x lo hi. i < length hints \<longrightarrow> x \<le> hints ! i)"
  using assms
proof (induction hints x lo hi rule: lost_lower.induct)
  case (1 hints x lo hi)
  show ?case
  proof (cases "lo < hi")
    case False
    then have "lost_lower hints x lo hi = lo" "lo = hi" using "1.prems"(2) by (subst lost_lower.simps, simp_all)
    then show ?thesis using "1.prems"(3-5) by auto
  next
    case True
    define mid where "mid = lo + (hi - lo) div 2"
    have mid: "lo \<le> mid" "mid < hi" using True by (auto simp: mid_def)
    have mono: "hints ! i \<le> hints ! j" if "i \<le> j" "j < length hints" for i j
    proof (cases "i = j")
      case False
      then show ?thesis using sorted_wrt_nth_less [OF "1.prems"(1), of i j] that by simp
    qed simp
    have mid2: "mid + 1 \<le> hi" "mid \<le> length hints" using mid "1.prems"(3) by simp_all
    show ?thesis
    proof (cases "hints ! mid < x")
      case less: True
      have eq: "lost_lower hints x lo hi = lost_lower hints x (mid + 1) hi"
        using True less by (subst lost_lower.simps) (simp add: mid_def Let_def)
      have "hints ! i < x" if "i < mid + 1" for i
      proof -
        have "i \<le> mid" "mid < length hints" using that mid "1.prems"(3) by simp_all
        from mono [OF this] less show ?thesis by (rule le_less_trans)
      qed
      then show ?thesis
        unfolding eq
        using "1.IH"(1) [OF True mid_def less "1.prems"(1) mid2(1) "1.prems"(3) _ "1.prems"(5)] by blast
    next
      case False
      have eq: "lost_lower hints x lo hi = lost_lower hints x lo mid"
        using True False by (subst lost_lower.simps) (simp add: mid_def Let_def)
      have "x \<le> hints ! i" if "mid \<le> i" "i < length hints" for i
        using mono [of mid i] False that by simp
      then show ?thesis
        unfolding eq
        using "1.IH"(2) [OF True mid_def False "1.prems"(1) mid(1) mid2(2) "1.prems"(4)] by blast
    qed
  qed
qed

lemma lost_lower_hints:
  assumes "sorted_wrt (<) hints"
  shows "lost_lower hints x 0 (length hints) \<le> length hints"
    and "i < lost_lower hints x 0 (length hints) \<Longrightarrow> hints ! i < x"
    and "lost_lower hints x 0 (length hints) \<le> i \<Longrightarrow> i < length hints \<Longrightarrow> x \<le> hints ! i"
  using lost_lower_spec [OF assms, of 0 "length hints" x] by auto

lemma insert_at_lower:
  assumes s: "sorted_wrt (<) hints" and lo: "lo = lost_lower hints x 0 (length hints)"
    and new: "\<not> (lo < length hints \<and> hints ! lo = x)"
  shows "sorted_wrt (<) (take lo hints @ x # drop lo hints)"
proof -
  note l = lost_lower_hints [OF s, where x = x, folded lo]
  have before: "\<forall>y \<in> set (take lo hints). y < x" using l(2) by (auto simp: in_set_conv_nth)
  have "x < hints ! i" if "lo \<le> i" "i < length hints" for i
  proof (cases "i = lo")
    case True
    then show ?thesis using l(3) [of lo] new that by (simp add: order.not_eq_order_implies_strict)
  next
    case False
    then have "hints ! lo < hints ! i" using s that by (simp add: sorted_wrt_iff_nth_less)
    then show ?thesis using l(3) [of lo] that by simp
  qed
  then have after: "\<forall>y \<in> set (drop lo hints). x < y" by (auto simp: in_set_conv_nth)
  have "sorted_wrt (<) (take lo hints @ drop lo hints)" using s by simp
  then show ?thesis
    unfolding sorted_wrt_append using before after by (auto intro: less_trans)
qed

subsection \<open>Hints\<close>

text \<open>What does not read the lists of the search leaves it well-formed: a rule for updates.\<close>

lemma calm_hints:
  assumes "scan_wf scan" "sorted_wrt (<) hs" "length hs \<le> a"
    and "\<forall>h \<in> set hs. h \<le> sc_size scan \<and> aligned scan h"
  shows "calm scan (scan\<lparr> sc_hints_alloc := a, sc_hints := hs \<rparr>)"
  using assms by (simp add: calm_def grows_def fixed_part_def queued_def scan_wf_def wf_defs aligned_def)

lemma lost_add_hint_calm:
  assumes wf: "scan_wf scan" and run: "lost_add_hint env x scan = (e, scan')"
  shows "calm scan scan'"
proof -
  define lo where "lo = lost_lower (sc_hints scan) x 0 (length (sc_hints scan))"
  have h: "sorted_wrt (<) (sc_hints scan)" "length (sc_hints scan) \<le> sc_hints_alloc scan"
    "\<forall>h \<in> set (sc_hints scan). h \<le> sc_size scan \<and> aligned scan h"
    using wf by (simp_all add: scan_wf_def hints_wf_def)
  show ?thesis
  proof (cases "x > sc_size scan \<or> \<not> aligned scan x \<or> (lo < length (sc_hints scan) \<and> sc_hints scan ! lo = x)")
    case True
    then have "scan' = scan" using run by (auto simp: lost_add_hint_def Let_def lo_def [symmetric] aligned_def split: if_splits)
    then show ?thesis using wf by simp
  next
    case new: False
    obtain r scan1 where g: "lost_grow env (length (sc_hints scan)) (sc_hints_alloc scan) 64 scan = (r, scan1)" by force
    have res: "(e, scan') = (case r of None \<Rightarrow> (True, scan1) | Some a \<Rightarrow>
        (False, scan1\<lparr> sc_hints_alloc := a, sc_hints := take lo (sc_hints scan) @ x # drop lo (sc_hints scan) \<rparr>))"
      using run new g by (auto simp: lost_add_hint_def Let_def lo_def [symmetric] aligned_def split: option.splits)
    from g h(2) zero_less_numeral show ?thesis
    proof (cases rule: lost_grow_cases)
      case (fail w)
      then show ?thesis using res wf by simp
    next
      case (room a w)
      let ?hs = "take lo (sc_hints scan) @ x # drop lo (sc_hints scan)"
      have "length ?hs \<le> a" using room(2) by simp
      moreover have "\<forall>h \<in> set ?hs. h \<le> sc_size scan \<and> aligned scan h"
        using h(3) new by (auto dest: in_set_takeD in_set_dropD)
      moreover have "sorted_wrt (<) ?hs" using insert_at_lower [OF h(1) lo_def] new by blast
      ultimately have "calm scan1 scan'"
        using res room(1) wf by (auto simp: room(3) intro!: calm_hints)
      then show ?thesis using calm_trans [OF calm_world [OF wf]] by (auto simp: room(3))
    qed
  qed
qed

lemma add_hints_calm:
  "scan_wf scan \<Longrightarrow> add_hints env hs scan = (e, scan') \<Longrightarrow> calm scan scan'"
proof (induction hs arbitrary: scan)
  case (Cons h hs)
  obtain e1 scan1 where one: "lost_add_hint env h scan = (e1, scan1)" by force
  note c = lost_add_hint_calm [OF Cons.prems(1) one]
  show ?case
    using Cons.prems(2) one c Cons.IH [OF calm_wf [OF c]] calm_trans [OF c] by (cases e1) auto
qed simp

lemma lost_add_end_hints_calm:
  assumes "scan_wf scan" and "lost_add_end_hints env x scan = (e, scan')"
  shows "calm scan scan'"
proof -
  obtain e1 scan1 where one: "lost_add_hint env x scan = (e1, scan1)" by force
  note c = lost_add_hint_calm [OF assms(1) one]
  show ?thesis
    using assms(2) one c add_hints_calm [OF calm_wf [OF c]] calm_trans [OF c]
    by (auto simp: lost_add_end_hints_def Let_def simp del: add_hints.simps split: bool.splits if_splits)
qed

subsection \<open>Ranges stepped over\<close>

lemma conflict_simps [simp]:
  "sc_size (lost_conflict x scan) = sc_size scan" "sc_sector_size (lost_conflict x scan) = sc_sector_size scan"
  "sc_hints (lost_conflict x scan) = sc_hints scan" "sc_found (lost_conflict x scan) = sc_found scan"
  "sc_tables (lost_conflict x scan) = sc_tables scan" "sc_pos (lost_conflict x scan) = sc_pos scan"
  "sc_ranges (lost_conflict x scan) = sc_ranges scan" "sc_pending (lost_conflict x scan) = sc_pending scan"
  "sc_flags (lost_conflict x scan) = sc_flags scan" "sc_limit (lost_conflict x scan) = sc_limit scan"
  "sc_done (lost_conflict x scan) = sc_done scan" "sc_rescanning (lost_conflict x scan) = sc_rescanning scan"
  "sc_finishing (lost_conflict x scan) = sc_finishing scan" "sc_next_table (lost_conflict x scan) = sc_next_table scan"
  "sc_base_readable (lost_conflict x scan) = sc_base_readable scan" "sc_world (lost_conflict x scan) = sc_world scan"
  "sc_next_pending (lost_conflict x scan) = sc_next_pending scan"
  by (simp_all add: lost_conflict_def)

lemma conflict_wf [simp]: "scan_wf (lost_conflict x scan) = scan_wf scan"
proof -
  define f :: "lost_skip \<Rightarrow> lost_skip" where "f sk = (if sk_state sk = LOST_SKIP_PASSED \<and> sk_from sk \<le> x \<and> x < sk_to sk
      then sk\<lparr> sk_state := LOST_SKIP_QUEUED \<rparr> else sk)" for sk
  have f: "sk_from (f sk) = sk_from sk" "sk_to (f sk) = sk_to sk" for sk by (simp_all add: f_def)
  have eq: "lost_conflict x scan = scan\<lparr> sc_skips := map f (sc_skips scan) \<rparr>"
    unfolding lost_conflict_def f_def by (rule refl)
  show ?thesis unfolding eq by (simp add: scan_wf_def wf_defs aligned_def f)
qed

lemma lost_jump_calm:
  assumes wf: "scan_wf scan" and run: "lost_jump env end scan = (e, scan')"
  shows "calm scan scan'"
proof (cases "end \<le> sc_pos scan \<or> end > sc_size scan \<or> lost_evidence scan (sc_pos scan) end")
  case True
  then show ?thesis using run wf by (auto simp: lost_jump_def)
next
  case False
  obtain r scan1 where g: "lost_grow env (length (sc_skips scan)) (sc_skips_alloc scan) 16 scan = (r, scan1)" by force
  have "length (sc_skips scan) \<le> sc_skips_alloc scan" using wf by (simp add: scan_wf_def skips_wf_def)
  from g this zero_less_numeral show ?thesis
  proof (cases rule: lost_grow_cases)
    case (room a w)
    then have "scan' = (set_world w scan)\<lparr> sc_skips_alloc := a,
        sc_skips := sc_skips scan @ [\<lparr> sk_from = sc_pos scan, sk_to = end, sk_state = LOST_SKIP_PASSED \<rparr>], sc_pos := end \<rparr>"
      using run False g by (simp add: lost_jump_def)
    then show ?thesis using wf False room(2)
      by (auto simp: calm_def grows_def fixed_part_def queued_def scan_wf_def wf_defs aligned_def set_world_def)
  qed (use run False g wf in \<open>auto simp: lost_jump_def\<close>)
qed

subsection \<open>Table entries\<close>

lemma calm_table:
  assumes wf: "scan_wf scan" and new: "(start, sz) \<notin> table_key ` set (sc_tables scan)" "Suc (length (sc_tables scan)) \<le> a"
    and ok: "sz \<noteq> 0" "start < sc_size scan" "aligned scan start"
  shows "calm scan (lost_conflict start (scan\<lparr> sc_tables_alloc := a,
    sc_tables := sc_tables scan @ [\<lparr> t_start = start, t_size = sz, t_claimed = False \<rparr>] \<rparr>))"
proof -
  let ?scan = "scan\<lparr> sc_tables_alloc := a, sc_tables := sc_tables scan @ [\<lparr> t_start = start, t_size = sz, t_claimed = False \<rparr>] \<rparr>"
  have "scan_wf ?scan" using assms by (auto simp: scan_wf_def wf_defs aligned_def table_key_def)
  then show ?thesis by (simp add: calm_def grows_def fixed_part_def)
qed

lemma lost_add_table_calm:
  assumes wf: "scan_wf scan" and run: "lost_add_table env start sz scan = (e, scan')"
  shows "calm scan scan'"
proof (cases "sz = 0 \<or> \<not> aligned scan start \<or> start \<ge> sc_size scan
    \<or> list_ex (\<lambda>r. r_start r = start \<and> r_end r - start = sz) (sc_ranges scan)
    \<or> list_ex (\<lambda>t. t_start t = start \<and> t_size t = sz) (sc_tables scan)")
  case True
  then show ?thesis using run wf by (auto simp: lost_add_table_def aligned_def split: if_splits)
next
  case new: False
  obtain r scan1 where g: "lost_grow env (length (sc_tables scan)) (sc_tables_alloc scan) 16 scan = (r, scan1)" by force
  have "length (sc_tables scan) \<le> sc_tables_alloc scan" using wf by (simp add: scan_wf_def tables_wf_def)
  from g this zero_less_numeral show ?thesis
  proof (cases rule: lost_grow_cases)
    case (room a w)
    define scan2 where "scan2 = lost_conflict start (scan1\<lparr> sc_tables_alloc := a,
        sc_tables := sc_tables scan1 @ [\<lparr> t_start = start, t_size = sz, t_claimed = False \<rparr>] \<rparr>)"
    have "(start, sz) \<notin> table_key ` set (sc_tables scan)" using new by (auto simp: table_key_def list_ex_iff)
    then have c2: "calm scan1 scan2"
      unfolding scan2_def using new wf room(2) by (intro calm_table) (simp_all add: room(3) not_le)
    have c1: "calm scan scan1" using wf room(3) by simp
    obtain e3 scan3 where h: "lost_add_hint env start scan2 = (e3, scan3)" by force
    note c3 = lost_add_hint_calm [OF calm_wf [OF c2] h]
    have "calm scan3 scan'"
      using run new g room(1) h lost_add_end_hints_calm [OF calm_wf [OF c3]] calm_wf [OF c3]
      by (auto simp: lost_add_table_def aligned_def scan2_def Let_def split: bool.splits if_splits)
    then show ?thesis using calm_trans [OF c1 calm_trans [OF c2 calm_trans [OF c3]]] by blast
  qed (use run new g wf in \<open>auto simp: lost_add_table_def aligned_def\<close>)
qed

subsection \<open>Operations that read the device\<close>

text \<open>Whatever lies outside returns on every call.\<close>

definition env_returns :: "'w lost_env \<Rightarrow> bool" where
  "env_returns env \<longleftrightarrow> (\<forall>sector off n w. le_read env sector off n w \<noteq> None)
     \<and> (\<forall>start sectors remap w. le_probe env start sectors remap w \<noteq> None) \<and> (\<forall>part w. le_hook env part w \<noteq> None)"

definition returns_calm :: "('a \<times> 'w rover_lost_scan) option \<Rightarrow> 'w rover_lost_scan \<Rightarrow> bool" where
  "returns_calm m scan \<longleftrightarrow> (\<exists>r scan'. m = Some (r, scan') \<and> calm scan scan')"

lemma returns_calm_Some [simp]: "returns_calm (Some p) scan = calm scan (snd p)"
  by (cases p) (simp add: returns_calm_def)

lemma returns_calm_trans: "calm a b \<Longrightarrow> returns_calm m b \<Longrightarrow> returns_calm m a"
  unfolding returns_calm_def using calm_trans by blast

lemma returns_calm_bind:
  assumes "returns_calm m scan" and "\<And>r scan1. scan_wf scan1 \<Longrightarrow> returns_calm (k (r, scan1)) scan1"
  shows "returns_calm (Option.bind m k) scan"
proof -
  obtain r scan1 where m: "m = Some (r, scan1)" "calm scan scan1" using assms(1) by (auto simp: returns_calm_def)
  from returns_calm_trans [OF m(2) assms(2) [OF calm_wf [OF m(2)]]] show ?thesis by (simp add: m(1))
qed

lemma returns_calm_map:
  "returns_calm m scan \<Longrightarrow> returns_calm (map_option (\<lambda>(r, scan1). (f r, scan1)) m) scan"
  unfolding returns_calm_def by auto

lemma lost_read_calm:
  assumes "env_returns env" "scan_wf scan"
  shows "returns_calm (lost_read env off n scan) scan"
proof -
  obtain e buf w where "le_read env (drop_bit 9 off) (off AND 511) n (sc_world scan) = Some ((e, buf), w)"
    using assms(1) unfolding env_returns_def by (metis option.exhaust prod.collapse)
  then show ?thesis using assms(2) by (simp add: lost_read_def)
qed

lemma udf_loop_calm:
  "env_returns env \<Longrightarrow> scan_wf scan \<Longrightarrow> returns_calm (udf_loop env s bss scan) scan"
proof (induction bss arbitrary: scan)
  case (Cons bs bss)
  note rest = Cons.IH [OF Cons.prems(1)]
  show ?case
    unfolding udf_loop.simps Let_def
    by (auto intro!: returns_calm_bind lost_read_calm Cons.prems rest split: option.split)
qed simp

lemma lost_udf_calm: "env_returns env \<Longrightarrow> scan_wf scan \<Longrightarrow> returns_calm (lost_udf env s scan) scan"
  unfolding lost_udf_def by (rule udf_loop_calm)

lemma ext_group3_calm:
  "env_returns env \<Longrightarrow> scan_wf scan \<Longrightarrow> returns_calm (ext_group3 env s logs scan) scan"
proof (induction logs arbitrary: scan)
  case (Cons log_bs logs)
  note rest = Cons.IH [OF Cons.prems(1)]
  show ?case
    unfolding ext_group3.simps Let_def
    by (auto intro!: returns_calm_bind lost_read_calm Cons.prems rest split: option.split)
qed simp

lemma lost_primary_ok_calm:
  "env_returns env \<Longrightarrow> scan_wf scan \<Longrightarrow> returns_calm (lost_primary_ok env hit scan) scan"
  unfolding lost_primary_ok_def Let_def
  by (auto intro!: returns_calm_bind lost_read_calm split: option.split)

lemma exam_rest_calm:
  assumes "env_returns env" "scan_wf scan"
  shows "returns_calm (exam_rest env s buf positional scan) scan"
  unfolding exam_rest_def Let_def
  by (auto intro!: returns_calm_map ext_group3_calm lost_add_table_calm simp: assms simp del: ext_group3.simps
      split: option.split prod.split bool.split)

lemma lost_examine_calm:
  assumes "env_returns env" "scan_wf scan"
  shows "returns_calm (lost_examine env s buf len positional scan) scan"
  unfolding lost_examine_def Let_def
  by (auto intro!: returns_calm_bind lost_udf_calm exam_rest_calm simp: assms split: option.split)

lemma add_gpt_entries_calm:
  "scan_wf scan \<Longrightarrow> add_gpt_entries env lba_size es scan = (e, scan') \<Longrightarrow> calm scan scan'"
proof (induction es arbitrary: scan)
  case (Cons x es)
  obtain e1 scan1 where one: "lost_add_table env (lost_le64 x 32 * lba_size)
      ((lost_le64 x 40 - lost_le64 x 32 + 1) * lba_size) scan = (e1, scan1)" by force
  note c = lost_add_table_calm [OF Cons.prems(1) one]
  show ?case
    using Cons.prems Cons.IH [OF Cons.prems(1)] one c Cons.IH [OF calm_wf [OF c]] calm_trans [OF c]
    by (cases e1) (auto simp: Let_def simp del: upt_rec_numeral split: if_splits)
qed simp

lemma lost_gpt_calm:
  assumes "env_returns env" "scan_wf scan"
  shows "returns_calm (lost_gpt env lba_size lba scan) scan"
proof -
  have entries: "calm scan1 (snd (add_gpt_entries env lba_size es scan1))" if "scan_wf scan1" for es scan1
    using add_gpt_entries_calm [OF that, of env lba_size es] by (cases "add_gpt_entries env lba_size es scan1") simp
  have world: "returns_calm (lost_read env off n (set_world w scan1)) scan1" if "scan_wf scan1" for off n w scan1
    by (rule returns_calm_trans [OF calm_world [OF that] lost_read_calm]) (use assms(1) that in simp_all)
  show ?thesis
    unfolding lost_gpt_def Let_def
    by (auto intro!: returns_calm_bind lost_read_calm world simp: entries assms split: option.split prod.split bool.split)
qed

end
