(* ===== verification/Lost_Scan_Correct.thy ===== *)
theory Lost_Scan_Correct
  imports Lost_Scan Lost_State_Correct
begin

text \<open>
  The step of the lost partition search: every operation it calls returns and keeps the search
  well-formed, every turn of its loop makes progress, so the step returns; and what is reported lies
  inside the device.
\<close>

subsection \<open>Reporting a hit\<close>

lemma claim_tables_calm: "scan_wf scan \<Longrightarrow> calm scan (claim_tables x scan)"
proof -
  assume wf: "scan_wf scan"
  define f :: "lost_table \<Rightarrow> lost_table" where "f t = (if t_start t = x then t\<lparr> t_claimed := True \<rparr> else t)" for t
  have f: "t_start (f t) = t_start t" "t_size (f t) = t_size t" "table_key (f t) = table_key t" for t
    by (simp_all add: f_def table_key_def)
  have "map table_key (map f (sc_tables scan)) = map table_key (sc_tables scan)" by (simp add: f)
  moreover have "claim_tables x scan = scan\<lparr> sc_tables := map f (sc_tables scan) \<rparr>"
    unfolding claim_tables_def f_def by (rule refl)
  ultimately show ?thesis
    using wf by (simp add: calm_def grows_def fixed_part_def queued_def scan_wf_def wf_defs aligned_def f del: map_map)
qed

lemma verify_part_calm:
  assumes "env_returns env" "scan_wf scan"
  shows "returns_calm (verify_part env part scan) scan"
proof -
  obtain e fs label uuid w where "le_probe env (drop_bit 9 (p_offset part)) (drop_bit 9 (p_window part)) (p_remap part)
      (sc_world scan) = Some ((e, fs, label, uuid), w)"
    using assms(1) unfolding env_returns_def by (metis option.exhaust prod.collapse)
  then show ?thesis using assms(2) by (simp add: verify_part_def Let_def)
qed

lemma record_found_calm:
  assumes wf: "scan_wf scan" and new: "\<not> already_found hit scan" and ok: "h_size hit \<noteq> 0" "h_start hit < sc_size scan"
    and run: "record_found env hit scan = (e, scan')"
  shows "calm scan scan'"
proof -
  obtain r scan1 where g: "lost_grow env (length (sc_found scan)) (sc_found_alloc scan) 16 scan = (r, scan1)" by force
  have "length (sc_found scan) \<le> sc_found_alloc scan" using wf by (simp add: scan_wf_def found_wf_def)
  from g this zero_less_numeral show ?thesis
  proof (cases rule: lost_grow_cases)
    case (fail w)
    then show ?thesis using run g wf by (auto simp: record_found_def)
  next
    case (room a w)
    let ?scan2 = "scan1\<lparr> sc_found_alloc := a,
      sc_found := sc_found scan1 @ [\<lparr> f_start = h_start hit, f_size = h_size hit, f_type = h_type hit \<rparr>] \<rparr>"
    have "scan' = lost_conflict (h_start hit) ?scan2" using run g room(1) by (simp add: record_found_def)
    moreover have "(h_start hit, h_size hit, h_type hit) \<notin> found_key ` set (sc_found scan)"
      using new by (auto simp: already_found_def list_ex_iff found_key_def)
    then have "scan_wf ?scan2"
      using wf room(2) ok unfolding room(3) by (auto simp: scan_wf_def wf_defs aligned_def found_key_def set_world_def)
    ultimately have "calm scan1 scan'" by (simp add: calm_def grows_def fixed_part_def)
    then show ?thesis using calm_trans [OF calm_world [OF wf]] by (simp add: room(3))
  qed
qed

lemma step_over_calm:
  assumes "scan_wf scan" and "step_over env end scan = (e, scan')"
  shows "calm scan scan'"
proof -
  obtain e1 scan1 where one: "lost_add_end_hints env end scan = (e1, scan1)" by force
  note c = lost_add_end_hints_calm [OF assms(1) one]
  show ?thesis
    using assms(2) one c lost_jump_calm [OF calm_wf [OF c]] calm_trans [OF c]
    by (auto simp: step_over_def split: bool.splits)
qed

lemma call_hook_calm:
  assumes "env_returns env" "scan_wf scan"
  shows "returns_calm (do { (stop, w) \<leftarrow> le_hook env part (sc_world scan);
           Some (Inr stop :: unit + bool, set_world w scan) }) scan"
proof -
  obtain stop w where "le_hook env part (sc_world scan) = Some (stop, w)"
    using assms(1) unfolding env_returns_def by (metis option.exhaust prod.collapse)
  then show ?thesis using assms(2) by simp
qed

lemma report_new_calm:
  assumes env: "env_returns env" and wf: "scan_wf scan"
    and new: "\<not> already_found hit scan" and ok: "h_size hit \<noteq> 0" "h_start hit < sc_size scan"
  shows "returns_calm (report_new env hit flags scan) scan"
proof -
  let ?scan0 = "claim_tables (h_start hit) scan" and ?part0 = "part_of_hit flags scan hit"
  have c0: "calm scan ?scan0" by (rule claim_tables_calm [OF wf])
  obtain part scan1 where v: "verify_part env ?part0 ?scan0 = Some (part, scan1)" and c1: "calm ?scan0 scan1"
    using verify_part_calm [OF env calm_wf [OF c0]] unfolding returns_calm_def by blast
  have found1: "sc_found scan1 = sc_found scan"
    using v by (auto simp: verify_part_def Let_def claim_tables_def split: if_splits bind_splits)
  have sz: "sc_size scan1 = sc_size scan" using calm_sizes(1) [OF c0] calm_sizes(1) [OF c1] by simp
  obtain e2 scan2 where r: "record_found env hit scan1 = (e2, scan2)" by force
  have c2: "calm scan1 scan2"
    by (rule record_found_calm [OF calm_wf [OF c1] _ ok(1) _ r]) (use new ok found1 sz in \<open>simp_all add: already_found_def\<close>)
  obtain e3 scan3 where s: "(if hit_truncated (sc_size scan2) hit then (False, scan2) else step_over env (hit_end hit) scan2) = (e3, scan3)"
    by force
  have c3: "calm scan2 scan3"
    using s step_over_calm [OF calm_wf [OF c2]] calm_refl [OF calm_wf [OF c2]] by (auto split: if_splits)
  note c = calm_trans [OF c0 calm_trans [OF c1 c2]]
  note hook = call_hook_calm [OF env calm_wf [OF c3], of part]
  have "report_new env hit flags scan = (if e2 then Some (Inl (), scan2) else if e3 then Some (Inl (), scan3)
      else do { (stop, w) \<leftarrow> le_hook env part (sc_world scan3); Some (Inr stop, set_world w scan3) })"
    by (cases e2; cases e3) (simp_all only: report_new_def v r s Option.bind_lunit prod.case bool.case if_True if_False)
  then show ?thesis
    using returns_calm_trans [OF calm_trans [OF c c3] hook] c calm_trans [OF c c3] by simp
qed

lemma lost_report_calm:
  assumes env: "env_returns env" and wf: "scan_wf scan"
  shows "returns_calm (lost_report env hit flags scan) scan"
proof (cases "h_size hit = 0 \<or> h_start hit \<ge> sc_size scan \<or> lost_range_at scan (h_start hit) True \<noteq> None")
  case True
  then show ?thesis using wf by (auto simp: lost_report_def)
next
  case False
  then have ok: "h_size hit \<noteq> 0" "h_start hit < sc_size scan" by auto
  obtain hit1 scan1 where p: "settle_primary env hit scan = Some (hit1, scan1)" and c: "calm scan scan1"
      and same: "h_size hit1 = h_size hit" "h_start hit1 = h_start hit"
  proof (cases "h_backup hit")
    case True
    obtain b scan1 where "lost_primary_ok env hit scan = Some (b, scan1)" "calm scan scan1"
      using lost_primary_ok_calm [OF env wf, of hit] unfolding returns_calm_def by blast
    with True show ?thesis by (intro that [of "if b then hit\<lparr> h_backup := False, h_remap := [] \<rparr> else hit" scan1])
        (auto simp: settle_primary_def)
  next
    case no_backup: False
    then show ?thesis using wf by (intro that [of hit scan]) (auto simp: settle_primary_def)
  qed
  show ?thesis
  proof (cases "already_found hit1 scan1")
    case True
    obtain e scan2 where j: "lost_jump env (hit_end hit1) scan1 = (e, scan2)" by force
    have "calm scan scan2" using calm_trans [OF c lost_jump_calm [OF calm_wf [OF c] j]] .
    then show ?thesis using False p True j c by (auto simp: lost_report_def split: bool.split)
  next
    case new: False
    have "returns_calm (report_new env hit1 flags scan1) scan1"
      by (rule report_new_calm [OF env calm_wf [OF c] new]) (use ok same calm_sizes(1) [OF c] in simp_all)
    with returns_calm_trans [OF c] show ?thesis using False p new by (auto simp: lost_report_def)
  qed
qed

lemma report_hits_calm:
  "env_returns env \<Longrightarrow> scan_wf scan \<Longrightarrow> returns_calm (report_hits env hs stopped scan) scan"
proof (induction hs arbitrary: stopped scan)
  case (Cons h hs)
  show ?case
    unfolding report_hits.simps
    by (auto intro!: returns_calm_bind lost_report_calm Cons simp: Cons.prems split: sum.split)
qed simp

end
