(* ===== verification/Lost_Next.thy ===== *)
theory Lost_Next
  imports Lost_State_Correct
begin

text \<open>
  The candidates of the quick search: \<open>lost_next\<close> gives the least candidate at or after an offset, as
  long as the rounding up to a mebibyte does not wrap around.
\<close>

subsection \<open>Rounding up\<close>

definition round_up :: "nat \<Rightarrow> nat \<Rightarrow> nat" where
  "round_up n a = (n + a - 1) div a * a"

lemma round_up_ge: "0 < a \<Longrightarrow> n \<le> round_up n a"
proof -
  assume a: "0 < a"
  have "(n + a - 1) mod a < a" using a by simp
  moreover have "(n + a - 1) div a * a + (n + a - 1) mod a = n + a - 1" by simp
  ultimately show ?thesis unfolding round_up_def using a by linarith
qed

lemma round_up_le: "0 < a \<Longrightarrow> round_up n a \<le> n + a - 1"
  by (simp add: round_up_def)

lemma round_up_dvd: "a dvd round_up n a"
  by (simp add: round_up_def)

lemma round_up_least:
  assumes "a dvd x" "n \<le> x" "0 < a"
  shows "round_up n a \<le> x"
proof -
  obtain k where k: "x = a * k" using assms(1) by auto
  have "(n + a - 1) div a \<le> (a * k + a - 1) div a" using assms k by (intro div_le_mono) simp
  also have "\<dots> = k" proof -
    have "a * k + a - 1 = (a - 1) + a * k" using assms(3) by simp
    then show ?thesis using assms(3) by (simp only: div_mult_self2 [OF less_imp_neq [symmetric]]) simp
  qed
  finally show ?thesis using assms(3) by (simp add: round_up_def k mult.commute)
qed

lemma unat_round_up:
  assumes "unat v + unat a \<le> 2 ^ 64" "0 < unat a"
  shows "unat (lost_round_up v a) = round_up (unat v) (unat a)"
proof -
  have s: "unat (v + a - 1) = unat v + unat a - 1"
  proof -
    have a: "unat (a - 1) = unat a - 1" using assms(2) by (subst unat_minus_exact) (simp_all add: word_le_nat_alt Suc_leI)
    have "unat (v + (a - 1)) = unat v + (unat a - 1)" using assms by (subst unat_plus_exact) (simp_all add: a)
    then show ?thesis using assms(2) by (simp add: add_diff_eq)
  qed
  have "(unat v + unat a - 1) div unat a * unat a \<le> unat v + unat a - 1" by simp
  also have "\<dots> < 2 ^ 64" using assms by linarith
  finally show ?thesis
    unfolding lost_round_up_def round_up_def
    by (subst unat_mult_exact) (simp_all add: unat_div_distrib s)
qed

subsection \<open>The heads of a cylinder\<close>

definition head_at :: "nat \<Rightarrow> nat \<Rightarrow> nat" where
  "head_at n h =
     (let c = n div 8225280 * 8225280 + h * 32256 in if c < n then c + 8225280 else c)"

text \<open>The least number from \<open>n\<close> on that is congruent to \<open>d\<close>.\<close>

lemma least_congruent:
  fixes n C d :: nat
  assumes d: "d < C" and e: "e = (let c = n div C * C + d in if c < n then c + C else c)"
  shows "n \<le> e" and "e mod C = d" and "e \<le> n + C + d"
    and "x mod C = d \<Longrightarrow> n \<le> x \<Longrightarrow> e \<le> x"
proof -
  define q where "q = n div C"
  define r where "r = n mod C"
  have n: "n = q * C + r" and r: "r < C" using d by (simp_all add: q_def r_def)
  have eq: "e = (if d < r then q * C + d + C else q * C + d)"
    unfolding e Let_def q_def [symmetric] using n by simp
  show "n \<le> e" "e \<le> n + C + d" using n r d by (auto simp: eq)
  show "e mod C = d" using d by (auto simp: eq add.assoc)
  show "e \<le> x" if x: "x mod C = d" "n \<le> x"
  proof -
    define p where "p = x div C"
    have px: "x = p * C + d" using x(1) by (metis p_def div_mult_mod_eq)
    have mono: "i * C + C \<le> j * C" if "i < j" for i j
    proof -
      have "Suc i * C \<le> j * C" using that by (intro mult_le_mono1) simp
      then show ?thesis by (simp add: add.commute)
    qed
    show ?thesis
    proof (cases "d < r")
      case True
      have "q < p"
      proof (rule ccontr)
        assume "\<not> q < p"
        then have "p * C \<le> q * C" by (intro mult_le_mono1) simp
        then show False using px n x(2) True by linarith
      qed
      from mono [OF this] True show ?thesis by (simp add: eq px)
    next
      case False
      have "q \<le> p"
      proof (rule ccontr)
        assume "\<not> q \<le> p"
        then have "p * C + C \<le> q * C" by (intro mono) simp
        then show False using px n x(2) d by linarith
      qed
      then have "q * C \<le> p * C" by (rule mult_le_mono1)
      then show ?thesis using False by (simp add: eq px)
    qed
  qed
qed

lemma head_at_props:
  assumes "h \<le> 2"
  shows "n \<le> head_at n h" and "head_at n h mod 8225280 = h * 32256" and "head_at n h \<le> n + 8289792"
    and "x mod 8225280 = h * 32256 \<Longrightarrow> n \<le> x \<Longrightarrow> head_at n h \<le> x"
proof -
  have d: "h * 32256 < 8225280" using assms by simp
  note l = least_congruent [OF d head_at_def [of n h]]
  show "n \<le> head_at n h" "head_at n h mod 8225280 = h * 32256" by (rule l)+
  show "head_at n h \<le> n + 8289792" using l(3) assms by linarith
  show "x mod 8225280 = h * 32256 \<Longrightarrow> n \<le> x \<Longrightarrow> head_at n h \<le> x" by (rule l(4))
qed

lemma unat_next_head:
  assumes f: "unat from \<le> 2 ^ 63" and h: "unat head \<le> 2"
  shows "unat (next_head from head best) = min (unat best) (head_at (unat from) (unat head))"
proof -
  have d: "unat (from div LOST_CYLINDER * LOST_CYLINDER) = unat from div 8225280 * 8225280"
  proof -
    have "unat from div 8225280 * 8225280 \<le> unat from" by simp
    also have "\<dots> < 2 ^ 64" using f by simp
    finally show ?thesis by (subst unat_mult_exact) (simp_all add: unat_div_distrib)
  qed
  have ht: "unat (head * LOST_TRACK) = unat head * 32256" using h by (subst unat_mult_exact) simp_all
  have le: "unat from div 8225280 * 8225280 \<le> unat from" by simp
  let ?c = "from div LOST_CYLINDER * LOST_CYLINDER + head * LOST_TRACK"
  have c: "unat ?c = unat from div 8225280 * 8225280 + unat head * 32256"
    using le f h by (subst unat_plus_exact) (simp_all add: d ht)
  have c2: "unat (?c + LOST_CYLINDER) = unat from div 8225280 * 8225280 + unat head * 32256 + 8225280"
    using le f h by (subst unat_plus_exact) (simp_all add: c)
  show ?thesis
    unfolding next_head_def head_at_def Let_def word_less_nat_alt c
    using c2 by (simp add: c min_def)
qed

subsection \<open>The least candidate\<close>

definition candidate :: "'w rover_lost_scan \<Rightarrow> nat \<Rightarrow> bool" where
  "candidate scan x \<longleftrightarrow> 2 ^ 20 dvd x
     \<or> (sc_sector_size scan = 512 \<and> x mod 8225280 \<in> {0, 32256, 64512})
     \<or> x \<in> unat ` set (sc_hints scan)"

definition next_grid :: "'w rover_lost_scan \<Rightarrow> nat \<Rightarrow> nat" where
  "next_grid scan n =
     (if sc_sector_size scan = 512
      then min (min (min (round_up n (2 ^ 20)) (head_at n 0)) (head_at n 1)) (head_at n 2) else round_up n (2 ^ 20))"

lemma next_grid_ge: "n \<le> next_grid scan n"
  using round_up_ge [of "2 ^ 20" n] head_at_props(1) [of 0 n] head_at_props(1) [of 1 n] head_at_props(1) [of 2 n]
  by (simp add: next_grid_def)

lemma next_grid_candidate: "candidate scan (next_grid scan n)"
  using round_up_dvd [of "2 ^ 20" n] head_at_props(2) [of 0 n] head_at_props(2) [of 1 n] head_at_props(2) [of 2 n]
  by (simp add: next_grid_def candidate_def min_def)

lemma next_grid_least:
  assumes "candidate scan x" "x \<notin> unat ` set (sc_hints scan)" "n \<le> x"
  shows "next_grid scan n \<le> x"
  using assms round_up_least [of "2 ^ 20" x n] head_at_props(4) [of 0 x n] head_at_props(4) [of 1 x n]
    head_at_props(4) [of 2 x n]
  by (auto simp: next_grid_def candidate_def min_le_iff_disj)

lemma unat_grid:
  assumes f: "unat from \<le> 2 ^ 63"
  shows "unat (if sc_sector_size scan = 512 then fold (next_head from) [0, 1, 2] (lost_round_up from LOST_MIB)
      else lost_round_up from LOST_MIB) = next_grid scan (unat from)"
proof -
  have "unat (lost_round_up from LOST_MIB) = round_up (unat from) (2 ^ 20)"
    using f by (subst unat_round_up) simp_all
  then show ?thesis by (simp add: next_grid_def unat_next_head [OF f])
qed

text \<open>The value of \<open>lost_next\<close> over the natural numbers: the first hint if it comes before the grid.\<close>

lemma lost_next_cases:
  assumes wf: "scan_wf scan" and f: "unat from \<le> 2 ^ 63"
  obtains best :: u64 where "lost_next scan from = (if best > sc_size scan then sc_size scan + 1 else best)"
    and "unat from \<le> unat best" and "candidate scan (unat best)"
    and "\<And>x. candidate scan x \<Longrightarrow> unat from \<le> x \<Longrightarrow> unat best \<le> x"
proof -
  let ?hs = "sc_hints scan"
  define lo where "lo = lost_lower ?hs from 0 (length ?hs)"
  define grid where "grid = (if sc_sector_size scan = 512 then fold (next_head from) [0, 1, 2] (lost_round_up from LOST_MIB)
      else lost_round_up from LOST_MIB)"
  define best where "best = (if lo < length ?hs \<and> ?hs ! lo < grid then ?hs ! lo else grid)"
  have s: "sorted_wrt (<) ?hs" using wf by (simp add: scan_wf_def hints_wf_def)
  note l = lost_lower_hints [OF s, where x = "from", folded lo_def]
  have g: "unat grid = next_grid scan (unat from)" unfolding grid_def by (rule unat_grid [OF f])
  have "lost_next scan from = (if best > sc_size scan then sc_size scan + 1 else best)"
    by (simp only: lost_next_def Let_def grid_def [symmetric] lo_def [symmetric] best_def [symmetric])
  moreover have "unat from \<le> unat best"
    using next_grid_ge [of "unat from" scan] l(3) [of lo] g by (simp add: best_def word_le_nat_alt)
  moreover have "candidate scan (unat best)"
    using next_grid_candidate [of scan "unat from"] g by (auto simp: best_def candidate_def)
  moreover have "unat best \<le> x" if c: "candidate scan x" "unat from \<le> x" for x
  proof (cases "x \<in> unat ` set ?hs")
    case True
    then obtain i where i: "i < length ?hs" "x = unat (?hs ! i)" by (auto simp: in_set_conv_nth)
    then have "lo \<le> i" using l(2) [of i] c(2) by (meson linorder_not_less word_less_nat_alt)
    then have "?hs ! lo \<le> ?hs ! i" "lo < length ?hs"
      using s i(1) by (auto simp: sorted_wrt_iff_nth_less le_less)
    then show ?thesis using i(2) by (auto simp: best_def word_le_nat_alt word_less_nat_alt)
  next
    case False
    then show ?thesis using next_grid_least [OF c(1) False c(2)] g
      by (auto simp: best_def word_less_nat_alt)
  qed
  ultimately show ?thesis by (rule that)
qed

lemma lost_next_ge:
  assumes "scan_wf scan" "unat from \<le> 2 ^ 63" "lost_next scan from \<le> sc_size scan" "sc_size scan < sc_size scan + 1"
  shows "from \<le> lost_next scan from"
proof -
  obtain best where b: "lost_next scan from = (if best > sc_size scan then sc_size scan + 1 else best)"
    "unat from \<le> unat best"
    by (rule lost_next_cases [OF assms(1,2)]) blast
  have "best \<le> sc_size scan" using b(1) assms(3,4) by (cases "sc_size scan < best") auto
  then have "\<not> sc_size scan < best" by (simp add: not_less)
  with b show ?thesis by (simp add: word_le_nat_alt)
qed

end
