(* ===== verification/Lost_Step_Correct.thy ===== *)
theory Lost_Step_Correct
  imports Lost_Scan_Correct Lost_Next
begin

text \<open>
  The step of the lost partition search returns. The loop of the step makes progress in a
  lexicographic order: the phase, the results and table entries that can still be found (there are
  finitely many), the ranges queued for another pass, the offset, and the entries left to report.
\<close>

subsection \<open>The quick search\<close>

lemma lost_quick_candidate_calm:
  assumes env: "env_returns env" and wf: "scan_wf scan"
  shows "returns_calm (lost_quick_candidate env s end_only scan) scan"
  unfolding lost_quick_candidate_def Let_def
  by (auto intro!: returns_calm_bind lost_read_calm lost_examine_calm simp: env wf split: option.split sum.split)

subsection \<open>The deep search\<close>

definition returns_grows :: "('a \<times> 'w rover_lost_scan) option \<Rightarrow> 'w rover_lost_scan \<Rightarrow> bool" where
  "returns_grows m scan \<longleftrightarrow> (\<exists>r scan'. m = Some (r, scan') \<and> grows scan scan')"

lemma grows_wf: "grows a b \<Longrightarrow> scan_wf b"
  by (simp add: grows_def)

lemma returns_grows_Some [simp]: "returns_grows (Some p) scan = grows scan (snd p)"
  by (cases p) (simp add: returns_grows_def)

lemma returns_calm_grows: "returns_calm m scan \<Longrightarrow> returns_grows m scan"
  unfolding returns_calm_def returns_grows_def by (blast intro: calm_grows)

lemma returns_grows_trans: "grows a b \<Longrightarrow> returns_grows m b \<Longrightarrow> returns_grows m a"
  unfolding returns_grows_def using grows_trans by blast

lemma returns_grows_bind:
  assumes "returns_grows m scan" and "\<And>r scan1. scan_wf scan1 \<Longrightarrow> returns_grows (k (r, scan1)) scan1"
  shows "returns_grows (Option.bind m k) scan"
proof -
  obtain r scan1 where m: "m = Some (r, scan1)" "grows scan scan1" using assms(1) by (auto simp: returns_grows_def)
  from returns_grows_trans [OF m(2) assms(2) [OF grows_wf [OF m(2)]]] show ?thesis by (simp add: m(1))
qed

lemma grows_pending [simp]:
  "scan_wf scan \<Longrightarrow> grows scan (scan\<lparr> sc_pending := p \<rparr>)"
  "scan_wf scan \<Longrightarrow> grows scan (scan\<lparr> sc_pending_alloc := a, sc_pending := p \<rparr>)"
  by (simp_all add: grows_def fixed_part_def queued_def scan_wf_def wf_defs aligned_def)

lemma lost_pend_grows:
  assumes wf: "scan_wf scan" and run: "lost_pend env hit scan = (e, scan')"
  shows "grows scan scan'"
proof (cases "h_size hit = 0 \<or> pend_replace hit (sc_pending scan) \<noteq> None")
  case True
  then show ?thesis using run wf by (auto simp: lost_pend_def split: if_splits)
next
  case False
  obtain r scan1 where g: "lost_grow env (length (sc_pending scan)) (sc_pending_alloc scan) 64 scan = (r, scan1)" by force
  have "scan = set_world (sc_world scan) scan" by (simp add: set_world_def)
  then obtain w where w: "scan1 = set_world w scan" using g by (auto simp: lost_grow_def split: if_splits prod.splits)
  have gw: "grows scan (set_world w scan)" by (rule calm_grows [OF calm_world [OF wf]])
  show ?thesis
    using run False g gw grows_trans [OF gw grows_pending(2) [OF grows_wf [OF gw]]]
    by (auto simp: lost_pend_def w split: option.splits)
qed

lemma pend_all_grows:
  "scan_wf scan \<Longrightarrow> pend_all env hs scan = (e, scan') \<Longrightarrow> grows scan scan'"
proof (induction hs arbitrary: scan)
  case (Cons h hs)
  obtain e1 scan1 where one: "lost_pend env h scan = (e1, scan1)" by force
  note c = lost_pend_grows [OF Cons.prems(1) one]
  show ?case
    using Cons.prems(2) one c Cons.IH [OF grows_wf [OF c]] grows_trans [OF c] by (cases e1) auto
qed simp

lemma read_pieces_calm:
  "env_returns env \<Longrightarrow> scan_wf scan \<Longrightarrow> returns_calm (read_pieces env off n scan) scan"
proof (induction n arbitrary: off scan rule: less_induct)
  case (less n)
  show ?case
  proof (cases "n = 0")
    case False
    then have "n - min n 65536 < n" by simp
    note IH = less.IH [OF this less.prems(1)]
    show ?thesis
      using False less.prems
      by (subst read_pieces.simps) (auto simp: Let_def intro!: returns_calm_bind lost_read_calm IH)
  qed (use less.prems in \<open>simp add: read_pieces.simps\<close>)
qed

lemma lost_read_fill_calm:
  "env_returns env \<Longrightarrow> scan_wf scan \<Longrightarrow> returns_calm (lost_read_fill env off n scan) scan"
  unfolding lost_read_fill_def
  by (auto intro!: returns_calm_bind lost_read_calm read_pieces_calm split: option.split)

lemma deep_sectors_grows:
  "env_returns env \<Longrightarrow> scan_wf scan \<Longrightarrow> returns_grows (deep_sectors env in_range deep base n s cand scan) scan"
proof (induction n arbitrary: s cand scan)
  case (Suc n)
  have examine: "returns_grows (if \<not> in_range \<and> s < sc_size scan
      then lost_examine env s b l p scan else Some (Inr None, scan)) scan" for b l p
    using returns_calm_grows [OF lost_examine_calm [OF Suc.prems]] Suc.prems(2) by simp
  have pend: "returns_grows (case pend_all env hs scan1 of (True, scan2) \<Rightarrow> Some (True, scan2)
      | (False, scan2) \<Rightarrow> deep_sectors env in_range deep base n s1 c1 scan2) scan1"
    if wf: "scan_wf scan1" for hs s1 c1 scan1
  proof -
    obtain e scan2 where p: "pend_all env hs scan1 = (e, scan2)" by force
    have g: "grows scan1 scan2" by (rule pend_all_grows [OF wf p])
    show ?thesis
      using g returns_grows_trans [OF g Suc.IH [OF Suc.prems(1) grows_wf [OF g]]] by (simp add: p split: bool.split)
  qed
  show ?case
    unfolding deep_sectors.simps Let_def
    by (rule returns_grows_bind [OF examine]) (auto simp: pend split: sum.split)
qed simp

text \<open>The end of a chunk lies behind its start.\<close>

lemma deep_end_gt:
  assumes "sc_pos scan \<le> sc_size scan" "unat (sc_size scan) < 2 ^ 63"
  shows "sc_pos scan < deep_end scan in_range" and "unat (deep_end scan in_range) \<le> 2 ^ 63"
proof -
  let ?b = "sc_pos scan"
  have b: "unat ?b < 2 ^ 63" using assms by (simp add: word_le_nat_alt)
  define end0 where "end0 = (if in_range then ?b + 1 else ?b + of_nat LOST_DEEP_CHUNK)"
  have "unat (?b + 1) = unat ?b + 1" "unat (?b + of_nat LOST_DEEP_CHUNK) = unat ?b + LOST_DEEP_CHUNK"
    using b by (simp_all add: unat_plus_exact)
  then have "?b < end0" by (auto simp: end0_def word_less_nat_alt)
  moreover have "?b < fold (\<lambda>r end. if r_readable r \<and> r_start r > ?b \<and> r_start r < end then r_start r else end) rs x"
    if "?b < x" for rs x
    using that by (induction rs arbitrary: x) simp_all
  ultimately have e1: "?b < fold (\<lambda>r end. if r_readable r \<and> r_start r > ?b \<and> r_start r < end then r_start r else end)
      (sc_ranges scan) end0" by blast
  have s: "unat (sc_size scan + 1) = unat (sc_size scan) + 1" using assms(2) by (simp add: unat_plus_exact)
  then have "?b < sc_size scan + 1" using assms(1) by (simp add: word_less_nat_alt word_le_nat_alt)
  with e1 show "?b < deep_end scan in_range"
    by (simp add: deep_end_def Let_def end0_def split del: if_split) (simp split: if_split)
  show "unat (deep_end scan in_range) \<le> 2 ^ 63"
    using s assms(2) by (auto simp: deep_end_def Let_def word_less_nat_alt)
qed

text \<open>The chunk moves on, and nothing but the position is not covered by \<open>grows\<close>.\<close>

lemma pos_simps [simp]:
  "scan_wf (b\<lparr> sc_pos := x \<rparr>) = scan_wf b" "fixed_part (b\<lparr> sc_pos := x \<rparr>) = fixed_part b"
  "queued (b\<lparr> sc_pos := x \<rparr>) = queued b"
  by (simp_all add: fixed_part_def queued_def scan_wf_def wf_defs aligned_def)

lemma range_at_props:
  "lost_range_at scan x rd = Some q \<Longrightarrow> q \<in> set (sc_ranges scan) \<and> r_start q \<le> x \<and> x < r_end q"
  unfolding lost_range_at_def find_Some_iff by auto

definition moved_on :: "'w rover_lost_scan \<Rightarrow> 'w rover_lost_scan \<Rightarrow> bool" where
  "moved_on scan scan' \<longleftrightarrow> (\<exists>scan1 x. grows scan scan1 \<and> scan' = scan1\<lparr> sc_pos := x \<rparr> \<and> sc_pos scan < x \<and> unat x \<le> 2 ^ 63)"

lemma deep_body_moves:
  assumes env: "env_returns env" and wf: "scan_wf scan"
    and pos: "sc_pos scan \<le> sc_size scan" "unat (sc_size scan) < 2 ^ 63"
    and r: "\<And>q. r = Some q \<Longrightarrow> sc_pos scan < r_end q \<and> unat (r_end q) \<le> 2 ^ 63"
  shows "\<exists>failed scan'. deep_body env r scan = Some (failed, scan') \<and> (if failed then scan_wf scan' else moved_on scan scan')"
proof -
  let ?base = "sc_pos scan" and ?stop = "deep_end scan (r \<noteq> None)"
  let ?first = "if ?base > of_nat LOST_TAIL then ?base - of_nat LOST_TAIL else 0"
  let ?last = "if ?stop + of_nat LOST_WINDOW < sc_size scan then ?stop + of_nat LOST_WINDOW else sc_size scan"
  have "returns_calm (if ?last > ?first then lost_read_fill env ?first (unat (?last - ?first)) scan else Some ([], scan)) scan"
    using lost_read_fill_calm [OF env wf] wf by (simp del: of_nat_numeral)
  then obtain data scan1 where d: "(if ?last > ?first then lost_read_fill env ?first (unat (?last - ?first)) scan else Some ([], scan))
      = Some (data, scan1)" and c: "calm scan scan1"
    unfolding returns_calm_def by blast
  have ss: "sc_sector_size scan1 = sc_sector_size scan" by (rule calm_sizes [OF c])
  define before where "before = unat (?first + of_nat LOST_TAIL - ?base)"
  obtain failed scan2 where s: "deep_sectors env (r \<noteq> None)
        (replicate before 0 @ data @ replicate (LOST_TAIL + LOST_DEEP_CHUNK + LOST_WINDOW - before - length data) 0) ?base
        ((unat (?stop - ?base) + unat (sc_sector_size scan) - 1) div unat (sc_sector_size scan)) ?base (lost_next scan1 ?base) scan1
      = Some (failed, scan2)" and g: "grows scan1 scan2"
    using deep_sectors_grows [OF env calm_wf [OF c]] unfolding returns_grows_def by blast
  have g2: "grows scan scan2" by (rule grows_trans [OF calm_grows [OF c] g])
  have "deep_body env r scan = (if failed then Some (True, scan2)
      else Some (False, scan2\<lparr> sc_pos := (case r of Some q \<Rightarrow> r_end q | None \<Rightarrow> ?stop) \<rparr>))"
    by (simp only: deep_body_def Let_def d Option.bind_lunit prod.case before_def [symmetric] s)
  moreover define x where "x = (case r of Some q \<Rightarrow> r_end q | None \<Rightarrow> ?stop)"
  moreover have "?base < x \<and> unat x \<le> 2 ^ 63"
    using r deep_end_gt [OF pos, of "r \<noteq> None"] unfolding x_def by (cases r) auto
  ultimately show ?thesis using g2 grows_wf [OF g2] by (cases failed) (auto simp: moved_on_def)
qed

subsection \<open>Progress\<close>

text \<open>What the bounds on the device ask for: no offset is near the end of the 64-bit range.\<close>

definition bounded :: "'w rover_lost_scan \<Rightarrow> bool" where
  "bounded scan \<longleftrightarrow> unat (sc_size scan) < 2 ^ 63 \<and> unat (sc_pos scan) \<le> 2 ^ 63
     \<and> (\<forall>r \<in> set (sc_ranges scan). unat (r_end r) \<le> 2 ^ 63)"

definition phase :: "'w rover_lost_scan \<Rightarrow> nat" where
  "phase scan = (if sc_finishing scan then 0 else 1)"

definition to_find :: "'w rover_lost_scan \<Rightarrow> nat" where
  "to_find scan = (CARD(u64 \<times> u64 \<times> lost_type) - length (sc_found scan)) + (CARD(u64 \<times> u64) - length (sc_tables scan))"

definition to_scan :: "'w rover_lost_scan \<Rightarrow> nat" where
  "to_scan scan = 2 ^ 64 - unat (sc_pos scan)"

definition to_report :: "'w rover_lost_scan \<Rightarrow> nat" where
  "to_report scan = (length (sc_pending scan) - sc_next_pending scan) + (length (sc_tables scan) - sc_next_table scan)"

definition progress :: "('w rover_lost_scan \<times> 'w rover_lost_scan) set" where
  "progress = measures [phase, to_find, queued, to_scan, to_report]"

lemma wf_progress: "wf progress"
  by (simp add: progress_def)

lemma progress_iff:
  "(b, a) \<in> progress \<longleftrightarrow> phase b < phase a \<or> phase b = phase a \<and> (to_find b < to_find a \<or> to_find b = to_find a \<and>
     (queued b < queued a \<or> queued b = queued a \<and> (to_scan b < to_scan a \<or> to_scan b = to_scan a \<and> to_report b < to_report a)))"
  by (auto simp: progress_def)

text \<open>The results are distinct, so their number is bounded.\<close>

lemma found_bound:
  assumes "scan_wf scan"
  shows "length (sc_found scan) \<le> CARD(u64 \<times> u64 \<times> lost_type)" "length (sc_tables scan) \<le> CARD(u64 \<times> u64)"
proof -
  have d: "distinct (map found_key (sc_found scan))" "distinct (map table_key (sc_tables scan))"
    using assms by (simp_all add: scan_wf_def wf_defs)
  have "card (set (map found_key (sc_found scan))) \<le> CARD(u64 \<times> u64 \<times> lost_type)" by (rule card_mono) simp_all
  then show "length (sc_found scan) \<le> CARD(u64 \<times> u64 \<times> lost_type)" by (simp add: distinct_card [OF d(1)] del: set_map)
  have "card (set (map table_key (sc_tables scan))) \<le> CARD(u64 \<times> u64)" by (rule card_mono) simp_all
  then show "length (sc_tables scan) \<le> CARD(u64 \<times> u64)" by (simp add: distinct_card [OF d(2)] del: set_map)
qed

lemma grows_to_find:
  assumes g: "grows a b"
  shows "to_find b < to_find a \<or>
    to_find b = to_find a \<and> queued b = queued a \<and> length (sc_tables b) = length (sc_tables a)"
proof -
  have le: "length (sc_found a) \<le> length (sc_found b)" "length (sc_tables a) \<le> length (sc_tables b)"
    and q: "length (sc_found b) = length (sc_found a) \<and> length (sc_tables b) = length (sc_tables a) \<longrightarrow> queued b = queued a"
    using g by (simp_all add: grows_def)
  note bound = found_bound [OF grows_wf [OF g]]
  show ?thesis
  proof (cases "length (sc_found b) = length (sc_found a) \<and> length (sc_tables b) = length (sc_tables a)")
    case True
    then show ?thesis using q by (simp add: to_find_def)
  next
    case False
    then have "length (sc_found a) < length (sc_found b) \<or> length (sc_tables a) < length (sc_tables b)" using le by linarith
    then have "to_find b < to_find a" using le bound unfolding to_find_def by linarith
    then show ?thesis ..
  qed
qed

lemma grows_phase: "grows a b \<Longrightarrow> phase b = phase a"
  by (simp add: grows_def fixed_part_def phase_def)

lemma to_scan_less: "sc_pos a < sc_pos b \<Longrightarrow> to_scan b < to_scan a"
  using unsigned_less [of "sc_pos b", where ?'a = nat] by (simp add: to_scan_def word_less_nat_alt)

lemma to_scan_le: "sc_pos a \<le> sc_pos b \<Longrightarrow> to_scan b \<le> to_scan a"
  by (simp add: to_scan_def word_le_nat_alt)

text \<open>Progress of a turn that moves the position and then works calmly, or works and then moves it.\<close>

lemma progress_move:
  assumes "grows (a\<lparr> sc_pos := x \<rparr>) b" and "sc_pos a < x"
  shows "(b, a) \<in> progress"
proof -
  have "sc_pos a < sc_pos b" using assms by (auto simp: grows_def)
  moreover have "phase (a\<lparr> sc_pos := x \<rparr>) = phase a" "to_find (a\<lparr> sc_pos := x \<rparr>) = to_find a" "queued (a\<lparr> sc_pos := x \<rparr>) = queued a"
    by (simp_all add: phase_def to_find_def)
  ultimately show ?thesis
    using grows_to_find [OF assms(1)] grows_phase [OF assms(1)] to_scan_less [of a b] by (auto simp: progress_iff)
qed

lemma progress_moved_on: "moved_on a b \<Longrightarrow> (b, a) \<in> progress"
proof -
  assume "moved_on a b"
  then obtain c x where g: "grows a c" and b: "b = c\<lparr> sc_pos := x \<rparr>" and x: "sc_pos a < x" by (auto simp: moved_on_def)
  have "phase b = phase c" "to_find b = to_find c" "queued b = queued c" by (simp_all add: b phase_def to_find_def)
  then show ?thesis using grows_to_find [OF g] grows_phase [OF g] to_scan_less [of a b] x by (auto simp: progress_iff b)
qed

lemma bounded_grows: "grows a b \<Longrightarrow> bounded a \<Longrightarrow> bounded b"
proof -
  assume g: "grows a b" and a: "bounded a"
  have "sc_pos b \<le> max (sc_pos a) (sc_size a)" and f: "sc_size b = sc_size a" "sc_ranges b = sc_ranges a"
    using g by (simp_all add: grows_def fixed_part_def)
  then have "unat (sc_pos b) \<le> max (unat (sc_pos a)) (unat (sc_size a))" by (auto simp: word_le_nat_alt max_def split: if_splits)
  then show ?thesis using a by (auto simp: bounded_def f)
qed

lemma bounded_moved_on: "moved_on a b \<Longrightarrow> bounded a \<Longrightarrow> bounded b \<and> scan_wf b"
proof -
  assume "moved_on a b" and a: "bounded a"
  then obtain c x where g: "grows a c" and b: "b = c\<lparr> sc_pos := x \<rparr>" "unat x \<le> 2 ^ 63" by (auto simp: moved_on_def)
  show "bounded b \<and> scan_wf b"
    using bounded_grows [OF g a] grows_wf [OF g] b by (simp add: bounded_def)
qed

subsection \<open>The turns\<close>

text \<open>A turn that goes on has made progress; one that ends leaves the search well-formed.\<close>

text \<open>What no turn changes.\<close>

definition steady :: "'w rover_lost_scan \<Rightarrow> u64 \<times> u32 \<times> u32 \<times> lost_range list" where
  "steady scan = (sc_size scan, sc_sector_size scan, sc_flags scan, sc_ranges scan)"

lemma grows_steady: "grows a b \<Longrightarrow> steady b = steady a" "moved_on a b \<Longrightarrow> steady b = steady a"
  by (auto simp: grows_def fixed_part_def moved_on_def steady_def)

lemma steady_sizes:
  "steady b = steady a \<Longrightarrow> sc_size b = sc_size a" "steady b = steady a \<Longrightarrow> sc_sector_size b = sc_sector_size a"
  "steady b = steady a \<Longrightarrow> sc_ranges b = sc_ranges a" "steady b = steady a \<Longrightarrow> sc_flags b = sc_flags a"
  by (simp_all add: steady_def)

lemma steady_simps [simp]:
  "steady (b\<lparr> sc_pos := x \<rparr>) = steady b" "steady (b\<lparr> sc_finishing := f \<rparr>) = steady b" "steady (b\<lparr> sc_done := f \<rparr>) = steady b"
  "steady (b\<lparr> sc_next_pending := k \<rparr>) = steady b" "steady (b\<lparr> sc_next_table := k \<rparr>) = steady b" "steady (set_world w b) = steady b"
  by (simp_all add: steady_def set_world_def)

definition turn_ok :: "'w rover_lost_scan \<Rightarrow> turn \<times> 'w rover_lost_scan \<Rightarrow> bool" where
  "turn_ok a p \<longleftrightarrow> scan_wf (snd p) \<and> bounded (snd p) \<and> steady (snd p) = steady a
     \<and> (fst p = Turn_Continue \<longrightarrow> (snd p, a) \<in> progress)"

lemma quick_turn_ok:
  assumes env: "env_returns env" and wf: "scan_wf scan" and b: "bounded scan"
    and s: "sc_pos scan \<le> s" "s \<le> sc_size scan"
  shows "\<exists>p. quick_turn env s scan = Some p \<and> turn_ok scan p"
proof -
  define scan0 where "scan0 = scan\<lparr> sc_pos := s + 1 \<rparr>"
  have "unat (sc_size scan) < 2 ^ 63" using b by (simp add: bounded_def)
  then have s1: "unat (s + 1) = unat s + 1" "unat (s + 1) \<le> 2 ^ 63"
    using s(2) by (simp_all add: unat_plus_exact word_le_nat_alt)
  have lt: "sc_pos scan < s + 1" using s(1) s1 by (simp add: word_less_nat_alt word_le_nat_alt)
  have wf0: "scan_wf scan0" "bounded scan0" using wf b s1(2) by (simp_all add: scan0_def bounded_def)
  have go: "turn_ok scan (t, c)" if "grows scan0 c" for t c
    using bounded_grows [OF that wf0(2)] grows_wf [OF that] progress_move [OF that [unfolded scan0_def] lt] grows_steady(1) [OF that]
    by (simp add: turn_ok_def scan0_def)
  show ?thesis
  proof (cases "s mod ucast (sc_sector_size scan) = 0")
    case True
    show ?thesis
    proof (cases "\<exists>q. lost_range_at scan0 s True = Some q \<and> r_start q \<noteq> s")
      case inside: True
      then obtain q where q: "lost_range_at scan0 s True = Some q" "r_start q \<noteq> s" by blast
      have qr: "q \<in> set (sc_ranges scan)" "s < r_end q" using range_at_props [OF q(1)] by (simp_all add: scan0_def)
      then have "unat (r_end q) \<le> 2 ^ 63" using b by (simp add: bounded_def)
      moreover have "sc_pos scan < r_end q" using s(1) qr(2) by simp
      ultimately have "turn_ok scan (Turn_Continue, scan\<lparr> sc_pos := r_end q \<rparr>)"
        using wf b progress_move [where a = scan and x = "r_end q" and b = "scan\<lparr> sc_pos := r_end q \<rparr>"] by (simp add: turn_ok_def bounded_def)
      then show ?thesis using True q by (simp add: quick_turn_def scan0_def)
    next
      case outside: False
      obtain c scan1 where c: "lost_quick_candidate env s (lost_range_at scan0 s True \<noteq> None) scan0 = Some (c, scan1)" "calm scan0 scan1"
        using lost_quick_candidate_calm [OF env wf0(1)] unfolding returns_calm_def by blast
      have "quick_turn env s scan = (case c of Inl _ \<Rightarrow> Some (Turn_Fail, scan1) | Inr hits \<Rightarrow> report_hits env hits False scan1)"
        using True outside c(1)
        by (cases "lost_range_at scan0 s True") (auto simp: quick_turn_def Let_def scan0_def [symmetric])
      moreover have "\<exists>t scan2. report_hits env hits False scan1 = Some (t, scan2) \<and> grows scan0 scan2" for hits
        using report_hits_calm [OF env calm_wf [OF c(2)]] calm_grows [OF calm_trans [OF c(2)]]
        unfolding returns_calm_def by blast
      ultimately show ?thesis using go calm_grows [OF c(2)] by (cases c) force+
    qed
  next
    case False
    then show ?thesis using go [of scan0] wf0 by (simp add: quick_turn_def scan0_def)
  qed
qed

lemma deep_turn_ok:
  assumes env: "env_returns env" and wf: "scan_wf scan" and b: "bounded scan" and nf: "\<not> sc_finishing scan"
  shows "\<exists>p. deep_turn env scan = Some p \<and>
    (turn_ok scan p \<or> fst p = Turn_Fail \<and> scan_wf (snd p))"
proof (cases "sc_pos scan > sc_size scan")
  case True
  let ?scan = "(lost_settle scan)\<lparr> sc_pos := sc_size scan, sc_finishing := True \<rparr>"
  have "scan_wf ?scan" "bounded ?scan"
    using wf b by (simp_all add: lost_settle_def scan_wf_def wf_defs aligned_def bounded_def)
  moreover have "(?scan, scan) \<in> progress" using nf by (simp add: progress_iff phase_def)
  ultimately have "turn_ok scan (Turn_Continue, ?scan)" by (simp add: turn_ok_def lost_settle_def steady_def)
  then show ?thesis using True by (simp add: deep_turn_def)
next
  case False
  then have pos: "sc_pos scan \<le> sc_size scan" "unat (sc_size scan) < 2 ^ 63" using b by (auto simp: bounded_def)
  have moved: "turn_ok scan (Turn_Continue, c)" if "moved_on scan c" for c
    using bounded_moved_on [OF that b] progress_moved_on [OF that] grows_steady(2) [OF that] by (simp add: turn_ok_def)
  have body: "\<exists>p. map_option (\<lambda>(failed, scan1). (if failed then Turn_Fail else Turn_Continue, scan1)) (deep_body env r scan) = Some p
      \<and> (turn_ok scan p \<or> fst p = Turn_Fail \<and> scan_wf (snd p))"
    if "\<And>q. r = Some q \<Longrightarrow> sc_pos scan < r_end q \<and> unat (r_end q) \<le> 2 ^ 63" for r
  proof -
    have "\<exists>failed c. deep_body env r scan = Some (failed, c) \<and> (if failed then scan_wf c else moved_on scan c)"
      by (rule deep_body_moves [OF env wf pos]) (rule that)
    then obtain failed c where d: "deep_body env r scan = Some (failed, c)" "if failed then scan_wf c else moved_on scan c"
      by blast
    then show ?thesis using moved by (cases failed) auto
  qed
  have turn: "deep_turn env scan = map_option (\<lambda>(failed, scan1). (if failed then Turn_Fail else Turn_Continue, scan1)) (lost_deep_chunk env scan)"
    using False by (cases "lost_deep_chunk env scan") (auto simp: deep_turn_def)
  show ?thesis
  proof (cases "lost_range_at scan (sc_pos scan) True")
    case None
    then show ?thesis using body [of None] by (simp add: turn lost_deep_chunk_def)
  next
    case (Some q)
    then have q: "sc_pos scan < r_end q" "unat (r_end q) \<le> 2 ^ 63" using range_at_props [OF Some] b by (auto simp: bounded_def)
    show ?thesis
    proof (cases "r_start q \<noteq> sc_pos scan")
      case True
      have "moved_on scan (scan\<lparr> sc_pos := r_end q \<rparr>)" unfolding moved_on_def using q wf by (intro exI conjI) (rule grows_refl, auto)
      then show ?thesis using Some True moved by (auto simp: turn lost_deep_chunk_def)
    next
      case False
      then show ?thesis using Some body [of "Some q"] q by (simp add: turn lost_deep_chunk_def)
    qed
  qed
qed

end
