(* ===== verification/Lost_Live.thy ===== *)
theory Lost_Live
  imports Lost_Step_Correct
begin

text \<open>
  Liveness of the lost partition search: the turns of the last phase and the choice of the next pass
  make progress as those of the search do, so a step returns; a step without a budget whose caller
  never stops it ends the search.
\<close>

subsection \<open>The last phase\<close>

lemma calm_progress:
  assumes c: "calm b c" and p: "(b, a) \<in> progress"
  shows "(c, a) \<in> progress"
proof -
  have g: "grows b c" and pend: "sc_pending c = sc_pending b" using c by (simp_all add: calm_def)
  have f: "sc_next_pending c = sc_next_pending b" "sc_next_table c = sc_next_table b" "sc_pos b \<le> sc_pos c"
    using g by (simp_all add: grows_def fixed_part_def)
  from grows_to_find [OF g] show ?thesis
  proof (elim disjE conjE)
    assume "to_find c < to_find b"
    then show ?thesis using p grows_phase [OF g] by (auto simp: progress_iff)
  next
    assume same: "to_find c = to_find b" "queued c = queued b" "length (sc_tables c) = length (sc_tables b)"
    then have "to_report c = to_report b" by (simp add: to_report_def pend f)
    then show ?thesis using p same grows_phase [OF g] to_scan_le [OF f(3)] by (auto simp: progress_iff)
  qed
qed

text \<open>How a turn may end: with progress, or with a failure that leaves the search well-formed.\<close>

definition turn_good :: "'w rover_lost_scan \<Rightarrow> (turn \<times> 'w rover_lost_scan) option \<Rightarrow> bool" where
  "turn_good a m \<longleftrightarrow> (\<exists>p. m = Some p \<and> (turn_ok a p \<or> fst p = Turn_Fail \<and> scan_wf (snd p)))"

lemma report_turn_good:
  assumes env: "env_returns env" and wf: "scan_wf scan" "bounded scan"
    and p: "(scan, a) \<in> progress" and sz: "steady scan = steady a"
  shows "turn_good a (do { (ret, scan1) \<leftarrow> lost_report env hit 0 scan; Some (turn_of_report ret, scan1) })"
proof -
  obtain r scan1 where r: "lost_report env hit 0 scan = Some (r, scan1)" and c: "calm scan scan1"
    using lost_report_calm [OF env wf(1)] unfolding returns_calm_def by blast
  then show ?thesis
    using calm_progress [OF c p] calm_wf [OF c] bounded_grows [OF calm_grows [OF c] wf(2)] sz grows_steady(1) [OF calm_grows [OF c]]
    by (auto simp: turn_good_def turn_ok_def)
qed

lemma next_simps [simp]:
  "scan_wf (b\<lparr> sc_next_pending := x \<rparr>) = scan_wf b" "bounded (b\<lparr> sc_next_pending := x \<rparr>) = bounded b"
  "bounded (b\<lparr> sc_next_table := y \<rparr>) = bounded b"
  "scan_wf (b\<lparr> sc_done := d \<rparr>) = scan_wf b" "bounded (b\<lparr> sc_done := d \<rparr>) = bounded b"
  "scan_wf (b\<lparr> sc_finishing := d \<rparr>) = scan_wf b" "bounded (b\<lparr> sc_finishing := d \<rparr>) = bounded b"
  by (simp_all add: scan_wf_def wf_defs aligned_def bounded_def)

lemma report_less:
  "(b\<lparr> sc_next_pending := x \<rparr>, b) \<in> progress" if "sc_next_pending b < length (sc_pending b)" "x = Suc (sc_next_pending b)"
  using that by (simp add: progress_iff phase_def to_find_def queued_def to_scan_def to_report_def)

lemma table_less:
  assumes "sc_next_table b < length (sc_tables b)" and "scan_wf b"
  shows "(b\<lparr> sc_next_table := Suc (sc_next_table b) \<rparr>, b) \<in> progress" "scan_wf (b\<lparr> sc_next_table := Suc (sc_next_table b) \<rparr>)"
  using assms by (auto simp: progress_iff phase_def to_find_def queued_def to_scan_def to_report_def scan_wf_def wf_defs aligned_def)

lemma finish_turn_good:
  assumes env: "env_returns env" and wf: "scan_wf scan" "bounded scan"
  shows "turn_good scan (finish_turn env scan)"
proof (cases "sc_next_pending scan < length (sc_pending scan)")
  case True
  then show ?thesis
    using report_turn_good [OF env _ _ report_less [OF True refl]] wf by (simp add: finish_turn_def)
next
  case False
  have le: "sc_next_table scan \<le> length (sc_tables scan)" using wf by (simp add: scan_wf_def wf_defs)
  show ?thesis
  proof (cases "sc_next_table scan = length (sc_tables scan)")
    case True
    then show ?thesis using False wf by (simp add: finish_turn_def turn_good_def turn_ok_def)
  next
    case more: False
    then have lt: "sc_next_table scan < length (sc_tables scan)" using le by simp
    note t = table_less [OF lt wf(1)]
    show ?thesis
      using False more t wf report_turn_good [OF env t(2) _ t(1)]
      by (cases "t_claimed (sc_tables scan ! sc_next_table scan)")
        (simp_all add: finish_turn_def Let_def turn_good_def turn_ok_def)
  qed
qed

subsection \<open>The next pass\<close>

lemma take_queued_Some:
  assumes "take_queued sks = Some (q, rest)"
  shows "q \<in> set sks"
    and "length (filter (\<lambda>sk. sk_state sk = LOST_SKIP_QUEUED) rest) < length (filter (\<lambda>sk. sk_state sk = LOST_SKIP_QUEUED) sks)"
    and "map (\<lambda>sk. (sk_from sk, sk_to sk)) rest = map (\<lambda>sk. (sk_from sk, sk_to sk)) sks"
  using assms by (induction sks arbitrary: rest) (auto split: if_splits)

lemma next_pass_progress:
  assumes wf: "scan_wf scan" "bounded scan" and n: "lost_next_pass scan = (True, scan1)"
  shows "scan_wf scan1 \<and> bounded scan1 \<and> steady scan1 = steady scan \<and> (scan1, scan) \<in> progress"
proof -
  obtain q rest where t: "take_queued (sc_skips scan) = Some (q, rest)"
    and s1: "scan1 = scan\<lparr> sc_skips := rest, sc_pos := sk_from q, sc_limit := sk_to q, sc_rescanning := True \<rparr>"
    using n by (auto simp: lost_next_pass_def split: option.splits)
  note tq = take_queued_Some [OF t]
  have k: "\<forall>sk \<in> set (sc_skips scan). sk_from sk < sk_to sk \<and> sk_to sk \<le> sc_size scan"
    using wf by (simp add: scan_wf_def wf_defs)
  then have "\<forall>(f, t) \<in> set (map (\<lambda>sk. (sk_from sk, sk_to sk)) rest). f < t \<and> t \<le> sc_size scan"
    unfolding tq(3) by auto
  then have "\<forall>sk \<in> set rest. sk_from sk < sk_to sk \<and> sk_to sk \<le> sc_size scan" by auto
  moreover have "sk_from q < sc_size scan" using k tq(1) by fastforce
  then have "unat (sk_from q) \<le> 2 ^ 63" using wf(2) by (simp add: bounded_def word_less_nat_alt)
  ultimately show ?thesis
    using wf tq(2) map_eq_imp_length_eq [OF tq(3)] by (auto simp: s1 scan_wf_def wf_defs aligned_def bounded_def steady_def progress_iff phase_def to_find_def queued_def)
qed

subsection \<open>One turn of the step\<close>

lemma turn_good_map:
  "turn_good a m \<Longrightarrow> \<exists>t scan1. map_option (\<lambda>(t, scan1). (t, stop, scan1)) m = Some (t, stop, scan1) \<and>
     (turn_ok a (t, scan1) \<or> t = Turn_Fail \<and> scan_wf scan1)"
  by (auto simp: turn_good_def)

lemma step_turn_ok:
  assumes env: "env_returns env" and wf: "scan_wf scan" and b: "bounded scan"
  shows "\<exists>t stop1 scan1. step_turn env budget stop scan = Some (t, stop1, scan1) \<and>
    (turn_ok scan (t, scan1) \<or> t = Turn_Fail \<and> scan_wf scan1)"
proof (cases "sc_finishing scan \<or> sc_pos scan \<ge> stop")
  case True
  then show ?thesis
    using turn_good_map [OF finish_turn_good [OF env wf b], of stop] wf b
    by (cases "sc_finishing scan") (auto simp: step_turn_def turn_ok_def)
next
  case False
  let ?s = "lost_next scan (sc_pos scan)"
  consider (deep) "sc_flags scan AND ROVER_LOST_SCAN_DEEP \<noteq> 0"
    | (pass) "sc_flags scan AND ROVER_LOST_SCAN_DEEP = 0" "?s > sc_size scan \<or> ?s \<ge> sc_limit scan"
    | (quick) "sc_flags scan AND ROVER_LOST_SCAN_DEEP = 0" "\<not> (?s > sc_size scan \<or> ?s \<ge> sc_limit scan)" by blast
  then show ?thesis
  proof cases
    case deep
    have "turn_good scan (deep_turn env scan)"
      unfolding turn_good_def using deep_turn_ok [OF env wf b] False by simp
    then show ?thesis using turn_good_map [of scan "deep_turn env scan" stop] False deep by (auto simp: step_turn_def)
  next
    case pass
    obtain more scan1 where n: "lost_next_pass scan = (more, scan1)" by force
    show ?thesis
    proof (cases more)
      case True
      then show ?thesis using next_pass_progress [OF wf b] n True False pass
        by (simp add: step_turn_def Let_def turn_ok_def)
    next
      case none: False
      then have "scan1 = scan" using n by (auto simp: lost_next_pass_def split: option.splits)
      moreover have "(scan\<lparr> sc_finishing := True \<rparr>, scan) \<in> progress" using False by (simp add: progress_iff phase_def)
      ultimately show ?thesis using False pass n none wf b by (simp add: step_turn_def Let_def turn_ok_def)
    qed
  next
    case quick
    have "unat (sc_pos scan) \<le> 2 ^ 63" "unat (sc_size scan) < 2 ^ 63" using b by (simp_all add: bounded_def)
    moreover from this(2) have "sc_size scan < sc_size scan + 1" by (simp add: word_less_nat_alt unat_plus_exact)
    ultimately have "sc_pos scan \<le> ?s" using lost_next_ge [OF wf] quick(2) by (simp add: not_less)
    then show ?thesis using quick_turn_ok [OF env wf b, of ?s] quick False
      by (auto simp: step_turn_def Let_def not_less)
  qed
qed

subsection \<open>The step\<close>

text \<open>The caller never asks to stop.\<close>

definition never_stops :: "'w lost_env \<Rightarrow> bool" where
  "never_stops env \<longleftrightarrow> (\<forall>part w stop w'. le_hook env part w = Some (stop, w') \<longrightarrow> \<not> stop)"

lemma report_never_stops:
  assumes "never_stops env" and "lost_report env hit flags scan = Some (Inr stop, scan')"
  shows "\<not> stop"
  using assms unfolding lost_report_def report_new_def
  by (auto simp: never_stops_def split: if_splits bind_splits bool.splits prod.splits)

lemma report_hits_never_stop:
  "never_stops env \<Longrightarrow> report_hits env hs False scan = Some (t, scan') \<Longrightarrow> t \<noteq> Turn_Break"
proof (induction hs arbitrary: scan)
  case (Cons h hs)
  then obtain r scan1 where r: "lost_report env h 0 scan = Some (r, scan1)" by (auto split: bind_splits)
  then show ?case
    using Cons report_never_stops [OF Cons.prems(1), of h 0 scan] by (cases r) auto
qed auto

lemma finish_break_done:
  assumes q: "never_stops env" and "finish_turn env scan = Some (Turn_Break, scan')"
  shows "sc_done scan'"
  using assms(2) by (auto simp: finish_turn_def Let_def turn_of_report_def dest: report_never_stops [OF q] split: if_splits bind_splits sum.splits)

lemma step_break_done:
  assumes q: "never_stops env" and b: "bounded scan"
    and t: "step_turn env 0 (NOT 0) scan = Some (t, stop1, scan')"
  shows "stop1 = NOT 0 \<and> (t = Turn_Break \<longrightarrow> sc_done scan')"
proof -
  have p: "unat (sc_pos scan) \<le> 2 ^ 63" using b by (simp add: bounded_def)
  have m: "unat (NOT 0 :: u64) = 2 ^ 64 - 1" by (simp add: unsigned_minus_1_eq_mask mask_eq_exp_minus_1)
  have "\<not> sc_pos scan \<ge> NOT 0" unfolding word_le_nat_alt m using p by simp
  moreover have "r \<noteq> Some (Turn_Break, c)" if "deep_turn env scan = r" for r c
    using that by (auto simp: deep_turn_def split: if_splits bind_splits)
  moreover have "quick_turn env s scan \<noteq> Some (Turn_Break, c)" for s c
    using report_hits_never_stop [OF q] by (auto simp: quick_turn_def Let_def split: if_splits bind_splits sum.splits option.splits)
  ultimately show ?thesis
    using t finish_break_done [OF q] by (auto simp: step_turn_def Let_def split: if_splits prod.splits bool.splits)
qed

lemma step_loop_returns:
  assumes env: "env_returns env"
  shows "scan_wf scan \<Longrightarrow> bounded scan \<Longrightarrow> \<exists>failed scan'. step_loop env budget stop scan = Some (failed, scan') \<and>
    scan_wf scan' \<and> (never_stops env \<and> budget = 0 \<and> stop = NOT 0 \<longrightarrow> failed \<or> sc_done scan')"
proof (induction scan arbitrary: stop rule: wf_induct_rule [OF wf_progress])
  case (1 scan)
  show ?case
  proof (cases "sc_done scan")
    case True
    then show ?thesis using "1.prems" by (intro exI [of _ False]) (simp add: step_loop.simps)
  next
    case False
    obtain t stop1 scan1 where s: "step_turn env budget stop scan = Some (t, stop1, scan1)"
      and ok: "turn_ok scan (t, scan1) \<or> t = Turn_Fail \<and> scan_wf scan1"
      using step_turn_ok [OF env "1.prems"] by blast
    have last: "stop1 = NOT 0 \<and> (t = Turn_Break \<longrightarrow> sc_done scan1)"
      if "never_stops env \<and> budget = 0 \<and> stop = NOT 0"
      using step_break_done [of env scan t stop1 scan1] "1.prems"(2) s that by blast
    show ?thesis
    proof (cases t)
      case Turn_Continue
      then have "scan_wf scan1" "bounded scan1" "(scan1, scan) \<in> progress" using ok by (auto simp: turn_ok_def)
      from "1.IH" [OF this(3,1,2), of stop1] last show ?thesis
        using False s Turn_Continue by (subst step_loop.simps) auto
    qed (use ok last False s in \<open>subst step_loop.simps, auto simp: turn_ok_def\<close>)+
  qed
qed

lemma step_result:
  assumes env: "env_returns env" and wf: "scan_wf scan" and b: "bounded scan"
  shows "\<exists>r scan'. rover_lost_scan_step env budget scan = Some (r, scan') \<and> scan_wf scan' \<and> r \<in> {-1, 0, 1}
    \<and> (r \<noteq> 1 \<longleftrightarrow> sc_done scan') \<and> (never_stops env \<and> budget = 0 \<longrightarrow> r \<noteq> 1)"
proof -
  let ?scan = "set_world (le_set_errno env GRUB_ERR_NONE (sc_world scan)) scan"
  let ?stop = "if budget = 0 \<or> sc_pos scan + budget < sc_pos scan then NOT 0 else sc_pos scan + budget"
  have "scan_wf ?scan" "bounded ?scan" using wf b by (simp_all add: bounded_def)
  from step_loop_returns [OF env this, of budget ?stop]
  obtain failed scan1 where l: "step_loop env budget ?stop ?scan = Some (failed, scan1)" "scan_wf scan1"
    "never_stops env \<and> budget = 0 \<longrightarrow> failed \<or> sc_done scan1" by auto
  have w: "scan_wf (scan1\<lparr> sc_done := d, sc_pos := x, sc_world := w \<rparr>)" for d x w
    using l(2) by (simp add: scan_wf_def wf_defs aligned_def)
  show ?thesis
    unfolding rover_lost_scan_step_def Let_def l(1)
    using l(2,3) w by (cases failed) (auto simp: l(1) set_world_def)
qed

subsection \<open>A search that does not end\<close>

text \<open>
  The position of a step that passed the end of the device is put back to the end. When a readable
  partition lies there and reaches at least a budget beyond it, the next step only steps over that
  partition again and returns 1 once more, with nothing changed.
\<close>

lemma step_over_partition:
  assumes d: "\<not> sc_done scan" "\<not> sc_finishing scan" "sc_flags scan AND ROVER_LOST_SCAN_DEEP \<noteq> 0"
    and p: "sc_pos scan = sc_size scan"
    and q: "lost_range_at scan (sc_size scan) True = Some q" "r_start q \<noteq> sc_size scan"
    and b: "budget \<noteq> 0" "sc_size scan < sc_size scan + budget" "sc_size scan + budget \<le> r_end q"
  shows "rover_lost_scan_step env budget scan = Some (1, set_world (le_set_errno env GRUB_ERR_NONE (sc_world scan)) scan)"
proof -
  let ?s0 = "set_world (le_set_errno env GRUB_ERR_NONE (sc_world scan)) scan"
  let ?s1 = "?s0\<lparr> sc_pos := r_end q \<rparr>" and ?stop = "sc_size scan + budget"
  have r: "lost_range_at ?s0 (sc_size scan) True = Some q" using q(1) by (simp add: lost_range_at_def set_world_def)
  have "step_turn env budget ?stop ?s0 = Some (Turn_Continue, ?stop, ?s1)"
    using d p q(2) b r
    by (simp add: step_turn_def deep_turn_def lost_deep_chunk_def not_le [symmetric])
  moreover have "step_turn env budget ?stop ?s1 = Some (Turn_Break, ?stop, ?s1)"
    using d b(3) by (simp add: step_turn_def)
  ultimately have l: "step_loop env budget ?stop ?s0 = Some (False, ?s1)"
    using d by (subst step_loop.simps, simp, subst step_loop.simps, simp)
  have "sc_size scan < r_end q" using b by simp
  moreover have "\<not> sc_size scan + budget < sc_size scan" using b(2) by simp
  moreover have "?s1\<lparr> sc_pos := sc_size scan \<rparr> = ?s0" by (simp add: set_world_def p [symmetric])
  ultimately show ?thesis using b(1) l d(1) by (simp add: rover_lost_scan_step_def Let_def p)
qed

subsection \<open>The caller's loop\<close>

definition stuck :: "u64 \<Rightarrow> 'w rover_lost_scan \<Rightarrow> bool" where
  "stuck budget scan \<longleftrightarrow> \<not> sc_done scan \<and> \<not> sc_finishing scan \<and> sc_flags scan AND ROVER_LOST_SCAN_DEEP \<noteq> 0
     \<and> sc_pos scan = sc_size scan \<and> sc_size scan < sc_size scan + budget
     \<and> (\<exists>q. lost_range_at scan (sc_size scan) True = Some q \<and> r_start q \<noteq> sc_size scan \<and> sc_size scan + budget \<le> r_end q)"

lemma stuck_world [simp]: "stuck budget (set_world w scan) = stuck budget scan"
  by (simp add: stuck_def lost_range_at_def set_world_def)

lemma stuck_step:
  "stuck budget scan \<Longrightarrow> rover_lost_scan_step env budget scan
     = Some (1, set_world (le_set_errno env GRUB_ERR_NONE (sc_world scan)) scan)"
  unfolding stuck_def by (auto intro!: step_over_partition)

lemma search_loop_stuck:
  assumes "stuck budget scan"
  shows "search_loop env budget scan = None"
proof (rule ccontr)
  assume "search_loop env budget scan \<noteq> None"
  then obtain y where "search_loop env budget scan = Some y" by blast
  then have "\<not> stuck budget scan"
  proof (induction env budget scan y rule: search_loop.raw_induct [rotated, consumes 1])
    case (1 loop env budget scan y)
    show ?case
    proof
      assume st: "stuck budget scan"
      then have "loop env budget (set_world (le_set_errno env GRUB_ERR_NONE (sc_world scan)) scan) = Some y"
        using "1.hyps" by (simp add: stuck_step)
      from "1.IH" [OF this] st show False by simp
    qed
  qed
  with assms show False by simp
qed

text \<open>
  The deep search gets there: from the start of a readable partition that reaches a budget beyond the
  end of the device, the next step fails or leaves the search stuck.
\<close>

lemma truncated_partition_stuck:
  assumes env: "env_returns env" and wf: "scan_wf scan" "bounded scan"
    and d: "\<not> sc_done scan" "\<not> sc_finishing scan" "sc_flags scan AND ROVER_LOST_SCAN_DEEP \<noteq> 0"
    and q: "lost_range_at scan (sc_pos scan) True = Some q" "r_start q = sc_pos scan" "sc_pos scan < sc_size scan"
      "lost_range_at scan (sc_size scan) True = Some q"
    and b: "budget \<noteq> 0" "unat (sc_size scan) + unat budget \<le> unat (r_end q)"
  shows "\<exists>scan1. (rover_lost_scan_step env budget scan = Some (1, scan1) \<and> stuck budget scan1) \<or>
    rover_lost_scan_step env budget scan = Some (-1, scan1)"
proof -
  let ?s0 = "set_world (le_set_errno env GRUB_ERR_NONE (sc_world scan)) scan" and ?stop = "sc_pos scan + budget"
  have lt: "unat (sc_pos scan) < unat (sc_size scan)" using q(3) by (simp add: word_less_nat_alt)
  have e: "unat (r_end q) \<le> 2 ^ 63" using range_at_props [OF q(1)] wf(2) by (simp add: bounded_def)
  have sb: "unat (sc_size scan + budget) = unat (sc_size scan) + unat budget" "unat ?stop = unat (sc_pos scan) + unat budget"
    using e b lt by (simp_all add: unat_plus_exact)
  have bn: "0 < unat budget" using b(1) by (simp add: unat_gt_0)
  have stop: "\<not> ?stop \<le> sc_pos scan" "\<not> ?stop < sc_pos scan" "?stop \<le> r_end q" "sc_size scan < r_end q"
      "sc_size scan < sc_size scan + budget" "sc_size scan + budget \<le> r_end q"
    unfolding word_le_nat_alt word_less_nat_alt sb using b(2) bn lt by linarith+
  have w: "scan_wf ?s0" "bounded ?s0" using wf by (simp_all add: bounded_def)
  have r: "lost_range_at ?s0 x True = lost_range_at scan x True" for x by (simp add: lost_range_at_def set_world_def)
  have end_q: "sc_pos scan < r_end q \<and> unat (r_end q) \<le> 2 ^ 63" using range_at_props [OF q(1)] e by simp
  have "\<exists>failed c. deep_body env (Some q) ?s0 = Some (failed, c) \<and> (if failed then scan_wf c else moved_on ?s0 c)"
    by (rule deep_body_moves [OF env w(1)]) (use wf(2) q(3) end_q in \<open>auto simp: bounded_def\<close>)
  then obtain failed c where c: "deep_body env (Some q) ?s0 = Some (failed, c)" "if failed then scan_wf c else moved_on ?s0 c" by blast
  have turn: "step_turn env budget ?stop ?s0 = Some (if failed then Turn_Fail else Turn_Continue, ?stop, c)"
    using d q(1,2) less_not_sym [OF q(3)] stop c(1) r by (simp add: step_turn_def deep_turn_def lost_deep_chunk_def)
  show ?thesis
  proof (cases failed)
    case True
    then have "step_loop env budget ?stop ?s0 = Some (True, c)" using turn d by (subst step_loop.simps) simp
    then show ?thesis using b(1) stop(2) by (auto simp: rover_lost_scan_step_def Let_def)
  next
    case False
    then have m: "moved_on ?s0 c" using c(2) by simp
    have pos: "sc_pos c = r_end q" using c(1) False by (auto simp: deep_body_def Let_def split: bind_splits if_splits)
    have f: "sc_done c = sc_done scan" "sc_finishing c = sc_finishing scan" "sc_size c = sc_size scan"
        "sc_flags c = sc_flags scan" "sc_ranges c = sc_ranges scan"
    proof -
      obtain c1 x where "fixed_part c1 = fixed_part ?s0" "c = c1\<lparr> sc_pos := x \<rparr>" using m by (auto simp: moved_on_def grows_def)
      then show "sc_done c = sc_done scan" "sc_finishing c = sc_finishing scan" "sc_size c = sc_size scan"
          "sc_flags c = sc_flags scan" "sc_ranges c = sc_ranges scan"
        by (simp_all add: fixed_part_def set_world_def)
    qed
    have "step_turn env budget ?stop c = Some (Turn_Break, ?stop, c)" using d f pos stop(3) by (simp add: step_turn_def)
    then have l: "step_loop env budget ?stop ?s0 = Some (False, c)"
      using turn False d f by (subst step_loop.simps, simp, subst step_loop.simps, simp)
    have "rover_lost_scan_step env budget scan = Some (1, c\<lparr> sc_pos := sc_size scan \<rparr>)"
      using l b(1) d f pos stop(2,4) by (simp add: rover_lost_scan_step_def Let_def)
    moreover have "lost_range_at (c\<lparr> sc_pos := sc_size scan \<rparr>) (sc_size scan) True = Some q"
      using q(4) f(5) by (simp add: lost_range_at_def)
    then have "stuck budget (c\<lparr> sc_pos := sc_size scan \<rparr>)" using d f stop(5,6) q(2,3) by (simp add: stuck_def)
    ultimately show ?thesis by blast
  qed
qed

lemma truncated_search_loop:
  assumes "\<exists>scan1. (rover_lost_scan_step env budget scan = Some (1, scan1) \<and> stuck budget scan1) \<or>
    rover_lost_scan_step env budget scan = Some (-1, scan1)"
  shows "search_loop env budget scan = None \<or> (\<exists>scan1. search_loop env budget scan = Some (-1, scan1))"
proof -
  from assms consider scan1 where "rover_lost_scan_step env budget scan = Some (1, scan1)" "stuck budget scan1"
    | scan1 where "rover_lost_scan_step env budget scan = Some (-1, scan1)" by blast
  then show ?thesis
  proof cases
    case 1
    then show ?thesis using search_loop_stuck [OF 1(2), of env] by (subst (1 2) search_loop.simps) simp
  next
    case 2
    then show ?thesis by (subst (1 2) search_loop.simps) simp
  qed
qed

end
