(* ===== verification/Lost_Ends.thy ===== *)
theory Lost_Ends
  imports Lost_Live
begin

text \<open>
  When the caller's loop of the lost partition search ends: with steps of at least two bytes, a caller
  that does not stop it and no readable partition across the end of the device, it does. Between two
  steps the phase, the results that can still be found, the queued ranges and the bytes left to scan
  decrease in lexicographic order.
\<close>

subsection \<open>The measures that no reset of the position changes\<close>

definition core :: "'w rover_lost_scan \<Rightarrow> nat \<times> nat \<times> nat" where
  "core scan = (phase scan, to_find scan, queued scan)"

definition core_less :: "'w rover_lost_scan \<Rightarrow> 'w rover_lost_scan \<Rightarrow> bool" where
  "core_less b a \<longleftrightarrow> phase b < phase a \<or> phase b = phase a \<and>
     (to_find b < to_find a \<or> to_find b = to_find a \<and> queued b < queued a)"

lemma core_less_trans: "core_less c b \<Longrightarrow> core_less b a \<Longrightarrow> core_less c a"
  by (auto simp: core_less_def)

lemma core_less_eq: "core c = core b \<Longrightarrow> core_less b a \<Longrightarrow> core_less c a" "core_less c b \<Longrightarrow> core b = core a \<Longrightarrow> core_less c a"
  by (auto simp: core_less_def core_def)

lemma progress_core: "(b, a) \<in> progress \<Longrightarrow> core_less b a \<or> core b = core a"
  by (auto simp: progress_iff core_less_def core_def)

lemma core_pos [simp]: "core (b\<lparr> sc_pos := x \<rparr>) = core b" "core (set_world w b) = core b"
  by (simp_all add: core_def phase_def to_find_def queued_def)

subsection \<open>A turn\<close>

lemma step_break_end:
  assumes q: "never_stops env" and t: "step_turn env budget stop scan = Some (Turn_Break, stop1, scan1)" and d: "\<not> sc_done scan1"
  shows "scan1 = scan \<and> \<not> sc_finishing scan \<and> stop \<le> sc_pos scan"
proof -
  have "r \<noteq> Some (Turn_Break, c)" if "deep_turn env scan = r" for r c
    using that by (auto simp: deep_turn_def split: if_splits bind_splits)
  moreover have "quick_turn env s scan \<noteq> Some (Turn_Break, c)" for s c
    using report_hits_never_stop [OF q] by (auto simp: quick_turn_def Let_def split: if_splits bind_splits sum.splits option.splits)
  ultimately show ?thesis
    using t d finish_break_done [OF q] by (auto simp: step_turn_def Let_def split: if_splits prod.splits bool.splits)
qed

text \<open>The end of a pass, and the only case that moves the end of the step.\<close>

lemma pass_turn_core:
  assumes p: "\<not> sc_finishing scan" "\<not> stop \<le> sc_pos scan" "sc_flags scan AND ROVER_LOST_SCAN_DEEP = 0"
      "lost_next scan (sc_pos scan) > sc_size scan \<or> lost_next scan (sc_pos scan) \<ge> sc_limit scan"
    and t: "step_turn env budget stop scan = Some (t, stop1, scan1)"
  shows "core_less scan1 scan"
proof -
  obtain more scan2 where n: "lost_next_pass scan = (more, scan2)" by force
  show ?thesis
  proof (cases more)
    case True
    obtain q rest where k: "take_queued (sc_skips scan) = Some (q, rest)"
      and s2: "scan2 = scan\<lparr> sc_skips := rest, sc_pos := sk_from q, sc_limit := sk_to q, sc_rescanning := True \<rparr>"
      using n True by (auto simp: lost_next_pass_def split: option.splits)
    have "core_less scan2 scan"
      using take_queued_Some(2) [OF k] by (simp add: s2 core_less_def phase_def to_find_def queued_def)
    then show ?thesis using t p n True by (simp add: step_turn_def Let_def)
  next
    case False
    then have "scan1 = scan\<lparr> sc_finishing := True \<rparr>"
      using t p n by (auto simp: step_turn_def Let_def lost_next_pass_def split: option.splits)
    then show ?thesis using p(1) by (simp add: core_less_def phase_def)
  qed
qed

lemma step_turn_stop:
  assumes t: "step_turn env budget stop scan = Some (Turn_Continue, stop1, scan1)"
  shows "stop1 = stop \<or> core_less scan1 scan"
proof (cases "\<not> sc_finishing scan \<and> \<not> stop \<le> sc_pos scan \<and> sc_flags scan AND ROVER_LOST_SCAN_DEEP = 0
    \<and> (lost_next scan (sc_pos scan) > sc_size scan \<or> lost_next scan (sc_pos scan) \<ge> sc_limit scan)")
  case True
  then show ?thesis using pass_turn_core t by blast
next
  case False
  then show ?thesis using t by (auto simp: step_turn_def Let_def not_less split: if_splits)
qed

lemma step_loop_core:
  assumes env: "env_returns env" "never_stops env"
  shows "scan_wf scan \<Longrightarrow> bounded scan \<Longrightarrow> step_loop env budget stop scan = Some (False, scan1) \<Longrightarrow> \<not> sc_done scan1 \<Longrightarrow>
    scan_wf scan1 \<and> bounded scan1 \<and> steady scan1 = steady scan \<and> \<not> sc_finishing scan1 \<and>
    (core_less scan1 scan \<or> core scan1 = core scan \<and> stop \<le> sc_pos scan1)"
proof (induction scan arbitrary: stop rule: wf_induct_rule [OF wf_progress])
  case (1 scan)
  have nd: "\<not> sc_done scan" using "1.prems"(3,4) by (subst (asm) step_loop.simps) (auto split: if_splits)
  obtain t stop' scan' where s: "step_turn env budget stop scan = Some (t, stop', scan')"
    and ok: "turn_ok scan (t, scan') \<or> t = Turn_Fail \<and> scan_wf scan'"
    using step_turn_ok [OF env(1) "1.prems"(1,2)] by blast
  have run: "(case t of Turn_Fail \<Rightarrow> Some (True, scan') | Turn_Break \<Rightarrow> Some (False, scan')
      | Turn_Continue \<Rightarrow> step_loop env budget stop' scan') = Some (False, scan1)"
    using "1.prems"(3) nd s by (subst (asm) step_loop.simps) simp
  show ?case
  proof (cases t)
    case Turn_Break
    then have "scan' = scan1" using run by simp
    with step_break_end [OF env(2) s [unfolded Turn_Break]] "1.prems" show ?thesis by auto
  next
    case Turn_Continue
    then have c: "scan_wf scan'" "bounded scan'" "steady scan' = steady scan" "(scan', scan) \<in> progress"
      using ok by (auto simp: turn_ok_def)
    have "step_loop env budget stop' scan' = Some (False, scan1)" using run Turn_Continue by simp
    from "1.IH" [OF c(4,1,2) this "1.prems"(4)] show ?thesis
      using c(3) progress_core [OF c(4)] step_turn_stop [OF s [unfolded Turn_Continue]]
        core_less_trans core_less_eq by metis
  qed (use run in simp)
qed

subsection \<open>A step from the end of the device\<close>

definition uncovered :: "'w rover_lost_scan \<Rightarrow> bool" where
  "uncovered scan \<longleftrightarrow> (\<forall>r \<in> set (sc_ranges scan). r_readable r \<longrightarrow> \<not> (r_start r \<le> sc_size scan \<and> sc_size scan < r_end r))"

lemma uncovered_range: "uncovered scan \<Longrightarrow> lost_range_at scan (sc_size scan) True = None"
  by (auto simp: uncovered_def lost_range_at_def find_None_iff)

lemma uncovered_steady: "steady b = steady a \<Longrightarrow> uncovered b = uncovered a"
  by (simp add: uncovered_def steady_def)

text \<open>One turn from the end passes it by one byte, another one ends the phase or the pass.\<close>

lemma deep_end_le: "unat (sc_size scan) < 2 ^ 63 \<Longrightarrow> deep_end scan b \<le> sc_size scan + 1"
  by (auto simp: deep_end_def Let_def not_less)

lemma deep_turn_end:
  assumes "sc_pos scan = sc_size scan" "uncovered scan" "unat (sc_size scan) < 2 ^ 63"
    and "deep_turn env scan = Some (Turn_Continue, scan1)"
  shows "sc_pos scan1 = sc_size scan + 1"
proof -
  have "sc_size scan < deep_end scan False" using deep_end_gt(1) [of scan False] assms(1,3) by simp
  then have "unat (sc_size scan) + 1 \<le> unat (deep_end scan False)" by (simp add: word_less_nat_alt)
  moreover have "unat (deep_end scan False) \<le> unat (sc_size scan) + 1"
    using deep_end_le [OF assms(3), of False] assms(3) by (simp add: word_le_nat_alt unat_plus_exact)
  ultimately have "deep_end scan False = sc_size scan + 1" using assms(3) by (simp add: word_unat_eq_iff unat_plus_exact)
  then show ?thesis
    using assms uncovered_range [OF assms(2)]
    by (auto simp: deep_turn_def lost_deep_chunk_def deep_body_def Let_def split: if_splits bind_splits)
qed

lemma quick_turn_end:
  assumes env: "env_returns env" and wf: "scan_wf scan" "uncovered scan" and small: "unat (sc_size scan) < 2 ^ 63"
    and run: "quick_turn env (sc_size scan) scan = Some (Turn_Continue, scan1)"
  shows "sc_pos scan1 = sc_size scan + 1"
proof -
  let ?s = "sc_size scan" and ?scan0 = "scan\<lparr> sc_pos := sc_size scan + 1 \<rparr>"
  have max: "max (?s + 1) ?s = ?s + 1"
    using small by (simp add: max_def word_le_nat_alt unat_plus_exact)
  have none: "lost_range_at ?scan0 ?s True = None" using uncovered_range [OF wf(2)] by (simp add: lost_range_at_def)
  obtain c scan2 where c: "lost_quick_candidate env ?s False ?scan0 = Some (c, scan2)" and c2: "calm ?scan0 scan2"
    using lost_quick_candidate_calm [OF env, of ?scan0 ?s False] wf unfolding returns_calm_def pos_simps by blast
  have le: "sc_pos b = ?s + 1" if "calm ?scan0 b" for b
    using that unfolding calm_def grows_def by (intro antisym) (auto simp: max)
  show ?thesis
  proof (cases "?s mod ucast (sc_sector_size scan) = 0")
    case True
    then have r: "(case c of Inl _ \<Rightarrow> Some (Turn_Fail, scan2) | Inr hits \<Rightarrow> report_hits env hits False scan2) = Some (Turn_Continue, scan1)"
      using run none c by (simp add: quick_turn_def)
    obtain hits where h: "c = Inr hits" "report_hits env hits False scan2 = Some (Turn_Continue, scan1)"
      using r by (cases c) auto
    have "calm scan2 scan1" using report_hits_calm [OF env calm_wf [OF c2], of hits False] h(2) by (simp add: returns_calm_def)
    from le [OF calm_trans [OF c2 this]] show ?thesis .
  qed (use run in \<open>auto simp: quick_turn_def Let_def\<close>)
qed

lemma lost_next_beyond:
  assumes wf: "scan_wf scan" and small: "unat (sc_size scan) < 2 ^ 63"
  shows "lost_next scan (sc_size scan + 1) > sc_size scan"
proof -
  have s1: "unat (sc_size scan + 1) = unat (sc_size scan) + 1" using small by (simp add: unat_plus_exact)
  then have f: "unat (sc_size scan + 1) \<le> 2 ^ 63" using small by simp
  have lt: "sc_size scan < sc_size scan + 1" using s1 by (simp add: word_less_nat_alt)
  show ?thesis
    by (rule lost_next_cases [OF wf f]) (use lt in \<open>auto simp: word_less_nat_alt\<close>)
qed

lemma turn_at_end:
  assumes env: "env_returns env" and wf: "scan_wf scan" "bounded scan" and u: "uncovered scan"
    and p: "sc_pos scan = sc_size scan" "\<not> sc_finishing scan" "\<not> stop \<le> sc_pos scan"
    and t: "step_turn env budget stop scan = Some (Turn_Continue, stop1, scan1)"
  shows "core_less scan1 scan \<or> stop1 = stop \<and> sc_pos scan1 = sc_size scan + 1"
proof -
  have small: "unat (sc_size scan) < 2 ^ 63" using wf(2) by (simp add: bounded_def)
  let ?s = "lost_next scan (sc_pos scan)"
  consider (deep) "sc_flags scan AND ROVER_LOST_SCAN_DEEP \<noteq> 0"
    | (pass) "sc_flags scan AND ROVER_LOST_SCAN_DEEP = 0" "?s > sc_size scan \<or> ?s \<ge> sc_limit scan"
    | (quick) "sc_flags scan AND ROVER_LOST_SCAN_DEEP = 0" "\<not> (?s > sc_size scan \<or> ?s \<ge> sc_limit scan)" by blast
  then show ?thesis
  proof cases
    case deep
    then have "deep_turn env scan = Some (Turn_Continue, scan1)" "stop1 = stop"
      using t p by (auto simp: step_turn_def)
    then show ?thesis using deep_turn_end [OF p(1) u small] by blast
  next
    case pass
    then show ?thesis using pass_turn_core [OF p(2,3) pass t] by blast
  next
    case quick
    have "sc_size scan < sc_size scan + 1" using small by (simp add: word_less_nat_alt unat_plus_exact)
    then have "sc_pos scan \<le> ?s" using lost_next_ge [OF wf(1)] quick(2) wf(2) by (simp add: not_less bounded_def)
    then have s: "?s = sc_size scan" using quick(2) p(1) by simp
    then have "quick_turn env (sc_size scan) scan = Some (Turn_Continue, scan1)" "stop1 = stop"
      using t p quick by (auto simp: step_turn_def Let_def)
    then show ?thesis using quick_turn_end [OF env wf(1) u small] by blast
  qed
qed

text \<open>One unfolding of the loop, for a step that ends without failure before the search is done.\<close>

lemma step_loop_unfold:
  assumes env: "env_returns env" "never_stops env" and wf: "scan_wf scan" "bounded scan"
    and run: "step_loop env budget stop scan = Some (False, scan1)" and d: "\<not> sc_done scan1" and p: "\<not> stop \<le> sc_pos scan"
  obtains stop' scan' where "step_turn env budget stop scan = Some (Turn_Continue, stop', scan')" "scan_wf scan'" "bounded scan'"
    "steady scan' = steady scan" "core_less scan' scan \<or> core scan' = core scan" "step_loop env budget stop' scan' = Some (False, scan1)"
proof -
  have nd: "\<not> sc_done scan" using run d by (subst (asm) step_loop.simps) (auto split: if_splits)
  obtain t stop' scan' where s: "step_turn env budget stop scan = Some (t, stop', scan')"
    and ok: "turn_ok scan (t, scan') \<or> t = Turn_Fail \<and> scan_wf scan'"
    using step_turn_ok [OF env(1) wf] by blast
  have r: "(case t of Turn_Fail \<Rightarrow> Some (True, scan') | Turn_Break \<Rightarrow> Some (False, scan')
      | Turn_Continue \<Rightarrow> step_loop env budget stop' scan') = Some (False, scan1)"
    using run nd s by (subst (asm) step_loop.simps) simp
  show ?thesis
  proof (cases t)
    case Turn_Break
    then show ?thesis using step_break_end [OF env(2) s [unfolded Turn_Break]] r d p by auto
  next
    case Turn_Continue
    then show ?thesis using that s ok r progress_core by (auto simp: turn_ok_def)
  qed (use r in simp)
qed

lemma turn_beyond_end:
  assumes wf: "scan_wf scan" "bounded scan" and p: "sc_pos scan = sc_size scan + 1" "\<not> sc_finishing scan" "\<not> stop \<le> sc_pos scan"
    and t: "step_turn env budget stop scan = Some (Turn_Continue, stop1, scan1)"
  shows "core_less scan1 scan"
proof -
  have small: "unat (sc_size scan) < 2 ^ 63" using wf(2) by (simp add: bounded_def)
  then have lt: "sc_size scan < sc_size scan + 1" by (simp add: word_less_nat_alt unat_plus_exact)
  show ?thesis
  proof (cases "sc_flags scan AND ROVER_LOST_SCAN_DEEP = 0")
    case True
    show ?thesis by (rule pass_turn_core [OF p(2,3) True _ t]) (use lost_next_beyond [OF wf(1) small] p(1) in simp)
  next
    case False
    then have "scan1 = (lost_settle scan)\<lparr> sc_pos := sc_size scan, sc_finishing := True \<rparr>"
      using t p lt by (simp add: step_turn_def deep_turn_def)
    then show ?thesis using p(2) by (simp add: core_less_def phase_def)
  qed
qed

lemma step_loop_from_end:
  assumes env: "env_returns env" "never_stops env" and wf: "scan_wf scan" "bounded scan" and u: "uncovered scan"
    and p: "sc_pos scan = sc_size scan" "\<not> sc_finishing scan" "unat (sc_size scan) + 2 \<le> unat stop"
    and run: "step_loop env budget stop scan = Some (False, scan1)" "\<not> sc_done scan1"
  shows "core_less scan1 scan"
proof -
  have small: "unat (sc_size scan) < 2 ^ 63" using wf(2) by (simp add: bounded_def)
  have st: "\<not> stop \<le> sc_size scan" "\<not> stop \<le> sc_size scan + 1"
    using p(3) small by (simp_all add: word_le_nat_alt unat_plus_exact)
  obtain stop2 scan2 where t2: "step_turn env budget stop scan = Some (Turn_Continue, stop2, scan2)"
    and c2: "scan_wf scan2" "bounded scan2" "steady scan2 = steady scan" "core_less scan2 scan \<or> core scan2 = core scan"
    and r2: "step_loop env budget stop2 scan2 = Some (False, scan1)"
    by (rule step_loop_unfold [OF env wf run]) (use st(1) p(1) in simp)
  have rest: "core_less scan1 b \<or> core scan1 = core b" if "scan_wf b" "bounded b" "step_loop env budget s b = Some (False, scan1)" for s b
    using step_loop_core [OF env that run(2)] by blast
  from turn_at_end [OF env(1) wf u p(1,2) _ t2] st(1) p(1)
  consider (less) "core_less scan2 scan" | (moved) "stop2 = stop" "sc_pos scan2 = sc_size scan + 1" by auto
  then show ?thesis
  proof cases
    case less
    then show ?thesis using rest [OF c2(1,2) r2] core_less_trans core_less_eq(1) by blast
  next
    case moved
    show ?thesis
    proof (cases "core_less scan2 scan")
      case True
      then show ?thesis using rest [OF c2(1,2) r2] core_less_trans core_less_eq(1) by blast
    next
      case False
      then have eq: "core scan2 = core scan" using c2(4) by blast
      then have nf: "\<not> sc_finishing scan2" using p(2) by (simp add: core_def phase_def split: if_splits)
      have sz: "sc_size scan2 = sc_size scan" using c2(3) by (simp add: steady_def)
      obtain stop3 scan3 where t3: "step_turn env budget stop2 scan2 = Some (Turn_Continue, stop3, scan3)"
        and c3: "scan_wf scan3" "bounded scan3" and r3: "step_loop env budget stop3 scan3 = Some (False, scan1)"
        by (rule step_loop_unfold [OF env c2(1,2) r2 run(2)]) (use moved st(2) in simp)
      have "core_less scan3 scan2"
        by (rule turn_beyond_end [OF c2(1,2) _ nf _ t3]) (use moved sz st(2) in simp_all)
      then have "core_less scan1 scan2" using rest [OF c3 r3] core_less_trans core_less_eq(1) by blast
      then show ?thesis using core_less_eq(2) [OF _ eq] by blast
    qed
  qed
qed

subsection \<open>The caller's loop\<close>

definition between :: "('w rover_lost_scan \<times> 'w rover_lost_scan) set" where
  "between = measures [phase, to_find, queued, to_scan]"

lemma wf_between: "wf between"
  by (simp add: between_def)

lemma betweenI: "core_less b a \<or> core b = core a \<and> to_scan b < to_scan a \<Longrightarrow> (b, a) \<in> between"
  by (auto simp: between_def core_less_def core_def)

text \<open>The step that returns 1, and the offset at which its loop ends.\<close>

definition step_stop :: "u64 \<Rightarrow> 'w rover_lost_scan \<Rightarrow> u64" where
  "step_stop budget scan = (if budget = 0 \<or> sc_pos scan + budget < sc_pos scan then NOT 0 else sc_pos scan + budget)"

lemma step_goes_on:
  assumes "rover_lost_scan_step env budget scan = Some (1, scan2)"
  obtains scan1 where "step_loop env budget (step_stop budget scan) (set_world (le_set_errno env GRUB_ERR_NONE (sc_world scan)) scan)
      = Some (False, scan1)" and "\<not> sc_done scan1"
    and "scan2 = (if sc_pos scan1 > sc_size scan1 then scan1\<lparr> sc_pos := sc_size scan1 \<rparr> else scan1)"
proof (cases "step_loop env budget (step_stop budget scan) (set_world (le_set_errno env GRUB_ERR_NONE (sc_world scan)) scan)")
  case None
  then show ?thesis using assms unfolding rover_lost_scan_step_def Let_def step_stop_def by simp
next
  case (Some p)
  obtain failed c where p: "p = (failed, c)" by force
  note l = Some [unfolded p]
  note run = assms [unfolded rover_lost_scan_step_def Let_def, folded step_stop_def, unfolded l Option.bind_lunit prod.case]
  show ?thesis
  proof (cases failed)
    case True
    then show ?thesis using run by simp
  next
    case False
    then show ?thesis using that [of c] l run by (cases "sc_done c") (simp_all split: if_splits)
  qed
qed

lemma step_stop_gt:
  assumes "unat (sc_pos scan) < 2 ^ 63" and b: "unat budget \<ge> 2"
  shows "unat (sc_pos scan) + 2 \<le> unat (step_stop budget scan)"
proof (cases "budget = 0 \<or> sc_pos scan + budget < sc_pos scan")
  case True
  have m: "unat (NOT 0 :: u64) = 2 ^ 64 - 1" by (simp add: unsigned_minus_1_eq_mask mask_eq_exp_minus_1)
  show ?thesis unfolding step_stop_def if_P [OF True] m using assms(1) by simp
next
  case False
  then have "sc_pos scan \<le> sc_pos scan + budget" by (simp add: not_less)
  then have "unat (sc_pos scan + budget) = unat (sc_pos scan) + unat budget" using unat_plus_simple by blast
  then show ?thesis unfolding step_stop_def if_not_P [OF False] using b by simp
qed

lemma step_one_progress:
  assumes env: "env_returns env" "never_stops env" and wf: "scan_wf scan" "bounded scan" and u: "uncovered scan"
    and p: "sc_pos scan \<le> sc_size scan" and b: "unat budget \<ge> 2"
    and run: "rover_lost_scan_step env budget scan = Some (1, scan2)"
  shows "scan_wf scan2 \<and> bounded scan2 \<and> uncovered scan2 \<and> sc_pos scan2 \<le> sc_size scan2 \<and> (scan2, scan) \<in> between"
proof -
  let ?scan = "set_world (le_set_errno env GRUB_ERR_NONE (sc_world scan)) scan" and ?stop = "step_stop budget scan"
  have small: "unat (sc_size scan) < 2 ^ 63" using wf(2) by (simp add: bounded_def)
  have ps: "unat (sc_pos scan) \<le> unat (sc_size scan)" using p by (simp add: word_le_nat_alt)
  have st: "unat (sc_pos scan) + 2 \<le> unat ?stop" by (rule step_stop_gt) (use ps small b in simp_all)
  obtain scan1 where l: "step_loop env budget ?stop ?scan = Some (False, scan1)" and nd: "\<not> sc_done scan1"
    and s2: "scan2 = (if sc_pos scan1 > sc_size scan1 then scan1\<lparr> sc_pos := sc_size scan1 \<rparr> else scan1)"
    by (rule step_goes_on [OF run])
  have w: "scan_wf ?scan" "bounded ?scan" using wf by (simp_all add: bounded_def)
  have wu: "uncovered ?scan" using u uncovered_steady [of ?scan scan] by simp
  note c = step_loop_core [OF env w l nd]
  have st1: "steady scan1 = steady scan" using c by simp
  have sz: "sc_size scan1 = sc_size scan" using st1 by (simp add: steady_def)
  have core1: "core_less scan1 ?scan \<or> core scan1 = core ?scan \<and> ?stop \<le> sc_pos scan1" using c by blast
  have nf: "\<not> sc_finishing ?scan" using core1 c by (auto simp: core_less_def core_def phase_def split: if_splits)
  have same: "core_less b ?scan = core_less b scan" "core ?scan = core scan" for b
    by (simp_all add: core_less_def core_def phase_def to_find_def queued_def set_world_def)
  have "core_less scan1 scan \<or> core scan1 = core scan \<and> unat (sc_pos scan) < unat (sc_pos scan2)"
  proof (cases "sc_pos scan = sc_size scan")
    case True
    have "core_less scan1 ?scan"
      by (rule step_loop_from_end [OF env w wu _ nf _ l nd]) (use True st in simp_all)
    then show ?thesis using same by blast
  next
    case False
    then have "unat (sc_pos scan) \<noteq> unat (sc_size scan)" by (simp add: word_unat_eq_iff)
    then have "unat (sc_pos scan) < unat (sc_size scan)" using ps by simp
    moreover have "unat (sc_pos scan) < unat (sc_pos scan1)" if "?stop \<le> sc_pos scan1"
      using that st by (simp add: word_le_nat_alt)
    ultimately show ?thesis using core1 sz unfolding same by (auto simp: s2)
  qed
  moreover have "core scan2 = core scan1" by (simp add: s2)
  moreover have "unat (sc_pos scan) < unat (sc_pos scan2) \<Longrightarrow> to_scan scan2 < to_scan scan"
    by (rule to_scan_less) (simp add: word_less_nat_alt)
  ultimately have "(scan2, scan) \<in> between" using core_less_eq(1) [of scan2 scan1 scan] by (intro betweenI) auto
  moreover have "steady scan2 = steady scan" using st1 by (simp add: s2)
  moreover have "sc_pos scan2 \<le> sc_size scan2" by (auto simp: s2 not_less)
  moreover have "scan_wf scan2" "bounded scan2" using c small sz by (auto simp: s2 bounded_def)
  ultimately show ?thesis using u uncovered_steady by blast
qed

lemma search_loop_returns:
  assumes env: "env_returns env" "never_stops env" and b: "unat budget \<ge> 2"
  shows "scan_wf scan \<Longrightarrow> bounded scan \<Longrightarrow> uncovered scan \<Longrightarrow> sc_pos scan \<le> sc_size scan \<Longrightarrow>
    \<exists>more scan'. search_loop env budget scan = Some (more, scan') \<and> more \<in> {-1, 0} \<and> sc_done scan'"
proof (induction scan rule: wf_induct_rule [OF wf_between])
  case (1 scan)
  obtain r scan1 where s: "rover_lost_scan_step env budget scan = Some (r, scan1)" "r \<in> {-1, 0, 1}" "r \<noteq> 1 \<longleftrightarrow> sc_done scan1"
    using step_result [OF env(1) "1.prems"(1,2), of budget] by blast
  show ?case
  proof (cases "r = 1")
    case True
    note one = step_one_progress [OF env "1.prems" b s(1) [unfolded True]]
    then have "\<exists>more scan'. search_loop env budget scan1 = Some (more, scan') \<and> more \<in> {-1, 0} \<and> sc_done scan'"
      using "1.IH" by blast
    then show ?thesis using s(1) True by (subst search_loop.simps) simp
  next
    case False
    then show ?thesis using s by (subst search_loop.simps) auto
  qed
qed

end
