(* ===== verification/Lost_Begin.thy ===== *)
theory Lost_Begin
  imports Lost_Scan
begin

text \<open>
  Starting and ending a lost partition search (\<open>rover_lost_scan_begin\<close> and \<open>rover_lost_scan_end\<close> of
  \<open>grub/rover/lostpart.c\<close>) over the disk layer of the development: the disk is opened, its partitions
  are collected and probed, the partition tables GRUB does not use are read and the hints placed.
\<close>

text \<open>The search on an open disk: reads go through \<open>grub_disk_read\<close>, memory and errors through the disk layer's state.\<close>

definition lost_disk_env :: "(('h, 'd) open_disk \<Rightarrow> u64 \<Rightarrow> u64 \<Rightarrow> rover_lost_remap list \<Rightarrow> 'h dstate
      \<Rightarrow> ((grub_err_t \<times> string option \<times> string option \<times> string option) \<times> 'h dstate) option)
    \<Rightarrow> (rover_lost_part \<Rightarrow> 'h dstate \<Rightarrow> (bool \<times> 'h dstate) option) \<Rightarrow> ('h, 'd) open_disk \<Rightarrow> 'h dstate lost_env" where
  "lost_disk_env probe hook d =
     \<lparr> le_read = (\<lambda>sector offset len st. do { dev \<leftarrow> od_dev d;
                    grub_disk_read (dev_read dev) None (od_disk d) sector offset (of_nat len) st }),
       le_probe = probe d, le_hook = hook, le_malloc = grub_malloc, le_errno = d_errno,
       le_set_errno = set_errno, le_error = raise_error \<rparr>"

subsection \<open>The partitions of the disk\<close>

record lost_part_ctx =
  cx_base :: u64
  cx_ranges :: "lost_range list"
  cx_names :: "string list"
  cx_alloc :: nat
  cx_failed :: bool

text \<open>The two lists grow together; each is one request to the allocator.\<close>

definition collect_room :: "lost_part_ctx \<Rightarrow> 'h pstate \<Rightarrow> lost_part_ctx option \<times> 'h pstate" where
  "collect_room ctx ps =
     (if length (cx_ranges ctx) = cx_alloc ctx then
        (case p_malloc ps of
           (False, ps1) \<Rightarrow> (None, ps1)
         | (True, ps1) \<Rightarrow>
             (case p_malloc ps1 of
                (False, ps2) \<Rightarrow> (None, ps2)
              | (True, ps2) \<Rightarrow>
                  (Some (ctx\<lparr> cx_alloc := (if cx_alloc ctx \<noteq> 0 then cx_alloc ctx * 2 else 16) \<rparr>), ps2)))
      else (Some ctx, ps))"

definition range_of_part :: "u64 \<Rightarrow> grub_partition list \<Rightarrow> lost_range" where
  "range_of_part base p =
     (let start = push_bit 9 (grub_partition_get_start p - base)
      in \<lparr> r_start = start, r_end = start + push_bit 9 (part_len (hd p)), r_readable = False \<rparr>)"

definition lost_collect_part :: "('h, lost_part_ctx) chain_hook" where
  "lost_collect_part p ctx ps =
     (case collect_room ctx ps of
        (None, ps1) \<Rightarrow> Some (True, ctx\<lparr> cx_failed := True \<rparr>, ps1)
      | (Some ctx1, ps1) \<Rightarrow>
          (case grub_partition_get_name p ps1 of
             (None, ps2) \<Rightarrow> Some (True, ctx1\<lparr> cx_failed := True \<rparr>, ps2)
           | (Some pname, ps2) \<Rightarrow>
               (case grub_xasprintf (disk_name (ps_disk ps2) @ CHR '','' # pname) (ps_dst ps2) of
                  (None, st) \<Rightarrow> Some (True, ctx1\<lparr> cx_failed := True \<rparr>, ps2\<lparr> ps_dst := st \<rparr>)
                | (Some text, st) \<Rightarrow>
                    Some (False, ctx1\<lparr> cx_names := cx_names ctx1 @ [text],
                           cx_ranges := cx_ranges ctx1 @ [range_of_part (cx_base ctx1) p] \<rparr>, ps2\<lparr> ps_dst := st \<rparr>))))"

text \<open>Does a driver read the file system of a device?\<close>

definition lost_readable :: "('h part_read \<Rightarrow> ('h, grub_partition option) partmaps) \<Rightarrow> ('h, 'd) disk_dev list
    \<Rightarrow> ('h, 'f, 'd) grub_fs list \<Rightarrow> string \<Rightarrow> 'h dstate \<Rightarrow> (bool \<times> 'h dstate) option" where
  "lost_readable maps devs fss name st =
     do { (dev, st1) \<leftarrow> grub_device_open maps devs None (Some name) st;
          case dev of
            None \<Rightarrow> Some (False, set_errno GRUB_ERR_NONE st1)
          | Some device \<Rightarrow>
              do { (fs, st2) \<leftarrow> grub_fs_probe fss device st1;
                   (_, st3) \<leftarrow> grub_device_close (Some device) st2;
                   Some (fs \<noteq> None, set_errno GRUB_ERR_NONE st3) } }"

text \<open>The loop over the ranges: unreadable ones and the ends of all are hints.\<close>

fun probe_ranges :: "('h dstate lost_env) \<Rightarrow> (string \<Rightarrow> 'h dstate \<Rightarrow> (bool \<times> 'h dstate) option) \<Rightarrow> nat \<Rightarrow> string list
    \<Rightarrow> 'h dstate rover_lost_scan \<Rightarrow> (bool \<times> 'h dstate rover_lost_scan) option" where
  "probe_ranges env readable i [] scan = Some (False, scan)"
| "probe_ranges env readable i (name # names) scan =
     do { (ok, w) \<leftarrow> readable name (sc_world scan);
          let r = (sc_ranges scan ! i)\<lparr> r_readable := ok \<rparr>;
          let scan1 = (set_world w scan)\<lparr> sc_ranges := (sc_ranges scan)[i := r] \<rparr>;
          case (if ok then (False, scan1) else lost_add_hint env (r_start r) scan1) of
            (True, scan2) \<Rightarrow> Some (True, scan2)
          | (False, scan2) \<Rightarrow>
              (case lost_add_end_hints env (r_end r) scan2 of
                 (True, scan3) \<Rightarrow> Some (True, scan3)
               | (False, scan3) \<Rightarrow> probe_ranges env readable (Suc i) names scan3) }"

text \<open>Both headers at each block size.\<close>

fun read_tables :: "'w lost_env \<Rightarrow> u64 list \<Rightarrow> 'w rover_lost_scan \<Rightarrow> (bool \<times> 'w rover_lost_scan) option" where
  "read_tables env [] scan = Some (False, scan)"
| "read_tables env (lba_size # rest) scan =
     do { (failed, scan1) \<leftarrow> lost_gpt env lba_size 1 scan;
          if failed then Some (True, scan1)
          else do { (failed2, scan2) \<leftarrow> lost_gpt env lba_size (sc_size scan1 div lba_size - 1) scan1;
                    if failed2 then Some (True, scan2) else read_tables env rest scan2 } }"

definition table_block_sizes :: "u32 \<Rightarrow> u64 list" where
  "table_block_sizes ss = (if ss = 512 then [512, 4096] else if ss \<le> 4096 then [ucast ss] else [])"

definition first_hints :: "u64 list" where
  "first_hints = map (\<lambda>h. h * 512) [32, 63, 16 * 63, 17 * 63, 240 * 63, 241 * 63, 255 * 63, 256 * 63, 34]"

subsection \<open>Begin and end\<close>

definition new_scan :: "'w \<Rightarrow> u32 \<Rightarrow> 'w rover_lost_scan" where
  "new_scan w flags = \<lparr> sc_world = w, sc_size = 0, sc_sector_size = 0, sc_flags = flags, sc_pos = 0, sc_limit = NOT 0,
     sc_done = False, sc_rescanning = False, sc_finishing = False, sc_base_readable = False, sc_ranges = [],
     sc_hints = [], sc_hints_alloc = 0, sc_found = [], sc_found_alloc = 0, sc_tables = [], sc_tables_alloc = 0,
     sc_next_table = 0, sc_skips = [], sc_skips_alloc = 0, sc_pending = [], sc_pending_alloc = 0,
     sc_next_pending = 0, sc_pending_ready = False \<rparr>"

fun malloc_buffers :: "nat \<Rightarrow> 'h dstate \<Rightarrow> bool \<times> 'h dstate" where
  "malloc_buffers 0 st = (True, st)"
| "malloc_buffers (Suc n) st =
     (case grub_malloc st of (ok, st1) \<Rightarrow> case malloc_buffers n st1 of (oks, st2) \<Rightarrow> (ok \<and> oks, st2))"

text \<open>The hints and the start of the search, after the partitions are known.\<close>

definition begin_hints :: "'h dstate lost_env \<Rightarrow> (string \<Rightarrow> 'h dstate \<Rightarrow> (bool \<times> 'h dstate) option) \<Rightarrow> string list
    \<Rightarrow> 'h dstate rover_lost_scan \<Rightarrow> (bool \<times> 'h dstate rover_lost_scan) option" where
  "begin_hints env readable names scan =
     do { (failed, scan1) \<leftarrow> probe_ranges env readable 0 names scan;
          if failed then Some (True, scan1)
          else do { (failed2, scan2) \<leftarrow> read_tables env (table_block_sizes (sc_sector_size scan1)) scan1;
            if failed2 then Some (True, scan2)
            else Some (case add_hints env (first_hints @ [sc_size scan2]) scan2 of
                   (True, scan3) \<Rightarrow> (True, scan3)
                 | (False, scan3) \<Rightarrow>
                     (False, if sc_base_readable scan3 then scan3\<lparr> sc_pos := ucast (sc_sector_size scan3) \<rparr> else scan3)) } }"

definition rover_lost_scan_end :: "('h, 'd) open_disk option \<Rightarrow> 'h dstate \<Rightarrow> 'h dstate option" where
  "rover_lost_scan_end d st = (case d of None \<Rightarrow> Some st | Some disk \<Rightarrow> grub_disk_close disk st)"

text \<open>The label \<open>fail\<close>: the search is ended and the result is null.\<close>

definition begin_fail :: "('h, 'd) open_disk option \<Rightarrow> 'h dstate
    \<Rightarrow> ((('h, 'd) open_disk \<times> 'h dstate rover_lost_scan) option \<times> 'h dstate) option" where
  "begin_fail d st = map_option (\<lambda>st1. (None, st1)) (rover_lost_scan_end d st)"

text \<open>
  The part on the open disk; \<open>walk\<close> gives the partition maps at the type of this walk, \<open>env\<close> what the
  search calls on the disk.
\<close>

definition begin_on_disk :: "('h part_read \<Rightarrow> ('h, bool \<times> lost_part_ctx) partmaps)
    \<Rightarrow> (string \<Rightarrow> 'h dstate \<Rightarrow> (bool \<times> 'h dstate) option) \<Rightarrow> 'h dstate lost_env \<Rightarrow> string \<Rightarrow> u32
    \<Rightarrow> ('h, 'd) open_disk \<Rightarrow> ('h, 'd) disk_dev \<Rightarrow> 'h dstate
    \<Rightarrow> ((('h, 'd) open_disk \<times> 'h dstate rover_lost_scan) option \<times> 'h dstate) option" where
  "begin_on_disk walk readable env device flags d drv st =
     do { (base_readable, st1) \<leftarrow> readable device st;
          let base = (if disk_partition (od_disk d) = [] then 0 else grub_partition_get_start (disk_partition (od_disk d)));
          ((_, ctx), ps) \<leftarrow> grub_partition_iterate 0 (walk (disk_reader (dev_read drv) None)) lost_collect_part
              \<lparr> cx_base = base, cx_ranges = [], cx_names = [], cx_alloc = 0, cx_failed = False \<rparr>
              \<lparr> ps_disk = od_disk d, ps_dst = st1 \<rparr>;
          let st2 = set_errno GRUB_ERR_NONE (ps_dst ps);
          if cx_failed ctx then begin_fail (Some d) (raise_error GRUB_ERR_OUT_OF_MEMORY ''out of memory'' st2)
          else do {
            (failed, scan) \<leftarrow> begin_hints env readable (cx_names ctx)
              ((new_scan st2 flags)\<lparr> sc_size := push_bit 9 (grub_disk_native_sectors (od_disk d)),
                 sc_sector_size := push_bit (disk_log_sector_size (od_disk d)) 1,
                 sc_base_readable := base_readable, sc_ranges := cx_ranges ctx \<rparr>);
            if failed then begin_fail (Some d) (sc_world scan)
            else Some (Some (d, scan), sc_world scan) } }"

definition rover_lost_scan_begin :: "('h part_read \<Rightarrow> ('h, grub_partition option) partmaps)
    \<Rightarrow> ('h part_read \<Rightarrow> ('h, bool \<times> lost_part_ctx) partmaps) \<Rightarrow> ('h, 'd) disk_dev list \<Rightarrow> ('h, 'f, 'd) grub_fs list
    \<Rightarrow> (('h, 'd) open_disk \<Rightarrow> 'h dstate lost_env) \<Rightarrow> string \<Rightarrow> u32 \<Rightarrow> 'h dstate
    \<Rightarrow> ((('h, 'd) open_disk \<times> 'h dstate rover_lost_scan) option \<times> 'h dstate) option" where
  "rover_lost_scan_begin maps walk devs fss env device flags st =
     (case grub_malloc (set_errno GRUB_ERR_NONE st) of
        (False, st1) \<Rightarrow> Some (None, st1)
      | (True, st1) \<Rightarrow>
          do { (disk, st2) \<leftarrow> grub_disk_open maps devs device st1;
               case disk of
                 None \<Rightarrow> begin_fail None st2
               | Some d \<Rightarrow>
                   if grub_disk_native_sectors (od_disk d) = GRUB_DISK_SIZE_UNKNOWN
                   then begin_fail disk (raise_error GRUB_ERR_BAD_DEVICE ''size of the device is unknown'' st2)
                   else (case malloc_buffers (if flags AND ROVER_LOST_SCAN_DEEP \<noteq> 0 then 4 else 3) st2 of
                      (False, st3) \<Rightarrow> begin_fail disk st3
                    | (True, st3) \<Rightarrow>
                        do { drv \<leftarrow> od_dev d;
                             begin_on_disk walk (lost_readable maps devs fss) (env d) device flags d drv st3 }) })"

end
