(* ===== verification/Lost_Begin_Correct.thy ===== *)
theory Lost_Begin_Correct
  imports Lost_Ends Lost_Begin
begin

text \<open>
  What the start of a search leaves behind: a well-formed search on which the steps return.
\<close>

text \<open>The parts of a search that its start sets once.\<close>

definition extent :: "lost_range \<Rightarrow> u64 \<times> u64" where
  "extent r = (r_start r, r_end r)"

definition set_up :: "'w rover_lost_scan \<Rightarrow> u64 \<times> u32 \<times> u32 \<times> bool \<times> bool \<times> bool \<times> (u64 \<times> u64) list" where
  "set_up scan = (sc_size scan, sc_sector_size scan, sc_flags scan, sc_done scan, sc_finishing scan,
     sc_base_readable scan, map extent (sc_ranges scan))"

definition starts :: "'w rover_lost_scan \<Rightarrow> 'w rover_lost_scan \<Rightarrow> bool" where
  "starts a b \<longleftrightarrow> scan_wf b \<and> set_up b = set_up a \<and> sc_pos b \<le> max (sc_pos a) (sc_size a)"

lemma starts_refl: "scan_wf a \<Longrightarrow> starts a a"
  by (simp add: starts_def)

lemma starts_trans: "starts a b \<Longrightarrow> starts b c \<Longrightarrow> starts a c"
  unfolding starts_def set_up_def by (auto simp: max_def split: if_splits)

lemma starts_wf: "starts a b \<Longrightarrow> scan_wf b"
  by (simp add: starts_def)

lemma calm_starts: "calm a b \<Longrightarrow> starts a b"
  by (simp add: calm_def grows_def starts_def fixed_part_def set_up_def)

lemma set_readable_starts:
  assumes "scan_wf scan" and "i < length (sc_ranges scan)" and "extent r = extent (sc_ranges scan ! i)"
  shows "starts scan ((set_world w scan)\<lparr> sc_ranges := (sc_ranges scan)[i := r] \<rparr>)"
proof -
  have "map extent ((sc_ranges scan)[i := r]) = map extent (sc_ranges scan)"
    by (simp add: map_update assms(3)) (metis assms(2) length_map list_update_id nth_map)
  then show ?thesis using assms(1)
    by (simp add: starts_def set_up_def set_world_def scan_wf_def wf_defs aligned_def)
qed

lemma probe_ranges_starts:
  assumes readable: "\<And>name w. readable name w \<noteq> None"
  shows "scan_wf scan \<Longrightarrow> i + length names \<le> length (sc_ranges scan) \<Longrightarrow>
    \<exists>failed scan'. probe_ranges env readable i names scan = Some (failed, scan') \<and> starts scan scan'"
proof (induction names arbitrary: i scan)
  case (Cons name names)
  obtain ok w where r: "readable name (sc_world scan) = Some (ok, w)" using readable by (metis option.exhaust prod.collapse)
  let ?r = "(sc_ranges scan ! i)\<lparr> r_readable := ok \<rparr>"
  let ?scan1 = "(set_world w scan)\<lparr> sc_ranges := (sc_ranges scan)[i := ?r] \<rparr>"
  have s1: "starts scan ?scan1" by (rule set_readable_starts) (use Cons.prems in \<open>simp_all add: extent_def\<close>)
  obtain e2 scan2 where h: "(if ok then (False, ?scan1) else lost_add_hint env (r_start ?r) ?scan1) = (e2, scan2)" by force
  have s2: "starts ?scan1 scan2"
    using h starts_refl [OF starts_wf [OF s1]] calm_starts [OF lost_add_hint_calm [OF starts_wf [OF s1]]]
    by (auto split: if_splits)
  obtain e3 scan3 where h3: "lost_add_end_hints env (r_end (sc_ranges scan ! i)) scan2 = (e3, scan3)" by force
  have s3: "starts scan2 scan3" by (rule calm_starts [OF lost_add_end_hints_calm [OF starts_wf [OF s2] h3]])
  have s: "starts scan scan2" "starts scan scan3" using starts_trans [OF s1 s2] starts_trans [OF starts_trans [OF s1 s2] s3] .
  then have "map extent (sc_ranges scan3) = map extent (sc_ranges scan)" by (simp add: starts_def set_up_def)
  then have "length (sc_ranges scan3) = length (sc_ranges scan)" by (rule map_eq_imp_length_eq)
  then obtain f scan4 where "probe_ranges env readable (Suc i) names scan3 = Some (f, scan4)" "starts scan3 scan4"
    using Cons.IH [OF starts_wf [OF s3], of "Suc i"] Cons.prems(2) by auto
  then show ?case
    using s starts_trans [OF s(2)] by (cases e2; cases e3) (auto simp: r Let_def h h3)
qed (use starts_refl in auto)

lemma read_tables_starts:
  assumes env: "env_returns env"
  shows "scan_wf scan \<Longrightarrow> \<exists>failed scan'. read_tables env sizes scan = Some (failed, scan') \<and> starts scan scan'"
proof (induction sizes arbitrary: scan)
  case (Cons bs sizes)
  obtain f1 scan1 where g1: "lost_gpt env bs 1 scan = Some (f1, scan1)" "calm scan scan1"
    using lost_gpt_calm [OF env Cons.prems] unfolding returns_calm_def by blast
  obtain f2 scan2 where g2: "lost_gpt env bs (sc_size scan1 div bs - 1) scan1 = Some (f2, scan2)" "calm scan1 scan2"
    using lost_gpt_calm [OF env calm_wf [OF g1(2)]] unfolding returns_calm_def by blast
  note s1 = calm_starts [OF g1(2)] and s2 = calm_starts [OF calm_trans [OF g1(2) g2(2)]]
  obtain f3 scan3 where "read_tables env sizes scan2 = Some (f3, scan3)" "starts scan2 scan3"
    using Cons.IH [OF starts_wf [OF s2]] by blast
  then show ?case using g1(1) g2(1) s1 s2 starts_trans [OF s2] by (cases f1; cases f2) auto
qed (use starts_refl in auto)

lemma begin_hints_starts:
  assumes env: "env_returns env" and readable: "\<And>name w. readable name w \<noteq> None" and wf: "scan_wf scan"
    and names: "length names = length (sc_ranges scan)"
  shows "\<exists>failed scan'. begin_hints env readable names scan = Some (failed, scan') \<and> scan_wf scan' \<and> set_up scan' = set_up scan
    \<and> (sc_pos scan' \<le> max (sc_pos scan) (sc_size scan) \<or> sc_pos scan' = ucast (sc_sector_size scan))"
proof -
  obtain f1 scan1 where p: "probe_ranges env readable 0 names scan = Some (f1, scan1)" and s1: "starts scan scan1"
    using probe_ranges_starts [where readable = readable and env = env, OF readable wf, of 0 names] names by fastforce
  obtain f2 scan2 where t: "read_tables env (table_block_sizes (sc_sector_size scan1)) scan1 = Some (f2, scan2)"
    and s12: "starts scan1 scan2" using read_tables_starts [OF env starts_wf [OF s1]] by blast
  note s2 = starts_trans [OF s1 s12]
  obtain f3 scan3 where h: "add_hints env (first_hints @ [sc_size scan2]) scan2 = (f3, scan3)" by force
  have s3: "starts scan scan3"
    by (rule starts_trans [OF s2 calm_starts [OF add_hints_calm [OF starts_wf [OF s2] h]]])
  have "sc_sector_size scan3 = sc_sector_size scan" using s3 by (simp add: starts_def set_up_def)
  moreover have "set_up (scan3\<lparr> sc_pos := x \<rparr>) = set_up scan3" for x by (simp add: set_up_def)
  ultimately show ?thesis
    using p t h s1 s2 s3 unfolding starts_def begin_hints_def by (cases f1; cases f2; cases f3) auto
qed

text \<open>The search that \<open>rover_lost_scan_begin\<close> fills in is well-formed from the first moment.\<close>

lemma new_scan_wf: "scan_wf ((new_scan w flags)\<lparr> sc_size := sz, sc_sector_size := ss, sc_base_readable := b, sc_ranges := rs \<rparr>)"
  by (simp add: new_scan_def scan_wf_def wf_defs)

lemma begun_search_ends:
  fixes env :: "'h dstate lost_env" and w :: "'h dstate"
  assumes env: "env_returns env" "never_stops env" and readable: "\<And>name w. readable name w \<noteq> None"
    and names: "length names = length rs"
    and sz: "unat sz < 2 ^ 63" "ucast ss \<le> sz" and rs: "\<forall>r \<in> set rs. unat (r_end r) \<le> 2 ^ 63 \<and> \<not> (r_start r \<le> sz \<and> sz < r_end r)"
    and budget: "2 \<le> unat budget"
  shows "\<exists>failed scan. begin_hints env readable names
      ((new_scan w flags)\<lparr> sc_size := sz, sc_sector_size := ss, sc_base_readable := b, sc_ranges := rs \<rparr>) = Some (failed, scan)
    \<and> (\<exists>more scan'. search_loop env budget scan = Some (more, scan') \<and> more \<in> {-1, 0} \<and> sc_done scan')"
proof -
  let ?scan = "(new_scan w flags)\<lparr> sc_size := sz, sc_sector_size := ss, sc_base_readable := b, sc_ranges := rs \<rparr>"
  obtain failed scan where h: "begin_hints env readable names ?scan = Some (failed, scan)" and wf: "scan_wf scan"
    and s: "set_up scan = set_up ?scan" and p: "sc_pos scan \<le> max (sc_pos ?scan) (sc_size ?scan) \<or> sc_pos scan = ucast (sc_sector_size ?scan)"
    using begin_hints_starts [where readable = readable and names = names and scan = ?scan, OF env(1) readable new_scan_wf] names by auto
  have f: "sc_size scan = sz" "map extent (sc_ranges scan) = map extent rs"
    using s by (simp_all add: set_up_def new_scan_def)
  have pos: "sc_pos scan \<le> sc_size scan" using p sz(2) by (auto simp: new_scan_def max_def f)
  have "\<forall>x \<in> set (map extent (sc_ranges scan)). unat (snd x) \<le> 2 ^ 63 \<and> \<not> (fst x \<le> sz \<and> sz < snd x)"
    unfolding f(2) using rs by (auto simp: extent_def)
  then have r: "\<forall>r \<in> set (sc_ranges scan). unat (r_end r) \<le> 2 ^ 63 \<and> \<not> (r_start r \<le> sz \<and> sz < r_end r)"
    unfolding set_map by (auto simp: extent_def)
  have "unat (sc_pos scan) \<le> unat sz" using pos by (simp add: f word_le_nat_alt)
  then have "bounded scan" using sz(1) r by (auto simp: bounded_def f)
  moreover have "uncovered scan" using r by (auto simp: uncovered_def f)
  ultimately show ?thesis using h search_loop_returns [OF env budget wf _ _ pos] by blast
qed

end
