(* ===== verification/Lost_Safe.thy ===== *)
theory Lost_Safe
  imports Lost_Live
begin

text \<open>
  Safety of the lost partition search: every partition that is handed to the caller starts inside the
  device, and its window and its remaps lie inside as well. The statement compares the search with
  one whose hook does not return on any other partition: both are the same.
\<close>

subsection \<open>A partition inside the device\<close>

definition nat_remap_inside :: "nat \<Rightarrow> rover_lost_remap \<Rightarrow> bool" where
  "nat_remap_inside window r \<longleftrightarrow>
     unat (rm_target r) + unat (rm_length r) \<le> window \<and> unat (rm_source r) + unat (rm_length r) \<le> window"

definition part_inside :: "u64 \<Rightarrow> u32 \<Rightarrow> rover_lost_part \<Rightarrow> bool" where
  "part_inside sz ss p \<longleftrightarrow> p_size p \<noteq> 0 \<and> p_offset p < sz
     \<and> unat (p_offset p) + unat (p_window p) \<le> unat sz \<and> p_window p \<le> p_size p
     \<and> unat ss dvd unat (p_window p)
     \<and> (\<forall>r \<in> set (p_remap p). nat_remap_inside (unat (p_window p)) r)
     \<and> (p_flags p AND ROVER_LOST_TRUNCATED \<noteq> 0 \<longleftrightarrow> unat (p_offset p) + unat (p_size p) > unat sz)"

text \<open>The comparisons of the code subtract before they compare, so that nothing wraps.\<close>

lemma remap_inside_nat: "remap_inside window r = nat_remap_inside (unat window) r"
proof (cases "rm_length r \<le> window")
  case True
  then have "unat (window - rm_length r) = unat window - unat (rm_length r)" by (rule unat_sub)
  then show ?thesis using True by (auto simp: remap_inside_def nat_remap_inside_def word_le_nat_alt)
qed (auto simp: remap_inside_def nat_remap_inside_def word_le_nat_alt)

text \<open>An end that wrapped is smaller than the start; so the flag is exact.\<close>

lemma hit_truncated_nat:
  fixes sz :: u64
  assumes "h_start hit < sz"
  shows "hit_truncated sz hit \<longleftrightarrow> unat (h_start hit) + unat (h_size hit) > unat sz"
proof (cases "unat (h_start hit) + unat (h_size hit) < 2 ^ 64")
  case True
  then have "unat (hit_end hit) = unat (h_start hit) + unat (h_size hit)" by (simp add: hit_end_def unat_plus_exact)
  then show ?thesis by (auto simp: hit_truncated_def word_less_nat_alt)
next
  case False
  have lt: "unat (h_start hit) < 2 ^ 64" "unat (h_size hit) < 2 ^ 64" "unat sz < 2 ^ 64"
    using unsigned_less [of "h_start hit", where ?'a = nat] unsigned_less [of "h_size hit", where ?'a = nat]
      unsigned_less [of sz, where ?'a = nat] by simp_all
  have "unat (hit_end hit) = (unat (h_start hit) + unat (h_size hit)) mod 2 ^ 64"
    by (simp add: hit_end_def unat_word_ariths)
  also have "\<dots> = unat (h_start hit) + unat (h_size hit) - 2 ^ 64"
    using False lt by (subst mod_if) (simp add: not_less)
  finally have "hit_end hit < h_start hit" using False lt by (simp add: word_less_nat_alt)
  then show ?thesis using False lt by (simp add: hit_truncated_def)
qed

lemma hit_window_nat:
  assumes "h_start hit < sc_size scan"
  shows "unat (h_start hit) + unat (hit_window scan hit) \<le> unat (sc_size scan)"
    and "hit_window scan hit \<le> h_size hit" and "unat (sc_sector_size scan) dvd unat (hit_window scan hit)"
proof -
  define w where "w = (if hit_truncated (sc_size scan) hit then sc_size scan - h_start hit else h_size hit)"
  have st: "unat (sc_size scan - h_start hit) = unat (sc_size scan) - unat (h_start hit)"
    using assms by (simp add: unat_sub)
  have w: "unat (h_start hit) + unat w \<le> unat (sc_size scan)" "unat w \<le> unat (h_size hit)"
    using assms st hit_truncated_nat [OF assms] by (auto simp: w_def word_less_nat_alt)
  have ss: "unat (ucast (sc_sector_size scan) :: u64) = unat (sc_sector_size scan)" using unsigned_less [of "sc_sector_size scan", where ?'a = nat] by (simp add: unat_ucast_mod)
  have win: "unat (hit_window scan hit) = unat w - unat w mod unat (sc_sector_size scan)"
    by (simp add: hit_window_def Let_def w_def [symmetric] unat_sub word_le_nat_alt unat_mod ss)
  then show "unat (h_start hit) + unat (hit_window scan hit) \<le> unat (sc_size scan)" "hit_window scan hit \<le> h_size hit"
    using w by (simp_all add: word_le_nat_alt)
  show "unat (sc_sector_size scan) dvd unat (hit_window scan hit)"
    unfolding win by (rule dvd_minus_mod)
qed

subsection \<open>The flags\<close>

lemma truncated_fold:
  assumes "\<And>x fl. f x fl AND ROVER_LOST_TRUNCATED = fl AND ROVER_LOST_TRUNCATED"
  shows "fold f xs fl AND ROVER_LOST_TRUNCATED = fl AND ROVER_LOST_TRUNCATED"
  by (induction xs arbitrary: fl) (simp_all add: assms)

lemma truncated_or [simp]:
  "(fl OR ROVER_LOST_BACKUP) AND ROVER_LOST_TRUNCATED = fl AND ROVER_LOST_TRUNCATED"
  "(fl OR ROVER_LOST_VERIFIED) AND ROVER_LOST_TRUNCATED = fl AND ROVER_LOST_TRUNCATED"
  "(fl OR ROVER_LOST_EXISTING) AND ROVER_LOST_TRUNCATED = fl AND ROVER_LOST_TRUNCATED"
  "(fl OR ROVER_LOST_OVERLAP) AND ROVER_LOST_TRUNCATED = fl AND ROVER_LOST_TRUNCATED"
  "(fl OR ROVER_LOST_TABLE) AND ROVER_LOST_TRUNCATED = fl AND ROVER_LOST_TRUNCATED"
  "(fl OR ROVER_LOST_TRUNCATED) AND ROVER_LOST_TRUNCATED = ROVER_LOST_TRUNCATED"
  by (simp_all add: bit.conj_disj_distrib2 ROVER_LOST_BACKUP_def ROVER_LOST_VERIFIED_def ROVER_LOST_EXISTING_def
      ROVER_LOST_OVERLAP_def ROVER_LOST_TABLE_def ROVER_LOST_TRUNCATED_def)

lemma hit_flags_truncated:
  "hit_flags 0 scan hit AND ROVER_LOST_TRUNCATED = (if hit_truncated (sc_size scan) hit then ROVER_LOST_TRUNCATED else 0)"
proof -
  have "range_flags hit r fl AND ROVER_LOST_TRUNCATED = fl AND ROVER_LOST_TRUNCATED" for r fl
    by (simp add: range_flags_def Let_def)
  moreover have "found_flags hit f fl AND ROVER_LOST_TRUNCATED = fl AND ROVER_LOST_TRUNCATED" for f fl
    by (simp add: found_flags_def)
  moreover have "ROVER_LOST_BACKUP AND ROVER_LOST_TRUNCATED = 0" by (simp add: ROVER_LOST_BACKUP_def ROVER_LOST_TRUNCATED_def)
  ultimately show ?thesis by (simp add: hit_flags_def Let_def truncated_fold)
qed

lemma part_of_hit_inside:
  assumes "h_size hit \<noteq> 0" "h_start hit < sc_size scan"
  shows "part_inside (sc_size scan) (sc_sector_size scan) (part_of_hit 0 scan hit)"
proof -
  have "ROVER_LOST_TRUNCATED \<noteq> 0" by (simp add: ROVER_LOST_TRUNCATED_def)
  then show ?thesis
    using assms hit_window_nat [OF assms(2)] hit_truncated_nat [OF assms(2)]
    by (auto simp: part_inside_def part_of_hit_def remap_inside_nat hit_flags_truncated)
qed

text \<open>Reading the window with the drivers changes the name, the label, the uuid and one flag.\<close>

lemma verify_part_inside:
  assumes "verify_part env part scan = Some (part1, scan1)" and "part_inside sz ss part"
  shows "part_inside sz ss part1"
  using assms by (auto simp: verify_part_def Let_def part_inside_def split: if_splits bind_splits)

subsection \<open>A hook that only returns on some partitions\<close>

definition guarded :: "(rover_lost_part \<Rightarrow> bool) \<Rightarrow> 'w lost_env \<Rightarrow> 'w lost_env" where
  "guarded P env = env\<lparr> le_hook := \<lambda>part w. if P part then le_hook env part w else None \<rparr>"

lemma guarded_simps [simp]:
  "le_read (guarded P env) = le_read env" "le_probe (guarded P env) = le_probe env" "le_malloc (guarded P env) = le_malloc env"
  "le_errno (guarded P env) = le_errno env" "le_set_errno (guarded P env) = le_set_errno env" "le_error (guarded P env) = le_error env"
  "le_hook (guarded P env) part w = (if P part then le_hook env part w else None)"
  by (simp_all add: guarded_def)

text \<open>Everything below a report works without the hook.\<close>

lemma guarded_read [simp]: "lost_read (guarded P env) = lost_read env"
  and guarded_grow [simp]: "lost_grow (guarded P env) = lost_grow env"
  unfolding fun_eq_iff lost_read_def lost_grow_def guarded_simps by (intro allI refl)+

lemma guarded_hint: "lost_add_hint (guarded P env) = lost_add_hint env"
  unfolding fun_eq_iff lost_add_hint_def guarded_grow by (intro allI refl)

lemma guarded_add_hints: "add_hints (guarded P env) hs scan = add_hints env hs scan"
proof (induction hs arbitrary: scan)
  case (Cons h hs)
  show ?case unfolding add_hints.simps guarded_hint Cons.IH ..
qed simp

lemma guarded_end_hints: "lost_add_end_hints (guarded P env) = lost_add_end_hints env"
  unfolding fun_eq_iff lost_add_end_hints_def guarded_hint guarded_add_hints by (intro allI refl)

lemma guarded_jump [simp]: "lost_jump (guarded P env) = lost_jump env"
  unfolding fun_eq_iff lost_jump_def guarded_grow by (intro allI refl)

lemma guarded_table: "lost_add_table (guarded P env) = lost_add_table env"
  unfolding fun_eq_iff lost_add_table_def guarded_grow guarded_hint guarded_end_hints by (intro allI refl)

lemma guarded_udf: "udf_loop (guarded P env) s bss scan = udf_loop env s bss scan"
proof (induction bss arbitrary: scan)
  case (Cons bs bss)
  show ?case unfolding udf_loop.simps guarded_read Cons.IH ..
qed simp

lemma guarded_group3: "ext_group3 (guarded P env) s logs scan = ext_group3 env s logs scan"
proof (induction logs arbitrary: scan)
  case (Cons log_bs logs)
  show ?case unfolding ext_group3.simps guarded_read Cons.IH ..
qed simp

lemma guarded_examine: "lost_examine (guarded P env) = lost_examine env"
  unfolding fun_eq_iff lost_examine_def exam_rest_def lost_udf_def guarded_udf guarded_group3 guarded_table
  by (intro allI refl)

lemma guarded_report [simp]:
  "settle_primary (guarded P env) = settle_primary env" "verify_part (guarded P env) = verify_part env"
  "record_found (guarded P env) = record_found env" "step_over (guarded P env) = step_over env"
  "lost_quick_candidate (guarded P env) = lost_quick_candidate env"
  unfolding fun_eq_iff settle_primary_def lost_primary_ok_def verify_part_def record_found_def step_over_def
    lost_quick_candidate_def guarded_simps guarded_read guarded_grow guarded_end_hints guarded_jump guarded_examine
  by (intro allI refl)+

lemma guarded_pieces: "read_pieces (guarded P env) off n scan = read_pieces env off n scan"
proof (induction n arbitrary: off scan rule: less_induct)
  case (less n)
  then show ?case by (subst (1 2) read_pieces.simps) (simp add: Let_def)
qed

lemma guarded_pend_all: "pend_all (guarded P env) hs scan = pend_all env hs scan"
proof (induction hs arbitrary: scan)
  case (Cons h hs)
  show ?case unfolding pend_all.simps lost_pend_def guarded_grow Cons.IH ..
qed simp

lemma guarded_sectors: "deep_sectors (guarded P env) r d b n s c scan = deep_sectors env r d b n s c scan"
proof (induction n arbitrary: s c scan)
  case (Suc n)
  show ?case unfolding deep_sectors.simps guarded_examine guarded_pend_all Suc.IH ..
qed simp

lemma guarded_deep [simp]: "deep_turn (guarded P env) = deep_turn env"
  unfolding fun_eq_iff deep_turn_def lost_deep_chunk_def deep_body_def lost_read_fill_def guarded_read guarded_pieces guarded_sectors
  by (intro allI refl)

subsection \<open>The hook is called with partitions inside the device only\<close>

abbreviation inside_env :: "'w rover_lost_scan \<Rightarrow> 'w lost_env \<Rightarrow> 'w lost_env" where
  "inside_env scan \<equiv> guarded (part_inside (sc_size scan) (sc_sector_size scan))"

lemma report_new_inside:
  assumes "h_size hit \<noteq> 0" "h_start hit < sc_size scan" "sz = sc_size scan" "ss = sc_sector_size scan"
  shows "report_new (guarded (part_inside sz ss) env) hit 0 scan = report_new env hit 0 scan"
proof (cases "verify_part env (part_of_hit 0 scan hit) (claim_tables (h_start hit) scan)")
  case (Some p)
  obtain part scan1 where p: "p = (part, scan1)" by force
  have "part_inside sz ss part"
    using verify_part_inside [OF Some [unfolded p] part_of_hit_inside [OF assms(1,2)]] assms(3,4) by simp
  then show ?thesis unfolding report_new_def guarded_report by (simp add: Some p split: prod.split bool.split)
qed (simp add: report_new_def)

lemma settle_primary_same:
  "settle_primary env hit scan = Some (hit1, scan1) \<Longrightarrow> h_size hit1 = h_size hit \<and> h_start hit1 = h_start hit"
  by (auto simp: settle_primary_def split: if_splits bind_splits)

lemma lost_report_inside:
  assumes env: "env_returns env" and wf: "scan_wf scan" and sz: "sz = sc_size scan" "ss = sc_sector_size scan"
  shows "lost_report (guarded (part_inside sz ss) env) hit 0 scan = lost_report env hit 0 scan"
proof (cases "h_size hit = 0 \<or> h_start hit \<ge> sc_size scan \<or> lost_range_at scan (h_start hit) True \<noteq> None")
  case True
  then show ?thesis by (auto simp: lost_report_def)
next
  case False
  then have ok: "h_size hit \<noteq> 0" "h_start hit < sc_size scan" by auto
  obtain hit1 scan1 where s: "settle_primary env hit scan = Some (hit1, scan1)" and c: "calm scan scan1"
  proof (cases "h_backup hit")
    case True
    obtain b scan1 where "lost_primary_ok env hit scan = Some (b, scan1)" "calm scan scan1"
      using lost_primary_ok_calm [OF env wf, of hit] unfolding returns_calm_def by blast
    then show ?thesis using True that by (auto simp: settle_primary_def)
  qed (use wf that in \<open>auto simp: settle_primary_def\<close>)
  have "report_new (guarded (part_inside sz ss) env) hit1 0 scan1 = report_new env hit1 0 scan1"
    by (rule report_new_inside) (use settle_primary_same [OF s] ok sz calm_sizes(1,2) [OF c] in simp_all)
  then show ?thesis using False s by (simp add: lost_report_def)
qed

lemma report_hits_inside:
  assumes env: "env_returns env"
  shows "scan_wf scan \<Longrightarrow> sz = sc_size scan \<Longrightarrow> ss = sc_sector_size scan \<Longrightarrow>
    report_hits (guarded (part_inside sz ss) env) hs stopped scan = report_hits env hs stopped scan"
proof (induction hs arbitrary: stopped scan)
  case (Cons h hs)
  obtain r scan1 where r: "lost_report env h 0 scan = Some (r, scan1)" and c: "calm scan scan1"
    using lost_report_calm [OF env Cons.prems(1)] unfolding returns_calm_def by blast
  show ?case
    using Cons.IH [OF calm_wf [OF c]] calm_sizes(1,2) [OF c] Cons.prems r
    by (simp add: lost_report_inside [OF env] split: sum.split)
qed simp

lemma finish_turn_inside:
  assumes env: "env_returns env" and wf: "scan_wf scan" and sz: "sz = sc_size scan" "ss = sc_sector_size scan"
  shows "finish_turn (guarded (part_inside sz ss) env) scan = finish_turn env scan"
proof (cases "sc_next_pending scan < length (sc_pending scan)")
  case True
  then show ?thesis using wf sz by (simp add: finish_turn_def lost_report_inside [OF env])
next
  case False
  show ?thesis
  proof (cases "sc_next_table scan = length (sc_tables scan)")
    case more: False
    then have lt: "sc_next_table scan < length (sc_tables scan)" using wf by (simp add: scan_wf_def wf_defs)
    show ?thesis using False table_less(2) [OF lt wf] sz by (simp add: finish_turn_def Let_def lost_report_inside [OF env])
  qed (use False in \<open>simp add: finish_turn_def\<close>)
qed

lemma quick_turn_inside:
  assumes env: "env_returns env" and wf: "scan_wf scan" and sz: "sz = sc_size scan" "ss = sc_sector_size scan"
  shows "quick_turn (guarded (part_inside sz ss) env) s scan = quick_turn env s scan"
proof -
  let ?scan0 = "scan\<lparr> sc_pos := s + 1 \<rparr>"
  obtain c scan1 where c: "lost_quick_candidate env s (lost_range_at ?scan0 s True \<noteq> None) ?scan0 = Some (c, scan1)"
    and calm: "calm ?scan0 scan1"
    using lost_quick_candidate_calm [OF env, of ?scan0 s] wf unfolding returns_calm_def pos_simps by blast
  have "report_hits (guarded (part_inside sz ss) env) hs False scan1 = report_hits env hs False scan1" for hs
    by (rule report_hits_inside [OF env calm_wf [OF calm]]) (use sz calm_sizes(1,2) [OF calm] in simp_all)
  then show ?thesis unfolding quick_turn_def guarded_report Let_def c by (auto split: sum.split)
qed

lemma step_turn_inside:
  assumes env: "env_returns env" and wf: "scan_wf scan" and sz: "sz = sc_size scan" "ss = sc_sector_size scan"
  shows "step_turn (guarded (part_inside sz ss) env) budget stop scan = step_turn env budget stop scan"
  unfolding step_turn_def finish_turn_inside [OF assms] quick_turn_inside [OF assms] guarded_deep ..

lemma step_loop_inside:
  assumes env: "env_returns env"
  shows "scan_wf scan \<Longrightarrow> bounded scan \<Longrightarrow> sz = sc_size scan \<Longrightarrow> ss = sc_sector_size scan \<Longrightarrow>
    step_loop (guarded (part_inside sz ss) env) budget stop scan = step_loop env budget stop scan"
proof (induction scan arbitrary: stop rule: wf_induct_rule [OF wf_progress])
  case (1 scan)
  obtain t stop1 scan1 where s: "step_turn env budget stop scan = Some (t, stop1, scan1)"
    and ok: "turn_ok scan (t, scan1) \<or> t = Turn_Fail \<and> scan_wf scan1"
    using step_turn_ok [OF env "1.prems"(1,2)] by blast
  have rest: "step_loop (guarded (part_inside sz ss) env) budget stop1 scan1 = step_loop env budget stop1 scan1"
    if "t = Turn_Continue"
    using that ok "1.prems" by (intro "1.IH") (auto simp: turn_ok_def steady_def)
  have s': "step_turn (guarded (part_inside sz ss) env) budget stop scan = Some (t, stop1, scan1)"
    using step_turn_inside [OF env "1.prems"(1,3,4)] s by simp
  show ?case
    by (subst (1 2) step_loop.simps) (simp add: s s' rest split: turn.split)
qed

lemma step_inside:
  assumes env: "env_returns env" and wf: "scan_wf scan" "bounded scan"
  shows "rover_lost_scan_step (inside_env scan env) budget scan = rover_lost_scan_step env budget scan"
proof -
  let ?scan = "set_world (le_set_errno env GRUB_ERR_NONE (sc_world scan)) scan"
  have "scan_wf ?scan" "bounded ?scan" using wf by (simp_all add: bounded_def)
  note loop = step_loop_inside [OF env this, where sz = "sc_size scan" and ss = "sc_sector_size scan", simplified]
  show ?thesis unfolding rover_lost_scan_step_def guarded_simps loop ..
qed

end
