(* ===== verification/Lostdisk.thy ===== *)
theory Lostdisk
  imports Lost_State Device Fs
begin

text \<open>
  Lost partitions as devices (\<open>grub/grub-core/disk/lostdisk.c\<close>): a read-only window of another disk
  with byte ranges that are read from elsewhere in the window. The list of the devices is the driver
  state, next to the state \<open>lost_below\<close> of the other drivers. The parent of a device is a handle
  \<open>'p\<close> of an open disk, worked by the functions of the record \<open>parent_ops\<close>: the disk layer's own
  open, close and read. The pointer from an open disk to its device is the device's identifier.
\<close>

subsection \<open>State\<close>

record 'p lostdisk =
  ld_devname :: string
  ld_parent_name :: "string option"
  ld_parent :: 'p
  ld_start :: u64
  ld_sectors :: u64
  ld_remap :: "rover_lost_remap list"
  ld_id :: u64
  ld_refcnt :: u64

record ('p, 'm) lost_disks =
  lostdisk_list :: "'p lostdisk list"
  lostdisk_last_id :: u64
  lost_below :: 'm

type_synonym ('p, 'm) ldstate = "('p, 'm) lost_disks dstate"

record ('p, 'h) parent_ops =
  pd_open :: "string \<Rightarrow> 'h dstate \<Rightarrow> ('p option \<times> 'h dstate) option"
  pd_close :: "'p \<Rightarrow> 'h dstate \<Rightarrow> 'h dstate option"
  pd_disk :: "'p \<Rightarrow> grub_disk"
  pd_read :: "'p \<Rightarrow> u64 \<Rightarrow> u64 \<Rightarrow> u64 \<Rightarrow> 'h dstate \<Rightarrow> (grub_err_t \<times> bytes) \<times> 'h dstate"

type_synonym ('p, 'm) lost_parents = "('p, ('p, 'm) lost_disks) parent_ops"

abbreviation GRUB_DISK_DEVICE_LOST_ID :: u64 where "GRUB_DISK_DEVICE_LOST_ID \<equiv> 18"

definition LOSTDISK_PROBE_NAME :: string where
  "LOSTDISK_PROBE_NAME = ''lostprobe''"

definition set_lost_list :: "'p lostdisk list \<Rightarrow> ('p, 'm) ldstate \<Rightarrow> ('p, 'm) ldstate" where
  "set_lost_list l st = st\<lparr> d_ext := (d_ext st)\<lparr> lostdisk_list := l \<rparr> \<rparr>"

definition lostdisk_find :: "string \<Rightarrow> 'p lostdisk list \<Rightarrow> 'p lostdisk option" where
  "lostdisk_find devname l = find (\<lambda>d. grub_strcmp (ld_devname d) devname = 0) l"

definition find_lost :: "u64 \<Rightarrow> 'p lostdisk list \<Rightarrow> 'p lostdisk option" where
  "find_lost i l = find (\<lambda>d. ld_id d = i) l"

fun update_lost :: "u64 \<Rightarrow> ('p lostdisk \<Rightarrow> 'p lostdisk) \<Rightarrow> 'p lostdisk list \<Rightarrow> 'p lostdisk list" where
  "update_lost i f [] = []"
| "update_lost i f (d # ds) = (if ld_id d = i then f d # ds else d # update_lost i f ds)"

text \<open>Unlinking the device a pointer to the list was moved to: the first one with the property.\<close>

fun unlink_lost :: "('p lostdisk \<Rightarrow> bool) \<Rightarrow> 'p lostdisk list \<Rightarrow> ('p lostdisk \<times> 'p lostdisk list) option" where
  "unlink_lost P [] = None"
| "unlink_lost P (d # ds) = (if P d then Some (d, ds) else map_option (\<lambda>(x, rest). (x, d # rest)) (unlink_lost P ds))"

definition lostdisk_free :: "('p, 'm) lost_parents \<Rightarrow> 'p lostdisk \<Rightarrow> ('p, 'm) ldstate \<Rightarrow> ('p, 'm) ldstate option" where
  "lostdisk_free ops dev st =
     (case ld_parent_name dev of None \<Rightarrow> Some st | Some _ \<Rightarrow> pd_close ops (ld_parent dev) st)"

subsection \<open>Adding and deleting\<close>

definition lostdisk_check_remap :: "u64 \<Rightarrow> rover_lost_remap list \<Rightarrow> 'h dstate \<Rightarrow> grub_err_t \<times> 'h dstate" where
  "lostdisk_check_remap sz remap st =
     (if length remap > ROVER_LOST_REMAP_MAX
      then (GRUB_ERR_BAD_ARGUMENT, raise_error GRUB_ERR_BAD_ARGUMENT ''too many remaps'' st)
      else if list_ex (\<lambda>r. rm_length r = 0 \<or> rm_length r > sz \<or> rm_target r > sz - rm_length r
                         \<or> rm_source r > sz - rm_length r) remap
      then (GRUB_ERR_BAD_ARGUMENT, raise_error GRUB_ERR_BAD_ARGUMENT ''remap is outside the range'' st)
      else (GRUB_ERR_NONE, st))"

text \<open>The label \<open>fail\<close>: the parent is closed and the error kept.\<close>

definition lost_add_fail :: "('p, 'm) lost_parents \<Rightarrow> 'p option \<Rightarrow> ('p, 'm) ldstate \<Rightarrow> (grub_err_t \<times> ('p, 'm) ldstate) option" where
  "lost_add_fail ops disk st =
     (let err = d_errno st
      in map_option (\<lambda>st1. (err, set_errno err st1)) (case disk of None \<Rightarrow> Some st | Some p \<Rightarrow> pd_close ops p st))"

text \<open>Whole sectors of the parent, inside the parent.\<close>

definition whole_sectors :: "grub_disk \<Rightarrow> u64 \<Rightarrow> u64 \<Rightarrow> bool" where
  "whole_sectors disk offset sz \<longleftrightarrow>
     (let sector_size = push_bit (disk_log_sector_size disk) 1 :: u32
      in sz \<noteq> 0 \<and> offset AND ucast (sector_size - 1) = 0 \<and> sz AND ucast (sector_size - 1) = 0)"

definition range_on_disk :: "grub_disk \<Rightarrow> u64 \<Rightarrow> u64 \<Rightarrow> bool" where
  "range_on_disk disk offset sz \<longleftrightarrow>
     (let total = grub_disk_native_sectors disk
      in \<not> (total \<noteq> GRUB_DISK_SIZE_UNKNOWN
            \<and> (drop_bit 9 offset > total \<or> drop_bit 9 sz > total - drop_bit 9 offset)))"

text \<open>The device and the copies of its two names are three requests to the allocator.\<close>

definition lost_alloc :: "('p, 'm) ldstate \<Rightarrow> bool \<times> ('p, 'm) ldstate" where
  "lost_alloc st =
     (case grub_malloc st of
        (False, st1) \<Rightarrow> (False, st1)
      | (True, st1) \<Rightarrow>
          (case grub_malloc st1 of (ok1, st2) \<Rightarrow> case grub_malloc st2 of (ok2, st3) \<Rightarrow> (ok1 \<and> ok2, st3)))"

definition push_lost :: "'p lostdisk \<Rightarrow> ('p, 'm) ldstate \<Rightarrow> ('p, 'm) ldstate" where
  "push_lost dev st =
     st\<lparr> d_ext := (d_ext st)\<lparr> lostdisk_list := dev\<lparr> ld_id := lostdisk_last_id (d_ext st) \<rparr> # lostdisk_list (d_ext st),
                             lostdisk_last_id := lostdisk_last_id (d_ext st) + 1 \<rparr> \<rparr>"

definition rover_lost_add_ex :: "('p, 'm) lost_parents \<Rightarrow> string \<Rightarrow> string \<Rightarrow> u64 \<Rightarrow> u64 \<Rightarrow> rover_lost_remap list
    \<Rightarrow> ('p, 'm) ldstate \<Rightarrow> (grub_err_t \<times> ('p, 'm) ldstate) option" where
  "rover_lost_add_ex ops devname parent offset sz remap st =
     (let st0 = set_errno GRUB_ERR_NONE st
      in if grub_strcmp devname LOSTDISK_PROBE_NAME = 0 \<or> lostdisk_find devname (lostdisk_list (d_ext st0)) \<noteq> None
         then Some (GRUB_ERR_BAD_ARGUMENT, raise_error GRUB_ERR_BAD_ARGUMENT ''device already exists'' st0)
         else case lostdisk_check_remap sz remap st0 of (e, st1) \<Rightarrow>
           if e \<noteq> GRUB_ERR_NONE then Some (d_errno st1, st1)
           else do {
             (disk, st2) \<leftarrow> pd_open ops parent st1;
             case disk of
               None \<Rightarrow> lost_add_fail ops None st2
             | Some p \<Rightarrow>
                 if \<not> whole_sectors (pd_disk ops p) offset sz
                 then lost_add_fail ops disk (raise_error GRUB_ERR_BAD_ARGUMENT ''range is not a multiple of the sectors'' st2)
                 else if \<not> range_on_disk (pd_disk ops p) offset sz
                 then lost_add_fail ops disk (raise_error GRUB_ERR_OUT_OF_RANGE ''range is beyond the end'' st2)
                 else (case lost_alloc st2 of
                    (False, st3) \<Rightarrow> lost_add_fail ops disk st3
                  | (True, st3) \<Rightarrow>
                      Some (GRUB_ERR_NONE, push_lost \<lparr> ld_devname = devname, ld_parent_name = Some parent, ld_parent = p,
                        ld_start = drop_bit 9 offset, ld_sectors = drop_bit 9 sz, ld_remap = remap, ld_id = 0,
                        ld_refcnt = 0 \<rparr> st3)) })"

definition rover_lost_add :: "('p, 'm) lost_parents \<Rightarrow> string \<Rightarrow> string \<Rightarrow> u64 \<Rightarrow> u64 \<Rightarrow> ('p, 'm) ldstate
    \<Rightarrow> (grub_err_t \<times> ('p, 'm) ldstate) option" where
  "rover_lost_add ops devname parent offset sz = rover_lost_add_ex ops devname parent offset sz []"

definition rover_lost_del :: "('p, 'm) lost_parents \<Rightarrow> string \<Rightarrow> ('p, 'm) ldstate \<Rightarrow> (grub_err_t \<times> ('p, 'm) ldstate) option" where
  "rover_lost_del ops devname st =
     (let st0 = set_errno GRUB_ERR_NONE st
      in case unlink_lost (\<lambda>d. ld_parent_name d \<noteq> None \<and> grub_strcmp (ld_devname d) devname = 0)
                (lostdisk_list (d_ext st0)) of
           None \<Rightarrow> Some (GRUB_ERR_BAD_DEVICE, raise_error GRUB_ERR_BAD_DEVICE ''device not found'' st0)
         | Some (dev, rest) \<Rightarrow>
             if ld_refcnt dev > 0
             then Some (GRUB_ERR_STILL_REFERENCED, raise_error GRUB_ERR_STILL_REFERENCED ''device still in use'' st0)
             else do { st1 \<leftarrow> lostdisk_free ops dev (set_lost_list rest st0);
                       Some (GRUB_ERR_NONE, set_errno GRUB_ERR_NONE st1) })"

definition rover_lost_get_parent :: "string \<Rightarrow> ('p, 'm) ldstate \<Rightarrow> string option" where
  "rover_lost_get_parent devname st =
     (case lostdisk_find devname (lostdisk_list (d_ext st)) of None \<Rightarrow> None | Some dev \<Rightarrow> ld_parent_name dev)"

subsection \<open>The driver\<close>

fun iterate_lost :: "(string \<Rightarrow> 'e \<Rightarrow> ('p, 'm) ldstate \<Rightarrow> (bool \<times> 'e \<times> ('p, 'm) ldstate) option) \<Rightarrow> 'p lostdisk list \<Rightarrow> 'e
    \<Rightarrow> ('p, 'm) ldstate \<Rightarrow> (bool \<times> 'e \<times> ('p, 'm) ldstate) option" where
  "iterate_lost hook [] e st = Some (False, e, st)"
| "iterate_lost hook (d # ds) e st =
     (if ld_parent_name d = None then iterate_lost hook ds e st
      else do { (stop, e1, st1) \<leftarrow> hook (ld_devname d) e st;
                if stop then Some (True, e1, st1) else iterate_lost hook ds e1 st1 })"

definition lostdisk_iterate :: "(string \<Rightarrow> 'e \<Rightarrow> ('p, 'm) ldstate \<Rightarrow> (bool \<times> 'e \<times> ('p, 'm) ldstate) option) \<Rightarrow> nat \<Rightarrow> 'e
    \<Rightarrow> ('p, 'm) ldstate \<Rightarrow> (bool \<times> 'e \<times> ('p, 'm) ldstate) option" where
  "lostdisk_iterate hook pull e st =
     (if pull \<noteq> 0 then Some (False, e, st) else iterate_lost hook (lostdisk_list (d_ext st)) e st)"

definition lostdisk_open :: "('p, 'm) lost_parents \<Rightarrow> string \<Rightarrow> grub_disk \<Rightarrow> ('p, 'm) ldstate
    \<Rightarrow> (grub_err_t \<times> grub_disk \<times> ('p, 'm) ldstate) option" where
  "lostdisk_open ops name disk st =
     (case lostdisk_find name (lostdisk_list (d_ext st)) of
        None \<Rightarrow> Some (GRUB_ERR_UNKNOWN_DEVICE, disk, raise_error GRUB_ERR_UNKNOWN_DEVICE ''can't open device'' st)
      | Some dev \<Rightarrow>
          (case grub_add (ld_refcnt dev) 1 of
             None \<Rightarrow> None
           | Some r \<Rightarrow>
               let parent = pd_disk ops (ld_parent dev); log_size = disk_log_sector_size parent
               in Some (GRUB_ERR_NONE,
                    disk\<lparr> disk_log_sector_size := log_size,
                          disk_total_sectors := drop_bit (log_size - 9) (ld_sectors dev),
                          disk_max_agglomerate := disk_max_agglomerate parent,
                          disk_id := ld_id dev \<rparr>,
                    set_lost_list (update_lost (ld_id dev) (\<lambda>d. d\<lparr> ld_refcnt := r \<rparr>) (lostdisk_list (d_ext st))) st)))"

definition lostdisk_close :: "grub_disk \<Rightarrow> ('p, 'm) ldstate \<Rightarrow> ('p, 'm) ldstate option" where
  "lostdisk_close disk st =
     do { dev \<leftarrow> find_lost (disk_id disk) (lostdisk_list (d_ext st));
          r \<leftarrow> grub_sub (ld_refcnt dev) 1;
          Some (set_lost_list (update_lost (disk_id disk) (\<lambda>d. d\<lparr> ld_refcnt := r \<rparr>) (lostdisk_list (d_ext st))) st) }"

text \<open>Storing bytes at a position of a buffer.\<close>

definition overlay :: "nat \<Rightarrow> bytes \<Rightarrow> bytes \<Rightarrow> bytes" where
  "overlay pos new buf = take pos buf @ new @ drop (pos + length new) buf"

text \<open>The loop over the remaps, for a read of the bytes from \<open>first\<close> to \<open>until\<close> of the window at \<open>base\<close>.\<close>

fun overlay_remaps :: "('p, 'm) lost_parents \<Rightarrow> 'p \<Rightarrow> u64 \<Rightarrow> u64 \<Rightarrow> u64 \<Rightarrow> rover_lost_remap list \<Rightarrow> bytes \<Rightarrow> ('p, 'm) ldstate
    \<Rightarrow> (grub_err_t \<times> bytes) \<times> ('p, 'm) ldstate" where
  "overlay_remaps ops parent base first until [] buf st = ((GRUB_ERR_NONE, buf), st)"
| "overlay_remaps ops parent base first until (r # rs) buf st =
     (let from = (if first > rm_target r then first else rm_target r);
          to = (if until < rm_target r + rm_length r then until else rm_target r + rm_length r);
          source = base + rm_source r + (from - rm_target r)
      in if from \<ge> to then overlay_remaps ops parent base first until rs buf st
         else case pd_read ops parent (drop_bit 9 source) (source AND 511) (to - from) st of
                ((e, new), st1) \<Rightarrow>
                  if e \<noteq> GRUB_ERR_NONE then ((d_errno st1, []), st1)
                  else overlay_remaps ops parent base first until rs (overlay (unat (from - first)) new buf) st1)"

text \<open>A dangling pointer to a device is given the error \<open>GRUB_ERR_BUG\<close>; an open disk always has its device.\<close>

definition lostdisk_read :: "('p, 'm) lost_parents \<Rightarrow> ('p, 'm) lost_disks dread" where
  "lostdisk_read ops disk sector n st =
     (case find_lost (disk_id disk) (lostdisk_list (d_ext st)) of
        None \<Rightarrow> ((GRUB_ERR_BUG, []), raise_error GRUB_ERR_BUG ''dangling lost device'' st)
      | Some dev \<Rightarrow>
          let log_size = disk_log_sector_size disk;
              first = push_bit log_size sector;
              until = first + push_bit log_size n
          in case pd_read ops (ld_parent dev) (ld_start dev + push_bit (log_size - 9) sector) 0 (push_bit log_size n) st of
               ((e, buf), st1) \<Rightarrow>
                 if e \<noteq> GRUB_ERR_NONE then ((d_errno st1, []), st1)
                 else overlay_remaps ops (ld_parent dev) (push_bit 9 (ld_start dev)) first until (ld_remap dev) buf st1)"

definition lostdisk_write :: "grub_disk \<Rightarrow> u64 \<Rightarrow> u64 \<Rightarrow> bytes \<Rightarrow> 'h dstate \<Rightarrow> grub_err_t \<times> 'h dstate" where
  "lostdisk_write disk sector n buf st =
     (GRUB_ERR_NOT_IMPLEMENTED_YET, raise_error GRUB_ERR_NOT_IMPLEMENTED_YET ''lostdisk writes are not supported'' st)"

definition grub_lostdisk_start :: "grub_disk \<Rightarrow> ('p, 'm) ldstate \<Rightarrow> u64 option" where
  "grub_lostdisk_start disk st = map_option ld_start (find_lost (disk_id disk) (lostdisk_list (d_ext st)))"

definition grub_lostdisk_dev :: "('p, 'm) lost_parents \<Rightarrow> (('p, 'm) lost_disks, 'd) disk_dev" where
  "grub_lostdisk_dev ops = \<lparr> dev_name = ''lostdisk'', dev_id = GRUB_DISK_DEVICE_LOST_ID,
     dev_iterate = Some lostdisk_iterate, dev_open = lostdisk_open ops, dev_close = Some lostdisk_close,
     dev_read = lostdisk_read ops \<rparr>"

text \<open>The end of the module: the devices are freed from the front of the list.\<close>

fun free_all_lost :: "('p, 'm) lost_parents \<Rightarrow> 'p lostdisk list \<Rightarrow> ('p, 'm) ldstate \<Rightarrow> ('p, 'm) ldstate option" where
  "free_all_lost ops [] st = Some (set_lost_list [] st)"
| "free_all_lost ops (dev # rest) st =
     do { st1 \<leftarrow> lostdisk_free ops dev (set_lost_list rest st); free_all_lost ops rest st1 }"

definition lostdisk_fini :: "('p, 'm) lost_parents \<Rightarrow> (('p, 'm) lost_disks, 'd) disk_dev list \<Rightarrow> ('p, 'm) ldstate
    \<Rightarrow> ((('p, 'm) lost_disks, 'd) disk_dev list \<times> ('p, 'm) ldstate) option" where
  "lostdisk_fini ops devs st =
     map_option (\<lambda>st1. (grub_disk_dev_unregister (grub_lostdisk_dev ops) devs, st1))
       (free_all_lost ops (lostdisk_list (d_ext st)) st)"

subsection \<open>Probing a window\<close>

text \<open>The label or the uuid a driver reads: nothing when it fails.\<close>

definition ask_fs :: "(('h, 'e) grub_device \<Rightarrow> 'h dstate \<Rightarrow> ((grub_err_t \<times> string option) \<times> 'h dstate) option) option
    \<Rightarrow> ('h, 'e) grub_device \<Rightarrow> 'h dstate \<Rightarrow> (string option \<times> 'h dstate) option" where
  "ask_fs f device st =
     (case f of
        None \<Rightarrow> Some (None, st)
      | Some g \<Rightarrow> map_option (\<lambda>((e, s), st1). (if e \<noteq> GRUB_ERR_NONE then None else s, st1)) (g device st))"

text \<open>The device is found by its name, which no other device may have; its entry leaves the list again.\<close>

definition grub_lostdisk_probe :: "(('p, 'm) lost_disks part_read \<Rightarrow> (('p, 'm) lost_disks, grub_partition option) partmaps)
    \<Rightarrow> (('p, 'm) lost_disks, 'd) disk_dev list \<Rightarrow> (('p, 'm) lost_disks, 'f, 'd) grub_fs list
    \<Rightarrow> 'p \<Rightarrow> u64 \<Rightarrow> u64 \<Rightarrow> rover_lost_remap list \<Rightarrow> ('p, 'm) ldstate
    \<Rightarrow> ((grub_err_t \<times> string option \<times> string option \<times> string option) \<times> ('p, 'm) ldstate) option" where
  "grub_lostdisk_probe maps devs fss parent start sectors remap st =
     (case lostdisk_check_remap (push_bit 9 sectors) remap st of (e, st1) \<Rightarrow>
        if e \<noteq> GRUB_ERR_NONE then Some ((d_errno st1, None, None, None), st1)
        else
          let i = lostdisk_last_id (d_ext st1);
              st2 = push_lost \<lparr> ld_devname = LOSTDISK_PROBE_NAME, ld_parent_name = None, ld_parent = parent,
                ld_start = start, ld_sectors = sectors, ld_remap = remap, ld_id = 0, ld_refcnt = 0 \<rparr> st1
          in do {
            (device, st3) \<leftarrow> grub_device_open maps devs None (Some LOSTDISK_PROBE_NAME) st2;
            ((fs_nm, label, uuid), st4) \<leftarrow>
              (case device of
                 None \<Rightarrow> Some ((None, None, None), st3)
               | Some dv \<Rightarrow>
                   do { (fs, s1) \<leftarrow> grub_fs_probe fss dv st3;
                        (res, s2) \<leftarrow>
                          (case fs of
                             None \<Rightarrow> Some ((None, None, None), s1)
                           | Some f \<Rightarrow>
                               do { (label, s3) \<leftarrow> ask_fs (fs_label f) dv s1;
                                    (uuid, s4) \<leftarrow> ask_fs (fs_uuid f) dv (set_errno GRUB_ERR_NONE s3);
                                    Some ((Some (fs_name f), label, uuid), s4) });
                        (_, s5) \<leftarrow> grub_device_close device s2;
                        Some (res, s5) });
            (_, rest) \<leftarrow> unlink_lost (\<lambda>d. ld_id d = i) (lostdisk_list (d_ext st4));
            Some ((if fs_nm \<noteq> None then GRUB_ERR_NONE else GRUB_ERR_UNKNOWN_FS, fs_nm, label, uuid),
                  set_lost_list rest (set_errno GRUB_ERR_NONE st4)) })"

end
