(* ===== verification/Lostdisk_Correct.thy ===== *)
theory Lostdisk_Correct
  imports Lostdisk Procfs
begin

text \<open>
  Correctness of the lost devices: a read of one gives the bytes of its window of the parent, with the
  remapped ranges taken from elsewhere in the window. What the driver needs of reading the parent is
  the locale \<open>parent_disk\<close>; it is interpreted on \<open>grub_disk_read\<close> over the loopback driver.
\<close>

subsection \<open>The content of a window\<close>

text \<open>Where the byte at a position of the window is read: later remaps win over earlier ones.\<close>

definition remap_step :: "nat \<Rightarrow> rover_lost_remap \<Rightarrow> nat \<Rightarrow> nat" where
  "remap_step n r m =
     (if unat (rm_target r) \<le> n \<and> n < unat (rm_target r) + unat (rm_length r)
      then unat (rm_source r) + (n - unat (rm_target r)) else m)"

definition remapped :: "rover_lost_remap list \<Rightarrow> nat \<Rightarrow> nat" where
  "remapped rs n = fold (remap_step n) rs n"

definition window_bytes :: "(nat \<Rightarrow> u8) \<Rightarrow> nat \<Rightarrow> rover_lost_remap list \<Rightarrow> nat \<Rightarrow> nat \<Rightarrow> bytes" where
  "window_bytes img base rs first until = map (\<lambda>n. img (base + remapped rs n)) [first..<until]"

definition remap_fits :: "nat \<Rightarrow> rover_lost_remap \<Rightarrow> bool" where
  "remap_fits window r \<longleftrightarrow> unat (rm_length r) \<noteq> 0 \<and> unat (rm_target r) + unat (rm_length r) \<le> window
     \<and> unat (rm_source r) + unat (rm_length r) \<le> window"

lemma remapped_snoc: "remapped (rs @ [r]) n = remap_step n r (remapped rs n)"
  by (simp add: remapped_def)

lemma remapped_inside: "list_all (remap_fits window) rs \<Longrightarrow> n < window \<Longrightarrow> remapped rs n < window"
proof (induction rs rule: rev_induct)
  case (snoc r rs)
  then show ?case by (auto simp: remapped_snoc remap_step_def remap_fits_def)
qed (simp add: remapped_def)

text \<open>The check of the code is this condition and the bound on the number of remaps.\<close>

lemma check_remap_ok:
  "fst (lostdisk_check_remap sz rs st) = GRUB_ERR_NONE \<longleftrightarrow>
     length rs \<le> ROVER_LOST_REMAP_MAX \<and> list_all (remap_fits (unat sz)) rs"
proof -
  have one: "(rm_length r = 0 \<or> rm_length r > sz \<or> rm_target r > sz - rm_length r \<or> rm_source r > sz - rm_length r)
      = (\<not> remap_fits (unat sz) r)" for r
  proof (cases "rm_length r \<le> sz")
    case True
    then have "unat (sz - rm_length r) = unat sz - unat (rm_length r)" by (rule unat_sub)
    then show ?thesis using True by (auto simp: remap_fits_def word_less_nat_alt word_le_nat_alt unat_eq_0)
  qed (auto simp: remap_fits_def word_le_nat_alt word_less_nat_alt)
  show ?thesis by (auto simp: lostdisk_check_remap_def one list_all_iff list_ex_iff not_less)
qed

text \<open>Laying bytes over a part of a buffer.\<close>

lemma overlay_nth:
  assumes "pos + length new \<le> length buf" "i < length buf"
  shows "overlay pos new buf ! i = (if pos \<le> i \<and> i < pos + length new then new ! (i - pos) else buf ! i)"
  using assms by (auto simp: overlay_def nth_append)

lemma overlay_remap:
  fixes first lo hi until :: nat
  assumes le: "first \<le> lo" "lo < hi" "hi \<le> until" "unat (rm_target r) \<le> lo" "hi \<le> unat (rm_target r) + unat (rm_length r)"
    and out: "\<And>n. first \<le> n \<Longrightarrow> n < lo \<Longrightarrow> n < unat (rm_target r)"
      "\<And>n. hi \<le> n \<Longrightarrow> n < until \<Longrightarrow> unat (rm_target r) + unat (rm_length r) \<le> n"
    and new: "new = map img [base + unat (rm_source r) + (lo - unat (rm_target r))
      ..<base + unat (rm_source r) + (lo - unat (rm_target r)) + (hi - lo)]"
  shows "overlay (lo - first) new (window_bytes img base rs first until) = window_bytes img base (rs @ [r]) first until"
proof (rule nth_equalityI)
  have len: "length new = hi - lo" by (simp add: new)
  show "length (overlay (lo - first) new (window_bytes img base rs first until)) = length (window_bytes img base (rs @ [r]) first until)"
    using le by (simp add: overlay_def len window_bytes_def)
  fix i assume "i < length (overlay (lo - first) new (window_bytes img base rs first until))"
  then have i: "i < until - first" using le by (simp add: overlay_def len window_bytes_def)
  define n where "n = first + i"
  have rhs: "window_bytes img base (rs @ [r]) first until ! i = img (base + remap_step n r (remapped rs n))"
    using i by (simp add: window_bytes_def n_def remapped_snoc)
  have at: "overlay (lo - first) new (window_bytes img base rs first until) ! i =
      (if lo - first \<le> i \<and> i < lo - first + (hi - lo) then new ! (i - (lo - first)) else window_bytes img base rs first until ! i)"
    using overlay_nth [of "lo - first" new "window_bytes img base rs first until" i] i le by (simp add: len window_bytes_def)
  have old: "window_bytes img base rs first until ! i = img (base + remapped rs n)"
    using i by (simp add: window_bytes_def n_def)
  consider (before) "n < lo" | (inside) "lo \<le> n" "n < hi" | (after) "hi \<le> n" by linarith
  then show "overlay (lo - first) new (window_bytes img base rs first until) ! i = window_bytes img base (rs @ [r]) first until ! i"
  proof cases
    case before
    then have "remap_step n r m = m" for m using out(1) [of n] by (simp add: remap_step_def n_def)
    moreover have "\<not> lo - first \<le> i" using before by (simp add: n_def)
    ultimately show ?thesis by (simp add: rhs at old)
  next
    case inside
    then have "remap_step n r m = unat (rm_source r) + (n - unat (rm_target r))" for m using le by (simp add: remap_step_def)
    moreover have "lo - first \<le> i \<and> i < lo - first + (hi - lo)" using inside le unfolding n_def by arith
    moreover have "new ! (i - (lo - first)) = img (base + unat (rm_source r) + (lo - unat (rm_target r)) + (i - (lo - first)))"
      unfolding new using inside le by (subst nth_map) (simp_all add: n_def)
    moreover have "base + unat (rm_source r) + (lo - unat (rm_target r)) + (i - (lo - first)) = base + (unat (rm_source r) + (n - unat (rm_target r)))"
      using inside le by (simp add: n_def)
    ultimately show ?thesis by (simp add: rhs at)
  next
    case after
    moreover have "n < until" using i unfolding n_def by arith
    ultimately have "unat (rm_target r) + unat (rm_length r) \<le> n" by (rule out(2))
    then have "remap_step n r m = m" for m by (simp add: remap_step_def)
    moreover have "\<not> i < lo - first + (hi - lo)" using after le by (simp add: n_def)
    ultimately show ?thesis by (simp add: rhs at old)
  qed
qed

subsection \<open>The contract of the parent\<close>

locale parent_disk =
  fixes ops :: "('p, 'm) lost_parents" and parent :: 'p and img :: "nat \<Rightarrow> u8" and total :: nat
    and inv :: "('p, 'm) ldstate \<Rightarrow> bool" and live :: bool
  assumes parent_read: "inv st \<Longrightarrow> unat sector * 512 + unat off + unat n \<le> total \<Longrightarrow> unat off < 512 \<Longrightarrow> 0 < unat n \<Longrightarrow>
      pd_read ops parent sector off n st = ((e, buf), st') \<Longrightarrow>
      inv st' \<and> (live \<longrightarrow> e = GRUB_ERR_NONE) \<and> (e \<noteq> GRUB_ERR_NONE \<longrightarrow> d_errno st' = e) \<and>
      (e = GRUB_ERR_NONE \<longrightarrow> buf = map img [unat sector * 512 + unat off..<unat sector * 512 + unat off + unat n])"
    and total_small: "total \<le> 2 ^ 63"
begin

text \<open>One remap of the loop.\<close>

lemma overlay_one:
  fixes first until base :: u64
  assumes st: "inv st" and r: "remap_fits window r" and f: "unat until \<le> window"
    and w: "unat base + window \<le> total"
    and from_def: "from = (if first > rm_target r then first else rm_target r)"
    and to_def: "to = (if until < rm_target r + rm_length r then until else rm_target r + rm_length r)"
    and src: "source = base + rm_source r + (from - rm_target r)"
    and lt: "from < to"
    and read: "pd_read ops parent (drop_bit 9 source) (source AND 511) (to - from) st = ((e, new), st1)"
  shows "inv st1 \<and> (live \<longrightarrow> e = GRUB_ERR_NONE) \<and> (e \<noteq> GRUB_ERR_NONE \<longrightarrow> d_errno st1 = e) \<and> (e = GRUB_ERR_NONE \<longrightarrow>
    overlay (unat (from - first)) new (window_bytes img (unat base) rs (unat first) (unat until))
      = window_bytes img (unat base) (rs @ [r]) (unat first) (unat until))"
proof -
  have r': "unat (rm_target r) + unat (rm_length r) \<le> window" "unat (rm_source r) + unat (rm_length r) \<le> window"
    using r by (simp_all add: remap_fits_def)
  have te: "unat (rm_target r + rm_length r) = unat (rm_target r) + unat (rm_length r)"
    using r' w total_small by (simp add: unat_plus_exact)
  have fr: "unat from = max (unat first) (unat (rm_target r))" by (simp add: from_def word_less_nat_alt)
  have to: "unat to = min (unat until) (unat (rm_target r) + unat (rm_length r))" by (simp add: to_def word_less_nat_alt te)
  have lt': "unat from < unat to" using lt by (simp add: word_less_nat_alt)
  have d: "unat (from - rm_target r) = unat from - unat (rm_target r)" "unat (to - from) = unat to - unat from"
    "unat (from - first) = unat from - unat first"
    using fr lt' by (simp_all add: unat_sub word_le_nat_alt)
  let ?s = "unat base + unat (rm_source r) + (unat from - unat (rm_target r))"
  have room: "?s + (unat to - unat from) \<le> unat base + window" using fr to lt' r' by linarith
  have "?s \<le> total" using room lt' w by linarith
  then have "?s < 2 ^ 64" using total_small by simp
  then have b: "unat (base + rm_source r) = unat base + unat (rm_source r)" by (intro unat_plus_exact) simp
  have "unat source = unat (base + rm_source r) + unat (from - rm_target r)"
    unfolding src by (rule unat_plus_exact) (use \<open>?s < 2 ^ 64\<close> in \<open>simp add: b d(1)\<close>)
  then have src': "unat source = ?s" by (simp only: b d(1))
  have "unat (drop_bit 9 source) * 512 + unat (source AND 511) = ?s" "unat (source AND 511) < 512"
    by (simp_all add: unat_drop_bit unat_and_511 src' [symmetric])
  then have p: "inv st1 \<and> (live \<longrightarrow> e = GRUB_ERR_NONE) \<and> (e \<noteq> GRUB_ERR_NONE \<longrightarrow> d_errno st1 = e) \<and> (e = GRUB_ERR_NONE \<longrightarrow> new = map img [?s..<?s + (unat to - unat from)])"
    using parent_read [OF st _ _ _ read] room w lt' by (simp add: d(2))
  have out: "n < unat (rm_target r)" if "unat first \<le> n" "n < unat from" for n using that fr by simp
  have out2: "unat (rm_target r) + unat (rm_length r) \<le> n" if "unat to \<le> n" "n < unat until" for n using that to by simp
  have le: "unat first \<le> unat from" "unat (rm_target r) \<le> unat from" "unat to \<le> unat until"
    "unat to \<le> unat (rm_target r) + unat (rm_length r)"
    unfolding fr to by simp_all
  have "overlay (unat from - unat first) new (window_bytes img (unat base) rs (unat first) (unat until)) =
      window_bytes img (unat base) (rs @ [r]) (unat first) (unat until)" if "e = GRUB_ERR_NONE"
  proof (rule overlay_remap)
    show "new = map img [?s..<?s + (unat to - unat from)]" using p that by blast
  qed (rule le lt' out out2; assumption)+
  then show ?thesis using p by (simp add: d(3))
qed

lemma overlay_remaps_ok:
  fixes first until base :: u64
  assumes f: "unat until \<le> window" and w: "unat base + window \<le> total"
  shows "inv st \<Longrightarrow> list_all (remap_fits window) rs \<Longrightarrow>
    overlay_remaps ops parent base first until rs (window_bytes img (unat base) before (unat first) (unat until)) st = ((e, buf), st') \<Longrightarrow>
    inv st' \<and> (live \<longrightarrow> e = GRUB_ERR_NONE) \<and>
    (e = GRUB_ERR_NONE \<longrightarrow> buf = window_bytes img (unat base) (before @ rs) (unat first) (unat until))"
proof (induction rs arbitrary: before st)
  case (Cons r rs)
  define fr where "fr = (if first > rm_target r then first else rm_target r)"
  define to where "to = (if until < rm_target r + rm_length r then until else rm_target r + rm_length r)"
  define source where "source = base + rm_source r + (fr - rm_target r)"
  have r: "remap_fits window r" "list_all (remap_fits window) rs" using Cons.prems(2) by simp_all
  let ?w = "\<lambda>l. window_bytes img (unat base) l (unat first) (unat until)"
  have IH: "overlay_remaps ops parent base first until rs (?w (before @ [r])) s = ((e, buf), st') \<Longrightarrow> inv s \<Longrightarrow>
      inv st' \<and> (live \<longrightarrow> e = GRUB_ERR_NONE) \<and> (e = GRUB_ERR_NONE \<longrightarrow> buf = ?w (before @ r # rs))" for s
    using Cons.IH [OF _ r(2), of s "before @ [r]"] by simp
  show ?case
  proof (cases "fr \<ge> to")
    case True
    have te: "unat (rm_target r + rm_length r) = unat (rm_target r) + unat (rm_length r)"
      using r(1) w total_small by (intro unat_plus_exact) (simp add: remap_fits_def)
    have "max (unat first) (unat (rm_target r)) \<ge> min (unat until) (unat (rm_target r) + unat (rm_length r))"
      using True by (auto simp: fr_def to_def word_le_nat_alt word_less_nat_alt te split: if_splits)
    then have "remap_step n r m = m" if "n \<in> set [unat first..<unat until]" for n m
      using that by (auto simp: remap_step_def)
    then have eq: "?w (before @ [r]) = ?w before" by (simp add: window_bytes_def remapped_snoc)
    have "overlay_remaps ops parent base first until rs (?w before) st = ((e, buf), st')"
      using Cons.prems(3) True by (simp add: Let_def fr_def [symmetric] to_def [symmetric])
    from IH [unfolded eq, OF this Cons.prems(1)] show ?thesis .
  next
    case False
    then have lt: "fr < to" by simp
    obtain e1 new st1 where rd: "pd_read ops parent (drop_bit 9 source) (source AND 511) (to - fr) st = ((e1, new), st1)"
      by (metis surj_pair)
    note one = overlay_one [OF Cons.prems(1) r(1) f w fr_def to_def source_def lt rd, of before]
    have run: "(if e1 \<noteq> GRUB_ERR_NONE then ((d_errno st1, []), st1)
        else overlay_remaps ops parent base first until rs (overlay (unat (fr - first)) new (?w before)) st1) = ((e, buf), st')"
      using Cons.prems(3) False rd
      by (simp add: Let_def fr_def [symmetric] to_def [symmetric] source_def [symmetric])
    show ?thesis
    proof (cases "e1 = GRUB_ERR_NONE")
      case True
      then have "overlay_remaps ops parent base first until rs (?w (before @ [r])) st1 = ((e, buf), st')" using run one by simp
      from IH [OF this] one show ?thesis by blast
    next
      case False
      then show ?thesis using run one by auto
    qed
  qed
qed simp

text \<open>The device and the disk that was opened on it.\<close>

lemma lostdisk_read_ok:
  assumes st: "inv st" and dev: "find_lost (disk_id disk) (lostdisk_list (d_ext st)) = Some dev" "ld_parent dev = parent"
    and lss: "9 \<le> disk_log_sector_size disk" "disk_log_sector_size disk \<le> 15"
    and window: "unat (ld_start dev) * 512 + unat (ld_sectors dev) * 512 \<le> total"
    and remaps: "list_all (remap_fits (unat (ld_sectors dev) * 512)) (ld_remap dev)"
    and n: "0 < unat n" "(unat sector + unat n) * 2 ^ disk_log_sector_size disk \<le> unat (ld_sectors dev) * 512"
    and run: "lostdisk_read ops disk sector n st = ((e, buf), st')"
  shows "inv st' \<and> (live \<longrightarrow> e = GRUB_ERR_NONE) \<and> (e = GRUB_ERR_NONE \<longrightarrow>
    buf = window_bytes img (unat (ld_start dev) * 512) (ld_remap dev)
      (unat sector * 2 ^ disk_log_sector_size disk) ((unat sector + unat n) * 2 ^ disk_log_sector_size disk))"
proof -
  let ?l = "disk_log_sector_size disk" and ?b = "push_bit 9 (ld_start dev)"
  define L K :: nat where "L = 2 ^ ?l" and "K = 2 ^ (?l - 9)"
  have LK: "L = K * 512" using lss(1) power_add [of "2 :: nat" "?l - 9" 9] by (simp add: L_def K_def)
  have t: "total < 2 ^ 64" using total_small by simp
  have sum: "unat sector * L + unat n * L \<le> unat (ld_sectors dev) * 512"
    using n(2) unfolding L_def [symmetric] by (simp only: add_mult_distrib)
  have small: "unat sector * L + unat n * L < 2 ^ 64" "unat (ld_start dev) * 512 < 2 ^ 64" using sum window t by linarith+
  have b: "unat ?b = unat (ld_start dev) * 512" using small(2) by (subst unat_push_bit_exact) simp_all
  have "unat sector * L < 2 ^ 64" "unat n * L < 2 ^ 64" using small(1) by linarith+
  then have f: "unat (push_bit ?l sector) = unat sector * L" "unat (push_bit ?l n) = unat n * L"
    unfolding L_def by (intro unat_push_bit_exact; simp)+
  have u: "unat (push_bit ?l sector + push_bit ?l n) = unat sector * L + unat n * L"
    using small(1) by (subst unat_plus_exact) (simp_all add: f)
  have "unat sector * K \<le> unat sector * L" by (simp add: LK)
  then have "unat sector * K < 2 ^ 64" using small(1) by linarith
  then have h: "unat (push_bit (?l - 9) sector) = unat sector * K"
    unfolding K_def by (intro unat_push_bit_exact; simp)
  have "unat (ld_start dev) + unat sector * K < 2 ^ 64" using sum window t unfolding LK by linarith
  then have s: "unat (ld_start dev + push_bit (?l - 9) sector) = unat (ld_start dev) + unat sector * K"
    by (subst unat_plus_exact) (simp_all add: h)
  obtain e1 buf1 st1 where rd: "pd_read ops parent (ld_start dev + push_bit (?l - 9) sector) 0 (push_bit ?l n) st = ((e1, buf1), st1)"
    by (metis surj_pair)
  have at: "unat (ld_start dev + push_bit (?l - 9) sector) * 512 + unat (0 :: u64) = unat ?b + unat sector * L"
    unfolding s b LK by (simp add: algebra_simps)
  have room: "unat (ld_start dev + push_bit (?l - 9) sector) * 512 + unat (0 :: u64) + unat (push_bit ?l n) \<le> total"
    unfolding at f(2) using sum window b by linarith
  have pos: "0 < unat (push_bit ?l n)" using n(1) by (simp add: f(2) L_def)
  have plain: "window_bytes img x [] i j = map img [x + i..<x + j]" for x i j
    by (rule nth_equalityI) (simp_all add: window_bytes_def remapped_def add.assoc)
  have one: "inv st1 \<and> (live \<longrightarrow> e1 = GRUB_ERR_NONE) \<and> (e1 \<noteq> GRUB_ERR_NONE \<longrightarrow> d_errno st1 = e1) \<and> (e1 = GRUB_ERR_NONE \<longrightarrow>
      buf1 = window_bytes img (unat ?b) [] (unat (push_bit ?l sector)) (unat (push_bit ?l sector + push_bit ?l n)))"
    using parent_read [OF st room _ pos rd] unfolding at plain u f by (simp add: add.assoc)
  have run': "(if e1 \<noteq> GRUB_ERR_NONE then ((d_errno st1, []), st1)
      else overlay_remaps ops parent ?b (push_bit ?l sector) (push_bit ?l sector + push_bit ?l n) (ld_remap dev) buf1 st1) = ((e, buf), st')"
    using run unfolding lostdisk_read_def dev option.case Let_def rd prod.case .
  show ?thesis
  proof (cases "e1 = GRUB_ERR_NONE")
    case True
    note rest = overlay_remaps_ok [where first = "push_bit ?l sector" and until = "push_bit ?l sector + push_bit ?l n"
        and window = "unat (ld_sectors dev) * 512" and base = ?b and before = "[]" and rs = "ld_remap dev" and st = st1]
    have "overlay_remaps ops parent ?b (push_bit ?l sector) (push_bit ?l sector + push_bit ?l n) (ld_remap dev)
        (window_bytes img (unat ?b) [] (unat (push_bit ?l sector)) (unat (push_bit ?l sector + push_bit ?l n))) st1 = ((e, buf), st')"
      using run' one True by simp
    with rest [OF _ _ _ remaps this] one sum window show ?thesis
      unfolding u f b L_def [symmetric] by (simp add: add_mult_distrib)
  next
    case False
    then show ?thesis using run' one by auto
  qed
qed

end

subsection \<open>Parents that are disks of another driver\<close>

text \<open>
  The part of the state the other drivers see, and the state after they worked on it. A driver of the
  layer below is lifted to the state that has the list of the lost devices as well.
\<close>

definition below :: "('p, 'm) ldstate \<Rightarrow> 'm dstate" where
  "below st = \<lparr> d_err = d_err st, d_cache = d_cache st, read_recursion_depth = read_recursion_depth st,
     d_malloc = d_malloc st, d_malloc_calls = d_malloc_calls st, d_proc = d_proc st, grub_last_time = grub_last_time st,
     d_time = d_time st, d_time_calls = d_time_calls st, d_ext = lost_below (d_ext st) \<rparr>"

definition above :: "('p, 'm) lost_disks \<Rightarrow> 'm dstate \<Rightarrow> ('p, 'm) ldstate" where
  "above ld st = \<lparr> d_err = d_err st, d_cache = d_cache st, read_recursion_depth = read_recursion_depth st,
     d_malloc = d_malloc st, d_malloc_calls = d_malloc_calls st, d_proc = d_proc st, grub_last_time = grub_last_time st,
     d_time = d_time st, d_time_calls = d_time_calls st, d_ext = ld\<lparr> lost_below := d_ext st \<rparr> \<rparr>"

definition lift_below :: "'m dread \<Rightarrow> ('p, 'm) lost_disks dread" where
  "lift_below dread disk s n st = (case dread disk s n (below st) of (r, st1) \<Rightarrow> (r, above (d_ext st) st1))"

lemma below_simps [simp]:
  "below (above ld s) = s" "d_errno (below st) = d_errno st"
  "cache_inv c good (below st) = cache_inv c (\<lambda>ld. good (lost_below ld)) st"
  "cache_inv c (\<lambda>ld. good (lost_below ld)) (above ld s) = cache_inv c good s"
  "quiet live (below st) = quiet live st" "quiet live (above ld s) = quiet live s" "d_errno (above ld s) = d_errno s"
  "loose_frame st (above ld s) = loose_frame (below st) s"
  by (simp_all add: below_def above_def d_errno_def cache_inv_def quiet_def loose_frame_def)

lemma lift_device:
  fixes dread :: "'m dread"
  assumes "disk_device dread content good served live"
  shows "disk_device (lift_below dread :: ('p, 'm) lost_disks dread) content (\<lambda>ld. good (lost_below ld)) served live"
proof (rule disk_device.intro)
  fix disk :: grub_disk and s n :: u64 and st st' :: "('p, 'm) ldstate" and e buf
  obtain r st1 where r: "dread disk s n (below st) = (r, st1)" by (rule prod.exhaust)
  then have l: "lift_below dread disk s n st = (r, above (d_ext st) st1)" by (simp add: lift_below_def)
  assume a: "served disk"
  show "geometry_ok disk" by (rule disk_device.served_geometry [OF assms a])
  show "lift_below dread disk s n st = ((e, buf), st') \<Longrightarrow> e \<noteq> GRUB_ERR_NONE \<Longrightarrow> d_errno st' = e"
    using disk_device.dread_error [OF assms a] r l by auto
  assume b: "cache_inv content (\<lambda>ld. good (lost_below ld)) st" "in_device disk ((unat s + unat n) * 2 ^ disk_log_sector_size disk)"
  then have b': "cache_inv content good (below st)" by simp
  show "lift_below dread disk s n st = ((GRUB_ERR_NONE, buf), st') \<Longrightarrow>
      buf = content_bytes content (disk_dev_id disk) (disk_id disk)
        (unat s * 2 ^ disk_log_sector_size disk) (unat n * 2 ^ disk_log_sector_size disk)"
    using disk_device.dread_data [OF assms a b' b(2)] r l by auto
  show "cache_inv content (\<lambda>ld. good (lost_below ld)) (snd (lift_below dread disk s n st)) \<and>
      loose_frame st (snd (lift_below dread disk s n st))"
    using disk_device.dread_inv [OF assms a b' b(2)] r l by simp
  show "0 < unat n \<Longrightarrow> quiet live st \<Longrightarrow> fst (fst (lift_below dread disk s n st)) = GRUB_ERR_NONE \<and>
      quiet live (snd (lift_below dread disk s n st))"
    using disk_device.dread_live [OF assms a b' b(2)] r l by simp
qed

definition parent_ok :: "content \<Rightarrow> ('m \<Rightarrow> bool) \<Rightarrow> ('p, 'm) ldstate \<Rightarrow> bool" where
  "parent_ok content good st \<longleftrightarrow> cache_inv content (\<lambda>ld. good (lost_below ld)) st \<and> quiet True st
     \<and> length (error_stack (d_err st)) < GRUB_ERROR_STACK_SIZE \<and> Suc (read_recursion_depth st) < MAX_READ_RECURSION_DEPTH"

text \<open>
  The parent is an open disk without a partition, read by the disk layer over the lifted driver. The
  operations that open and close it are arguments; a read does not use them.
\<close>

definition disk_parents :: "(string \<Rightarrow> (grub_disk, 'm) ldstate \<Rightarrow> (grub_disk option \<times> (grub_disk, 'm) ldstate) option)
    \<Rightarrow> (grub_disk \<Rightarrow> (grub_disk, 'm) ldstate \<Rightarrow> (grub_disk, 'm) ldstate option) \<Rightarrow> 'm dread \<Rightarrow> (grub_disk, 'm) lost_parents" where
  "disk_parents popen pclose dread = \<lparr> pd_open = popen, pd_close = pclose, pd_disk = (\<lambda>disk. disk),
     pd_read = (\<lambda>disk sector off n st. the (grub_disk_read (lift_below dread) None disk sector off n st)) \<rparr>"

lemma disk_parent_read:
  assumes dev: "hooked_device dread content good served True None" and p: "served p" "disk_partition p = []"
    and st: "parent_ok content good st" and r: "unat sector * 512 + unat off + unat n \<le> unat (clamped_total p) * 512"
    and off: "unat off < 512" and n: "0 < unat n"
  shows "\<exists>st'. grub_disk_read (lift_below dread) None p sector off n st = Some ((GRUB_ERR_NONE,
      map (content (disk_dev_id p) (disk_id p)) [unat sector * 512 + unat off..<unat sector * 512 + unat off + unat n]), st')
    \<and> parent_ok content good st'"
proof -
  have "disk_device dread content good served True" using dev by (simp add: hooked_device_def)
  from lift_device [OF this] have hd: "hooked_device (lift_below dread) content (\<lambda>ld. good (lost_below ld)) served True None"
    by (simp add: hooked_device_def hooked_device_axioms_def)
  have c: "unat (clamped_total p) \<le> 2 ^ 51" by (simp add: clamped_total_def Let_def word_less_nat_alt not_less word_le_nat_alt)
  then have small: "unat n + 1022 < 2 ^ 64" using r by simp
  have d9: "drop_bit 9 off = 0" "off AND 511 = off"
    using off by (simp_all add: unat_drop_bit unat_and_511 word_unat_eq_iff)
  have "unat sector < unat (clamped_total p)" "unat sector + span off n \<le> unat (clamped_total p)"
    using r n off unfolding span_def by linarith+
  then have a: "grub_disk_adjust_range p sector off n = Some (sector, off)"
    by (simp add: adjust_range_iff [OF small] p d9)
  show ?thesis
    using hooked_device.disk_read_ok [OF hd p(1) _ _ _ small a, of st] st n
    by (auto simp: parent_ok_def content_bytes_def loose_frame_def)
qed

subsection \<open>Parents behind the loopback driver\<close>

definition loop_parent_ok :: "bytes loop_state \<Rightarrow> grub_disk \<Rightarrow> ('p, bytes loop_state) ldstate \<Rightarrow> bool" where
  "loop_parent_ok ls p st \<longleftrightarrow> loop_served (loop_devs ls) p \<and> disk_partition p = [] \<and> parent_ok (loop_content ls) (loop_good ls) st"

interpretation loop_parent: parent_disk "disk_parents popen pclose (grub_loopback_read grub_procfs_read q)" p
    "loop_content ls (disk_dev_id p) (disk_id p)" "unat (clamped_total p) * 512" "loop_parent_ok ls p" True
  for ls p q popen pclose
proof (rule parent_disk.intro)
  have c: "unat (clamped_total p) \<le> 2 ^ 51" by (simp add: clamped_total_def Let_def word_less_nat_alt not_less word_le_nat_alt)
  then show "unat (clamped_total p) * 512 \<le> 2 ^ 63" by simp
  fix st st' :: "(grub_disk, bytes loop_state) ldstate" and sector off n :: u64 and e buf
  assume a: "loop_parent_ok ls p st" "unat sector * 512 + unat off + unat n \<le> unat (clamped_total p) * 512" "unat off < 512" "0 < unat n"
    and run: "pd_read (disk_parents popen pclose (grub_loopback_read grub_procfs_read q)) p sector off n st = ((e, buf), st')"
  have p: "loop_served (loop_devs ls) p" "disk_partition p = []" "parent_ok (loop_content ls) (loop_good ls) st"
    using a(1) by (simp_all add: loop_parent_ok_def)
  from disk_parent_read [OF procfs_hooked.hooked_device_axioms p a(2-4), of q] run
  show "loop_parent_ok ls p st' \<and> (True \<longrightarrow> e = GRUB_ERR_NONE) \<and> (e \<noteq> GRUB_ERR_NONE \<longrightarrow> d_errno st' = e) \<and>
      (e = GRUB_ERR_NONE \<longrightarrow> buf = map (loop_content ls (disk_dev_id p) (disk_id p))
         [unat sector * 512 + unat off..<unat sector * 512 + unat off + unat n])"
    using p by (auto simp: disk_parents_def loop_parent_ok_def)
qed

end
