(* ===== verification/Lostdisk_List.thy ===== *)
theory Lostdisk_List
  imports Lostdisk_Correct Misc_Correct
begin

text \<open>
  The list of the lost devices: their names and identifiers are distinct, each is a window of whole
  sectors with remaps inside it, and every operation of the driver keeps this.
\<close>

definition lost_dev_ok :: "('p, 'm) lost_parents \<Rightarrow> 'p lostdisk \<Rightarrow> bool" where
  "lost_dev_ok ops d \<longleftrightarrow> CHR 0x00 \<notin> set (ld_devname d) \<and> ld_devname d \<noteq> LOSTDISK_PROBE_NAME \<and> ld_parent_name d \<noteq> None
     \<and> ld_sectors d \<noteq> 0 \<and> unat (ld_start d) < 2 ^ 55 \<and> unat (ld_sectors d) < 2 ^ 55
     \<and> length (ld_remap d) \<le> ROVER_LOST_REMAP_MAX \<and> list_all (remap_fits (unat (ld_sectors d) * 512)) (ld_remap d)
     \<and> (let total = grub_disk_native_sectors (pd_disk ops (ld_parent d))
        in total \<noteq> GRUB_DISK_SIZE_UNKNOWN \<longrightarrow> unat (ld_start d) + unat (ld_sectors d) \<le> unat total)"

definition lost_list_ok :: "('p, 'm) lost_parents \<Rightarrow> ('p, 'm) lost_disks \<Rightarrow> bool" where
  "lost_list_ok ops ld \<longleftrightarrow> distinct (map ld_devname (lostdisk_list ld)) \<and> distinct (map ld_id (lostdisk_list ld))
     \<and> (\<forall>d \<in> set (lostdisk_list ld). lost_dev_ok ops d \<and> ld_id d < lostdisk_last_id ld)"

text \<open>The disk layer below may open lost devices as parents, which counts references and nothing else.\<close>

definition uncounted :: "'p lostdisk \<Rightarrow> 'p lostdisk" where
  "uncounted d = d\<lparr> ld_refcnt := 0 \<rparr>"

definition same_devices :: "('p, 'm) lost_disks \<Rightarrow> ('p, 'm) lost_disks \<Rightarrow> bool" where
  "same_devices a b \<longleftrightarrow> map uncounted (lostdisk_list b) = map uncounted (lostdisk_list a) \<and> lostdisk_last_id b = lostdisk_last_id a"

definition parents_keep :: "('p, 'm) lost_parents \<Rightarrow> bool" where
  "parents_keep ops \<longleftrightarrow>
     (\<forall>name st p st'. pd_open ops name st = Some (p, st') \<longrightarrow> same_devices (d_ext st) (d_ext st')) \<and>
     (\<forall>p st st'. pd_close ops p st = Some st' \<longrightarrow> same_devices (d_ext st) (d_ext st')) \<and>
     (\<forall>name st p st'. pd_open ops name st = Some (Some p, st') \<longrightarrow>
        9 \<le> disk_log_sector_size (pd_disk ops p) \<and> disk_log_sector_size (pd_disk ops p) < 32)"

lemma same_devices_refl: "same_devices a a"
  by (simp add: same_devices_def)

lemma same_devices_trans: "same_devices a b \<Longrightarrow> same_devices b c \<Longrightarrow> same_devices a c"
  by (simp add: same_devices_def)

lemma uncounted_simps [simp]:
  "ld_devname (uncounted d) = ld_devname d" "ld_id (uncounted d) = ld_id d" "lost_dev_ok ops (uncounted d) = lost_dev_ok ops d"
  by (simp_all add: uncounted_def lost_dev_ok_def)

lemma lost_list_ok_uncounted:
  "lost_list_ok ops ld \<longleftrightarrow> distinct (map ld_devname (map uncounted (lostdisk_list ld))) \<and>
     distinct (map ld_id (map uncounted (lostdisk_list ld))) \<and>
     (\<forall>d \<in> set (map uncounted (lostdisk_list ld)). lost_dev_ok ops d \<and> ld_id d < lostdisk_last_id ld)"
  by (simp add: lost_list_ok_def comp_def)

lemma same_devices_ok: "same_devices a b \<Longrightarrow> lost_list_ok ops a \<Longrightarrow> lost_list_ok ops b"
  unfolding lost_list_ok_uncounted same_devices_def by metis

lemma same_devices_names: "same_devices a b \<Longrightarrow> map ld_devname (lostdisk_list b) = map ld_devname (lostdisk_list a)"
proof -
  assume "same_devices a b"
  then have "map ld_devname (map uncounted (lostdisk_list b)) = map ld_devname (map uncounted (lostdisk_list a))"
    by (simp add: same_devices_def)
  then show ?thesis by (simp add: comp_def)
qed

subsection \<open>Finding, updating and unlinking\<close>

lemma lostdisk_find_name:
  assumes "\<forall>d \<in> set l. CHR 0x00 \<notin> set (ld_devname d)" "CHR 0x00 \<notin> set name"
  shows "lostdisk_find name l = find (\<lambda>d. ld_devname d = name) l"
  using assms by (induction l) (auto simp: lostdisk_find_def strcmp_zero_iff)

lemma lostdisk_find_None:
  assumes "\<forall>d \<in> set l. CHR 0x00 \<notin> set (ld_devname d)" "CHR 0x00 \<notin> set name"
  shows "lostdisk_find name l = None \<longleftrightarrow> name \<notin> set (map ld_devname l)"
  unfolding lostdisk_find_name [OF assms] by (auto simp: find_None_iff)

lemma update_refcnt_same: "map uncounted (update_lost i (\<lambda>d. d\<lparr> ld_refcnt := r \<rparr>) l) = map uncounted l"
  by (induction l) (auto simp: uncounted_def)

lemma find_lost_id: "distinct (map ld_id l) \<Longrightarrow> d \<in> set l \<Longrightarrow> find_lost (ld_id d) l = Some d"
  unfolding find_lost_def by (induction l) auto

lemma find_lost_update:
  "find_lost i l = Some d \<Longrightarrow> find_lost i (update_lost i (\<lambda>d. d\<lparr> ld_refcnt := r \<rparr>) l) = Some (d\<lparr> ld_refcnt := r \<rparr>)"
  unfolding find_lost_def by (induction l) (auto split: if_splits)

lemma unlink_lost_Some:
  assumes "unlink_lost P l = Some (d, rest)"
  shows "d \<in> set l \<and> P d \<and> (\<exists>before after. l = before @ d # after \<and> rest = before @ after)"
  using assms
proof (induction l arbitrary: rest)
  case (Cons x l)
  show ?case
  proof (cases "P x")
    case False
    then obtain rest1 where r: "unlink_lost P l = Some (d, rest1)" "rest = x # rest1" using Cons.prems by auto
    from Cons.IH [OF r(1)] obtain b a where "l = b @ d # a" "rest1 = b @ a" "P d" by blast
    then show ?thesis using r(2) by (intro conjI exI [of _ "x # b"] exI [of _ a]) auto
  qed (use Cons.prems in auto)
qed simp

lemma unlink_ok:
  assumes "unlink_lost P (lostdisk_list ld) = Some (d, rest)" and "lost_list_ok ops ld"
  shows "lost_list_ok ops (ld\<lparr> lostdisk_list := rest \<rparr>) \<and> ld_devname d \<notin> set (map ld_devname rest)"
proof -
  obtain b a where "lostdisk_list ld = b @ d # a" "rest = b @ a" using unlink_lost_Some [OF assms(1)] by blast
  then show ?thesis using assms(2) by (auto simp: lost_list_ok_def)
qed

subsection \<open>The check of a new device\<close>

lemma sector_mask:
  assumes "9 \<le> k" "k < 32" "x AND ucast (push_bit k 1 - 1 :: u32) = (0 :: u64)"
  shows "unat x mod 512 = 0"
proof -
  have "(push_bit k 1 - 1 :: u32) = mask k" by (simp add: mask_eq_exp_minus_1)
  then have "x AND mask k = 0" using assms(2,3) by (simp add: ucast_mask_eq min_def)
  then have "unat x mod 2 ^ k = 0" using unat_and_mask [of x k] by simp
  then have "2 ^ k dvd unat x" by (simp add: dvd_eq_mod_eq_0)
  moreover have "(512 :: nat) dvd 2 ^ k" using le_imp_power_dvd [OF assms(1), of "2 :: nat"] by simp
  ultimately show ?thesis by (meson dvd_eq_mod_eq_0 dvd_trans)
qed

lemma new_device_ok:
  assumes name: "CHR 0x00 \<notin> set devname" "grub_strcmp devname LOSTDISK_PROBE_NAME \<noteq> 0"
    and check: "fst (lostdisk_check_remap sz remap st) = GRUB_ERR_NONE"
    and disk: "9 \<le> disk_log_sector_size (pd_disk ops p)" "disk_log_sector_size (pd_disk ops p) < 32"
    and whole: "whole_sectors (pd_disk ops p) offset sz" and inside: "range_on_disk (pd_disk ops p) offset sz"
  shows "lost_dev_ok ops \<lparr> ld_devname = devname, ld_parent_name = Some parent, ld_parent = p, ld_start = drop_bit 9 offset,
    ld_sectors = drop_bit 9 sz, ld_remap = remap, ld_id = i, ld_refcnt = 0 \<rparr>"
proof -
  let ?total = "grub_disk_native_sectors (pd_disk ops p)"
  have "unat sz mod 512 = 0" and nz: "sz \<noteq> 0"
    using whole sector_mask [OF disk, of sz] by (simp_all add: whole_sectors_def Let_def)
  then have sz: "unat (drop_bit 9 sz) * 512 = unat sz" by (simp add: unat_drop_bit) (metis dvd_div_mult_self dvd_eq_mod_eq_0)
  have "unat sz \<noteq> 0" using nz by (simp add: unat_eq_0)
  then have s0: "drop_bit 9 sz \<noteq> 0" using sz by (metis mult_0 unsigned_0)
  have small: "unat (drop_bit 9 x) < 2 ^ 55" for x :: u64
    using unsigned_less [of x, where ?'a = nat] by (simp add: unat_drop_bit)
  have total: "unat (drop_bit 9 offset) + unat (drop_bit 9 sz) \<le> unat ?total" if "?total \<noteq> GRUB_DISK_SIZE_UNKNOWN"
  proof -
    have le: "drop_bit 9 offset \<le> ?total" "drop_bit 9 sz \<le> ?total - drop_bit 9 offset"
      using inside that by (auto simp: range_on_disk_def Let_def)
    then show ?thesis by (simp add: word_le_nat_alt unat_sub [OF le(1)])
  qed
  have "devname \<noteq> LOSTDISK_PROBE_NAME" using name strcmp_zero_iff [OF name(1)] by (auto simp: LOSTDISK_PROBE_NAME_def)
  then show ?thesis
    using check_remap_ok [of sz remap st] check name(1) s0 small total by (simp add: lost_dev_ok_def sz Let_def)
qed

lemma push_lost_ok:
  assumes ok: "lost_list_ok ops (d_ext st)" and dev: "lost_dev_ok ops (dev\<lparr> ld_id := lostdisk_last_id (d_ext st) \<rparr>)"
    and new: "ld_devname dev \<notin> set (map ld_devname (lostdisk_list (d_ext st)))" and last: "lostdisk_last_id (d_ext st) \<noteq> NOT 0"
  shows "lost_list_ok ops (d_ext (push_lost dev st))"
proof -
  let ?i = "lostdisk_last_id (d_ext st)"
  have m: "unat (NOT 0 :: u64) = 2 ^ 64 - 1" by (simp add: unsigned_minus_1_eq_mask mask_eq_exp_minus_1)
  have "unat ?i \<noteq> 2 ^ 64 - 1" using last unfolding m [symmetric] by (metis word_unat_eq_iff)
  then have "unat ?i + 1 < 2 ^ 64" using unsigned_less [of ?i, where ?'a = nat] by simp
  then have "unat (?i + 1) = unat ?i + 1" by (simp add: unat_plus_exact)
  then have lt: "?i < ?i + 1" by (simp add: word_less_nat_alt)
  have "d \<in> set (lostdisk_list (d_ext st)) \<Longrightarrow> ld_id d < ?i \<and> ld_id d \<noteq> ?i \<and> ld_id d < ?i + 1" for d
    using ok lt by (fastforce simp: lost_list_ok_def)
  then have "\<forall>d \<in> set (lostdisk_list (d_ext st)). ld_id d < ?i \<and> ld_id d \<noteq> ?i \<and> ld_id d < ?i + 1" by blast
  moreover from this have "?i \<notin> set (map ld_id (lostdisk_list (d_ext st)))" by (auto simp del: word_not_simps)
  ultimately show ?thesis using ok dev new lt by (auto simp: push_lost_def lost_list_ok_def)
qed

subsection \<open>The operations\<close>

lemma d_ext_simps [simp]:
  "d_ext (set_errno e st) = d_ext st" "d_ext (raise_error e msg st) = d_ext st"
  by (simp_all add: set_errno_def raise_error_def)

lemma check_remap_ext: "lostdisk_check_remap sz remap st = (e, st1) \<Longrightarrow> d_ext st1 = d_ext st"
  by (auto simp: lostdisk_check_remap_def split: if_splits)

lemma lost_alloc_ext: "lost_alloc st = (ok, st1) \<Longrightarrow> d_ext st1 = d_ext st"
  by (auto simp: lost_alloc_def dest!: grub_malloc_step(5) split: prod.splits bool.splits)

lemma add_fail_same:
  assumes keep: "parents_keep ops" and run: "lost_add_fail ops disk st = Some (e, st')"
  shows "same_devices (d_ext st) (d_ext st')"
  using run keep by (cases disk) (auto simp: lost_add_fail_def Let_def parents_keep_def same_devices_refl)

lemma free_same:
  assumes keep: "parents_keep ops" and run: "lostdisk_free ops dev st = Some st'"
  shows "same_devices (d_ext st) (d_ext st')"
  using run keep by (auto simp: lostdisk_free_def parents_keep_def same_devices_refl split: option.splits)

text \<open>A device that was added is found by its name; when nothing was added the devices are the same.\<close>

lemma lost_add_cases:
  assumes ok: "lost_list_ok ops (d_ext st)" and keep: "parents_keep ops" and name: "CHR 0x00 \<notin> set devname"
    and last: "lostdisk_last_id (d_ext st) \<noteq> NOT 0"
    and run: "rover_lost_add_ex ops devname parent offset sz remap st = Some (e, st')"
  shows "lost_list_ok ops (d_ext st') \<and> (same_devices (d_ext st) (d_ext st') \<or>
    e = GRUB_ERR_NONE \<and> devname \<notin> set (map ld_devname (lostdisk_list (d_ext st))) \<and> (\<exists>dev. lostdisk_find devname (lostdisk_list (d_ext st')) = Some dev \<and>
      ld_parent_name dev = Some parent \<and> ld_start dev = drop_bit 9 offset \<and> ld_sectors dev = drop_bit 9 sz \<and> ld_remap dev = remap))"
proof -
  let ?l = "lostdisk_list (d_ext st)"
  have nuls: "\<forall>d \<in> set ?l. CHR 0x00 \<notin> set (ld_devname d)" using ok by (simp add: lost_list_ok_def lost_dev_ok_def)
  have same: ?thesis if "same_devices (d_ext st) (d_ext st')" using same_devices_ok [OF that ok] that by blast
  show ?thesis
  proof (cases "grub_strcmp devname LOSTDISK_PROBE_NAME = 0 \<or> lostdisk_find devname ?l \<noteq> None")
    case True
    then have "d_ext st' = d_ext st" using run by (auto simp: rover_lost_add_ex_def Let_def)
    then show ?thesis using ok by (simp add: same_devices_refl)
  next
    case False
    then have f: "grub_strcmp devname LOSTDISK_PROBE_NAME \<noteq> 0" "devname \<notin> set (map ld_devname ?l)" "lostdisk_find devname ?l = None"
      using lostdisk_find_None [OF nuls name] by simp_all
    obtain e1 st1 where c: "lostdisk_check_remap sz remap (set_errno GRUB_ERR_NONE st) = (e1, st1)" by force
    have x1: "d_ext st1 = d_ext st" using check_remap_ext [OF c] by simp
    show ?thesis
    proof (cases "e1 = GRUB_ERR_NONE")
      case bad: False
      then have "d_ext st' = d_ext st" using run c f x1 by (auto simp: rover_lost_add_ex_def Let_def)
      then show ?thesis using ok by (simp add: same_devices_refl)
    next
      case True
      obtain disk st2 where o: "pd_open ops parent st1 = Some (disk, st2)"
        using run c f True by (auto simp: rover_lost_add_ex_def Let_def split: bind_splits)
      have s2: "same_devices (d_ext st) (d_ext st2)" using keep o x1 unfolding parents_keep_def by metis
      have fail: ?thesis if "lost_add_fail ops disk st3 = Some (e, st')" "d_ext st3 = d_ext st2" for disk st3
        using same same_devices_trans [OF s2] add_fail_same [OF keep that(1)] that(2) by simp
      show ?thesis
      proof (cases disk)
        case None
        then show ?thesis using run c f True o fail by (simp add: rover_lost_add_ex_def Let_def)
      next
        case (Some p)
        have g: "9 \<le> disk_log_sector_size (pd_disk ops p)" "disk_log_sector_size (pd_disk ops p) < 32"
          using keep o Some unfolding parents_keep_def by blast+
        obtain al st3 where al: "lost_alloc st2 = (al, st3)" by force
        have x3: "d_ext st3 = d_ext st2" by (rule lost_alloc_ext [OF al])
        let ?dev = "\<lparr> ld_devname = devname, ld_parent_name = Some parent, ld_parent = p, ld_start = drop_bit 9 offset,
            ld_sectors = drop_bit 9 sz, ld_remap = remap, ld_id = 0, ld_refcnt = 0 \<rparr>"
        show ?thesis
        proof (cases "whole_sectors (pd_disk ops p) offset sz \<and> range_on_disk (pd_disk ops p) offset sz \<and> al")
          case False
          then show ?thesis using run c f True o Some fail al x3 by (auto simp: rover_lost_add_ex_def Let_def split: if_splits)
        next
          case good: True
          then have st': "e = GRUB_ERR_NONE" "st' = push_lost ?dev st3"
            using run c f True o Some al by (auto simp: rover_lost_add_ex_def Let_def)
          have d: "lost_dev_ok ops (?dev\<lparr> ld_id := lostdisk_last_id (d_ext st3) \<rparr>)"
            using new_device_ok [OF name f(1) _ g, of sz remap "set_errno GRUB_ERR_NONE st"] c True good by simp
          have n: "devname \<notin> set (map ld_devname (lostdisk_list (d_ext st3)))" "lostdisk_last_id (d_ext st3) \<noteq> NOT 0"
            using f(2) last same_devices_names [OF s2] s2 by (simp_all add: x3 same_devices_def)
          have "lost_list_ok ops (d_ext st')"
            unfolding st' by (rule push_lost_ok) (use same_devices_ok [OF s2 ok] d n x3 in simp_all)
          moreover have "lostdisk_find devname (lostdisk_list (d_ext st')) = Some (?dev\<lparr> ld_id := lostdisk_last_id (d_ext st3) \<rparr>)"
            unfolding st' using strcmp_zero_iff [OF name name] by (simp add: push_lost_def lostdisk_find_def)
          ultimately show ?thesis using st'(1) f(2) by simp
        qed
      qed
    qed
  qed
qed

lemma lost_del_cases:
  assumes ok: "lost_list_ok ops (d_ext st)" and keep: "parents_keep ops" and name: "CHR 0x00 \<notin> set devname"
    and run: "rover_lost_del ops devname st = Some (e, st')"
  shows "lost_list_ok ops (d_ext st') \<and> (e = GRUB_ERR_NONE \<longrightarrow> lostdisk_find devname (lostdisk_list (d_ext st')) = None)
    \<and> (e \<noteq> GRUB_ERR_NONE \<longrightarrow> same_devices (d_ext st) (d_ext st'))"
proof (cases "unlink_lost (\<lambda>d. ld_parent_name d \<noteq> None \<and> grub_strcmp (ld_devname d) devname = 0) (lostdisk_list (d_ext st))")
  case None
  then show ?thesis using run ok by (auto simp: rover_lost_del_def Let_def same_devices_refl)
next
  case (Some dr)
  obtain dev rest where dr: "dr = (dev, rest)" by force
  note u = Some [unfolded dr]
  have nul: "CHR 0x00 \<notin> set (ld_devname dev)" and p: "grub_strcmp (ld_devname dev) devname = 0"
    using unlink_lost_Some [OF u] ok by (auto simp: lost_list_ok_def lost_dev_ok_def)
  have eq: "ld_devname dev = devname" using p strcmp_zero_iff [OF nul name] by simp
  note un = unlink_ok [OF u ok, unfolded eq]
  show ?thesis
  proof (cases "ld_refcnt dev > 0")
    case True
    then show ?thesis using run ok u by (auto simp: rover_lost_del_def Let_def same_devices_refl)
  next
    case False
    then obtain st1 where f: "lostdisk_free ops dev (set_lost_list rest (set_errno GRUB_ERR_NONE st)) = Some st1"
      and r: "e = GRUB_ERR_NONE" "st' = set_errno GRUB_ERR_NONE st1"
      using run u by (auto simp: rover_lost_del_def Let_def split: bind_splits)
    have s: "same_devices ((d_ext st)\<lparr> lostdisk_list := rest \<rparr>) (d_ext st')"
      using free_same [OF keep f] by (simp add: r set_lost_list_def)
    have ok': "lost_list_ok ops (d_ext st')" using same_devices_ok [OF s] un by blast
    then have "\<forall>d \<in> set (lostdisk_list (d_ext st')). CHR 0x00 \<notin> set (ld_devname d)" by (simp add: lost_list_ok_def lost_dev_ok_def)
    moreover have "devname \<notin> set (map ld_devname (lostdisk_list (d_ext st')))" using same_devices_names [OF s] un by simp
    ultimately have "lostdisk_find devname (lostdisk_list (d_ext st')) = None" using lostdisk_find_None [OF _ name] by blast
    then show ?thesis using ok' r(1) by simp
  qed
qed

lemma lost_open_same:
  assumes "lostdisk_open ops name disk st = Some (e, disk', st')"
  shows "same_devices (d_ext st) (d_ext st')"
  using assms by (auto simp: lostdisk_open_def Let_def same_devices_def set_lost_list_def update_refcnt_same split: option.splits)

lemma lost_close_same:
  assumes "lostdisk_close disk st = Some st'"
  shows "same_devices (d_ext st) (d_ext st')"
  using assms by (auto simp: lostdisk_close_def same_devices_def set_lost_list_def update_refcnt_same split: bind_splits)

subsection \<open>Opening a device and reading it\<close>

context parent_disk begin

lemma lost_open_read:
  assumes ok: "lost_list_ok ops (d_ext st)" and open_it: "lostdisk_open ops name disk0 st = Some (GRUB_ERR_NONE, disk, st1)"
    and dev: "lostdisk_find name (lostdisk_list (d_ext st)) = Some dev" "ld_parent dev = parent"
    and lss: "9 \<le> disk_log_sector_size (pd_disk ops parent)" "disk_log_sector_size (pd_disk ops parent) \<le> 15"
    and window: "(unat (ld_start dev) + unat (ld_sectors dev)) * 512 \<le> total"
    and st: "inv st1" and n: "0 < unat n" "unat sector + unat n \<le> unat (disk_total_sectors disk)"
    and run: "lostdisk_read ops disk sector n st1 = ((e, buf), st')"
  shows "inv st' \<and> (live \<longrightarrow> e = GRUB_ERR_NONE) \<and> (e = GRUB_ERR_NONE \<longrightarrow>
    buf = window_bytes img (unat (ld_start dev) * 512) (ld_remap dev)
      (unat sector * 2 ^ disk_log_sector_size disk) ((unat sector + unat n) * 2 ^ disk_log_sector_size disk))"
proof -
  let ?l = "disk_log_sector_size (pd_disk ops parent)"
  obtain r where r: "grub_add (ld_refcnt dev) 1 = Some r"
    and disk: "disk_log_sector_size disk = ?l" "disk_total_sectors disk = drop_bit (?l - 9) (ld_sectors dev)" "disk_id disk = ld_id dev"
    and st1: "d_ext st1 = (d_ext st)\<lparr> lostdisk_list := update_lost (ld_id dev) (\<lambda>d. d\<lparr> ld_refcnt := r \<rparr>) (lostdisk_list (d_ext st)) \<rparr>"
    using open_it dev by (auto simp: lostdisk_open_def Let_def set_lost_list_def split: option.splits)
  have mem: "dev \<in> set (lostdisk_list (d_ext st))" using dev(1) by (auto simp: lostdisk_find_def find_Some_iff)
  have "find_lost (disk_id disk) (lostdisk_list (d_ext st1)) = Some (dev\<lparr> ld_refcnt := r \<rparr>)"
    unfolding disk(3) st1 using find_lost_update [OF find_lost_id [OF _ mem]] ok by (simp add: lost_list_ok_def)
  note read = lostdisk_read_ok [OF st this _ _ _ _ _ n(1) _ run, unfolded disk(1)]
  have fits: "list_all (remap_fits (unat (ld_sectors dev) * 512)) (ld_remap dev)"
    using ok mem by (auto simp: lost_list_ok_def lost_dev_ok_def)
  have p: "(2 :: nat) ^ ?l = 2 ^ (?l - 9) * 512" using lss(1) power_add [of "2 :: nat" "?l - 9" 9] by simp
  have "(unat sector + unat n) * 2 ^ ?l \<le> unat (disk_total_sectors disk) * 2 ^ ?l" using n(2) by simp
  also have "\<dots> \<le> unat (ld_sectors dev) * 512"
    unfolding p disk(2) by (simp add: unat_drop_bit mult.assoc [symmetric])
  finally show ?thesis
    using read dev(2) lss window fits unfolding disk(1) by (simp add: add_mult_distrib)
qed

end

end
