(* ===== verification/Fshelp.thy ===== *)
theory Fshelp
  imports Fs
begin

text \<open>
  Helpers of the file systems (\<open>grub/grub-core/fs/fshelp.c\<close>, \<open>grub/include/grub/fshelp.h\<close>): looking a
  path up from the root directory of a volume, symbolic links included, and reading the bytes of a
  file through the function that maps its blocks to blocks of the disk. The functions of the file
  system are parameters. A node is passed by reference, so every function that is given one returns
  it as it left it; \<open>None\<close> is a call that does not return (or, for a search without a current
  directory, a null pointer that is dereferenced).
\<close>

subsection \<open>Types\<close>

abbreviation GRUB_FSHELP_CASE_INSENSITIVE :: u32 where "GRUB_FSHELP_CASE_INSENSITIVE \<equiv> 0x100"
abbreviation GRUB_FSHELP_UNKNOWN :: u32 where "GRUB_FSHELP_UNKNOWN \<equiv> 0"
abbreviation GRUB_FSHELP_REG :: u32 where "GRUB_FSHELP_REG \<equiv> 1"
abbreviation GRUB_FSHELP_DIR :: u32 where "GRUB_FSHELP_DIR \<equiv> 2"
abbreviation GRUB_FSHELP_SYMLINK :: u32 where "GRUB_FSHELP_SYMLINK \<equiv> 3"

text \<open>
  The functions of a file system: the walk over a directory with a hook and the hook's data, the
  lookup of one name, the target of a symbolic link, and the block of the disk behind a block of a
  file (zero for a hole).
\<close>

type_synonym ('n, 'c, 'h) iterate_dir_hook = "string \<Rightarrow> u32 \<Rightarrow> 'n \<Rightarrow> 'c \<Rightarrow> 'h dstate \<Rightarrow> (bool \<times> 'c \<times> 'h dstate) option"
type_synonym ('n, 'c, 'h) iterate_dir =
  "'n \<Rightarrow> ('n, 'c, 'h) iterate_dir_hook \<Rightarrow> 'c \<Rightarrow> 'h dstate \<Rightarrow> (bool \<times> 'c \<times> 'n \<times> 'h dstate) option"
type_synonym ('n, 'h) lookup_file =
  "'n \<Rightarrow> string \<Rightarrow> 'h dstate \<Rightarrow> (grub_err_t \<times> ('n \<times> u32) option \<times> 'n \<times> 'h dstate) option"
type_synonym ('n, 'h) read_symlink = "'n \<Rightarrow> 'h dstate \<Rightarrow> (string option \<times> 'n \<times> 'h dstate) option"
type_synonym ('n, 'h) get_block = "'n \<Rightarrow> u64 \<Rightarrow> 'h dstate \<Rightarrow> (u64 \<times> 'n \<times> 'h dstate) option"

text \<open>A pointer to a node: the caller's root node or a node of its own.\<close>

datatype 'n node_ref = Root_Node | Owned 'n

record 'n stack_element =
  se_node :: "'n node_ref"
  se_type :: u32

text \<open>The context; the stack is the list of its elements, the current file first.\<close>

record 'n find_file_ctx =
  fc_path :: string
  fc_rootnode :: 'n
  fc_symlinknest :: nat
  fc_currnode :: "'n stack_element list"

definition node_of :: "'n find_file_ctx \<Rightarrow> 'n node_ref \<Rightarrow> 'n" where
  "node_of ctx r = (case r of Root_Node \<Rightarrow> fc_rootnode ctx | Owned n \<Rightarrow> n)"

definition current :: "'n find_file_ctx \<Rightarrow> ('n \<times> u32) option" where
  "current ctx = (case fc_currnode ctx of [] \<Rightarrow> None | el # _ \<Rightarrow> Some (node_of ctx (se_node el), se_type el))"

text \<open>The current node after a function has worked on it.\<close>

definition update_current :: "'n \<Rightarrow> 'n find_file_ctx \<Rightarrow> 'n find_file_ctx" where
  "update_current n ctx =
     (case fc_currnode ctx of
        [] \<Rightarrow> ctx
      | el # els \<Rightarrow>
          (case se_node el of
             Root_Node \<Rightarrow> ctx\<lparr> fc_rootnode := n \<rparr>
           | Owned _ \<Rightarrow> ctx\<lparr> fc_currnode := el\<lparr> se_node := Owned n \<rparr> # els \<rparr>))"

subsection \<open>The stack\<close>

definition pop_element :: "'n find_file_ctx \<Rightarrow> 'n find_file_ctx" where
  "pop_element ctx = ctx\<lparr> fc_currnode := tl (fc_currnode ctx) \<rparr>"

definition free_stack :: "'n find_file_ctx \<Rightarrow> 'n find_file_ctx" where
  "free_stack ctx = ctx\<lparr> fc_currnode := [] \<rparr>"

definition go_up_a_level :: "'n find_file_ctx \<Rightarrow> 'n find_file_ctx" where
  "go_up_a_level ctx = (if tl (fc_currnode ctx) = [] then ctx else pop_element ctx)"

definition push_node :: "'n node_ref \<Rightarrow> u32 \<Rightarrow> 'n find_file_ctx \<Rightarrow> 'h dstate \<Rightarrow> grub_err_t \<times> 'n find_file_ctx \<times> 'h dstate" where
  "push_node node filetype ctx st =
     (case grub_malloc st of
        (False, st1) \<Rightarrow> (d_errno st1, ctx, st1)
      | (True, st1) \<Rightarrow>
          (GRUB_ERR_NONE, ctx\<lparr> fc_currnode :=
             \<lparr> se_node = node, se_type = filetype AND NOT GRUB_FSHELP_CASE_INSENSITIVE \<rparr> # fc_currnode ctx \<rparr>, st1))"

definition go_to_root :: "'n find_file_ctx \<Rightarrow> 'h dstate \<Rightarrow> grub_err_t \<times> 'n find_file_ctx \<times> 'h dstate" where
  "go_to_root ctx = push_node Root_Node GRUB_FSHELP_DIR (free_stack ctx)"

subsection \<open>Looking a name up in a directory\<close>

text \<open>\<open>grub_strcasecmp\<close> of \<open>grub/include/grub/misc.h\<close>.\<close>

fun grub_strcasecmp :: "string \<Rightarrow> string \<Rightarrow> int" where
  "grub_strcasecmp (a # as) (b # bs) =
     (if grub_tolower (uchar a) \<noteq> grub_tolower (uchar b) then grub_tolower (uchar a) - grub_tolower (uchar b)
      else grub_strcasecmp as bs)"
| "grub_strcasecmp as bs = grub_tolower (cur_u as) - grub_tolower (cur_u bs)"

definition find_file_iter :: "string \<Rightarrow> ('n, ('n \<times> u32) option, 'h) iterate_dir_hook" where
  "find_file_iter name filename filetype node found st =
     (if filetype = GRUB_FSHELP_UNKNOWN
         \<or> (if filetype AND GRUB_FSHELP_CASE_INSENSITIVE \<noteq> 0 then grub_strcasecmp name filename \<noteq> 0
            else grub_strcmp name filename \<noteq> 0)
      then Some (False, found, st) else Some (True, Some (node, filetype), st))"

definition directory_find_file :: "('n, ('n \<times> u32) option, 'h) iterate_dir \<Rightarrow> ('n, 'h) lookup_file" where
  "directory_find_file iterate_dir node name st =
     do { (found, res, node1, st1) \<leftarrow> iterate_dir node (find_file_iter name) None st;
          Some (if \<not> found \<and> d_errno st1 \<noteq> GRUB_ERR_NONE then d_errno st1 else GRUB_ERR_NONE, res, node1, st1) }"

subsection \<open>Looking a path up\<close>

text \<open>
  Reading the symbolic link on top of the stack and going to the directory its target is relative
  to: the target, or the error that ends the search.
\<close>

definition open_symlink :: "('n, 'h) read_symlink option \<Rightarrow> 'n find_file_ctx \<Rightarrow> 'h dstate
    \<Rightarrow> ((grub_err_t + string) \<times> 'n find_file_ctx \<times> 'h dstate) option" where
  "open_symlink read_symlink ctx st =
     (let ctx1 = ctx\<lparr> fc_symlinknest := Suc (fc_symlinknest ctx) \<rparr>
      in if fc_symlinknest ctx1 = 8
         then Some (Inl GRUB_ERR_SYMLINK_LOOP, ctx1, raise_error GRUB_ERR_SYMLINK_LOOP ''too deep nesting of symlinks'' st)
         else case read_symlink of
           None \<Rightarrow> Some (Inl GRUB_ERR_BAD_FS, ctx1, raise_error GRUB_ERR_BAD_FS ''read_symlink is NULL'' st)
         | Some rl \<Rightarrow> do {
             (node, _) \<leftarrow> current ctx1;
             (symlink, node1, st1) \<leftarrow> rl node st;
             let ctx2 = update_current node1 ctx1;
             case symlink of
               None \<Rightarrow> Some (Inl (d_errno st1), ctx2, st1)
             | Some target \<Rightarrow>
                 if starts_with (CHR ''/'') target
                 then (case go_to_root ctx2 st1 of (err, ctx3, st2) \<Rightarrow>
                    Some (if err \<noteq> GRUB_ERR_NONE then Inl err else Inr target, ctx3, st2))
                 else Some (Inr target, go_up_a_level ctx2, st1) })"

definition is_slash :: "char \<Rightarrow> bool" where
  "is_slash c \<longleftrightarrow> c = CHR ''/''"

text \<open>
  The loop over the parts of a path, and the recursion into the target of a link. \<open>nofollow\<close> keeps a
  link that is the last part and not followed by a slash.
\<close>

partial_function (option) find_file :: "('n, 'h) lookup_file \<Rightarrow> ('n, 'h) read_symlink option \<Rightarrow> bool \<Rightarrow> string
    \<Rightarrow> 'n find_file_ctx \<Rightarrow> 'h dstate \<Rightarrow> (grub_err_t \<times> 'n find_file_ctx \<times> 'h dstate) option" where
  "find_file lookup read_symlink nofollow path ctx st =
     (let name = dropWhile is_slash path;
          part = takeWhile (\<lambda>c. \<not> is_slash c) name;
          rest = dropWhile (\<lambda>c. \<not> is_slash c) name
      in if name = [] then Some (GRUB_ERR_NONE, ctx, st)
         else do {
           (node, type) \<leftarrow> current ctx;
           if type \<noteq> GRUB_FSHELP_DIR
           then Some (GRUB_ERR_BAD_FILE_TYPE, ctx, raise_error GRUB_ERR_BAD_FILE_TYPE ''not a directory'' st)
           else if part = ''.'' then find_file lookup read_symlink nofollow rest ctx st
           else if part = ''..'' then find_file lookup read_symlink nofollow rest (go_up_a_level ctx) st
           else do {
             (err, found, node1, st1) \<leftarrow> lookup node part st;
             let ctx1 = update_current node1 ctx;
             if err \<noteq> GRUB_ERR_NONE then Some (err, ctx1, st1)
             else case found of
               None \<Rightarrow> Some (GRUB_ERR_FILE_NOT_FOUND, ctx1, raise_error GRUB_ERR_FILE_NOT_FOUND ''file not found'' st1)
             | Some (foundnode, foundtype) \<Rightarrow>
                 (case push_node (Owned foundnode) foundtype ctx1 st1 of (_, ctx2, st2) \<Rightarrow> do {
                    (_, type2) \<leftarrow> current ctx2;
                    if type2 = GRUB_FSHELP_SYMLINK \<and> \<not> (nofollow \<and> rest = [])
                    then do {
                      (target, ctx3, st3) \<leftarrow> open_symlink read_symlink ctx2 st2;
                      case target of
                        Inl err2 \<Rightarrow> Some (err2, ctx3, st3)
                      | Inr symlink \<Rightarrow> do {
                          (_, ctx4, st4) \<leftarrow> find_file lookup read_symlink False symlink ctx3 st3;
                          if d_errno st4 \<noteq> GRUB_ERR_NONE then Some (d_errno st4, ctx4, st4)
                          else find_file lookup read_symlink nofollow rest ctx4 st4 } }
                    else find_file lookup read_symlink nofollow rest ctx2 st2 }) } })"

definition expected_type :: "u32 \<Rightarrow> u32 \<Rightarrow> string option" where
  "expected_type expecttype foundtype =
     (if expecttype = GRUB_FSHELP_REG \<and> foundtype \<noteq> expecttype then Some ''not a regular file''
      else if expecttype = GRUB_FSHELP_DIR \<and> foundtype \<noteq> expecttype then Some ''not a directory''
      else if expecttype = GRUB_FSHELP_SYMLINK \<and> foundtype \<noteq> expecttype then Some ''not a symbolic link''
      else None)"

text \<open>The result is the error, the node that was found, and the root node as the search left it.\<close>

definition grub_fshelp_find_file_real :: "string \<Rightarrow> 'n \<Rightarrow> ('n, 'h) lookup_file \<Rightarrow> ('n, 'h) read_symlink option \<Rightarrow> u32
    \<Rightarrow> 'h dstate \<Rightarrow> (grub_err_t \<times> 'n node_ref option \<times> 'n \<times> 'h dstate) option" where
  "grub_fshelp_find_file_real path rootnode lookup read_symlink expecttype st =
     (let ctx = \<lparr> fc_path = path, fc_rootnode = rootnode, fc_symlinknest = 0, fc_currnode = [] \<rparr>
      in if \<not> starts_with (CHR ''/'') path
         then Some (GRUB_ERR_BAD_FILENAME, None, rootnode, raise_error GRUB_ERR_BAD_FILENAME ''invalid file name'' st)
         else case go_to_root ctx st of (err, ctx1, st1) \<Rightarrow>
           if err \<noteq> GRUB_ERR_NONE then Some (err, None, rootnode, st1)
           else case grub_strdup path st1 of
             (None, st2) \<Rightarrow> Some (d_errno st2, None, rootnode, st2)
           | (Some duppath, st2) \<Rightarrow> do {
               (err2, ctx2, st3) \<leftarrow> find_file lookup read_symlink (expecttype = GRUB_FSHELP_SYMLINK) duppath ctx1 st2;
               if err2 \<noteq> GRUB_ERR_NONE then Some (err2, None, fc_rootnode ctx2, st3)
               else case fc_currnode ctx2 of
                 [] \<Rightarrow> None
               | el # _ \<Rightarrow>
                   (case expected_type expecttype (se_type el) of
                      None \<Rightarrow> Some (GRUB_ERR_NONE, Some (se_node el), fc_rootnode ctx2, st3)
                    | Some msg \<Rightarrow> Some (GRUB_ERR_BAD_FILE_TYPE, None, fc_rootnode ctx2, raise_error GRUB_ERR_BAD_FILE_TYPE msg st3)) })"

definition grub_fshelp_find_file :: "string \<Rightarrow> 'n \<Rightarrow> ('n, ('n \<times> u32) option, 'h) iterate_dir \<Rightarrow> ('n, 'h) read_symlink option
    \<Rightarrow> u32 \<Rightarrow> 'h dstate \<Rightarrow> (grub_err_t \<times> 'n node_ref option \<times> 'n \<times> 'h dstate) option" where
  "grub_fshelp_find_file path rootnode iterate_dir = grub_fshelp_find_file_real path rootnode (directory_find_file iterate_dir)"

definition grub_fshelp_find_file_lookup :: "string \<Rightarrow> 'n \<Rightarrow> ('n, 'h) lookup_file \<Rightarrow> ('n, 'h) read_symlink option
    \<Rightarrow> u32 \<Rightarrow> 'h dstate \<Rightarrow> (grub_err_t \<times> 'n node_ref option \<times> 'n \<times> 'h dstate) option" where
  "grub_fshelp_find_file_lookup = grub_fshelp_find_file_real"

subsection \<open>Reading a file\<close>

text \<open>The arguments and variables of \<open>grub_fshelp_read_file\<close> that its loop does not change.\<close>

record file_req =
  fr_pos :: u64
  fr_len :: u64
  fr_blockcnt :: u64
  fr_log2blocksize :: nat
  fr_blocks_start :: u64
  fr_max_read :: u64

definition blocksize :: "file_req \<Rightarrow> u64" where
  "blocksize req = push_bit (fr_log2blocksize req + GRUB_DISK_SECTOR_BITS) 1"

definition first_block :: "file_req \<Rightarrow> u64" where
  "first_block req = drop_bit (fr_log2blocksize req + GRUB_DISK_SECTOR_BITS) (fr_pos req)"

text \<open>Where the part of a block that is read ends, and the bytes of the first block that are skipped.\<close>

definition block_end :: "file_req \<Rightarrow> u64 \<Rightarrow> u64" where
  "block_end req i =
     (let until = (fr_len req + fr_pos req) AND (blocksize req - 1)
      in if i = fr_blockcnt req - 1 \<and> until \<noteq> 0 then until else blocksize req)"

definition skip_first :: "file_req \<Rightarrow> u64 \<Rightarrow> u64" where
  "skip_first req i = (if i = first_block req then fr_pos req AND (blocksize req - 1) else 0)"

text \<open>Blocks that follow each other on the disk are merged to a run; \<open>Inl\<close> is the return of -1.\<close>

partial_function (option) merge_run :: "('n, 'h) get_block \<Rightarrow> file_req \<Rightarrow> u64 \<Rightarrow> u64 \<Rightarrow> u64 \<Rightarrow> u64 \<Rightarrow> 'n \<Rightarrow> 'h dstate
    \<Rightarrow> ((unit + u64 \<times> u64) \<times> 'n \<times> 'h dstate) option" where
  "merge_run get_block req i blknr run_blocks run_length node st =
     (if i + run_blocks < fr_blockcnt req then
        (let next_length = block_end req (i + run_blocks)
         in if fr_max_read req \<noteq> 0 \<and> run_length + next_length > fr_max_read req
            then Some (Inr (run_blocks, run_length), node, st)
            else do {
              (b, node1, st1) \<leftarrow> get_block node (i + run_blocks) st;
              let nxt = push_bit (fr_log2blocksize req) b;
              if d_errno st1 \<noteq> GRUB_ERR_NONE then Some (Inl (), node1, st1)
              else if nxt = 0 \<or> nxt \<noteq> blknr + push_bit (fr_log2blocksize req) run_blocks
              then Some (Inr (run_blocks, run_length), node1, st1)
              else merge_run get_block req i blknr (run_blocks + 1) (run_length + next_length) node1 st1 })
      else Some (Inr (run_blocks, run_length), node, st))"

partial_function (option) read_file_loop :: "(u64 \<Rightarrow> u64 \<Rightarrow> u64 \<Rightarrow> 'h dstate \<Rightarrow> ((grub_err_t \<times> bytes) \<times> 'h dstate) option)
    \<Rightarrow> ('n, 'h) get_block \<Rightarrow> file_req \<Rightarrow> u64 \<Rightarrow> bytes \<Rightarrow> 'n \<Rightarrow> 'h dstate \<Rightarrow> ((int \<times> bytes) \<times> 'n \<times> 'h dstate) option" where
  "read_file_loop rd get_block req i buf node st =
     (if i < fr_blockcnt req then
        do { (b, node1, st1) \<leftarrow> get_block node i st;
             let blknr = push_bit (fr_log2blocksize req) b;
             let skipfirst = skip_first req i;
             let blockend = block_end req i - skipfirst;
             if d_errno st1 \<noteq> GRUB_ERR_NONE then Some ((-1, buf), node1, st1)
             else if blknr \<noteq> 0 then do {
               (run, node2, st2) \<leftarrow> merge_run get_block req i blknr 1 blockend node1 st1;
               case run of
                 Inl _ \<Rightarrow> Some ((-1, buf), node2, st2)
               | Inr (run_blocks, run_length) \<Rightarrow> do {
                   ((_, new), st3) \<leftarrow> rd (blknr + fr_blocks_start req) skipfirst run_length st2;
                   if d_errno st3 \<noteq> GRUB_ERR_NONE then Some ((-1, buf @ new), node2, st3)
                   else read_file_loop rd get_block req (i + run_blocks) (buf @ new) node2 st3 } }
             else read_file_loop rd get_block req (i + 1) (buf @ replicate (unat blockend) 0) node1 st1 }
      else Some ((sint (fr_len req), buf), node, st))"

text \<open>
  \<open>rd\<close> is \<open>grub_disk_read\<close> on the disk with the caller's hook. The result is the number of bytes or
  -1 and the bytes that were stored.
\<close>

definition grub_fshelp_read_file :: "(u64 \<Rightarrow> u64 \<Rightarrow> u64 \<Rightarrow> 'h dstate \<Rightarrow> ((grub_err_t \<times> bytes) \<times> 'h dstate) option) \<Rightarrow> grub_disk
    \<Rightarrow> 'n \<Rightarrow> u64 \<Rightarrow> u64 \<Rightarrow> ('n, 'h) get_block \<Rightarrow> u64 \<Rightarrow> nat \<Rightarrow> u64 \<Rightarrow> 'h dstate \<Rightarrow> ((int \<times> bytes) \<times> 'n \<times> 'h dstate) option" where
  "grub_fshelp_read_file rd disk node pos len get_block filesize log2blocksize blocks_start st =
     (if log2blocksize + GRUB_DISK_SECTOR_BITS \<ge> 31
      then Some ((-1, []), node, raise_error GRUB_ERR_OUT_OF_RANGE ''blocksize too large'' st)
      else if pos > filesize
      then Some ((-1, []), node, raise_error GRUB_ERR_OUT_OF_RANGE ''attempt to read past the end of file'' st)
      else
        let len1 = (if pos + len > filesize then filesize - pos else len);
            blk = push_bit (log2blocksize + GRUB_DISK_SECTOR_BITS) 1;
            req = \<lparr> fr_pos = pos, fr_len = len1,
              fr_blockcnt = drop_bit (log2blocksize + GRUB_DISK_SECTOR_BITS) ((len1 + pos) + blk - 1),
              fr_log2blocksize = log2blocksize, fr_blocks_start = blocks_start,
              fr_max_read = push_bit CACHE_BLOCK_BITS (of_nat (disk_max_agglomerate disk)) \<rparr>
        in read_file_loop rd get_block req (first_block req) [] node st)"

end
