(* ===== verification/Bootfs.thy ===== *)
theory Bootfs
  imports Fshelp
begin

text \<open>
  The SCO UnixWare boot file system (\<open>grub/grub-core/fs/bootfs.c\<close>): the superblock, the inodes, the
  one directory, and the entry points of the driver. \<open>rd\<close> is \<open>grub_disk_read\<close> on the disk of the volume;
  the volume a node points to is the argument \<open>data\<close>.
\<close>

abbreviation BOOTFS_BSIZE :: u32 where "BOOTFS_BSIZE \<equiv> 512"
abbreviation BOOTFS_MAGIC :: u32 where "BOOTFS_MAGIC \<equiv> 0x1badface"
abbreviation BOOTFS_ROOT_INO :: u32 where "BOOTFS_ROOT_INO \<equiv> 2"
abbreviation BOOTFS_INODE_SIZE :: u32 where "BOOTFS_INODE_SIZE \<equiv> 64"
abbreviation BOOTFS_DIRENT_SIZE :: u32 where "BOOTFS_DIRENT_SIZE \<equiv> 16"
abbreviation BOOTFS_NAMELEN :: nat where "BOOTFS_NAMELEN \<equiv> 14"
abbreviation BOOTFS_MAX_LASTI :: u32 where "BOOTFS_MAX_LASTI \<equiv> 513"
abbreviation BOOTFS_SB_NAMELEN :: nat where "BOOTFS_SB_NAMELEN \<equiv> 6"
abbreviation BOOTFS_VREG :: u32 where "BOOTFS_VREG \<equiv> 1"
abbreviation BOOTFS_VDIR :: u32 where "BOOTFS_VDIR \<equiv> 2"

record bootfs_node =
  bn_ino :: u32
  bn_sblock :: u32
  bn_eblock :: u32
  bn_size :: u32
  bn_mtime :: u32

record grub_bootfs_data =
  bd_blocks :: u32
  bd_end :: u32
  bd_lasti :: u32
  bd_label :: string
  bd_root :: bootfs_node

type_synonym 'h fs_rd = "u64 \<Rightarrow> u64 \<Rightarrow> u64 \<Rightarrow> 'h dstate \<Rightarrow> ((grub_err_t \<times> bytes) \<times> 'h dstate) option"

text \<open>The text in a byte array, up to its first zero.\<close>

definition text_of :: "bytes \<Rightarrow> string" where
  "text_of bs = map (\<lambda>b. char_of (unat b)) (takeWhile (\<lambda>b. b \<noteq> 0) bs)"

text \<open>A name of the superblock: nothing when a character is not printable, without the spaces at its end.\<close>

definition printable :: "u8 \<Rightarrow> bool" where
  "printable b \<longleftrightarrow> 0x20 \<le> b \<and> b \<le> 0x7e"

definition grub_bootfs_get_name :: "bytes \<Rightarrow> string" where
  "grub_bootfs_get_name p =
     (let field = takeWhile (\<lambda>b. b \<noteq> 0) (take BOOTFS_SB_NAMELEN p)
      in if \<not> list_all printable field then []
         else text_of (rev (dropWhile (\<lambda>b. b = 0x20) (rev field))))"

definition grub_bootfs_get_block :: "(bootfs_node, 'h) get_block" where
  "grub_bootfs_get_block node block st =
     (let blk = ucast (bn_sblock node) + block
      in if bn_sblock node = 0 \<or> blk > ucast (bn_eblock node)
         then Some (0, node, raise_error GRUB_ERR_BAD_FS ''bootfs: block is outside of inode'' st)
         else Some (blk, node, st))"

subsection \<open>Inodes\<close>

text \<open>The checks of an inode that was read, and its size in bytes: \<open>None\<close> for a corrupted inode.\<close>

definition bootfs_inode_size :: "grub_bootfs_data \<Rightarrow> u32 \<Rightarrow> u32 \<Rightarrow> u32 \<Rightarrow> u64 option" where
  "bootfs_inode_size data sblock eblock eoffset =
     (if sblock > bd_blocks data \<or> eblock > bd_blocks data \<or> sblock > eblock
         \<or> (eoffset \<noteq> 0xffffffff \<and> eoffset > bd_end data) then None
      else if sblock = 0 then Some 0
      else
        let start = ucast sblock * 512 :: u64
        in if start > ucast eoffset then None
           else
             let sz = ucast eoffset + 1 - start
             in if sz > (ucast (eblock - sblock) + 1) * 512 then None else Some sz)"

definition bootfs_inode_off :: "u32 \<Rightarrow> u32" where
  "bootfs_inode_off ino = BOOTFS_BSIZE + (ino - BOOTFS_ROOT_INO) * BOOTFS_INODE_SIZE"

text \<open>The node of an inode and its type; \<open>Inl\<close> is the error that is returned.\<close>

definition grub_bootfs_read_inode :: "'h fs_rd \<Rightarrow> grub_bootfs_data \<Rightarrow> u32 \<Rightarrow> 'h dstate
    \<Rightarrow> ((grub_err_t + bootfs_node \<times> u32) \<times> 'h dstate) option" where
  "grub_bootfs_read_inode rd data ino st =
     (if ino < BOOTFS_ROOT_INO \<or> ino > bd_lasti data
      then Some (Inl GRUB_ERR_BAD_FS, raise_error GRUB_ERR_BAD_FS ''bootfs: bad inode number'' st)
      else
        let off = bootfs_inode_off ino
        in do {
          ((e, raw), st1) \<leftarrow> rd (ucast (drop_bit 9 off)) (ucast (off AND (BOOTFS_BSIZE - 1))) 64 st;
          if e \<noteq> GRUB_ERR_NONE then Some (Inl (d_errno st1), st1)
          else
            let sblock = le32 raw 4; eblock = le32 raw 8
            in case bootfs_inode_size data sblock eblock (le32 raw 12) of
                 None \<Rightarrow> Some (Inl GRUB_ERR_BAD_FS, raise_error GRUB_ERR_BAD_FS ''bootfs: inode is corrupted'' st1)
               | Some sz \<Rightarrow>
                   Some (Inr (\<lparr> bn_ino = ino, bn_sblock = sblock, bn_eblock = eblock, bn_size = ucast sz,
                                bn_mtime = le32 raw 0x28 \<rparr>, le32 raw 0x10), st1) })"

definition grub_bootfs_filetype :: "u32 \<Rightarrow> u32 \<Rightarrow> u32" where
  "grub_bootfs_filetype vtype ino =
     (if vtype = BOOTFS_VDIR \<and> ino = BOOTFS_ROOT_INO then GRUB_FSHELP_DIR
      else if vtype = BOOTFS_VREG then GRUB_FSHELP_REG else GRUB_FSHELP_UNKNOWN)"

subsection \<open>Mounting\<close>

text \<open>The label \<open>fail\<close>.\<close>

definition bootfs_mount_fail :: "'h dstate \<Rightarrow> (grub_bootfs_data option \<times> 'h dstate) option" where
  "bootfs_mount_fail st =
     Some (None, if d_errno st = GRUB_ERR_NONE \<or> d_errno st = GRUB_ERR_OUT_OF_RANGE
                 then raise_error GRUB_ERR_BAD_FS ''not a bootfs filesystem'' st else st)"

definition bootfs_sb_corrupted :: "u32 \<Rightarrow> u32 \<Rightarrow> bool" where
  "bootfs_sb_corrupted start until \<longleftrightarrow>
     start < BOOTFS_BSIZE + BOOTFS_DIRENT_SIZE \<or> start > until \<or> until = 0xffffffff"

definition bootfs_zero_node :: bootfs_node where
  "bootfs_zero_node = \<lparr> bn_ino = 0, bn_sblock = 0, bn_eblock = 0, bn_size = 0, bn_mtime = 0 \<rparr>"

definition bootfs_geometry :: "u32 \<Rightarrow> u32 \<Rightarrow> grub_bootfs_data" where
  "bootfs_geometry start until = \<lparr> bd_blocks = drop_bit 9 (until + 1), bd_end = until,
     bd_lasti = (start - BOOTFS_BSIZE) div BOOTFS_INODE_SIZE + BOOTFS_ROOT_INO - 1, bd_label = [], bd_root = bootfs_zero_node \<rparr>"

definition grub_bootfs_mount :: "'h fs_rd \<Rightarrow> grub_disk \<Rightarrow> 'h dstate \<Rightarrow> (grub_bootfs_data option \<times> 'h dstate) option" where
  "grub_bootfs_mount rd disk st =
     do { ((e, sb), st1) \<leftarrow> rd 0 0 512 st;
          if e \<noteq> GRUB_ERR_NONE \<or> le32 sb 0 \<noteq> BOOTFS_MAGIC then bootfs_mount_fail st1
          else
            let start = le32 sb 4; until = le32 sb 8
            in if bootfs_sb_corrupted start until
               then bootfs_mount_fail (raise_error GRUB_ERR_BAD_FS ''bootfs: super block is corrupted'' st1)
               else case grub_malloc st1 of
                 (False, st2) \<Rightarrow> Some (None, st2)
               | (True, st2) \<Rightarrow>
                   let data = bootfs_geometry start until;
                       total = grub_disk_native_sectors disk
                   in if bd_lasti data > BOOTFS_MAX_LASTI
                      then bootfs_mount_fail (raise_error GRUB_ERR_BAD_FS ''bootfs: impossible last inode'' st2)
                      else if total \<noteq> GRUB_DISK_SIZE_UNKNOWN \<and> ucast (bd_blocks data) > total
                      then bootfs_mount_fail (raise_error GRUB_ERR_BAD_FS ''bootfs: filesystem is larger than the device'' st2)
                      else do {
                        (r, st3) \<leftarrow> grub_bootfs_read_inode rd data BOOTFS_ROOT_INO st2;
                        case r of
                          Inl _ \<Rightarrow> bootfs_mount_fail st3
                        | Inr (root, vtype) \<Rightarrow>
                            if vtype \<noteq> BOOTFS_VDIR
                            then bootfs_mount_fail (raise_error GRUB_ERR_BAD_FS ''bootfs: root inode is not a directory'' st3)
                            else Some (Some (data\<lparr> bd_root := root, bd_label := grub_bootfs_get_name (drop 0x22 sb) \<rparr>), st3) } }"

subsection \<open>Reading files and the directory\<close>

text \<open>The error and the bytes.\<close>

definition grub_bootfs_read_file :: "'h fs_rd \<Rightarrow> grub_disk \<Rightarrow> bootfs_node \<Rightarrow> u64 \<Rightarrow> u64 \<Rightarrow> 'h dstate
    \<Rightarrow> ((grub_err_t \<times> bytes) \<times> 'h dstate) option" where
  "grub_bootfs_read_file rd disk node pos len st =
     do { ((r, buf), _, st1) \<leftarrow> grub_fshelp_read_file rd disk node pos len grub_bootfs_get_block (ucast (bn_size node)) 0 0 st;
          if r < 0 then
            (let st2 = (if d_errno st1 = GRUB_ERR_NONE then raise_error GRUB_ERR_BAD_FS ''bootfs: read error'' st1 else st1)
             in Some ((d_errno st2, buf), st2))
          else Some ((GRUB_ERR_NONE, buf), st1) }"

text \<open>The inner loop over the entries of a block of the directory: \<open>Inl\<close> is the return of 1.\<close>

fun bootfs_entries :: "'h fs_rd \<Rightarrow> grub_bootfs_data \<Rightarrow> (bootfs_node, 'c, 'h) iterate_dir_hook \<Rightarrow> nat \<Rightarrow> bytes \<Rightarrow> nat \<Rightarrow> 'c \<Rightarrow> 'h dstate
    \<Rightarrow> ((unit + bool) \<times> 'c \<times> 'h dstate) option" where
  "bootfs_entries rd data hook 0 buf p c st = Some (Inr False, c, st)"
| "bootfs_entries rd data hook (Suc n) buf p c st =
     (let ino = ucast (le16 buf p) :: u32; name = text_of (bslice (p + 2) BOOTFS_NAMELEN buf)
      in if ino = 0 then bootfs_entries rd data hook n buf (p + 16) c st
         else case grub_malloc st of
           (False, st1) \<Rightarrow> Some (Inl (), c, st1)
         | (True, st1) \<Rightarrow> do {
             (r, st2) \<leftarrow> grub_bootfs_read_inode rd data ino st1;
             case r of
               Inl _ \<Rightarrow> bootfs_entries rd data hook n buf (p + 16) c (set_errno GRUB_ERR_NONE st2)
             | Inr (node, vtype) \<Rightarrow> do {
                 (ret, c1, st3) \<leftarrow> hook name (grub_bootfs_filetype vtype ino) node c st2;
                 if ret then Some (Inr True, c1, st3) else bootfs_entries rd data hook n buf (p + 16) c1 st3 } })"

partial_function (option) bootfs_blocks_loop :: "'h fs_rd \<Rightarrow> grub_disk \<Rightarrow> grub_bootfs_data \<Rightarrow> bootfs_node
    \<Rightarrow> (bootfs_node, 'c, 'h) iterate_dir_hook \<Rightarrow> u32 \<Rightarrow> 'c \<Rightarrow> 'h dstate \<Rightarrow> (bool \<times> 'c \<times> 'h dstate) option" where
  "bootfs_blocks_loop rd disk data dir hook pos c st =
     (if pos < bn_size dir then
        (let len = (if bn_size dir - pos > BOOTFS_BSIZE then BOOTFS_BSIZE else bn_size dir - pos)
         in do {
           ((e, buf), st1) \<leftarrow> grub_bootfs_read_file rd disk dir (ucast pos) (ucast len) st;
           if e \<noteq> GRUB_ERR_NONE then Some (True, c, st1)
           else do {
             (r, c1, st2) \<leftarrow> bootfs_entries rd data hook (unat len div 16) buf 0 c st1;
             case r of
               Inl _ \<Rightarrow> Some (True, c1, st2)
             | Inr ret \<Rightarrow> if ret then Some (True, c1, st2)
                 else bootfs_blocks_loop rd disk data dir hook (pos + BOOTFS_BSIZE) c1 st2 } })
      else Some (False, c, st))"

definition grub_bootfs_iterate_dir :: "'h fs_rd \<Rightarrow> grub_disk \<Rightarrow> grub_bootfs_data \<Rightarrow> (bootfs_node, 'c, 'h) iterate_dir" where
  "grub_bootfs_iterate_dir rd disk data dir hook c st =
     map_option (\<lambda>(ret, c1, st1). (ret, c1, dir, st1)) (bootfs_blocks_loop rd disk data dir hook 0 c st)"

definition grub_bootfs_dir_iter :: "'h dir_hook \<Rightarrow> (bootfs_node, unit, 'h) iterate_dir_hook" where
  "grub_bootfs_dir_iter hook filename filetype node c st =
     (let dir = (filetype = GRUB_FSHELP_DIR);
          info = \<lparr> di_dir = dir, di_symlink = False, di_mtimeset = True, di_case_insensitive = False, di_inodeset = True,
            di_sizeset = \<not> dir, di_mtime = ucast (bn_mtime node), di_inode = ucast (bn_ino node),
            di_size = (if dir then 0 else ucast (bn_size node)) \<rparr>
      in do { (stop, st1) \<leftarrow> hook filename info st; Some (stop, c, st1) })"

subsection \<open>The entry points\<close>

definition disk_rd :: "('h, 'e) open_disk \<Rightarrow> 'h fs_rd option" where
  "disk_rd d = map_option (\<lambda>drv. grub_disk_read (dev_read drv) None (od_disk d)) (od_dev d)"

definition ref_node :: "'n \<Rightarrow> 'n node_ref \<Rightarrow> 'n" where
  "ref_node root r = (case r of Root_Node \<Rightarrow> root | Owned n \<Rightarrow> n)"

definition grub_bootfs_dir :: "('h, 'e) grub_device \<Rightarrow> string \<Rightarrow> 'h dir_hook \<Rightarrow> 'h dstate \<Rightarrow> (grub_err_t \<times> 'h dstate) option" where
  "grub_bootfs_dir device path hook st =
     do { d \<leftarrow> gd_disk device; rd \<leftarrow> disk_rd d;
          (data, st1) \<leftarrow> grub_bootfs_mount rd (od_disk d) st;
          case data of
            None \<Rightarrow> Some (d_errno st1, st1)
          | Some dt \<Rightarrow> do {
              (_, found, root, st2) \<leftarrow> grub_fshelp_find_file path (bd_root dt) (grub_bootfs_iterate_dir rd (od_disk d) dt) None GRUB_FSHELP_DIR st1;
              if d_errno st2 \<noteq> GRUB_ERR_NONE then Some (d_errno st2, st2)
              else do {
                fdiro \<leftarrow> found;
                (_, _, _, st3) \<leftarrow> grub_bootfs_iterate_dir rd (od_disk d) dt (ref_node root fdiro) (grub_bootfs_dir_iter hook) () st2;
                Some (d_errno st3, st3) } } }"

definition grub_bootfs_open :: "('h, 'e) grub_device option \<Rightarrow> (grub_bootfs_data \<times> bootfs_node) fs_file \<Rightarrow> string \<Rightarrow> 'h dstate
    \<Rightarrow> (grub_err_t \<times> (grub_bootfs_data \<times> bootfs_node) fs_file \<times> 'h dstate) option" where
  "grub_bootfs_open device fl name st =
     do { dev \<leftarrow> device; d \<leftarrow> gd_disk dev; rd \<leftarrow> disk_rd d;
          (data, st1) \<leftarrow> grub_bootfs_mount rd (od_disk d) st;
          case data of
            None \<Rightarrow> Some (d_errno st1, fl, st1)
          | Some dt \<Rightarrow> do {
              (_, found, root, st2) \<leftarrow> grub_fshelp_find_file name (bd_root dt) (grub_bootfs_iterate_dir rd (od_disk d) dt) None GRUB_FSHELP_REG st1;
              if d_errno st2 \<noteq> GRUB_ERR_NONE then Some (d_errno st2, fl, st2)
              else do {
                fdiro \<leftarrow> found;
                let node = ref_node root fdiro;
                Some (GRUB_ERR_NONE, fl\<lparr> file_size := ucast (bn_size node), file_data := Fs_Data (dt, node) \<rparr>, st2) } } }"

definition grub_bootfs_read :: "('h, 'e) grub_device option \<Rightarrow> (grub_bootfs_data \<times> bootfs_node) fs_file \<Rightarrow> u64 \<Rightarrow> 'h dstate
    \<Rightarrow> ((int \<times> bytes) \<times> 'h dstate) option" where
  "grub_bootfs_read device fl len st =
     (if len = 0 then Some ((0, []), st)
      else do { dev \<leftarrow> device; d \<leftarrow> gd_disk dev; rd \<leftarrow> disk_rd d;
                (_, node) \<leftarrow> (case file_data fl of Fs_Data x \<Rightarrow> Some x | _ \<Rightarrow> None);
                ((e, buf), st1) \<leftarrow> grub_bootfs_read_file rd (od_disk d) node (file_offset fl) len st;
                Some ((if e \<noteq> GRUB_ERR_NONE then -1 else sint len, buf), st1) })"

definition grub_bootfs_close :: "('h, 'e) grub_device option \<Rightarrow> (grub_bootfs_data \<times> bootfs_node) fs_file \<Rightarrow> 'h dstate
    \<Rightarrow> (grub_err_t \<times> (grub_bootfs_data \<times> bootfs_node) fs_file \<times> 'h dstate) option" where
  "grub_bootfs_close device fl st = Some (GRUB_ERR_NONE, fl, st)"

definition grub_bootfs_label :: "('h, 'e) grub_device \<Rightarrow> 'h dstate \<Rightarrow> ((grub_err_t \<times> string option) \<times> 'h dstate) option" where
  "grub_bootfs_label device st =
     do { d \<leftarrow> gd_disk device; rd \<leftarrow> disk_rd d;
          (data, st1) \<leftarrow> grub_bootfs_mount rd (od_disk d) st;
          case data of
            None \<Rightarrow> Some ((d_errno st1, None), st1)
          | Some dt \<Rightarrow>
              (case (if bd_label dt \<noteq> [] then grub_strdup (bd_label dt) st1 else (None, st1)) of
                 (label, st2) \<Rightarrow> Some ((d_errno st2, label), st2)) }"

definition grub_bootfs_fs :: "('h, grub_bootfs_data \<times> bootfs_node, 'e) grub_fs" where
  "grub_bootfs_fs = \<lparr> fs_name = ''bootfs'', fs_dir = grub_bootfs_dir, fs_open = grub_bootfs_open, fs_read = grub_bootfs_read,
     fs_close = Some grub_bootfs_close, fs_label = Some grub_bootfs_label, fs_uuid = None \<rparr>"

end
