(* ===== verification/Fs_Disk.thy ===== *)
theory Fs_Disk
  imports Fshelp Disk_Open_Correct
begin

text \<open>
  The disk as a file system sees it. The contract \<open>fs_disk\<close> is what the file systems rely on: a read
  returns; when no error is pending afterwards, the buffer holds the bytes of the sectors it covers;
  and a read of sectors that are inside the disk succeeds on a reliable disk. \<open>grub_disk_read\<close> over a
  driver that meets the contract \<open>disk_device\<close> meets it, in particular on loopback disks.
\<close>

subsection \<open>Errors are pending\<close>

text \<open>A read that reports an error leaves this error pending.\<close>

context disk_device
begin

lemma necessary_errno: "read_necessary dread disk s off n st = ((e, buf), st') \<Longrightarrow> e \<noteq> GRUB_ERR_NONE \<Longrightarrow> d_errno st' = e"
  by (auto simp: read_necessary_def Let_def split: prod.splits bool.splits if_splits)

lemma small_real_errno:
  "grub_disk_read_small_real dread disk s off n st = ((e, buf), st') \<Longrightarrow> e \<noteq> GRUB_ERR_NONE \<Longrightarrow> d_errno st' = e"
  by (auto simp: grub_disk_read_small_real_def dest: necessary_errno split: prod.splits bool.splits if_splits option.splits)

lemma small_errno:
  "grub_disk_read_small dread None disk s off n st = ((e, buf), st') \<Longrightarrow> e \<noteq> GRUB_ERR_NONE \<Longrightarrow> d_errno st' = e"
  by (auto simp: grub_disk_read_small_def dest: small_real_errno split: prod.splits if_splits)

lemma turn_errno: "served disk \<Longrightarrow> read_turn dread hook disk s n st = (Inl e, st') \<Longrightarrow> d_errno st' = e"
  by (auto simp: read_turn_def read_gap_def read_agglomerate_def turn_result_def dest: dread_error
      split: prod.splits if_splits option.splits)

lemma loop_errno:
  assumes "served disk"
  shows "read_loop fuel dread hook disk s n acc st = Some (Inl e, acc', st') \<Longrightarrow> d_errno st' = e"
proof (induction fuel arbitrary: s n acc st)
  case (Suc fuel)
  then show ?case by (auto dest: turn_errno [OF assms] split: if_splits prod.splits sum.splits)
qed (auto split: if_splits)

lemma head_errno:
  "read_head dread None disk s off n st = (Inl e, st') \<Longrightarrow> d_errno st' = e \<and> e \<noteq> GRUB_ERR_NONE"
  by (auto simp: read_head_def Let_def dest: small_errno split: prod.splits if_splits)

lemma finish_errno: "read_finish disk n e buf st = ((e', buf'), st') \<Longrightarrow> e' = e \<and> d_errno st' = d_errno st"
  by (auto simp: read_finish_def Let_def d_errno_def)

lemma tail_errno:
  "read_tail dread None disk req s n acc st = ((e, buf), st') \<Longrightarrow> e \<noteq> GRUB_ERR_NONE \<Longrightarrow> d_errno st' = e"
  by (auto simp: read_tail_def dest!: finish_errno dest: small_errno split: prod.splits if_splits)

lemma disk_read_errno:
  assumes "served disk" and "grub_disk_read dread None disk sector off n st = Some ((e, buf), st')" and "e \<noteq> GRUB_ERR_NONE"
  shows "d_errno st' = e"
  using assms(2,3)
  by (auto simp: grub_disk_read_def Let_def dest!: finish_errno head_errno dest: loop_errno [OF assms(1)] tail_errno
      split: option.splits prod.splits sum.splits if_splits)

end

subsection \<open>The contract\<close>

text \<open>The \<open>n\<close> bytes from byte \<open>off\<close> of sector \<open>s\<close> on, where \<open>sec\<close> gives the bytes of a sector.\<close>

definition sector_bytes :: "(u64 \<Rightarrow> nat \<Rightarrow> u8) \<Rightarrow> u64 \<Rightarrow> nat \<Rightarrow> nat \<Rightarrow> bytes" where
  "sector_bytes sec s off n = map (\<lambda>m. sec (s + of_nat ((off + m) div 512)) ((off + m) mod 512)) [0..<n]"

lemma length_sector_bytes [simp]: "length (sector_bytes sec s off n) = n"
  by (simp add: sector_bytes_def)

text \<open>All sectors that \<open>n\<close> bytes from byte \<open>off\<close> of sector \<open>s\<close> on touch.\<close>

definition touches_only :: "(u64 \<Rightarrow> bool) \<Rightarrow> u64 \<Rightarrow> nat \<Rightarrow> nat \<Rightarrow> bool" where
  "touches_only inside s off n \<longleftrightarrow> (\<forall>m < n. inside (s + of_nat ((off + m) div 512)))"

locale fs_disk =
  fixes rd :: "u64 \<Rightarrow> u64 \<Rightarrow> u64 \<Rightarrow> 'h dstate \<Rightarrow> ((grub_err_t \<times> bytes) \<times> 'h dstate) option"
    and sec :: "u64 \<Rightarrow> nat \<Rightarrow> u8" and inside :: "u64 \<Rightarrow> bool" and ok :: "'h dstate \<Rightarrow> bool" and live :: bool
  assumes rd_ok: "ok st \<Longrightarrow> unat n + 1022 < 2 ^ 64 \<Longrightarrow>
      \<exists>e buf st'. rd s off n st = Some ((e, buf), st') \<and> ok st' \<and>
        (e \<noteq> GRUB_ERR_NONE \<longrightarrow> d_errno st' = e) \<and>
        (e = GRUB_ERR_NONE \<longrightarrow> buf = sector_bytes sec s (unat off) (unat n)) \<and>
        (quiet live st \<and> 0 < unat n \<and> touches_only inside s (unat off) (unat n) \<longrightarrow> e = GRUB_ERR_NONE \<and> quiet live st')"
    and ok_set_errno: "ok st \<Longrightarrow> ok (set_errno e st)"
    and ok_raise: "ok st \<Longrightarrow> ok (raise_error e msg st)"
    and ok_malloc: "ok st \<Longrightarrow> ok (snd (grub_malloc st))"
begin

lemma rd_total:
  assumes "ok st" and "unat n + 1022 < 2 ^ 64"
  obtains e buf st' where "rd s off n st = Some ((e, buf), st')" "ok st'" "e \<noteq> GRUB_ERR_NONE \<Longrightarrow> d_errno st' = e"
    "e = GRUB_ERR_NONE \<Longrightarrow> buf = sector_bytes sec s (unat off) (unat n)"
    "quiet live st \<Longrightarrow> 0 < unat n \<Longrightarrow> touches_only inside s (unat off) (unat n) \<Longrightarrow> e = GRUB_ERR_NONE \<and> quiet live st'"
  using rd_ok [OF assms, of s off] by blast

end

subsection \<open>The disk layer meets it\<close>

text \<open>A sector is inside the disk if the range check admits a read of it.\<close>

definition sector_inside :: "grub_disk \<Rightarrow> u64 \<Rightarrow> bool" where
  "sector_inside disk w \<longleftrightarrow> grub_disk_adjust_range disk w 0 512 \<noteq> None"

lemma sector_inside_iff:
  "sector_inside disk w \<longleftrightarrow> inside_chain (disk_partition disk) (unat w) 1 \<and>
     unat (grub_partition_get_start (disk_partition disk) + w) < unat (clamped_total disk)"
proof -
  have "unat (512 :: u64) + 1022 < 2 ^ 64" by simp
  from adjust_range_iff [OF this, of disk w 0] show ?thesis
    by (auto simp: sector_inside_def span_def)
qed

lemma inside_chain_join:
  assumes "\<forall>k < n. inside_chain ps ((s + k) mod 2 ^ 64) 1" and "0 < n" and "s < 2 ^ 64"
  shows "inside_chain ps s n"
  using assms
proof (induction ps arbitrary: s)
  case (Cons p ps)
  have len: "unat (part_len p) < 2 ^ 64" using unsigned_less [of "part_len p", where 'a = nat] by simp
  have up: "s + k < 2 ^ 64 \<and> s + k < unat (part_len p)" if "k < n" for k
    using that
  proof (induction k)
    case 0
    then show ?case using Cons.prems by auto
  next
    case (Suc k)
    then have "s + Suc k < 2 ^ 64" using len by simp
    then show ?case using Cons.prems(1) Suc.prems by auto
  qed
  have "s + n \<le> unat (part_len p)" using up [of "n - 1"] Cons.prems(2) by (cases n) auto
  moreover have "inside_chain ps ((s + unat (part_start p)) mod 2 ^ 64) n"
  proof (rule Cons.IH)
    show "\<forall>k < n. inside_chain ps (((s + unat (part_start p)) mod 2 ^ 64 + k) mod 2 ^ 64) 1"
    proof (intro allI impI)
      fix k assume k: "k < n"
      have "inside_chain ps (((s + k) mod 2 ^ 64 + unat (part_start p)) mod 2 ^ 64) 1"
        using Cons.prems(1) k by simp
      moreover have "((s + k) mod 2 ^ 64 + unat (part_start p)) mod 2 ^ 64 = ((s + unat (part_start p)) mod 2 ^ 64 + k) mod 2 ^ 64"
        by (simp add: mod_simps ac_simps)
      ultimately show "inside_chain ps (((s + unat (part_start p)) mod 2 ^ 64 + k) mod 2 ^ 64) 1" by simp
    qed
  qed (use Cons.prems in simp_all)
  ultimately show ?case using up [of 0] Cons.prems(2) by simp
qed simp


lemma adjust_range_sectors:
  assumes sz: "unat n + 1022 < 2 ^ 64" and pos: "0 < unat n"
    and t: "touches_only (sector_inside disk) s (unat off) (unat n)"
  shows "grub_disk_adjust_range disk s off n \<noteq> None"
proof -
  let ?g = "grub_partition_get_start (disk_partition disk)" and ?s = "s + drop_bit 9 off" and ?k = "span (off AND 511) n"
  have o: "unat off = unat (drop_bit 9 off) * 512 + unat (off AND 511)"
    by (simp add: unat_drop_bit unat_and_511)
  have k: "0 < ?k" using pos by (simp add: span_def)
  have one: "sector_inside disk (?s + of_nat k)" if "k < ?k" for k
  proof -
    define m where "m = (if k = 0 then 0 else k * 512 - unat (off AND 511))"
    have lt: "unat (off AND 511) < 512" by (simp add: unat_and_511)
    have "k * 512 < unat (off AND 511) + unat n" if "0 < k"
    proof -
      have "Suc k \<le> (unat (off AND 511) + unat n + 511) div 512" using \<open>k < ?k\<close> by (simp add: span_def)
      then show ?thesis by linarith
    qed
    then have m: "m < unat n" "unat off + m = (unat (drop_bit 9 off) + k) * 512 + (if k = 0 then unat (off AND 511) else 0)"
      using pos lt by (auto simp: m_def o)
    then have "(unat off + m) div 512 = unat (drop_bit 9 off) + k" using lt by simp
    moreover have "s + of_nat (unat (drop_bit 9 off) + k) = ?s + of_nat k" by (simp add: add.assoc)
    ultimately show ?thesis using t m(1) unfolding touches_only_def by metis
  qed
  then have i: "\<forall>k < ?k. inside_chain (disk_partition disk) ((unat ?s + k) mod 2 ^ 64) 1 \<and>
      unat (?g + (?s + of_nat k)) < unat (clamped_total disk)"
    by (simp add: sector_inside_iff unat_word_ariths unat_of_nat mod_simps)
  have run: "unat (?g + ?s + of_nat k) = unat (?g + ?s) + k" if "k < ?k" for k
    using that
  proof (induction k)
    case (Suc k)
    have "unat (?g + ?s + of_nat k) < unat (clamped_total disk)" using i Suc.prems by (simp add: add.assoc)
    then have "unat (?g + ?s + of_nat k) + 1 < 2 ^ 64" using clamped_total_le [of disk] by simp
    then have "unat (?g + ?s + of_nat k + 1) = unat (?g + ?s + of_nat k) + 1" by (simp add: unat_plus_exact)
    then show ?case using Suc by (simp add: add.assoc add.commute)
  qed simp
  have "unat ?s < 2 ^ 64" using unsigned_less [of ?s, where 'a = nat] by simp
  then have "inside_chain (disk_partition disk) (unat ?s) ?k" using i k by (intro inside_chain_join) auto
  moreover obtain k0 where k0: "?k = Suc k0" using k by (cases ?k) simp_all
  then have "unat (?g + ?s + of_nat k0) < unat (clamped_total disk)" using i by (simp add: add.assoc)
  then have "unat (?g + ?s) + ?k \<le> unat (clamped_total disk)" using run [of k0] k0 by simp
  moreover have "unat (?g + ?s) < unat (clamped_total disk)" using i [THEN spec [where x = 0]] k by (simp add: add.assoc)
  ultimately have "grub_disk_adjust_range disk s off n = Some (?g + ?s, off AND 511)"
    by (subst adjust_range_iff [OF sz]) simp
  then show ?thesis by simp
qed

text \<open>The bytes of a sector of the disk or of its partition.\<close>

definition disk_sectors :: "content \<Rightarrow> grub_disk \<Rightarrow> u64 \<Rightarrow> nat \<Rightarrow> u8" where
  "disk_sectors content disk w o' = part_image content disk (unat w * 512 + o')"

lemma image_sector_bytes:
  "image_bytes (part_image content disk) s off n = sector_bytes (disk_sectors content disk) s (unat off) (unat n)"
proof -
  have "part_image content disk (unat s * 512 + (unat off + m)) =
      disk_sectors content disk (s + of_nat ((unat off + m) div 512)) ((unat off + m) mod 512)" for m
  proof -
    have d: "(unat s * 512 + (unat off + m)) div 512 = unat s + (unat off + m) div 512"
      "(unat s * 512 + (unat off + m)) mod 512 = (unat off + m) mod 512" by simp_all
    have "(of_nat ((unat w * 512 + (unat off + m) mod 512) div 512) :: u64) = w" for w :: u64 by simp
    then show ?thesis by (simp add: disk_sectors_def part_image_def d)
  qed
  then show ?thesis
    by (auto simp: image_bytes_def sector_bytes_def add.assoc intro!: nth_equalityI)
qed


lemma out_of_range_disk_read:
  assumes "open_ready content good st" and "grub_disk_adjust_range disk s off n = None"
  shows "\<exists>st'. grub_disk_read dread hook disk s off n st = Some ((GRUB_ERR_OUT_OF_RANGE, []), st') \<and>
    open_ready content good st' \<and> d_errno st' = GRUB_ERR_OUT_OF_RANGE"
  using assms unfolding open_ready_def grub_disk_read_def
  by (auto simp: Let_def push_pop_error_id cache_inv_def record_disk_read_wf d_errno_def)
     (auto simp: raise_error_def)

sublocale disk_device \<subseteq> fs: fs_disk "grub_disk_read dread None disk" "disk_sectors content disk" "sector_inside disk"
    "\<lambda>st. served disk \<and> open_ready content good st" live for disk
proof
  fix st :: "'h dstate" and n s off :: u64
  assume ok: "served disk \<and> open_ready content good st" and n: "unat n + 1022 < 2 ^ 64"
  have h: "hooked_device dread content good served live None" by unfold_locales simp_all
  show "\<exists>e buf st'. grub_disk_read dread None disk s off n st = Some ((e, buf), st') \<and>
      (served disk \<and> open_ready content good st') \<and> (e \<noteq> GRUB_ERR_NONE \<longrightarrow> d_errno st' = e) \<and>
      (e = GRUB_ERR_NONE \<longrightarrow> buf = sector_bytes (disk_sectors content disk) s (unat off) (unat n)) \<and>
      (quiet live st \<and> 0 < unat n \<and> touches_only (sector_inside disk) s (unat off) (unat n) \<longrightarrow>
         e = GRUB_ERR_NONE \<and> quiet live st')"
  proof (cases "grub_disk_adjust_range disk s off n")
    case None
    have "\<not> (0 < unat n \<and> touches_only (sector_inside disk) s (unat off) (unat n))"
      using adjust_range_sectors [OF n, of disk s off] None by auto
    then show ?thesis using out_of_range_disk_read [where dread = dread and hook = None, OF conjunct2 [OF ok] None] ok by force
  next
    case (Some p)
    obtain s1 off1 where p: "p = (s1, off1)" by (cases p)
    from hooked_device.disk_read_ok [OF h _ _ _ _ n Some [unfolded p], of st] ok obtain e buf st' where
      r: "grub_disk_read dread None disk s off n st = Some ((e, buf), st')"
      and i: "cache_inv content good st'" "loose_frame st st'"
      and b: "e = GRUB_ERR_NONE \<longrightarrow> buf = content_bytes content (disk_dev_id disk) (disk_id disk) (unat s1 * 512 + unat off1) (unat n)"
      and q: "quiet live st \<and> 0 < unat n \<longrightarrow> e = GRUB_ERR_NONE \<and> quiet live st'"
      by (auto simp: open_ready_def)
    have "open_ready content good st'" using ok i by (simp add: open_ready_def loose_frame_def)
    moreover have "e \<noteq> GRUB_ERR_NONE \<longrightarrow> d_errno st' = e" using disk_read_errno [OF _ r] ok by blast
    ultimately show ?thesis
      using r b q ok adjusted_image [OF n Some [unfolded p], of content] by (auto simp: image_sector_bytes)
  qed
qed auto

text \<open>Loopback disks, with or without a current partition.\<close>

interpretation loop_fs: fs_disk "grub_disk_read (grub_loopback_read grub_procfs_read p) None disk"
    "disk_sectors (loop_content ls) disk" "sector_inside disk"
    "\<lambda>st. loop_served (loop_devs ls) disk \<and> open_ready (loop_content ls) (loop_good ls) st" True
  for p ls disk
  by (rule procfs.loop_disk.fs.fs_disk_axioms)

end
