(* ===== verification/Fshelp_Read.thy ===== *)
theory Fshelp_Read
  imports Fs_Disk
begin

text \<open>
  Correctness of \<open>grub_fshelp_read_file\<close>. The contract of the block map of a file system is the
  locale \<open>block_map\<close>. Under it the loop ends, a read that succeeds delivers the bytes of the file, the
  holes as zeros, however blocks are merged to runs, and a read of mapped blocks inside the disk
  succeeds on a reliable disk.
\<close>

subsection \<open>The contents of a file\<close>

text \<open>Byte \<open>j\<close> of a file whose block \<open>i\<close> is block \<open>blk i\<close> of the disk, or a hole.\<close>

definition file_byte :: "(u64 \<Rightarrow> nat \<Rightarrow> u8) \<Rightarrow> (u64 \<Rightarrow> u64) \<Rightarrow> nat \<Rightarrow> u64 \<Rightarrow> nat \<Rightarrow> u8" where
  "file_byte sec blk l start j =
     (let b = push_bit l (blk (of_nat (j div 2 ^ (l + 9)))); o' = j mod 2 ^ (l + 9)
      in if b = 0 then 0 else sec (b + start + of_nat (o' div 512)) (o' mod 512))"

lemma map_upt_join: "a \<le> b \<Longrightarrow> b \<le> c \<Longrightarrow> map f [a..<b] @ map f [b..<c] = map f [a..<(c::nat)]"
  using upt_add_eq_append [of a b "c - b"] by simp

text \<open>A request inside the bounds in which nothing wraps around.\<close>

definition req_ok :: "file_req \<Rightarrow> bool" where
  "req_ok req \<longleftrightarrow> fr_log2blocksize req + 9 < 31 \<and> 0 < unat (fr_len req) \<and> unat (fr_pos req) + unat (fr_len req) < 2 ^ 63 \<and>
     fr_blockcnt req = drop_bit (fr_log2blocksize req + 9) ((fr_len req + fr_pos req) + blocksize req - 1)"

definition bsize :: "file_req \<Rightarrow> nat" where
  "bsize req = 2 ^ (fr_log2blocksize req + 9)"

definition req_end :: "file_req \<Rightarrow> nat" where
  "req_end req = unat (fr_pos req) + unat (fr_len req)"

text \<open>Where in the file the request is before block \<open>i\<close>.\<close>

definition reached :: "file_req \<Rightarrow> nat \<Rightarrow> nat" where
  "reached req i = (if i * bsize req \<le> unat (fr_pos req) then unat (fr_pos req) else min (i * bsize req) (req_end req))"

lemma bsize_pos [simp]: "0 < bsize req" by (simp add: bsize_def)

lemma bsize_512: "bsize req = 2 ^ fr_log2blocksize req * 512" by (simp add: bsize_def power_add)

lemma bsize_small: "req_ok req \<Longrightarrow> bsize req \<le> 2 ^ 30"
  unfolding bsize_def req_ok_def by (intro power_increasing) simp_all

lemma unat_blocksize: "req_ok req \<Longrightarrow> unat (blocksize req) = bsize req"
  unfolding blocksize_def bsize_def by (rule unat_push_bit_1) (simp add: req_ok_def)

lemma blocksize_mask: "blocksize req - 1 = mask (fr_log2blocksize req + 9)"
  unfolding blocksize_def by (rule push_bit_1_mask)

lemma unat_first_block: "unat (first_block req) = unat (fr_pos req) div bsize req"
  by (simp add: first_block_def unat_drop_bit bsize_def)

lemma unat_blockcnt:
  assumes "req_ok req"
  shows "unat (fr_blockcnt req) = (req_end req + bsize req - 1) div bsize req"
proof -
  have b: "unat (blocksize req) = bsize req" "bsize req \<le> 2 ^ 30" "0 < bsize req"
    using bsize_small [OF assms] assms by (simp_all add: unat_blocksize)
  have e: "unat (fr_len req + fr_pos req) = req_end req" "req_end req < 2 ^ 63"
    using assms by (simp_all add: req_ok_def req_end_def unat_plus_exact)
  have "unat (fr_len req + fr_pos req + blocksize req) = req_end req + bsize req"
    using b e by (simp add: unat_plus_exact)
  then have "unat ((fr_len req + fr_pos req) + blocksize req - 1) = req_end req + bsize req - 1"
    using b(3) by (subst unat_minus_exact) (simp_all add: word_le_nat_alt del: bsize_pos)
  then show ?thesis using assms by (simp add: req_ok_def unat_drop_bit bsize_def)
qed

lemma block_bounds:
  assumes "req_ok req"
  shows "unat (first_block req) < unat (fr_blockcnt req)" "req_end req \<le> unat (fr_blockcnt req) * bsize req"
    "i < unat (fr_blockcnt req) \<longleftrightarrow> i * bsize req < req_end req" "unat (fr_blockcnt req) < 2 ^ 55"
proof -
  let ?b = "bsize req" and ?c = "unat (fr_blockcnt req)"
  have c: "?c = (req_end req + ?b - 1) div ?b" by (rule unat_blockcnt [OF assms])
  have pos: "0 < ?b" "unat (fr_pos req) < req_end req" using assms by (simp_all add: req_ok_def req_end_def)
  have le: "i < ?c \<longleftrightarrow> i * ?b < req_end req" for i
  proof -
    have "i < ?c \<longleftrightarrow> Suc i * ?b \<le> req_end req + ?b - 1"
      unfolding c Suc_le_eq [symmetric] by (rule less_eq_div_iff_mult_less_eq [OF pos(1)])
    also have "\<dots> \<longleftrightarrow> i * ?b < req_end req" using pos by auto
    finally show ?thesis .
  qed
  show "i < ?c \<longleftrightarrow> i * ?b < req_end req" by (rule le)
  have "unat (fr_pos req) div ?b * ?b \<le> unat (fr_pos req)" by simp
  then show "unat (first_block req) < ?c" unfolding le unat_first_block using pos(2) by linarith
  show "req_end req \<le> ?c * ?b" using le [of ?c] by simp
  have "req_end req < 2 ^ 63" using assms by (simp add: req_ok_def req_end_def)
  then have "req_end req + ?b - 1 \<le> 2 ^ 64 - 1" using bsize_small [OF assms] by simp
  then have "?c \<le> (2 ^ 64 - 1) div 2 ^ 9"
    unfolding c bsize_def power_add by (rule order_trans [OF div_le_mono div_le_mono2]) simp_all
  then show "?c < 2 ^ 55" by simp
qed


text \<open>The part of block \<open>i\<close> that is read, in bytes of the file.\<close>

lemma block_end_reached:
  assumes req: "req_ok req" and i: "unat (first_block req) \<le> unat i" "unat i < unat (fr_blockcnt req)"
  shows "unat (block_end req i) + unat i * bsize req = reached req (Suc (unat i))"
    "unat (skip_first req i) + unat i * bsize req = reached req (unat i)"
proof -
  let ?b = "bsize req" and ?i = "unat i" and ?e = "req_end req"
  have lt: "?i * ?b < ?e" using i(2) block_bounds(3) [OF req] by blast
  have next_gt: "unat (fr_pos req) < Suc ?i * ?b"
    using i(1) unfolding unat_first_block div_less_iff_less_mult [OF bsize_pos, symmetric] by simp
  have e: "unat (fr_len req + fr_pos req) = ?e"
    using req by (simp add: req_ok_def req_end_def unat_plus_exact)
  have m: "unat ((fr_len req + fr_pos req) AND (blocksize req - 1)) = ?e mod ?b"
    unfolding blocksize_mask unat_and_mask e by (simp add: bsize_def)
  have c: "i = fr_blockcnt req - 1 \<longleftrightarrow> ?e \<le> Suc ?i * ?b"
  proof -
    have "1 \<le> fr_blockcnt req" using i(2) by (simp add: word_le_nat_alt)
    then have "unat (fr_blockcnt req - 1) = unat (fr_blockcnt req) - 1" by (simp add: unat_minus_exact)
    then have "i = fr_blockcnt req - 1 \<longleftrightarrow> \<not> Suc ?i < unat (fr_blockcnt req)"
      using i(2) by (auto simp: word_unat_eq_iff)
    then show ?thesis unfolding block_bounds(3) [OF req] not_less .
  qed
  have r: "reached req (Suc ?i) = min (Suc ?i * ?b) ?e" using next_gt by (simp add: reached_def)
  show "unat (block_end req i) + ?i * ?b = reached req (Suc ?i)"
  proof (cases "?e \<le> Suc ?i * ?b")
    case True
    define d where "d = ?e - ?i * ?b"
    have d: "?e = d + ?i * ?b" "0 < d" "d \<le> ?b" using lt True by (simp_all add: d_def)
    then have "?e mod ?b = (if d = ?b then 0 else d)" by auto
    then have "unat (block_end req i) = d"
      using True c m d req by (auto simp: block_end_def Let_def unat_blocksize word_unat_eq_iff)
    then show ?thesis using r True d(1) by simp
  next
    case False
    then have "unat (block_end req i) = ?b" using c req by (simp add: block_end_def Let_def unat_blocksize)
    then show ?thesis using r False by simp
  qed
  have p: "unat (fr_pos req AND (blocksize req - 1)) = unat (fr_pos req) mod ?b"
    unfolding blocksize_mask unat_and_mask by (simp add: bsize_def)
  show "unat (skip_first req i) + ?i * ?b = reached req ?i"
  proof (cases "i = first_block req")
    case True
    then have f: "?i = unat (fr_pos req) div ?b" by (simp add: unat_first_block)
    have "?i * ?b \<le> unat (fr_pos req)" unfolding f by simp
    then show ?thesis
      using True p by (simp add: skip_first_def reached_def unat_first_block)
  next
    case False
    then have "unat (fr_pos req) div ?b < ?i" using i(1) by (simp add: unat_first_block word_unat_eq_iff)
    then have "unat (fr_pos req) < ?i * ?b" by (simp add: div_less_iff_less_mult)
    then show ?thesis using False lt by (simp add: skip_first_def reached_def)
  qed
qed

lemma reached_mono: "req_ok req \<Longrightarrow> i \<le> j \<Longrightarrow> reached req i \<le> reached req j"
  by (auto simp: reached_def req_end_def min_def intro: le_trans mult_le_mono1)

lemma reached_first: "reached req (unat (first_block req)) = unat (fr_pos req)"
  by (simp add: reached_def unat_first_block)

lemma reached_last: "req_ok req \<Longrightarrow> reached req (unat (fr_blockcnt req)) = req_end req"
  using block_bounds(2) [of req] by (auto simp: reached_def req_ok_def req_end_def)

lemma reached_le: "reached req i \<le> req_end req"
  by (simp add: reached_def req_end_def)


subsection \<open>Runs\<close>

text \<open>The \<open>run\<close> blocks from block \<open>i\<close> on follow each other on the disk from sector \<open>b\<close> on; none is a hole.\<close>

definition contiguous :: "(u64 \<Rightarrow> u64) \<Rightarrow> nat \<Rightarrow> u64 \<Rightarrow> u64 \<Rightarrow> nat \<Rightarrow> bool" where
  "contiguous blk l i b run \<longleftrightarrow> (\<forall>r < run. push_bit l (blk (i + of_nat r)) = b + push_bit l (of_nat r)
     \<and> push_bit l (blk (i + of_nat r)) \<noteq> 0)"

lemma contiguous_one: "push_bit l (blk i) \<noteq> 0 \<Longrightarrow> contiguous blk l i (push_bit l (blk i)) 1"
  by (simp add: contiguous_def)

lemma contiguous_Suc:
  "contiguous blk l i b run \<Longrightarrow> push_bit l (blk (i + of_nat run)) = b + push_bit l (of_nat run) \<Longrightarrow>
   push_bit l (blk (i + of_nat run)) \<noteq> 0 \<Longrightarrow> contiguous blk l i b (Suc run)"
  by (auto simp: contiguous_def less_Suc_eq)

text \<open>A byte of the run, by its distance \<open>q\<close> from the start of the run.\<close>

lemma run_byte:
  assumes c: "contiguous blk l i b run" and q: "q < run * 2 ^ (l + 9)"
  shows "file_byte sec blk l start (unat i * 2 ^ (l + 9) + q) = sec (b + start + of_nat (q div 512)) (q mod 512)"
    and "\<exists>r k. r < run \<and> k < 2 ^ l \<and> b + start + of_nat (q div 512) = push_bit l (blk (i + of_nat r)) + start + of_nat k"
proof -
  define r where "r = q div 2 ^ (l + 9)"
  define o' where "o' = q mod 2 ^ (l + 9)"
  have r: "r < run" using q by (simp add: r_def div_less_iff_less_mult)
  have q': "q = (r * 2 ^ l) * 512 + o'"
    using div_mult_mod_eq [of q "2 ^ (l + 9)"] by (simp add: r_def o'_def power_add ac_simps)
  have d: "q div 512 = r * 2 ^ l + o' div 512" "q mod 512 = o' mod 512" unfolding q' by simp_all
  have o: "o' div 512 < 2 ^ l"
  proof -
    have "o' < 2 ^ l * 512" by (simp add: o'_def power_add)
    then show ?thesis by (simp add: div_less_iff_less_mult)
  qed
  have blk: "push_bit l (blk (i + of_nat r)) = b + push_bit l (of_nat r)" "push_bit l (blk (i + of_nat r)) \<noteq> 0"
    using c r by (auto simp: contiguous_def)
  have sector: "b + start + of_nat (q div 512) = push_bit l (blk (i + of_nat r)) + start + of_nat (o' div 512)"
    unfolding blk(1) d(1) by (simp add: push_bit_eq_mult algebra_simps)
  then show "\<exists>r k. r < run \<and> k < 2 ^ l \<and> b + start + of_nat (q div 512) = push_bit l (blk (i + of_nat r)) + start + of_nat k"
    using r o by blast
  have j: "(unat i * 2 ^ (l + 9) + q) div 2 ^ (l + 9) = unat i + r" "(unat i * 2 ^ (l + 9) + q) mod 2 ^ (l + 9) = o'"
    by (simp_all add: r_def o'_def)
  show "file_byte sec blk l start (unat i * 2 ^ (l + 9) + q) = sec (b + start + of_nat (q div 512)) (q mod 512)"
    using blk(2) by (simp add: file_byte_def Let_def j sector d(2) flip: o'_def)
qed

lemma run_bytes:
  assumes req: "req_ok req" and c: "contiguous blk (fr_log2blocksize req) i b run"
    and i: "unat (first_block req) \<le> unat i" "unat i < unat (fr_blockcnt req)"
    and run: "unat i + run \<le> unat (fr_blockcnt req)"
  shows "sector_bytes sec (b + start) (unat (skip_first req i)) (reached req (unat i + run) - reached req (unat i)) =
      map (file_byte sec blk (fr_log2blocksize req) start) [reached req (unat i)..<reached req (unat i + run)]"
    and "\<forall>r < run. \<forall>k < 2 ^ fr_log2blocksize req. inside (push_bit (fr_log2blocksize req) (blk (i + of_nat r)) + start + of_nat k) \<Longrightarrow>
      touches_only inside (b + start) (unat (skip_first req i)) (reached req (unat i + run) - reached req (unat i))"
proof -
  let ?n = "reached req (unat i + run) - reached req (unat i)" and ?skip = "unat (skip_first req i)"
  have skip: "?skip + unat i * bsize req = reached req (unat i)" by (rule block_end_reached(2) [OF req i])
  have lt: "unat (fr_pos req) < req_end req" using req by (simp add: req_ok_def req_end_def)
  have upto: "reached req (unat i + run) \<le> (unat i + run) * bsize req \<or> run = 0"
  proof (cases run)
    case (Suc k)
    have "unat (fr_pos req) div bsize req < unat i + run" using i(1) Suc by (simp add: unat_first_block)
    then have "unat (fr_pos req) < (unat i + run) * bsize req" by (simp add: div_less_iff_less_mult)
    then show ?thesis by (simp add: reached_def)
  qed simp
  have q: "?skip + m < run * 2 ^ (fr_log2blocksize req + 9)" if "m < ?n" for m
    using upto skip that unfolding bsize_def [symmetric] by (auto simp: add_mult_distrib)
  show "sector_bytes sec (b + start) ?skip ?n =
      map (file_byte sec blk (fr_log2blocksize req) start) [reached req (unat i)..<reached req (unat i + run)]"
  proof (rule nth_equalityI)
    fix m assume "m < length (sector_bytes sec (b + start) ?skip ?n)"
    then have m: "m < ?n" by simp
    have "file_byte sec blk (fr_log2blocksize req) start (reached req (unat i) + m) =
        sec (b + start + of_nat ((?skip + m) div 512)) ((?skip + m) mod 512)"
      using run_byte(1) [OF c q [OF m], of sec start] skip by (simp add: bsize_def ac_simps)
    then show "sector_bytes sec (b + start) ?skip ?n ! m =
        map (file_byte sec blk (fr_log2blocksize req) start) [reached req (unat i)..<reached req (unat i + run)] ! m"
      using m by (simp add: sector_bytes_def)
  qed simp
  assume in_disk: "\<forall>r < run. \<forall>k < 2 ^ fr_log2blocksize req. inside (push_bit (fr_log2blocksize req) (blk (i + of_nat r)) + start + of_nat k)"
  show "touches_only inside (b + start) ?skip ?n"
    unfolding touches_only_def
  proof (intro allI impI)
    fix m assume "m < ?n"
    from run_byte(2) [OF c q [OF this], of start] obtain r k where rk: "r < run" "k < 2 ^ fr_log2blocksize req"
      "b + start + of_nat ((?skip + m) div 512) = push_bit (fr_log2blocksize req) (blk (i + of_nat r)) + start + of_nat k" by blast
    show "inside (b + start + of_nat ((?skip + m) div 512))" unfolding rk(3) using in_disk rk(1,2) by blast
  qed
qed


subsection \<open>The contract of a block map\<close>

text \<open>
  \<open>blk i\<close> is the block of the disk that a call without a pending error gives for block \<open>i\<close>; for the
  blocks in \<open>mapped\<close> the call succeeds on a reliable disk.
\<close>

locale block_map = fs_disk rd sec inside ok live
  for rd :: "u64 \<Rightarrow> u64 \<Rightarrow> u64 \<Rightarrow> 'h dstate \<Rightarrow> ((grub_err_t \<times> bytes) \<times> 'h dstate) option"
    and sec :: "u64 \<Rightarrow> nat \<Rightarrow> u8" and inside :: "u64 \<Rightarrow> bool" and ok :: "'h dstate \<Rightarrow> bool" and live :: bool +
  fixes get_block :: "('n, 'h) get_block" and node_ok :: "'n \<Rightarrow> bool" and blk :: "u64 \<Rightarrow> u64" and mapped :: "u64 \<Rightarrow> bool"
  assumes get_block_ok: "ok st \<Longrightarrow> node_ok node \<Longrightarrow>
      \<exists>b node' st'. get_block node i st = Some (b, node', st') \<and> ok st' \<and> node_ok node' \<and>
        (d_errno st' = GRUB_ERR_NONE \<longrightarrow> b = blk i) \<and> (quiet live st \<and> mapped i \<longrightarrow> quiet live st')"
begin

lemma merge_run_ok:
  assumes req: "req_ok req" and i: "unat (first_block req) \<le> unat i" "unat i < unat (fr_blockcnt req)"
    and st: "ok st" "node_ok node" "d_errno st = GRUB_ERR_NONE"
    and run: "0 < unat run" "unat i + unat run \<le> unat (fr_blockcnt req)" "contiguous blk (fr_log2blocksize req) i b (unat run)"
      "unat len = reached req (unat i + unat run) - reached req (unat i)"
  shows "\<exists>r node' st'. merge_run get_block req i b run len node st = Some (r, node', st') \<and> ok st' \<and> node_ok node' \<and>
     (case r of Inl _ \<Rightarrow> d_errno st' \<noteq> GRUB_ERR_NONE
      | Inr (run', len') \<Rightarrow> d_errno st' = GRUB_ERR_NONE \<and> 0 < unat run' \<and> unat i + unat run' \<le> unat (fr_blockcnt req) \<and>
          contiguous blk (fr_log2blocksize req) i b (unat run') \<and> unat len' = reached req (unat i + unat run') - reached req (unat i)) \<and>
     (quiet live st \<and> (\<forall>j. unat i < unat j \<and> unat j < unat (fr_blockcnt req) \<longrightarrow> mapped j) \<longrightarrow> isl r = False \<and> quiet live st')"
  using st run
proof (induction "unat (fr_blockcnt req) - (unat i + unat run)" arbitrary: run len node st rule: less_induct)
  case less
  note step = merge_run.simps [of get_block req i b run len node st]
  have small: "unat (fr_blockcnt req) < 2 ^ 55" by (rule block_bounds(4) [OF req])
  have ir: "unat (i + run) = unat i + unat run" using less.prems(5) small by (simp add: unat_plus_exact)
  let ?fin = "\<lambda>node' st'. merge_run get_block req i b run len node st = Some (Inr (run, len), node', st') \<and> ok st' \<and> node_ok node' \<and>
    d_errno st' = GRUB_ERR_NONE \<and> (quiet live st \<and> (\<forall>j. unat i < unat j \<and> unat j < unat (fr_blockcnt req) \<longrightarrow> mapped j) \<longrightarrow> quiet live st')"
  have finished: ?case if "?fin node' st'" for node' st'
    by (rule exI [of _ "Inr (run, len)"], rule exI [of _ node'], rule exI [of _ st']) (use that less.prems in auto)
  show ?case
  proof (cases "i + run < fr_blockcnt req \<and> \<not> (fr_max_read req \<noteq> 0 \<and> len + block_end req (i + run) > fr_max_read req)")
    case False
    have "?fin node st" using False less.prems step by (auto simp: Let_def)
    then show ?thesis by (rule finished)
  next
    case True
    from get_block_ok [OF less.prems(1,2), of "i + run"] obtain c node1 st1 where
      g: "get_block node (i + run) st = Some (c, node1, st1)" "ok st1" "node_ok node1"
      "d_errno st1 = GRUB_ERR_NONE \<longrightarrow> c = blk (i + run)" "quiet live st \<and> mapped (i + run) \<longrightarrow> quiet live st1" by blast
    have m: "mapped (i + run)" if "\<forall>j. unat i < unat j \<and> unat j < unat (fr_blockcnt req) \<longrightarrow> mapped j"
      using that True less.prems(4) ir by (simp add: word_less_nat_alt)
    show ?thesis
    proof (cases "d_errno st1 = GRUB_ERR_NONE")
      case False
      then have "merge_run get_block req i b run len node st = Some (Inl (), node1, st1)"
        using True g(1) step by (simp add: Let_def)
      then show ?thesis using g m False by (fastforce dest: quiet_errno)
    next
      case e: True
      then have c: "c = blk (i + run)" using g by simp
      show ?thesis
      proof (cases "push_bit (fr_log2blocksize req) c \<noteq> 0 \<and>
          push_bit (fr_log2blocksize req) c = b + push_bit (fr_log2blocksize req) run")
        case False
        have "?fin node1 st1" using False True e g m step by (auto simp: Let_def)
        then show ?thesis by (rule finished)
      next
        case adj: True
        have up: "unat (run + 1) = Suc (unat run)" using less.prems(5) small by (simp add: unat_plus_exact)
        have in_range: "unat (first_block req) \<le> unat (i + run)" "unat (i + run) < unat (fr_blockcnt req)"
          using True i(1) ir by (simp_all add: word_less_nat_alt)
        have len: "unat (len + block_end req (i + run)) = reached req (unat i + Suc (unat run)) - reached req (unat i)"
        proof -
          let ?p = "i + run"
          have first: "skip_first req ?p = 0"
            using less.prems(4) i(1) ir by (auto simp: skip_first_def word_unat_eq_iff)
          have be: "unat (block_end req ?p) + (unat i + unat run) * bsize req = reached req (Suc (unat i + unat run))"
            "(unat i + unat run) * bsize req = reached req (unat i + unat run)"
            using block_end_reached [OF req in_range] first by (simp_all add: ir)
          have mono: "reached req (unat i) \<le> reached req (unat i + unat run)" by (rule reached_mono [OF req]) simp
          have "unat len + unat (block_end req ?p) = reached req (Suc (unat i + unat run)) - reached req (unat i)"
            using be mono less.prems(7) by simp
          moreover have "reached req (Suc (unat i + unat run)) < 2 ^ 63"
            using reached_le [of req "Suc (unat i + unat run)"] req by (simp add: req_ok_def req_end_def)
          ultimately show ?thesis by (subst unat_plus_exact) simp_all
        qed
        have go: "merge_run get_block req i b run len node st =
            merge_run get_block req i b (run + 1) (len + block_end req (i + run)) node1 st1"
          using True e g(1) adj by (subst step) (auto simp: Let_def)
        have "contiguous blk (fr_log2blocksize req) i b (unat (run + 1))"
          unfolding up by (rule contiguous_Suc) (use less.prems(6) adj c in auto)
        then show ?thesis
          unfolding go
          using less.hyps [OF _ g(2,3) e, of "run + 1" "len + block_end req (i + run)"] up len in_range ir g(5) m
          by fastforce
      qed
    qed
  qed
qed


subsection \<open>The loop over the file\<close>

lemma read_file_loop_ok:
  assumes req: "req_ok req"
    and i: "unat (first_block req) \<le> unat i" "unat i \<le> unat (fr_blockcnt req)"
    and st: "ok st" "node_ok node" "d_errno st = GRUB_ERR_NONE"
    and buf: "buf = map (file_byte sec blk (fr_log2blocksize req) (fr_blocks_start req)) [unat (fr_pos req)..<reached req (unat i)]"
  shows "\<exists>r out node' st'. read_file_loop rd get_block req i buf node st = Some ((r, out), node', st') \<and> ok st' \<and> node_ok node' \<and>
     (r = -1 \<and> d_errno st' \<noteq> GRUB_ERR_NONE \<or> r = sint (fr_len req) \<and> d_errno st' = GRUB_ERR_NONE \<and>
        out = map (file_byte sec blk (fr_log2blocksize req) (fr_blocks_start req)) [unat (fr_pos req)..<req_end req]) \<and>
     (quiet live st \<and> (\<forall>j. unat (first_block req) \<le> unat j \<and> unat j < unat (fr_blockcnt req) \<longrightarrow> mapped j \<and>
        (push_bit (fr_log2blocksize req) (blk j) = 0 \<or> (\<forall>k < 2 ^ fr_log2blocksize req. inside (push_bit (fr_log2blocksize req) (blk j) + fr_blocks_start req + of_nat k))))
      \<longrightarrow> r = sint (fr_len req) \<and> quiet live st')"
  using i st buf
proof (induction "unat (fr_blockcnt req) - unat i" arbitrary: i buf node st rule: less_induct)
  case less
  let ?l = "fr_log2blocksize req" and ?start = "fr_blocks_start req" and ?cnt = "unat (fr_blockcnt req)"
  let ?fb = "file_byte sec blk ?l ?start"
  let ?fine = "\<forall>j. unat (first_block req) \<le> unat j \<and> unat j < ?cnt \<longrightarrow> mapped j \<and>
        (push_bit ?l (blk j) = 0 \<or> (\<forall>k < 2 ^ ?l. inside (push_bit ?l (blk j) + ?start + of_nat k)))"
  note step = read_file_loop.simps [of rd get_block req i buf node st]
  have small: "?cnt < 2 ^ 55" by (rule block_bounds(4) [OF req])
  have inner: "unat (fr_pos req) \<le> reached req (unat i)" by (simp add: reached_def req_end_def)
  show ?case
  proof (cases "i < fr_blockcnt req")
    case False
    then have "unat i = ?cnt" using less.prems(2) by (simp add: word_less_nat_alt)
    then show ?thesis using False less.prems step reached_last [OF req] by auto
  next
    case True
    have lt: "unat i < ?cnt" using True by (simp add: word_less_nat_alt)
    from get_block_ok [OF less.prems(3,4), of i] obtain c node1 st1 where
      g: "get_block node i st = Some (c, node1, st1)" "ok st1" "node_ok node1"
      "d_errno st1 = GRUB_ERR_NONE \<longrightarrow> c = blk i" "quiet live st \<and> mapped i \<longrightarrow> quiet live st1" by blast
    have fine_i: "mapped i" if ?fine using that less.prems(1) lt by blast
    show ?thesis
    proof (cases "d_errno st1 = GRUB_ERR_NONE")
      case False
      then have "read_file_loop rd get_block req i buf node st = Some ((-1, buf), node1, st1)"
        using True g(1) by (subst step) (simp add: Let_def)
      then show ?thesis using g fine_i False by (fastforce dest: quiet_errno)
    next
      case e: True
      then have c: "c = blk i" using g by simp
      have be: "unat (block_end req i) + unat i * bsize req = reached req (Suc (unat i))"
        "unat (skip_first req i) + unat i * bsize req = reached req (unat i)"
        using block_end_reached [OF req less.prems(1) lt] by simp_all
      have mono: "reached req (unat i) \<le> reached req (Suc (unat i))" by (rule reached_mono [OF req]) simp
      have first: "unat (block_end req i - skip_first req i) = reached req (Suc (unat i)) - reached req (unat i)"
        using be mono by (subst unat_minus_exact) (simp_all add: word_le_nat_alt)
      show ?thesis
      proof (cases "push_bit ?l c = 0")
        case True
        have up: "unat (i + 1) = Suc (unat i)" using lt small by (simp add: unat_plus_exact)
        have hole: "?fb j = 0" if "reached req (unat i) \<le> j" "j < reached req (Suc (unat i))" for j
        proof -
          have "reached req (Suc (unat i)) \<le> Suc (unat i) * bsize req"
          proof -
            have "unat (block_end req i) \<le> bsize req"
            proof -
              have "unat ((fr_len req + fr_pos req) AND (blocksize req - 1)) \<le> bsize req"
                unfolding blocksize_mask unat_and_mask by (simp add: bsize_def)
              then show ?thesis using unat_blocksize [OF req] by (simp add: block_end_def Let_def)
            qed
            then show ?thesis using be(1) by simp
          qed
          then have "j div bsize req = unat i" using that be(2) by (intro div_nat_eqI) (simp_all add: mult.commute)
          then show ?thesis using True c by (simp add: file_byte_def Let_def flip: bsize_def)
        qed
        have go: "read_file_loop rd get_block req i buf node st =
            read_file_loop rd get_block req (i + 1) (buf @ replicate (unat (block_end req i - skip_first req i)) 0) node1 st1"
          using \<open>i < fr_blockcnt req\<close> e g(1) True by (subst step) (simp add: Let_def)
        have "buf @ replicate (unat (block_end req i - skip_first req i)) 0 = map ?fb [unat (fr_pos req)..<reached req (unat (i + 1))]"
        proof -
          have "replicate (reached req (Suc (unat i)) - reached req (unat i)) 0 = map ?fb [reached req (unat i)..<reached req (Suc (unat i))]"
            by (rule nth_equalityI) (simp_all add: hole)
          then show ?thesis
            unfolding less.prems(6) up first using inner mono by (simp only: map_upt_join)
        qed
        then show ?thesis
          unfolding go using less.hyps [OF _ _ _ g(2,3) e, of "i + 1"] up lt less.prems(1) g(5) fine_i by fastforce
      next
        case False
        have r1: "contiguous blk ?l i (push_bit ?l c) (unat (1 :: u64))" using contiguous_one [of ?l blk i] False c by simp
        have l1: "unat (block_end req i - skip_first req i) = reached req (unat i + unat (1 :: u64)) - reached req (unat i)"
          using first by simp
        from merge_run_ok [OF req less.prems(1) lt g(2,3) e _ _ r1 l1] lt obtain r node2 st2 where
          m: "merge_run get_block req i (push_bit ?l c) 1 (block_end req i - skip_first req i) node1 st1 = Some (r, node2, st2)"
          "ok st2" "node_ok node2"
          and mr: "case r of Inl _ \<Rightarrow> d_errno st2 \<noteq> GRUB_ERR_NONE
            | Inr (run', len') \<Rightarrow> d_errno st2 = GRUB_ERR_NONE \<and> 0 < unat run' \<and> unat i + unat run' \<le> ?cnt \<and>
                contiguous blk ?l i (push_bit ?l c) (unat run') \<and> unat len' = reached req (unat i + unat run') - reached req (unat i)"
          and mq: "quiet live st1 \<and> (\<forall>j. unat i < unat j \<and> unat j < ?cnt \<longrightarrow> mapped j) \<longrightarrow> isl r = False \<and> quiet live st2"
          by auto
        have mq': "isl r = False \<and> quiet live st2" if "quiet live st" ?fine
          using that mq g(5) fine_i less.prems(1) by auto
        show ?thesis
        proof (cases r)
          case (Inl u)
          have "read_file_loop rd get_block req i buf node st = Some ((-1, buf), node2, st2)"
            using True e g(1) False m(1) Inl by (subst step) (simp add: Let_def)
          then show ?thesis using m mr mq' Inl by fastforce
        next
          case (Inr x)
          obtain run len where x: "x = (run, len)" by (cases x)
          have run: "d_errno st2 = GRUB_ERR_NONE" "0 < unat run" "unat i + unat run \<le> ?cnt"
            "contiguous blk ?l i (push_bit ?l c) (unat run)" "unat len = reached req (unat i + unat run) - reached req (unat i)"
            using mr Inr x by simp_all
          have ir: "unat (i + run) = unat i + unat run" using run(3) small by (simp add: unat_plus_exact)
          have "unat len \<le> req_end req" using reached_le [of req "unat i + unat run"] run(5) by linarith
          then have len63: "unat len + 1022 < 2 ^ 64" using req by (simp add: req_ok_def req_end_def)
          have grow: "reached req (unat i) \<le> reached req (unat i + unat run)" by (rule reached_mono [OF req]) simp
          have pos: "0 < unat len"
          proof -
            have "unat (fr_pos req) < Suc (unat i) * bsize req"
              using less.prems(1) unfolding unat_first_block div_less_iff_less_mult [OF bsize_pos, symmetric] by simp
            moreover have "unat i * bsize req < req_end req" using lt block_bounds(3) [OF req] by blast
            moreover have "unat (fr_pos req) < req_end req" using req by (simp add: req_ok_def req_end_def)
            ultimately have "reached req (unat i) < reached req (Suc (unat i))" by (auto simp: reached_def)
            moreover have "reached req (Suc (unat i)) \<le> reached req (unat i + unat run)"
              using run(2) by (intro reached_mono [OF req]) simp
            ultimately show ?thesis unfolding run(5) by simp
          qed
          from rd_total [OF m(2) len63, of "push_bit ?l c + ?start" "skip_first req i"] obtain e3 new st3 where
            rd: "rd (push_bit ?l c + ?start) (skip_first req i) len st2 = Some ((e3, new), st3)" "ok st3"
            "e3 \<noteq> GRUB_ERR_NONE \<Longrightarrow> d_errno st3 = e3"
            "e3 = GRUB_ERR_NONE \<Longrightarrow> new = sector_bytes sec (push_bit ?l c + ?start) (unat (skip_first req i)) (unat len)"
            "quiet live st2 \<Longrightarrow> 0 < unat len \<Longrightarrow> touches_only inside (push_bit ?l c + ?start) (unat (skip_first req i)) (unat len)
               \<Longrightarrow> e3 = GRUB_ERR_NONE \<and> quiet live st3" by blast
          have q3: "quiet live st3" if "quiet live st" ?fine
          proof -
            have "\<forall>r < unat run. \<forall>k < 2 ^ ?l. inside (push_bit ?l (blk (i + of_nat r)) + ?start + of_nat k)"
            proof (intro allI impI)
              fix r k assume r: "r < unat run" and k: "k < (2::nat) ^ ?l"
              have "unat (i + of_nat r) = unat i + r" using r run(3) small by (simp add: unat_plus_exact unat_of_nat)
              then have "unat (first_block req) \<le> unat (i + of_nat r) \<and> unat (i + of_nat r) < ?cnt"
                using r run(3) less.prems(1) by linarith
              moreover have "push_bit ?l (blk (i + of_nat r)) \<noteq> 0" using run(4) r by (auto simp: contiguous_def)
              ultimately show "inside (push_bit ?l (blk (i + of_nat r)) + ?start + of_nat k)"
                using that(2) k by blast
            qed
            from run_bytes(2) [OF req run(4) less.prems(1) lt run(3) this] show ?thesis
              using rd(5) mq' that pos run(5) by simp
          qed
          show ?thesis
          proof (cases "d_errno st3 = GRUB_ERR_NONE")
            case bad: False
            have "read_file_loop rd get_block req i buf node st = Some ((-1, buf @ new), node2, st3)"
              using True e g(1) False m(1) Inr x rd(1) bad by (subst step) (simp add: Let_def)
            then show ?thesis using m rd(2) q3 bad by (fastforce dest: quiet_errno)
          next
            case good: True
            then have new: "new = map ?fb [reached req (unat i)..<reached req (unat i + unat run)]"
              using rd(3,4) run_bytes(1) [OF req run(4) less.prems(1) lt run(3)] run(5) by auto
            have go: "read_file_loop rd get_block req i buf node st =
                read_file_loop rd get_block req (i + run) (buf @ new) node2 st3"
              using True e g(1) False m(1) Inr x rd(1) good by (subst step) (simp add: Let_def)
            have "buf @ new = map ?fb [unat (fr_pos req)..<reached req (unat (i + run))]"
              unfolding less.prems(6) new ir using inner grow by (simp only: map_upt_join)
            then show ?thesis
              unfolding go using less.hyps [OF _ _ _ rd(2) m(3) good, of "i + run"] ir run(2,3) lt less.prems(1) q3 by fastforce
          qed
        qed
      qed
    qed
  qed
qed

lemma read_file_ok:
  assumes st: "ok st" "node_ok node" "d_errno st = GRUB_ERR_NONE"
    and l: "l + 9 < 31" and pos: "unat pos < unat filesize" "unat filesize < 2 ^ 63"
    and len: "0 < unat len" "unat pos + unat len < 2 ^ 64" and n: "n = min (unat len) (unat filesize - unat pos)"
  shows "\<exists>r out node' st'. grub_fshelp_read_file rd disk node pos len get_block filesize l start st = Some ((r, out), node', st') \<and>
     ok st' \<and> node_ok node' \<and>
     (r = -1 \<and> d_errno st' \<noteq> GRUB_ERR_NONE \<or> r = int n \<and> d_errno st' = GRUB_ERR_NONE \<and>
        out = map (file_byte sec blk l start) [unat pos..<unat pos + n]) \<and>
     (quiet live st \<and> (\<forall>j. unat pos div 2 ^ (l + 9) \<le> unat j \<and> unat j * 2 ^ (l + 9) < unat pos + n \<longrightarrow> mapped j \<and>
        (push_bit l (blk j) = 0 \<or> (\<forall>k < 2 ^ l. inside (push_bit l (blk j) + start + of_nat k))))
      \<longrightarrow> r = int n \<and> quiet live st')"
proof -
  define len1 where "len1 = (if pos + len > filesize then filesize - pos else len)"
  have len1: "unat len1 = n"
    using pos len by (auto simp: len1_def n word_less_nat_alt word_le_nat_alt unat_plus_exact unat_minus_exact)
  define req where "req = \<lparr> fr_pos = pos, fr_len = len1,
      fr_blockcnt = drop_bit (l + 9) ((len1 + pos) + push_bit (l + 9) 1 - 1), fr_log2blocksize = l, fr_blocks_start = start,
      fr_max_read = push_bit CACHE_BLOCK_BITS (of_nat (disk_max_agglomerate disk)) \<rparr>"
  have f: "fr_pos req = pos" "fr_len req = len1" "fr_log2blocksize req = l" "fr_blocks_start req = start"
    by (simp_all add: req_def)
  have n0: "0 < n" "unat pos + n < 2 ^ 63" using pos len by (simp_all add: n)
  then have req: "req_ok req"
    unfolding req_ok_def f len1 blocksize_def using l by (simp add: req_def)
  have e: "req_end req = unat pos + n" "bsize req = 2 ^ (l + 9)" by (simp_all add: req_end_def bsize_def f len1)
  have go: "grub_fshelp_read_file rd disk node pos len get_block filesize l start st = read_file_loop rd get_block req (first_block req) [] node st"
    using l pos(1) unfolding grub_fshelp_read_file_def Let_def req_def len1_def by (simp add: word_less_nat_alt)
  have s: "sint len1 = int n" using n0 len1 by (subst sint_small) simp_all
  have first: "unat (first_block req) = unat pos div 2 ^ (l + 9)" unfolding unat_first_block e f ..
  show ?thesis
    unfolding go
    using read_file_loop_ok [OF req order.refl less_imp_le [OF block_bounds(1) [OF req]] st, of "[]"] reached_first [of req]
    unfolding f s e(1) first block_bounds(3) [OF req] e(2) by (simp add: f)
qed

end

end
