(* ===== verification/Fshelp_Find.thy ===== *)
theory Fshelp_Find
  imports Fshelp
begin

text \<open>
  Correctness of \<open>grub_fshelp_find_file\<close>. Over a file system whose functions return (the contract
  \<open>path_walk\<close>), the search returns for every path, because it follows at most seven links. Over a file
  system that answers every question about its tree (the contract \<open>path_tree\<close>), the search finds what
  the path means: \<open>resolve\<close> says it by replacing a link by the parts of its target.
\<close>

subsection \<open>Paths\<close>

text \<open>The first part of a path and the rest behind it, as the loop takes them.\<close>

definition first_part :: "string \<Rightarrow> string" where
  "first_part path = takeWhile (\<lambda>c. \<not> is_slash c) (dropWhile is_slash path)"

definition rest_path :: "string \<Rightarrow> string" where
  "rest_path path = dropWhile (\<lambda>c. \<not> is_slash c) (dropWhile is_slash path)"

lemma rest_shorter:
  assumes "dropWhile is_slash path \<noteq> []"
  shows "length (rest_path path) < length path"
proof -
  obtain c cs where c: "dropWhile is_slash path = c # cs" using assms by (cases "dropWhile is_slash path") auto
  then have "\<not> is_slash c" using hd_dropWhile [OF assms] by simp
  then have "length (rest_path path) \<le> length cs" using c by (simp add: rest_path_def length_dropWhile_le)
  moreover have "length (c # cs) \<le> length path" using length_dropWhile_le [of is_slash path] c by simp
  ultimately show ?thesis by simp
qed

text \<open>The parts of a path.\<close>

function components :: "string \<Rightarrow> string list" where
  "components path = (if dropWhile is_slash path = [] then [] else first_part path # components (rest_path path))"
  by pat_completeness auto

termination by (relation "measure length") (auto intro: rest_shorter)

declare components.simps [simp del]

text \<open>Whether the last part is not followed by a slash.\<close>

definition ends_in_part :: "string \<Rightarrow> bool" where
  "ends_in_part path \<longleftrightarrow> path \<noteq> [] \<and> \<not> is_slash (last path)"

lemma components_Nil: "components path = [] \<longleftrightarrow> dropWhile is_slash path = []"
  by (subst components.simps) simp

lemma rest_path_slash: "rest_path path = [] \<or> is_slash (hd (rest_path path))"
proof (cases "rest_path path = []")
  case False
  then show ?thesis unfolding rest_path_def using hd_dropWhile [of "\<lambda>c. \<not> is_slash c"] by blast
qed simp

lemma last_rest_path: "rest_path path \<noteq> [] \<Longrightarrow> last (rest_path path) = last path"
  unfolding rest_path_def by (metis dropWhile_eq_drop last_drop linorder_not_le drop_all drop_drop)

lemma ends_rest:
  assumes "dropWhile is_slash path \<noteq> []"
  shows "ends_in_part path \<and> components (rest_path path) = [] \<longleftrightarrow> rest_path path = []"
    and "components (rest_path path) \<noteq> [] \<Longrightarrow> ends_in_part (rest_path path) = ends_in_part path"
proof -
  let ?r = "rest_path path"
  have p: "path \<noteq> []" using assms by auto
  show "ends_in_part path \<and> components ?r = [] \<longleftrightarrow> ?r = []"
  proof
    assume r: "?r = []"
    have "last path = last (dropWhile is_slash path)"
      by (metis assms dropWhile_eq_drop last_drop linorder_not_le drop_all)
    moreover have "takeWhile (\<lambda>c. \<not> is_slash c) (dropWhile is_slash path) = dropWhile is_slash path"
      using r by (metis append_Nil2 rest_path_def takeWhile_dropWhile_id)
    then have "\<not> is_slash (last (dropWhile is_slash path))" using assms by (metis last_in_set set_takeWhileD)
    ultimately show "ends_in_part path \<and> components ?r = []"
      using r p by (simp add: ends_in_part_def components_Nil)
  next
    assume a: "ends_in_part path \<and> components ?r = []"
    show "?r = []"
    proof (rule ccontr)
      assume ne: "?r \<noteq> []"
      have "\<forall>c \<in> set ?r. is_slash c" using a by (simp add: components_Nil dropWhile_eq_Nil_conv)
      then have "is_slash (last ?r)" using ne by simp
      then show False using a ne last_rest_path [OF ne] by (simp add: ends_in_part_def)
    qed
  qed
  show "components ?r \<noteq> [] \<Longrightarrow> ends_in_part ?r = ends_in_part path"
  proof -
    assume "components ?r \<noteq> []"
    then have "?r \<noteq> []" by (auto simp: components_Nil)
    then show ?thesis using p last_rest_path [of path] by (simp add: ends_in_part_def)
  qed
qed

subsection \<open>The search returns\<close>

lemma update_current_fields [simp]:
  "fc_symlinknest (update_current n ctx) = fc_symlinknest ctx"
  "(fc_currnode (update_current n ctx) = []) = (fc_currnode ctx = [])"
  by (auto simp: update_current_def split: list.splits node_ref.splits)

lemma go_up_fields [simp]:
  "fc_symlinknest (go_up_a_level ctx) = fc_symlinknest ctx"
  "fc_currnode ctx \<noteq> [] \<Longrightarrow> fc_currnode (go_up_a_level ctx) \<noteq> []"
  by (auto simp: go_up_a_level_def pop_element_def)

locale path_walk =
  fixes lookup :: "('n, 'h) lookup_file" and read_symlink :: "('n, 'h) read_symlink option"
    and ok :: "'h dstate \<Rightarrow> bool" and node_ok :: "'n \<Rightarrow> bool"
  assumes lookup_returns: "ok st \<Longrightarrow> node_ok n \<Longrightarrow>
      \<exists>e found n' st'. lookup n name st = Some (e, found, n', st') \<and> ok st' \<and> node_ok n' \<and>
        (e \<noteq> GRUB_ERR_NONE \<longrightarrow> d_errno st' \<noteq> GRUB_ERR_NONE) \<and> (\<forall>m t. found = Some (m, t) \<longrightarrow> node_ok m)"
    and symlink_returns: "read_symlink = Some rl \<Longrightarrow> ok st \<Longrightarrow> node_ok n \<Longrightarrow>
      \<exists>s n' st'. rl n st = Some (s, n', st') \<and> ok st' \<and> node_ok n'"
    and walk_raise: "ok st \<Longrightarrow> ok (raise_error e msg st)"
    and walk_malloc: "ok st \<Longrightarrow> ok (snd (grub_malloc st))"
begin

text \<open>A context with a current directory, all of whose nodes are good.\<close>

definition ctx_ok :: "'n find_file_ctx \<Rightarrow> bool" where
  "ctx_ok ctx \<longleftrightarrow> node_ok (fc_rootnode ctx) \<and> (\<forall>el \<in> set (fc_currnode ctx). \<forall>n. se_node el = Owned n \<longrightarrow> node_ok n)"

lemma ctx_ok_current:
  assumes "ctx_ok ctx" and "fc_currnode ctx \<noteq> []"
  obtains n t where "current ctx = Some (n, t)" "node_ok n"
  using assms by (cases "fc_currnode ctx") (auto simp: current_def ctx_ok_def node_of_def split: node_ref.splits)

lemma ctx_ok_update: "ctx_ok ctx \<Longrightarrow> node_ok n \<Longrightarrow> ctx_ok (update_current n ctx)"
  by (auto simp: ctx_ok_def update_current_def split: list.splits node_ref.splits)

lemma ctx_ok_up: "ctx_ok ctx \<Longrightarrow> ctx_ok (go_up_a_level ctx)"
  by (cases "fc_currnode ctx") (auto simp: ctx_ok_def go_up_a_level_def pop_element_def)

lemma push_node_ok:
  assumes "push_node r t ctx st = (e, ctx', st')" and "ok st" and "ctx_ok ctx" and "\<And>n. r = Owned n \<Longrightarrow> node_ok n"
  shows "ok st'" "ctx_ok ctx'" "fc_symlinknest ctx' = fc_symlinknest ctx" "fc_currnode ctx \<noteq> [] \<Longrightarrow> fc_currnode ctx' \<noteq> []"
    "e = GRUB_ERR_NONE \<Longrightarrow> fc_currnode ctx' \<noteq> []" "e \<noteq> GRUB_ERR_NONE \<Longrightarrow> d_errno st' \<noteq> GRUB_ERR_NONE"
proof -
  obtain good st1 where m: "grub_malloc st = (good, st1)" by fastforce
  have "ok st1" using walk_malloc [OF assms(2)] m by simp
  moreover have "d_errno st1 \<noteq> GRUB_ERR_NONE" if "\<not> good"
    using m that by (auto simp: grub_malloc_def Let_def raise_error_def d_errno_def grub_error_def split: if_splits)
  ultimately show "ok st'" "ctx_ok ctx'" "fc_symlinknest ctx' = fc_symlinknest ctx" "fc_currnode ctx \<noteq> [] \<Longrightarrow> fc_currnode ctx' \<noteq> []"
    "e = GRUB_ERR_NONE \<Longrightarrow> fc_currnode ctx' \<noteq> []" "e \<noteq> GRUB_ERR_NONE \<Longrightarrow> d_errno st' \<noteq> GRUB_ERR_NONE"
    using assms m by (auto simp: push_node_def ctx_ok_def split: bool.splits)
qed

lemma go_to_root_ok:
  assumes "go_to_root ctx st = (e, ctx', st')" and "ok st" and "ctx_ok ctx"
  shows "ok st'" "ctx_ok ctx'" "fc_symlinknest ctx' = fc_symlinknest ctx"
    "e = GRUB_ERR_NONE \<Longrightarrow> fc_currnode ctx' \<noteq> []" "e \<noteq> GRUB_ERR_NONE \<Longrightarrow> d_errno st' \<noteq> GRUB_ERR_NONE"
proof -
  have "ctx_ok (free_stack ctx)" using assms(3) by (simp add: ctx_ok_def free_stack_def)
  from push_node_ok [OF assms(1) [unfolded go_to_root_def] assms(2) this]
  show "ok st'" "ctx_ok ctx'" "fc_symlinknest ctx' = fc_symlinknest ctx"
    "e = GRUB_ERR_NONE \<Longrightarrow> fc_currnode ctx' \<noteq> []" "e \<noteq> GRUB_ERR_NONE \<Longrightarrow> d_errno st' \<noteq> GRUB_ERR_NONE"
    by (simp_all add: free_stack_def)
qed

lemma open_symlink_ok:
  assumes "ok st" and "ctx_ok ctx" and "fc_currnode ctx \<noteq> []" and "fc_symlinknest ctx < 8"
  shows "\<exists>r ctx' st'. open_symlink read_symlink ctx st = Some (r, ctx', st') \<and> ok st' \<and> ctx_ok ctx' \<and>
    (case r of Inl e \<Rightarrow> (e = GRUB_ERR_NONE \<longrightarrow> fc_currnode ctx' \<noteq> []) \<and>
        (d_errno st' = GRUB_ERR_NONE \<longrightarrow> fc_currnode ctx' \<noteq> [] \<and> fc_symlinknest ctx' < 8 \<and> e = GRUB_ERR_NONE)
     | Inr _ \<Rightarrow> fc_currnode ctx' \<noteq> [] \<and> fc_symlinknest ctx' < 8) \<and> fc_symlinknest ctx < fc_symlinknest ctx'"
proof (cases "Suc (fc_symlinknest ctx) = 8")
  case True
  then show ?thesis using assms walk_raise by (auto simp: open_symlink_def Let_def ctx_ok_def raise_error_def d_errno_def grub_error_def)
next
  case False
  let ?ctx1 = "ctx\<lparr> fc_symlinknest := Suc (fc_symlinknest ctx) \<rparr>"
  have c1: "ctx_ok ?ctx1" "fc_currnode ?ctx1 \<noteq> []" using assms by (simp_all add: ctx_ok_def)
  show ?thesis
  proof (cases read_symlink)
    case None
    then show ?thesis
      using False assms c1 walk_raise by (auto simp: open_symlink_def Let_def raise_error_def d_errno_def grub_error_def)
  next
    case (Some rl)
    from ctx_ok_current [OF c1] obtain n t where cur: "current ?ctx1 = Some (n, t)" "node_ok n" .
    from symlink_returns [OF Some assms(1) cur(2)] obtain s n' st1 where
      r: "rl n st = Some (s, n', st1)" "ok st1" "node_ok n'" by blast
    let ?ctx2 = "update_current n' ?ctx1"
    have c2: "ctx_ok ?ctx2" "fc_currnode ?ctx2 \<noteq> []" using ctx_ok_update [OF c1(1) r(3)] c1(2) by simp_all
    show ?thesis
    proof (cases s)
      case None
      then show ?thesis using False Some cur(1) r c2 assms(4) by (auto simp: open_symlink_def Let_def)
    next
      case target: (Some s')
      show ?thesis
      proof (cases "starts_with (CHR ''/'') s'")
        case True
        obtain e ctx3 st2 where g: "go_to_root ?ctx2 st1 = (e, ctx3, st2)" by (metis prod_cases3)
        from go_to_root_ok [OF g r(2) c2(1)] show ?thesis
          using True False Some target cur(1) r(1) g assms(4) by (auto simp: open_symlink_def Let_def)
      next
        case rel: False
        then show ?thesis
          using False Some target cur(1) r c2 assms(4) ctx_ok_up [OF c2(1)] by (auto simp: open_symlink_def Let_def)
      qed
    qed
  qed
qed

lemma find_file_returns:
  assumes "ok st" and "ctx_ok ctx" and "fc_currnode ctx \<noteq> []" and "fc_symlinknest ctx < 8"
  shows "\<exists>e ctx' st'. find_file lookup read_symlink nofollow path ctx st = Some (e, ctx', st') \<and> ok st' \<and> ctx_ok ctx' \<and>
    (e = GRUB_ERR_NONE \<longrightarrow> fc_currnode ctx' \<noteq> []) \<and>
    (d_errno st' = GRUB_ERR_NONE \<longrightarrow> fc_currnode ctx' \<noteq> [] \<and> fc_symlinknest ctx' < 8 \<and> e = GRUB_ERR_NONE) \<and>
    fc_symlinknest ctx \<le> fc_symlinknest ctx'"
  using assms
proof (induction "(8 - fc_symlinknest ctx, length path)" arbitrary: nofollow path ctx st
    rule: wf_induct_rule [OF wf_lex_prod [OF wf_less_than wf_less_than]])
  case less: 1
  have hyp: "\<exists>e ctx2 st2. find_file lookup read_symlink nf p ctx1 st1 = Some (e, ctx2, st2) \<and> ok st2 \<and> ctx_ok ctx2 \<and>
      (e = GRUB_ERR_NONE \<longrightarrow> fc_currnode ctx2 \<noteq> []) \<and>
      (d_errno st2 = GRUB_ERR_NONE \<longrightarrow> fc_currnode ctx2 \<noteq> [] \<and> fc_symlinknest ctx2 < 8 \<and> e = GRUB_ERR_NONE) \<and>
      fc_symlinknest ctx1 \<le> fc_symlinknest ctx2"
    if "fc_symlinknest ctx < fc_symlinknest ctx1 \<or> fc_symlinknest ctx = fc_symlinknest ctx1 \<and> length p < length path"
      "ok st1" "ctx_ok ctx1" "fc_currnode ctx1 \<noteq> []" "fc_symlinknest ctx1 < 8" for nf p ctx1 st1
    by (rule less.hyps) (use that in auto)
  note step = find_file.simps [of lookup read_symlink nofollow path ctx st]
  show ?case
  proof (cases "dropWhile is_slash path = []")
    case True
    then show ?thesis using less.prems by (subst step) simp
  next
    case False
    note short = rest_shorter [OF False, unfolded rest_path_def]
    let ?rest = "dropWhile (\<lambda>c. \<not> is_slash c) (dropWhile is_slash path)"
    let ?part = "takeWhile (\<lambda>c. \<not> is_slash c) (dropWhile is_slash path)"
    from ctx_ok_current [OF less.prems(2,3)] obtain n t where cur: "current ctx = Some (n, t)" "node_ok n" .
    show ?thesis
    proof (cases "t = GRUB_FSHELP_DIR \<and> ?part \<noteq> ''.'' \<and> ?part \<noteq> ''..''")
      case special: False
      show ?thesis
      proof (cases "t = GRUB_FSHELP_DIR")
        case False
        then show ?thesis using \<open>dropWhile is_slash path \<noteq> []\<close> less.prems cur walk_raise
          by (subst step) (auto simp: Let_def raise_error_def d_errno_def grub_error_def)
      next
        case True
        let ?ctx1 = "if ?part = ''.'' then ctx else go_up_a_level ctx"
        have "find_file lookup read_symlink nofollow path ctx st = find_file lookup read_symlink nofollow ?rest ?ctx1 st"
          using special True cur False by (subst step) (auto simp: Let_def)
        then show ?thesis using hyp [of ?ctx1 ?rest st nofollow] short less.prems ctx_ok_up by auto
      qed
    next
      case dir: True
      from lookup_returns [OF less.prems(1) cur(2), of ?part] obtain e found n' st1 where
        l: "lookup n ?part st = Some (e, found, n', st1)" "ok st1" "node_ok n'"
        "e \<noteq> GRUB_ERR_NONE \<longrightarrow> d_errno st1 \<noteq> GRUB_ERR_NONE" "\<forall>m t. found = Some (m, t) \<longrightarrow> node_ok m" by blast
      let ?ctx1 = "update_current n' ctx"
      have c1: "ctx_ok ?ctx1" "fc_currnode ?ctx1 \<noteq> []" using ctx_ok_update [OF less.prems(2) l(3)] less.prems(3) by simp_all
      show ?thesis
      proof (cases "e \<noteq> GRUB_ERR_NONE \<or> found = None")
        case True
        then show ?thesis using False dir cur l c1 walk_raise
          by (subst step) (auto simp: Let_def raise_error_def d_errno_def grub_error_def)
      next
        case good: False
        then obtain m ty where f: "found = Some (m, ty)" by auto
        obtain e2 ctx2 st2 where p: "push_node (Owned m) ty ?ctx1 st1 = (e2, ctx2, st2)" by (metis prod_cases3)
        have "node_ok n0" if "Owned m = Owned n0" for n0 using that l(5) f by simp
        note c2 = push_node_ok [OF p l(2) c1(1) this]
        have ne2: "fc_currnode ctx2 \<noteq> []" using c2(4) c1(2) by simp
        from ctx_ok_current [OF c2(2) ne2] obtain n2 t2 where cur2: "current ctx2 = Some (n2, t2)" "node_ok n2" .
        have nest2: "fc_symlinknest ctx2 = fc_symlinknest ctx" using c2(3) by simp
        show ?thesis
        proof (cases "t2 = GRUB_FSHELP_SYMLINK \<and> \<not> (nofollow \<and> ?rest = [])")
          case plain: False
          have "find_file lookup read_symlink nofollow path ctx st = find_file lookup read_symlink nofollow ?rest ctx2 st2"
            using False dir cur l(1) good f p cur2 plain by (subst step) (auto simp: Let_def)
          then show ?thesis using hyp [of ctx2 ?rest st2 nofollow] short less.prems c2 ne2 nest2 by auto
        next
          case link: True
          from open_symlink_ok [OF c2(1,2) ne2] nest2 less.prems(4) obtain r ctx3 st3 where
            o: "open_symlink read_symlink ctx2 st2 = Some (r, ctx3, st3)" "ok st3" "ctx_ok ctx3" "fc_symlinknest ctx < fc_symlinknest ctx3"
            and r: "case r of Inl e \<Rightarrow> (e = GRUB_ERR_NONE \<longrightarrow> fc_currnode ctx3 \<noteq> []) \<and>
                (d_errno st3 = GRUB_ERR_NONE \<longrightarrow> fc_currnode ctx3 \<noteq> [] \<and> fc_symlinknest ctx3 < 8 \<and> e = GRUB_ERR_NONE)
              | Inr _ \<Rightarrow> fc_currnode ctx3 \<noteq> [] \<and> fc_symlinknest ctx3 < 8" by auto
          show ?thesis
          proof (cases r)
            case (Inl e3)
            have "find_file lookup read_symlink nofollow path ctx st = Some (e3, ctx3, st3)"
              using False dir cur l(1) good f p cur2 link o(1) Inl by (subst step) (auto simp: Let_def)
            then show ?thesis using o r Inl by auto
          next
            case (Inr target)
            then have c3: "fc_currnode ctx3 \<noteq> []" "fc_symlinknest ctx3 < 8" using r by simp_all
            from hyp [of ctx3 target st3 False] o c3 obtain e4 ctx4 st4 where
              q: "find_file lookup read_symlink False target ctx3 st3 = Some (e4, ctx4, st4)" "ok st4" "ctx_ok ctx4"
              "d_errno st4 = GRUB_ERR_NONE \<longrightarrow> fc_currnode ctx4 \<noteq> [] \<and> fc_symlinknest ctx4 < 8 \<and> e4 = GRUB_ERR_NONE"
              "fc_symlinknest ctx3 \<le> fc_symlinknest ctx4" by blast
            show ?thesis
            proof (cases "d_errno st4 = GRUB_ERR_NONE")
              case bad: False
              have "find_file lookup read_symlink nofollow path ctx st = Some (d_errno st4, ctx4, st4)"
                using False dir cur l(1) good f p cur2 link o(1) Inr q(1) bad by (subst step) (auto simp: Let_def)
              then show ?thesis using q o bad by auto
            next
              case fine: True
              have "find_file lookup read_symlink nofollow path ctx st = find_file lookup read_symlink nofollow ?rest ctx4 st4"
                using False dir cur l(1) good f p cur2 link o(1) Inr q(1) fine by (subst step) (auto simp: Let_def)
              then show ?thesis using hyp [of ctx4 ?rest st4 nofollow] q o fine by auto
            qed
          qed
        qed
      qed
    qed
  qed
qed

text \<open>The whole lookup returns; without an error there is a node, the root node or a good one.\<close>

lemma find_file_real_returns:
  assumes "ok st" and "node_ok root"
  shows "\<exists>e found root' st'. grub_fshelp_find_file_real path root lookup read_symlink expecttype st = Some (e, found, root', st') \<and>
    ok st' \<and> node_ok root' \<and> (found = None \<longrightarrow> d_errno st' \<noteq> GRUB_ERR_NONE) \<and>
    (e \<noteq> GRUB_ERR_NONE \<longrightarrow> found = None) \<and> (\<forall>n. found = Some (Owned n) \<longrightarrow> node_ok n)"
proof (cases "starts_with (CHR ''/'') path")
  case False
  then show ?thesis using assms walk_raise by (simp add: grub_fshelp_find_file_real_def)
next
  case True
  let ?ctx = "\<lparr> fc_path = path, fc_rootnode = root, fc_symlinknest = 0, fc_currnode = [] \<rparr>"
  have c: "ctx_ok ?ctx" using assms(2) by (simp add: ctx_ok_def)
  obtain e1 ctx1 st1 where g: "go_to_root ?ctx st = (e1, ctx1, st1)" by (metis prod_cases3)
  note g1 = go_to_root_ok [OF g assms(1) c]
  show ?thesis
  proof (cases "e1 = GRUB_ERR_NONE")
    case bad: False
    then show ?thesis using True g g1 assms by (auto simp: grub_fshelp_find_file_real_def Let_def)
  next
    case e1: True
    obtain good st2 where m: "grub_malloc st1 = (good, st2)" by fastforce
    have st2: "ok st2" using walk_malloc [OF g1(1)] m by simp
    have bad: "\<not> good \<Longrightarrow> d_errno st2 \<noteq> GRUB_ERR_NONE"
      using m by (auto simp: grub_malloc_def Let_def raise_error_def d_errno_def grub_error_def split: if_splits)
    show ?thesis
    proof (cases good)
      case False
      then show ?thesis
        using True g e1 m st2 bad assms by (auto simp: grub_fshelp_find_file_real_def Let_def grub_strdup_def)
    next
      case dup: True
      from find_file_returns [OF st2 g1(2) g1(4) [OF e1], of "expecttype = GRUB_FSHELP_SYMLINK" path] g1(3)
      obtain e2 ctx2 st3 where
        f: "find_file lookup read_symlink (expecttype = GRUB_FSHELP_SYMLINK) path ctx1 st2 = Some (e2, ctx2, st3)" "ok st3" "ctx_ok ctx2"
        "e2 = GRUB_ERR_NONE \<longrightarrow> fc_currnode ctx2 \<noteq> []" "d_errno st3 = GRUB_ERR_NONE \<longrightarrow> e2 = GRUB_ERR_NONE"
        by auto
      show ?thesis
      proof (cases "e2 = GRUB_ERR_NONE")
        case False
        then show ?thesis
          using True g e1 m f dup by (auto simp: grub_fshelp_find_file_real_def Let_def grub_strdup_def ctx_ok_def)
      next
        case e2: True
        then obtain el els where el: "fc_currnode ctx2 = el # els" using f(4) by (cases "fc_currnode ctx2") auto
        have n: "\<forall>n. se_node el = Owned n \<longrightarrow> node_ok n" "node_ok (fc_rootnode ctx2)" using f(3) el by (auto simp: ctx_ok_def)
        show ?thesis
          using True g e1 m f dup e2 el n walk_raise
          by (cases "expected_type expecttype (se_type el)") (auto simp: grub_fshelp_find_file_real_def Let_def grub_strdup_def)
      qed
    qed
  qed
qed

end

subsection \<open>What a path means\<close>

text \<open>
  \<open>L\<close> is the tree, \<open>T\<close> gives the targets of the links, and \<open>k\<close> links may be followed. The stack holds the
  current node and the directories above it. \<open>keep\<close> keeps a link that is the last part.
\<close>

definition base_type :: "u32 \<Rightarrow> u32" where
  "base_type t = t AND NOT GRUB_FSHELP_CASE_INSENSITIVE"

function resolve :: "'n \<Rightarrow> ('n \<Rightarrow> string \<Rightarrow> grub_err_t + ('n \<times> u32) option) \<Rightarrow> ('n \<Rightarrow> grub_err_t + string) \<Rightarrow> bool \<Rightarrow> nat
    \<Rightarrow> string list \<Rightarrow> ('n \<times> u32) list \<Rightarrow> grub_err_t + nat \<times> ('n \<times> u32) list" where
  "resolve root L T keep k [] stk = Inr (k, stk)"
| "resolve root L T keep k (c # cs) stk =
     (if snd (hd stk) \<noteq> GRUB_FSHELP_DIR then Inl GRUB_ERR_BAD_FILE_TYPE
      else if c = ''.'' then resolve root L T keep k cs stk
      else if c = ''..'' then resolve root L T keep k cs (if tl stk = [] then stk else tl stk)
      else case L (fst (hd stk)) c of
        Inl e \<Rightarrow> Inl e
      | Inr None \<Rightarrow> Inl GRUB_ERR_FILE_NOT_FOUND
      | Inr (Some (n, t)) \<Rightarrow>
          if base_type t = GRUB_FSHELP_SYMLINK \<and> \<not> (keep \<and> cs = [])
          then (case k of
             0 \<Rightarrow> Inl GRUB_ERR_SYMLINK_LOOP
           | Suc k' \<Rightarrow> (case T n of
                Inl e \<Rightarrow> Inl e
              | Inr target \<Rightarrow> resolve root L T keep k' (components target @ cs)
                  (if starts_with (CHR ''/'') target then [(root, GRUB_FSHELP_DIR)] else stk)))
          else resolve root L T keep k cs ((n, base_type t) # stk))"
  by pat_completeness auto

termination
  by (relation "inv_image (less_than <*lex*> less_than) (\<lambda>(root, L, T, keep, k, cs, stk). (k, length cs))") auto

lemma resolve_append:
  assumes "ys \<noteq> [] \<or> \<not> keep"
  shows "resolve root L T keep k (xs @ ys) stk =
    (case resolve root L T False k xs stk of Inl e \<Rightarrow> Inl e | Inr (k', stk') \<Rightarrow> resolve root L T keep k' ys stk')"
  using assms
proof (induction root L T "False" k xs stk rule: resolve.induct)
  case (2 root L T k c cs stk)
  note IH = 2(1-4)
  show ?case
  proof (cases "snd (hd stk) \<noteq> GRUB_FSHELP_DIR \<or> c = ''.'' \<or> c = ''..''")
    case True
    then show ?thesis using IH(1,2) 2(5) by (auto split: sum.splits)
  next
    case False
    show ?thesis
    proof (cases "L (fst (hd stk)) c")
      case (Inr f)
      then show ?thesis
      proof (cases f)
        case (Some nt)
        obtain n t where nt: "nt = (n, t)" by fastforce
        have follow: "\<not> (keep \<and> cs @ ys = [])" using 2(5) by auto
        show ?thesis
        proof (cases "base_type t = GRUB_FSHELP_SYMLINK")
          case True
          show ?thesis
          proof (cases k)
            case (Suc k')
            show ?thesis
            proof (cases "T n")
              case (Inr target)
              then show ?thesis
                using False \<open>L (fst (hd stk)) c = Inr f\<close> Some nt follow True Suc IH(3) [OF _ _ _ \<open>L (fst (hd stk)) c = Inr f\<close> Some nt [symmetric] _ Suc Inr 2(5)] by simp
            qed (use False \<open>L (fst (hd stk)) c = Inr f\<close> Some nt follow True Suc in simp)
          qed (use False \<open>L (fst (hd stk)) c = Inr f\<close> Some nt follow True in simp)
        qed (use False \<open>L (fst (hd stk)) c = Inr f\<close> Some nt follow IH(4) [OF _ _ _ \<open>L (fst (hd stk)) c = Inr f\<close> Some nt [symmetric] _ 2(5)] in simp)
      qed (use False in simp)
    qed (use False in simp)
  qed
qed simp

text \<open>What is found under a path, with its type, when a node of a certain type is expected.\<close>

definition path_meaning :: "'n \<Rightarrow> ('n \<Rightarrow> string \<Rightarrow> grub_err_t + ('n \<times> u32) option) \<Rightarrow> ('n \<Rightarrow> grub_err_t + string) \<Rightarrow> u32
    \<Rightarrow> string \<Rightarrow> grub_err_t + 'n \<times> u32" where
  "path_meaning root L T expecttype path =
     (if \<not> starts_with (CHR ''/'') path then Inl GRUB_ERR_BAD_FILENAME
      else case resolve root L T (expecttype = GRUB_FSHELP_SYMLINK \<and> ends_in_part path) 7 (components path) [(root, GRUB_FSHELP_DIR)] of
        Inl e \<Rightarrow> Inl e
      | Inr (k, stk) \<Rightarrow>
          if expected_type expecttype (snd (hd stk)) \<noteq> None then Inl GRUB_ERR_BAD_FILE_TYPE else Inr (hd stk))"

subsection \<open>The search finds what the path means\<close>

locale path_tree =
  fixes lookup :: "('n, 'h) lookup_file" and read_symlink :: "('n, 'h) read_symlink option"
    and root :: 'n and L :: "'n \<Rightarrow> string \<Rightarrow> grub_err_t + ('n \<times> u32) option" and T :: "'n \<Rightarrow> grub_err_t + string"
    and calm_st :: "'h dstate \<Rightarrow> bool" and node_ok :: "'n \<Rightarrow> u32 \<Rightarrow> bool"
  assumes tree_lookup: "calm_st st \<Longrightarrow> node_ok n GRUB_FSHELP_DIR \<Longrightarrow> \<exists>e found st'. lookup n name st = Some (e, found, n, st') \<and>
      (case L n name of Inl e' \<Rightarrow> e = e' \<and> e \<noteq> GRUB_ERR_NONE \<and> d_errno st' = e
       | Inr r \<Rightarrow> e = GRUB_ERR_NONE \<and> found = r \<and> calm_st st' \<and> (\<forall>m t. r = Some (m, t) \<longrightarrow> node_ok m (base_type t)))"
    and tree_symlink: "read_symlink = Some rl \<Longrightarrow> calm_st st \<Longrightarrow> node_ok n GRUB_FSHELP_SYMLINK \<Longrightarrow> \<exists>s st'. rl n st = Some (s, n, st') \<and>
      (case T n of Inl e \<Rightarrow> s = None \<and> e \<noteq> GRUB_ERR_NONE \<and> d_errno st' = e | Inr t \<Rightarrow> s = Some t \<and> calm_st st')"
    and tree_no_symlink: "read_symlink = None \<Longrightarrow> T n = Inl GRUB_ERR_BAD_FS"
    and tree_calm: "calm_st st \<Longrightarrow> d_errno st = GRUB_ERR_NONE"
    and tree_malloc: "calm_st st \<Longrightarrow> fst (grub_malloc st) \<and> calm_st (snd (grub_malloc st))"
    and tree_root: "node_ok root GRUB_FSHELP_DIR"
begin

definition stands_for :: "'n find_file_ctx \<Rightarrow> ('n \<times> u32) list \<Rightarrow> bool" where
  "stands_for ctx stk \<longleftrightarrow> fc_rootnode ctx = root \<and> stk = map (\<lambda>el. (node_of ctx (se_node el), se_type el)) (fc_currnode ctx) \<and>
     stk \<noteq> [] \<and> (\<forall>(n, t) \<in> set stk. node_ok n t)"

lemma node_of_fields [simp]:
  "node_of (ctx\<lparr> fc_currnode := x \<rparr>) = node_of ctx" "node_of (ctx\<lparr> fc_symlinknest := i \<rparr>) = node_of ctx"
  "node_of (pop_element ctx) = node_of ctx"
  by (auto simp: node_of_def pop_element_def fun_eq_iff split: node_ref.splits)

lemma stands_current: "stands_for ctx stk \<Longrightarrow> current ctx = Some (hd stk) \<and> node_ok (fst (hd stk)) (snd (hd stk)) \<and> stk \<noteq> []"
  by (cases "fc_currnode ctx") (auto simp: stands_for_def current_def)

lemma same_current: "current ctx = Some (n, t) \<Longrightarrow> update_current n ctx = ctx"
  by (cases ctx) (auto simp: current_def update_current_def node_of_def split: list.splits node_ref.splits)

lemma stands_up: "stands_for ctx stk \<Longrightarrow> stands_for (go_up_a_level ctx) (if tl stk = [] then stk else tl stk)"
  by (cases "fc_currnode ctx")
    (auto simp: stands_for_def go_up_a_level_def, auto simp: pop_element_def)

lemma malloc_calm: "calm_st st \<Longrightarrow> \<exists>st'. grub_malloc st = (True, st') \<and> calm_st st'"
  using tree_malloc [of st] by (metis prod.collapse)

lemma stands_push:
  assumes "stands_for ctx stk" and "calm_st st" and "node_ok m (base_type t)"
  obtains ctx' st' where "push_node (Owned m) t ctx st = (GRUB_ERR_NONE, ctx', st')" "calm_st st'"
    "stands_for ctx' ((m, base_type t) # stk)" "fc_symlinknest ctx' = fc_symlinknest ctx"
proof -
  obtain st' where st': "grub_malloc st = (True, st')" "calm_st st'" using malloc_calm [OF assms(2)] by blast
  let ?ctx' = "ctx\<lparr> fc_currnode := \<lparr> se_node = Owned m, se_type = base_type t \<rparr> # fc_currnode ctx \<rparr>"
  have s: "stands_for ?ctx' ((m, base_type t) # stk)"
    using assms(1,3) by (auto simp: stands_for_def) (simp_all add: node_of_def)
  have p: "push_node (Owned m) t ctx st = (GRUB_ERR_NONE, ?ctx', st')" by (simp add: push_node_def st' base_type_def)
  show ?thesis by (rule that [OF p st'(2) s]) simp
qed

lemma stands_root:
  assumes "fc_rootnode ctx = root" and "calm_st st"
  obtains ctx' st' where "go_to_root ctx st = (GRUB_ERR_NONE, ctx', st')" "calm_st st'"
    "stands_for ctx' [(root, GRUB_FSHELP_DIR)]" "fc_symlinknest ctx' = fc_symlinknest ctx"
proof -
  obtain st' where st': "grub_malloc st = (True, st')" "calm_st st'" using malloc_calm [OF assms(2)] by blast
  let ?ctx' = "ctx\<lparr> fc_currnode := [\<lparr> se_node = Root_Node, se_type = GRUB_FSHELP_DIR \<rparr>] \<rparr>"
  have s: "stands_for ?ctx' [(root, GRUB_FSHELP_DIR)]" using assms(1) tree_root by (simp add: stands_for_def node_of_def)
  have p: "go_to_root ctx st = (GRUB_ERR_NONE, ?ctx', st')" by (simp add: go_to_root_def push_node_def free_stack_def st')
  show ?thesis by (rule that [OF p st'(2) s]) simp
qed

lemma open_symlink_resolves:
  assumes s: "stands_for ctx ((n, GRUB_FSHELP_SYMLINK) # stk)" and stk: "stk \<noteq> []" and st: "calm_st st" and nest: "fc_symlinknest ctx \<le> 7"
  shows "\<exists>r ctx' st'. open_symlink read_symlink ctx st = Some (r, ctx', st') \<and>
    (case (if fc_symlinknest ctx = 7 then Inl GRUB_ERR_SYMLINK_LOOP else T n) of
       Inl e \<Rightarrow> r = Inl e \<and> e \<noteq> GRUB_ERR_NONE \<and> d_errno st' = e
     | Inr target \<Rightarrow> r = Inr target \<and> calm_st st' \<and> fc_symlinknest ctx' = Suc (fc_symlinknest ctx) \<and>
         stands_for ctx' (if starts_with (CHR ''/'') target then [(root, GRUB_FSHELP_DIR)] else stk))"
proof (cases "fc_symlinknest ctx = 7")
  case True
  then show ?thesis by (simp add: open_symlink_def Let_def raise_error_def d_errno_def grub_error_def)
next
  case False
  let ?ctx1 = "ctx\<lparr> fc_symlinknest := Suc (fc_symlinknest ctx) \<rparr>"
  have s1: "stands_for ?ctx1 ((n, GRUB_FSHELP_SYMLINK) # stk)" using s by (auto simp: stands_for_def)
  then have cur: "current ?ctx1 = Some (n, GRUB_FSHELP_SYMLINK)" "node_ok n GRUB_FSHELP_SYMLINK" using stands_current [OF s1] by simp_all
  show ?thesis
  proof (cases read_symlink)
    case None
    then show ?thesis
      using False tree_no_symlink [OF None, of n] by (simp add: open_symlink_def Let_def raise_error_def d_errno_def grub_error_def)
  next
    case (Some rl)
    from tree_symlink [OF Some st cur(2)] obtain x st1 where x: "rl n st = Some (x, n, st1)"
      "case T n of Inl e \<Rightarrow> x = None \<and> e \<noteq> GRUB_ERR_NONE \<and> d_errno st1 = e | Inr t \<Rightarrow> x = Some t \<and> calm_st st1" by blast
    have same: "update_current n ?ctx1 = ?ctx1" by (rule same_current [OF cur(1)])
    show ?thesis
    proof (cases "T n")
      case (Inl e)
      then show ?thesis using False Some x cur(1) same by (simp add: open_symlink_def Let_def)
    next
      case (Inr target)
      show ?thesis
      proof (cases "starts_with (CHR ''/'') target")
        case True
        have r: "fc_rootnode ?ctx1 = root" "calm_st st1" using s1 x(2) Inr by (simp_all add: stands_for_def)
        from stands_root [OF r] obtain ctx' st' where
          "go_to_root ?ctx1 st1 = (GRUB_ERR_NONE, ctx', st')" "calm_st st'" "stands_for ctx' [(root, GRUB_FSHELP_DIR)]"
          "fc_symlinknest ctx' = Suc (fc_symlinknest ctx)" by auto
        then show ?thesis using False Some x cur(1) same Inr True by (simp add: open_symlink_def Let_def)
      next
        case rel: False
        then show ?thesis
          using False Some x cur(1) same Inr stands_up [OF s1] stk
          by (simp add: open_symlink_def Let_def)
      qed
    qed
  qed
qed

lemma find_file_resolves:
  assumes "calm_st st" and "stands_for ctx stk" and "fc_symlinknest ctx \<le> 7"
  shows "\<exists>e ctx' st'. find_file lookup read_symlink nofollow path ctx st = Some (e, ctx', st') \<and>
    (case resolve root L T (nofollow \<and> ends_in_part path) (7 - fc_symlinknest ctx) (components path) stk of
       Inl e' \<Rightarrow> e = e' \<and> e \<noteq> GRUB_ERR_NONE \<and> d_errno st' = e
     | Inr (k, stk') \<Rightarrow> e = GRUB_ERR_NONE \<and> calm_st st' \<and> stands_for ctx' stk' \<and> fc_symlinknest ctx' \<le> 7 \<and>
         k = 7 - fc_symlinknest ctx' \<and> fc_symlinknest ctx \<le> fc_symlinknest ctx')"
  using assms
proof (induction "(7 - fc_symlinknest ctx, length path)" arbitrary: nofollow path ctx st stk
    rule: wf_induct_rule [OF wf_lex_prod [OF wf_less_than wf_less_than]])
  case less: 1
  define keep where "keep = (nofollow \<and> ends_in_part path)"
  note step = find_file.simps [of lookup read_symlink nofollow path ctx st]
  have parts: "components path = (if dropWhile is_slash path = [] then [] else first_part path # components (rest_path path))"
    by (rule components.simps)
  show ?case
  proof (cases "dropWhile is_slash path = []")
    case True
    then show ?thesis using less.prems parts by (subst step) simp
  next
    case False
    let ?rest = "rest_path path" and ?part = "first_part path"
    have parts: "components path = ?part # components ?rest" using parts False by auto
    have keep_rest: "components ?rest \<noteq> [] \<Longrightarrow> (nofollow \<and> ends_in_part ?rest) = keep"
      "nofollow \<and> ?rest = [] \<longleftrightarrow> keep \<and> components ?rest = []"
      using ends_rest [OF False] by (auto simp: keep_def)
    have again: "resolve root L T (nofollow \<and> ends_in_part ?rest) k (components ?rest) s = resolve root L T keep k (components ?rest) s" for k s
      using keep_rest(1) by (cases "components ?rest = []") simp_all
    have hyp: "\<exists>e ctx2 st2. find_file lookup read_symlink nofollow ?rest ctx1 st1 = Some (e, ctx2, st2) \<and>
        (case resolve root L T keep (7 - fc_symlinknest ctx1) (components ?rest) stk1 of
           Inl e' \<Rightarrow> e = e' \<and> e \<noteq> GRUB_ERR_NONE \<and> d_errno st2 = e
         | Inr (k, stk') \<Rightarrow> e = GRUB_ERR_NONE \<and> calm_st st2 \<and> stands_for ctx2 stk' \<and> fc_symlinknest ctx2 \<le> 7 \<and>
             k = 7 - fc_symlinknest ctx2 \<and> fc_symlinknest ctx \<le> fc_symlinknest ctx2)"
      if p: "calm_st st1" "stands_for ctx1 stk1" "fc_symlinknest ctx1 \<le> 7" "fc_symlinknest ctx \<le> fc_symlinknest ctx1" for ctx1 st1 stk1
    proof -
      have "((7 - fc_symlinknest ctx1, length ?rest), (7 - fc_symlinknest ctx, length path)) \<in> less_than <*lex*> less_than"
        using p(3,4) rest_shorter [OF False] by auto
      from less.hyps [OF this p(1-3), of nofollow] p(4) show ?thesis
        unfolding again by (fastforce split: sum.splits)
    qed
    obtain n t where nt: "hd stk = (n, t)" by fastforce
    have cur: "current ctx = Some (n, t)" "node_ok n t" "stk \<noteq> []" using stands_current [OF less.prems(2)] nt by simp_all
    show ?thesis
    proof (cases "t = GRUB_FSHELP_DIR \<and> ?part \<noteq> ''.'' \<and> ?part \<noteq> ''..''")
      case special: False
      show ?thesis
      proof (cases "t = GRUB_FSHELP_DIR")
        case no_dir: False
        then show ?thesis using False cur(1) nt parts
          by (subst step) (auto simp: Let_def raise_error_def d_errno_def grub_error_def)
      next
        case True
        let ?ctx1 = "if ?part = ''.'' then ctx else go_up_a_level ctx"
        have "find_file lookup read_symlink nofollow path ctx st = find_file lookup read_symlink nofollow ?rest ?ctx1 st"
          using special True cur(1) False by (subst step) (auto simp: Let_def first_part_def rest_path_def)
        then show ?thesis
          using hyp [of st ctx stk] hyp [of st "go_up_a_level ctx" "if tl stk = [] then stk else tl stk"] less.prems special True False parts nt
            stands_up [OF less.prems(2)] by (auto simp flip: keep_def)
      qed
    next
      case dir: True
      from tree_lookup [OF less.prems(1), of n ?part] cur(2) dir obtain e found st1 where
        l: "lookup n ?part st = Some (e, found, n, st1)" "case L n ?part of Inl e' \<Rightarrow> e = e' \<and> e \<noteq> GRUB_ERR_NONE \<and> d_errno st1 = e
          | Inr r \<Rightarrow> e = GRUB_ERR_NONE \<and> found = r \<and> calm_st st1 \<and> (\<forall>m t. r = Some (m, t) \<longrightarrow> node_ok m (base_type t))" by blast
      have same: "update_current n ctx = ctx" by (rule same_current [OF cur(1)])
      note eval = Let_def first_part_def [symmetric] rest_path_def [symmetric] same
      have notlost: "dropWhile is_slash path \<noteq> []" by (rule False)
      show ?thesis
      proof (cases "L n ?part")
        case (Inl e')
        then have "find_file lookup read_symlink nofollow path ctx st = Some (e', ctx, st1)"
          using dir cur(1) l False by (subst step) (auto simp: eval)
        then show ?thesis using Inl l dir nt parts by (auto simp flip: keep_def)
      next
        case (Inr f)
        show ?thesis
        proof (cases f)
          case None
          then have "find_file lookup read_symlink nofollow path ctx st =
              Some (GRUB_ERR_FILE_NOT_FOUND, ctx, raise_error GRUB_ERR_FILE_NOT_FOUND ''file not found'' st1)"
            using dir cur(1) l False Inr by (subst step) (auto simp: eval)
          then show ?thesis using None Inr dir nt parts False by (auto simp: raise_error_def d_errno_def grub_error_def)
        next
          case (Some mt)
          obtain m ty where mt: "mt = (m, ty)" by fastforce
          have l': "lookup n ?part st = Some (GRUB_ERR_NONE, Some (m, ty), n, st1)" "calm_st st1" "node_ok m (base_type ty)"
            using l Inr Some mt by auto
          from stands_push [OF less.prems(2) l'(2,3)] obtain ctx2 st2 where
            p: "push_node (Owned m) ty ctx st1 = (GRUB_ERR_NONE, ctx2, st2)" "calm_st st2"
            "stands_for ctx2 ((m, base_type ty) # stk)" "fc_symlinknest ctx2 = fc_symlinknest ctx" .
          have cur2: "current ctx2 = Some (m, base_type ty)" using stands_current [OF p(3)] by simp
          show ?thesis
          proof (cases "base_type ty = GRUB_FSHELP_SYMLINK \<and> \<not> (keep \<and> components ?rest = [])")
            case plain: False
            have "find_file lookup read_symlink nofollow path ctx st = find_file lookup read_symlink nofollow ?rest ctx2 st2"
              using dir cur(1) l'(1) False p(1) cur2 plain keep_rest(2) by (subst step) (auto simp: eval)
            moreover have "resolve root L T keep (7 - fc_symlinknest ctx) (components path) stk =
                resolve root L T keep (7 - fc_symlinknest ctx) (components ?rest) ((m, base_type ty) # stk)"
              using plain Inr Some mt dir nt parts False by auto
            ultimately show ?thesis using hyp [OF p(2,3)] p(4) less.prems(3) by (simp flip: keep_def)
          next
            case link: True
            have nf: "\<not> (nofollow \<and> ?rest = [])" using link keep_rest(2) by blast
            have app: "components ?rest \<noteq> [] \<or> \<not> keep" using link by blast
            have "stands_for ctx2 ((m, GRUB_FSHELP_SYMLINK) # stk)" using p(3) link by simp
            from open_symlink_resolves [OF this cur(3) p(2), unfolded p(4), OF less.prems(3)] obtain r ctx3 st3 where
              o: "open_symlink read_symlink ctx2 st2 = Some (r, ctx3, st3)"
              "case (if fc_symlinknest ctx = 7 then Inl GRUB_ERR_SYMLINK_LOOP else T m) of
                 Inl e \<Rightarrow> r = Inl e \<and> e \<noteq> GRUB_ERR_NONE \<and> d_errno st3 = e
               | Inr target \<Rightarrow> r = Inr target \<and> calm_st st3 \<and> fc_symlinknest ctx3 = Suc (fc_symlinknest ctx) \<and>
                   stands_for ctx3 (if starts_with (CHR ''/'') target then [(root, GRUB_FSHELP_DIR)] else stk)" by blast
            have res: "resolve root L T keep (7 - fc_symlinknest ctx) (components path) stk =
                (case (if fc_symlinknest ctx = 7 then Inl GRUB_ERR_SYMLINK_LOOP else T m) of Inl e \<Rightarrow> Inl e
                 | Inr target \<Rightarrow> (case resolve root L T False (7 - Suc (fc_symlinknest ctx)) (components target)
                        (if starts_with (CHR ''/'') target then [(root, GRUB_FSHELP_DIR)] else stk) of
                     Inl e \<Rightarrow> Inl e | Inr (k', stk') \<Rightarrow> resolve root L T keep k' (components ?rest) stk'))"
            proof (cases "fc_symlinknest ctx = 7")
              case True
              then show ?thesis using link Inr Some mt dir nt parts False by (auto split: nat.splits)
            next
              case more: False
              then have "7 - fc_symlinknest ctx = Suc (7 - Suc (fc_symlinknest ctx))" using less.prems(3) by simp
              then show ?thesis
                using more link Inr Some mt dir nt parts False by (auto simp: resolve_append [OF app] split: sum.splits)
            qed
            show ?thesis
            proof (cases "if fc_symlinknest ctx = 7 then Inl GRUB_ERR_SYMLINK_LOOP else T m")
              case (Inl e3)
              then have "find_file lookup read_symlink nofollow path ctx st = Some (e3, ctx3, st3)"
                using dir cur(1) l'(1) False p(1) cur2 link nf o by (subst step) (auto simp: eval)
              then show ?thesis using o(2) Inl res by (auto simp flip: keep_def)
            next
              case target: (Inr target)
              let ?stk3 = "if starts_with (CHR ''/'') target then [(root, GRUB_FSHELP_DIR)] else stk"
              have c3: "r = Inr target" "calm_st st3" "fc_symlinknest ctx3 = Suc (fc_symlinknest ctx)" "stands_for ctx3 ?stk3"
                using o(2) target by simp_all
              have n3: "fc_symlinknest ctx3 \<le> 7" using target less.prems(3) c3(3) by (cases "fc_symlinknest ctx = 7") auto
              have "((7 - fc_symlinknest ctx3, length target), (7 - fc_symlinknest ctx, length path)) \<in> less_than <*lex*> less_than"
                using c3(3) n3 by auto
              from less.hyps [OF this c3(2,4) n3, of False] obtain e4 ctx4 st4 where
                q: "find_file lookup read_symlink False target ctx3 st3 = Some (e4, ctx4, st4)"
                "case resolve root L T False (7 - fc_symlinknest ctx3) (components target) ?stk3 of
                   Inl e' \<Rightarrow> e4 = e' \<and> e4 \<noteq> GRUB_ERR_NONE \<and> d_errno st4 = e4
                 | Inr (k, stk') \<Rightarrow> e4 = GRUB_ERR_NONE \<and> calm_st st4 \<and> stands_for ctx4 stk' \<and> fc_symlinknest ctx4 \<le> 7 \<and>
                     k = 7 - fc_symlinknest ctx4 \<and> fc_symlinknest ctx3 \<le> fc_symlinknest ctx4" by auto
              show ?thesis
              proof (cases "resolve root L T False (7 - fc_symlinknest ctx3) (components target) ?stk3")
                case (Inl e5)
                then have "find_file lookup read_symlink nofollow path ctx st = Some (e5, ctx4, st4)"
                  using dir cur(1) l'(1) False p(1) cur2 link nf o(1) c3(1) q by (subst step) (auto simp: eval)
                then show ?thesis using q(2) Inl res target c3(3) by (auto simp flip: keep_def)
              next
                case (Inr ks)
                obtain k' stk' where ks: "ks = (k', stk')" by fastforce
                have q': "calm_st st4" "stands_for ctx4 stk'" "fc_symlinknest ctx4 \<le> 7" "k' = 7 - fc_symlinknest ctx4"
                  "fc_symlinknest ctx \<le> fc_symlinknest ctx4"
                  using q(2) Inr ks c3(3) by auto
                have "find_file lookup read_symlink nofollow path ctx st = find_file lookup read_symlink nofollow ?rest ctx4 st4"
                  using dir cur(1) l'(1) False p(1) cur2 link nf o(1) c3(1) q(1) tree_calm [OF q'(1)] by (subst step) (auto simp: eval)
                then show ?thesis using hyp [OF q'(1-3,5)] res target Inr ks c3(3) q'(4) by (simp flip: keep_def)
              qed
            qed
          qed
        qed
      qed
    qed
  qed
qed

text \<open>The whole lookup.\<close>

lemma find_file_real_resolves:
  assumes "calm_st st"
  shows "\<exists>e found root' st'. grub_fshelp_find_file_real path root lookup read_symlink expecttype st = Some (e, found, root', st') \<and>
    (case path_meaning root L T expecttype path of
       Inl e' \<Rightarrow> e = e' \<and> e \<noteq> GRUB_ERR_NONE \<and> d_errno st' = e \<and> found = None
     | Inr (n, t) \<Rightarrow> e = GRUB_ERR_NONE \<and> calm_st st' \<and> root' = root \<and>
         (\<exists>r. found = Some r \<and> (case r of Root_Node \<Rightarrow> root | Owned m \<Rightarrow> m) = n))"
proof (cases "starts_with (CHR ''/'') path")
  case False
  then show ?thesis
    by (simp add: grub_fshelp_find_file_real_def path_meaning_def raise_error_def d_errno_def grub_error_def)
next
  case True
  let ?ctx = "\<lparr> fc_path = path, fc_rootnode = root, fc_symlinknest = 0, fc_currnode = [] \<rparr>"
  let ?keep = "expecttype = GRUB_FSHELP_SYMLINK"
  have "fc_rootnode ?ctx = root" by simp
  from stands_root [OF this assms] obtain ctx1 st1 where g: "go_to_root ?ctx st = (GRUB_ERR_NONE, ctx1, st1)" "calm_st st1"
    "stands_for ctx1 [(root, GRUB_FSHELP_DIR)]" "fc_symlinknest ctx1 = 0" by auto
  obtain st2 where m: "grub_malloc st1 = (True, st2)" "calm_st st2" using malloc_calm [OF g(2)] by blast
  have "fc_symlinknest ctx1 \<le> 7" using g(4) by simp
  from find_file_resolves [OF m(2) g(3) this, of ?keep path, unfolded g(4)] obtain e2 ctx2 st3 where
    f: "find_file lookup read_symlink ?keep path ctx1 st2 = Some (e2, ctx2, st3)"
    "case resolve root L T (?keep \<and> ends_in_part path) 7 (components path) [(root, GRUB_FSHELP_DIR)] of
       Inl e' \<Rightarrow> e2 = e' \<and> e2 \<noteq> GRUB_ERR_NONE \<and> d_errno st3 = e2
     | Inr (k, stk') \<Rightarrow> e2 = GRUB_ERR_NONE \<and> calm_st st3 \<and> stands_for ctx2 stk' \<and> fc_symlinknest ctx2 \<le> 7 \<and>
         k = 7 - fc_symlinknest ctx2 \<and> 0 \<le> fc_symlinknest ctx2"
    unfolding diff_zero by blast
  note eval = grub_fshelp_find_file_real_def Let_def grub_strdup_def path_meaning_def
  show ?thesis
  proof (cases "resolve root L T (?keep \<and> ends_in_part path) 7 (components path) [(root, GRUB_FSHELP_DIR)]")
    case (Inl e')
    then show ?thesis using True g m f by (auto simp: eval)
  next
    case (Inr ks)
    obtain k stk where ks: "ks = (k, stk)" by fastforce
    have s: "e2 = GRUB_ERR_NONE" "calm_st st3" "stands_for ctx2 stk" using f(2) Inr ks by simp_all
    obtain el els where el: "fc_currnode ctx2 = el # els" using s(3) by (cases "fc_currnode ctx2") (auto simp: stands_for_def)
    then have hd: "hd stk = (node_of ctx2 (se_node el), se_type el)" "fc_rootnode ctx2 = root" using s(3) by (auto simp: stands_for_def)
    show ?thesis
      using True g m f(1) s el hd Inr ks
      by (cases "expected_type expecttype (se_type el)")
        (auto simp: eval raise_error_def d_errno_def grub_error_def node_of_def split: node_ref.splits)
  qed
qed

end

end
