(* ===== verification/Bootfs_Correct.thy ===== *)
theory Bootfs_Correct
  imports Bootfs Fshelp_Read Fshelp_Find
begin

text \<open>
  Correctness of the boot file system over any disk that meets the contract \<open>fs_disk\<close>: its block
  map meets the contract \<open>block_map\<close>, its directory walk the contracts \<open>path_walk\<close> and
  \<open>path_tree\<close>.
\<close>

subsection \<open>Nodes\<close>

lemma unat_up32: "unat (ucast (w :: u32) :: u64) = unat w"
  using unsigned_less [of w, where 'a = nat] by (simp add: unat_ucast_mod)

definition bootfs_node_wf :: "bootfs_node \<Rightarrow> bool" where
  "bootfs_node_wf n \<longleftrightarrow> unat (bn_size n) + 512 \<le> 2 ^ 32 \<and> (bn_sblock n = 0 \<longrightarrow> bn_size n = 0) \<and>
     unat (bn_sblock n) \<le> unat (bn_eblock n) \<and> unat (bn_size n) \<le> (unat (bn_eblock n) - unat (bn_sblock n) + 1) * 512"

lemma bootfs_inode_size_bounds:
  assumes "bootfs_inode_size data s e off = Some sz"
  shows "unat sz + 512 \<le> 2 ^ 32" "s = 0 \<Longrightarrow> sz = 0" "unat s \<le> unat e" "unat sz \<le> (unat e - unat s + 1) * 512"
proof -
  have le: "unat s \<le> unat e" using assms by (auto simp: bootfs_inode_size_def Let_def word_less_nat_alt not_less split: if_splits)
  show "unat s \<le> unat e" by (rule le)
  show "s = 0 \<Longrightarrow> sz = 0" using assms by (auto simp: bootfs_inode_size_def split: if_splits)
  have b: "unat s < 2 ^ 32" "unat e < 2 ^ 32" "unat off < 2 ^ 32"
    using unsigned_less [of s, where 'a = nat] unsigned_less [of e, where 'a = nat] unsigned_less [of off, where 'a = nat] by simp_all
  show "unat sz + 512 \<le> 2 ^ 32" "unat sz \<le> (unat e - unat s + 1) * 512"
  proof -
    have "unat sz + 512 \<le> 2 ^ 32 \<and> unat sz \<le> (unat e - unat s + 1) * 512"
    proof (cases "s = 0")
      case True
      then show ?thesis using assms by (auto simp: bootfs_inode_size_def split: if_splits)
    next
      case False
      then have s1: "0 < unat s" by (simp add: unat_gt_0)
      let ?st = "ucast s * 512 :: u64"
      have st: "unat ?st = unat s * 512" using b(1) by (simp add: unat_mult_lem [THEN iffD1] unat_up32)
      have c: "\<not> ?st > ucast off" "sz = ucast off + 1 - ?st" "\<not> sz > (ucast (e - s) + 1) * 512"
        using assms False by (auto simp: bootfs_inode_size_def Let_def split: if_splits)
      have o1: "unat (ucast off + 1 :: u64) = unat off + 1" using b(3) by (simp add: unat_plus_exact unat_up32)
      have "unat ?st \<le> unat off" using c(1) by (simp add: word_less_nat_alt not_less unat_up32)
      then have "unat sz = unat off + 1 - unat s * 512"
        unfolding c(2) using o1 st by (subst unat_minus_exact) (simp_all add: word_le_nat_alt)
      moreover have "unat ((ucast (e - s) + 1) * 512 :: u64) = (unat e - unat s + 1) * 512"
      proof -
        have es: "unat (e - s) = unat e - unat s" using le by (simp add: unat_minus_exact word_le_nat_alt)
        then have "unat (ucast (e - s) + 1 :: u64) = unat e - unat s + 1"
          using b(2) by (simp add: unat_plus_exact unat_up32)
        then show ?thesis using b(2) by (subst unat_mult_lem [THEN iffD1]) simp_all
      qed
      ultimately show ?thesis using c(3) b(3) s1 by (simp add: word_less_nat_alt not_less)
    qed
    then show "unat sz + 512 \<le> 2 ^ 32" "unat sz \<le> (unat e - unat s + 1) * 512" by simp_all
  qed
qed

text \<open>The bytes of a file: its blocks follow each other.\<close>

definition bootfs_byte :: "(u64 \<Rightarrow> nat \<Rightarrow> u8) \<Rightarrow> bootfs_node \<Rightarrow> nat \<Rightarrow> u8" where
  "bootfs_byte sec n j = sec (ucast (bn_sblock n) + of_nat (j div 512)) (j mod 512)"

definition bootfs_inside :: "(u64 \<Rightarrow> bool) \<Rightarrow> bootfs_node \<Rightarrow> nat \<Rightarrow> nat \<Rightarrow> bool" where
  "bootfs_inside inside n lo hi \<longleftrightarrow> (\<forall>i. lo div 512 \<le> i \<and> i * 512 < hi \<longrightarrow> inside (ucast (bn_sblock n) + of_nat i))"

lemma bootfs_file_byte:
  assumes "bootfs_node_wf n" and "j < unat (bn_size n)"
  shows "file_byte sec (\<lambda>i. ucast (bn_sblock n) + i) 0 0 j = bootfs_byte sec n j"
proof -
  have "unat (bn_sblock n) < 2 ^ 32" using unsigned_less [of "bn_sblock n", where 'a = nat] by simp
  moreover have j: "j div 512 < 2 ^ 32"
    using assms by (intro le_less_trans [OF div_le_dividend]) (simp add: bootfs_node_wf_def)
  moreover have "0 < unat (bn_sblock n)" using assms by (auto simp: bootfs_node_wf_def unat_gt_0)
  ultimately have "unat (ucast (bn_sblock n) + of_nat (j div 512) :: u64) = unat (bn_sblock n) + j div 512"
    by (simp add: unat_plus_exact unat_up32 unat_of_nat)
  then have "(ucast (bn_sblock n) + of_nat (j div 512) :: u64) \<noteq> 0"
    using \<open>0 < unat (bn_sblock n)\<close> by (auto simp: word_unat_eq_iff)
  then show ?thesis by (simp add: file_byte_def bootfs_byte_def Let_def)
qed

text \<open>The 64 bytes of an inode, its meaning, and that the inodes of a volume are inside the disk.\<close>

definition bootfs_inode_raw :: "(u64 \<Rightarrow> nat \<Rightarrow> u8) \<Rightarrow> u32 \<Rightarrow> bytes" where
  "bootfs_inode_raw sec ino = sector_bytes sec (ucast (drop_bit 9 (bootfs_inode_off ino)))
     (unat (ucast (bootfs_inode_off ino AND (BOOTFS_BSIZE - 1)) :: u64)) 64"

definition bootfs_inode :: "(u64 \<Rightarrow> nat \<Rightarrow> u8) \<Rightarrow> grub_bootfs_data \<Rightarrow> u32 \<Rightarrow> (bootfs_node \<times> u32) option" where
  "bootfs_inode sec data ino =
     (if ino < BOOTFS_ROOT_INO \<or> ino > bd_lasti data then None
      else let raw = bootfs_inode_raw sec ino in
        case bootfs_inode_size data (le32 raw 4) (le32 raw 8) (le32 raw 12) of
          None \<Rightarrow> None
        | Some sz \<Rightarrow> Some (\<lparr> bn_ino = ino, bn_sblock = le32 raw 4, bn_eblock = le32 raw 8, bn_size = ucast sz,
            bn_mtime = le32 raw 0x28 \<rparr>, le32 raw 0x10))"

definition bootfs_table_inside :: "(u64 \<Rightarrow> bool) \<Rightarrow> grub_bootfs_data \<Rightarrow> bool" where
  "bootfs_table_inside inside data \<longleftrightarrow> (\<forall>ino. BOOTFS_ROOT_INO \<le> ino \<and> ino \<le> bd_lasti data \<longrightarrow>
     touches_only inside (ucast (drop_bit 9 (bootfs_inode_off ino))) (unat (ucast (bootfs_inode_off ino AND (BOOTFS_BSIZE - 1)) :: u64)) 64)"

sublocale fs_disk \<subseteq> bootfs_map: block_map rd sec inside ok live grub_bootfs_get_block "\<lambda>n. n = node"
    "\<lambda>i. ucast (bn_sblock node) + i" "\<lambda>i. bn_sblock node \<noteq> 0 \<and> ucast (bn_sblock node) + i \<le> ucast (bn_eblock node)"
  for node :: bootfs_node
proof
  fix st n and i :: u64
  assume ok: "ok st" and n: "n = node"
  show "\<exists>b node' st'. grub_bootfs_get_block n i st = Some (b, node', st') \<and> ok st' \<and> node' = node \<and>
      (d_errno st' = GRUB_ERR_NONE \<longrightarrow> b = ucast (bn_sblock node) + i) \<and>
      (quiet live st \<and> bn_sblock node \<noteq> 0 \<and> ucast (bn_sblock node) + i \<le> ucast (bn_eblock node) \<longrightarrow> quiet live st')"
    using ok ok_raise [OF ok] n by (auto simp: grub_bootfs_get_block_def Let_def)
qed

context fs_disk
begin

lemma bootfs_read_file_ok:
  assumes st: "ok st" and n: "bootfs_node_wf node" and pos: "unat pos < unat (bn_size node)"
    and len: "0 < unat len" "unat pos + unat len < 2 ^ 64"
  shows "\<exists>e buf st'. grub_bootfs_read_file rd disk node pos len st = Some ((e, buf), st') \<and> ok st' \<and>
    (e \<noteq> GRUB_ERR_NONE \<longrightarrow> d_errno st' = e) \<and>
    (e = GRUB_ERR_NONE \<longrightarrow> d_errno st' = GRUB_ERR_NONE \<and>
       buf = map (bootfs_byte sec node) [unat pos..<unat pos + min (unat len) (unat (bn_size node) - unat pos)]) \<and>
    (quiet live st \<and> bootfs_inside inside node (unat pos) (unat pos + min (unat len) (unat (bn_size node) - unat pos))
       \<longrightarrow> e = GRUB_ERR_NONE \<and> quiet live st')"
proof -
  let ?sz = "ucast (bn_size node) :: u64"
  define n' where "n' = min (unat len) (unat (bn_size node) - unat pos)"
  have sz: "unat ?sz = unat (bn_size node)" by (simp add: unat_up32)
  have small: "unat (bn_size node) < 2 ^ 32" using unsigned_less [of "bn_size node", where 'a = nat] by simp
  show ?thesis
  proof (cases "d_errno st = GRUB_ERR_NONE")
    case True
    have p: "unat pos < unat ?sz" "unat ?sz < 2 ^ 63" using pos sz small by simp_all
    have n'': "n' = min (unat len) (unat ?sz - unat pos)" by (simp add: n'_def sz)
    from bootfs_map.read_file_ok [where l = 0 and start = 0 and disk = disk, OF st refl [of node] True _ p len n''] obtain r out st1 where
      r: "grub_fshelp_read_file rd disk node pos len grub_bootfs_get_block ?sz 0 0 st = Some ((r, out), node, st1)" "ok st1"
      "r = -1 \<and> d_errno st1 \<noteq> GRUB_ERR_NONE \<or> r = int n' \<and> d_errno st1 = GRUB_ERR_NONE \<and>
         out = map (file_byte sec (\<lambda>i. ucast (bn_sblock node) + i) 0 0) [unat pos..<unat pos + n']"
      and q: "quiet live st \<and> (\<forall>j::u64. unat pos div 512 \<le> unat j \<and> unat j * 512 < unat pos + n' \<longrightarrow>
         (bn_sblock node \<noteq> 0 \<and> ucast (bn_sblock node) + j \<le> ucast (bn_eblock node)) \<and>
         (ucast (bn_sblock node) + j = 0 \<or> inside (ucast (bn_sblock node) + j))) \<longrightarrow> r = int n' \<and> quiet live st1"
      by auto
    have bytes: "map (file_byte sec (\<lambda>i. ucast (bn_sblock node) + i) 0 0) [unat pos..<unat pos + n'] =
        map (bootfs_byte sec node) [unat pos..<unat pos + n']"
      using bootfs_file_byte [OF n] pos by (auto simp: n'_def)
    have "r = int n' \<and> quiet live st1" if quiet: "quiet live st" and ins: "bootfs_inside inside node (unat pos) (unat pos + n')"
    proof (rule q [rule_format], rule conjI [OF quiet], intro allI impI)
      fix j :: u64
      assume j: "unat pos div 512 \<le> unat j \<and> unat j * 512 < unat pos + n'"
      have "(of_nat (unat j) :: u64) = j" by simp
      then have "inside (ucast (bn_sblock node) + j)" using ins j unfolding bootfs_inside_def by metis
      moreover have "bn_sblock node \<noteq> 0" using n pos by (auto simp: bootfs_node_wf_def)
      moreover have "(ucast (bn_sblock node) + j :: u64) \<le> ucast (bn_eblock node)"
      proof -
        have "unat j * 512 < unat (bn_size node)" using j pos by (auto simp: n'_def min_def split: if_splits)
        also have "\<dots> \<le> (unat (bn_eblock node) - unat (bn_sblock node) + 1) * 512" using n by (simp add: bootfs_node_wf_def)
        finally have "unat j \<le> unat (bn_eblock node) - unat (bn_sblock node)" by simp
        moreover have "unat (bn_sblock node) \<le> unat (bn_eblock node)" using n by (simp add: bootfs_node_wf_def)
        moreover have "unat (bn_eblock node) < 2 ^ 32" using unsigned_less [of "bn_eblock node", where 'a = nat] by simp
        ultimately show ?thesis by (simp add: word_le_nat_alt unat_plus_exact unat_up32)
      qed
      ultimately show "(bn_sblock node \<noteq> 0 \<and> ucast (bn_sblock node) + j \<le> (ucast (bn_eblock node) :: u64)) \<and>
         ((ucast (bn_sblock node) + j :: u64) = 0 \<or> inside (ucast (bn_sblock node) + j))" by simp
    qed
    then show ?thesis
      using r bytes by (auto simp: grub_bootfs_read_file_def Let_def simp flip: n'_def)
  next
    case False
    have go: "\<exists>buf st1. grub_fshelp_read_file rd disk node pos len grub_bootfs_get_block ?sz 0 0 st = Some ((-1, buf), node, st1) \<and> ok st1 \<and>
        d_errno st1 \<noteq> GRUB_ERR_NONE"
    proof -
      define len1 where "len1 = (if pos + len > ?sz then ?sz - pos else len)"
      have pl: "unat (pos + len) = unat pos + unat len" using len(2) by (simp add: unat_plus_exact)
      have l1: "0 < unat len1" "unat pos + unat len1 < 2 ^ 63"
        using pos sz small len pl by (auto simp: len1_def word_less_nat_alt unat_minus_exact word_le_nat_alt)
      define req where "req = \<lparr> fr_pos = pos, fr_len = len1, fr_blockcnt = drop_bit 9 ((len1 + pos) + push_bit 9 1 - 1),
          fr_log2blocksize = 0, fr_blocks_start = 0, fr_max_read = push_bit CACHE_BLOCK_BITS (of_nat (disk_max_agglomerate disk)) \<rparr>"
      have "req_ok req" unfolding req_ok_def blocksize_def using l1 by (simp add: req_def)
      from block_bounds(1) [OF this] have lt: "first_block req < fr_blockcnt req" by (simp add: word_less_nat_alt)
      have "grub_fshelp_read_file rd disk node pos len grub_bootfs_get_block ?sz 0 0 st = read_file_loop rd grub_bootfs_get_block req (first_block req) [] node st"
        using pos sz unfolding grub_fshelp_read_file_def Let_def req_def len1_def by (simp add: word_less_nat_alt)
      moreover have "read_file_loop rd grub_bootfs_get_block req (first_block req) [] node st =
          (case grub_bootfs_get_block node (first_block req) st of None \<Rightarrow> None | Some (b, node1, st1) \<Rightarrow> Some ((-1, []), node, st1))"
        using lt False by (subst read_file_loop.simps) (simp add: grub_bootfs_get_block_def Let_def)
      ultimately show ?thesis
        using False st ok_raise [OF st] by (auto simp: grub_bootfs_get_block_def Let_def)
    qed
    then show ?thesis using False by (auto simp: grub_bootfs_read_file_def Let_def dest: quiet_errno)
  qed
qed


subsection \<open>Reading inodes\<close>

lemma read_inode_ok:
  assumes "ok st"
  shows "\<exists>r st'. grub_bootfs_read_inode rd data ino st = Some (r, st') \<and> ok st' \<and>
    (case r of Inl e \<Rightarrow> d_errno st' = e \<and> e \<noteq> GRUB_ERR_NONE | Inr (n, t) \<Rightarrow> bootfs_node_wf n) \<and>
    (quiet live st \<and> bootfs_table_inside inside data \<longrightarrow>
      (case bootfs_inode sec data ino of None \<Rightarrow> isl r \<and> quiet live (set_errno GRUB_ERR_NONE st') | Some x \<Rightarrow> r = Inr x \<and> quiet live st'))"
proof (cases "ino < BOOTFS_ROOT_INO \<or> ino > bd_lasti data")
  case True
  then show ?thesis
    using ok_raise [OF assms] by (auto simp: grub_bootfs_read_inode_def bootfs_inode_def quiet_def)
next
  case False
  let ?off = "bootfs_inode_off ino"
  have sz: "unat (64 :: u64) + 1022 < 2 ^ 64" by simp
  from rd_total [OF assms sz, of "ucast (drop_bit 9 ?off)" "ucast (?off AND (BOOTFS_BSIZE - 1))"] obtain e raw st1 where
    r: "rd (ucast (drop_bit 9 ?off)) (ucast (?off AND (BOOTFS_BSIZE - 1))) 64 st = Some ((e, raw), st1)" "ok st1"
    "e \<noteq> GRUB_ERR_NONE \<Longrightarrow> d_errno st1 = e"
    "e = GRUB_ERR_NONE \<Longrightarrow> raw = sector_bytes sec (ucast (drop_bit 9 ?off)) (unat (ucast (?off AND (BOOTFS_BSIZE - 1)) :: u64)) (unat (64 :: u64))"
    "quiet live st \<Longrightarrow> 0 < unat (64 :: u64) \<Longrightarrow>
       touches_only inside (ucast (drop_bit 9 ?off)) (unat (ucast (?off AND (BOOTFS_BSIZE - 1)) :: u64)) (unat (64 :: u64)) \<Longrightarrow>
       e = GRUB_ERR_NONE \<and> quiet live st1" by blast
  have raw: "raw = bootfs_inode_raw sec ino" if "e = GRUB_ERR_NONE" using r(4) [OF that] by (simp add: bootfs_inode_raw_def)
  have fine: "e = GRUB_ERR_NONE \<and> quiet live st1" if "quiet live st" "bootfs_table_inside inside data"
    using r(5) that False by (auto simp: bootfs_table_inside_def not_less)
  note eval = grub_bootfs_read_inode_def Let_def bootfs_inode_def
  show ?thesis
  proof (cases "e = GRUB_ERR_NONE")
    case bad: False
    then show ?thesis using False r(1-3) fine by (auto simp: eval)
  next
    case True
    let ?raw = "bootfs_inode_raw sec ino"
    show ?thesis
    proof (cases "bootfs_inode_size data (le32 ?raw 4) (le32 ?raw 8) (le32 ?raw 12)")
      case None
      then show ?thesis using False r(1,2) True raw [OF True] fine ok_raise [OF r(2)] by (auto simp: eval quiet_def)
    next
      case (Some sz)
      have b: "unat (ucast sz :: u32) = unat sz"
        using bootfs_inode_size_bounds(1) [OF Some] by (simp add: unat_ucast_mod)
      have "bootfs_node_wf \<lparr> bn_ino = ino, bn_sblock = le32 ?raw 4, bn_eblock = le32 ?raw 8, bn_size = ucast sz, bn_mtime = le32 ?raw 0x28 \<rparr>"
        unfolding bootfs_node_wf_def using bootfs_inode_size_bounds [OF Some] b by simp
      then show ?thesis using False r(1,2) True raw [OF True] fine Some by (auto simp: eval)
    qed
  qed
qed

lemma read_inode_returns:
  assumes "ok st"
  shows "\<exists>r st'. grub_bootfs_read_inode rd data ino st = Some (r, st') \<and> ok st' \<and> (\<forall>n t. r = Inr (n, t) \<longrightarrow> bootfs_node_wf n) \<and>
    (\<forall>e. r = Inl e \<longrightarrow> d_errno st' \<noteq> GRUB_ERR_NONE)"
proof -
  from read_inode_ok [OF assms, of data ino] obtain r st' where "grub_bootfs_read_inode rd data ino st = Some (r, st')" "ok st'"
    "case r of Inl e \<Rightarrow> d_errno st' = e \<and> e \<noteq> GRUB_ERR_NONE | Inr (n, t) \<Rightarrow> bootfs_node_wf n" by blast
  then show ?thesis by (cases r) auto
qed

subsection \<open>Walking over the directory returns\<close>

lemma bootfs_entries_returns:
  assumes hook: "\<And>name t n c st. ok st \<Longrightarrow> bootfs_node_wf n \<Longrightarrow> Q c \<Longrightarrow>
      \<exists>r c' st'. hook name t n c st = Some (r, c', st') \<and> ok st' \<and> Q c'"
    and "ok st" and "Q c"
  shows "\<exists>r c' st'. bootfs_entries rd data hook k buf p c st = Some (r, c', st') \<and> ok st' \<and> Q c'"
  using assms(2,3)
proof (induction k arbitrary: p c st)
  case (Suc k)
  obtain good st1 where m: "grub_malloc st = (good, st1)" by fastforce
  have st1: "ok st1" using ok_malloc [OF Suc.prems(1)] m by simp
  let ?ino = "ucast (le16 buf p) :: u32"
  show ?case
  proof (cases "?ino = 0 \<or> \<not> good")
    case True
    then show ?thesis using Suc m st1 by (auto simp: Let_def)
  next
    case False
    from read_inode_returns [OF st1, of data ?ino] obtain r st2 where
      r: "grub_bootfs_read_inode rd data ?ino st1 = Some (r, st2)" "ok st2" "\<forall>n t. r = Inr (n, t) \<longrightarrow> bootfs_node_wf n"
      by blast
    show ?thesis
    proof (cases r)
      case (Inl e)
      then show ?thesis using False m r Suc.IH [OF ok_set_errno [OF r(2)] Suc.prems(2)] by (simp add: Let_def)
    next
      case (Inr x)
      obtain n t where x: "x = (n, t)" by fastforce
      from hook [OF r(2) _ Suc.prems(2), of n "text_of (bslice (p + 2) BOOTFS_NAMELEN buf)" "grub_bootfs_filetype t ?ino"] r(3) Inr x
      obtain s c1 st3 where h: "hook (text_of (bslice (p + 2) BOOTFS_NAMELEN buf)) (grub_bootfs_filetype t ?ino) n c st2 = Some (s, c1, st3)"
        "ok st3" "Q c1" by blast
      then show ?thesis using False m r(1) Inr x Suc.IH [OF h(2,3)] by (simp add: Let_def)
    qed
  qed
qed simp

text \<open>A position in the directory: the loop goes on in steps of a block and does not wrap around.\<close>

lemma bootfs_step:
  assumes "bootfs_node_wf d" and "unat pos mod 512 = 0" and "pos < bn_size d"
  shows "unat (pos + 512) = unat pos + 512" "unat (pos + 512) mod 512 = 0"
    "unat (if bn_size d - pos > 512 then 512 else bn_size d - pos :: u32) = min 512 (unat (bn_size d) - unat pos)"
proof -
  have "unat pos < unat (bn_size d)" "unat (bn_size d) + 512 \<le> 2 ^ 32" using assms by (simp_all add: word_less_nat_alt bootfs_node_wf_def)
  then show "unat (pos + 512) = unat pos + 512" by (simp add: unat_plus_exact)
  then show "unat (pos + 512) mod 512 = 0" using assms(2) by simp
  show "unat (if bn_size d - pos > 512 then 512 else bn_size d - pos :: u32) = min 512 (unat (bn_size d) - unat pos)"
    using assms(3) by (auto simp: word_less_nat_alt unat_minus_exact word_le_nat_alt)
qed

lemma bootfs_dir_read:
  assumes "ok st" and d: "bootfs_node_wf d" and pos: "unat pos mod 512 = 0" "pos < bn_size d"
  shows "\<exists>e buf st'. grub_bootfs_read_file rd disk d (ucast pos) (ucast (if bn_size d - pos > 512 then 512 else bn_size d - pos :: u32)) st
      = Some ((e, buf), st') \<and> ok st' \<and> (e \<noteq> GRUB_ERR_NONE \<longrightarrow> d_errno st' = e) \<and>
    (quiet live st \<and> bootfs_inside inside d 0 (unat (bn_size d)) \<longrightarrow> e = GRUB_ERR_NONE \<and> quiet live st' \<and>
       buf = map (bootfs_byte sec d) [unat pos..<unat pos + min 512 (unat (bn_size d) - unat pos)])"
proof -
  let ?len = "ucast (if bn_size d - pos > 512 then 512 else bn_size d - pos :: u32) :: u64"
  have lt: "unat pos < unat (bn_size d)" "unat (bn_size d) + 512 \<le> 2 ^ 32" using d pos(2) by (simp_all add: word_less_nat_alt bootfs_node_wf_def)
  have len: "unat ?len = min 512 (unat (bn_size d) - unat pos)"
    unfolding unat_up32 by (rule bootfs_step(3) [OF d pos])
  have p: "unat (ucast pos :: u64) = unat pos" by (rule unat_up32)
  have b: "unat (ucast pos :: u64) < unat (bn_size d)" "0 < unat ?len" "unat (ucast pos :: u64) + unat ?len < 2 ^ 64"
    unfolding p len using lt by auto
  have ins: "bootfs_inside inside d (unat pos) (unat pos + min (unat ?len) (unat (bn_size d) - unat pos))" if "bootfs_inside inside d 0 (unat (bn_size d))"
    using that lt unfolding bootfs_inside_def len by (auto simp: min_def split: if_splits)
  have mm: "min (min 512 (unat (bn_size d) - unat pos)) (unat (bn_size d) - unat pos) = min 512 (unat (bn_size d) - unat pos)" by simp
  show ?thesis using bootfs_read_file_ok [OF assms(1) d b, of disk] ins unfolding p len mm by blast
qed

lemma bootfs_loop_returns:
  assumes hook: "\<And>name t n c st. ok st \<Longrightarrow> bootfs_node_wf n \<Longrightarrow> Q c \<Longrightarrow>
      \<exists>r c' st'. hook name t n c st = Some (r, c', st') \<and> ok st' \<and> Q c'"
    and d: "bootfs_node_wf d" and "unat pos mod 512 = 0" and "ok st" and "Q c"
  shows "\<exists>r c' st'. bootfs_blocks_loop rd disk data d hook pos c st = Some (r, c', st') \<and> ok st' \<and> Q c'"
  using assms(3-)
proof (induction "unat (bn_size d) - unat pos" arbitrary: pos c st rule: less_induct)
  case less
  note step = bootfs_blocks_loop.simps [of rd disk data d hook pos c st]
  show ?case
  proof (cases "pos < bn_size d")
    case False
    then have "bootfs_blocks_loop rd disk data d hook pos c st = Some (False, c, st)" by (subst step) simp
    then show ?thesis using less.prems by blast
  next
    case True
    note pos = bootfs_step [OF d less.prems(1) True]
    let ?len = "if bn_size d - pos > 512 then 512 else bn_size d - pos :: u32"
    from bootfs_dir_read [OF less.prems(2) d less.prems(1) True, of disk] obtain e buf st1 where
      r: "grub_bootfs_read_file rd disk d (ucast pos) (ucast ?len) st = Some ((e, buf), st1)" "ok st1" by blast
    show ?thesis
    proof (cases "e = GRUB_ERR_NONE")
      case False
      then show ?thesis using True r less.prems by (subst step) (auto simp: Let_def)
    next
      case e: True
      from bootfs_entries_returns [of Q hook, OF hook r(2) less.prems(3)] obtain x c1 st2 where
        x: "bootfs_entries rd data hook (unat ?len div 16) buf 0 c st1 = Some (x, c1, st2)" "ok st2" "Q c1" by blast
      have lt: "unat (bn_size d) - unat (pos + 512) < unat (bn_size d) - unat pos"
        using True pos(1) by (simp add: word_less_nat_alt)
      show ?thesis
      proof (cases "x = Inr False")
        case True
        have "bootfs_blocks_loop rd disk data d hook pos c st = bootfs_blocks_loop rd disk data d hook (pos + 512) c1 st2"
          using \<open>pos < bn_size d\<close> r(1) e x(1) True by (subst step) (simp add: Let_def)
        then show ?thesis using less.hyps [OF lt pos(2) x(2,3)] by simp
      next
        case False
        then have "x = Inl () \<or> x = Inr True" by (cases x) auto
        then show ?thesis using True r(1) e x by (subst step) (auto simp: Let_def)
      qed
    qed
  qed
qed

text \<open>Looking a name up returns.\<close>

lemma bootfs_lookup_returns:
  assumes "ok st" and "bootfs_node_wf d"
  shows "\<exists>e found st'. directory_find_file (grub_bootfs_iterate_dir rd disk data) d name st = Some (e, found, d, st') \<and> ok st' \<and>
    (e \<noteq> GRUB_ERR_NONE \<longrightarrow> d_errno st' \<noteq> GRUB_ERR_NONE) \<and> (\<forall>m t. found = Some (m, t) \<longrightarrow> bootfs_node_wf m)"
proof -
  let ?Q = "\<lambda>found. \<forall>m (t :: u32). found = Some (m, t) \<longrightarrow> bootfs_node_wf m"
  have "\<exists>r c' st'. bootfs_blocks_loop rd disk data d (find_file_iter name) 0 None st = Some (r, c', st') \<and> ok st' \<and> ?Q c'"
    by (rule bootfs_loop_returns [OF _ assms(2) _ assms(1)]) (auto simp: find_file_iter_def)
  then show ?thesis by (auto simp: directory_find_file_def grub_bootfs_iterate_dir_def)
qed

end

sublocale fs_disk \<subseteq> bootfs_walk: path_walk "directory_find_file (grub_bootfs_iterate_dir rd disk data)" None ok bootfs_node_wf
  for disk data
proof
  fix st n name
  assume "ok st" "bootfs_node_wf n"
  from bootfs_lookup_returns [OF this] show "\<exists>e found n' st'. directory_find_file (grub_bootfs_iterate_dir rd disk data) n name st = Some (e, found, n', st') \<and>
      ok st' \<and> bootfs_node_wf n' \<and> (e \<noteq> GRUB_ERR_NONE \<longrightarrow> d_errno st' \<noteq> GRUB_ERR_NONE) \<and> (\<forall>m t. found = Some (m, t) \<longrightarrow> bootfs_node_wf m)"
    using \<open>bootfs_node_wf n\<close> by blast
qed (simp_all add: ok_raise ok_malloc)

end
