(* ===== verification/Bootfs_Tree.thy ===== *)
theory Bootfs_Tree
  imports Bootfs_Correct
begin

text \<open>
  The directory of a boot file system as a list, and the lookup of a path in it: the search of the
  code finds what the path means (interpretation of \<open>path_tree\<close>), mounting reads the superblock.
\<close>

subsection \<open>The directory\<close>

text \<open>The entry at byte \<open>p\<close> of the directory's bytes: its name, type and node.\<close>

definition bootfs_entry :: "(u64 \<Rightarrow> nat \<Rightarrow> u8) \<Rightarrow> grub_bootfs_data \<Rightarrow> bytes \<Rightarrow> nat \<Rightarrow> (string \<times> u32 \<times> bootfs_node) option" where
  "bootfs_entry sec data buf p =
     (let ino = ucast (le16 buf p) :: u32
      in if ino = 0 then None
         else case bootfs_inode sec data ino of
           None \<Rightarrow> None
         | Some (node, vtype) \<Rightarrow> Some (text_of (bslice (p + 2) BOOTFS_NAMELEN buf), grub_bootfs_filetype vtype ino, node))"

definition bootfs_bytes :: "(u64 \<Rightarrow> nat \<Rightarrow> u8) \<Rightarrow> bootfs_node \<Rightarrow> bytes" where
  "bootfs_bytes sec node = map (bootfs_byte sec node) [0..<unat (bn_size node)]"

definition bootfs_listing :: "(u64 \<Rightarrow> nat \<Rightarrow> u8) \<Rightarrow> grub_bootfs_data \<Rightarrow> bootfs_node \<Rightarrow> (string \<times> u32 \<times> bootfs_node) list" where
  "bootfs_listing sec data d =
     List.map_filter (\<lambda>k. bootfs_entry sec data (bootfs_bytes sec d) (16 * k)) [0..<unat (bn_size d) div 16]"

definition bootfs_find :: "string \<Rightarrow> (string \<times> u32 \<times> bootfs_node) list \<Rightarrow> (bootfs_node \<times> u32) option" where
  "bootfs_find name es = map_option (\<lambda>(_, t, n). (n, t))
     (List.find (\<lambda>(s, t, n). t \<noteq> GRUB_FSHELP_UNKNOWN \<and> grub_strcmp name s = 0) es)"

definition bootfs_lookup :: "(u64 \<Rightarrow> nat \<Rightarrow> u8) \<Rightarrow> grub_bootfs_data \<Rightarrow> bootfs_node \<Rightarrow> string \<Rightarrow> grub_err_t + (bootfs_node \<times> u32) option" where
  "bootfs_lookup sec data d name = Inr (bootfs_find name (bootfs_listing sec data d))"

text \<open>The volume was mounted and its tables and its directory are inside the disk.\<close>

definition bootfs_mounted :: "(u64 \<Rightarrow> nat \<Rightarrow> u8) \<Rightarrow> (u64 \<Rightarrow> bool) \<Rightarrow> grub_bootfs_data \<Rightarrow> bool" where
  "bootfs_mounted sec inside data \<longleftrightarrow> bootfs_table_inside inside data \<and>
     bootfs_inode sec data BOOTFS_ROOT_INO = Some (bd_root data, BOOTFS_VDIR) \<and>
     bootfs_inside inside (bd_root data) 0 (unat (bn_size (bd_root data)))"

lemma bootfs_find_append:
  "bootfs_find name (xs @ ys) = (case bootfs_find name xs of None \<Rightarrow> bootfs_find name ys | Some r \<Rightarrow> Some r)"
  by (induction xs) (auto simp: bootfs_find_def split: option.splits)

lemma bootfs_find_simps [simp]:
  "bootfs_find name [] = None"
  "bootfs_find name ((s, t, n) # es) = (if t \<noteq> GRUB_FSHELP_UNKNOWN \<and> grub_strcmp name s = 0 then Some (n, t) else bootfs_find name es)"
  by (simp_all add: bootfs_find_def)

lemma map_filter_map: "List.map_filter f (map g xs) = List.map_filter (f \<circ> g) xs"
  by (simp add: List.map_filter_def filter_map o_def)

lemma map_filter_shift: "List.map_filter (\<lambda>j. f (p + 16 * j)) [0..<Suc k] =
  (case f p of None \<Rightarrow> [] | Some x \<Rightarrow> [x]) @ List.map_filter (\<lambda>j. f (p + 16 + 16 * j)) [0..<k]"
proof -
  have u: "[0..<Suc k] = 0 # map Suc [0..<k]" by (simp only: upt_conv_Cons map_Suc_upt zero_less_Suc)
  show ?thesis
    unfolding u List.map_filter_simps map_filter_map by (simp add: o_def add.assoc split: option.splits)
qed

lemma map_filter_append: "List.map_filter f (xs @ ys) = List.map_filter f xs @ List.map_filter f ys"
  by (simp add: List.map_filter_def)

lemma filetype_plain:
  "grub_bootfs_filetype v i AND GRUB_FSHELP_CASE_INSENSITIVE = 0" "base_type (grub_bootfs_filetype v i) = grub_bootfs_filetype v i"
  by (simp_all add: grub_bootfs_filetype_def base_type_def)

lemma bootfs_entry_plain:
  assumes "bootfs_entry sec data buf p = Some (s, t, n)"
  shows "t AND GRUB_FSHELP_CASE_INSENSITIVE = 0" "base_type t = t"
    "t = GRUB_FSHELP_DIR \<Longrightarrow> bootfs_inode sec data BOOTFS_ROOT_INO = Some (n, BOOTFS_VDIR)"
    "bootfs_entry sec data buf p = Some (s, t, n) \<Longrightarrow> \<exists>ino v. bootfs_inode sec data ino = Some (n, v)"
  using assms by (auto simp: bootfs_entry_def Let_def filetype_plain grub_bootfs_filetype_def base_type_def split: if_splits option.splits)

context fs_disk
begin

lemma bootfs_entries_find:
  assumes "bootfs_table_inside inside data" and "ok st" and "quiet live st"
    and "r = bootfs_find name (List.map_filter (\<lambda>j. bootfs_entry sec data buf (p + 16 * j)) [0..<k])"
  shows "\<exists>st'. bootfs_entries rd data (find_file_iter name) k buf p None st =
      Some (Inr (r \<noteq> None), r, st') \<and> ok st' \<and> quiet live st'"
  using assms(2-)
proof (induction k arbitrary: p st r)
  case 0
  then show ?case by (simp add: List.map_filter_def)
next
  case (Suc k)
  obtain st1 where m: "grub_malloc st = (True, st1)" "quiet live st1" "ok st1"
    using quiet_malloc [OF Suc.prems(2)] ok_malloc [OF Suc.prems(1)] by (metis prod.collapse)
  let ?ino = "ucast (le16 buf p) :: u32"
  define r1 where "r1 = bootfs_find name (List.map_filter (\<lambda>j. bootfs_entry sec data buf (p + 16 + 16 * j)) [0..<k])"
  have res: "r = (case bootfs_entry sec data buf p of None \<Rightarrow> r1 | Some e \<Rightarrow> (case bootfs_find name [e] of None \<Rightarrow> r1 | Some x \<Rightarrow> Some x))"
    unfolding Suc.prems(3) map_filter_shift bootfs_find_append r1_def by (simp split: option.splits)
  note again = Suc.IH [OF _ _ r1_def]
  show ?case
  proof (cases "?ino = 0")
    case True
    then show ?thesis using again [OF Suc.prems(1,2)] res by (simp add: bootfs_entry_def)
  next
    case False
    from read_inode_ok [OF m(3), of data ?ino] obtain x st2 where
      r: "grub_bootfs_read_inode rd data ?ino st1 = Some (x, st2)" "ok st2"
      and q: "case bootfs_inode sec data ?ino of None \<Rightarrow> isl x \<and> quiet live (set_errno GRUB_ERR_NONE st2) | Some y \<Rightarrow> x = Inr y \<and> quiet live st2"
      using m(2) assms(1) by blast
    show ?thesis
    proof (cases "bootfs_inode sec data ?ino")
      case None
      then obtain e where "x = Inl e" using q by (cases x) auto
      then show ?thesis
        using again [OF ok_set_errno [OF r(2)], of GRUB_ERR_NONE] q None False m(1) r(1) res by (simp add: bootfs_entry_def)
    next
      case (Some y)
      obtain n v where y: "y = (n, v)" by fastforce
      let ?s = "text_of (bslice (p + 2) BOOTFS_NAMELEN buf)" and ?t = "grub_bootfs_filetype v ?ino"
      have e: "bootfs_entry sec data buf p = Some (?s, ?t, n)" using Some y False by (simp add: bootfs_entry_def)
      show ?thesis
      proof (cases "?t \<noteq> GRUB_FSHELP_UNKNOWN \<and> grub_strcmp name ?s = 0")
        case True
        then show ?thesis using False m(1) r q Some y e res by (simp add: find_file_iter_def filetype_plain)
      next
        case no: False
        then show ?thesis using again [OF r(2)] False m(1) r(1) q Some y e res by (auto simp: find_file_iter_def filetype_plain)
      qed
    qed
  qed
qed

text \<open>An entry inside a block of the directory is the entry of the whole directory.\<close>

lemma bootfs_entry_block:
  assumes "p + 16 \<le> len" and "off + len \<le> unat (bn_size d)"
  shows "bootfs_entry sec data (map (bootfs_byte sec d) [off..<off + len]) p = bootfs_entry sec data (bootfs_bytes sec d) (off + p)"
proof -
  let ?buf = "map (bootfs_byte sec d) [off..<off + len]" and ?all = "bootfs_bytes sec d"
  have b: "byte_at ?buf i = byte_at ?all (off + i)" if "i < len" for i
    using that assms(2) by (simp add: bootfs_bytes_def)
  have "le16 ?buf p = le16 ?all (off + p)"
    using b [of p] b [of "Suc p"] assms(1) by (simp add: le16_def numeral_2_eq_2)
  moreover have "bslice (p + 2) BOOTFS_NAMELEN ?buf = bslice (off + p + 2) BOOTFS_NAMELEN ?all"
  proof -
    have "bslice (p + 2) BOOTFS_NAMELEN ?buf = map (bootfs_byte sec d) [off + (p + 2)..<off + (p + 2) + BOOTFS_NAMELEN]"
      by (rule bslice_map_upt) (use assms in simp)
    moreover have "bslice (off + p + 2) BOOTFS_NAMELEN (map (bootfs_byte sec d) [0..<0 + unat (bn_size d)]) =
        map (bootfs_byte sec d) [0 + (off + p + 2)..<0 + (off + p + 2) + BOOTFS_NAMELEN]"
      by (rule bslice_map_upt) (use assms in simp)
    ultimately show ?thesis by (simp add: bootfs_bytes_def add.assoc del: upt_rec_numeral)
  qed
  ultimately show ?thesis by (simp only: bootfs_entry_def Let_def)
qed

lemma bootfs_loop_find:
  assumes t: "bootfs_table_inside inside data" and d: "bootfs_node_wf d" "bootfs_inside inside d 0 (unat (bn_size d))"
    and "unat pos mod 512 = 0" and "ok st" and "quiet live st"
    and "r = bootfs_find name (List.map_filter (\<lambda>k. bootfs_entry sec data (bootfs_bytes sec d) (16 * k)) [unat pos div 16..<unat (bn_size d) div 16])"
  shows "\<exists>st'. bootfs_blocks_loop rd disk data d (find_file_iter name) pos None st = Some (r \<noteq> None, r, st') \<and> ok st' \<and> quiet live st'"
  using assms(4-)
proof (induction "unat (bn_size d) - unat pos" arbitrary: pos st r rule: less_induct)
  case less
  let ?f = "\<lambda>k. bootfs_entry sec data (bootfs_bytes sec d) (16 * k)"
  note step = bootfs_blocks_loop.simps [of rd disk data d "find_file_iter name" pos None st]
  show ?case
  proof (cases "pos < bn_size d")
    case False
    then have "unat (bn_size d) div 16 \<le> unat pos div 16" by (simp add: word_less_nat_alt div_le_mono)
    then have "r = None" using less.prems(4) by (simp add: List.map_filter_def)
    then show ?thesis using False less.prems by (subst step) simp
  next
    case True
    note pos = bootfs_step [OF d(1) less.prems(1) True]
    let ?len = "if bn_size d - pos > 512 then 512 else bn_size d - pos :: u32"
    let ?m = "min 512 (unat (bn_size d) - unat pos)"
    have lt: "unat pos < unat (bn_size d)" using True by (simp add: word_less_nat_alt)
    from bootfs_dir_read [OF less.prems(2) d(1) less.prems(1) True, of disk] d(2) less.prems(3) obtain e buf st1 where
      "grub_bootfs_read_file rd disk d (ucast pos) (ucast ?len) st = Some ((e, buf), st1)" "ok st1" "quiet live st1" "e = GRUB_ERR_NONE"
      "buf = map (bootfs_byte sec d) [unat pos..<unat pos + ?m]" by blast
    then have r: "grub_bootfs_read_file rd disk d (ucast pos) (ucast ?len) st = Some ((GRUB_ERR_NONE, buf), st1)" "ok st1" "quiet live st1"
      "buf = map (bootfs_byte sec d) [unat pos..<unat pos + ?m]" by simp_all
    define r1 where "r1 = bootfs_find name (List.map_filter (\<lambda>j. bootfs_entry sec data buf (0 + 16 * j)) [0..<unat ?len div 16])"
    from bootfs_entries_find [OF t r(2,3) r1_def] obtain st2 where
      x: "bootfs_entries rd data (find_file_iter name) (unat ?len div 16) buf 0 None st1 = Some (Inr (r1 \<noteq> None), r1, st2)" "ok st2" "quiet live st2"
      by blast
    define r2 where "r2 = bootfs_find name (List.map_filter ?f [unat (pos + 512) div 16..<unat (bn_size d) div 16])"
    have "16 dvd (512 :: nat)" by simp
    then have "16 dvd unat pos" using less.prems(1) by (metis dvd_trans mod_0_imp_dvd)
    then have a: "unat pos = 16 * (unat pos div 16)" by simp
    have up: "unat (pos + 512) div 16 = unat pos div 16 + 32" unfolding pos(1) by simp
    have blk: "List.map_filter (\<lambda>j. bootfs_entry sec data buf (0 + 16 * j)) [0..<unat ?len div 16] =
        List.map_filter ?f [unat pos div 16..<unat pos div 16 + ?m div 16]"
    proof -
      have "bootfs_entry sec data buf (0 + 16 * j) = ?f (unat pos div 16 + j)" if "j < ?m div 16" for j
      proof -
        have "16 * j + 16 \<le> ?m" using that by linarith
        from bootfs_entry_block [OF this, of "unat pos" d data] show ?thesis
          using lt a unfolding r(4) by (simp add: algebra_simps)
      qed
      then have "List.map_filter (\<lambda>j. bootfs_entry sec data buf (0 + 16 * j)) [0..<?m div 16] =
          List.map_filter (\<lambda>j. ?f (unat pos div 16 + j)) [0..<?m div 16]"
        unfolding List.map_filter_def by (intro arg_cong2 [where f = map] filter_cong map_cong) auto
      also have "\<dots> = List.map_filter ?f (map (\<lambda>j. unat pos div 16 + j) [0..<?m div 16])"
        by (simp add: map_filter_map o_def)
      also have "map (\<lambda>j. unat pos div 16 + j) [0..<?m div 16] = [unat pos div 16..<unat pos div 16 + ?m div 16]"
        by (rule nth_equalityI) simp_all
      finally show ?thesis unfolding pos(3) .
    qed
    have split: "[unat pos div 16..<unat (bn_size d) div 16] =
        [unat pos div 16..<unat pos div 16 + ?m div 16] @ [unat pos div 16 + 32..<unat (bn_size d) div 16]"
    proof (cases "512 \<le> unat (bn_size d) - unat pos")
      case True
      then have m: "?m div 16 = 32" by simp
      have m2: "unat pos div 16 + 32 \<le> unat (bn_size d) div 16" using True a lt by linarith
      show ?thesis unfolding m using upt_add_eq_append [of "unat pos div 16" "unat pos div 16 + 32" "unat (bn_size d) div 16 - (unat pos div 16 + 32)"] m2 by simp
    next
      case False
      then have m: "?m = unat (bn_size d) - unat pos" by simp
      have "unat pos div 16 + ?m div 16 = unat (bn_size d) div 16" unfolding m using a lt by linarith
      moreover have "unat (bn_size d) div 16 \<le> unat pos div 16 + 32" using False a lt by linarith
      ultimately show ?thesis by simp
    qed
    have res: "r = (case r1 of None \<Rightarrow> r2 | Some y \<Rightarrow> Some y)"
      unfolding less.prems(4) split map_filter_append bootfs_find_append r1_def r2_def blk up ..
    show ?thesis
    proof (cases r1)
      case (Some y)
      then show ?thesis using True r(1) x res by (subst step) (simp add: Let_def)
    next
      case None
      have "bootfs_blocks_loop rd disk data d (find_file_iter name) pos None st =
          bootfs_blocks_loop rd disk data d (find_file_iter name) (pos + 512) None st2"
        using True r(1) x(1) None by (subst step) (simp add: Let_def)
      moreover have "unat (bn_size d) - unat (pos + 512) < unat (bn_size d) - unat pos" using lt pos(1) by simp
      ultimately show ?thesis using less.hyps [OF _ pos(2) x(2,3) r2_def] res None by simp
    qed
  qed
qed

lemma bootfs_lookup_finds:
  assumes "bootfs_mounted sec inside data" and "ok st" and "quiet live st"
  shows "\<exists>st'. directory_find_file (grub_bootfs_iterate_dir rd disk data) (bd_root data) name st =
      Some (GRUB_ERR_NONE, bootfs_find name (bootfs_listing sec data (bd_root data)), bd_root data, st') \<and> ok st' \<and> quiet live st'"
proof -
  have wf: "bootfs_node_wf (bd_root data)"
  proof -
    from read_inode_ok [OF assms(2), of data BOOTFS_ROOT_INO] assms show ?thesis by (auto simp: bootfs_mounted_def)
  qed
  have "unat (0 :: u32) mod 512 = 0" by simp
  from bootfs_loop_find [OF _ wf _ this assms(2,3) refl, of data disk name] assms(1) obtain st' where
    "bootfs_blocks_loop rd disk data (bd_root data) (find_file_iter name) 0 None st =
      Some (bootfs_find name (bootfs_listing sec data (bd_root data)) \<noteq> None, bootfs_find name (bootfs_listing sec data (bd_root data)), st')"
    "ok st'" "quiet live st'" by (auto simp: bootfs_mounted_def bootfs_listing_def)
  then show ?thesis using quiet_errno by (auto simp: directory_find_file_def grub_bootfs_iterate_dir_def)
qed

end

lemma bootfs_find_dir:
  assumes "bootfs_mounted sec inside data" and "bootfs_find name (bootfs_listing sec data d) = Some (n, t)"
  shows "base_type t = t" "t = GRUB_FSHELP_DIR \<Longrightarrow> n = bd_root data"
proof -
  from assms(2) obtain s where "List.find (\<lambda>(s, t, n). t \<noteq> GRUB_FSHELP_UNKNOWN \<and> grub_strcmp name s = 0) (bootfs_listing sec data d) = Some (s, t, n)"
    by (auto simp: bootfs_find_def)
  then have "(s, t, n) \<in> set (bootfs_listing sec data d)" unfolding find_Some_iff by (metis nth_mem)
  then obtain k where k: "bootfs_entry sec data (bootfs_bytes sec d) (16 * k) = Some (s, t, n)"
    by (auto simp: bootfs_listing_def List.map_filter_def)
  show "base_type t = t" by (rule bootfs_entry_plain(2) [OF k])
  show "t = GRUB_FSHELP_DIR \<Longrightarrow> n = bd_root data" using bootfs_entry_plain(3) [OF k] assms(1) by (simp add: bootfs_mounted_def)
qed

sublocale fs_disk \<subseteq> bootfs_tree: path_tree "directory_find_file (grub_bootfs_iterate_dir rd disk data)" None "bd_root data"
    "bootfs_lookup sec data" "\<lambda>_. Inl GRUB_ERR_BAD_FS" "\<lambda>st. bootfs_mounted sec inside data \<and> ok st \<and> quiet live st"
    "\<lambda>n t. t = GRUB_FSHELP_DIR \<longrightarrow> n = bd_root data"
  for disk data
proof
  fix st n name
  assume c: "bootfs_mounted sec inside data \<and> ok st \<and> quiet live st" and n: "GRUB_FSHELP_DIR = GRUB_FSHELP_DIR \<longrightarrow> n = bd_root data"
  from c bootfs_lookup_finds [of data st disk name] n show "\<exists>e found st'. directory_find_file (grub_bootfs_iterate_dir rd disk data) n name st = Some (e, found, n, st') \<and>
      (case bootfs_lookup sec data n name of
         Inl e' \<Rightarrow> e = e' \<and> e \<noteq> GRUB_ERR_NONE \<and> d_errno st' = e
       | Inr r \<Rightarrow> e = GRUB_ERR_NONE \<and> found = r \<and> (bootfs_mounted sec inside data \<and> ok st' \<and> quiet live st') \<and>
           (\<forall>m t. r = Some (m, t) \<longrightarrow> base_type t = GRUB_FSHELP_DIR \<longrightarrow> m = bd_root data))"
    using bootfs_find_dir [of sec inside data name "bd_root data"] by (auto simp: bootfs_lookup_def)
next
  fix st
  assume c: "bootfs_mounted sec inside data \<and> ok st \<and> quiet live st"
  then have "ok (snd (grub_malloc st))" "fst (grub_malloc st) \<and> quiet live (snd (grub_malloc st))"
    using ok_malloc [of st] quiet_malloc [of live st "fst (grub_malloc st)" "snd (grub_malloc st)"] by simp_all
  with c show "fst (grub_malloc st) \<and> bootfs_mounted sec inside data \<and> ok (snd (grub_malloc st)) \<and> quiet live (snd (grub_malloc st))" by simp
qed (auto dest: quiet_errno)

subsection \<open>Mounting\<close>

text \<open>What the superblock and the root inode say.\<close>

definition bootfs_volume :: "(u64 \<Rightarrow> nat \<Rightarrow> u8) \<Rightarrow> grub_disk \<Rightarrow> grub_bootfs_data option" where
  "bootfs_volume sec disk =
     (let sb = sector_bytes sec 0 0 512; start = le32 sb 4; until = le32 sb 8;
          data = bootfs_geometry start until
      in if le32 sb 0 \<noteq> BOOTFS_MAGIC \<or> bootfs_sb_corrupted start until \<or> bd_lasti data > BOOTFS_MAX_LASTI
            \<or> (grub_disk_native_sectors disk \<noteq> GRUB_DISK_SIZE_UNKNOWN \<and> ucast (bd_blocks data) > grub_disk_native_sectors disk)
         then None
         else case bootfs_inode sec data BOOTFS_ROOT_INO of
           None \<Rightarrow> None
         | Some (root, vtype) \<Rightarrow> if vtype \<noteq> BOOTFS_VDIR then None else Some (data\<lparr> bd_root := root, bd_label := grub_bootfs_get_name (drop 0x22 sb) \<rparr>))"

lemma bootfs_inode_fields:
  "bootfs_inode sec (data\<lparr> bd_root := r \<rparr>) ino = bootfs_inode sec data ino"
  "bootfs_inode sec (data\<lparr> bd_label := l \<rparr>) ino = bootfs_inode sec data ino"
  "bootfs_table_inside inside (data\<lparr> bd_root := r \<rparr>) = bootfs_table_inside inside data"
  "bootfs_table_inside inside (data\<lparr> bd_label := l \<rparr>) = bootfs_table_inside inside data"
  by (simp_all add: bootfs_inode_def bootfs_inode_size_def bootfs_table_inside_def)

context fs_disk
begin

lemma bootfs_mount_returns:
  assumes "ok st"
  shows "\<exists>r st'. grub_bootfs_mount rd disk st = Some (r, st') \<and> ok st' \<and>
    (case r of None \<Rightarrow> d_errno st' \<noteq> GRUB_ERR_NONE | Some dt \<Rightarrow> bootfs_node_wf (bd_root dt))"
proof -
  have fail: "\<exists>r st'. bootfs_mount_fail s = Some (r, st') \<and> ok st' \<and>
      (case r of None \<Rightarrow> d_errno st' \<noteq> GRUB_ERR_NONE | Some dt \<Rightarrow> bootfs_node_wf (bd_root dt))" if "ok s" for s
    using ok_raise [OF that] that by (simp add: bootfs_mount_fail_def)
  have sz: "unat (512 :: u64) + 1022 < 2 ^ 64" by simp
  from rd_total [OF assms sz, of 0 0] obtain e sb st1 where r: "rd 0 0 512 st = Some ((e, sb), st1)" "ok st1" by blast
  obtain good st2 where m: "grub_malloc st1 = (good, st2)" by fastforce
  have st2: "ok st2" "\<not> good \<Longrightarrow> d_errno st2 \<noteq> GRUB_ERR_NONE"
    using ok_malloc [OF r(2)] grub_malloc_step(8) [OF m] m by simp_all
  let ?start = "le32 sb 4" and ?until = "le32 sb 8"
  let ?d0 = "bootfs_geometry ?start ?until"
  obtain x st3 where
    i: "grub_bootfs_read_inode rd ?d0 BOOTFS_ROOT_INO st2 = Some (x, st3)" "ok st3" "\<forall>n t. x = Inr (n, t) \<longrightarrow> bootfs_node_wf n"
    using read_inode_returns [OF st2(1)] by blast
  note fails = fail [OF r(2)] fail [OF ok_raise [OF r(2)]] fail [OF ok_raise [OF st2(1)]] fail [OF i(2)] fail [OF ok_raise [OF i(2)]]
  show ?thesis
  proof (cases "e \<noteq> GRUB_ERR_NONE \<or> le32 sb 0 \<noteq> BOOTFS_MAGIC \<or> bootfs_sb_corrupted ?start ?until \<or> \<not> good")
    case True
    then show ?thesis using r m st2 fails by (auto simp: grub_bootfs_mount_def Let_def)
  next
    case False
    then have go: "grub_bootfs_mount rd disk st =
       (if bd_lasti ?d0 > BOOTFS_MAX_LASTI then bootfs_mount_fail (raise_error GRUB_ERR_BAD_FS ''bootfs: impossible last inode'' st2)
        else if grub_disk_native_sectors disk \<noteq> GRUB_DISK_SIZE_UNKNOWN \<and> ucast (bd_blocks ?d0) > grub_disk_native_sectors disk
        then bootfs_mount_fail (raise_error GRUB_ERR_BAD_FS ''bootfs: filesystem is larger than the device'' st2)
        else case x of Inl _ \<Rightarrow> bootfs_mount_fail st3
          | Inr (root, vtype) \<Rightarrow> if vtype \<noteq> BOOTFS_VDIR
              then bootfs_mount_fail (raise_error GRUB_ERR_BAD_FS ''bootfs: root inode is not a directory'' st3)
              else Some (Some (?d0\<lparr> bd_root := root, bd_label := grub_bootfs_get_name (drop 0x22 sb) \<rparr>), st3))"
      using m i(1) r(1) by (simp add: grub_bootfs_mount_def Let_def)
    show ?thesis unfolding go using fails i by (cases x) auto
  qed
qed

lemma bootfs_mount_volume:
  assumes "ok st" and "quiet live st" and "inside 0" and "bootfs_volume sec disk = Some data" and "bootfs_table_inside inside data"
  shows "\<exists>st'. grub_bootfs_mount rd disk st = Some (Some data, st') \<and> ok st' \<and> quiet live st'"
proof -
  have sz: "unat (512 :: u64) + 1022 < 2 ^ 64" by simp
  have "touches_only inside 0 (unat (0 :: u64)) (unat (512 :: u64))" using assms(3) by (simp add: touches_only_def)
  moreover have "0 < unat (512 :: u64)" by simp
  moreover from rd_ok [OF assms(1) sz, of 0 0] obtain e sb st1 where
    a: "rd 0 0 512 st = Some ((e, sb), st1)" "ok st1" "e = GRUB_ERR_NONE \<longrightarrow> sb = sector_bytes sec 0 (unat (0 :: u64)) (unat (512 :: u64))"
    "quiet live st \<and> 0 < unat (512 :: u64) \<and> touches_only inside 0 (unat (0 :: u64)) (unat (512 :: u64)) \<longrightarrow> e = GRUB_ERR_NONE \<and> quiet live st1"
    by blast
  ultimately have "e = GRUB_ERR_NONE" "quiet live st1" using assms(2) by simp_all
  with a have r: "rd 0 0 512 st = Some ((GRUB_ERR_NONE, sector_bytes sec 0 0 512), st1)" "ok st1" "quiet live st1" by simp_all
  let ?sb = "sector_bytes sec 0 0 512"
  obtain st2 where m: "grub_malloc st1 = (True, st2)" "ok st2" "quiet live st2"
    using quiet_malloc [OF r(3)] ok_malloc [OF r(2)] by (metis prod.collapse)
  let ?start = "le32 ?sb 4" and ?until = "le32 ?sb 8"
  define d0 where "d0 = bootfs_geometry ?start ?until"
  let ?l = "grub_bootfs_get_name (drop 0x22 ?sb)"
  have v: "bootfs_volume sec disk = (if le32 ?sb 0 \<noteq> BOOTFS_MAGIC \<or> bootfs_sb_corrupted ?start ?until \<or> bd_lasti d0 > BOOTFS_MAX_LASTI
            \<or> (grub_disk_native_sectors disk \<noteq> GRUB_DISK_SIZE_UNKNOWN \<and> ucast (bd_blocks d0) > grub_disk_native_sectors disk) then None
         else case bootfs_inode sec d0 BOOTFS_ROOT_INO of None \<Rightarrow> None
         | Some (root, vtype) \<Rightarrow> if vtype \<noteq> BOOTFS_VDIR then None else Some (d0\<lparr> bd_root := root, bd_label := ?l \<rparr>))"
    unfolding bootfs_volume_def Let_def d0_def ..
  then obtain root where root: "bootfs_inode sec d0 BOOTFS_ROOT_INO = Some (root, BOOTFS_VDIR)" "data = d0\<lparr> bd_root := root, bd_label := ?l \<rparr>"
    and c: "le32 ?sb 0 = BOOTFS_MAGIC" "\<not> bootfs_sb_corrupted ?start ?until" "\<not> bd_lasti d0 > BOOTFS_MAX_LASTI"
      "\<not> (grub_disk_native_sectors disk \<noteq> GRUB_DISK_SIZE_UNKNOWN \<and> ucast (bd_blocks d0) > grub_disk_native_sectors disk)"
    using assms(4) by (auto split: if_splits option.splits)
  have "bootfs_table_inside inside d0" using assms(5) unfolding root(2) by (simp add: bootfs_inode_fields)
  with read_inode_ok [OF m(2), of d0 BOOTFS_ROOT_INO] m(3) root(1) obtain st3 where
    i: "grub_bootfs_read_inode rd d0 BOOTFS_ROOT_INO st2 = Some (Inr (root, BOOTFS_VDIR), st3)" "ok st3" "quiet live st3" by auto
  then show ?thesis
    using m(1) c root(2) by (auto simp: grub_bootfs_mount_def Let_def r(1) d0_def)
qed

end

end
