(* ===== verification/Bootfs_Files.thy ===== *)
theory Bootfs_Files
  imports Bootfs_Tree
begin

text \<open>The entry points of the boot file system: opening, reading and listing.\<close>

context fs_disk
begin

lemma bootfs_find_returns:
  assumes "ok st" and "bootfs_node_wf root"
  shows "\<exists>e found root' st'. grub_fshelp_find_file path root (grub_bootfs_iterate_dir rd disk data) None t st = Some (e, found, root', st') \<and>
    ok st' \<and> (d_errno st' = GRUB_ERR_NONE \<longrightarrow> found \<noteq> None) \<and> (\<forall>r. found = Some r \<longrightarrow> bootfs_node_wf (ref_node root' r))"
proof -
  from bootfs_walk.find_file_real_returns [OF assms, of path disk data t] obtain e found root' st' where
    f: "grub_fshelp_find_file path root (grub_bootfs_iterate_dir rd disk data) None t st = Some (e, found, root', st')" "ok st'"
    "bootfs_node_wf root'" "found = None \<longrightarrow> d_errno st' \<noteq> GRUB_ERR_NONE" "\<forall>n. found = Some (Owned n) \<longrightarrow> bootfs_node_wf n"
    unfolding grub_fshelp_find_file_def by blast
  then have "\<forall>r. found = Some r \<longrightarrow> bootfs_node_wf (ref_node root' r)" by (auto simp: ref_node_def split: node_ref.splits)
  then show ?thesis using f by blast
qed

lemma bootfs_open_returns:
  assumes "gd_disk dev = Some d" and "disk_rd d = Some rd" and "ok st"
  shows "\<exists>e fl' st'. grub_bootfs_open (Some dev) fl name st = Some (e, fl', st') \<and> ok st' \<and>
    (if e = GRUB_ERR_NONE then \<exists>dt n. file_data fl' = Fs_Data (dt, n) \<and> file_size fl' = ucast (bn_size n) \<and> bootfs_node_wf n
     else fl' = fl \<and> d_errno st' = e)"
proof -
  from bootfs_mount_returns [OF assms(3), of "od_disk d"] obtain r st1 where
    m: "grub_bootfs_mount rd (od_disk d) st = Some (r, st1)" "ok st1"
    "case r of None \<Rightarrow> d_errno st1 \<noteq> GRUB_ERR_NONE | Some dt \<Rightarrow> bootfs_node_wf (bd_root dt)" by blast
  show ?thesis
  proof (cases r)
    case None
    then show ?thesis using assms m by (auto simp: grub_bootfs_open_def)
  next
    case (Some dt)
    then have "bootfs_node_wf (bd_root dt)" using m(3) by simp
    from bootfs_find_returns [OF m(2) this, of name "od_disk d" dt GRUB_FSHELP_REG] obtain e found root' st2 where
      f: "grub_fshelp_find_file name (bd_root dt) (grub_bootfs_iterate_dir rd (od_disk d) dt) None GRUB_FSHELP_REG st1 = Some (e, found, root', st2)"
      "ok st2" "d_errno st2 = GRUB_ERR_NONE \<longrightarrow> found \<noteq> None" "\<forall>r. found = Some r \<longrightarrow> bootfs_node_wf (ref_node root' r)" by blast
    then show ?thesis
      using assms m(1) Some by (cases "d_errno st2 = GRUB_ERR_NONE") (auto simp: grub_bootfs_open_def Let_def)
  qed
qed

lemma bootfs_dir_returns:
  assumes "gd_disk dev = Some d" and "disk_rd d = Some rd" and "ok st"
    and hook: "\<And>name info st. ok st \<Longrightarrow> \<exists>stop st'. hook name info st = Some (stop, st') \<and> ok st'"
  shows "\<exists>e st'. grub_bootfs_dir dev path hook st = Some (e, st') \<and> ok st' \<and> d_errno st' = e"
proof -
  from bootfs_mount_returns [OF assms(3), of "od_disk d"] obtain r st1 where
    m: "grub_bootfs_mount rd (od_disk d) st = Some (r, st1)" "ok st1"
    "case r of None \<Rightarrow> d_errno st1 \<noteq> GRUB_ERR_NONE | Some dt \<Rightarrow> bootfs_node_wf (bd_root dt)" by blast
  show ?thesis
  proof (cases r)
    case None
    then show ?thesis using assms m by (auto simp: grub_bootfs_dir_def)
  next
    case (Some dt)
    then have "bootfs_node_wf (bd_root dt)" using m(3) by simp
    from bootfs_find_returns [OF m(2) this, of path "od_disk d" dt GRUB_FSHELP_DIR] obtain e found root' st2 where
      f: "grub_fshelp_find_file path (bd_root dt) (grub_bootfs_iterate_dir rd (od_disk d) dt) None GRUB_FSHELP_DIR st1 = Some (e, found, root', st2)"
      "ok st2" "d_errno st2 = GRUB_ERR_NONE \<longrightarrow> found \<noteq> None" "\<forall>r. found = Some r \<longrightarrow> bootfs_node_wf (ref_node root' r)" by blast
    show ?thesis
    proof (cases "d_errno st2 = GRUB_ERR_NONE")
      case False
      then show ?thesis using assms m(1) Some f by (auto simp: grub_bootfs_dir_def)
    next
      case True
      then obtain x where x: "found = Some x" "bootfs_node_wf (ref_node root' x)" using f by blast
      have h: "\<exists>r c' st'. grub_bootfs_dir_iter hook name t n c st = Some (r, c', st') \<and> ok st' \<and> True" if "ok st" for name t n c st
        using hook [OF that, of name "\<lparr> di_dir = (t = GRUB_FSHELP_DIR), di_symlink = False, di_mtimeset = True, di_case_insensitive = False,
            di_inodeset = True, di_sizeset = t \<noteq> GRUB_FSHELP_DIR, di_mtime = ucast (bn_mtime n), di_inode = ucast (bn_ino n),
            di_size = (if t = GRUB_FSHELP_DIR then 0 else ucast (bn_size n)) \<rparr>"]
        by (auto simp: grub_bootfs_dir_iter_def Let_def)
      have "\<exists>r c' st'. bootfs_blocks_loop rd (od_disk d) dt (ref_node root' x) (grub_bootfs_dir_iter hook) 0 () st2 = Some (r, c', st') \<and> ok st' \<and> True"
        by (rule bootfs_loop_returns [where Q = "\<lambda>_. True", OF h x(2) _ f(2)]) simp_all
      then show ?thesis using assms m(1) Some f(1) True x(1) by (auto simp: grub_bootfs_dir_def grub_bootfs_iterate_dir_def)
    qed
  qed
qed

lemma bootfs_open_finds:
  assumes dev: "gd_disk dev = Some d" "disk_rd d = Some rd" and st: "ok st" "quiet live st" and "inside 0"
    and v: "bootfs_volume sec (od_disk d) = Some dt" "bootfs_mounted sec inside dt"
  shows "\<exists>e fl' st'. grub_bootfs_open (Some dev) fl name st = Some (e, fl', st') \<and> ok st' \<and>
    (case path_meaning (bd_root dt) (bootfs_lookup sec dt) (\<lambda>_. Inl GRUB_ERR_BAD_FS) GRUB_FSHELP_REG name of
       Inl e' \<Rightarrow> e = e' \<and> e \<noteq> GRUB_ERR_NONE \<and> d_errno st' = e \<and> fl' = fl
     | Inr (n, t) \<Rightarrow> e = GRUB_ERR_NONE \<and> quiet live st' \<and> fl' = fl\<lparr> file_size := ucast (bn_size n), file_data := Fs_Data (dt, n) \<rparr>)"
proof -
  have t: "bootfs_table_inside inside dt" using v(2) by (simp add: bootfs_mounted_def)
  from bootfs_mount_volume [OF st assms(5) v(1) t] obtain st1 where
    m: "grub_bootfs_mount rd (od_disk d) st = Some (Some dt, st1)" "ok st1" "quiet live st1" by blast
  have "bootfs_node_wf (bd_root dt)" using bootfs_mount_returns [OF st(1), of "od_disk d"] m(1) by simp
  from bootfs_find_returns [OF m(2) this, of name "od_disk d" dt GRUB_FSHELP_REG] obtain e found root' st2 where
    f: "grub_fshelp_find_file name (bd_root dt) (grub_bootfs_iterate_dir rd (od_disk d) dt) None GRUB_FSHELP_REG st1 = Some (e, found, root', st2)"
    "ok st2" by blast
  have calm: "bootfs_mounted sec inside dt \<and> ok st1 \<and> quiet live st1" using v(2) m(2,3) by blast
  from bootfs_tree.find_file_real_resolves [OF calm, of name "od_disk d" GRUB_FSHELP_REG]
  have "case path_meaning (bd_root dt) (bootfs_lookup sec dt) (\<lambda>_. Inl GRUB_ERR_BAD_FS) GRUB_FSHELP_REG name of
      Inl e' \<Rightarrow> e = e' \<and> e \<noteq> GRUB_ERR_NONE \<and> d_errno st2 = e \<and> found = None
    | Inr (n, t) \<Rightarrow> e = GRUB_ERR_NONE \<and> quiet live st2 \<and> root' = bd_root dt \<and>
        (\<exists>r. found = Some r \<and> (case r of Root_Node \<Rightarrow> bd_root dt | Owned m \<Rightarrow> m) = n)"
    using f(1) unfolding grub_fshelp_find_file_def by (auto split: sum.splits prod.splits)
  then have p: "case path_meaning (bd_root dt) (bootfs_lookup sec dt) (\<lambda>_. Inl GRUB_ERR_BAD_FS) GRUB_FSHELP_REG name of
      Inl e' \<Rightarrow> e = e' \<and> e \<noteq> GRUB_ERR_NONE \<and> d_errno st2 = e
    | Inr (n, t) \<Rightarrow> quiet live st2 \<and> (\<exists>r. found = Some r \<and> ref_node root' r = n)"
    by (cases "path_meaning (bd_root dt) (bootfs_lookup sec dt) (\<lambda>_. Inl GRUB_ERR_BAD_FS) GRUB_FSHELP_REG name") (auto simp: ref_node_def)
  show ?thesis
  proof (cases "path_meaning (bd_root dt) (bootfs_lookup sec dt) (\<lambda>_. Inl GRUB_ERR_BAD_FS) GRUB_FSHELP_REG name")
    case (Inl e')
    then show ?thesis using dev m(1) f p by (auto simp: grub_bootfs_open_def)
  next
    case (Inr nt)
    obtain n t where nt: "nt = (n, t)" by fastforce
    then obtain r where r: "quiet live st2" "found = Some r" "ref_node root' r = n" using p Inr by auto
    then show ?thesis using dev m(1) f quiet_errno [OF r(1)] Inr nt by (simp add: grub_bootfs_open_def Let_def)
  qed
qed

text \<open>Reading an open file: the bytes from the position on, up to the end of the file.\<close>

lemma bootfs_read_bytes:
  assumes dev: "gd_disk dev = Some d" "disk_rd d = Some rd" and st: "ok st"
    and fl: "file_data fl = Fs_Data (dt, n)" "bootfs_node_wf n"
    and pos: "0 < unat len" "unat (file_offset fl) + unat len \<le> unat (bn_size n)"
  shows "\<exists>r buf st'. grub_bootfs_read (Some dev) fl len st = Some ((r, buf), st') \<and> ok st' \<and>
    (r = -1 \<and> d_errno st' \<noteq> GRUB_ERR_NONE \<or>
     r = int (unat len) \<and> buf = map (bootfs_byte sec n) [unat (file_offset fl)..<unat (file_offset fl) + unat len]) \<and>
    (quiet live st \<and> bootfs_inside inside n (unat (file_offset fl)) (unat (file_offset fl) + unat len) \<longrightarrow> r = int (unat len) \<and> quiet live st')"
proof -
  have small: "unat (bn_size n) < 2 ^ 32" using unsigned_less [of "bn_size n", where 'a = nat] by simp
  have p: "unat (file_offset fl) < unat (bn_size n)" "unat (file_offset fl) + unat len < 2 ^ 64"
    "min (unat len) (unat (bn_size n) - unat (file_offset fl)) = unat len"
    using pos small by simp_all
  have s: "sint len = int (unat len)" using pos small by (intro sint_small) simp_all
  have "len \<noteq> 0" using pos(1) by auto
  then show ?thesis
    using bootfs_read_file_ok [OF st fl(2) p(1) pos(1) p(2), of "od_disk d"] dev fl(1) unfolding p(3)
    by (fastforce simp: grub_bootfs_read_def s)
qed

end

end
