(* ===== verification/Files_Claims.thy ===== *)
theory Files_Claims
  imports Bootfs_Files Samples
begin

text \<open>
  The properties of the file system helpers and of the boot file system, and concrete volumes and
  trees on which they hold.
\<close>

subsection \<open>Concrete disks\<close>

text \<open>The state after start-up with one loopback device on an image.\<close>

definition image_dst :: "(nat \<Rightarrow> u8) \<Rightarrow> nat \<Rightarrow> bytes loop_state dstate" where
  "image_dst img n = dstate_init (\<lambda>_. True) (image_loops img n)"

lemma image_dst_ready:
  assumes "image_small n"
  shows "loop_served (loop_devs (image_loops img n)) (image_disk n) \<and>
    open_ready (loop_content (image_loops img n)) (loop_good (image_loops img n)) (image_dst img n)"
  using image_served [OF assms, of img]
  by (simp add: open_ready_def image_dst_def cache_inv_init loop_good_refl) (simp add: dstate_init_def err_init_def)

lemma image_dst_quiet: "quiet True (image_dst img n)" "d_errno (image_dst img n) = GRUB_ERR_NONE"
  by (simp_all add: quiet_def image_dst_def dstate_init_def d_errno_def err_init_def)

lemma image_sector:
  assumes "image_small n" and "unat w < n" and "o' < 512"
  shows "disk_sectors (loop_content (image_loops img n)) (image_disk n) w o' = img (unat w * 512 + o')"
  using image_content [OF assms(1), of "unat w * 512 + o'" img] assms by (simp add: disk_sectors_def)

lemma image_inside:
  assumes "image_small n" and "unat w < n"
  shows "sector_inside (image_disk n) w"
  using image_range [OF assms(1), of 0 512 w] assms(2) by (simp add: sector_inside_def)

subsection \<open>Reading files\<close>

text \<open>
  C15. For every disk that meets the contract \<open>fs_disk\<close> and every block map that meets the contract
  \<open>block_map\<close>, \<open>grub_fshelp_read_file\<close> returns. It gives -1 with an error pending, or the number of
  bytes up to the end of the file and exactly these bytes of the file: the bytes of the disk behind
  mapped blocks and zeros in holes, however blocks are merged to runs. When the blocks of the range are
  mapped and inside the disk, and disk and memory are reliable, it succeeds.
\<close>

theorem fshelp_read_exact:
  assumes "block_map rd sec inside ok live get_block node_ok blk mapped"
    and "ok st" and "node_ok node" and "d_errno st = GRUB_ERR_NONE" and "l + 9 < 31"
    and "unat pos < unat filesize" and "unat filesize < 2 ^ 63" and "0 < unat len" and "unat pos + unat len < 2 ^ 64"
    and "n = min (unat len) (unat filesize - unat pos)"
  shows "\<exists>r out node' st'. grub_fshelp_read_file rd disk node pos len get_block filesize l start st = Some ((r, out), node', st') \<and>
     ok st' \<and> node_ok node' \<and>
     (r = -1 \<and> d_errno st' \<noteq> GRUB_ERR_NONE \<or> r = int n \<and> d_errno st' = GRUB_ERR_NONE \<and>
        out = map (file_byte sec blk l start) [unat pos..<unat pos + n]) \<and>
     (quiet live st \<and> (\<forall>j. unat pos div 2 ^ (l + 9) \<le> unat j \<and> unat j * 2 ^ (l + 9) < unat pos + n \<longrightarrow> mapped j \<and>
        (push_bit l (blk j) = 0 \<or> (\<forall>k < 2 ^ l. inside (push_bit l (blk j) + start + of_nat k))))
      \<longrightarrow> r = int n \<and> quiet live st')"
  by (rule block_map.read_file_ok [OF assms])

text \<open>A file of three blocks, a hole between two blocks of the disk.\<close>

definition sparse_blk :: "u64 \<Rightarrow> u64" where
  "sparse_blk i = (if i = 1 then 0 else i + 2)"

definition sparse_get_block :: "(unit, 'h) get_block" where
  "sparse_get_block node i st = Some (sparse_blk i, node, st)"

theorem fshelp_read_exact_witness:
  "\<exists>out node' st'. grub_fshelp_read_file (grub_disk_read (grub_loopback_read grub_procfs_read None) None (image_disk 8)) (image_disk 8) ()
      10 2000 sparse_get_block 1536 0 0 (image_dst (\<lambda>i. of_nat (i div 512 + 1)) 8) = Some ((1526, out), node', st') \<and>
     out ! 0 = 3 \<and> out ! 600 = 0 \<and> out ! 1100 = 5"
proof -
  let ?img = "\<lambda>i. of_nat (i div 512 + 1) :: u8"
  let ?ls = "image_loops ?img 8"
  have small: "image_small 8" by (simp add: image_small_def)
  have m: "block_map (grub_disk_read (grub_loopback_read grub_procfs_read None) None (image_disk 8))
      (disk_sectors (loop_content ?ls) (image_disk 8)) (sector_inside (image_disk 8))
      (\<lambda>st. loop_served (loop_devs ?ls) (image_disk 8) \<and> open_ready (loop_content ?ls) (loop_good ?ls) st) True
      sparse_get_block (\<lambda>_. True) sparse_blk (\<lambda>_. True)"
    by (rule block_map.intro [OF procfs.loop_disk.fs.fs_disk_axioms]) (unfold_locales, auto simp: sparse_get_block_def)
  have in_disk: "\<forall>j. unat (10 :: u64) div 2 ^ (0 + 9) \<le> unat j \<and> unat j * 2 ^ (0 + 9) < unat (10 :: u64) + 1526 \<longrightarrow> True \<and>
        (push_bit 0 (sparse_blk j) = 0 \<or> (\<forall>k < 2 ^ 0. sector_inside (image_disk 8) (push_bit 0 (sparse_blk j) + 0 + of_nat k)))"
  proof (intro allI impI conjI TrueI disjI2)
    fix j :: u64 and k :: nat
    assume j: "unat (10 :: u64) div 2 ^ (0 + 9) \<le> unat j \<and> unat j * 2 ^ (0 + 9) < unat (10 :: u64) + 1526" and k: "k < 2 ^ 0"
    then have "unat j < 3" by simp
    then have "unat (sparse_blk j) < 8" by (auto simp: sparse_blk_def unat_plus_exact)
    then show "sector_inside (image_disk 8) (push_bit 0 (sparse_blk j) + 0 + of_nat k)" using k image_inside [OF small] by simp
  qed
  have nn: "(1526 :: nat) = min (unat (2000 :: u64)) (unat (1536 :: u64) - unat (10 :: u64))" by simp
  have bounds: "0 + 9 < (31 :: nat)" "unat (10 :: u64) < unat (1536 :: u64)" "unat (1536 :: u64) < 2 ^ 63" "0 < unat (2000 :: u64)"
    "unat (10 :: u64) + unat (2000 :: u64) < 2 ^ 64" by simp_all
  from fshelp_read_exact [OF m image_dst_ready [OF small] TrueI image_dst_quiet(2) bounds nn, of "image_disk 8" "()" 0]
  obtain r out node' st' where run: "grub_fshelp_read_file (grub_disk_read (grub_loopback_read grub_procfs_read None) None (image_disk 8)) (image_disk 8) ()
      10 2000 sparse_get_block 1536 0 0 (image_dst ?img 8) = Some ((r, out), node', st')"
    and res: "r = -1 \<and> d_errno st' \<noteq> GRUB_ERR_NONE \<or> r = int 1526 \<and> d_errno st' = GRUB_ERR_NONE \<and>
       out = map (file_byte (disk_sectors (loop_content ?ls) (image_disk 8)) sparse_blk 0 0) [unat (10 :: u64)..<unat (10 :: u64) + 1526]"
    and ok: "r = int 1526" using in_disk image_dst_quiet(1) by blast
  have r: "out = map (file_byte (disk_sectors (loop_content ?ls) (image_disk 8)) sparse_blk 0 0) [10..<10 + 1526]"
    using res ok by (simp del: upt_rec_numeral)
  have sec: "disk_sectors (loop_content ?ls) (image_disk 8) 2 q = 3" "disk_sectors (loop_content ?ls) (image_disk 8) 4 q = 5" if "q < 512" for q
  proof -
    have "(2 * 512 + q) div 512 = 2" "(4 * 512 + q) div 512 = 4" using that by simp_all
    then show "disk_sectors (loop_content ?ls) (image_disk 8) 2 q = 3" "disk_sectors (loop_content ?ls) (image_disk 8) 4 q = 5"
      using image_sector [OF small, of 2 q ?img] image_sector [OF small, of 4 q ?img] that by simp_all
  qed
  have fb: "file_byte (disk_sectors (loop_content ?ls) (image_disk 8)) sparse_blk 0 0 j =
      (if j div 512 = 1 then 0 else of_nat (j div 512 + 3))" if "j < 1536" for j
  proof -
    have j: "j div 512 < 3" using that by simp
    then consider "j div 512 = 0" | "j div 512 = 1" | "j div 512 = 2" by linarith
    then show ?thesis
      using sec [of "j mod 512"] by cases (simp_all add: file_byte_def sparse_blk_def Let_def)
  qed
  have "out ! k = (if (k + 10) div 512 = 1 then 0 else of_nat ((k + 10) div 512 + 3))" if "k < 1526" for k
    using r that fb [of "k + 10"] by (simp add: add.commute del: upt_rec_numeral)
  then have "out ! 0 = 3" "out ! 600 = 0" "out ! 1100 = 5" by simp_all
  then show ?thesis using run ok by auto
qed

subsection \<open>Looking paths up\<close>

text \<open>
  C17. Looking a path up always returns, for every path and every file system whose lookup of one name
  and whose reading of a link return, however its links point at each other. When no file is found an
  error is pending; a file that is found is a good node.
\<close>

theorem path_lookup_returns:
  assumes "path_walk lookup read_symlink ok node_ok" and "ok st" and "node_ok root"
  shows "\<exists>e found root' st'. grub_fshelp_find_file_lookup path root lookup read_symlink expecttype st = Some (e, found, root', st') \<and>
    ok st' \<and> (found = None \<longrightarrow> d_errno st' \<noteq> GRUB_ERR_NONE) \<and> (e \<noteq> GRUB_ERR_NONE \<longrightarrow> found = None) \<and>
    (\<forall>r. found = Some r \<longrightarrow> node_ok (ref_node root' r))"
proof -
  from path_walk.find_file_real_returns [OF assms] obtain e found root' st' where
    f: "grub_fshelp_find_file_real path root lookup read_symlink expecttype st = Some (e, found, root', st')" "ok st'" "node_ok root'"
    "found = None \<longrightarrow> d_errno st' \<noteq> GRUB_ERR_NONE" "e \<noteq> GRUB_ERR_NONE \<longrightarrow> found = None" "\<forall>n. found = Some (Owned n) \<longrightarrow> node_ok n" by blast
  then have "\<forall>r. found = Some r \<longrightarrow> node_ok (ref_node root' r)" by (auto simp: ref_node_def split: node_ref.splits)
  then show ?thesis using f unfolding grub_fshelp_find_file_lookup_def by blast
qed

text \<open>A directory with a link to itself.\<close>

definition looping_lookup :: "(nat, unit) lookup_file" where
  "looping_lookup n name st = Some (GRUB_ERR_NONE, Some (1, GRUB_FSHELP_SYMLINK), n, st)"

definition looping_symlink :: "(nat, unit) read_symlink" where
  "looping_symlink n st = Some (Some ''/loop'', n, st)"

abbreviation idle_state :: "unit dstate" where
  "idle_state \<equiv> dstate_init (\<lambda>_. True) ()"

theorem path_lookup_returns_witness:
  "\<exists>e root' st'. grub_fshelp_find_file_lookup ''/loop'' 0 looping_lookup (Some looping_symlink) GRUB_FSHELP_REG idle_state =
     Some (e, None, root', st') \<and> d_errno st' \<noteq> GRUB_ERR_NONE \<or>
     (\<exists>r. grub_fshelp_find_file_lookup ''/loop'' 0 looping_lookup (Some looping_symlink) GRUB_FSHELP_REG idle_state =
     Some (e, Some r, root', st') \<and> ref_node root' r < 2)"
proof -
  have w: "path_walk looping_lookup (Some looping_symlink) (\<lambda>_. True) (\<lambda>n. n < 2)"
    by unfold_locales (auto simp: looping_lookup_def looping_symlink_def)
  from path_lookup_returns [OF w TrueI, of 0 "''/loop''" GRUB_FSHELP_REG idle_state] obtain e found root' st' where
    "grub_fshelp_find_file_lookup ''/loop'' 0 looping_lookup (Some looping_symlink) GRUB_FSHELP_REG idle_state = Some (e, found, root', st')"
    "found = None \<longrightarrow> d_errno st' \<noteq> GRUB_ERR_NONE" "\<forall>r. found = Some r \<longrightarrow> ref_node root' r < 2" by auto
  then show ?thesis by (cases found) blast+
qed

text \<open>
  C16. The search finds what a path means: over a file system that answers every question about its
  tree, the result of \<open>grub_fshelp_find_file_lookup\<close> is the meaning \<open>path_meaning\<close> of the path, in
  which a link is replaced by the parts of its target, relative to its directory or to the root, at
  most seven times; the errors are the same too (a missing part, a part of something that is no
  directory, too many links, a result of the wrong type).
\<close>

theorem path_lookup_resolves:
  assumes "path_tree lookup read_symlink root L T calm_st node_ok" and "calm_st st"
  shows "\<exists>e found root' st'. grub_fshelp_find_file_lookup path root lookup read_symlink expecttype st = Some (e, found, root', st') \<and>
    (case path_meaning root L T expecttype path of
       Inl e' \<Rightarrow> e = e' \<and> e \<noteq> GRUB_ERR_NONE \<and> d_errno st' = e \<and> found = None
     | Inr (n, t) \<Rightarrow> e = GRUB_ERR_NONE \<and> calm_st st' \<and> (\<exists>r. found = Some r \<and> ref_node root r = n))"
proof -
  from path_tree.find_file_real_resolves [OF assms, of path expecttype] obtain e found root' st' where
    "grub_fshelp_find_file_real path root lookup read_symlink expecttype st = Some (e, found, root', st')"
    "case path_meaning root L T expecttype path of
       Inl e' \<Rightarrow> e = e' \<and> e \<noteq> GRUB_ERR_NONE \<and> d_errno st' = e \<and> found = None
     | Inr (n, t) \<Rightarrow> e = GRUB_ERR_NONE \<and> calm_st st' \<and> root' = root \<and>
         (\<exists>r. found = Some r \<and> (case r of Root_Node \<Rightarrow> root | Owned m \<Rightarrow> m) = n)" by blast
  then show ?thesis
    unfolding grub_fshelp_find_file_lookup_def ref_node_def
    by (cases "path_meaning root L T expecttype path") auto
qed

text \<open>A tree with the file \<open>f\<close>, and in the directory \<open>d\<close> a link \<open>up\<close> to \<open>../f\<close>.\<close>

definition small_tree :: "nat \<Rightarrow> string \<Rightarrow> grub_err_t + (nat \<times> u32) option" where
  "small_tree n name = Inr
     (if n = 0 \<and> name = ''f'' then Some (1, GRUB_FSHELP_REG)
      else if n = 0 \<and> name = ''d'' then Some (2, GRUB_FSHELP_DIR)
      else if n = 2 \<and> name = ''up'' then Some (3, GRUB_FSHELP_SYMLINK) else None)"

definition small_lookup :: "(nat, unit) lookup_file" where
  "small_lookup n name st = (case small_tree n name of Inr r \<Rightarrow> Some (GRUB_ERR_NONE, r, n, st) | Inl _ \<Rightarrow> None)"

definition small_symlink :: "(nat, unit) read_symlink" where
  "small_symlink n st = Some (Some ''../f'', n, st)"

theorem path_lookup_resolves_witness:
  "\<exists>r root' st'. grub_fshelp_find_file_lookup ''/d/./up'' 0 small_lookup (Some small_symlink) GRUB_FSHELP_REG idle_state =
     Some (GRUB_ERR_NONE, Some r, root', st') \<and> ref_node 0 r = 1"
proof -
  have calm: "quiet True idle_state" by (simp add: quiet_def dstate_init_def d_errno_def err_init_def)
  have t: "path_tree small_lookup (Some small_symlink) 0 small_tree (\<lambda>_. Inr ''../f'') (quiet True) (\<lambda>_ _. True)"
  proof
    fix st :: "unit dstate"
    assume "quiet True st"
    then show "fst (grub_malloc st) \<and> quiet True (snd (grub_malloc st))"
      using quiet_malloc [of True st "fst (grub_malloc st)" "snd (grub_malloc st)"] by simp
  qed (auto simp: small_lookup_def small_symlink_def small_tree_def dest: quiet_errno)
  have comps: "components ''/d/./up'' = [''d'', ''.'', ''up'']" "components ''../f'' = [''..'', ''f'']"
    by (simp_all add: components.simps first_part_def rest_path_def is_slash_def)
  have "path_meaning 0 small_tree (\<lambda>_. Inr ''../f'') GRUB_FSHELP_REG ''/d/./up'' = Inr (1, GRUB_FSHELP_REG)"
    by (simp add: path_meaning_def comps small_tree_def base_type_def expected_type_def starts_with_def eval_nat_numeral)
  with path_lookup_resolves [OF t calm, of "''/d/./up''" GRUB_FSHELP_REG] show ?thesis by auto
qed

subsection \<open>The boot file system\<close>

text \<open>
  A boot file system of four blocks: the superblock, a block of two inodes, the directory with one
  entry \<open>a\<close> and the file with the bytes 1 to 5.
\<close>

definition boot_image :: "nat \<Rightarrow> u8" where
  "boot_image i =
     (if i < 12 then [0xce, 0xfa, 0xad, 0x1b, 0x80, 2, 0, 0, 0xff, 7, 0, 0] ! i
      else if 512 \<le> i \<and> i < 532 then [2, 0, 0, 0, 2, 0, 0, 0, 2, 0, 0, 0, 0x0f, 4, 0, 0, 2, 0, 0, 0] ! (i - 512)
      else if 576 \<le> i \<and> i < 596 then [3, 0, 0, 0, 3, 0, 0, 0, 3, 0, 0, 0, 4, 6, 0, 0, 1, 0, 0, 0] ! (i - 576)
      else if i = 1024 then 3 else if i = 1026 then 0x61
      else if 1536 \<le> i \<and> i < 1541 then of_nat (i - 1535) else 0)"

abbreviation boot_sec :: "u64 \<Rightarrow> nat \<Rightarrow> u8" where
  "boot_sec \<equiv> disk_sectors (loop_content (image_loops boot_image 4)) (image_disk 4)"

definition boot_root :: bootfs_node where
  "boot_root = \<lparr> bn_ino = 2, bn_sblock = 2, bn_eblock = 2, bn_size = 16, bn_mtime = 0 \<rparr>"

definition boot_file :: bootfs_node where
  "boot_file = \<lparr> bn_ino = 3, bn_sblock = 3, bn_eblock = 3, bn_size = 5, bn_mtime = 0 \<rparr>"

definition boot_data :: grub_bootfs_data where
  "boot_data = \<lparr> bd_blocks = 4, bd_end = 2047, bd_lasti = 3, bd_label = [], bd_root = boot_root \<rparr>"

lemma image_small_4: "image_small 4" by (simp add: image_small_def)

lemma boot_bytes:
  assumes "unat w < 4" and "off + n \<le> 512"
  shows "sector_bytes boot_sec w off n = map boot_image [unat w * 512 + off..<unat w * 512 + off + n]"
  using assms image_sector [OF image_small_4, of w _ boot_image]
  by (intro nth_equalityI) (simp_all add: sector_bytes_def add.assoc)

lemma boot_inode_raw:
  "bootfs_inode_raw boot_sec 2 = map boot_image [512..<576]" "bootfs_inode_raw boot_sec 3 = map boot_image [576..<640]"
proof -
  have "bootfs_inode_raw boot_sec 2 = sector_bytes boot_sec 1 0 64" "bootfs_inode_raw boot_sec 3 = sector_bytes boot_sec 1 64 64"
    by (simp_all add: bootfs_inode_raw_def bootfs_inode_off_def)
  then show "bootfs_inode_raw boot_sec 2 = map boot_image [512..<576]" "bootfs_inode_raw boot_sec 3 = map boot_image [576..<640]"
    using boot_bytes [of 1 0 64] boot_bytes [of 1 64 64] by (simp_all del: upt_rec_numeral)
qed

lemmas boot_eval = field_eval boot_image_def

lemma boot_inodes:
  assumes "bd_blocks data = 4" and "bd_end data = 2047" and "bd_lasti data = 3"
  shows "bootfs_inode boot_sec data 2 = Some (boot_root, BOOTFS_VDIR)" "bootfs_inode boot_sec data 3 = Some (boot_file, BOOTFS_VREG)"
proof -
  have "le32 (map boot_image [512..<576]) 4 = 2" "le32 (map boot_image [512..<576]) 8 = 2" "le32 (map boot_image [512..<576]) 12 = 1039"
    "le32 (map boot_image [512..<576]) 16 = 2" "le32 (map boot_image [512..<576]) 40 = 0"
    by (simp_all add: boot_eval del: upt_rec_numeral)
  moreover have "le32 (map boot_image [576..<640]) 4 = 3" "le32 (map boot_image [576..<640]) 8 = 3" "le32 (map boot_image [576..<640]) 12 = 1540"
    "le32 (map boot_image [576..<640]) 16 = 1" "le32 (map boot_image [576..<640]) 40 = 0"
    by (simp_all add: boot_eval del: upt_rec_numeral)
  ultimately show "bootfs_inode boot_sec data 2 = Some (boot_root, BOOTFS_VDIR)" "bootfs_inode boot_sec data 3 = Some (boot_file, BOOTFS_VREG)"
    using assms by (simp_all add: bootfs_inode_def boot_inode_raw bootfs_inode_size_def Let_def boot_root_def boot_file_def del: upt_rec_numeral)
qed

lemma boot_volume: "bootfs_volume boot_sec (image_disk 4) = Some boot_data"
proof -
  let ?sb = "map boot_image [0..<512]"
  have sb: "sector_bytes boot_sec 0 0 512 = ?sb" using boot_bytes [of 0 0 512] by (simp del: upt_rec_numeral)
  have f: "le32 ?sb 0 = BOOTFS_MAGIC" "le32 ?sb 4 = 640" "le32 ?sb 8 = 2047"
    by (simp_all add: boot_eval del: upt_rec_numeral)
  have g: "bootfs_geometry 640 2047 = boot_data\<lparr> bd_root := bootfs_zero_node \<rparr>"
    by (simp add: bootfs_geometry_def boot_data_def)
  have "drop 0x22 ?sb = map boot_image [34..<512]" by (simp add: drop_map drop_upt del: upt_rec_numeral)
  also have "[34..<512] = 34 # [35..<512 :: nat]" by (simp add: upt_conv_Cons del: upt_rec_numeral)
  finally have "drop 0x22 ?sb = boot_image 34 # map boot_image [35..<512]" by (simp del: upt_rec_numeral)
  moreover have "boot_image 34 = 0" by (simp add: boot_image_def)
  ultimately have "drop 0x22 ?sb = 0 # map boot_image [35..<512]" by simp
  then have l: "grub_bootfs_get_name (drop 0x22 ?sb) = []" by (simp add: grub_bootfs_get_name_def text_of_def del: upt_rec_numeral)
  have i: "bootfs_inode boot_sec (boot_data\<lparr> bd_root := bootfs_zero_node \<rparr>) 2 = Some (boot_root, BOOTFS_VDIR)"
    by (rule boot_inodes) (simp_all add: boot_data_def)
  have "grub_disk_native_sectors (image_disk 4) = 4" by (simp add: grub_disk_native_sectors_def image_disk_def)
  then show ?thesis
    using i l by (simp add: bootfs_volume_def sb f g Let_def bootfs_sb_corrupted_def boot_data_def del: upt_rec_numeral)
qed

lemma boot_mounted: "bootfs_mounted boot_sec (sector_inside (image_disk 4)) boot_data"
proof -
  have lt: "sector_inside (image_disk 4) (w + of_nat k)" if "unat w + k < 4" for w :: u64 and k
    using that by (intro image_inside [OF image_small_4]) (simp add: unat_plus_exact unat_of_nat)
  have "bootfs_table_inside (sector_inside (image_disk 4)) boot_data"
    unfolding bootfs_table_inside_def touches_only_def
  proof (intro allI impI)
    fix ino :: u32 and m :: nat
    assume i: "BOOTFS_ROOT_INO \<le> ino \<and> ino \<le> bd_lasti boot_data" and m: "m < 64"
    then have "ino = 2 \<or> ino = 3" by (auto simp: boot_data_def word_le_nat_alt word_unat_eq_iff)
    then show "sector_inside (image_disk 4) (ucast (drop_bit 9 (bootfs_inode_off ino)) +
        of_nat ((unat (ucast (bootfs_inode_off ino AND (BOOTFS_BSIZE - 1)) :: u64) + m) div 512))"
      using m by (intro lt) (auto simp: bootfs_inode_off_def)
  qed
  moreover have "bootfs_inode boot_sec boot_data 2 = Some (boot_root, BOOTFS_VDIR)"
    by (rule boot_inodes) (simp_all add: boot_data_def)
  moreover have "bootfs_inside (sector_inside (image_disk 4)) boot_root 0 16"
    unfolding bootfs_inside_def by (intro allI impI lt) (simp add: boot_root_def)
  ultimately show ?thesis by (simp add: bootfs_mounted_def) (simp add: boot_data_def boot_root_def)
qed

lemma boot_lookup: "bootfs_lookup boot_sec boot_data boot_root ''a'' = Inr (Some (boot_file, GRUB_FSHELP_REG))"
proof -
  have b: "bootfs_bytes boot_sec boot_root = map boot_image [1024..<1040]"
    using boot_bytes [of 2 0 16] by (simp add: bootfs_bytes_def sector_bytes_def bootfs_byte_def [abs_def] boot_root_def del: upt_rec_numeral)
  have "le16 (map boot_image [1024..<1040]) 0 = 3" by (simp add: boot_eval del: upt_rec_numeral)
  moreover have "text_of (bslice (0 + 2) BOOTFS_NAMELEN (map boot_image [1024..<1040])) = ''a''"
  proof -
    have "bslice (0 + 2) BOOTFS_NAMELEN (map boot_image [1024..<1024 + 16]) = map boot_image [1024 + (0 + 2)..<1024 + (0 + 2) + BOOTFS_NAMELEN]"
      by (rule bslice_map_upt) simp
    moreover have "map boot_image [1026..<1040] = boot_image 1026 # boot_image 1027 # map boot_image [1028..<1040]"
      by (simp add: upt_conv_Cons del: upt_rec_numeral)
    moreover have "boot_image 1026 = 0x61" "boot_image 1027 = 0" by (simp_all add: boot_image_def)
    ultimately have "bslice (0 + 2) BOOTFS_NAMELEN (map boot_image [1024..<1040]) = 0x61 # 0 # map boot_image [1028..<1040]"
      by (simp del: upt_rec_numeral)
    moreover have "char_of (unat (0x61 :: u8)) = CHR ''a''" by (simp add: char_of_def bit_iff_odd)
    ultimately show ?thesis by (simp only: text_of_def) simp
  qed
  moreover have "bootfs_inode boot_sec boot_data 3 = Some (boot_file, BOOTFS_VREG)"
    by (rule boot_inodes) (simp_all add: boot_data_def)
  ultimately have "bootfs_entry boot_sec boot_data (map boot_image [1024..<1040]) 0 = Some (''a'', GRUB_FSHELP_REG, boot_file)"
    unfolding bootfs_entry_def Let_def by (simp add: grub_bootfs_filetype_def del: upt_rec_numeral add_2_eq_Suc)
  moreover have "[0..<unat (bn_size boot_root) div 16] = [0]" by (simp add: boot_root_def)
  ultimately have "bootfs_listing boot_sec boot_data boot_root = [(''a'', GRUB_FSHELP_REG, boot_file)]"
    by (simp add: bootfs_listing_def b List.map_filter_def del: upt_rec_numeral)
  then show ?thesis by (simp add: bootfs_lookup_def grub_strcmp.simps)
qed

lemma boot_disk:
  "fs_disk (grub_disk_read (grub_loopback_read grub_procfs_read None) None (image_disk 4)) boot_sec (sector_inside (image_disk 4))
     (\<lambda>st. loop_served (loop_devs (image_loops boot_image 4)) (image_disk 4) \<and>
        open_ready (loop_content (image_loops boot_image 4)) (loop_good (image_loops boot_image 4)) st) True"
  by (rule procfs.loop_disk.fs.fs_disk_axioms)

definition boot_device :: "(bytes loop_state, unit) grub_device" where
  "boot_device = \<lparr> gd_disk = Some \<lparr> od_disk = image_disk 4, od_dev = Some (loopback_dev None) \<rparr> \<rparr>"

lemma boot_device_disk:
  "gd_disk boot_device = Some \<lparr> od_disk = image_disk 4, od_dev = Some (loopback_dev None) \<rparr>"
  "disk_rd \<lparr> od_disk = image_disk 4, od_dev = Some (loopback_dev None) \<rparr> =
     Some (grub_disk_read (grub_loopback_read grub_procfs_read None) None (image_disk 4))"
  by (simp_all add: boot_device_def disk_rd_def loopback_dev_def)

definition closed_file :: "(grub_bootfs_data \<times> bootfs_node) fs_file" where
  "closed_file = \<lparr> file_name = ''f'', file_offset = 0, progress_offset = 0, file_size = 0, file_not_easily_seekable = False,
     file_data = No_Data, file_read_hook = None, file_read_hook_data = None \<rparr>"

text \<open>
  C19. Opening a file and listing a directory of a boot file system return on every disk that meets the
  contract, whatever its bytes are, for every path and every hook that returns: a chain of blocks, an
  entry or a superblock can be damaged in any way. A failure leaves its error pending; a file that was
  opened has the size of its inode.
\<close>

theorem bootfs_calls_return:
  assumes "fs_disk rd sec inside ok live" and "gd_disk dev = Some d" and "disk_rd d = Some rd" and "ok st"
    and "\<And>name info st. ok st \<Longrightarrow> \<exists>stop st'. hook name info st = Some (stop, st') \<and> ok st'"
  shows "(\<exists>e fl' st'. grub_bootfs_open (Some dev) fl name st = Some (e, fl', st') \<and> ok st' \<and>
      (if e = GRUB_ERR_NONE then \<exists>dt n. file_data fl' = Fs_Data (dt, n) \<and> file_size fl' = ucast (bn_size n) \<and> bootfs_node_wf n
       else fl' = fl \<and> d_errno st' = e)) \<and>
    (\<exists>e st'. grub_bootfs_dir dev path hook st = Some (e, st') \<and> ok st' \<and> d_errno st' = e)"
  by (rule conjI [OF fs_disk.bootfs_open_returns [OF assms(1-4)] fs_disk.bootfs_dir_returns [OF assms(1-4)]]) (rule assms(5))

theorem bootfs_calls_return_witness:
  "(\<exists>e fl st. grub_bootfs_open (Some boot_device) closed_file ''/b'' (image_dst boot_image 4) = Some (e, fl, st)) \<and>
   (\<exists>e st. grub_bootfs_dir boot_device ''/'' (\<lambda>_ _ st. Some (False, st)) (image_dst boot_image 4) = Some (e, st) \<and> d_errno st = e)"
  using bootfs_calls_return [OF boot_disk boot_device_disk image_dst_ready [OF image_small_4],
      of "\<lambda>_ _ st. Some (False, st)" closed_file "''/b''" "''/''"] by blast

text \<open>
  C18. Opening a file finds what its path means in the listing of the directory: on a reliable disk
  whose superblock, inodes and directory are inside it, \<open>grub_bootfs_open\<close> mounts the volume that the
  superblock describes, and fails with the error of the path or opens the first regular file of that
  name, with its size and its inode; no other error occurs.
\<close>

theorem bootfs_open_finds_file:
  assumes "fs_disk rd sec inside ok live" and "gd_disk dev = Some d" and "disk_rd d = Some rd" and "ok st" and "quiet live st"
    and "inside 0" and "bootfs_volume sec (od_disk d) = Some dt" and "bootfs_mounted sec inside dt"
  shows "\<exists>e fl' st'. grub_bootfs_open (Some dev) fl name st = Some (e, fl', st') \<and> ok st' \<and>
    (case path_meaning (bd_root dt) (bootfs_lookup sec dt) (\<lambda>_. Inl GRUB_ERR_BAD_FS) GRUB_FSHELP_REG name of
       Inl e' \<Rightarrow> e = e' \<and> e \<noteq> GRUB_ERR_NONE \<and> d_errno st' = e \<and> fl' = fl
     | Inr (n, t) \<Rightarrow> e = GRUB_ERR_NONE \<and> quiet live st' \<and> fl' = fl\<lparr> file_size := ucast (bn_size n), file_data := Fs_Data (dt, n) \<rparr>)"
  by (rule fs_disk.bootfs_open_finds [OF assms])

theorem bootfs_open_finds_file_witness:
  "\<exists>st'. grub_bootfs_open (Some boot_device) closed_file ''/a'' (image_dst boot_image 4) =
     Some (GRUB_ERR_NONE, closed_file\<lparr> file_size := 5, file_data := Fs_Data (boot_data, boot_file) \<rparr>, st')"
proof -
  have comps: "components ''/a'' = [''a'']"
    by (simp add: components.simps first_part_def rest_path_def is_slash_def)
  have root: "bd_root boot_data = boot_root" by (simp add: boot_data_def)
  have "path_meaning boot_root (bootfs_lookup boot_sec boot_data) (\<lambda>_. Inl GRUB_ERR_BAD_FS) GRUB_FSHELP_REG ''/a'' = Inr (boot_file, GRUB_FSHELP_REG)"
    by (simp add: path_meaning_def comps boot_lookup base_type_def expected_type_def starts_with_def)
  moreover have "ucast (bn_size boot_file) = (5 :: u64)" by (simp add: boot_file_def)
  moreover have "sector_inside (image_disk 4) 0" by (rule image_inside [OF image_small_4]) simp
  ultimately show ?thesis
    using bootfs_open_finds_file [OF boot_disk boot_device_disk image_dst_ready [OF image_small_4] image_dst_quiet(1),
        of boot_data closed_file "''/a''"] boot_volume boot_mounted root by auto
qed

text \<open>
  C20. Reading an open file of a boot file system returns. It gives -1 with an error pending or exactly
  the bytes of the disk from the file's first block on; when its blocks are inside a reliable disk it
  succeeds.
\<close>

theorem bootfs_read_delivers:
  assumes "fs_disk rd sec inside ok live" and "gd_disk dev = Some d" and "disk_rd d = Some rd" and "ok st"
    and "file_data fl = Fs_Data (dt, n)" and "bootfs_node_wf n"
    and "0 < unat len" and "unat (file_offset fl) + unat len \<le> unat (bn_size n)"
  shows "\<exists>r buf st'. grub_bootfs_read (Some dev) fl len st = Some ((r, buf), st') \<and> ok st' \<and>
    (r = -1 \<and> d_errno st' \<noteq> GRUB_ERR_NONE \<or>
     r = int (unat len) \<and> buf = map (bootfs_byte sec n) [unat (file_offset fl)..<unat (file_offset fl) + unat len]) \<and>
    (quiet live st \<and> bootfs_inside inside n (unat (file_offset fl)) (unat (file_offset fl) + unat len) \<longrightarrow> r = int (unat len) \<and> quiet live st')"
  by (rule fs_disk.bootfs_read_bytes [OF assms])

theorem bootfs_read_delivers_witness:
  "\<exists>st'. grub_bootfs_read (Some boot_device) (closed_file\<lparr> file_offset := 1, file_data := Fs_Data (boot_data, boot_file) \<rparr>) 3
     (image_dst boot_image 4) = Some ((3, [2, 3, 4]), st')"
proof -
  let ?fl = "closed_file\<lparr> file_offset := 1, file_data := Fs_Data (boot_data, boot_file) \<rparr>"
  have fl: "file_data ?fl = Fs_Data (boot_data, boot_file)" by simp
  have wf: "bootfs_node_wf boot_file" by (simp add: bootfs_node_wf_def boot_file_def)
  have len: "0 < unat (3 :: u64)" "unat (file_offset ?fl) + unat (3 :: u64) \<le> unat (bn_size boot_file)" by (simp_all add: boot_file_def)
  have "bootfs_inside (sector_inside (image_disk 4)) boot_file 1 4"
    unfolding bootfs_inside_def by (intro allI impI image_inside [OF image_small_4]) (simp add: boot_file_def)
  moreover have upt: "[1..<4] = [1, 2, 3 :: nat]" by (simp add: upt_rec)
  moreover have "map (bootfs_byte boot_sec boot_file) [1..<4] = [2, 3, 4]"
    unfolding upt using image_sector [OF image_small_4, of 3 1 boot_image] image_sector [OF image_small_4, of 3 2 boot_image]
      image_sector [OF image_small_4, of 3 3 boot_image]
    by (simp add: bootfs_byte_def boot_file_def boot_image_def)
  ultimately show ?thesis
    using bootfs_read_delivers [OF boot_disk boot_device_disk image_dst_ready [OF image_small_4] fl wf len] image_dst_quiet(1) by auto
qed

end
