(* ===== verification/Spec2Isabelle.thy ===== *)
theory Spec2Isabelle
  imports Procfs File_Map_Correct Misc_Correct Samples Disk_Cache_Lookup File_Open_Correct Checksums Lost_Begin_Correct Lost_Safe Lost_Fs_Correct Lostdisk_List Files_Claims
begin

text \<open>
  FsRover reads disks, disk images and the file systems on them without mounting them. Its engine is
  a read-only port of the core of GRUB (\<open>grub/\<close>), driven through a small interface
  (\<open>grub/rover/\<close>) by a window program, a command line tool and a FUSE server. This development
  models the engine from the error state up to the contents of a file, and the search for lost
  partitions, which is the program's own.

  \<^bold>\<open>The parts and how they meet.\<close> A disk driver is a record of functions; \<open>kern/disk.c\<close> opens disks by
  name, checks every read against the partitions of the disk and reads through a sector cache.
  \<open>kern/partition.c\<close> walks the tables that the maps of \<open>partmap/\<close> decode, each map reading through the
  disk layer inside the partition that contains it. \<open>kern/device.c\<close>, \<open>kern/fs.c\<close> and \<open>kern/file.c\<close> open a
  device, probe for its file system and open files. A file can become a disk again through
  \<open>disk/loopback.c\<close>, and a window of a disk through \<open>disk/lostdisk.c\<close>; \<open>rover/lostpart.c\<close> finds such
  windows. A file system (here \<open>fs/bootfs.c\<close>) finds a path and reads extents with the helpers of
  \<open>fs/fshelp.c\<close>. All of them report through the error state of \<open>kern/err.c\<close>.

  \<^bold>\<open>Theories, by component.\<close> Definitions carry the names of the C functions; a step of a longer
  function has a name of its own.
  \<^item> \<open>Prelude\<close>: words, byte buffers, endian access, list lemmas. \<open>Errors\<close>: \<open>kern/err.c\<close>. \<open>Proc_Stats\<close>:
    the counters of \<open>rover/proc.c\<close>. \<open>Misc\<close>, \<open>Misc_Correct\<close>: \<open>kern/misc.c\<close>. \<open>Checksums\<close>: \<open>lib/crc.c\<close>,
    \<open>lib/crc64.c\<close>, \<open>lib/adler32.c\<close>.
  \<^item> \<open>Disk\<close>, \<open>Disk_Read\<close>: disks, the range check, the cache and \<open>grub_disk_read\<close>; \<open>Disk_Cache\<close>,
    \<open>Disk_Cache_Lookup\<close>, \<open>Disk_Read_Correct\<close>: their invariants and the transparency of the cache.
    \<open>Disk_Open\<close>, \<open>Disk_Open_Correct\<close>: opening and closing, with the balance of references.
  \<^item> \<open>File\<close>, \<open>File_Map\<close>, \<open>File_Map_Correct\<close>, \<open>File_Open\<close>, \<open>File_Open_Correct\<close>: \<open>kern/file.c\<close>. \<open>Device\<close>:
    \<open>kern/device.c\<close>. \<open>Fs\<close>, \<open>Fs_Correct\<close>: \<open>kern/fs.c\<close> and block lists. \<open>Procfs\<close>: \<open>fs/proc.c\<close>.
  \<^item> \<open>Loopback\<close>, \<open>Loopback_Correct\<close>: \<open>disk/loopback.c\<close>; \<open>Lostdisk\<close>, \<open>Lostdisk_Correct\<close>,
    \<open>Lostdisk_List\<close>: \<open>disk/lostdisk.c\<close>.
  \<^item> \<open>Partition\<close>, \<open>Partition_Reader\<close>, \<open>Partition_Walk\<close>, \<open>Partition_Names\<close>: \<open>kern/partition.c\<close>.
    \<open>Partmap_Msdos\<close>, \<open>Partmap_Gpt\<close>, \<open>Partmap_Labels\<close>, \<open>Partmap_Lists\<close>, \<open>Partmap_Nested\<close>, \<open>Partmaps\<close>: the
    maps of \<open>partmap/\<close>; \<open>Msdos_Correct\<close>, \<open>Gpt_Correct\<close>, \<open>Partmaps_Return\<close>: what they report, and that
    they return.
  \<^item> \<open>Lost_Fs\<close>, \<open>Lost_Exam\<close>, \<open>Lost_State\<close>, \<open>Lost_Scan\<close>, \<open>Lost_Begin\<close>: the search for lost partitions
    (\<open>rover/lostfs.c\<close>, \<open>lostexam.c\<close>, \<open>losttable.c\<close>, \<open>lostpart.c\<close>); \<open>Lost_Fs_Correct\<close>,
    \<open>Lost_State_Correct\<close>, \<open>Lost_Scan_Correct\<close>, \<open>Lost_Step_Correct\<close>, \<open>Lost_Live\<close>, \<open>Lost_Ends\<close>, \<open>Lost_Safe\<close>,
    \<open>Lost_Next\<close>, \<open>Lost_Begin_Correct\<close>: sizes, invariants, progress and safety of the search.
  \<^item> \<open>Fs_Disk\<close>: the disk as a file system sees it. \<open>Fshelp\<close>, \<open>Fshelp_Read\<close>, \<open>Fshelp_Find\<close>: \<open>fs/fshelp.c\<close>.
    \<open>Bootfs\<close>, \<open>Bootfs_Correct\<close>, \<open>Bootfs_Tree\<close>, \<open>Bootfs_Files\<close>: \<open>fs/bootfs.c\<close>. \<open>Files_Claims\<close>: their
    properties.
  \<^item> \<open>Samples\<close>: concrete disks for the witnesses.

  \<^bold>\<open>State.\<close> The C globals are fields of records that are passed on: \<open>err_state\<close> (error number, message,
  stack), \<open>dstate\<close> (error state, cache, statistics, the allocator as a function of the number of the
  allocation, and the state of what lies below in \<open>d_ext\<close>), \<open>pstate\<close> (a disk with its current partition),
  \<open>loop_state\<close>, \<open>lostdisk_state\<close>, \<open>rover_lost_scan\<close>. Integers have their C width as words; offsets in
  lists are natural numbers. A buffer is the list of its bytes, an out parameter a result. Errors are
  values of \<open>grub_err_t\<close>, and the error number stays in the state as in the code.

  \<^bold>\<open>Loops.\<close> A call that may not return is of type \<open>option\<close>, with \<open>None\<close> for no return. Loops that follow
  data on the disk are \<open>partial_function (option)\<close>, so a statement that a call gives \<open>Some\<close> is a statement
  of termination. Where fuel is used it is enough: \<open>read_loop\<close> gets one unit for each cache block of the
  request (\<open>read_loop_ok\<close>), \<open>gpt_carry\<close> subtracts once for each sector an entry spans, \<open>grow_capacity\<close>
  doubles at most 64 times before the capacity covers every 64-bit length, \<open>part_iterate\<close> and \<open>find_file\<close>
  carry the limits on their depth that the code has (32 levels of tables, eight links).

  \<^bold>\<open>Interfaces.\<close> \<open>disk_device\<close> and \<open>hooked_device\<close> state what the disk layer needs of a driver,
  \<open>file_source\<close> and \<open>loop_files\<close> what a loopback device needs of its file, \<open>disk_driver\<close> and \<open>disk_layer\<close>
  what opening needs of drivers, \<open>part_source\<close> what the partition maps need of the disk, \<open>parent_disk\<close>
  what a lost device needs of its parent, \<open>fs_disk\<close> what a file system needs of the disk, \<open>block_map\<close>,
  \<open>path_walk\<close> and \<open>path_tree\<close> what the helpers need of a file system. Each is interpreted on the
  program's own definitions: the statistics files of \<open>fs/proc.c\<close> are the files of \<open>procfs\<close>, a loopback
  disk over them is the device of \<open>procfs_hooked\<close>, the driver of \<open>loop_driver\<close> and the disk of
  \<open>loop_parts\<close>, \<open>loop_parent\<close> and \<open>loop_fs\<close>; the boot file system gives \<open>bootfs_map\<close>, \<open>bootfs_walk\<close> and
  \<open>bootfs_tree\<close> over every such disk. So the statements for all devices hold of a stack of the program
  with no assumption left.

  \<^bold>\<open>What is shown.\<close> Reads through the cache give the bytes of the device and succeed on a reliable driver
  (C1, C2); the range check is exact (C24); the cache is a map (C25). Walks over partitions return on
  every disk (C3, C7, C8), report what the tables say (C4 to C6) and only partitions inside their parent
  (C10), with the exceptions of C31 and C37; names are found again (C9). The search for lost partitions ends, hands out only
  windows inside the device and visits every candidate (C11, C12, C28, C29), except on the device of C39;
  the windows read as they should (C13, C14). Files are read and paths resolved exactly (C15 to C20).
  Opening and closing balance (C21, C22, C26). Mapped extents tile the query (C23). Errors, numbers,
  strings and checksums are those of C30 and C32 to C36. Statements about code that does not
  do what it means to are C30 (for buffers of \<open>2 ^ 32\<close> bytes), C31, C37, C38 and C39.

  \<^bold>\<open>Not modelled.\<close>
  \<^item> Other file systems of \<open>fs/\<close>, the image formats of \<open>io/\<close>, encrypted disks and volume managers of
    \<open>disk/\<close>: they are parameters where the core calls them.
  \<^item> Host disks and files (\<open>disk/windisk.c\<close>, \<open>winfile.c\<close>, \<open>posixdisk.c\<close>, \<open>posixfile.c\<close>): system calls. A driver
    is any record of functions that meets its contract.
  \<^item> The interface of \<open>rover/rover.c\<close>, the tools and the window program: they format and display what the
    engine returns. Only the search loop of \<open>common/lostpart.h\<close> is modelled.
  \<^item> Vendored libraries (compression, cryptography, file type detection, image and text rendering).
  \<^item> The format interpreter of \<open>grub_printf\<close>; messages are texts. Memory is not modelled as an address
    space: a block that is freed is gone from its list, an allocation fails when the state says so.
  \<^item> Null hooks: network devices and the loading of modules for file systems; writing to disks, which no
    driver does; reference counts of modules.
  \<^item> In the walk of C3 the Amiga map, whose loop does not end on a cyclic list (C31). In the search for
    lost partitions, sectors of more than 4096 bytes, for which its buffers are too small.
\<close>

section \<open>Reading a disk\<close>

text \<open>A concrete machine for the witnesses: one loopback device on a generated file of 1000 bytes.\<close>

definition sample_file :: "bytes grub_file" where
  "sample_file = \<lparr> file_name = ''f'', file_offset = 0, progress_offset = 0, file_size = 1000,
     file_not_easily_seekable = False, file_data = replicate 1001 7, file_read_hook = None,
     file_read_hook_data = None \<rparr>"

definition sample_loops :: "bytes loop_state" where
  "sample_loops = \<lparr> loopback_list = [\<lparr> lb_devname = ''loop0'', lb_file = sample_file, lb_id = 0, lb_refcnt = 1 \<rparr>],
     last_id = 1 \<rparr>"

definition sample_disk :: grub_disk where
  "sample_disk = \<lparr> disk_name = ''loop0'', disk_dev_id = 2, disk_total_sectors = 2, disk_log_sector_size = 9,
     disk_max_agglomerate = 16384, disk_id = 0, disk_partition = [] \<rparr>"

abbreviation sample_state :: "bytes lstate" where
  "sample_state \<equiv> dstate_init (\<lambda>_. True) sample_loops"

lemma sample_devs: "loop_devs sample_loops 0 = Some (replicate 1001 7, 1000)"
  by (simp add: loop_devs_def sample_loops_def sample_file_def procfs_opened_def)

lemma sample_served: "loop_served (loop_devs sample_loops) sample_disk"
  unfolding loop_served_def by (simp add: sample_disk_def sample_devs loopback_sectors_def)

lemma sample_inv: "cache_inv (loop_content sample_loops) (loop_good sample_loops) sample_state"
  by (rule cache_inv_init) (rule loop_good_refl)

lemma sample_quiet: "quiet True sample_state"
  by (simp add: quiet_def dstate_init_def d_errno_def err_init_def)

lemma sample_state_simps:
  "error_stack (d_err sample_state) = []" "read_recursion_depth sample_state = 0"
  by (simp_all add: dstate_init_def err_init_def)

lemma sample_range: "grub_disk_adjust_range sample_disk 1 100 50 = Some (1, 100)"
proof -
  have "span 100 50 = 1" by (simp add: span_def)
  moreover have "unat (clamped_total sample_disk) = 2"
    by (simp add: clamped_total_def sample_disk_def word_less_nat_alt)
  ultimately show ?thesis
    by (subst adjust_range_iff) (simp_all add: sample_disk_def)
qed

text \<open>
  C1. Reading through the cache is transparent: for every driver that meets the contract
  \<open>hooked_device\<close> (a successful driver read returns the bytes of the device), a read of \<open>sz\<close>
  bytes that the range check admits returns, whatever is cached and however cached blocks, driver
  reads and read hooks are interleaved. If it reports success, the buffer holds exactly the bytes of
  the device at the absolute position; if the driver is reliable and memory suffices, it does
  report success. The cache invariant, the recursion depth and the error stack are kept in every
  case.
\<close>

theorem grub_disk_read_correct:
  assumes "hooked_device dread content good served live hook"
    and "served disk" and "cache_inv content good st"
    and "length (error_stack (d_err st)) < GRUB_ERROR_STACK_SIZE"
    and "Suc (read_recursion_depth st) < MAX_READ_RECURSION_DEPTH"
    and "unat sz + 1022 < 2 ^ 64"
    and "grub_disk_adjust_range disk sector offset sz = Some (s, off)"
  shows "\<exists>e buf st'. grub_disk_read dread hook disk sector offset sz st = Some ((e, buf), st') \<and>
     cache_inv content good st' \<and> loose_frame st st' \<and>
     (e = GRUB_ERR_NONE \<longrightarrow> buf =
        content_bytes content (disk_dev_id disk) (disk_id disk) (unat s * 512 + unat off) (unat sz)) \<and>
     (quiet live st \<and> 0 < unat sz \<longrightarrow> e = GRUB_ERR_NONE \<and> quiet live st')"
  by (rule hooked_device.disk_read_ok [OF assms])

theorem grub_disk_read_correct_witness:
  "\<exists>st'. grub_disk_read (grub_loopback_read grub_procfs_read None) None sample_disk 1 100 50 sample_state =
      Some ((GRUB_ERR_NONE, content_bytes (loop_content sample_loops) 2 0 612 50), st')"
proof -
  have d: "disk_dev_id sample_disk = 2" "disk_id sample_disk = 0" by (simp_all add: sample_disk_def)
  show ?thesis
    using grub_disk_read_correct [OF procfs_hooked.hooked_device_axioms sample_served sample_inv _ _ _ sample_range,
        of None] sample_quiet
    by (auto simp: sample_state_simps d)
qed

text \<open>
  C2. End to end on the program's own loopback driver: reading a loopback disk whose backing file
  is a generated file, in a state with no pending error and enough memory, always succeeds and
  delivers the bytes of the file, followed by zeros in the last sector.
\<close>

theorem loopback_disk_read:
  assumes "loop_served (loop_devs ls) disk" and "loop_good ls (d_ext st)"
    and "cache_inv (loop_content ls) (loop_good ls) st" and "quiet True st"
    and "length (error_stack (d_err st)) < GRUB_ERROR_STACK_SIZE"
    and "Suc (read_recursion_depth st) < MAX_READ_RECURSION_DEPTH"
    and "0 < unat sz" and "unat sz + 1022 < 2 ^ 64"
    and "grub_disk_adjust_range disk sector offset sz = Some (s, off)"
  shows "\<exists>st'. grub_disk_read (grub_loopback_read grub_procfs_read p) None disk sector offset sz st =
      Some ((GRUB_ERR_NONE, map (loop_content ls (disk_dev_id disk) (disk_id disk))
               [unat s * 512 + unat off..<unat s * 512 + unat off + unat sz]), st') \<and>
      quiet True st' \<and> loop_good ls (d_ext st')"
  using procfs_hooked.disk_read_ok [OF assms(1,3,5,6,8,9), of p] assms(4,7)
  by (auto simp: content_bytes_def cache_inv_def)

theorem loopback_disk_read_witness:
  "\<exists>st'. grub_disk_read (grub_loopback_read grub_procfs_read None) None sample_disk 1 100 50 sample_state =
      Some ((GRUB_ERR_NONE, replicate 50 7), st') \<and> quiet True st' \<and> loop_good sample_loops (d_ext st')"
proof -
  have d: "disk_dev_id sample_disk = 2" "disk_id sample_disk = 0" by (simp_all add: sample_disk_def)
  have g: "loop_good sample_loops (d_ext sample_state)" by (simp add: dstate_init_def loop_good_refl)
  have "map (loop_content sample_loops 2 0) [612..<662] = replicate 50 7"
    by (intro replicate_eqI)
      (auto simp: loop_content_def sample_devs byte_at_def simp del: upt_rec_numeral)
  then show ?thesis
    using loopback_disk_read [OF sample_served g sample_inv sample_quiet _ _ _ _ sample_range, of None]
    by (simp add: sample_state_simps d del: upt_rec_numeral)
qed

section \<open>Partitions\<close>



abbreviation sample_reader :: "bytes loop_state part_read" where
  "sample_reader \<equiv> disk_reader (grub_loopback_read grub_procfs_read None) None"

lemma image_small_8: "image_small 8" by (simp add: image_small_def)


text \<open>
  C4. The GPT reader is exact: when no error is pending, the boot record is protective, the first
  header with the magic number over the sector sizes has a valid entry size and the entry array is
  on the disk, the walk succeeds and reports exactly the used entries of the array, in order, decoded
  from their bytes and numbered by their index.
\<close>

theorem gpt_lists_used_entries:
  assumes "part_source rd ok clean img" and "ok ps" and "clean ps" and "ps_disk ps = disk"
    and "grub_disk_adjust_range disk 0 0 512 \<noteq> None"
    and "mbr_signature (record_at (img disk) 0) = GRUB_PC_PARTITION_SIGNATURE"
    and "list_ex (\<lambda>i. ent_type (record_at (img disk) 0) i = GRUB_PC_PARTITION_TYPE_GPT_DISK) slots"
    and "k < MAX_SECTOR_LOG" and "\<forall>j \<le> k. grub_disk_adjust_range disk (push_bit j 1) 0 92 \<noteq> None"
    and "\<forall>j < k. grub_memcmp (header_at (img disk) j) grub_gpt_magic 8 \<noteq> 0"
    and "grub_memcmp (header_at (img disk) k) grub_gpt_magic 8 = 0"
    and "\<not> gpt_size_bad (header_at (img disk) k)"
    and "a = unat (push_bit k (gpt_partitions (header_at (img disk) k))) * 512"
    and "w = unat (gpt_partentry_size (header_at (img disk) k))" and "n = unat (gpt_maxpart (header_at (img disk) k))"
    and "\<forall>j < n. grub_disk_adjust_range disk (sector_of (a + j * w)) (offset_of (a + j * w)) 128 \<noteq> None"
    and "(a + n * w) div 512 < 2 ^ 64"
  shows "\<exists>ps'. grub_gpt_partition_map_iterate rd p0 collect [] ps =
      Some (GRUB_ERR_NONE, gpt_listing p0 (img disk) k w a 0 n, ps') \<and> ok ps' \<and> clean ps'"
  by (rule part_source.gpt_iterate_exact [OF assms(1-12), unfolded assms(13-15) [symmetric], OF assms(16,17)])

theorem gpt_lists_used_entries_witness:
  "\<exists>ps'. grub_gpt_partition_map_iterate sample_reader zero_partition collect [] (image_state gpt_image 8) =
      Some (GRUB_ERR_NONE, [zero_partition\<lparr> part_start := 4, part_len := 3, part_offset := 2, part_number := 0,
        part_index := 0, part_partmap := ''gpt'' \<rparr>], ps')"
proof -
  let ?img = "part_image (loop_content (image_loops gpt_image 8)) (image_disk 8)"
  have disk: "ps_disk (image_state gpt_image 8) = image_disk 8" by (simp add: image_state_def)
  have rec: "record_at ?img 0 = map gpt_image [0..<512]"
    using image_record [OF image_small_8, of 0 gpt_image] by (simp del: upt_rec_numeral)
  have hdr: "header_at ?img 0 = map gpt_image [512..<604]"
    using image_header [OF image_small_8, of 0 gpt_image] by (simp del: upt_rec_numeral)
  have size: "\<not> gpt_size_bad (header_at ?img 0)" by (simp add: hdr gpt_size_bad_def gpt_image_header del: upt_rec_numeral)
  have range: "grub_disk_adjust_range (image_disk 8) 0 0 512 \<noteq> None" "grub_disk_adjust_range (image_disk 8) 1 0 92 \<noteq> None"
    "grub_disk_adjust_range (image_disk 8) 2 0 128 \<noteq> None"
    using image_range [OF image_small_8, of 0 512 0] image_range [OF image_small_8, of 0 92 1]
      image_range [OF image_small_8, of 0 128 2] by simp_all
  have e: "entry_bytes ?img 1024 = map gpt_image [1024..<1152]"
    using image_entry [OF image_small_8, of 1024 gpt_image] by (simp del: upt_rec_numeral)
  have p: "gpt_part zero_partition (map gpt_image [1024..<1152]) 0 0 2 0 = zero_partition\<lparr> part_start := 4, part_len := 3, part_offset := 2,
      part_number := 0, part_index := 0, part_partmap := ''gpt'' \<rparr>"
    by (simp add: gpt_part_def gptent_start_def gptent_end_def field_eval gpt_image_def del: upt_rec_numeral)
  have "gpt_listing zero_partition ?img 0 128 1024 0 1 = [gpt_part zero_partition (map gpt_image [1024..<1152]) 0 0 2 0]"
    using gpt_image_entry by (simp add: gpt_listing_def e sector_of_def offset_of_def del: upt_rec_numeral)
  moreover have "\<exists>ps'. grub_gpt_partition_map_iterate sample_reader zero_partition collect [] (image_state gpt_image 8) =
      Some (GRUB_ERR_NONE, gpt_listing zero_partition ?img 0 128 1024 0 1, ps') \<and>
      loop_parts.dev_ok (image_loops gpt_image 8) ps' \<and> quiet True (ps_dst ps')"
    by (rule gpt_lists_used_entries [OF loop_parts.parts.part_source_axioms image_ok [OF image_small_8] image_quiet disk,
        where k = 0])
      (simp_all add: rec hdr size [unfolded hdr] range gpt_image_mbr gpt_image_header slots_def sector_of_def offset_of_def del: upt_rec_numeral)
  ultimately show ?thesis using p by auto
qed



text \<open>
  C6. The MSDOS reader is exact on the primary partitions: when no error is pending, the whole disk
  is walked, its boot record is readable and valid and names no extended partition, the walk
  succeeds and reports exactly the used entries of the boot record, each numbered by its slot.
\<close>

theorem msdos_lists_primaries:
  assumes "part_source rd ok clean img" and "ok ps" and "clean ps" and "ps_disk ps = disk" and "disk_partition disk = []"
    and "grub_disk_adjust_range disk 0 0 512 \<noteq> None"
    and "mbr_check (record_at (img disk) 0) 0 0 1 = None" and "find_extended (record_at (img disk) 0) = None"
  shows "\<exists>ps'. grub_partition_msdos_iterate rd collect [] ps =
    Some (GRUB_ERR_NONE, msdos_primaries disk (record_at (img disk) 0), ps') \<and> ok ps' \<and> clean ps'"
  by (rule part_source.msdos_iterate_exact [OF assms])

theorem msdos_lists_primaries_witness:
  "\<exists>ps'. grub_partition_msdos_iterate sample_reader collect [] (image_state msdos_image 8) =
    Some (GRUB_ERR_NONE, [zero_partition\<lparr> part_start := 1, part_len := 5, part_partmap := ''msdos'',
      part_msdostype := 0x83 \<rparr>], ps')"
proof -
  have rec: "record_at (part_image (loop_content (image_loops msdos_image 8)) (image_disk 8)) 0 = map msdos_image [0..<512]"
    using image_record [OF image_small_8, of 0 msdos_image] by (simp del: upt_rec_numeral)
  have "grub_disk_adjust_range (image_disk 8) 0 0 512 \<noteq> None"
    using image_range [OF image_small_8, of 0 512 0] by simp
  from msdos_lists_primaries [OF loop_parts.parts.part_source_axioms image_ok [OF image_small_8] image_quiet _ _ this,
      of msdos_image None, unfolded rec msdos_image_record]
  show ?thesis by (auto simp: image_state_def image_disk_def)
qed






text \<open>The one map of the example reports the same two partitions inside every parent.\<close>

definition example_parts :: "grub_partition list" where
  "example_parts = map (\<lambda>n. zero_partition\<lparr> part_number := n, part_len := 100, part_partmap := ''gpt'' \<rparr>) [0, 11]"





text \<open>
  The name of a partition fits the buffer: with the terminating zero it needs at most the bytes
  that \<open>grub_partition_get_name\<close> allocates, the sum over the chain of the length of the map name, a
  comma and 27 digits. (The comma in front of the outermost component, which is dropped, makes room
  for the zero.)
\<close>

theorem partition_name_fits:
  assumes "parts \<noteq> []" and "fst (grub_partition_get_name parts ps) = Some name"
  shows "length (write_names parts []) \<le> name_needlen parts \<and> length name + 1 \<le> name_needlen parts"
proof -
  have "write_names parts [] \<noteq> []" using assms(1) by (simp add: write_names_eq)
  then show ?thesis
    using assms(2) write_names_length [of parts "[]"]
    by (auto simp: grub_partition_get_name_def split: prod.splits if_splits)
qed

theorem partition_name_fits_witness:
  "length (write_names (rev example_parts) []) \<le> name_needlen (rev example_parts)"
proof -
  have "example_parts \<noteq> []" by (simp add: example_parts_def)
  moreover have "fst (grub_partition_get_name (rev example_parts) (image_state gpt_image 8)) =
      Some (tl (write_names (rev example_parts) []))"
    using quiet_malloc [OF image_quiet [of gpt_image 8]]
    by (auto simp: grub_partition_get_name_def p_malloc_def split: prod.splits)
  ultimately show ?thesis using partition_name_fits [of "rev example_parts" "image_state gpt_image 8"] by auto
qed

text \<open>
  C31. The Amiga reader does not return on a cyclic list: when the descriptor and a block that names
  itself as the next one have valid magic numbers and checksums and the disk is read without error,
  the walk with a hook that goes on has no result.
\<close>

theorem amiga_cyclic_list_diverges:
  assumes "part_source rd ok clean img" and "ok ps" and "clean ps"
    and "rdsk = record_at (img (ps_disk ps)) 0" and "grub_memcmp rdsk GRUB_AMIGA_RDSK_MAGIC 4 = 0"
    and "amiga_partition_map_checksum rdsk = 0" and "be32 rdsk 28 = blkno" and "blkno \<noteq> 0xffffffff"
    and "blk = record_at (img (ps_disk ps)) (scast blkno)" and "grub_memcmp blk GRUB_AMIGA_PART_MAGIC 4 = 0"
    and "amiga_partition_map_checksum blk = 0" and "be32 blk 16 = blkno"
    and "grub_disk_adjust_range (ps_disk ps) 0 0 512 \<noteq> None"
    and "grub_disk_adjust_range (ps_disk ps) (scast blkno) 0 512 \<noteq> None"
  shows "amiga_partition_map_iterate rd p0 collect d ps = None"
  by (rule part_source.amiga_cycle_iterate [OF assms(1,4-14,2,3)])

theorem amiga_cyclic_list_diverges_witness:
  "amiga_partition_map_iterate sample_reader zero_partition collect [] (image_state amiga_image 8) = None"
proof -
  have disk: "ps_disk (image_state amiga_image 8) = image_disk 8" by (simp add: image_state_def)
  have rec: "record_at (part_image (loop_content (image_loops amiga_image 8)) (image_disk 8)) 0 = map amiga_image [0..<512]"
    "record_at (part_image (loop_content (image_loops amiga_image 8)) (image_disk 8)) 1 = map amiga_image [512..<1024]"
    using image_record [OF image_small_8, of 0 amiga_image] image_record [OF image_small_8, of 1 amiga_image]
    by (simp_all del: upt_rec_numeral)
  have range: "grub_disk_adjust_range (image_disk 8) 0 0 512 \<noteq> None" "grub_disk_adjust_range (image_disk 8) 1 0 512 \<noteq> None"
    using image_range [OF image_small_8, of 0 512 0] image_range [OF image_small_8, of 0 512 1] by simp_all
  show ?thesis
    by (rule amiga_cyclic_list_diverges [OF loop_parts.parts.part_source_axioms image_ok [OF image_small_8] image_quiet refl,
          where blkno = 1 and blk = "map amiga_image [512..<1024]"])
      (use amiga_image_rdsk amiga_image_part rec range in \<open>simp_all add: disk del: upt_rec_numeral\<close>)
qed

section \<open>Metadata mapping of files\<close>

text \<open>
  C23. The mapping of a file is complete and faithful: whatever a file-system driver emits, the
  extents the caller's hook is given follow each other without gap or overlap from the start of the
  query, and each byte they place lies where an emitted extent put it; a call that succeeds without
  being stopped has covered the query up to the end of the file.
\<close>

theorem file_mapping_complete:
  assumes "\<And>ctx. \<exists>es. set es \<subseteq> E \<and> map_run (log_hook f) (log_cancel c) ctx es (snd (fs_map ctx))"
    and "grub_file_map_range_ex (log_hook f) (log_cancel c) (Some fs_map) file disk offset len [] err = (e, stopped, ctx)"
    and "unat offset < min (unat offset + unat len) (unat (file_size file))"
  shows "(\<exists>m \<le> min (unat offset + unat len) (unat (file_size file)). tiles (unat offset) (mc_data ctx) m) \<and>
    (\<forall>x \<in> set (mc_data ctx). extent_bytes x \<subseteq> (\<Union>y \<in> E. extent_bytes y)) \<and>
    (e = GRUB_ERR_NONE \<and> \<not> stopped \<longrightarrow>
       tiles (unat offset) (mc_data ctx) (min (unat offset + unat len) (unat (file_size file))))"
  using map_range_complete [OF assms] by blast

text \<open>A driver that reports the whole file as one run, asked for fifty bytes.\<close>

definition one_run_driver :: "map_extent list map_context \<Rightarrow> grub_err_t \<times> map_extent list map_context" where
  "one_run_driver = grub_file_map_simple (log_hook (\<lambda>_ _. False)) (log_cancel None) 0 1000 GRUB_FILE_MAP_DIRECT 0"

theorem file_mapping_complete_witness:
  "\<exists>m. tiles 100 (mc_data (snd (snd (grub_file_map_range_ex (log_hook (\<lambda>_ _. False)) (log_cancel None)
     (Some one_run_driver) sample_file (Some sample_disk) 100 50 [] err_init)))) m"
proof -
  let ?e = "\<lparr> me_logical_offset = 0, me_logical_length = 1000, me_decoded_offset = 0, me_decoded_length = 0,
    me_flags = GRUB_FILE_MAP_DIRECT, me_encoding = None, me_storage = [\<lparr> ms_offset = 0, ms_length = 1000,
    ms_address_space = GRUB_FILE_MAP_VOLUME \<rparr>], me_storage_count = 1 \<rparr>"
  let ?r = "grub_file_map_range_ex (log_hook (\<lambda>_ _. False)) (log_cancel None) (Some one_run_driver) sample_file
    (Some sample_disk) 100 50 [] err_init"
  have s: "one_run_driver ctx = grub_file_map_emit (log_hook (\<lambda>_ _. False)) (log_cancel None) ?e ctx" for ctx
    by (simp add: one_run_driver_def grub_file_map_simple_def flag_set_def)
  have d: "\<exists>es. set es \<subseteq> {?e} \<and> map_run (log_hook (\<lambda>_ _. False)) (log_cancel None) ctx es (snd (one_run_driver ctx))" for ctx
    unfolding s by (intro exI [of _ "[?e]"] conjI run_emit [OF prod.collapse [symmetric]] run_done) simp
  have r: "?r = (fst ?r, fst (snd ?r), snd (snd ?r))" by simp
  have q: "unat (100 :: u64) < min (unat (100 :: u64) + unat (50 :: u64)) (unat (file_size sample_file))"
    by (simp add: sample_file_def)
  from file_mapping_complete [OF d r q] show ?thesis by auto
qed

section \<open>Ranges and the cache\<close>



text \<open>
  C25. The cache returns what was stored: after a miss and a successful store of the block, the next
  lookup gives its data. The keys within a slot and its overflow chain stay distinct, and no other
  slot changes.
\<close>

theorem cache_store_then_fetch:
  assumes "keys_distinct st" and "fst (grub_disk_cache_fetch disk s st) = None"
    and "grub_disk_cache_store (disk_dev_id disk) (disk_id disk) s data (snd (grub_disk_cache_fetch disk s st)) =
      (GRUB_ERR_NONE, st')"
  shows "fst (grub_disk_cache_fetch disk s st') = Some data \<and> keys_distinct st' \<and>
    (\<forall>j. j \<noteq> grub_disk_cache_get_index (disk_dev_id disk) (disk_id disk) s \<longrightarrow> d_cache st' j = d_cache st j)"
proof -
  let ?st1 = "snd (grub_disk_cache_fetch disk s st)"
  let ?i = "grub_disk_cache_get_index (disk_dev_id disk) (disk_id disk) s"
  have c: "d_cache ?st1 = d_cache st"
    using assms(2) update_bucket_lock_None
    by (auto simp: grub_disk_cache_fetch_def Let_def simp del: find_entry.simps split: option.splits)
  have d: "keys_distinct ?st1" using assms(1) c by (simp add: keys_distinct_def)
  have a: "\<not> stored_any (disk_dev_id disk) (disk_id disk) s (d_cache ?st1 ?i)"
    using fetch_miss_absent [OF assms(2)] c by simp
  have b: "bucket_distinct (d_cache ?st1 ?i)" using d by (simp add: keys_distinct_def)
  have "stored (disk_dev_id disk) (disk_id disk) s data (d_cache st' ?i)" "\<forall>j. j \<noteq> ?i \<longrightarrow> d_cache st' j = d_cache st j"
    using store_effect [OF b refl a assms(3)] c by auto
  moreover have "keys_distinct st'" using store_distinct [OF d a, of data] assms(3) by simp
  ultimately show ?thesis by (auto simp: fetch_eq stored_def Let_def simp del: find_entry.simps)
qed

theorem cache_store_then_fetch_witness:
  "fst (grub_disk_cache_fetch sample_disk 7 (snd (grub_disk_cache_store 2 0 7 [1, 2, 3]
     (snd (grub_disk_cache_fetch sample_disk 7 sample_state))))) = Some [1, 2, 3]"
proof -
  let ?st = "snd (grub_disk_cache_fetch sample_disk 7 sample_state)"
  have dk: "disk_dev_id sample_disk = 2" "disk_id sample_disk = 0" by (simp_all add: sample_disk_def)
  have c: "d_cache sample_state = (\<lambda>_. empty_bucket)" "d_malloc sample_state = (\<lambda>_. True)" by (simp_all add: dstate_init_def)
  have m: "fst (grub_disk_cache_fetch sample_disk 7 sample_state) = None"
    by (simp add: fetch_eq c empty_bucket_def entry_matches_def dk)
  have e: "d_cache ?st = (\<lambda>_. empty_bucket)" "d_malloc ?st = (\<lambda>_. True)"
    by (simp_all add: grub_disk_cache_fetch_def c empty_bucket_def entry_matches_def dk Let_def)
  have "fst (grub_disk_cache_store 2 0 7 [1, 2, 3] ?st) = GRUB_ERR_NONE"
    by (simp add: grub_disk_cache_store_def store_slot_def e empty_bucket_def grub_malloc_def Let_def)
  then have "grub_disk_cache_store (disk_dev_id sample_disk) (disk_id sample_disk) 7 [1, 2, 3] ?st =
      (GRUB_ERR_NONE, snd (grub_disk_cache_store 2 0 7 [1, 2, 3] ?st))" by (simp add: prod_eq_iff dk)
  from cache_store_then_fetch [OF init_distinct m this] show ?thesis by simp
qed

text \<open>
  After an invalidation no block is found: in a state that satisfies the cache invariant, where
  no entry is left locked, every lookup after \<open>grub_disk_cache_invalidate_all\<close> misses, and the
  invariant is kept.
\<close>

lemma cache_invalidation_misses:
  assumes "cache_inv content good st"
  shows "fst (grub_disk_cache_fetch disk s (grub_disk_cache_invalidate_all st)) = None \<and>
    cache_inv content good (grub_disk_cache_invalidate_all st)"
proof -
  let ?dv = "disk_dev_id disk" and ?di = "disk_id disk"
  let ?b = "d_cache st (grub_disk_cache_get_index ?dv ?di s)"
  have "\<not> ce_lock e" if "e \<in> set (fst ?b # snd ?b)" for e
    using assms that by (auto simp: cache_inv_def bucket_inv_def)
  then have "find_entry ?dv ?di s (fst (invalidate_bucket ?b) # snd (invalidate_bucket ?b)) = Some e \<Longrightarrow> ce_data e = None" for e
    using find_entry_in [of ?dv ?di s "fst (invalidate_bucket ?b) # snd (invalidate_bucket ?b)" e]
    by (auto simp: invalidate_bucket_def split: if_splits)
  then show ?thesis
    using invalidate_all_inv [OF assms]
    by (auto simp: fetch_eq Let_def grub_disk_cache_invalidate_all_def index_bound simp del: find_entry.simps split: option.splits)
qed

section \<open>Numbers, strings and errors\<close>

text \<open>
  \<open>grub_divmod64\<close>, the shift-and-subtract division with its shortcut for small operands, is
  division: for every divisor but zero it gives the quotient and the remainder.
\<close>

theorem divmod64_is_division:
  assumes "d \<noteq> 0"
  shows "unat (fst (grub_divmod64 n d)) = unat n div unat d \<and> unat (snd (grub_divmod64 n d)) = unat n mod unat d"
  using grub_divmod64_eq [OF assms, of n] by (simp add: unat_div_distrib unat_mod_distrib)

theorem divmod64_is_division_witness: "unat (fst (grub_divmod64 0xfffffffffffffff0 7)) = 18446744073709551600 div 7"
  using divmod64_is_division [of 7 "0xfffffffffffffff0"] by simp

text \<open>
  C32. \<open>grub_strtoull\<close> is exact: after leading white space and the base prefix it reads the longest
  prefix of digits. Without a digit it reports a bad number; if the value fits 64 bits it returns
  the value and the rest of the string; otherwise, and only then, it reports an overflow with the
  largest number, at the digit that would overflow.
\<close>

theorem strtoull_exact:
  assumes "guess_base base (dropWhile grub_isspace str) = (b, s)" and "1 < b" and "b < 2 ^ 64"
  shows "grub_strtoull str base =
      (if digit_prefix (of_nat b) s = [] then (GRUB_ERR_BAD_NUMBER, 0, s)
       else if horner b 0 (digit_prefix (of_nat b) s) < 2 ^ 64
       then (GRUB_ERR_NONE, of_nat (horner b 0 (digit_prefix (of_nat b) s)), drop (length (digit_prefix (of_nat b) s)) s)
       else (GRUB_ERR_OUT_OF_RANGE, 0xffffffffffffffff, snd (snd (grub_strtoull str base)))) \<and>
    (\<not> horner b 0 (digit_prefix (of_nat b) s) < 2 ^ 64 \<longrightarrow>
       (\<exists>k < length (digit_prefix (of_nat b) s). snd (snd (grub_strtoull str base)) = drop k s))"
proof -
  have u: "unat (of_nat b :: u64) = b" using assms(3) by (simp add: unat_of_nat)
  have b: "(1 :: u64) < of_nat b" using assms(2) u by (simp add: word_less_nat_alt)
  have g: "grub_strtoull str base = strtoull_loop (of_nat b) 0 False s" by (simp add: grub_strtoull_def assms(1))
  show ?thesis
  proof (cases "horner b 0 (digit_prefix (of_nat b) s) < 2 ^ 64")
    case True
    then show ?thesis using strtoull_loop_exact(1) [OF b, of 0 s False] by (simp add: g u)
  next
    case False
    then obtain k where "k < length (digit_prefix (of_nat b) s)"
      "strtoull_loop (of_nat b) 0 False s = (GRUB_ERR_OUT_OF_RANGE, 0xffffffffffffffff, drop k s)"
      using strtoull_loop_exact(2) [OF b, of 0 s False] by (auto simp: u)
    then show ?thesis using False by (auto simp: g)
  qed
qed

theorem strtoull_exact_witness:
  "fst (grub_strtoull ''  18446744073709551616x'' 10) = GRUB_ERR_OUT_OF_RANGE"
proof -
  let ?s = "''18446744073709551616x''"
  have sp: "dropWhile grub_isspace ''  18446744073709551616x'' = ?s" by (simp add: grub_isspace_def schar_def)
  have g: "guess_base 10 ?s = (10, ?s)" by (simp add: guess_base_def)
  have m: "?s = map (hex_char True) [1,8,4,4,6,7,4,4,0,7,3,7,0,9,5,5,1,6,1,6] @ ''x''"
    by (simp add: hex_char_def char_of_def bit_Suc_0_iff)
  have p: "digit_prefix (of_nat 10) ?s = [1,8,4,4,6,7,4,4,0,7,3,7,0,9,5,5,1,6,1,6]"
    unfolding m of_nat_numeral by (rule digit_prefix_append) (simp_all add: strtoull_digit_def schar_def grub_tolower_def)
  have "grub_strtoull ''  18446744073709551616x'' 10 =
      (GRUB_ERR_OUT_OF_RANGE, 0xffffffffffffffff, snd (snd (grub_strtoull ''  18446744073709551616x'' 10)))"
    using strtoull_exact [of 10 "''  18446744073709551616x''" 10 ?s] unfolding sp g p by simp
  then show ?thesis by (metis fst_conv)
qed

text \<open>
  C33. Printing and parsing agree: \<open>grub_strtoull\<close> in the base of the format reads back what
  \<open>grub_lltoa\<close> printed, in hexadecimal of either case, octal, unsigned decimal, and signed decimal of
  a number that is not negative.
\<close>

theorem print_parse_round_trip:
  assumes "(c, b) \<in> {(CHR ''x'', 16), (CHR ''X'', 16), (CHR ''o'', 8), (CHR ''u'', 10), (CHR ''d'', 10)}"
    and "c = CHR ''d'' \<longrightarrow> 0 \<le> sint n"
  shows "grub_strtoull (grub_lltoa c n) b = (GRUB_ERR_NONE, n, [])"
  using assms renders_strtoull [OF lltoa_hex_renders [of _ n]] renders_strtoull [OF lltoa_oct_renders [of True n]]
    renders_strtoull [OF lltoa_dec_renders [of True n]]
  by (auto simp: grub_lltoa_def Let_def grub_reverse_rev)

theorem print_parse_round_trip_witness:
  "grub_strtoull (grub_lltoa (CHR ''x'') 0xdeadbeef) 16 = (GRUB_ERR_NONE, 0xdeadbeef, [])"
  by (rule print_parse_round_trip) simp_all

text \<open>
  \<open>grub_strcmp\<close> is a total order on strings: its result is zero exactly for equal strings, its
  sign changes with the order of the arguments, and smaller is transitive.
\<close>

lemma strcmp_total_order:
  assumes "CHR 0x00 \<notin> set a" and "CHR 0x00 \<notin> set b" and "CHR 0x00 \<notin> set c"
  shows "(grub_strcmp a b = 0 \<longleftrightarrow> a = b) \<and> grub_strcmp b a = - grub_strcmp a b \<and>
    (grub_strcmp a b < 0 \<and> grub_strcmp b c < 0 \<longrightarrow> grub_strcmp a c < 0)"
  using strcmp_zero_iff [OF assms(1,2)] strcmp_antisym [of b a] strcmp_less_trans [OF assms(3)] by blast

text \<open>
  Splitting: \<open>grub_strword\<close> finds a word exactly if it is one of the maximal runs of characters
  between separators, and the tokens that repeated calls of \<open>grub_strtok_r\<close> cut off are the non-empty
  pieces between the delimiters, in order.
\<close>

theorem words_and_tokens:
  "(grub_strword haystack needle \<longleftrightarrow>
      takeWhile (\<lambda>c. \<not> grub_iswordseparator c) needle \<in> set (words_of haystack)) \<and>
   strtok_all delim s = pieces delim [] s"
  using strword_loop_iff [of "skip_seps haystack" needle] words_of_skip [of haystack] strtok_all_pieces [of delim s]
  by (simp add: grub_strword_def dropWhile_idem)

text \<open>
  C34. The error stack: pushing and popping the current error is the identity while the stack has
  room, a push clears the current error, and the stack never outgrows its array.
\<close>

theorem error_push_pop:
  assumes "err_wf s"
  shows "(length (error_stack s) < GRUB_ERROR_STACK_SIZE \<longrightarrow> grub_error_pop (grub_error_push s) = (True, s)) \<and>
    grub_errno (grub_error_push s) = GRUB_ERR_NONE \<and> err_wf (grub_error_push s) \<and> err_wf (snd (grub_error_pop s))"
  using assms by (simp add: grub_error_push_pop err_wf_ops)

theorem error_push_pop_witness:
  "grub_error_pop (grub_error_push (grub_error GRUB_ERR_IO ''read'' err_init)) = (True, grub_error GRUB_ERR_IO ''read'' err_init)"
proof -
  have "err_wf (grub_error GRUB_ERR_IO ''read'' err_init)" by (simp add: err_wf_def err_init_def)
  from error_push_pop [OF this] show ?thesis by (simp add: err_init_def)
qed

text \<open>
  C35. Printing errors ends and reports everything: \<open>grub_print_error\<close> prints the current error and
  every error on the stack, from the top, leaving out the entries without error, then the overflow
  notice if a push was lost, and leaves no error pending.
\<close>

theorem print_error_reports_all:
  "error_stack (grub_print_error s) = [] \<and> grub_errno (grub_print_error s) = GRUB_ERR_NONE \<and>
   \<not> grub_error_stack_assert (grub_print_error s) \<and>
   err_output (grub_print_error s) = err_output s @
     map snd (filter (\<lambda>p. fst p \<noteq> GRUB_ERR_NONE) ((grub_errno s, grub_errmsg s) # error_stack s)) @
     (if grub_error_stack_assert s then [assert_message] else [])"
  using print_loop_effect [of s] by (auto simp: grub_print_error_def Let_def)

section \<open>Virtual files, loopback devices and statistics\<close>

text \<open>
  The writer of a virtual file returns on every call and appends: from a well-formed writer,
  \<open>grub_procfs_write\<close> ends (the doubling loop reaches any 64-bit size), keeps the writer well-formed,
  and the bytes written are the old ones followed by the data, or just the old ones when the writer
  has an error.
\<close>

theorem procfs_write_appends:
  assumes "writer_wf w" and "length data = unat n"
  shows "\<exists>w1 st1. grub_procfs_write data n w st = Some (w_error w1, w1, st1) \<and> writer_wf w1 \<and>
     written w1 = (if w_error w1 = GRUB_ERR_NONE then written w @ data else written w)"
  by (rule write_ok [OF assms])

theorem procfs_write_appends_witness:
  "\<exists>w1 st1. grub_procfs_write [104, 105] 2 writer_init sample_state = Some (w_error w1, w1, st1) \<and> writer_wf w1"
proof -
  have "writer_wf writer_init" by (simp add: writer_wf_def writer_init_def)
  from procfs_write_appends [OF this, of "[104, 105]" 2 sample_state] show ?thesis by auto
qed



text \<open>
  C36. The statistics stay inside their tables: recording a read, a cache lookup or an error keeps the
  table of disks and the ring of errors well-formed (bounds, names that fit their buffer, exactly the
  used slots filled).
\<close>

theorem statistics_well_formed:
  assumes "proc_wf s"
  shows "proc_wf (grub_procfs_record_disk_read dvid name n e s) \<and> proc_wf (grub_procfs_record_cache dvid name hit s) \<and>
    proc_wf (grub_procfs_record_error e msg s)"
  using record_disk_read_wf [OF assms] record_cache_wf [OF assms] record_error_wf [OF assms] by blast

theorem statistics_well_formed_witness: "proc_wf (grub_procfs_record_error GRUB_ERR_IO ''read error'' proc_init)"
  using statistics_well_formed [OF proc_init_wf] by blast

section \<open>Limits\<close>

text \<open>
  A read nested at the depth limit succeeds without data: \<open>grub_disk_read\<close> called when
  \<open>read_recursion_depth\<close> is one below the limit raises the recursion error but returns
  \<open>GRUB_ERR_NONE\<close>, for any size and without reading the device.
\<close>

theorem read_at_depth_limit:
  assumes "grub_disk_adjust_range disk sector offset sz = Some (s, off)"
    and "Suc (read_recursion_depth st) \<ge> MAX_READ_RECURSION_DEPTH"
  shows "\<exists>st'. grub_disk_read dread hook disk sector offset sz st = Some ((GRUB_ERR_NONE, []), st') \<and>
    d_errno st' = GRUB_ERR_RECURSION_DEPTH"
  using assms by (auto simp: grub_disk_read_def read_finish_def Let_def d_errno_def raise_error_def)

theorem read_at_depth_limit_witness:
  "\<exists>st'. grub_disk_read (grub_loopback_read grub_procfs_read None) None sample_disk 1 100 50
     (sample_state\<lparr> read_recursion_depth := 31 \<rparr>) = Some ((GRUB_ERR_NONE, []), st') \<and> d_errno st' = GRUB_ERR_RECURSION_DEPTH"
  by (rule read_at_depth_limit [OF sample_range]) simp

text \<open>
  A disk with a long name never finds its statistics again: names of 128 characters or more are
  cut when they are stored but compared in full, so that each recording takes a new slot until the
  table is full.
\<close>

lemma long_name_takes_new_slot:
  assumes "proc_wf s" and "ROVER_PROC_NAME_MAX \<le> length name" and "proc_enabled s" and "\<not> proc_observing s"
    and "dvid \<noteq> GRUB_DISK_DEVICE_PROCFS_ID" and "length (diskstats s) < ROVER_PROC_STATS_MAX"
  shows "length (diskstats (grub_procfs_record_disk_read dvid name n e s)) = Suc (length (diskstats s))"
proof -
  have "find_stat_index name (diskstats s) 0 = None"
    using assms(1,2) by (auto simp: find_stat_index_None proc_wf_def)
  then show ?thesis
    using assms by (simp add: grub_procfs_record_disk_read_def proc_find_diskstat_def update_stat_def)
qed




section \<open>Opening disks and files\<close>




abbreviation sample_dev :: "(bytes loop_state, unit) disk_dev" where
  "sample_dev \<equiv> loopback_dev None"









text \<open>
  A disk with an unsupported sector size is not closed again: when a driver has opened the disk
  and reports sectors below 512 or above 32768 bytes, the opening fails, but the driver's
  \<open>disk_close\<close> is not called; the state of the drivers stays the one the driver's \<open>disk_open\<close> left.
\<close>

theorem unsupported_sectors_leak:
  assumes "find_driver devs raw name disk st = Some (Inr dev, disk1, st1)"
    and "disk_log_sector_size disk1 < 9 \<or> 15 < disk_log_sector_size disk1"
    and "length (error_stack (d_err st1)) < GRUB_ERROR_STACK_SIZE"
  shows "\<exists>st'. open_driver maps devs name raw part disk st = Some (None, st') \<and> d_ext st' = d_ext st1 \<and>
    d_errno st' = GRUB_ERR_NOT_IMPLEMENTED_YET"
  using assms
  by (auto simp: open_driver_def open_result_def push_pop_error_id grub_disk_close_def grub_get_time_ms_def d_errno_def raise_error_def)

text \<open>A driver with sectors of 256 bytes that counts its open disks.\<close>

definition small_sector_dev :: "(nat, unit) disk_dev" where
  "small_sector_dev = \<lparr> dev_name = ''mtd'', dev_id = 7, dev_iterate = None,
     dev_open = (\<lambda>name disk st. Some (GRUB_ERR_NONE, disk\<lparr> disk_log_sector_size := 8 \<rparr>, st\<lparr> d_ext := d_ext st + 1 \<rparr>)),
     dev_close = Some (\<lambda>disk st. Some (st\<lparr> d_ext := d_ext st - 1 \<rparr>)),
     dev_read = (\<lambda>disk sector n st. ((GRUB_ERR_NONE, []), st)) \<rparr>"

theorem unsupported_sectors_leak_witness:
  "\<exists>st'. open_driver (\<lambda>_. []) [small_sector_dev] ''mtd0'' ''mtd0'' None fresh_disk (dstate_init (\<lambda>_. True) 0) = Some (None, st') \<and>
    d_ext st' = 1"
proof -
  have "find_driver [small_sector_dev] ''mtd0'' ''mtd0'' fresh_disk (dstate_init (\<lambda>_. True) 0) =
      Some (Inr small_sector_dev, fresh_disk\<lparr> disk_log_sector_size := 8 \<rparr>, (dstate_init (\<lambda>_. True) 0)\<lparr> d_ext := 1 \<rparr>)"
    by (simp add: small_sector_dev_def dstate_init_def)
  from unsupported_sectors_leak [OF this, of "\<lambda>_. []" None] show ?thesis by (auto simp: dstate_init_def err_init_def)
qed

text \<open>
  Probing finds the first file system that accepts the device: if the file systems before it
  refuse it, each from every state the invariant admits, with one of the two errors that mean
  another format, the probe returns it without a pending error; when all refuse, the probe reports
  an unknown file system.
\<close>

lemma fs_probe_finds_first:
  assumes "gd_disk device \<noteq> None" and "I st"
    and "\<forall>fs \<in> set fss. fs_refuses I device fs"
  shows "(\<exists>st'. grub_fs_probe fss device st = Some (None, st') \<and> d_errno st' = GRUB_ERR_UNKNOWN_FS) \<and>
    (fs_accepts I device fs \<longrightarrow>
      (\<exists>st'. grub_fs_probe (fss @ fs # post) device st = Some (Some fs, st') \<and> d_errno st' = GRUB_ERR_NONE))"
  using probe_none [OF assms(1,3,2)] probe_first [OF assms(1,3) _ assms(2)] by blast

text \<open>The sample disk as a device.\<close>

abbreviation sample_device :: "(bytes loop_state, unit) grub_device" where
  "sample_device \<equiv> \<lparr> gd_disk = Some \<lparr> od_disk = sample_disk, od_dev = Some sample_dev \<rparr> \<rparr>"

text \<open>
  C27. A block list delivers the bytes of the disk: reading from the open block list a range that
  lies inside one of its blocks, not the last one necessarily, returns; it gives the count and
  exactly the bytes of the disk at that place, or \<open>-1\<close>; with a reliable driver it succeeds.
\<close>

theorem blocklist_read_in_block:
  assumes "hooked_device (dev_read drv) content good served live (hook_of (file_read_hook fl) (file_read_hook_data fl))"
    and "served disk" and "open_ready content good st" and "file_data fl = Blocks (pre @ (start, n) # post)"
    and "\<forall>b \<in> set pre. snd b \<noteq> 0" and "unat (file_offset fl) = ((\<Sum>b\<leftarrow>pre. unat (snd b)) + s) * 512 + o'"
    and "s < unat n" and "o' < 512" and "s * 512 + o' + unat len \<le> unat n * 512" and "0 < unat len" and "unat len + 1022 < 2 ^ 63"
    and "unat (file_offset fl) + unat len \<le> unat (file_size fl)"
    and "grub_disk_adjust_range disk (start + of_nat s) (of_nat o') len \<noteq> None"
  shows "\<exists>r buf st'. grub_fs_blocklist_read hook_of (Some \<lparr> gd_disk = Some \<lparr> od_disk = disk, od_dev = Some drv \<rparr> \<rparr>) fl len st =
      Some ((r, buf), st') \<and> open_ready content good st' \<and>
      (r = -1 \<or> r = int (unat len) \<and> buf = image_bytes (part_image content disk) (start + of_nat s) (of_nat o') len) \<and>
      (quiet live st \<longrightarrow> r = int (unat len))"
proof -
  let ?hook = "hook_of (file_read_hook fl) (file_read_hook_data fl)"
  obtain s1 off1 where adj: "grub_disk_adjust_range disk (start + of_nat s) (of_nat o') len = Some (s1, off1)"
    using assms(13) by auto
  have sz: "unat len + 1022 < 2 ^ 64" using assms(11) by simp
  from hooked_device.disk_read_ok [OF assms(1,2) _ _ _ sz adj, of st] assms(3)
  obtain e buf st' where run: "grub_disk_read (dev_read drv) ?hook disk (start + of_nat s) (of_nat o') len st = Some ((e, buf), st')"
    and st': "cache_inv content good st'" "loose_frame st st'"
    and ok: "e = GRUB_ERR_NONE \<longrightarrow> buf = content_bytes content (disk_dev_id disk) (disk_id disk) (unat s1 * 512 + unat off1) (unat len)"
    and live: "quiet live st \<and> 0 < unat len \<longrightarrow> e = GRUB_ERR_NONE \<and> quiet live st'"
    by (auto simp: open_ready_def)
  have rdy: "open_ready content good st'" using assms(3) st' by (simp add: open_ready_def loose_frame_def)
  have clip: "\<not> len > file_size fl - file_offset fl"
    using assms(12) by (simp add: word_less_nat_alt unat_minus_exact word_le_nat_alt)
  have "unat (drop_bit 9 (file_offset fl)) = (\<Sum>b\<leftarrow>pre. unat (snd b)) + s"
    using assms(6,8) by (simp only: unat_drop_bit) simp
  moreover have "unat (file_offset fl) mod 512 = o'"
    unfolding assms(6) using assms(8) by (simp only: mod_mult_self3 mod_less)
  then have "file_offset fl AND (512 - 1) = of_nat o'"
    using assms(8) by (simp add: word_unat_eq_iff unat_and_511 unat_of_nat)
  ultimately have "grub_fs_blocklist_read hook_of (Some \<lparr> gd_disk = Some \<lparr> od_disk = disk, od_dev = Some drv \<rparr> \<rparr>) fl len st =
      Some (if e \<noteq> GRUB_ERR_NONE then (-1, buf) else (int (unat len), buf), st')"
    using read_in_block [where rd = "grub_disk_read (dev_read drv) ?hook disk", OF assms(5) _ assms(7-11) run,
        of "drop_bit 9 (file_offset fl)" post] clip
    by (simp add: grub_fs_blocklist_read_def assms(4))
  then show ?thesis
    using rdy ok live assms(10) adjusted_image [OF sz adj, of content] by auto
qed

text \<open>The second sector of the sample disk as a block list, behind a block that is skipped.\<close>

definition block_file :: "unit fs_file" where
  "block_file = fresh_file\<lparr> file_size := 1024, file_offset := 612, file_data := Blocks ([(0, 1)] @ (1, 1) # []) \<rparr>"

theorem blocklist_read_in_block_witness:
  "\<exists>st'. grub_fs_blocklist_read (\<lambda>_ _. None) (Some sample_device) block_file 50 sample_state = Some ((50, replicate 50 7), st')"
proof -
  have h: "hooked_device (dev_read sample_dev) (loop_content sample_loops) (loop_good sample_loops) (loop_served (loop_devs sample_loops)) True None"
    using procfs_hooked.hooked_device_axioms by simp
  have rdy: "open_ready (loop_content sample_loops) (loop_good sample_loops) sample_state"
    using sample_inv by (simp add: open_ready_def sample_state_simps)
  have d: "unat (of_nat (x div 512) :: u64) * 512 + x mod 512 = x" if "x < 1000" for x :: nat
  proof -
    have "x div 512 < 2 ^ 64" by (rule le_less_trans [OF div_le_dividend]) (use that in simp)
    then show ?thesis by (simp add: unat_of_nat)
  qed
  have "image_bytes (part_image (loop_content sample_loops) sample_disk) 1 100 50 = replicate 50 7"
    by (intro replicate_eqI)
      (auto simp: image_bytes_def part_image_def sample_disk_def loop_content_def sample_devs byte_at_def d simp del: upt_rec_numeral)
  then show ?thesis
    using blocklist_read_in_block [where hook_of = "\<lambda>_ _. None" and fl = block_file and s = 0 and o' = 100 and len = 50,
        OF h sample_served rdy, of "[(0, 1)]" 1 1 "[]"] sample_quiet
    by (auto simp: block_file_def fresh_file_def sample_range)
qed







subsection \<open>Checksums\<close>


subsection \<open>The lost partition search\<close>

text \<open>An environment of the search that reads zeros from the device and never stops it.\<close>

definition zero_env :: "'h dstate lost_env" where
  "zero_env = \<lparr> le_read = (\<lambda>_ _ n st. Some ((GRUB_ERR_NONE, replicate n 0), st)),
     le_probe = (\<lambda>_ _ _ st. Some ((GRUB_ERR_UNKNOWN_FS, None, None, None), st)), le_hook = (\<lambda>_ st. Some (False, st)),
     le_malloc = grub_malloc, le_errno = d_errno, le_set_errno = set_errno, le_error = raise_error \<rparr>"

lemma zero_env_ok: "env_returns zero_env" "never_stops zero_env"
  by (simp_all add: zero_env_def env_returns_def never_stops_def)

abbreviation sample_range_at :: "u64 \<Rightarrow> u64 \<Rightarrow> lost_range" where
  "sample_range_at s e \<equiv> \<lparr> r_start = s, r_end = e, r_readable = True \<rparr>"

definition sample_scan :: "u64 \<Rightarrow> u64 \<Rightarrow> lost_range list \<Rightarrow> bytes lstate rover_lost_scan" where
  "sample_scan sz pos rs = (new_scan sample_state ROVER_LOST_SCAN_DEEP)\<lparr> sc_size := sz, sc_sector_size := 512,
     sc_base_readable := False, sc_ranges := rs, sc_pos := pos \<rparr>"

lemma sample_scan_wf: "scan_wf (sample_scan sz pos rs)"
  by (simp add: sample_scan_def new_scan_def scan_wf_def wf_defs)

text \<open>
  C11. The lost partition search ends. On a device below \<open>2 ^ 63\<close> bytes, when no partition of its
  table reaches across its end, when the reads, the drivers and the caller's hook return and the hook
  never asks to stop, the search that \<open>rover_lost_scan_begin\<close> starts can be set up, and the caller's
  loop over \<open>rover_lost_scan_step\<close> with any budget of at least two bytes returns: with 0 at the end of
  the search or with -1 after a failure, in both cases with the search marked as done.
\<close>

theorem lost_search_ends:
  fixes env :: "'h dstate lost_env" and w :: "'h dstate"
  assumes "env_returns env" and "never_stops env" and "\<And>name w. readable name w \<noteq> None" and "length names = length rs"
    and "unat sz < 2 ^ 63" and "ucast ss \<le> sz"
    and "\<forall>r \<in> set rs. unat (r_end r) \<le> 2 ^ 63 \<and> \<not> (r_start r \<le> sz \<and> sz < r_end r)" and "2 \<le> unat budget"
  shows "\<exists>failed scan. begin_hints env readable names
      ((new_scan w flags)\<lparr> sc_size := sz, sc_sector_size := ss, sc_base_readable := b, sc_ranges := rs \<rparr>) = Some (failed, scan)
    \<and> (\<exists>more scan'. search_loop env budget scan = Some (more, scan') \<and> more \<in> {-1, 0} \<and> sc_done scan')"
  by (rule begun_search_ends) (use assms in auto)

theorem lost_search_ends_witness:
  "\<exists>failed scan. begin_hints zero_env (\<lambda>_ w. Some (True, w)) [''loop0,msdos1'']
      ((new_scan sample_state 0)\<lparr> sc_size := 0x400000, sc_sector_size := 512, sc_base_readable := False,
        sc_ranges := [sample_range_at 0x100000 0x200000] \<rparr>) = Some (failed, scan)
    \<and> (\<exists>more scan'. search_loop zero_env 0x10000000 scan = Some (more, scan') \<and> more \<in> {-1, 0} \<and> sc_done scan')"
  by (rule lost_search_ends [OF zero_env_ok]) (simp_all add: word_le_nat_alt)

text \<open>
  C39. A truncated device defeats the deep search: when a readable partition starts at the position
  and reaches a budget beyond the end of the device, the caller's loop fails or never returns, because
  the position is put back to the end of the device after every step over that partition.
\<close>

theorem truncated_device_never_ends:
  assumes "env_returns env" and "scan_wf scan" and "bounded scan" and "\<not> sc_done scan" and "\<not> sc_finishing scan"
    and "sc_flags scan AND ROVER_LOST_SCAN_DEEP \<noteq> 0"
    and "lost_range_at scan (sc_pos scan) True = Some q" and "r_start q = sc_pos scan" and "sc_pos scan < sc_size scan"
    and "lost_range_at scan (sc_size scan) True = Some q"
    and "budget \<noteq> 0" and "unat (sc_size scan) + unat budget \<le> unat (r_end q)"
  shows "search_loop env budget scan = None \<or> (\<exists>scan1. search_loop env budget scan = Some (-1, scan1))"
  by (rule truncated_search_loop [OF truncated_partition_stuck [OF assms]])

theorem truncated_device_never_ends_witness:
  "search_loop zero_env 0x10000000 (sample_scan 0x400000 0x100000 [sample_range_at 0x100000 0x20000000]) = None \<or>
   (\<exists>scan1. search_loop zero_env 0x10000000 (sample_scan 0x400000 0x100000 [sample_range_at 0x100000 0x20000000]) = Some (-1, scan1))"
proof -
  let ?scan = "sample_scan 0x400000 0x100000 [sample_range_at 0x100000 0x20000000]"
  have b: "bounded ?scan" by (simp add: bounded_def sample_scan_def)
  show ?thesis
    by (rule truncated_device_never_ends [OF zero_env_ok(1) sample_scan_wf b, where q = "sample_range_at 0x100000 0x20000000"])
      (simp_all add: sample_scan_def new_scan_def lost_range_at_def)
qed

text \<open>
  C12. Everything the search hands to its caller lies inside the device: the partition starts inside
  it, its window is a whole number of sectors that ends inside it, each remap lies inside the window,
  and the flag for a truncated partition is set exactly if the recorded size reaches beyond the end,
  in unbounded arithmetic. A hook that does not return on any other partition is not told apart.
\<close>

theorem reported_partitions_inside:
  assumes "env_returns env" and "scan_wf scan" and "bounded scan"
  shows "rover_lost_scan_step (guarded (part_inside (sc_size scan) (sc_sector_size scan)) env) budget scan
    = rover_lost_scan_step env budget scan"
  by (rule step_inside [OF assms])

theorem reported_partitions_inside_witness:
  "rover_lost_scan_step (guarded (part_inside 0x400000 512) zero_env) 0 (sample_scan 0x400000 0 [])
    = rover_lost_scan_step zero_env 0 (sample_scan 0x400000 0 [])"
proof -
  have b: "bounded (sample_scan 0x400000 0 [])" by (simp add: bounded_def sample_scan_def)
  have "sc_size (sample_scan 0x400000 0 []) = 0x400000" "sc_sector_size (sample_scan 0x400000 0 []) = 512"
    by (simp_all add: sample_scan_def)
  with reported_partitions_inside [OF zero_env_ok(1) sample_scan_wf b, of 0] show ?thesis by simp
qed

text \<open>
  C28. \<open>lost_next\<close> gives the first candidate: no candidate of the device (a hint, a multiple of a
  mebibyte or, with sectors of 512 bytes, a track of the head geometry) lies between the offset it is
  asked for and its result, and a result inside the device is a candidate itself. Beyond the last
  candidate it gives an offset behind the device.
\<close>

theorem lost_next_is_first:
  assumes "scan_wf scan" and "unat offset \<le> 2 ^ 63" and "unat (sc_size scan) < 2 ^ 63"
  shows "(lost_next scan offset \<le> sc_size scan \<longrightarrow> offset \<le> lost_next scan offset \<and> candidate scan (unat (lost_next scan offset))) \<and>
    (\<forall>x. candidate scan x \<and> unat offset \<le> x \<and> x \<le> unat (sc_size scan) \<longrightarrow>
       lost_next scan offset \<le> sc_size scan \<and> unat (lost_next scan offset) \<le> x)"
proof (rule lost_next_cases [OF assms(1,2)])
  fix best :: u64
  assume n: "lost_next scan offset = (if best > sc_size scan then sc_size scan + 1 else best)"
    and b: "unat offset \<le> unat best" "candidate scan (unat best)" "\<And>x. candidate scan x \<Longrightarrow> unat offset \<le> x \<Longrightarrow> unat best \<le> x"
  have lt: "\<not> sc_size scan + 1 \<le> sc_size scan" using assms(3) by (simp add: word_le_nat_alt unat_plus_exact)
  show ?thesis
  proof (cases "best > sc_size scan")
    case True
    then have "unat (sc_size scan) < unat best" by (simp add: word_less_nat_alt)
    then have "\<not> (candidate scan x \<and> unat offset \<le> x \<and> x \<le> unat (sc_size scan))" for x using b(3) [of x] by auto
    then show ?thesis using lt True by (simp add: n)
  next
    case False
    then have "lost_next scan offset = best" "best \<le> sc_size scan" by (simp_all add: n)
    then show ?thesis using b by (auto simp: word_le_nat_alt intro: order_trans)
  qed
qed

theorem lost_next_is_first_witness:
  "lost_next (sample_scan 0x400000 0 []) 0x180000 \<le> 0x400000 \<and> unat (lost_next (sample_scan 0x400000 0 []) 0x180000) \<le> 0x200000"
proof -
  have s: "sc_size (sample_scan 0x400000 0 []) = 0x400000" by (simp add: sample_scan_def)
  have "candidate (sample_scan 0x400000 0 []) 0x200000" by (simp add: candidate_def)
  with lost_next_is_first [where offset = "0x180000" and scan = "sample_scan 0x400000 0 []", OF sample_scan_wf, THEN conjunct2,
      THEN spec [where x = "0x200000"]] show ?thesis by (simp add: s)
qed

text \<open>
  C29. The sizes the search reads from superblocks and boot sectors are exact: whenever one is
  accepted, the size is the product of the block count and the block size of the record (for JFS with
  the fsck working space and the log added), not reduced modulo \<open>2 ^ 64\<close>, and not zero. NTFS is the
  exception: the size of its largest volume with sectors of 4096 bytes is zero.
\<close>

theorem lost_sizes_exact:
  "(lost_exfat bs = Some (shift, sz) \<longrightarrow> exact_product sz (unat (lost_le64 bs 0x48)) (2 ^ unat shift)) \<and>
   (lost_ext bs = Some (type, sz, at) \<longrightarrow> exact_product sz (unat (ext_blocks bs)) (2 ^ (10 + unat (lost_le32 bs 0x18)))) \<and>
   (lost_apfs bs avail = Some sz \<longrightarrow> exact_product sz (unat (lost_le64 bs 40)) (unat (lost_le32 bs 36))) \<and>
   (lost_refs bs = Some sz \<longrightarrow> exact_product sz (unat (lost_le64 bs 0x18)) (unat (lost_le32 bs 0x20))) \<and>
   (lost_f2fs bs = Some sz \<longrightarrow> exact_product sz (unat (lost_le64 bs 36)) 4096) \<and>
   (lost_reiserfs bs = Some sz \<longrightarrow> exact_product sz (unat (lost_le32 bs 0)) (unat (lost_le16 bs 0x2c))) \<and>
   (lost_iso bs = Some sz \<longrightarrow> exact_product sz (unat (lost_le32 bs 80)) (unat (lost_le16 bs 128))) \<and>
   (lost_jfs bs = Some sz \<longrightarrow> unat sz = unat (lost_le64 bs 8) * unat (lost_le32 bs 24)
       + unat (lost_le32 bs 16) * (unat (lost_le32 bs 72 AND 0xffffff) + unat (lost_le32 bs 80 AND 0xffffff)) \<and> 0 < unat sz) \<and>
   (lost_ntfs bs = Some (sz, bps) \<longrightarrow> exact_product sz (unat (lost_le64 bs 0x28) + 1) (unat bps) \<or>
       (lost_le64 bs 0x28 = push_bit 52 1 - 1 \<and> bps = 4096 \<and> sz = 0))"
  by (intro conjI impI; (rule lost_exfat_size lost_ext_size lost_apfs_size lost_refs_size lost_f2fs_size lost_reiserfs_size
      lost_iso_size lost_jfs_size [THEN conjunct1] lost_jfs_size [THEN conjunct2] lost_ntfs_size(2), assumption))

text \<open>The superblock of a ReiserFS of 300 blocks of 4096 bytes.\<close>

definition reiser_sb :: bytes where
  "reiser_sb = [0x2c, 1] @ replicate 42 0 @ [0, 0x10] @ replicate 4 0 @ [1, 0] @ ascii ''ReIsEr2Fs''"

theorem lost_sizes_exact_witness: "lost_reiserfs reiser_sb = Some 1228800 \<and> exact_product 1228800 300 4096"
proof -
  have r: "lost_reiserfs reiser_sb = Some 1228800"
    by (simp add: lost_reiserfs_def reiser_sb_def has_text_def lost_le32_def lost_le16_def byte_at_def ascii_def nth_append Let_def)
  have v: "unat (lost_le32 reiser_sb 0) = 300" "unat (lost_le16 reiser_sb 0x2c) = 4096"
    by (simp_all add: reiser_sb_def lost_le32_def lost_le16_def byte_at_def nth_append)
  show ?thesis using lost_sizes_exact [of reiser_sb _ 1228800] r v by simp
qed

subsection \<open>Lost devices\<close>

text \<open>
  C13. A lost device is a window: after it was opened, a read of whole sectors inside it gives the bytes
  of the parent from the start of the window on, where the bytes of a remapped range come from its
  source in the window (and from the last of several remaps that cover them). If reads of the parent
  are reliable the read succeeds. The contract of the parent is the locale \<open>parent_disk\<close>, which
  \<open>grub_disk_read\<close> on a loopback disk meets (interpretation \<open>loop_parent\<close>).
\<close>

theorem lost_device_reads_window:
  assumes "parent_disk ops parent img tot ok live" and "lost_list_ok ops (d_ext st)"
    and "lostdisk_open ops name disk0 st = Some (GRUB_ERR_NONE, disk, st1)"
    and "lostdisk_find name (lostdisk_list (d_ext st)) = Some dev" and "ld_parent dev = parent"
    and "9 \<le> disk_log_sector_size (pd_disk ops parent)" and "disk_log_sector_size (pd_disk ops parent) \<le> 15"
    and "(unat (ld_start dev) + unat (ld_sectors dev)) * 512 \<le> tot" and "ok st1"
    and "0 < unat n" and "unat sector + unat n \<le> unat (disk_total_sectors disk)"
    and "lostdisk_read ops disk sector n st1 = ((e, buf), st')"
  shows "ok st' \<and> (live \<longrightarrow> e = GRUB_ERR_NONE) \<and> (e = GRUB_ERR_NONE \<longrightarrow>
    buf = window_bytes img (unat (ld_start dev) * 512) (ld_remap dev)
      (unat sector * 2 ^ disk_log_sector_size disk) ((unat sector + unat n) * 2 ^ disk_log_sector_size disk))"
  by (rule parent_disk.lost_open_read [OF assms])

text \<open>A lost device over the loopback sample: its first twenty bytes are read from offset 1000, behind the end of the file.\<close>

abbreviation lost_sample_ops :: "(grub_disk, bytes loop_state) lost_parents" where
  "lost_sample_ops \<equiv> disk_parents (\<lambda>_ st. Some (Some sample_disk, st)) (\<lambda>_ st. Some st) (grub_loopback_read grub_procfs_read None)"

definition lost_sample :: "grub_disk lostdisk" where
  "lost_sample = \<lparr> ld_devname = ''lost0'', ld_parent_name = Some ''loop0'', ld_parent = sample_disk, ld_start = 0,
     ld_sectors = 2, ld_remap = [\<lparr> rm_target = 0, rm_source = 1000, rm_length = 20 \<rparr>], ld_id = 0, ld_refcnt = 0 \<rparr>"

definition lost_sample_state :: "grub_disk lostdisk list \<Rightarrow> (grub_disk, bytes loop_state) ldstate" where
  "lost_sample_state l = dstate_init (\<lambda>_. True) \<lparr> lostdisk_list = l, lostdisk_last_id = 1, lost_below = sample_loops \<rparr>"

lemma lost_sample_ext: "d_ext (lost_sample_state l) = \<lparr> lostdisk_list = l, lostdisk_last_id = 1, lost_below = sample_loops \<rparr>"
  by (simp add: lost_sample_state_def dstate_init_def)

lemma lost_sample_parent: "loop_parent_ok sample_loops sample_disk (set_lost_list l (lost_sample_state [d]))"
proof -
  have b: "below (set_lost_list l (lost_sample_state [d])) = sample_state"
    by (simp add: below_def set_lost_list_def lost_sample_state_def dstate_init_def)
  have "cache_inv (loop_content sample_loops) (\<lambda>ld. loop_good sample_loops (lost_below ld)) (set_lost_list l (lost_sample_state [d]))"
    using sample_inv unfolding b [symmetric] by simp
  moreover have "quiet True (set_lost_list l (lost_sample_state [d]))" using sample_quiet unfolding b [symmetric] by simp
  ultimately show ?thesis
    using sample_served
    by (simp add: loop_parent_ok_def parent_ok_def set_lost_list_def lost_sample_state_def dstate_init_def err_init_def)
      (simp add: sample_disk_def)
qed

theorem lost_device_reads_window_witness:
  "\<exists>disk st1 buf st'. lostdisk_open lost_sample_ops ''lost0'' sample_disk (lost_sample_state [lost_sample]) = Some (GRUB_ERR_NONE, disk, st1)
     \<and> lostdisk_read lost_sample_ops disk 0 1 st1 = ((GRUB_ERR_NONE, buf), st') \<and> buf ! 19 = 0 \<and> buf ! 20 = 7"
proof -
  let ?st = "lost_sample_state [lost_sample]"
  let ?disk = "sample_disk\<lparr> disk_total_sectors := 2, disk_id := 0 \<rparr>"
  let ?st1 = "set_lost_list [lost_sample\<lparr> ld_refcnt := 1 \<rparr>] ?st"
  have find: "lostdisk_find ''lost0'' (lostdisk_list (d_ext ?st)) = Some lost_sample"
    by (simp add: lost_sample_ext lostdisk_find_def lost_sample_def grub_strcmp.simps)
  have o: "lostdisk_open lost_sample_ops ''lost0'' sample_disk ?st = Some (GRUB_ERR_NONE, ?disk, ?st1)"
    using find by (simp add: lostdisk_open_def lost_sample_ext lost_sample_def grub_add_def disk_parents_def sample_disk_def Let_def)
  have ok: "lost_list_ok lost_sample_ops (d_ext ?st)"
    by (simp add: lost_sample_ext lost_list_ok_def lost_dev_ok_def lost_sample_def remap_fits_def disk_parents_def
        sample_disk_def grub_disk_native_sectors_def LOSTDISK_PROBE_NAME_def)
  have total: "unat (clamped_total sample_disk) = 2" by (simp add: clamped_total_def sample_disk_def word_less_nat_alt)
  obtain e buf st' where run: "lostdisk_read lost_sample_ops ?disk 0 1 ?st1 = ((e, buf), st')" by (metis surj_pair)
  have c: "loop_content sample_loops (disk_dev_id sample_disk) (disk_id sample_disk) k = (if k < 1000 then 7 else 0)" if "k < 1024" for k
    using that by (simp add: loop_content_def sample_disk_def sample_devs byte_at_def)
  have "e = GRUB_ERR_NONE \<and> buf = window_bytes (loop_content sample_loops (disk_dev_id sample_disk) (disk_id sample_disk)) 0
      [\<lparr> rm_target = 0, rm_source = 1000, rm_length = 20 \<rparr>] 0 512"
    using lost_device_reads_window [OF loop_parent.parent_disk_axioms ok o find _ _ _ _ lost_sample_parent _ _ run]
    by (simp add: total [unfolded sample_disk_def] lost_sample_def disk_parents_def sample_disk_def)
  then have "e = GRUB_ERR_NONE" "buf ! 19 = 0" "buf ! 20 = 7"
    using c [of 1019] c [of 20] by (simp_all add: window_bytes_def remapped_def remap_step_def)
  then show ?thesis using o run by blast
qed

text \<open>
  C14. The list of the lost devices stays well-formed: names and identifiers are distinct, every device
  is a window of whole sectors inside its parent with at most two remaps, all inside the window.
  Adding a device keeps this and either changes no device or adds exactly one that is then found under
  a name no other device has, with the window and remaps asked for; deleting keeps it and, when it
  succeeds, no device of that name is left; opening and closing only count references.
\<close>

theorem lost_devices_well_formed:
  assumes "lost_list_ok ops (d_ext st)" and "parents_keep ops" and "CHR 0x00 \<notin> set devname" and "lostdisk_last_id (d_ext st) \<noteq> NOT 0"
  shows "(rover_lost_add_ex ops devname parent offset sz remap st = Some (e, st') \<longrightarrow> lost_list_ok ops (d_ext st') \<and>
      (same_devices (d_ext st) (d_ext st') \<or> e = GRUB_ERR_NONE \<and> devname \<notin> set (map ld_devname (lostdisk_list (d_ext st))) \<and>
        (\<exists>dev. lostdisk_find devname (lostdisk_list (d_ext st')) = Some dev \<and> ld_parent_name dev = Some parent \<and>
           ld_start dev = drop_bit 9 offset \<and> ld_sectors dev = drop_bit 9 sz \<and> ld_remap dev = remap))) \<and>
    (rover_lost_del ops devname st = Some (e, st') \<longrightarrow> lost_list_ok ops (d_ext st') \<and>
      (e = GRUB_ERR_NONE \<longrightarrow> lostdisk_find devname (lostdisk_list (d_ext st')) = None) \<and>
      (e \<noteq> GRUB_ERR_NONE \<longrightarrow> same_devices (d_ext st) (d_ext st'))) \<and>
    (lostdisk_open ops devname disk st = Some (e, disk', st') \<longrightarrow> lost_list_ok ops (d_ext st') \<and> same_devices (d_ext st) (d_ext st')) \<and>
    (lostdisk_close disk st = Some st' \<longrightarrow> lost_list_ok ops (d_ext st') \<and> same_devices (d_ext st) (d_ext st'))"
  using lost_add_cases [OF assms] lost_del_cases [OF assms(1-3)] lost_open_same lost_close_same same_devices_ok [OF _ assms(1)]
  by (intro conjI impI) blast+

theorem lost_devices_well_formed_witness:
  "\<exists>st'. rover_lost_add_ex lost_sample_ops ''lost1'' ''loop0'' 512 512 [] (lost_sample_state [lost_sample]) = Some (GRUB_ERR_NONE, st') \<and>
     lost_list_ok lost_sample_ops (d_ext st') \<and> lostdisk_find ''lost1'' (lostdisk_list (d_ext st')) \<noteq> None"
proof -
  let ?st = "lost_sample_state [lost_sample]"
  have ok: "lost_list_ok lost_sample_ops (d_ext ?st)"
    by (simp add: lost_sample_ext lost_list_ok_def lost_dev_ok_def lost_sample_def remap_fits_def disk_parents_def
        sample_disk_def grub_disk_native_sectors_def LOSTDISK_PROBE_NAME_def)
  have keep: "parents_keep lost_sample_ops"
    by (simp add: parents_keep_def disk_parents_def same_devices_refl sample_disk_def)
  have "\<exists>st'. rover_lost_add_ex lost_sample_ops ''lost1'' ''loop0'' 512 512 [] ?st = Some (GRUB_ERR_NONE, st')"
    by (simp add: rover_lost_add_ex_def Let_def lost_sample_ext LOSTDISK_PROBE_NAME_def lostdisk_find_def lost_sample_def
        grub_strcmp.simps lostdisk_check_remap_def disk_parents_def whole_sectors_def range_on_disk_def sample_disk_def
        grub_disk_native_sectors_def lost_alloc_def grub_malloc_def lost_sample_state_def dstate_init_def set_errno_def)
  then obtain st' where a: "rover_lost_add_ex lost_sample_ops ''lost1'' ''loop0'' 512 512 [] ?st = Some (GRUB_ERR_NONE, st')" by blast
  have "\<not> same_devices (d_ext ?st) (d_ext st')"
    using a by (auto simp: rover_lost_add_ex_def Let_def lost_sample_ext LOSTDISK_PROBE_NAME_def lostdisk_find_def lost_sample_def
        grub_strcmp.simps lostdisk_check_remap_def disk_parents_def whole_sectors_def range_on_disk_def sample_disk_def push_lost_def
        grub_disk_native_sectors_def lost_alloc_def grub_malloc_def lost_sample_state_def dstate_init_def set_errno_def same_devices_def)
  then show ?thesis
    using a lost_devices_well_formed [OF ok keep, of "''lost1''" "''loop0''" 512 512 "[]" GRUB_ERR_NONE st'] by (auto simp: lost_sample_ext)
qed

end
